(* ===== verification/Prelude.thy ===== *)
theory Prelude
  imports Main "HOL-Library.Word"
begin

text \<open>
  Shared vocabulary of the development: the machine types of the flight software, the
  result codes of its operating system layer, and the generic facts on words, byte lists
  and list updates that the component theories use. Multi-byte values are related to byte
  lists once, here, by \<open>le_bytes\<close> and \<open>le_word\<close>; every serialiser and parser lemma of
  the other theories goes through them.
\<close>

unbundle bit_operations_syntax

section \<open>Machine types\<close>

type_synonym u8 = "8 word"
type_synonym u16 = "16 word"
type_synonym u32 = "32 word"
type_synonym u64 = "64 word"
type_synonym bytes = "8 word list"

text \<open>
  Collections: \<open>byte_simps\<close> holds rewriting rules on bytes and byte lists, \<open>run_simps\<close>
  the characteristic equations of the stateful operations on their defined domain, and
  \<open>left_simps\<close> evaluates a sequence of reads.
\<close>

named_theorems byte_simps \<open>bytes of words and words of bytes\<close>
named_theorems run_simps \<open>effect of an operation where its guard holds\<close>
named_theorems left_simps \<open>what a sequence of reads leaves\<close>

section \<open>Bytes of words, words of bytes\<close>

text \<open>Byte number \<open>i\<close> of a word; \<open>(word >> (8 * i)) & 0xff\<close> in the code (\<open>byte_mask\<close>).\<close>

definition byte_of :: "nat \<Rightarrow> 'a::len word \<Rightarrow> u8" where
  "byte_of i w = ucast (drop_bit (8 * i) w)"

definition le_bytes :: "nat \<Rightarrow> 'a::len word \<Rightarrow> bytes" where
  "le_bytes n w = map (\<lambda>i. byte_of i w) [0..<n]"

text \<open>Horner evaluation of a little-endian byte list, as \<open>value <<= 8; value += b\<close>.\<close>

fun le_word :: "bytes \<Rightarrow> 'a::len word" where
  "le_word [] = 0"
| "le_word (b # bs) = push_bit 8 (le_word bs) + ucast b"

lemma bit_byte_of [bit_simps]:
  "bit (byte_of i w) k \<longleftrightarrow> k < 8 \<and> bit w (8 * i + k)"
  by (auto simp: byte_of_def bit_simps)

lemma low_byte_mask: "(0xff :: 'a::len word) = mask 8"
  by (simp add: mask_eq_exp_minus_1)

lemma byte_mask [byte_simps]: "(ucast (w AND 0xff) :: u8) = ucast w"
  by (rule bit_word_eqI) (auto simp: low_byte_mask bit_simps dest: bit_imp_le_length)

lemma byte_mask_shift [byte_simps]:
  "(ucast (drop_bit k w AND 0xff) :: u8) = ucast (drop_bit k w)"
  by (rule byte_mask)

lemma length_le_bytes [simp]: "length (le_bytes n w) = n"
  by (simp add: le_bytes_def)

lemma le_bytes_0 [simp]: "le_bytes 0 w = []"
  by (simp add: le_bytes_def)

lemma nth_le_bytes [simp]: "i < n \<Longrightarrow> le_bytes n w ! i = byte_of i w"
  by (simp add: le_bytes_def)

lemma shift_add_byte:
  "push_bit 8 (v :: 'a::len word) + ucast (b :: u8) = push_bit 8 v OR ucast b"
  by (rule disjunctive_add) (auto simp: bit_simps dest: bit_imp_le_length)

lemma bit_le_word [bit_simps]:
  "bit (le_word bs :: 'a::len word) k \<longleftrightarrow>
     k < LENGTH('a) \<and> k < 8 * length bs \<and> bit (bs ! (k div 8)) (k mod 8)"
proof (induction bs arbitrary: k)
  case Nil
  then show ?case by simp
next
  case (Cons b bs)
  show ?case
  proof (cases "k < 8")
    case True
    then show ?thesis by (auto simp: shift_add_byte bit_simps)
  next
    case False
    then have "k div 8 = Suc ((k - 8) div 8)" and "(k - 8) mod 8 = k mod 8"
      by (auto simp: le_div_geq le_mod_geq not_less)
    with False Cons.IH [of "k - 8"] show ?thesis
      by (auto simp: shift_add_byte bit_simps dest: bit_imp_le_length)
  qed
qed

lemma le_word_le_bytes [byte_simps]:
  assumes "LENGTH('a) \<le> 8 * n"
  shows "le_word (le_bytes n (w :: 'a::len word)) = w"
proof (rule bit_word_eqI)
  fix k assume k: "k < LENGTH('a)"
  with assms have "k div 8 < n" by (simp add: less_mult_imp_div_less mult.commute)
  with k assms show "bit (le_word (le_bytes n w) :: 'a word) k \<longleftrightarrow> bit w k"
    by (simp add: bit_simps mult.commute)
qed

lemma le_bytes_le_word [byte_simps]:
  assumes "8 * length bs \<le> LENGTH('a)" and "n = length bs"
  shows "le_bytes n (le_word bs :: 'a::len word) = bs"
proof (rule nth_equalityI)
  show "length (le_bytes n (le_word bs :: 'a word)) = length bs" using assms by simp
next
  fix i assume "i < length (le_bytes n (le_word bs :: 'a word))"
  then have i: "i < length bs" using assms by simp
  show "le_bytes n (le_word bs :: 'a word) ! i = bs ! i"
  proof (rule bit_word_eqI)
    fix k assume "k < LENGTH(8)"
    then have "8 * i + k < 8 * length bs" using i by simp
    with \<open>k < LENGTH(8)\<close> i assms
    show "bit (le_bytes n (le_word bs :: 'a word) ! i) k \<longleftrightarrow> bit (bs ! i) k"
      by (simp add: bit_simps)
  qed
qed

lemma le_bytes_inj:
  assumes "LENGTH('a) \<le> 8 * n" and "le_bytes n v = le_bytes n (w :: 'a::len word)"
  shows "v = w"
  using assms le_word_le_bytes by metis

section \<open>Runs of bytes in a buffer\<close>

text \<open>\<open>put_at p xs ys\<close> overwrites \<open>ys\<close> from index \<open>p\<close> with \<open>xs\<close> (\<open>memcpy\<close> inside a span).\<close>

definition put_at :: "nat \<Rightarrow> 'a list \<Rightarrow> 'a list \<Rightarrow> 'a list" where
  "put_at p xs ys = take p ys @ take (length ys - p) xs @ drop (p + length xs) ys"

definition sub_at :: "nat \<Rightarrow> nat \<Rightarrow> 'a list \<Rightarrow> 'a list" where
  "sub_at p n xs = take n (drop p xs)"

lemma length_put_at [simp]: "p \<le> length ys \<Longrightarrow> length (put_at p xs ys) = length ys"
  by (auto simp: put_at_def)

lemma length_sub_at [simp]: "p + n \<le> length xs \<Longrightarrow> length (sub_at p n xs) = n"
  by (simp add: sub_at_def)

lemma put_at_Nil [simp]: "put_at p [] ys = ys"
  by (simp add: put_at_def)

lemma nth_put_at:
  assumes "p + length xs \<le> length ys" and "i < length ys"
  shows "put_at p xs ys ! i = (if p \<le> i \<and> i < p + length xs then xs ! (i - p) else ys ! i)"
  using assms by (auto simp: put_at_def nth_append min_def)

lemma take_put_at [simp]:
  "p + length xs \<le> length ys \<Longrightarrow> take (p + length xs) (put_at p xs ys) = take p ys @ xs"
  by (simp add: put_at_def)

lemma sub_at_put_at [simp]:
  "p + length xs \<le> length ys \<Longrightarrow> n = length xs \<Longrightarrow> sub_at p n (put_at p xs ys) = xs"
  by (simp add: put_at_def sub_at_def min_def)

lemma put_at_append:
  assumes "p + length xs + length zs \<le> length ys"
  shows "put_at (p + length xs) zs (put_at p xs ys) = put_at p (xs @ zs) ys"
proof (rule nth_equalityI)
  show "length (put_at (p + length xs) zs (put_at p xs ys)) = length (put_at p (xs @ zs) ys)"
    using assms by simp
  fix i assume "i < length (put_at (p + length xs) zs (put_at p xs ys))"
  then show "put_at (p + length xs) zs (put_at p xs ys) ! i = put_at p (xs @ zs) ys ! i"
    using assms by (auto simp: nth_put_at nth_append)
qed

lemma list_update_put_at: "p < length ys \<Longrightarrow> ys[p := x] = put_at p [x] ys"
  by (simp add: put_at_def upd_conv_take_nth_drop)

lemma sub_at_append:
  "p + m \<le> length xs \<Longrightarrow> sub_at p m xs @ sub_at (p + m) n xs = sub_at p (m + n) xs"
  by (simp add: sub_at_def take_add add.commute)

lemma sub_at_0 [simp]: "sub_at p 0 xs = []"
  by (simp add: sub_at_def)

lemma nth_sub_at [simp]: "i < n \<Longrightarrow> p + i < length xs \<Longrightarrow> sub_at p n xs ! i = xs ! (p + i)"
  by (simp add: sub_at_def)

lemma sub_at_Suc: "p < length xs \<Longrightarrow> sub_at p (Suc n) xs = xs ! p # sub_at (Suc p) n xs"
  by (simp add: sub_at_def Cons_nth_drop_Suc [symmetric])

lemma put_at_Cons:
  assumes "p + length xs < length ys"
  shows "put_at p (x # xs) ys = put_at (Suc p) xs (ys[p := x])"
proof (rule nth_equalityI)
  show "length (put_at p (x # xs) ys) = length (put_at (Suc p) xs (ys[p := x]))"
    using assms by simp
  fix i assume "i < length (put_at p (x # xs) ys)"
  then show "put_at p (x # xs) ys ! i = put_at (Suc p) xs (ys[p := x]) ! i"
    using assms by (auto simp: nth_put_at nth_Cons' nth_list_update)
qed

lemma map_of_image: "k \<in> g ` set xs \<Longrightarrow> map_of (map (\<lambda>x. (g x, h (g x))) xs) k = Some (h k)"
  by (induction xs) auto

section \<open>Exclusive or\<close>

lemma xor_eq_0 [simp]: "v XOR w = 0 \<longleftrightarrow> v = (w :: 'a::len word)"
proof
  assume "v XOR w = 0"
  then have "bit (v XOR w) n = bit (0 :: 'a word) n" for n by simp
  then show "v = w" by (intro bit_word_eqI) (simp add: bit_xor_iff)
qed simp

lemma xor_cancel [simp]: "v XOR k = w XOR k \<longleftrightarrow> v = (w :: 'a::len word)"
proof
  assume "v XOR k = w XOR k"
  then have "bit (v XOR k) n = bit (w XOR k) n" for n by simp
  then show "v = w" by (intro bit_word_eqI) (auto simp: bit_xor_iff)
qed simp

section \<open>Two's complement\<close>

lemma sint_small:
  fixes x :: "'a::len word"
  assumes "uint x < 2 ^ (LENGTH('a) - 1)"
  shows "sint x = uint x"
proof -
  have "- (2 ^ (LENGTH('a) - 1)) \<le> uint x"
    by (rule order_trans [OF _ uint_ge_0]) simp
  with assms show ?thesis by (simp add: sint_uint signed_take_bit_int_eq_self)
qed

section \<open>Truncating division\<close>

text \<open>\<open>/\<close> on signed integers and \<open>std::chrono::duration_cast\<close> round towards zero.\<close>

definition tdiv :: "int \<Rightarrow> int \<Rightarrow> int" where
  "tdiv a b = sgn a * sgn b * (\<bar>a\<bar> div \<bar>b\<bar>)"

definition tmod :: "int \<Rightarrow> int \<Rightarrow> int" where
  "tmod a b = a - b * tdiv a b"

lemma tdiv_nonneg: "0 \<le> a \<Longrightarrow> 0 < b \<Longrightarrow> tdiv a b = a div b"
  by (cases "a = 0") (simp_all add: tdiv_def)

lemma tmod_nonneg: "0 \<le> a \<Longrightarrow> 0 < b \<Longrightarrow> tmod a b = a mod b"
  by (simp add: tmod_def tdiv_nonneg minus_mult_div_eq_mod)

lemma abs_tdiv: "0 < b \<Longrightarrow> \<bar>tdiv a b\<bar> = \<bar>a\<bar> div b"
  by (cases "a = 0") (simp_all add: tdiv_def abs_mult pos_imp_zdiv_nonneg_iff)

end
