(* ===== verification/Bit_Writer.thy ===== *)
theory Bit_Writer
  imports Prelude
begin

text \<open>
  The bit serialiser \<open>BitWriter\<close> (libs/base/BitWriter.cpp, libs/base/Include/base/BitWriter.hpp)
  used by the downlink header and the telemetry container. The specification is a bit list:
  a successful write of \<open>n\<close> bits appends the \<open>n\<close> lowest bits of the value, lowest first.
\<close>

section \<open>State\<close>

record bitwriter =
  bw_buf :: bytes
  bw_bit :: u32
  bw_byte :: u32
  bw_limit :: u32
  bw_valid :: bool

definition BitsPerByte :: nat where "BitsPerByte = 8"
definition BitsPerWord :: nat where "BitsPerWord = 16"
definition BitsPerDWord :: nat where "BitsPerDWord = 32"
definition BitsPerQWord :: nat where "BitsPerQWord = 64"

lemmas bits_per = BitsPerByte_def BitsPerWord_def BitsPerDWord_def BitsPerQWord_def

definition WordMask :: "u16 list" where
  "WordMask = [0x0, 0x1, 0x3, 0x7, 0xf, 0x1f, 0x3f, 0x7f, 0xff, 0x1ff, 0x3ff, 0x7ff, 0xfff,
               0x1fff, 0x3fff, 0x7fff, 0xffff]"

definition BitWriter_Reset :: "bitwriter \<Rightarrow> bitwriter" where
  "BitWriter_Reset w = w\<lparr>bw_bit := 0, bw_byte := 0,
     bw_limit := of_nat (length (bw_buf w) * BitsPerByte), bw_valid := 0 < length (bw_buf w)\<rparr>"

definition BitWriter_Initialize :: "bytes \<Rightarrow> bitwriter" where
  "BitWriter_Initialize view =
     BitWriter_Reset \<lparr>bw_buf = view, bw_bit = 0, bw_byte = 0, bw_limit = 0, bw_valid = False\<rparr>"

definition BitWriter_empty :: bitwriter where
  "BitWriter_empty = \<lparr>bw_buf = [], bw_bit = 0, bw_byte = 0, bw_limit = 0, bw_valid = False\<rparr>"

definition BitsToBytes :: "u32 \<Rightarrow> u32" where
  "BitsToBytes n = (n + of_nat BitsPerByte - 1) div of_nat BitsPerByte"

definition GetBitDataLength :: "bitwriter \<Rightarrow> u32" where
  "GetBitDataLength w = bw_bit w + bw_byte w * of_nat BitsPerByte"

definition GetByteDataLength :: "bitwriter \<Rightarrow> u32" where
  "GetByteDataLength w = BitsToBytes (bw_bit w) + bw_byte w"

definition GetBitFraction :: "bitwriter \<Rightarrow> u32" where
  "GetBitFraction w = bw_bit w"

definition BitWriter_Status :: "bitwriter \<Rightarrow> bool" where
  "BitWriter_Status w = bw_valid w"

definition BitWriter_Capture :: "bitwriter \<Rightarrow> bytes" where
  "BitWriter_Capture w =
     (if \<not> bw_valid w then [] else take (unat (GetByteDataLength w)) (bw_buf w))"

section \<open>Operations\<close>

definition UpdateStatus :: "u32 \<Rightarrow> u32 \<Rightarrow> bitwriter \<Rightarrow> bool \<times> bitwriter" where
  "UpdateStatus len lengthLimit w =
     (let ok = bw_valid w \<and> len \<le> lengthLimit \<and> GetBitDataLength w + len \<le> bw_limit w
      in (ok, w\<lparr>bw_valid := ok\<rparr>))"

text \<open>The private \<open>WriteWord(value, position, length)\<close>, with \<open>position\<close> at the current byte.\<close>

definition write_word_at :: "u16 \<Rightarrow> nat \<Rightarrow> bitwriter \<Rightarrow> bitwriter" where
  "write_word_at value len w =
     (let b = unat (bw_bit w); p = unat (bw_byte w);
          combined = push_bit b (ucast (value AND WordMask ! len) :: u32)
                     + ucast (ucast (bw_buf w ! p) AND WordMask ! b);
          bits = of_nat len + bw_bit w;
          bytes = BitsToBytes bits;
          buf1 = (bw_buf w)[p := ucast combined];
          buf2 = (if 1 < bytes then buf1[p + 1 := ucast (drop_bit 8 combined)] else buf1);
          buf3 = (if 2 < bytes then buf2[p + 2 := ucast (drop_bit 16 combined)] else buf2)
      in w\<lparr>bw_buf := buf3, bw_byte := bw_byte w + bits div of_nat BitsPerByte,
           bw_bit := bits AND (of_nat BitsPerByte - 1)\<rparr>)"

definition BitWriter_WriteWord :: "u16 \<Rightarrow> u8 \<Rightarrow> bitwriter \<Rightarrow> bool \<times> bitwriter" where
  "BitWriter_WriteWord value len w =
     (case UpdateStatus (ucast len) (of_nat BitsPerWord) w of
        (False, w1) \<Rightarrow> (False, w1)
      | (True, w1) \<Rightarrow>
          (True, if 0 < len then write_word_at value (min (unat len) BitsPerWord) w1 else w1))"

definition BitWriter_WriteDoubleWord :: "u32 \<Rightarrow> u8 \<Rightarrow> bitwriter \<Rightarrow> bool \<times> bitwriter" where
  "BitWriter_WriteDoubleWord value len w =
     (case UpdateStatus (ucast len) (of_nat BitsPerDWord) w of
        (False, w1) \<Rightarrow> (False, w1)
      | (True, w1) \<Rightarrow>
          (True,
           if 0 < len then
             (let w2 = write_word_at (ucast value) (min (unat len) BitsPerWord) w1
              in if BitsPerWord < unat len
                 then write_word_at (ucast (drop_bit BitsPerWord value)) (unat len - BitsPerWord) w2
                 else w2)
           else w1))"

definition BitWriter_WriteQuadWord :: "u64 \<Rightarrow> u8 \<Rightarrow> bitwriter \<Rightarrow> bool \<times> bitwriter" where
  "BitWriter_WriteQuadWord value len w =
     (case UpdateStatus (ucast len) (of_nat BitsPerQWord) w of
        (False, w1) \<Rightarrow> (False, w1)
      | (True, w1) \<Rightarrow>
          (True,
           if 0 < len then
             (let n = unat len;
                  w2 = write_word_at (ucast value) (min n BitsPerWord) w1
              in if BitsPerWord < n then
                   (let w3 = write_word_at (ucast (drop_bit BitsPerWord value))
                               (min (n - BitsPerWord) BitsPerWord) w2
                    in if 2 * BitsPerWord < n then
                         (let w4 = write_word_at (ucast (drop_bit (2 * BitsPerWord) value))
                                     (min (n - 2 * BitsPerWord) BitsPerWord) w3
                          in if 3 * BitsPerWord < n
                             then write_word_at (ucast (drop_bit (3 * BitsPerWord) value))
                                    (n - 3 * BitsPerWord) w4
                             else w4)
                       else w3)
                 else w2)
           else w1))"

definition BitWriter_Write_u8 :: "u8 \<Rightarrow> bitwriter \<Rightarrow> bool \<times> bitwriter" where
  "BitWriter_Write_u8 value w = BitWriter_WriteWord (ucast value) (of_nat BitsPerByte) w"

definition BitWriter_Write_u16 :: "u16 \<Rightarrow> bitwriter \<Rightarrow> bool \<times> bitwriter" where
  "BitWriter_Write_u16 value w = BitWriter_WriteWord value (of_nat BitsPerWord) w"

definition BitWriter_Write_u32 :: "u32 \<Rightarrow> bitwriter \<Rightarrow> bool \<times> bitwriter" where
  "BitWriter_Write_u32 value w = BitWriter_WriteDoubleWord value (of_nat BitsPerDWord) w"

definition BitWriter_Write_u64 :: "u64 \<Rightarrow> bitwriter \<Rightarrow> bool \<times> bitwriter" where
  "BitWriter_Write_u64 value w = BitWriter_WriteQuadWord value (of_nat BitsPerQWord) w"

definition BitWriter_Write_bool :: "bool \<Rightarrow> bitwriter \<Rightarrow> bool \<times> bitwriter" where
  "BitWriter_Write_bool value w = BitWriter_WriteWord (of_bool value) 1 w"

text \<open>The \<open>std::bitset\<close> overload stops at the first bit that does not fit.\<close>

fun BitWriter_Write_bitset :: "bool list \<Rightarrow> bitwriter \<Rightarrow> bool \<times> bitwriter" where
  "BitWriter_Write_bitset [] w = (True, w)"
| "BitWriter_Write_bitset (b # bs) w =
     (case BitWriter_Write_bool b w of
        (False, w1) \<Rightarrow> (False, w1)
      | (True, w1) \<Rightarrow> BitWriter_Write_bitset bs w1)"

fun write_span_bytes :: "bytes \<Rightarrow> bitwriter \<Rightarrow> bitwriter" where
  "write_span_bytes [] w = w"
| "write_span_bytes (b # bs) w = write_span_bytes bs (write_word_at (ucast b) BitsPerByte w)"

definition BitWriter_WriteSpan :: "bytes \<Rightarrow> bitwriter \<Rightarrow> bool \<times> bitwriter" where
  "BitWriter_WriteSpan buffer w =
     (let size = of_nat (length buffer * BitsPerByte)
      in case UpdateStatus size size w of
           (False, w1) \<Rightarrow> (False, w1)
         | (True, w1) \<Rightarrow>
             (True,
              if bw_bit w1 = 0
              then w1\<lparr>bw_buf := put_at (unat (bw_byte w1)) buffer (bw_buf w1),
                      bw_byte := bw_byte w1 + of_nat (length buffer)\<rparr>
              else write_span_bytes buffer w1))"

section \<open>Abstract view: a list of bits\<close>

definition word_bits :: "nat \<Rightarrow> 'a::len word \<Rightarrow> bool list" where
  "word_bits n v = map (bit v) [0..<n]"

definition bits_of :: "bytes \<Rightarrow> bool list" where
  "bits_of buf = map (\<lambda>k. bit (buf ! (k div 8)) (k mod 8)) [0..<8 * length buf]"

definition bitlen :: "bitwriter \<Rightarrow> nat" where
  "bitlen w = unat (bw_bit w) + 8 * unat (bw_byte w)"

definition bw_bits :: "bitwriter \<Rightarrow> bool list" where
  "bw_bits w = take (bitlen w) (bits_of (bw_buf w))"

definition bw_wf :: "bitwriter \<Rightarrow> bool" where
  "bw_wf w \<longleftrightarrow> unat (bw_bit w) < 8 \<and> bitlen w \<le> 8 * length (bw_buf w)
     \<and> length (bw_buf w) < 2 ^ 28 \<and> unat (bw_limit w) = 8 * length (bw_buf w)"

definition room :: "nat \<Rightarrow> bitwriter \<Rightarrow> bool" where
  "room n w \<longleftrightarrow> bw_valid w \<and> bitlen w + n \<le> 8 * length (bw_buf w)"

lemma length_word_bits [simp]: "length (word_bits n v) = n"
  by (simp add: word_bits_def)

lemma nth_word_bits [simp]: "i < n \<Longrightarrow> word_bits n v ! i = bit v i"
  by (simp add: word_bits_def)

lemma word_bits_0 [simp]: "word_bits 0 v = []"
  by (simp add: word_bits_def)

lemma length_bits_of [simp]: "length (bits_of buf) = 8 * length buf"
  by (simp add: bits_of_def)

lemma nth_bits_of [simp]:
  "k < 8 * length buf \<Longrightarrow> bits_of buf ! k = bit (buf ! (k div 8)) (k mod 8)"
  by (simp add: bits_of_def)

lemma bits_of_Nil [simp]: "bits_of [] = []"
  by (simp add: bits_of_def)

lemma word_bits_add:
  "word_bits (m + n) v = word_bits m v @ word_bits n (drop_bit m v)"
  by (rule nth_equalityI) (auto simp: nth_append bit_simps)

lemma word_bits_ucast [simp]:
  "n \<le> LENGTH('b) \<Longrightarrow> word_bits n (ucast (v :: 'a::len word) :: 'b::len word) = word_bits n v"
  by (rule nth_equalityI) (auto simp: bit_simps)

lemma length_bw_bits: "bw_wf w \<Longrightarrow> length (bw_bits w) = bitlen w"
  by (simp add: bw_bits_def bw_wf_def)

lemma bw_wf_Initialize [simp]:
  assumes "length bs < 2 ^ 28"
  shows "bw_wf (BitWriter_Initialize bs)"
proof -
  have "unat (of_nat (length bs * 8) :: u32) = 8 * length bs"
    using assms by (subst unat_of_nat) simp
  with assms show ?thesis
    by (simp add: bw_wf_def BitWriter_Initialize_def BitWriter_Reset_def bitlen_def bits_per)
qed

lemma bw_bits_Initialize [simp]: "bw_bits (BitWriter_Initialize bs) = []"
  by (simp add: bw_bits_def BitWriter_Initialize_def BitWriter_Reset_def bitlen_def)

lemma room_Initialize [simp]:
  "room n (BitWriter_Initialize bs) \<longleftrightarrow> bs \<noteq> [] \<and> n \<le> 8 * length bs"
  by (auto simp: room_def BitWriter_Initialize_def BitWriter_Reset_def bitlen_def)

lemma unat_GetBitDataLength: "bw_wf w \<Longrightarrow> unat (GetBitDataLength w) = bitlen w"
  by (simp add: GetBitDataLength_def bw_wf_def bitlen_def bits_per unat_word_ariths)

lemma UpdateStatus_room:
  assumes "bw_wf w" and "unat n < 2 ^ 31"
  shows "UpdateStatus n m w = (n \<le> m \<and> room (unat n) w, w\<lparr>bw_valid := n \<le> m \<and> room (unat n) w\<rparr>)"
proof -
  have "unat (GetBitDataLength w + n) = bitlen w + unat n"
    using assms unat_GetBitDataLength [OF assms(1)]
    by (simp add: unat_word_ariths bw_wf_def)
  then have "GetBitDataLength w + n \<le> bw_limit w \<longleftrightarrow> bitlen w + unat n \<le> 8 * length (bw_buf w)"
    using assms by (simp add: word_le_nat_alt bw_wf_def)
  then show ?thesis by (auto simp: UpdateStatus_def room_def Let_def conj_commute)
qed

lemma room_valid_upd [simp]: "room n w \<Longrightarrow> w\<lparr>bw_valid := True\<rparr> = w"
  by (simp add: room_def)

lemma room_mono: "room n w \<Longrightarrow> m \<le> n \<Longrightarrow> room m w"
  by (simp add: room_def)

section \<open>One word written at the current position\<close>

lemma WordMask_mask: "k \<le> 16 \<Longrightarrow> WordMask ! k = mask k"
proof -
  assume "k \<le> 16"
  then have "k \<in> set [0..<17]" by simp
  moreover have "\<forall>k \<in> set [0..<17]. WordMask ! k = mask k" by code_simp
  ultimately show ?thesis by blast
qed

definition combine :: "u16 \<Rightarrow> nat \<Rightarrow> nat \<Rightarrow> u8 \<Rightarrow> u32" where
  "combine value len b old =
     push_bit b (ucast (value AND WordMask ! len)) + ucast (ucast old AND WordMask ! b)"

lemma bit_combine:
  assumes "len \<le> 16" and "b < 8"
  shows "bit (combine value len b old) j \<longleftrightarrow>
    (if j < b then bit old j else j < b + len \<and> bit value (j - b))"
proof -
  have "combine value len b old =
      push_bit b (ucast (value AND WordMask ! len)) OR ucast (ucast old AND WordMask ! b)"
    unfolding combine_def using assms
    by (intro disjunctive_add) (auto simp: bit_simps WordMask_mask)
  then show ?thesis
    using assms by (auto simp: bit_simps WordMask_mask dest: bit_imp_le_length)
qed

definition touched :: "nat \<Rightarrow> nat" where
  "touched n = (n + 7) div 8"

lemma unat_bits:
  assumes "n \<le> 16" and "unat (b :: u32) < 8"
  shows "unat (of_nat n + b) = n + unat b"
    and "unat (BitsToBytes (of_nat n + b)) = touched (n + unat b)"
    and "unat ((of_nat n + b) div of_nat BitsPerByte) = (n + unat b) div 8"
    and "unat ((of_nat n + b) AND (of_nat BitsPerByte - 1)) = (n + unat b) mod 8"
proof -
  show 1: "unat (of_nat n + b) = n + unat b"
    using assms by (simp add: unat_word_ariths unat_of_nat)
  have "unat (of_nat n + b + 8 - 1) = n + unat b + 7"
  proof -
    have "of_nat n + b + 8 - 1 = (of_nat n + b) + 7" by simp
    also have "unat \<dots> = n + unat b + 7"
      using assms 1 by (subst unat_word_ariths) simp
    finally show ?thesis .
  qed
  then show "unat (BitsToBytes (of_nat n + b)) = touched (n + unat b)"
    by (simp add: BitsToBytes_def bits_per touched_def unat_div)
  show "unat ((of_nat n + b) div of_nat BitsPerByte) = (n + unat b) div 8"
    using 1 by (simp add: bits_per unat_div)
  have "(of_nat n + b) AND 7 = take_bit 3 (of_nat n + b)"
    by (simp add: take_bit_eq_mask mask_eq_exp_minus_1)
  then show "unat ((of_nat n + b) AND (of_nat BitsPerByte - 1)) = (n + unat b) mod 8"
    using 1 by (simp add: bits_per unat_mod_distrib take_bit_eq_mod)
qed

lemma le_bytes_123:
  "le_bytes (Suc 0) w = [byte_of 0 w]" "le_bytes 2 w = [byte_of 0 w, byte_of 1 w]"
  "le_bytes 3 w = [byte_of 0 w, byte_of 1 w, byte_of 2 w]"
  by (simp_all add: le_bytes_def upt_rec numeral_eq_Suc)

lemma write_word_at_eq:
  assumes wf: "bw_wf w" and n: "0 < n" "n \<le> 16" and room: "room n w"
  shows "write_word_at v n w =
    w\<lparr>bw_buf := put_at (unat (bw_byte w))
                (le_bytes (touched (n + unat (bw_bit w)))
                   (combine v n (unat (bw_bit w)) (bw_buf w ! unat (bw_byte w)))) (bw_buf w),
      bw_byte := bw_byte w + (of_nat n + bw_bit w) div of_nat BitsPerByte,
      bw_bit := (of_nat n + bw_bit w) AND (of_nat BitsPerByte - 1)\<rparr>"
proof -
  let ?b = "unat (bw_bit w)" and ?p = "unat (bw_byte w)"
  have b: "?b < 8" using wf by (simp add: bw_wf_def)
  have t: "touched (n + ?b) = 1 \<or> touched (n + ?b) = 2 \<or> touched (n + ?b) = 3"
    using n b unfolding touched_def by arith
  have len: "?p + touched (n + ?b) \<le> length (bw_buf w)"
    using room unfolding room_def bitlen_def touched_def by arith
  have gt: "1 < BitsToBytes (of_nat n + bw_bit w) \<longleftrightarrow> 1 < touched (n + ?b)"
    "2 < BitsToBytes (of_nat n + bw_bit w) \<longleftrightarrow> 2 < touched (n + ?b)"
    using unat_bits(2) [OF n(2) b] by (simp_all add: word_less_nat_alt)
  from t show ?thesis
    using len gt
    by (elim disjE) (simp_all add: write_word_at_def combine_def Let_def le_bytes_123 byte_of_def
        put_at_Cons)
qed

lemma byte_window:
  fixes k p :: nat
  assumes "8 * p \<le> k" and "k - 8 * p < 8"
  shows "k div 8 = p" and "k mod 8 = k - 8 * p"
proof -
  have "k = 8 * p + (k - 8 * p)" using assms(1) by simp
  with assms(2) show "k div 8 = p" and "k mod 8 = k - 8 * p"
    by (metis div_mult_self4 div_less add_0_right zero_neq_numeral, metis mod_mult_self4 mod_less)
qed

lemma bit_window:
  assumes "p + nb \<le> length buf" and "k < 8 * length buf"
  shows "bits_of (put_at p (le_bytes nb c) buf) ! k =
    (if 8 * p \<le> k \<and> k < 8 * (p + nb) then bit c (k - 8 * p) else bits_of buf ! k)"
proof (cases "8 * p \<le> k \<and> k < 8 * (p + nb)")
  case True
  then have p: "p \<le> k div 8" "k div 8 < p + nb" by (auto simp: less_mult_imp_div_less mult.commute)
  moreover have "8 * (k div 8 - p) + k mod 8 = k - 8 * p"
    using p(1) mult_div_mod_eq [of 8 k] by (simp add: diff_mult_distrib2)
  ultimately show ?thesis
    using assms True by (simp add: nth_put_at bit_byte_of)
next
  case False
  then have "\<not> (p \<le> k div 8 \<and> k div 8 < p + nb)" by auto
  with assms False show ?thesis by (auto simp: nth_put_at)
qed

lemma write_word_at_frame:
  assumes wf: "bw_wf w" and n: "0 < n" "n \<le> 16" and room: "room n w"
  shows "bitlen (write_word_at v n w) = bitlen w + n"
    and "bw_wf (write_word_at v n w)"
    and "length (bw_buf (write_word_at v n w)) = length (bw_buf w)"
    and "bw_valid (write_word_at v n w) = bw_valid w"
proof -
  let ?w' = "write_word_at v n w"
  let ?b = "unat (bw_bit w)" and ?p = "unat (bw_byte w)" and ?buf = "bw_buf w"
  have b: "?b < 8" and lim: "length ?buf < 2 ^ 28" using wf by (simp_all add: bw_wf_def)
  have fit: "?b + 8 * ?p + n \<le> 8 * length ?buf" using room by (simp add: room_def bitlen_def)
  then have p: "?p + touched (n + ?b) \<le> length ?buf" unfolding touched_def by arith
  note w' = write_word_at_eq [OF wf n room, of v]
  have "unat (bw_byte w + (of_nat n + bw_bit w) div of_nat BitsPerByte) = ?p + (n + ?b) div 8"
    using unat_bits(3) [OF n(2) b] fit lim by (simp add: unat_word_ariths)
  then show len: "bitlen ?w' = bitlen w + n"
    using unat_bits(4) [OF n(2) b] by (simp add: w' bitlen_def)
  show buf: "length (bw_buf ?w') = length ?buf" using p by (simp add: w')
  show "bw_wf ?w'"
    using wf len fit buf unat_bits(4) [OF n(2) b] by (simp add: w' bw_wf_def) (simp add: bitlen_def)
  show "bw_valid ?w' = bw_valid w" by (simp add: w')
qed

lemma write_word_at_nth:
  assumes wf: "bw_wf w" and n: "0 < n" "n \<le> 16" and room: "room n w" and k: "k < bitlen w + n"
  shows "bits_of (bw_buf (write_word_at v n w)) ! k =
    (if k < bitlen w then bits_of (bw_buf w) ! k else bit v (k - bitlen w))"
proof -
  let ?b = "unat (bw_bit w)" and ?p = "unat (bw_byte w)" and ?buf = "bw_buf w"
  let ?c = "combine v n ?b (?buf ! ?p)" and ?nb = "touched (n + ?b)"
  have b: "?b < 8" using wf by (simp add: bw_wf_def)
  have fit: "?b + 8 * ?p + n \<le> 8 * length ?buf" using room by (simp add: room_def bitlen_def)
  have nb: "?p + ?nb \<le> length ?buf" "n + ?b \<le> 8 * ?nb"
    using fit unfolding touched_def by arith+
  have k8: "k < 8 * length ?buf" using k fit by (simp add: bitlen_def)
  have new: "bits_of (bw_buf (write_word_at v n w)) ! k =
      (if 8 * ?p \<le> k \<and> k < 8 * (?p + ?nb) then bit ?c (k - 8 * ?p) else bits_of ?buf ! k)"
    using bit_window [OF nb(1) k8, of ?c] by (simp add: write_word_at_eq [OF wf n room])
  consider "k < 8 * ?p" | "8 * ?p \<le> k" "k < bitlen w" | "bitlen w \<le> k" by linarith
  then show ?thesis
  proof cases
    case 1
    with new show ?thesis by (simp add: bitlen_def)
  next
    case 2
    then have lo: "k - 8 * ?p < ?b" and hi: "k < 8 * (?p + ?nb)" and "k - 8 * ?p < 8"
      using b nb(2) by (auto simp: bitlen_def)
    with 2(1) have "k div 8 = ?p" "k mod 8 = k - 8 * ?p"
      by (simp_all add: byte_window)
    with lo hi 2 new k8 b n show ?thesis by (simp add: bit_combine)
  next
    case 3
    then have "\<not> k - 8 * ?p < ?b" "k - 8 * ?p < ?b + n" "k - 8 * ?p - ?b = k - bitlen w"
      "8 * ?p \<le> k" "k < 8 * (?p + ?nb)"
      using k nb(2) by (auto simp: bitlen_def)
    with 3 new b n show ?thesis by (simp add: bit_combine)
  qed
qed

text \<open>The central lemma: writing \<open>n\<close> bits at the current position appends them.\<close>

lemma write_word_at_appends:
  assumes "bw_wf w" and "0 < n" "n \<le> 16" and "room n w"
  shows "bw_bits (write_word_at v n w) = bw_bits w @ word_bits n v"
proof (rule nth_equalityI)
  note frame = write_word_at_frame [OF assms, of v]
  show len: "length (bw_bits (write_word_at v n w)) = length (bw_bits w @ word_bits n v)"
    using frame assms(1) by (simp add: length_bw_bits)
  fix k assume "k < length (bw_bits (write_word_at v n w))"
  then have k: "k < bitlen w + n" using len assms(1) by (simp add: length_bw_bits)
  then show "bw_bits (write_word_at v n w) ! k = (bw_bits w @ word_bits n v) ! k"
    using write_word_at_nth [OF assms k, of v] frame assms(1)
    by (simp add: nth_append length_bw_bits) (auto simp: bw_bits_def)
qed

section \<open>Each operation appends bits or invalidates\<close>

text \<open>
  The abstract operation: \<open>bit_emit bs w (ok, w')\<close> says that \<open>w'\<close> is what appending the bits
  \<open>bs\<close> to \<open>w\<close> may give.
\<close>

definition bit_emit :: "bool list \<Rightarrow> bitwriter \<Rightarrow> bool \<times> bitwriter \<Rightarrow> bool" where
  "bit_emit bs w r \<longleftrightarrow>
     (case r of (ok, w') \<Rightarrow>
        ok = room (length bs) w \<and> bw_valid w' = ok \<and> bw_wf w'
        \<and> length (bw_buf w') = length (bw_buf w)
        \<and> bw_bits w' = bw_bits w @ (if ok then bs else []))"

lemma bit_emit_ok: "bit_emit bs w r \<Longrightarrow> fst r = room (length bs) w"
  by (auto simp: bit_emit_def)

lemma bit_emit_wf: "bit_emit bs w r \<Longrightarrow> bw_wf (snd r)"
  by (auto simp: bit_emit_def)

lemma bit_emit_bits: "bit_emit bs w r \<Longrightarrow> fst r \<Longrightarrow> bw_bits (snd r) = bw_bits w @ bs"
  by (auto simp: bit_emit_def)

lemma bitlen_bw_bits: "bw_wf w \<Longrightarrow> bitlen w = length (bw_bits w)"
  by (simp add: length_bw_bits)

lemma bit_emit_room:
  assumes "bit_emit bs w r" and "bw_wf w" and "fst r"
  shows "room n (snd r) \<longleftrightarrow> room (length bs + n) w"
  using assms by (auto simp: bit_emit_def room_def bitlen_bw_bits)

lemma bit_emit_invalid: "bw_wf w \<Longrightarrow> \<not> room (length bs) w \<Longrightarrow>
    bit_emit bs w (False, w\<lparr>bw_valid := False\<rparr>)"
  by (simp add: bit_emit_def bw_wf_def bw_bits_def bitlen_def)

lemma bit_emit_step:
  assumes "bw_wf w" and "0 < n" "n \<le> 16" and "room n w"
  shows "bit_emit (word_bits n v) w (True, write_word_at v n w)"
  using write_word_at_frame [OF assms, of v] write_word_at_appends [OF assms, of v] assms(4)
  by (simp add: bit_emit_def room_def)

text \<open>Two successful writes in sequence are one write of the concatenation.\<close>

lemma bit_emit_then:
  assumes "bit_emit xs w (True, w1)" and "bit_emit ys w1 (True, w2)" and "bw_wf w"
  shows "bit_emit (xs @ ys) w (True, w2)"
  using assms bit_emit_room [OF assms(1,3), of "length ys"] by (auto simp: bit_emit_def)

lemma bit_emit_step_then:
  assumes "bit_emit xs w (True, w1)" and "bw_wf w" and "0 < n" "n \<le> 16"
    and "room (length xs + n) w"
  shows "bit_emit (xs @ word_bits n v) w (True, write_word_at v n w1)"
proof (rule bit_emit_then [OF assms(1) _ assms(2)])
  show "bit_emit (word_bits n v) w1 (True, write_word_at v n w1)"
    using assms bit_emit_room [OF assms(1,2), of n] bit_emit_wf [OF assms(1)]
    by (intro bit_emit_step) auto
qed

lemma bit_emit_nothing: "bw_wf w \<Longrightarrow> room 0 w \<Longrightarrow> bit_emit [] w (True, w)"
  by (simp add: bit_emit_def room_def)

lemma WriteWord_emit [run_simps]:
  assumes "bw_wf w" and "unat n \<le> 16"
  shows "bit_emit (word_bits (unat n) v) w (BitWriter_WriteWord v n w)"
proof (cases "room (unat n) w")
  case True
  have up: "UpdateStatus (ucast n) (of_nat BitsPerWord) w = (True, w)"
    using assms True by (simp add: UpdateStatus_room bits_per word_le_nat_alt unsigned_ucast_eq
        take_bit_nat_eq_self)
  show ?thesis
  proof (cases "n = 0")
    case True
    with up assms \<open>room (unat n) w\<close> show ?thesis
      by (simp add: BitWriter_WriteWord_def bit_emit_nothing)
  next
    case False
    then have "0 < n" "0 < unat n" by (simp_all add: word_gt_0 unat_gt_0)
    with up assms True bit_emit_step [of w "unat n" v] show ?thesis
      by (simp add: BitWriter_WriteWord_def bits_per)
  qed
next
  case False
  with assms show ?thesis
    by (simp add: BitWriter_WriteWord_def UpdateStatus_room bits_per unsigned_ucast_eq
        take_bit_nat_eq_self bit_emit_invalid)
qed

lemma UpdateStatus_len:
  assumes "bw_wf w" and "unat n \<le> m" and "m < 256"
  shows "UpdateStatus (ucast (n :: u8)) (of_nat m) w
    = (room (unat n) w, w\<lparr>bw_valid := room (unat n) w\<rparr>)"
proof -
  have "unat n < 2 ^ 32" using unsigned_less [of n, where ?'a = nat] by simp
  then have "unat (ucast n :: u32) = unat n"
    by (simp add: unsigned_ucast_eq take_bit_nat_eq_self)
  moreover from this have "(ucast n :: u32) \<le> of_nat m"
    using assms by (simp add: word_le_nat_alt unat_of_nat)
  ultimately show ?thesis
    using assms by (subst UpdateStatus_room) simp_all
qed

lemmas UpdateStatus_num =
  UpdateStatus_len [where m = 16, simplified] UpdateStatus_len [where m = 32, simplified]
  UpdateStatus_len [where m = 64, simplified]

lemma word_bits_16: "16 \<le> LENGTH('a) \<Longrightarrow> n \<le> 16 \<Longrightarrow>
    word_bits n (ucast (v :: 'a::len word) :: u16) = word_bits n v"
  by (rule word_bits_ucast) simp

lemma WriteDoubleWord_emit [run_simps]:
  assumes "bw_wf w" and "unat n \<le> 32"
  shows "bit_emit (word_bits (unat n) v) w (BitWriter_WriteDoubleWord v n w)"
proof (cases "room (unat n) w")
  case False
  with assms show ?thesis
    by (simp add: BitWriter_WriteDoubleWord_def UpdateStatus_num bits_per bit_emit_invalid)
next
  case True
  let ?n = "unat n" and ?w2 = "write_word_at (ucast v) (min (unat n) 16) w"
  have up: "UpdateStatus (ucast n) (of_nat BitsPerDWord) w = (True, w)"
    using assms True by (simp add: UpdateStatus_num bits_per)
  consider "n = 0" | "0 < ?n" "?n \<le> 16" | "16 < ?n" by (metis linorder_not_le unat_gt_0)
  then show ?thesis
  proof cases
    case 1
    with up True assms show ?thesis
      by (simp add: BitWriter_WriteDoubleWord_def bit_emit_nothing)
  next
    case 2
    with bit_emit_step [OF assms(1), of ?n "ucast v"] True up show ?thesis
      by (simp add: BitWriter_WriteDoubleWord_def bits_per word_gt_0 unat_gt_0 word_bits_16)
  next
    case 3
    have 0: "bit_emit (word_bits 16 v) w (True, ?w2)"
      using bit_emit_step [OF assms(1), of 16 "ucast v"] room_mono [OF True, of 16] 3
      by (simp add: word_bits_16)
    have "bit_emit (word_bits 16 v @ word_bits (?n - 16) (ucast (drop_bit 16 v) :: u16)) w
        (True, write_word_at (ucast (drop_bit 16 v)) (?n - 16) ?w2)"
      using assms 3 True by (intro bit_emit_step_then [OF 0]) auto
    moreover have "word_bits 16 v @ word_bits (?n - 16) (ucast (drop_bit 16 v) :: u16)
        = word_bits ?n v"
      using word_bits_add [of 16 "?n - 16" v] assms 3 by (simp add: word_bits_16)
    ultimately show ?thesis
      using 3 up by (auto simp: BitWriter_WriteDoubleWord_def bits_per Let_def word_gt_0)
  qed
qed

text \<open>
  The quad word: the chunks of 16 bits the code writes, as a list of word writes; each chunk
  appends the next bits of the value.
\<close>

fun write_chunks :: "u64 \<Rightarrow> nat \<Rightarrow> bitwriter \<Rightarrow> bitwriter" where
  "write_chunks v n w =
     (if n \<le> 16 then write_word_at (ucast v) n w
      else write_chunks (drop_bit 16 v) (n - 16) (write_word_at (ucast v) 16 w))"

declare write_chunks.simps [simp del]

lemma write_chunks_emit:
  assumes "bit_emit xs w (True, w1)" and "bw_wf w" and "0 < n" and "room (length xs + n) w"
  shows "bit_emit (xs @ word_bits n v) w (True, write_chunks v n w1)"
  using assms
proof (induction v n w1 arbitrary: xs rule: write_chunks.induct)
  case (1 v n w1)
  show ?case
  proof (cases "n \<le> 16")
    case True
    with "1.prems" bit_emit_step_then [OF "1.prems"(1,2), of n "ucast v"] show ?thesis
      by (simp add: write_chunks.simps word_bits_16)
  next
    case False
    have "bit_emit (xs @ word_bits 16 (ucast v :: u16)) w (True, write_word_at (ucast v) 16 w1)"
      using False "1.prems" by (intro bit_emit_step_then) (auto elim: room_mono)
    then have "bit_emit ((xs @ word_bits 16 (ucast v :: u16)) @ word_bits (n - 16) (drop_bit 16 v)) w
        (True, write_chunks (drop_bit 16 v) (n - 16) (write_word_at (ucast v) 16 w1))"
      using False "1.prems" by (intro "1.IH") auto
    with False show ?thesis
      using word_bits_add [of 16 "n - 16" v]
      by (simp add: write_chunks.simps [of v n] word_bits_16)
  qed
qed

lemma QuadWord_chunks:
  assumes "0 < n" and "n \<le> 64"
  shows "write_chunks v n w =
    (let w2 = write_word_at (ucast v) (min n 16) w
     in if 16 < n then
          (let w3 = write_word_at (ucast (drop_bit 16 v)) (min (n - 16) 16) w2
           in if 32 < n then
                (let w4 = write_word_at (ucast (drop_bit 32 v)) (min (n - 32) 16) w3
                 in if 48 < n then write_word_at (ucast (drop_bit 48 v)) (n - 48) w4 else w4)
              else w3)
        else w2)"
proof -
  consider "n \<le> 16" | "16 < n" "n \<le> 32" | "32 < n" "n \<le> 48" | "48 < n" by linarith
  then show ?thesis
    using assms by cases (simp_all add: write_chunks.simps Let_def)
qed

lemma WriteQuadWord_emit [run_simps]:
  assumes "bw_wf w" and "unat n \<le> 64"
  shows "bit_emit (word_bits (unat n) v) w (BitWriter_WriteQuadWord v n w)"
proof (cases "room (unat n) w")
  case False
  with assms show ?thesis
    by (simp add: BitWriter_WriteQuadWord_def UpdateStatus_num bits_per bit_emit_invalid)
next
  case True
  have up: "UpdateStatus (ucast n) (of_nat BitsPerQWord) w = (True, w)"
    using assms True by (simp add: UpdateStatus_num bits_per)
  show ?thesis
  proof (cases "n = 0")
    case zero: True
    with up True assms show ?thesis by (simp add: BitWriter_WriteQuadWord_def bit_emit_nothing)
  next
    case False
    then have n: "0 < n" "0 < unat n" by (simp_all add: word_gt_0 unat_gt_0)
    have "bit_emit [] w (True, w)" using assms True by (intro bit_emit_nothing) (auto elim: room_mono)
    from write_chunks_emit [OF this assms(1) n(2)] True
    have "bit_emit (word_bits (unat n) v) w (True, write_chunks v (unat n) w)" by simp
    moreover have "BitWriter_WriteQuadWord v n w = (True, write_chunks v (unat n) w)"
      using up n unfolding BitWriter_WriteQuadWord_def bits_per QuadWord_chunks [OF n(2) assms(2)]
      by (simp add: Let_def)
    ultimately show ?thesis by simp
  qed
qed

lemma Write_u8_emit [run_simps]:
  "bw_wf w \<Longrightarrow> bit_emit (word_bits 8 v) w (BitWriter_Write_u8 v w)"
  using WriteWord_emit [of w 8 "ucast v"] by (simp add: BitWriter_Write_u8_def bits_per)

lemma Write_u16_emit [run_simps]:
  "bw_wf w \<Longrightarrow> bit_emit (word_bits 16 v) w (BitWriter_Write_u16 v w)"
  using WriteWord_emit [of w 16 v] by (simp add: BitWriter_Write_u16_def bits_per)

lemma Write_u32_emit [run_simps]:
  "bw_wf w \<Longrightarrow> bit_emit (word_bits 32 v) w (BitWriter_Write_u32 v w)"
  using WriteDoubleWord_emit [of w 32 v] by (simp add: BitWriter_Write_u32_def bits_per)

lemma Write_u64_emit [run_simps]:
  "bw_wf w \<Longrightarrow> bit_emit (word_bits 64 v) w (BitWriter_Write_u64 v w)"
  using WriteQuadWord_emit [of w 64 v] by (simp add: BitWriter_Write_u64_def bits_per)

lemma Write_bool_emit [run_simps]:
  "bw_wf w \<Longrightarrow> bit_emit [v] w (BitWriter_Write_bool v w)"
  using WriteWord_emit [of w 1 "of_bool v"]
  by (simp add: BitWriter_Write_bool_def word_bits_def bit_simps)

section \<open>Spans and bitsets\<close>

lemma bits_of_Cons: "bits_of (b # bs) = word_bits 8 b @ bits_of bs"
proof (rule nth_equalityI)
  fix k assume "k < length (bits_of (b # bs))"
  then show "bits_of (b # bs) ! k = (word_bits 8 b @ bits_of bs) ! k"
    by (cases "k < 8") (auto simp: nth_append le_div_geq le_mod_geq not_less)
qed simp

lemma bits_of_append: "bits_of (xs @ ys) = bits_of xs @ bits_of ys"
  by (induction xs) (simp_all add: bits_of_Cons)

lemma take_bits_of: "take (8 * n) (bits_of xs) = bits_of (take n xs)"
proof (cases "n \<le> length xs")
  case True
  have "take (8 * n) (bits_of (take n xs @ drop n xs)) = bits_of (take n xs)"
    unfolding bits_of_append using True by simp
  then show ?thesis by simp
qed simp

lemma write_span_bytes_emit:
  assumes "bit_emit xs w (True, w1)" and "bw_wf w" and "room (length xs + 8 * length bs) w"
  shows "bit_emit (xs @ bits_of bs) w (True, write_span_bytes bs w1)"
  using assms
proof (induction bs arbitrary: xs w1)
  case Nil
  then show ?case by simp
next
  case (Cons b bs)
  have "bit_emit (xs @ word_bits 8 (ucast b :: u16)) w (True, write_word_at (ucast b) 8 w1)"
    using Cons.prems by (intro bit_emit_step_then) (auto elim: room_mono)
  then have "bit_emit ((xs @ word_bits 8 b) @ bits_of bs) w
      (True, write_span_bytes bs (write_word_at (ucast b) 8 w1))"
    using Cons.prems by (intro Cons.IH) (auto elim: room_mono)
  then show ?case by (simp add: bits_of_Cons bits_per)
qed

lemma memcpy_emit:
  assumes wf: "bw_wf w" and room: "room (8 * length bs) w" and aligned: "bw_bit w = 0"
  shows "bit_emit (bits_of bs) w
    (True, w\<lparr>bw_buf := put_at (unat (bw_byte w)) bs (bw_buf w),
             bw_byte := bw_byte w + of_nat (length bs)\<rparr>)"
proof -
  have p: "unat (bw_byte w) + length bs \<le> length (bw_buf w)" "length (bw_buf w) < 2 ^ 28"
    using wf room aligned by (auto simp: bw_wf_def room_def bitlen_def)
  then have pos: "unat (bw_byte w + of_nat (length bs)) = unat (bw_byte w) + length bs"
    by (simp add: unat_word_ariths unat_of_nat)
  have "take (8 * (unat (bw_byte w) + length bs)) (bits_of (put_at (unat (bw_byte w)) bs (bw_buf w)))
      = bits_of (take (unat (bw_byte w)) (bw_buf w)) @ bits_of bs"
    using p by (simp only: take_bits_of take_put_at bits_of_append)
  with p pos wf room aligned show ?thesis
    by (simp add: bit_emit_def bw_wf_def room_def bitlen_def bw_bits_def take_bits_of)
qed

lemma WriteSpan_emit [run_simps]:
  assumes wf: "bw_wf w" and len: "length bs < 2 ^ 27"
  shows "bit_emit (bits_of bs) w (BitWriter_WriteSpan bs w)"
proof -
  have "unat (of_nat (length bs * 8) :: u32) = 8 * length bs"
    using len by (subst unat_of_nat) simp
  then have up: "UpdateStatus (of_nat (length bs * BitsPerByte)) (of_nat (length bs * BitsPerByte)) w
      = (room (8 * length bs) w, w\<lparr>bw_valid := room (8 * length bs) w\<rparr>)"
    using wf len by (simp add: UpdateStatus_room bits_per)
  show ?thesis
  proof (cases "room (8 * length bs) w")
    case False
    with up wf show ?thesis
      by (simp add: BitWriter_WriteSpan_def Let_def bit_emit_invalid del: of_nat_mult)
  next
    case True
    have "bit_emit [] w (True, w)" using wf True by (intro bit_emit_nothing) (auto elim: room_mono)
    then have "bit_emit ([] @ bits_of bs) w (True, write_span_bytes bs w)"
      using wf True by (intro write_span_bytes_emit) simp_all
    with up True wf memcpy_emit [OF wf True] show ?thesis
      by (simp add: BitWriter_WriteSpan_def Let_def del: of_nat_mult)
  qed
qed

text \<open>A bitset that fits is appended whole; one that does not leaves the writer invalid.\<close>

lemma Write_bitset_emit:
  assumes "bw_wf w" and "room (length bs) w"
  shows "bit_emit bs w (BitWriter_Write_bitset bs w)"
  using assms
proof (induction bs arbitrary: w)
  case Nil
  then show ?case by (simp add: bit_emit_nothing)
next
  case (Cons b bs)
  note hd = Write_bool_emit [OF Cons.prems(1), of b]
  have "fst (BitWriter_Write_bool b w)"
    using bit_emit_ok [OF hd] Cons.prems(2) by (auto elim: room_mono)
  then obtain w1 where w1: "BitWriter_Write_bool b w = (True, w1)"
    by (cases "BitWriter_Write_bool b w") simp
  have tl: "bit_emit bs w1 (BitWriter_Write_bitset bs w1)"
    using bit_emit_room [OF hd Cons.prems(1), of "length bs"] bit_emit_wf [OF hd] Cons.prems(2) w1
    by (intro Cons.IH) auto
  moreover have "fst (BitWriter_Write_bitset bs w1)"
    using bit_emit_ok [OF tl] bit_emit_room [OF hd Cons.prems(1), of "length bs"] Cons.prems(2) w1
    by simp
  ultimately show ?case
    using bit_emit_then [OF hd [unfolded w1] _ Cons.prems(1), of bs] w1
    by (cases "BitWriter_Write_bitset bs w1") simp
qed

end
