(* ===== verification/Crc.thy ===== *)
theory Crc
  imports Prelude
begin

text \<open>
  The CRC-16-CCITT of libs/base/crc.cpp (polynomial 0x1021, initial value 0), its equivalence
  with the bit-serial definition of that CRC, and its error detection.
\<close>

section \<open>The code\<close>

definition crc_step :: "u16 \<Rightarrow> u8 \<Rightarrow> u16" where
  "crc_step crc data =
     (let crc = drop_bit 8 crc OR push_bit 8 crc;
          crc = crc XOR ucast data;
          crc = crc XOR drop_bit 4 (crc AND 0xff);
          crc = crc XOR push_bit 12 crc;
          crc = crc XOR push_bit 5 (crc AND 0xff)
      in crc)"

text \<open>The overload on a span.\<close>

definition CRC_calc :: "bytes \<Rightarrow> u16" where
  "CRC_calc buffer = foldl crc_step 0 buffer"

text \<open>The overload on a range of addresses: the loop \<open>for (data = start; data < end; data++)\<close>.\<close>

function crc_range :: "(nat \<Rightarrow> u8) \<Rightarrow> nat \<Rightarrow> nat \<Rightarrow> u16 \<Rightarrow> u16" where
  "crc_range mem data end crc =
     (if data < end then crc_range mem (Suc data) end (crc_step crc (mem data)) else crc)"
  by pat_completeness auto
termination
  by (relation "measure (\<lambda>(mem, data, end, crc). end - data)") auto

declare crc_range.simps [simp del]

definition CRC_calc_range :: "(nat \<Rightarrow> u8) \<Rightarrow> nat \<Rightarrow> nat \<Rightarrow> u16" where
  "CRC_calc_range mem start end = crc_range mem start end 0"

lemma crc_range_foldl: "crc_range mem s e c = foldl crc_step c (map mem [s..<e])"
proof (induction mem s e c rule: crc_range.induct)
  case (1 mem s e c)
  then show ?case
    by (cases "s < e") (simp_all add: crc_range.simps [of mem s e] upt_rec [of s e])
qed

section \<open>The bit-serial reference\<close>

definition crc_bit :: "u16 \<Rightarrow> u16" where
  "crc_bit c = (if bit c 15 then push_bit 1 c XOR 0x1021 else push_bit 1 c)"

definition crc_ref_step :: "u16 \<Rightarrow> u8 \<Rightarrow> u16" where
  "crc_ref_step c b = (crc_bit ^^ 8) (c XOR push_bit 8 (ucast b))"

definition crc_ref :: "bytes \<Rightarrow> u16" where
  "crc_ref bs = foldl crc_ref_step 0 bs"

lemma bit_low_byte: "bit (c AND 0xff :: u16) n \<longleftrightarrow> n < 8 \<and> bit c n"
  by (auto simp: low_byte_mask bit_simps)

text \<open>The stages of a step: the byte swap, and three exclusive ors with shifted copies.\<close>

definition crc_swap :: "u16 \<Rightarrow> u16" where
  "crc_swap c = drop_bit 8 c OR push_bit 8 c"

definition crc_mix4 :: "u16 \<Rightarrow> u16" where
  "crc_mix4 c = c XOR drop_bit 4 (c AND 0xff)"

definition crc_mix12 :: "u16 \<Rightarrow> u16" where
  "crc_mix12 c = c XOR push_bit 12 c"

definition crc_mix5 :: "u16 \<Rightarrow> u16" where
  "crc_mix5 c = c XOR push_bit 5 (c AND 0xff)"

definition crc_core :: "u16 \<Rightarrow> u16" where
  "crc_core c = crc_mix5 (crc_mix12 (crc_mix4 (crc_swap c)))"

lemmas crc_stages = crc_swap_def crc_mix4_def crc_mix12_def crc_mix5_def

lemma bit_swap: "bit (crc_swap c) n \<longleftrightarrow> n < 16 \<and> bit c (if n < 8 then n + 8 else n - 8)"
  unfolding crc_swap_def bit_or_iff bit_push_bit_iff bit_drop_bit_eq comp_def
  by (auto simp: add.commute dest: bit_imp_le_length)

lemma bit_mix4: "bit (crc_mix4 c) n \<longleftrightarrow> bit c n \<noteq> (n < 4 \<and> bit c (n + 4))"
  unfolding crc_mix4_def bit_xor_iff bit_drop_bit_eq comp_def bit_low_byte
  by (auto simp: add.commute)

lemma bit_mix12: "bit (crc_mix12 c) n \<longleftrightarrow> bit c n \<noteq> (12 \<le> n \<and> n < 16 \<and> bit c (n - 12))"
  unfolding crc_mix12_def bit_xor_iff bit_push_bit_iff by auto

lemma bit_mix5: "bit (crc_mix5 c) n \<longleftrightarrow> bit c n \<noteq> (5 \<le> n \<and> n < 13 \<and> bit c (n - 5))"
  unfolding crc_mix5_def bit_xor_iff bit_push_bit_iff bit_low_byte by auto

lemmas bit_stages = bit_swap bit_mix4 bit_mix12 bit_mix5

text \<open>The message byte only enters through the exclusive or with the high byte of the CRC.\<close>

lemma crc_step_core: "crc_step c b = crc_core (c XOR push_bit 8 (ucast b))"
proof -
  have "crc_swap c XOR ucast b = crc_swap (c XOR push_bit 8 (ucast b))"
    by (rule bit_word_eqI) (auto simp: bit_swap bit_simps dest: bit_imp_le_length)
  moreover have "crc_step c b = crc_mix5 (crc_mix12 (crc_mix4 (crc_swap c XOR ucast b)))"
    unfolding crc_step_def crc_stages Let_def by (rule refl)
  ultimately show ?thesis by (simp only: crc_core_def)
qed

lemma bit_poly: "bit (0x1021 :: u16) n \<longleftrightarrow> n = 0 \<or> n = 5 \<or> n = 12"
proof (cases "n < 16")
  case True
  then have "n \<in> set [0..<16]" by simp
  moreover have "\<forall>n \<in> set [0..<16]. bit (0x1021 :: u16) n \<longleftrightarrow> n = 0 \<or> n = 5 \<or> n = 12"
    by code_simp
  ultimately show ?thesis by blast
qed (auto dest: bit_imp_le_length)

lemma bit_crc_bit:
  "bit (crc_bit c) n \<longleftrightarrow>
     ((0 < n \<and> n < 16 \<and> bit c (n - 1)) \<noteq> (bit c 15 \<and> (n = 0 \<or> n = 5 \<or> n = 12)))"
proof (cases "bit c 15")
  case True
  then have "crc_bit c = push_bit 1 c XOR 0x1021" by (simp add: crc_bit_def)
  with True show ?thesis
    by (simp only: bit_xor_iff bit_push_bit_iff bit_poly) (auto simp: Suc_le_eq)
next
  case False
  then have "crc_bit c = push_bit 1 c" by (simp add: crc_bit_def)
  with False show ?thesis
    by (simp only: bit_push_bit_iff) (auto simp: Suc_le_eq)
qed

lemma funpow8: "(f ^^ 8) x = f (f (f (f (f (f (f (f x)))))))"
  by (simp add: numeral_eq_Suc)

lemma word_of_bits16:
  fixes v w :: u16
  assumes "\<And>n. n \<in> {0, 1, 2, 3, 4, 5, 6, 7, 8, 9, 10, 11, 12, 13, 14, 15} \<Longrightarrow> bit v n = bit w n"
  shows "v = w"
proof (rule bit_word_eqI)
  fix n assume "n < LENGTH(16)"
  then have "n \<in> {0, 1, 2, 3, 4, 5, 6, 7, 8, 9, 10, 11, 12, 13, 14, 15}"
    by (simp del: One_nat_def) arith
  then show "bit v n = bit w n" by (rule assms)
qed

lemma crc_core_ref: "crc_core c = (crc_bit ^^ 8) c"
proof (rule word_of_bits16)
  fix n :: nat assume "n \<in> {0, 1, 2, 3, 4, 5, 6, 7, 8, 9, 10, 11, 12, 13, 14, 15}"
  then show "bit (crc_core c) n = bit ((crc_bit ^^ 8) c) n"
    by (elim insertE emptyE)
      (simp_all add: crc_core_def bit_stages bit_crc_bit funpow8, blast+)
qed

lemma crc_step_ref: "crc_step c b = crc_ref_step c b"
  by (simp add: crc_step_core crc_core_ref crc_ref_step_def)

text \<open>
  C11. The table-free byte step of \<open>CRC_calc\<close> computes the CRC-16-CCITT: on every buffer it
  equals the bit-serial shift register with polynomial 0x1021 and initial value 0, and the
  address-range overload computes the same value for the bytes of the range.
\<close>

theorem CRC_calc_is_ccitt:
  "CRC_calc bs = crc_ref bs \<and> CRC_calc_range mem s e = crc_ref (map mem [s..<e])"
proof -
  have "crc_step = crc_ref_step" by (intro ext) (rule crc_step_ref)
  then show ?thesis
    by (simp add: CRC_calc_def CRC_calc_range_def crc_ref_def crc_range_foldl)
qed

section \<open>Error detection\<close>

lemma stages_xor:
  "crc_swap (c XOR d) = crc_swap c XOR crc_swap d"
  "crc_mix4 (c XOR d) = crc_mix4 c XOR crc_mix4 d"
  "crc_mix12 (c XOR d) = crc_mix12 c XOR crc_mix12 d"
  "crc_mix5 (c XOR d) = crc_mix5 c XOR crc_mix5 d"
  by (rule bit_word_eqI; auto simp: bit_stages bit_xor_iff)+

lemma crc_core_xor: "crc_core (c XOR d) = crc_core c XOR crc_core d"
  by (simp add: crc_core_def stages_xor)

lemma kernel_mix4: "crc_mix4 c = 0 \<Longrightarrow> c = 0"
proof (rule bit_word_eqI)
  fix n assume "crc_mix4 c = 0"
  then have z: "bit c m = (m < 4 \<and> bit c (m + 4))" for m using bit_mix4 [of c m] by auto
  show "bit c n = bit (0 :: u16) n" using z [of n] z [of "n + 4"] by auto
qed

lemma kernel_mix12: "crc_mix12 c = 0 \<Longrightarrow> c = 0"
proof (rule bit_word_eqI)
  fix n assume "crc_mix12 c = 0"
  then have z: "bit c m = (12 \<le> m \<and> m < 16 \<and> bit c (m - 12))" for m
    using bit_mix12 [of c m] by auto
  show "bit c n = bit (0 :: u16) n" using z [of n] z [of "n - 12"] by auto
qed

lemma kernel_mix5: "crc_mix5 c = 0 \<Longrightarrow> c = 0"
proof -
  assume "crc_mix5 c = 0"
  then have z: "bit c m = (5 \<le> m \<and> m < 13 \<and> bit c (m - 5))" for m
    using bit_mix5 [of c m] by auto
  have "\<not> bit c n" for n
  proof (induction n rule: less_induct)
    case (less n)
    then show ?case using z [of n] less [of "n - 5"] by auto
  qed
  then show "c = 0" by (intro bit_word_eqI) simp
qed

lemma kernel_swap: "crc_swap c = 0 \<Longrightarrow> c = 0"
proof (rule bit_word_eqI)
  fix n assume "crc_swap c = 0" and n: "n < LENGTH(16)"
  then have z: "\<not> (m < 16 \<and> bit c (if m < 8 then m + 8 else m - 8))" for m
    using bit_swap [of c m] by simp
  show "bit c n = bit (0 :: u16) n"
    using z [of "n + 8"] z [of "n - 8"] n by (auto split: if_splits)
qed

lemma crc_core_inj: "crc_core c = crc_core d \<longleftrightarrow> c = d"
proof
  assume "crc_core c = crc_core d"
  then have "crc_core (c XOR d) = 0" by (simp add: crc_core_xor)
  then have "c XOR d = 0"
    unfolding crc_core_def by (rule kernel_swap [OF kernel_mix4 [OF kernel_mix12 [OF kernel_mix5]]])
  then show "c = d" by simp
qed simp

lemma foldl_crc_inj:
  "foldl crc_step c bs = foldl crc_step d bs \<longleftrightarrow> c = d"
proof (induction bs arbitrary: c d)
  case (Cons b bs)
  then show ?case by (simp add: crc_step_core crc_core_inj)
qed simp

text \<open>Two changed bytes in a row: a core step moves a changed high byte into the low byte.\<close>

lemma core_high_byte:
  assumes "crc_core (push_bit 8 (ucast (a :: u8))) = push_bit 8 (ucast (b :: u8))"
  shows "a = 0 \<and> b = 0"
proof -
  have core: "bit (crc_core (push_bit 8 (ucast a))) n = bit (push_bit 8 (ucast b) :: u16) n" for n
    using assms by simp
  have low: "\<not> bit a k" if "k < 8" for k
  proof -
    have "\<not> bit a 4" "\<not> bit a 5" "\<not> bit a 6" "\<not> bit a 7"
         "\<not> bit a 0" "\<not> bit a 1" "\<not> bit a 2" "\<not> bit a 3"
      using core [of 0] core [of 1] core [of 2] core [of 3] core [of 4] core [of 5] core [of 6]
        core [of 7]
      by (simp_all add: crc_core_def bit_stages bit_simps)
    moreover have "k \<in> {0, 1, 2, 3, 4, 5, 6, 7}" using that by auto
    ultimately show ?thesis by auto
  qed
  then have a: "a = 0" by (intro bit_word_eqI) simp
  have "\<not> bit b k" if "k < 8" for k
    using core [of "k + 8"] that a by (simp add: crc_core_def bit_stages bit_simps)
  with a show ?thesis by (auto intro: bit_word_eqI)
qed

lemma xor_shuffle: "v XOR x = w XOR y \<longleftrightarrow> v XOR w = x XOR (y :: 'a::len word)"
  by (simp only: xor_eq_0 [of "v XOR x" "w XOR y", symmetric]
      xor_eq_0 [of "v XOR w" "x XOR y", symmetric] ac_simps)

lemma two_steps_inj:
  "crc_step (crc_step c a) b = crc_step (crc_step c a') b' \<longleftrightarrow> a = a' \<and> b = b'"
proof
  let ?h = "\<lambda>x :: u8. push_bit 8 (ucast x) :: u16"
  assume "crc_step (crc_step c a) b = crc_step (crc_step c a') b'"
  then have "crc_core (c XOR ?h a) XOR ?h b = crc_core (c XOR ?h a') XOR ?h b'"
    by (simp add: crc_step_core crc_core_inj)
  then have "crc_core (c XOR ?h a) XOR crc_core (c XOR ?h a') = ?h b XOR ?h b'"
    by (simp add: xor_shuffle)
  moreover have "(c XOR ?h a) XOR (c XOR ?h a') = ?h (a XOR a')"
    by (rule bit_word_eqI) (auto simp: bit_simps)
  moreover have "?h b XOR ?h b' = ?h (b XOR b')"
    by (rule bit_word_eqI) (auto simp: bit_simps)
  ultimately have "crc_core (?h (a XOR a')) = ?h (b XOR b')"
    by (simp flip: crc_core_xor)
  from core_high_byte [OF this] show "a = a' \<and> b = b'" by simp
qed simp

text \<open>
  Error detection: two messages of the same length that differ only inside two adjacent
  bytes (any burst of up to 16 bits on a byte boundary) or inside one byte never have the
  same checksum, whatever precedes and follows.
\<close>

theorem CRC_calc_detects_burst:
  "(CRC_calc (p @ [a, b] @ s) = CRC_calc (p @ [a', b'] @ s) \<longleftrightarrow> a = a' \<and> b = b')
   \<and> (CRC_calc (p @ [a] @ s) = CRC_calc (p @ [a'] @ s) \<longleftrightarrow> a = a')"
proof -
  have "CRC_calc (p @ [a] @ s) = CRC_calc (p @ [a'] @ s) \<longleftrightarrow>
      crc_step (crc_step (foldl crc_step 0 p) a) 0 = crc_step (crc_step (foldl crc_step 0 p) a') 0"
    by (simp add: CRC_calc_def foldl_crc_inj crc_step_core [of _ 0] crc_core_inj)
  moreover have "CRC_calc (p @ [a, b] @ s) = CRC_calc (p @ [a', b'] @ s) \<longleftrightarrow>
      crc_step (crc_step (foldl crc_step 0 p) a) b = crc_step (crc_step (foldl crc_step 0 p) a') b'"
    by (simp add: CRC_calc_def foldl_crc_inj)
  ultimately show ?thesis by (simp only: two_steps_inj) simp
qed

end
