(* ===== verification/Ecc.thy ===== *)
theory Ecc
  imports Prelude
begin

text \<open>
  The SEC-DED error correcting code of libs/base/ecc.cpp that protects NAND pages. The
  specification is on flat bit addresses: bit \<open>k\<close> of byte \<open>i\<close> has the address \<open>8 * i + k\<close>,
  and bit \<open>2 * q + h\<close> of the code is the parity of the data bits whose address has \<open>h\<close> as its
  bit number \<open>q\<close>.
\<close>

section \<open>The code\<close>

datatype EccResult = EccResultNoError | EccResultCorrected | EccResultNotCorrected
  | EccResultCorrupted

text \<open>The compiler builtins \<open>__builtin_ctz\<close> and \<open>__builtin_parity\<close>.\<close>

definition builtin_ctz :: "u32 \<Rightarrow> nat" where
  "builtin_ctz w = length (takeWhile Not (map (bit w) [0..<32]))"

definition xorl :: "bool list \<Rightarrow> bool" where
  "xorl bs = foldr (\<noteq>) bs False"

definition builtin_parity :: "u8 \<Rightarrow> u32" where
  "builtin_parity b = of_bool (xorl (map (bit b) [0..<8]))"

text \<open>
  The parity state of \<open>EccCalc\<close>: \<open>p1p\<close>, \<open>p2p\<close>, \<open>p4p\<close>, their complements (\<open>p1_\<close>, \<open>p2_\<close>,
  \<open>p4_\<close> in the code, here \<open>p1n\<close>, \<open>p2n\<close>, \<open>p4n\<close>) and the row parities \<open>p\<close>.
\<close>

record ecc_state =
  p1p :: u32
  p1n :: u32
  p2p :: u32
  p2n :: u32
  p4p :: u32
  p4n :: u32
  prow :: u32

definition ecc_bit :: "u8 \<Rightarrow> nat \<Rightarrow> u32" where
  "ecc_bit b k = drop_bit k (ucast b) AND 1"

text \<open>The inner loop over \<open>j < pw - 3\<close>.\<close>

fun ecc_rows :: "u32 \<Rightarrow> u32 \<Rightarrow> nat \<Rightarrow> u32 \<Rightarrow> u32" where
  "ecc_rows i rp 0 p = p"
| "ecc_rows i rp (Suc j) p =
     (let p' = ecc_rows i rp j p
      in if drop_bit j i AND 1 \<noteq> 0 then p' XOR push_bit (2 * j + 1) rp
         else p' XOR push_bit (2 * j + 0) rp)"

definition ecc_byte :: "nat \<Rightarrow> nat \<Rightarrow> u8 \<Rightarrow> ecc_state \<Rightarrow> ecc_state" where
  "ecc_byte pw i b s =
     \<lparr>p1p = ecc_bit b 6 XOR ecc_bit b 4 XOR ecc_bit b 2 XOR ecc_bit b 0 XOR p1p s,
      p1n = ecc_bit b 7 XOR ecc_bit b 5 XOR ecc_bit b 3 XOR ecc_bit b 1 XOR p1n s,
      p2p = ecc_bit b 5 XOR ecc_bit b 4 XOR ecc_bit b 1 XOR ecc_bit b 0 XOR p2p s,
      p2n = ecc_bit b 7 XOR ecc_bit b 6 XOR ecc_bit b 3 XOR ecc_bit b 2 XOR p2n s,
      p4p = ecc_bit b 3 XOR ecc_bit b 2 XOR ecc_bit b 1 XOR ecc_bit b 0 XOR p4p s,
      p4n = ecc_bit b 7 XOR ecc_bit b 6 XOR ecc_bit b 5 XOR ecc_bit b 4 XOR p4n s,
      prow = ecc_rows (of_nat i) (builtin_parity b) (pw - 3) (prow s)\<rparr>"

fun ecc_loop :: "nat \<Rightarrow> nat \<Rightarrow> bytes \<Rightarrow> ecc_state \<Rightarrow> ecc_state" where
  "ecc_loop pw i [] s = s"
| "ecc_loop pw i (b # bs) s = ecc_loop pw (Suc i) bs (ecc_byte pw i b s)"

definition EccCalc :: "bytes \<Rightarrow> u32" where
  "EccCalc data =
     (let pw = builtin_ctz (of_nat (length data) * 8);
          s = ecc_loop pw 0 data \<lparr>p1p = 0, p1n = 0, p2p = 0, p2n = 0, p4p = 0, p4n = 0, prow = 0\<rparr>;
          ecc = push_bit 0 (p1p s) OR push_bit 1 (p1n s) OR push_bit 2 (p2p s)
                OR push_bit 3 (p2n s) OR push_bit 4 (p4p s) OR push_bit 5 (p4n s)
      in ecc OR push_bit 6 (prow s))"

text \<open>The counting loop: \<open>mask\<close> runs over the bits 23 to 0.\<close>

fun ecc_count :: "u32 \<Rightarrow> nat \<Rightarrow> nat" where
  "ecc_count syndrome 0 = 0"
| "ecc_count syndrome (Suc k) =
     (if syndrome AND push_bit k 1 \<noteq> 0 then 1 else 0) + ecc_count syndrome k"

definition ecc_bitNum :: "u32 \<Rightarrow> u32" where
  "ecc_bitNum eccP =
     (eccP AND 0x01) OR (drop_bit 1 eccP AND 0x02) OR (drop_bit 2 eccP AND 0x04)"

definition ecc_byteAddr :: "u32 \<Rightarrow> u32" where
  "ecc_byteAddr eccP =
     (drop_bit 6 eccP AND 0x001) OR (drop_bit 7 eccP AND 0x002) OR (drop_bit 8 eccP AND 0x004)
     OR (drop_bit 9 eccP AND 0x008) OR (drop_bit 10 eccP AND 0x010)
     OR (drop_bit 11 eccP AND 0x020) OR (drop_bit 12 eccP AND 0x040)
     OR (drop_bit 13 eccP AND 0x080) OR (drop_bit 14 eccP AND 0x100)"

text \<open>
  The result and the corrected data. The corrected byte address is inside the data for the
  lengths the functions allow (\<open>EccCorrect_single\<close>); \<open>data[byteAddr]\<close> would be outside otherwise.
\<close>

definition EccCorrect :: "u32 \<Rightarrow> u32 \<Rightarrow> bytes \<Rightarrow> EccResult \<times> bytes" where
  "EccCorrect generated read data =
     (let pw = builtin_ctz (of_nat (length data) * 8);
          eccBits = push_bit (2 * pw) 1 - 1;
          correctableMask = 0x55555555 AND eccBits;
          syndrome = (generated XOR read) AND eccBits
      in if syndrome = 0 then (EccResultNoError, data)
         else
           (let eccPn = syndrome AND correctableMask;
                eccP = drop_bit 1 syndrome AND correctableMask
            in if eccPn XOR eccP = correctableMask then
                 (let bitNum = unat (ecc_bitNum eccP); byteAddr = unat (ecc_byteAddr eccP)
                  in (EccResultCorrected,
                      data[byteAddr := data ! byteAddr XOR push_bit bitNum 1]))
               else if ecc_count syndrome 24 = 1 then (EccResultCorrupted, data)
               else (EccResultNotCorrected, data)))"

section \<open>Specification: parities over bit addresses\<close>

definition data_bit :: "bytes \<Rightarrow> nat \<Rightarrow> bool" where
  "data_bit d A = bit (d ! (A div 8)) (A mod 8)"

definition ecc_sel :: "nat \<Rightarrow> nat \<Rightarrow> bool" where
  "ecc_sel t A \<longleftrightarrow> (bit A (t div 2) \<longleftrightarrow> odd t)"

definition ecc_parity :: "bytes \<Rightarrow> nat \<Rightarrow> nat \<Rightarrow> bool" where
  "ecc_parity d t n = xorl (map (\<lambda>A. data_bit d A \<and> ecc_sel t A) [0..<n])"

lemma xorl_simps [simp]: "xorl [] = False" "xorl (b # bs) = (b \<noteq> xorl bs)"
  by (simp_all add: xorl_def)

lemma xorl_append [simp]: "xorl (xs @ ys) = (xorl xs \<noteq> xorl ys)"
  by (induction xs) auto

lemma xorl_map_xor: "xorl (map (\<lambda>x. f x \<noteq> g x) xs) = (xorl (map f xs) \<noteq> xorl (map g xs))"
  by (induction xs) auto

lemma xorl_single:
  "a < n \<Longrightarrow> xorl (map (\<lambda>A. A = a \<and> Q A) [0..<n]) = Q (a :: nat)"
proof (induction n)
  case (Suc n)
  have "xorl (map (\<lambda>A. A = a \<and> Q A) [0..<m]) = False" if "m \<le> a" for m
    using that by (induction m) auto
  with Suc show ?case by (cases "a = n") auto
qed simp

lemma ecc_parity_0 [simp]: "ecc_parity d t 0 = False"
  by (simp add: ecc_parity_def)

lemma bit_addr:
  fixes m k :: nat
  assumes "k < 8"
  shows "bit (8 * m + k) q = (if q < 3 then bit k q else bit m (q - 3))"
proof (cases "q < 3")
  case True
  then have "q = 0 \<or> q = 1 \<or> q = 2" by arith
  then show ?thesis using True by (auto simp: bit_iff_odd) presburger+
next
  case False
  then obtain r where r: "q = 3 + r" using le_Suc_ex [of 3 q] by auto
  have "(8 * m + k) div 2 ^ q = (8 * m + k) div 8 div 2 ^ r"
    by (simp add: r power_add div_mult2_eq)
  also have "(8 * m + k) div 8 = m" using assms by simp
  finally show ?thesis by (simp add: bit_iff_odd r)
qed

lemma upt_8: "[0..<8] = [0, 1, 2, 3, 4, 5, 6, 7 :: nat]"
  by (simp add: upt_rec)

lemma ecc_parity_Suc:
  "ecc_parity d t (8 * Suc m) =
     (ecc_parity d t (8 * m) \<noteq>
      xorl (map (\<lambda>k. bit (d ! m) k \<and> ecc_sel t (8 * m + k)) [0..<8]))"
proof -
  have "[0..<8 * Suc m] = [0..<8 * m] @ [8 * m..<8 * m + 8]"
    using upt_add_eq_append [of 0 "8 * m" 8] by (simp add: add.commute)
  also have "[8 * m..<8 * m + 8] = map (\<lambda>k. 8 * m + k) [0..<8]"
    using map_add_upt [of "8 * m" 8] by (simp add: add.commute)
  finally have split: "[0..<8 * Suc m] = [0..<8 * m] @ map (\<lambda>k. 8 * m + k) [0..<8]" .
  have "map (\<lambda>A. data_bit d A \<and> ecc_sel t A) (map (\<lambda>k. 8 * m + k) [0..<8])
      = map (\<lambda>k. bit (d ! m) k \<and> ecc_sel t (8 * m + k)) [0..<8]"
    by (auto simp: data_bit_def)
  then show ?thesis unfolding ecc_parity_def split by (simp only: map_append xorl_append)
qed

lemma ecc_bit_of_bool: "k < 8 \<Longrightarrow> ecc_bit b k = of_bool (bit b k)"
  by (rule bit_word_eqI) (auto simp: ecc_bit_def bit_simps)

lemma of_bool_xor: "(of_bool a :: 'a::len word) XOR of_bool b = of_bool (a \<noteq> b)"
  by (cases a; cases b) simp_all

lemma bit_push_of_bool:
  "s < LENGTH('a) \<Longrightarrow> bit (push_bit s (of_bool r) :: 'a::len word) t \<longleftrightarrow> t = s \<and> r"
  by (cases r) (auto simp: bit_simps)

lemma bit_ecc_rows:
  assumes "n \<le> 13"
  shows "bit (ecc_rows i (of_bool r) n p) t \<longleftrightarrow>
    bit p t \<noteq> (t < 2 * n \<and> r \<and> (bit i (t div 2) \<longleftrightarrow> odd t))"
  using assms
proof (induction n)
  case (Suc n)
  have i: "drop_bit n i AND 1 \<noteq> 0 \<longleftrightarrow> bit i n"
    by (simp add: and_one_eq bit_iff_odd_drop_bit odd_iff_mod_2_eq_one)
  have step: "bit (ecc_rows i (of_bool r) (Suc n) p) t \<longleftrightarrow>
      bit (ecc_rows i (of_bool r) n p) t \<noteq> (t = 2 * n + of_bool (bit i n) \<and> r)"
  proof (cases "bit i n")
    case True
    then have e: "ecc_rows i (of_bool r) (Suc n) p
        = ecc_rows i (of_bool r) n p XOR push_bit (2 * n + 1) (of_bool r)"
      by (simp only: ecc_rows.simps Let_def i if_True)
    show ?thesis
      unfolding e bit_xor_iff using Suc.prems True by (subst bit_push_of_bool) auto
  next
    case False
    then have e: "ecc_rows i (of_bool r) (Suc n) p
        = ecc_rows i (of_bool r) n p XOR push_bit (2 * n + 0) (of_bool r)"
      by (simp only: ecc_rows.simps Let_def i if_False)
    show ?thesis
      unfolding e bit_xor_iff using Suc.prems False by (subst bit_push_of_bool) auto
  qed
  have "t = 2 * n \<or> t = 2 * n + 1 \<or> t < 2 * n \<or> 2 * Suc n \<le> t" by arith
  then consider "t = 2 * n" | "t = 2 * n + 1" | "t < 2 * n" | "2 * Suc n \<le> t" by blast
  then show ?case
    unfolding step by cases (use Suc in auto)
qed simp

section \<open>The loop computes the parities\<close>

definition ecc_inv :: "bytes \<Rightarrow> nat \<Rightarrow> nat \<Rightarrow> ecc_state \<Rightarrow> bool" where
  "ecc_inv d pw m s \<longleftrightarrow>
     p1p s = of_bool (ecc_parity d 0 (8 * m)) \<and> p1n s = of_bool (ecc_parity d 1 (8 * m)) \<and>
     p2p s = of_bool (ecc_parity d 2 (8 * m)) \<and> p2n s = of_bool (ecc_parity d 3 (8 * m)) \<and>
     p4p s = of_bool (ecc_parity d 4 (8 * m)) \<and> p4n s = of_bool (ecc_parity d 5 (8 * m)) \<and>
     (\<forall>t. bit (prow s) t \<longleftrightarrow> t < 2 * (pw - 3) \<and> ecc_parity d (t + 6) (8 * m))"

lemma ecc_parity_byte:
  assumes "d ! m = b" and "\<And>k. k < 8 \<Longrightarrow> ecc_sel t (8 * m + k) = P k"
  shows "ecc_parity d t (8 * Suc m) =
    (ecc_parity d t (8 * m) \<noteq> xorl (map (\<lambda>k. bit b k \<and> P k) [0..<8]))"
proof -
  have e: "map (\<lambda>k. bit (d ! m) k \<and> ecc_sel t (8 * m + k)) [0..<8]
      = map (\<lambda>k. bit b k \<and> P k) [0..<8]"
    using assms by auto
  show ?thesis unfolding ecc_parity_Suc by (simp only: e)
qed

lemma ecc_parity_col:
  assumes b: "d ! m = b"
  shows "ecc_parity d 0 (8 * Suc m) = (ecc_parity d 0 (8 * m) \<noteq> xorl [bit b 0, bit b 2, bit b 4, bit b 6])"
    and "ecc_parity d 1 (8 * Suc m) = (ecc_parity d 1 (8 * m) \<noteq> xorl [bit b 1, bit b 3, bit b 5, bit b 7])"
    and "ecc_parity d 2 (8 * Suc m) = (ecc_parity d 2 (8 * m) \<noteq> xorl [bit b 0, bit b 1, bit b 4, bit b 5])"
    and "ecc_parity d 3 (8 * Suc m) = (ecc_parity d 3 (8 * m) \<noteq> xorl [bit b 2, bit b 3, bit b 6, bit b 7])"
    and "ecc_parity d 4 (8 * Suc m) = (ecc_parity d 4 (8 * m) \<noteq> xorl [bit b 0, bit b 1, bit b 2, bit b 3])"
    and "ecc_parity d 5 (8 * Suc m) = (ecc_parity d 5 (8 * m) \<noteq> xorl [bit b 4, bit b 5, bit b 6, bit b 7])"
proof -
  note sel = ecc_sel_def bit_addr bit_0
  show "ecc_parity d 0 (8 * Suc m) = (ecc_parity d 0 (8 * m) \<noteq> xorl [bit b 0, bit b 2, bit b 4, bit b 6])"
    by (subst ecc_parity_byte [OF b, where P = even]) (simp_all add: sel upt_8)
  show "ecc_parity d 1 (8 * Suc m) = (ecc_parity d 1 (8 * m) \<noteq> xorl [bit b 1, bit b 3, bit b 5, bit b 7])"
    by (subst ecc_parity_byte [OF b, where P = odd]) (simp_all add: sel upt_8)
  show "ecc_parity d 2 (8 * Suc m) = (ecc_parity d 2 (8 * m) \<noteq> xorl [bit b 0, bit b 1, bit b 4, bit b 5])"
    by (subst ecc_parity_byte [OF b, where P = "\<lambda>k. \<not> bit k 1"]) (simp_all add: sel upt_8 bit_numeral_rec)
  show "ecc_parity d 3 (8 * Suc m) = (ecc_parity d 3 (8 * m) \<noteq> xorl [bit b 2, bit b 3, bit b 6, bit b 7])"
    by (subst ecc_parity_byte [OF b, where P = "\<lambda>k. bit k 1"]) (simp_all add: sel upt_8 bit_numeral_rec)
  show "ecc_parity d 4 (8 * Suc m) = (ecc_parity d 4 (8 * m) \<noteq> xorl [bit b 0, bit b 1, bit b 2, bit b 3])"
    by (subst ecc_parity_byte [OF b, where P = "\<lambda>k. \<not> bit k 2"]) (simp_all add: sel upt_8 bit_numeral_rec)
  show "ecc_parity d 5 (8 * Suc m) = (ecc_parity d 5 (8 * m) \<noteq> xorl [bit b 4, bit b 5, bit b 6, bit b 7])"
    by (subst ecc_parity_byte [OF b, where P = "\<lambda>k. bit k 2"]) (simp_all add: sel upt_8 bit_numeral_rec)
qed

lemma ecc_parity_row:
  assumes "d ! m = b"
  shows "ecc_parity d (t + 6) (8 * Suc m) =
    (ecc_parity d (t + 6) (8 * m) \<noteq>
       (xorl (map (bit b) [0..<8]) \<and> (bit m (t div 2) \<longleftrightarrow> odd t)))"
proof -
  have div: "(t + 6) div 2 = t div 2 + 3" by presburger
  have "ecc_sel (t + 6) (8 * m + k) \<longleftrightarrow> (bit m (t div 2) \<longleftrightarrow> odd t)" if "k < 8" for k
    using that by (simp add: ecc_sel_def bit_addr div)
  then show ?thesis
    by (subst ecc_parity_byte [OF assms, where P = "\<lambda>k. bit m (t div 2) \<longleftrightarrow> odd t"])
      (cases "bit m (t div 2) \<longleftrightarrow> odd t"; simp add: upt_8)+
qed

lemma ecc_bit_xor:
  assumes "i < 8" "j < 8" "k < 8" "l < 8"
  shows "ecc_bit b i XOR ecc_bit b j XOR ecc_bit b k XOR ecc_bit b l XOR of_bool p
    = of_bool (p \<noteq> xorl [bit b l, bit b k, bit b j, bit b i])"
  using assms
  by (cases "bit b i"; cases "bit b j"; cases "bit b k"; cases "bit b l"; cases p)
    (simp_all add: ecc_bit_of_bool)

lemma ecc_byte_inv:
  assumes "ecc_inv d pw m s" and "d ! m = b" and "pw \<le> 16" and "m < 2 ^ 32"
  shows "ecc_inv d pw (Suc m) (ecc_byte pw m b s)"
proof -
  have m: "bit (of_nat m :: u32) j \<longleftrightarrow> bit m j" for j
  proof (cases "j < 32")
    case False
    then have "(2::nat) ^ 32 \<le> 2 ^ j" by (intro power_increasing) auto
    with assms(4) have "m < 2 ^ j" by linarith
    then have "\<not> bit m j" by (simp add: bit_iff_odd)
    with False show ?thesis by (auto dest: bit_imp_le_length)
  qed (simp add: bit_simps)
  have "bit (prow (ecc_byte pw m b s)) t \<longleftrightarrow>
      t < 2 * (pw - 3) \<and> ecc_parity d (t + 6) (8 * Suc m)" for t
    using assms(1,3) unfolding ecc_parity_row [OF assms(2)]
    by (auto simp: ecc_byte_def builtin_parity_def bit_ecc_rows ecc_inv_def m)
  then show ?thesis
    using assms(1) unfolding ecc_inv_def ecc_parity_col [OF assms(2)]
    by (simp add: ecc_byte_def ecc_bit_xor del: xorl_simps)
qed

lemma ecc_loop_inv:
  assumes "ecc_inv d pw i s" and "drop i d = bs" and "pw \<le> 16" and "length d \<le> 2 ^ 31"
  shows "ecc_inv d pw (i + length bs) (ecc_loop pw i bs s)"
  using assms
proof (induction bs arbitrary: i s)
  case (Cons b bs)
  have i: "i < length d" using Cons.prems(2) by (metis drop_all linorder_not_less list.distinct(1))
  then have b: "d ! i = b" "drop (Suc i) d = bs"
    using Cons.prems(2) Cons_nth_drop_Suc [OF i] by auto
  have "ecc_inv d pw (Suc i) (ecc_byte pw i b s)"
    using Cons.prems b i by (intro ecc_byte_inv) auto
  from Cons.IH [OF this b(2) Cons.prems(3,4)] show ?case by simp
qed simp

text \<open>The exponent of the number of data bits, for the data lengths the functions allow.\<close>

lemma ctz_pow2:
  assumes "k < 32"
  shows "builtin_ctz (push_bit k 1) = k"
proof -
  have "map (bit (push_bit k 1 :: u32)) [0..<32]
      = map (\<lambda>_. False) [0..<k] @ True # map (bit (push_bit k 1 :: u32)) [Suc k..<32]"
    using assms by (auto simp: list_eq_iff_nth_eq nth_append nth_Cons' bit_simps)
  then show ?thesis by (simp add: builtin_ctz_def takeWhile_append)
qed

lemma ctz_length:
  assumes "length d = 2 ^ k" and "k \<le> 12"
  shows "builtin_ctz (of_nat (length d) * 8) = k + 3"
proof -
  have "(of_nat (length d) * 8 :: u32) = push_bit (k + 3) 1"
    using assms by (simp add: push_bit_eq_mult power_add)
  then show ?thesis using ctz_pow2 [of "k + 3"] assms by simp
qed

text \<open>The code is the list of address parities.\<close>

lemma bit_EccCalc:
  assumes len: "length d = 2 ^ k" and k: "k \<le> 9"
  shows "bit (EccCalc d) t \<longleftrightarrow> t < 2 * (k + 3) \<and> ecc_parity d t (8 * length d)"
proof -
  let ?s0 = "\<lparr>p1p = 0, p1n = 0, p2p = 0, p2n = 0, p4p = 0, p4n = 0, prow = 0\<rparr>"
  let ?s = "ecc_loop (k + 3) 0 d ?s0" and ?P = "\<lambda>t. ecc_parity d t (8 * length d)"
  have "(2 :: nat) ^ k \<le> 2 ^ 9" using k by (rule power_increasing) simp
  then have "ecc_inv d (k + 3) (0 + length d) ?s"
    using len k by (intro ecc_loop_inv) (simp_all add: ecc_inv_def)
  then have inv: "p1p ?s = of_bool (?P 0)" "p1n ?s = of_bool (?P 1)" "p2p ?s = of_bool (?P 2)"
    "p2n ?s = of_bool (?P 3)" "p4p ?s = of_bool (?P 4)" "p4n ?s = of_bool (?P 5)"
    "\<And>t. bit (prow ?s) t \<longleftrightarrow> t < 2 * k \<and> ?P (t + 6)"
    by (simp_all add: ecc_inv_def)
  have pw: "builtin_ctz (of_nat (length d) * 8) = k + 3"
    using len k by (intro ctz_length) simp_all
  have calc: "EccCalc d = push_bit 0 (of_bool (?P 0)) OR push_bit 1 (of_bool (?P 1))
      OR push_bit 2 (of_bool (?P 2)) OR push_bit 3 (of_bool (?P 3)) OR push_bit 4 (of_bool (?P 4))
      OR push_bit 5 (of_bool (?P 5)) OR push_bit 6 (prow ?s)"
    by (simp only: EccCalc_def Let_def pw inv(1-6) or.assoc)
  have "bit (EccCalc d) t \<longleftrightarrow> (t < 6 \<and> ?P t) \<or> (6 \<le> t \<and> bit (prow ?s) (t - 6) \<and> t < 32)"
  proof -
    have b: "bit (push_bit s (of_bool r) :: u32) t \<longleftrightarrow> t = s \<and> r" if "s < 6" for s r
      using that by (intro bit_push_of_bool) simp
    have "bit (EccCalc d) t \<longleftrightarrow>
        (t = 0 \<and> ?P 0) \<or> (t = 1 \<and> ?P 1) \<or> (t = 2 \<and> ?P 2) \<or> (t = 3 \<and> ?P 3) \<or> (t = 4 \<and> ?P 4)
        \<or> (t = 5 \<and> ?P 5) \<or> (6 \<le> t \<and> t < LENGTH(32) \<and> bit (prow ?s) (t - 6))"
      unfolding calc bit_or_iff
      by (subst b, simp)+ (simp only: bit_push_bit_iff possible_bit_word)
    moreover have "t = 0 \<or> t = 1 \<or> t = 2 \<or> t = 3 \<or> t = 4 \<or> t = 5 \<or> 6 \<le> t" by arith
    ultimately show ?thesis by (elim disjE) auto
  qed
  also have "\<dots> \<longleftrightarrow> t < 2 * (k + 3) \<and> ?P t"
    using k by (auto simp: inv(7))
  finally show ?thesis .
qed

section \<open>Syndromes\<close>

text \<open>
  The syndrome after flipping the data bit at address \<open>A\<close> is the list of selections of \<open>A\<close>;
  after two flips it is the list of the differences.
\<close>

definition flip_data_bit :: "nat \<Rightarrow> bytes \<Rightarrow> bytes" where
  "flip_data_bit A d = d[A div 8 := d ! (A div 8) XOR push_bit (A mod 8) 1]"

lemma length_flip_data_bit [simp]: "length (flip_data_bit A d) = length d"
  by (simp add: flip_data_bit_def)

lemma flip_data_bit_twice [simp]: "flip_data_bit A (flip_data_bit A d) = d"
  by (cases "A div 8 < length d") (simp_all add: flip_data_bit_def xor.assoc list_update_beyond)

lemma data_bit_flip:
  assumes "A < 8 * length d"
  shows "data_bit (flip_data_bit A d) B \<longleftrightarrow> (data_bit d B \<noteq> (B = A))"
proof (cases "B div 8 = A div 8")
  case True
  have l: "A div 8 < length d" using assms by (simp add: less_mult_imp_div_less mult.commute)
  have "B = A \<longleftrightarrow> B mod 8 = A mod 8" using True by (metis div_mod_decomp)
  with True l show ?thesis by (auto simp: data_bit_def flip_data_bit_def bit_simps)
qed (auto simp: data_bit_def flip_data_bit_def)

lemma ecc_parity_flip:
  assumes "A < 8 * length d"
  shows "ecc_parity (flip_data_bit A d) t (8 * length d)
     = (ecc_parity d t (8 * length d) \<noteq> ecc_sel t A)"
proof -
  have "(\<lambda>B. data_bit (flip_data_bit A d) B \<and> ecc_sel t B)
      = (\<lambda>B. (data_bit d B \<and> ecc_sel t B) \<noteq> (B = A \<and> ecc_sel t B))"
    using data_bit_flip [OF assms] by auto
  then show ?thesis
    unfolding ecc_parity_def by (simp only: xorl_map_xor xorl_single [OF assms])
qed

lemma bit_EccCalc_flip:
  assumes "length d = 2 ^ k" and "k \<le> 9" and "A < 8 * length d"
  shows "bit (EccCalc (flip_data_bit A d)) t
    \<longleftrightarrow> (bit (EccCalc d) t \<noteq> (t < 2 * (k + 3) \<and> ecc_sel t A))"
  using assms ecc_parity_flip [OF assms(3), of t]
  by (auto simp: bit_EccCalc [where k = k])

lemma ecc_sel_pair: "ecc_sel (2 * q) A \<longleftrightarrow> \<not> bit A q" "ecc_sel (2 * q + 1) A \<longleftrightarrow> bit A q"
  by (simp_all add: ecc_sel_def)

lemma bit_mask_length:
  assumes "length d = 2 ^ k" and "k \<le> 9"
  shows "bit (push_bit (2 * builtin_ctz (of_nat (length d) * 8)) 1 - 1 :: u32) t
    \<longleftrightarrow> t < 2 * (k + 3)"
proof -
  have "builtin_ctz (of_nat (length d) * 8) = k + 3"
    using assms by (intro ctz_length) simp_all
  moreover have "push_bit (2 * (k + 3)) 1 - 1 = (mask (2 * (k + 3)) :: u32)"
    by (simp add: mask_eq_exp_minus_1)
  ultimately show ?thesis using assms(2) by (simp add: bit_mask_iff, linarith)
qed

lemma bit_0x55555555: "bit (0x55555555 :: u32) t \<longleftrightarrow> t < 32 \<and> even t"
proof (cases "t < 32")
  case True
  have "\<forall>t \<in> {..<32}. bit (0x55555555 :: u32) t \<longleftrightarrow> even t"
    by (simp add: lessThan_nat_numeral lessThan_Suc bit_numeral_rec)
  with True show ?thesis by blast
qed (auto dest: bit_imp_le_length)

text \<open>The masked syndrome, its two halves and their sum, bit by bit.\<close>

definition ecc_mask :: "bytes \<Rightarrow> u32" where
  "ecc_mask d = push_bit (2 * builtin_ctz (of_nat (length d) * 8)) 1 - 1"

definition ecc_corr :: "bytes \<Rightarrow> u32" where
  "ecc_corr d = 0x55555555 AND ecc_mask d"

lemma bit_ecc_corr:
  assumes "length d = 2 ^ k" and "k \<le> 9"
  shows "bit (ecc_corr d) t \<longleftrightarrow> even t \<and> t < 2 * (k + 3)"
  using assms(2)
  by (simp only: ecc_corr_def bit_and_iff bit_0x55555555 ecc_mask_def bit_mask_length [OF assms]) auto

lemma ecc_halves:
  fixes s :: u32
  assumes "length d = 2 ^ k" and "k \<le> 9"
    and s: "\<And>q. q < k + 3 \<Longrightarrow> bit s (2 * q + 1) \<longleftrightarrow> (bit s (2 * q) \<noteq> c)"
    and s': "\<And>t. bit s t \<Longrightarrow> t < 2 * (k + 3)"
  shows "(s AND ecc_corr d) XOR (drop_bit 1 s AND ecc_corr d)
    = (if c then ecc_corr d else 0)"
proof (rule bit_word_eqI)
  fix t assume "t < LENGTH(32)"
  note m = bit_ecc_corr [OF assms(1,2)]
  show "bit ((s AND ecc_corr d) XOR (drop_bit 1 s AND ecc_corr d)) t
    = bit (if c then ecc_corr d else 0) t"
  proof (cases "even t \<and> t < 2 * (k + 3)")
    case True
    then obtain q where q: "t = 2 * q" "q < k + 3" by (auto elim: evenE)
    from s [OF q(2)] show ?thesis
      using True by (auto simp: bit_simps m q(1))
  next
    case False
    then show ?thesis by (auto simp: bit_simps m)
  qed
qed

lemma ecc_mask_nonzero:
  assumes "length d = 2 ^ k" and "k \<le> 9"
  shows "ecc_corr d \<noteq> 0"
proof -
  have "bit (ecc_corr d) 0"
    by (subst bit_ecc_corr [OF assms]) simp
  then show ?thesis by auto
qed

text \<open>The decoded address.\<close>

lemma bit_eccP_field:
  fixes e :: u32
  assumes "m = push_bit j 1"
  shows "bit (drop_bit s e AND m) t \<longleftrightarrow> t = j \<and> j < 32 \<and> bit e (s + j)"
  unfolding assms by (auto simp: bit_simps)

lemma bit_field_sum:
  fixes e :: u32
  shows "bit (ecc_bitNum e) t \<longleftrightarrow> t < 3 \<and> bit e (2 * t)"
    and "bit (ecc_byteAddr e) t \<longleftrightarrow> t < 9 \<and> bit e (2 * t + 6)"
proof -
  have m: "(1 :: u32) = push_bit 0 1" "(2 :: u32) = push_bit 1 1" "(4 :: u32) = push_bit 2 1"
    "(8 :: u32) = push_bit 3 1" "(0x10 :: u32) = push_bit 4 1" "(0x20 :: u32) = push_bit 5 1"
    "(0x40 :: u32) = push_bit 6 1" "(0x80 :: u32) = push_bit 7 1" "(0x100 :: u32) = push_bit 8 1"
    by simp_all
  have c: "t < 3 \<longleftrightarrow> t = 0 \<or> t = 1 \<or> t = 2"
    "t < 9 \<longleftrightarrow> t = 0 \<or> t = 1 \<or> t = 2 \<or> t = 3 \<or> t = 4 \<or> t = 5 \<or> t = 6 \<or> t = 7 \<or> t = 8"
    by arith+
  note f = bit_eccP_field [OF m(1)] bit_eccP_field [OF m(2)] bit_eccP_field [OF m(3)]
    bit_eccP_field [OF m(4)] bit_eccP_field [OF m(5)] bit_eccP_field [OF m(6)]
    bit_eccP_field [OF m(7)] bit_eccP_field [OF m(8)] bit_eccP_field [OF m(9)]
  show "bit (ecc_bitNum e) t \<longleftrightarrow> t < 3 \<and> bit e (2 * t)"
  proof (cases "t < 3")
    case True
    then show ?thesis unfolding c ecc_bitNum_def bit_or_iff f bit_and_iff bit_1_iff
      by (elim disjE) (simp_all add: bit_drop_bit_eq numeral_2_eq_2)
  next
    case False
    then have "t \<noteq> 0 \<and> t \<noteq> 1 \<and> t \<noteq> 2" by auto
    with False show ?thesis
      unfolding ecc_bitNum_def bit_or_iff bit_eccP_field [OF m(2)] bit_eccP_field [OF m(3)]
      unfolding bit_and_iff bit_1_iff by simp
  qed
  show "bit (ecc_byteAddr e) t \<longleftrightarrow> t < 9 \<and> bit e (2 * t + 6)"
  proof (cases "t < 9")
    case True
    then show ?thesis unfolding c ecc_byteAddr_def bit_or_iff f by (elim disjE) simp_all
  next
    case False
    then have "t \<noteq> 0 \<and> t \<noteq> 1 \<and> t \<noteq> 2 \<and> t \<noteq> 3 \<and> t \<noteq> 4 \<and> t \<noteq> 5 \<and> t \<noteq> 6 \<and> t \<noteq> 7 \<and> t \<noteq> 8" by auto
    with False show ?thesis unfolding ecc_byteAddr_def bit_or_iff f by simp
  qed
qed

lemma ecc_address:
  fixes e :: u32
  assumes e: "\<And>q. bit e (2 * q) \<longleftrightarrow> q < k + 3 \<and> bit A q" and A: "A < 2 ^ (k + 3)" and k: "k \<le> 9"
  shows "unat (ecc_bitNum e) = A mod 8" and "unat (ecc_byteAddr e) = A div 8"
proof -
  have A': "bit A q \<Longrightarrow> q < k + 3" for q
    by (rule ccontr)
      (use A in \<open>auto simp: bit_iff_odd not_less dest!: power_increasing [of "k + 3" q "2::nat"]\<close>)
  have "bit (unat (ecc_bitNum e)) t \<longleftrightarrow> bit (take_bit 3 A) t" for t
    using A' by (auto simp: bit_unsigned_iff bit_field_sum bit_take_bit_iff e
        simp flip: possible_bit_word intro: possible_bit_less_imp)
  then show "unat (ecc_bitNum e) = A mod 8"
    by (auto simp: take_bit_eq_mod intro: bit_eqI)
  have "e' < 9" if "bit A (3 + e')" for e' using A' [OF that] k by simp
  then have "bit (unat (ecc_byteAddr e)) t \<longleftrightarrow> bit (drop_bit 3 A) t" for t
    using e [of "3 + t"] A' [of "3 + t"]
    by (auto simp: bit_unsigned_iff bit_field_sum bit_drop_bit_eq comp_def distrib_left add.commute)
  then show "unat (ecc_byteAddr e) = A div 8"
    by (auto simp: drop_bit_eq_div intro: bit_eqI)
qed

lemma ecc_count_pos:
  assumes "bit s j" and "j < n" and "n \<le> 32"
  shows "0 < ecc_count s n"
  using assms
proof (induction n)
  case (Suc n)
  have "s AND push_bit n 1 \<noteq> 0 \<longleftrightarrow> bit s n"
    by (simp add: and_exp_eq_0_iff_not_bit)
  with Suc show ?case by (cases "j = n") auto
qed simp

lemma ecc_count_eq_card:
  "n \<le> 32 \<Longrightarrow> ecc_count s n = card {t. t < n \<and> bit s t}"
proof (induction n)
  case (Suc n)
  have "s AND push_bit n 1 \<noteq> 0 \<longleftrightarrow> bit s n"
    by (simp add: and_exp_eq_0_iff_not_bit)
  moreover have "{t. t < Suc n \<and> bit s t}
      = (if bit s n then insert n {t. t < n \<and> bit s t} else {t. t < n \<and> bit s t})"
    by (auto simp: less_Suc_eq)
  ultimately show ?case using Suc by (simp add: card_insert_if)
qed simp

text \<open>What \<open>EccCorrect\<close> does with a syndrome.\<close>

definition ecc_syndrome :: "u32 \<Rightarrow> u32 \<Rightarrow> bytes \<Rightarrow> u32" where
  "ecc_syndrome g r d = (g XOR r) AND ecc_mask d"

lemma bit_ecc_syndrome:
  assumes "length d = 2 ^ k" and "k \<le> 9"
  shows "bit (ecc_syndrome g r d) t \<longleftrightarrow> (bit g t \<noteq> bit r t) \<and> t < 2 * (k + 3)"
  by (simp only: ecc_syndrome_def bit_and_iff bit_xor_iff ecc_mask_def bit_mask_length [OF assms])

lemma EccCorrect_syndrome:
  "EccCorrect g r d =
     (let s = ecc_syndrome g r d; m = ecc_corr d; e = drop_bit 1 s AND m
      in if s = 0 then (EccResultNoError, d)
         else if (s AND m) XOR e = m
         then (EccResultCorrected,
               d[unat (ecc_byteAddr e) := d ! unat (ecc_byteAddr e) XOR push_bit (unat (ecc_bitNum e)) 1])
         else if ecc_count s 24 = 1 then (EccResultCorrupted, d) else (EccResultNotCorrected, d))"
  by (simp only: EccCorrect_def ecc_syndrome_def ecc_corr_def ecc_mask_def Let_def)

text \<open>
  C4. A data block of \<open>2 ^ k\<close> bytes up to the 512 bytes of a NAND page, in which one bit has
  flipped since its code was stored, is restored.
\<close>
theorem EccCorrect_single:
  assumes "length d = 2 ^ k" and "k \<le> 9" and "A < 8 * length d"
  shows "EccCorrect (EccCalc (flip_data_bit A d)) (EccCalc d) (flip_data_bit A d) = (EccResultCorrected, d)"
proof -
  let ?d = "flip_data_bit A d"
  let ?s = "ecc_syndrome (EccCalc ?d) (EccCalc d) ?d" and ?m = "ecc_corr ?d"
  have len: "length ?d = 2 ^ k" using assms(1) by simp
  have s: "bit ?s t \<longleftrightarrow> ecc_sel t A \<and> t < 2 * (k + 3)" for t
    unfolding bit_ecc_syndrome [OF len assms(2)] bit_EccCalc_flip [OF assms] by auto
  have e: "bit (drop_bit 1 ?s AND ?m) (2 * q) \<longleftrightarrow> q < k + 3 \<and> bit A q" for q
    by (auto simp: bit_simps s ecc_sel_def bit_ecc_corr [OF len assms(2)])
  have half: "(?s AND ?m) XOR (drop_bit 1 ?s AND ?m) = ?m"
  proof -
    have "bit ?s (2 * q + 1) \<longleftrightarrow> (bit ?s (2 * q) \<noteq> True)" if "q < k + 3" for q
      using that unfolding s ecc_sel_pair by auto
    from ecc_halves [OF len assms(2) this] show ?thesis by (simp add: s)
  qed
  then have nz: "?s \<noteq> 0" using ecc_mask_nonzero [OF len assms(2)] by auto
  have "A < 2 ^ (k + 3)" using assms(1,3) by (simp add: power_add)
  note addr = ecc_address [OF e this assms(2)]
  have "EccCorrect (EccCalc ?d) (EccCalc d) ?d = (EccResultCorrected, flip_data_bit A ?d)"
    unfolding EccCorrect_syndrome Let_def addr flip_data_bit_def [of A ?d, symmetric]
    by (simp only: half nz if_True if_False refl)
  then show ?thesis by simp
qed

lemma EccCorrect_single_witness:
  "EccCorrect (EccCalc (flip_data_bit 13 [0x12, 0x34])) (EccCalc [0x12, 0x34])
     (flip_data_bit 13 [0x12, 0x34]) = (EccResultCorrected, [0x12, 0x34])"
  by (rule EccCorrect_single [where k = 1]) simp_all

text \<open>C5. Two flipped data bits are reported and the data is left alone.\<close>
theorem EccCorrect_double:
  assumes "length d = 2 ^ k" and "k \<le> 9" and "A < 8 * length d" and "B < 8 * length d"
    and "A \<noteq> B" and "d' = flip_data_bit B (flip_data_bit A d)"
  shows "EccCorrect (EccCalc d') (EccCalc d) d' = (EccResultNotCorrected, d')"
proof -
  let ?s = "ecc_syndrome (EccCalc d') (EccCalc d) d'" and ?m = "ecc_corr d'"
  have len: "length d' = 2 ^ k" using assms(1,6) by simp
  have s: "bit ?s t \<longleftrightarrow> (ecc_sel t A \<noteq> ecc_sel t B) \<and> t < 2 * (k + 3)" for t
    using bit_EccCalc_flip [of "flip_data_bit A d" k B t] bit_EccCalc_flip [OF assms(1-3)] assms
    unfolding bit_ecc_syndrome [OF len assms(2)] by auto
  have half: "(?s AND ?m) XOR (drop_bit 1 ?s AND ?m) = 0"
  proof -
    have "bit ?s (2 * q + 1) \<longleftrightarrow> (bit ?s (2 * q) \<noteq> False)" if "q < k + 3" for q
      using that unfolding s ecc_sel_pair by auto
    from ecc_halves [OF len assms(2) this] show ?thesis by (simp add: s)
  qed
  obtain q where q: "bit A q \<noteq> bit B q" using assms(5) bit_eqI by blast
  have q3: "q < k + 3"
  proof (rule ccontr)
    assume "\<not> q < k + 3"
    then have "(2::nat) ^ (k + 3) \<le> 2 ^ q" by (intro power_increasing) auto
    with assms(1,3,4) have "A < 2 ^ q" "B < 2 ^ q" by (simp_all add: power_add)
    with q show False by (simp add: bit_iff_odd)
  qed
  have "{2 * q, 2 * q + 1} \<subseteq> {t. t < 24 \<and> bit ?s t}"
    using q q3 assms(2) by (auto simp: s ecc_sel_def)
  from card_mono [OF _ this] have "2 \<le> ecc_count ?s 24"
    by (simp add: ecc_count_eq_card)
  moreover have "bit ?s (2 * q)" using q q3 by (simp add: s ecc_sel_def)
  then have "?s \<noteq> 0" by auto
  ultimately show ?thesis
    unfolding EccCorrect_syndrome Let_def using half ecc_mask_nonzero [OF len assms(2)] by simp
qed

lemma EccCorrect_double_witness:
  "EccCorrect (EccCalc (flip_data_bit 2 (flip_data_bit 13 [0x12, 0x34]))) (EccCalc [0x12, 0x34])
     (flip_data_bit 2 (flip_data_bit 13 [0x12, 0x34]))
   = (EccResultNotCorrected, flip_data_bit 2 (flip_data_bit 13 [0x12, 0x34]))"
  by (rule EccCorrect_double [where k = 1]) simp_all

text \<open>A flipped bit of the stored code is told from an error in the data.\<close>
theorem EccCorrect_code_bit:
  assumes "length d = 2 ^ k" and "k \<le> 9" and "t < 2 * (k + 3)"
  shows "EccCorrect (EccCalc d) (EccCalc d XOR push_bit t 1) d = (EccResultCorrupted, d)"
proof -
  define r where "r = EccCalc d XOR push_bit t 1"
  let ?s = "ecc_syndrome (EccCalc d) r d" and ?m = "ecc_corr d"
  have t: "t < 24" using assms(2,3) by simp
  have s: "bit ?s u \<longleftrightarrow> u = t" for u
    using assms(3) t unfolding bit_ecc_syndrome [OF assms(1,2)] by (auto simp: r_def bit_simps)
  have half: "(?s AND ?m) XOR (drop_bit 1 ?s AND ?m) \<noteq> ?m"
  proof
    define u where "u = (if t div 2 = 0 then 2 else 0 :: nat)"
    assume eq: "(?s AND ?m) XOR (drop_bit 1 ?s AND ?m) = ?m"
    have "bit ((?s AND ?m) XOR (drop_bit 1 ?s AND ?m)) u \<longleftrightarrow> False"
      unfolding bit_xor_iff bit_and_iff bit_drop_bit_eq comp_def s u_def by (cases "t div 2 = 0") auto
    moreover have "bit ?m u"
      by (simp add: bit_ecc_corr [OF assms(1,2)] u_def)
    ultimately show False using eq by simp
  qed
  have "{u. u < 24 \<and> bit ?s u} = {t}" using t by (auto simp: s)
  then have "ecc_count ?s 24 = 1" by (simp add: ecc_count_eq_card)
  moreover have "?s \<noteq> 0" using s [of t] by auto
  ultimately show ?thesis
    unfolding r_def [symmetric] EccCorrect_syndrome Let_def using half by simp
qed

lemma EccCorrect_code_bit_witness:
  "EccCorrect (EccCalc [0x12, 0x34]) (EccCalc [0x12, 0x34] XOR push_bit 5 1) [0x12, 0x34]
   = (EccResultCorrupted, [0x12, 0x34])"
  by (rule EccCorrect_code_bit [where k = 1]) simp_all

end
