(* ===== verification/Time_Point.thy ===== *)
theory Time_Point
  imports Prelude
begin

text \<open>
  Points in mission time (libs/time/TimePoint.cpp, TimePoint.h). Durations are the 64-bit counts of
  \<open>std::chrono::milliseconds\<close>, on which the conversions compute unsigned.
\<close>

section \<open>The code\<close>

record TimePoint =
  tp_second :: u8
  tp_minute :: u8
  tp_hour :: u8
  tp_day :: u16
  tp_milisecond :: u16

definition TimeSpanFromDays :: "u32 \<Rightarrow> u64" where
  "TimeSpanFromDays days = ucast (days * 24) * 3600000"

definition TimePointFromDuration :: "u64 \<Rightarrow> TimePoint" where
  "TimePointFromDuration timeSpan =
     (let span = timeSpan;
          milisecond = ucast (span mod 1000);
          span = span div 1000;
          second = ucast (span mod 60);
          span = span div 60;
          minute = ucast (span mod 60);
          span = span div 60;
          hour = ucast (span mod 24);
          day = ucast (span div 24)
      in \<lparr>tp_second = second, tp_minute = minute, tp_hour = hour, tp_day = day,
          tp_milisecond = milisecond\<rparr>)"

definition TimePointToTimeSpan :: "TimePoint \<Rightarrow> u64" where
  "TimePointToTimeSpan point =
     (let result = ucast (tp_day point);
          result = result * 24;
          result = result + ucast (tp_hour point);
          result = result * 60;
          result = result + ucast (tp_minute point);
          result = result * 60;
          result = result + ucast (tp_second point);
          result = result * 1000;
          result = result + ucast (tp_milisecond point)
      in result)"

definition TimePointNormalize :: "TimePoint \<Rightarrow> TimePoint" where
  "TimePointNormalize point = TimePointFromDuration (TimePointToTimeSpan point)"

definition TimePointBuild :: "u16 \<Rightarrow> u8 \<Rightarrow> u8 \<Rightarrow> u8 \<Rightarrow> u16 \<Rightarrow> TimePoint" where
  "TimePointBuild day hour minute second millisecond =
     TimePointNormalize \<lparr>tp_second = second, tp_minute = minute, tp_hour = hour, tp_day = day,
       tp_milisecond = millisecond\<rparr>"

definition TimePointEqual :: "TimePoint \<Rightarrow> TimePoint \<Rightarrow> bool" where
  "TimePointEqual left right \<longleftrightarrow> TimePointToTimeSpan left = TimePointToTimeSpan right"

definition TimePointNotEqual :: "TimePoint \<Rightarrow> TimePoint \<Rightarrow> bool" where
  "TimePointNotEqual left right \<longleftrightarrow> \<not> TimePointEqual left right"

text \<open>The spans are compared as signed counts.\<close>

definition TimePointLessThan :: "TimePoint \<Rightarrow> TimePoint \<Rightarrow> bool" where
  "TimePointLessThan left right \<longleftrightarrow>
     sint (TimePointToTimeSpan left) < sint (TimePointToTimeSpan right)"

section \<open>Milliseconds of a point\<close>

definition point_ms :: "TimePoint \<Rightarrow> nat" where
  "point_ms p = (((unat (tp_day p) * 24 + unat (tp_hour p)) * 60 + unat (tp_minute p)) * 60
     + unat (tp_second p)) * 1000 + unat (tp_milisecond p)"

lemma u8_bound: "unat (b :: u8) < 256"
  using unsigned_less [of b, where ?'a = nat] by simp

lemma u16_bound: "unat (b :: u16) < 65536"
  using unsigned_less [of b, where ?'a = nat] by simp

lemma point_ms_bound: "point_ms p < 2 ^ 43"
  using u8_bound [of "tp_second p"] u8_bound [of "tp_minute p"] u8_bound [of "tp_hour p"]
    u16_bound [of "tp_day p"] u16_bound [of "tp_milisecond p"]
  unfolding point_ms_def by simp

lemma ToTimeSpan_ms: "TimePointToTimeSpan p = of_nat (point_ms p)"
  by (simp add: TimePointToTimeSpan_def point_ms_def Let_def algebra_simps)

lemma unat_ToTimeSpan: "unat (TimePointToTimeSpan p) = point_ms p"
  using point_ms_bound [of p] by (simp add: ToTimeSpan_ms unat_of_nat)

lemma sint_ToTimeSpan: "sint (TimePointToTimeSpan p) = int (point_ms p)"
proof -
  have "uint (TimePointToTimeSpan p) = int (point_ms p)"
    using unat_ToTimeSpan [of p] uint_nat [of "TimePointToTimeSpan p"] by simp
  then show ?thesis using point_ms_bound [of p] by (subst sint_small) simp_all
qed

lemma LessThan_ms: "TimePointLessThan p q \<longleftrightarrow> point_ms p < point_ms q"
  by (simp add: TimePointLessThan_def sint_ToTimeSpan)

lemma Equal_ms: "TimePointEqual p q \<longleftrightarrow> point_ms p = point_ms q"
  unfolding TimePointEqual_def word_unat_eq_iff unat_ToTimeSpan ..

definition normal :: "TimePoint \<Rightarrow> bool" where
  "normal p \<longleftrightarrow> unat (tp_milisecond p) < 1000 \<and> unat (tp_second p) < 60 \<and> unat (tp_minute p) < 60
     \<and> unat (tp_hour p) < 24"

definition MaxSpan :: nat where
  "MaxSpan = 65536 * 86400000"

lemma unat_narrow:
  fixes w :: u64
  shows "unat w < 256 \<Longrightarrow> unat (ucast w :: u8) = unat w"
    and "unat w < 65536 \<Longrightarrow> unat (ucast w :: u16) = unat w"
  by (simp_all add: unsigned_ucast_eq take_bit_eq_mod unat_mod_distrib)

lemma FromDuration_fields:
  fixes span :: u64
  assumes "unat span < MaxSpan"
  shows "unat (tp_milisecond (TimePointFromDuration span)) = unat span mod 1000"
    and "unat (tp_second (TimePointFromDuration span)) = unat span div 1000 mod 60"
    and "unat (tp_minute (TimePointFromDuration span)) = unat span div 1000 div 60 mod 60"
    and "unat (tp_hour (TimePointFromDuration span)) = unat span div 1000 div 60 div 60 mod 24"
    and "unat (tp_day (TimePointFromDuration span)) = unat span div 1000 div 60 div 60 div 24"
proof -
  note d = TimePointFromDuration_def Let_def unat_mod_distrib unat_div_distrib
  have m: "unat span mod 1000 < 65536" "unat span div 1000 mod 60 < 256"
    "unat span div 1000 div 60 mod 60 < 256" "unat span div 1000 div 60 div 60 mod 24 < 256"
    by (rule less_le_trans [OF mod_less_divisor], simp_all)+
  show "unat (tp_milisecond (TimePointFromDuration span)) = unat span mod 1000"
    unfolding d using m(1) by (simp add: unat_narrow d)
  show "unat (tp_second (TimePointFromDuration span)) = unat span div 1000 mod 60"
    unfolding d using m(2) by (simp add: unat_narrow d)
  show "unat (tp_minute (TimePointFromDuration span)) = unat span div 1000 div 60 mod 60"
    unfolding d using m(3) by (simp add: unat_narrow d)
  show "unat (tp_hour (TimePointFromDuration span)) = unat span div 1000 div 60 div 60 mod 24"
    unfolding d using m(4) by (simp add: unat_narrow d)
  have "unat span div 86400000 < 65536"
    using assms by (simp add: MaxSpan_def less_mult_imp_div_less)
  then have "unat span div 1000 div 60 div 60 div 24 < 65536" by (simp add: div_mult2_eq [symmetric])
  then show "unat (tp_day (TimePointFromDuration span)) = unat span div 1000 div 60 div 60 div 24"
    unfolding d by (simp add: unat_narrow d)
qed

lemma point_ms_FromDuration:
  assumes "unat span < MaxSpan"
  shows "point_ms (TimePointFromDuration span) = unat span"
  unfolding point_ms_def FromDuration_fields [OF assms] by simp

lemma normal_FromDuration: "unat span < MaxSpan \<Longrightarrow> normal (TimePointFromDuration span)"
  by (simp add: normal_def FromDuration_fields)

lemma horner: "b < k \<Longrightarrow> b' < k \<Longrightarrow> a * k + b = a' * k + b' \<Longrightarrow> a = a' \<and> b = (b' :: nat)"
  by (metis add.commute add.right_neutral div_less div_mult_self1 mod_less mod_mult_self1 not_less_zero)

lemma normal_eqI:
  assumes "normal p" and "normal q" and "point_ms p = point_ms q"
  shows "p = q"
proof -
  note n = assms(1,2) [unfolded normal_def]
  let ?h = "\<lambda>r. unat (tp_day r) * 24 + unat (tp_hour r)"
  let ?m = "\<lambda>r. ?h r * 60 + unat (tp_minute r)"
  let ?s = "\<lambda>r. ?m r * 60 + unat (tp_second r)"
  have 1: "?s p = ?s q \<and> unat (tp_milisecond p) = unat (tp_milisecond q)"
    using n assms(3) by (intro horner [of _ 1000]) (auto simp only: point_ms_def)
  have 2: "?m p = ?m q \<and> unat (tp_second p) = unat (tp_second q)"
    using n 1 by (intro horner [of _ 60]) auto
  have 3: "?h p = ?h q \<and> unat (tp_minute p) = unat (tp_minute q)"
    using n 2 by (intro horner [of _ 60]) auto
  have "unat (tp_day p) = unat (tp_day q) \<and> unat (tp_hour p) = unat (tp_hour q)"
    using n 3 by (intro horner [of _ 24]) auto
  with 1 2 3 show ?thesis by (simp add: word_unat_eq_iff)
qed

text \<open>
  Durations up to 65536 days and normalised points are the same thing: each conversion
  undoes the other.
\<close>
theorem TimePoint_roundtrip:
  assumes "unat span < MaxSpan" and "normal p"
  shows "TimePointToTimeSpan (TimePointFromDuration span) = span \<and>
    TimePointFromDuration (TimePointToTimeSpan p) = p \<and>
    normal (TimePointFromDuration span)"
proof -
  have "TimePointToTimeSpan (TimePointFromDuration span) = span"
    by (simp add: word_unat_eq_iff unat_ToTimeSpan point_ms_FromDuration [OF assms(1)])
  moreover have "point_ms p < MaxSpan"
    using assms(2) u16_bound [of "tp_day p"] unfolding point_ms_def normal_def MaxSpan_def by simp
  then have "TimePointFromDuration (TimePointToTimeSpan p) = p"
    using assms(2)
    by (intro normal_eqI) (simp_all add: point_ms_FromDuration normal_FromDuration unat_ToTimeSpan)
  ultimately show ?thesis using normal_FromDuration [OF assms(1)] by blast
qed

lemma TimePoint_roundtrip_witness:
  "TimePointToTimeSpan (TimePointFromDuration 90061007) = 90061007 \<and>
   TimePointFromDuration (TimePointToTimeSpan \<lparr>tp_second = 59, tp_minute = 59, tp_hour = 23,
     tp_day = 65535, tp_milisecond = 999\<rparr>)
   = \<lparr>tp_second = 59, tp_minute = 59, tp_hour = 23, tp_day = 65535, tp_milisecond = 999\<rparr>"
  using TimePoint_roundtrip [of 90061007 "\<lparr>tp_second = 59, tp_minute = 59, tp_hour = 23,
     tp_day = 65535, tp_milisecond = 999\<rparr>"]
  by (simp add: MaxSpan_def normal_def)

end
