(* ===== verification/Timer.thy ===== *)
theory Timer
  imports Time_Point
begin

text \<open>
  The mission time provider of libs/time/timer.cpp. Durations are integers (the code counts them in
  64 bits); the results of taking the two semaphores are arguments of the operations, and what an
  operation makes visible to other tasks is returned as a list of events.
\<close>

section \<open>The code\<close>

definition NotificationPeriod :: int where
  "NotificationPeriod = 5000"

definition to_point :: "int \<Rightarrow> TimePoint" where
  "to_point ms = TimePointFromDuration (of_int ms)"

datatype time_event = OnTimePassed TimePoint | PulseSet

record TimeProvider =
  tm_timerLock :: bool
  tm_notificationLock :: bool
  tm_currentTime :: int
  tm_notificationTime :: int
  tm_callback :: bool
  tm_tick :: bool

record TimerState =
  ts_time :: int
  ts_sendNotification :: bool

definition TimeProvider_new :: TimeProvider where
  "TimeProvider_new =
     \<lparr>tm_timerLock = False, tm_notificationLock = False, tm_currentTime = 0,
      tm_notificationTime = 0, tm_callback = False, tm_tick = False\<rparr>"

text \<open>The handles created by the operating system, null or not, are the last three arguments.\<close>

definition TimeProvider_Initialize ::
  "int \<Rightarrow> bool \<Rightarrow> bool \<Rightarrow> bool \<Rightarrow> bool \<Rightarrow> TimeProvider \<Rightarrow> bool \<times> TimeProvider" where
  "TimeProvider_Initialize startTime timePassedCallback lock1 lock2 pulse t =
     (let t = t\<lparr>tm_callback := timePassedCallback, tm_currentTime := startTime,
                tm_timerLock := lock1, tm_notificationLock := lock2, tm_tick := pulse\<rparr>
      in (lock1 \<and> lock2 \<and> pulse, t))"

definition BuildTimerState :: "TimeProvider \<Rightarrow> TimerState \<times> TimeProvider" where
  "BuildTimerState t =
     (let send = NotificationPeriod < tm_notificationTime t
      in (\<lparr>ts_time = tm_currentTime t, ts_sendNotification = send\<rparr>,
          if send then t\<lparr>tm_notificationTime := 0\<rparr> else t))"

definition SendTimeNotification :: "TimerState \<Rightarrow> TimeProvider \<Rightarrow> time_event list" where
  "SendTimeNotification state t =
     (if ts_sendNotification state \<and> tm_callback t then [OnTimePassed (to_point (ts_time state))] else [])
     @ (if ts_sendNotification state then [PulseSet] else [])"

definition ProcessChange :: "bool \<Rightarrow> TimerState \<Rightarrow> TimeProvider \<Rightarrow> time_event list" where
  "ProcessChange taken state t = (if \<not> taken then [] else SendTimeNotification state t)"

definition AdvanceTime ::
  "bool \<Rightarrow> bool \<Rightarrow> int \<Rightarrow> TimeProvider \<Rightarrow> time_event list \<times> TimeProvider" where
  "AdvanceTime taken notify delta t =
     (if \<not> taken then ([], t)
      else
        (let t = t\<lparr>tm_currentTime := tm_currentTime t + delta\<rparr>;
             t = t\<lparr>tm_notificationTime := tm_notificationTime t + delta\<rparr>;
             (state, t) = BuildTimerState t
         in (ProcessChange notify state t, t)))"

definition TimeProvider_Invoke ::
  "bool \<Rightarrow> bool \<Rightarrow> int \<Rightarrow> TimeProvider \<Rightarrow> time_event list \<times> TimeProvider" where
  "TimeProvider_Invoke taken notify interval t = AdvanceTime taken notify interval t"

definition SetCurrentTime ::
  "bool \<Rightarrow> bool \<Rightarrow> int \<Rightarrow> TimeProvider \<Rightarrow> bool \<times> time_event list \<times> TimeProvider" where
  "SetCurrentTime taken notify duration t =
     (if \<not> taken then (False, [], t)
      else
        (let t = t\<lparr>tm_currentTime := duration\<rparr>;
             t = t\<lparr>tm_notificationTime := NotificationPeriod + 1\<rparr>;
             (state, t) = BuildTimerState t
         in (True, ProcessChange notify state t, t)))"

definition SetCurrentTime_point ::
  "bool \<Rightarrow> bool \<Rightarrow> TimePoint \<Rightarrow> TimeProvider \<Rightarrow> bool \<times> time_event list \<times> TimeProvider" where
  "SetCurrentTime_point taken notify pointInTime t =
     SetCurrentTime taken notify (sint (TimePointToTimeSpan pointInTime)) t"

definition GetCurrentTime :: "bool \<Rightarrow> TimeProvider \<Rightarrow> int option" where
  "GetCurrentTime taken t =
     (if \<not> tm_timerLock t then None else if \<not> taken then None else Some (tm_currentTime t))"

definition GetCurrentMissionTime :: "bool \<Rightarrow> TimeProvider \<Rightarrow> TimePoint option" where
  "GetCurrentMissionTime taken t =
     (let result = GetCurrentTime taken t
      in case result of Some v \<Rightarrow> Some (to_point v) | None \<Rightarrow> None)"

text \<open>
  The waiting loop. Each round sees the provider as the other tasks have left it (the round's
  \<open>GetCurrentMissionTime\<close>) and the result of waiting for a pulse; \<open>None\<close> when the supplied rounds
  run out while the loop is still waiting.
\<close>

fun LongDelayUntil :: "TimePoint \<Rightarrow> (TimePoint option \<times> bool) list \<Rightarrow> bool option" where
  "LongDelayUntil time [] = None"
| "LongDelayUntil time ((missionTime, pulse) # rounds) =
     (case missionTime of
        None \<Rightarrow> Some False
      | Some now \<Rightarrow>
          if TimePointLessThan time now then Some True
          else if TimePointEqual time now then Some True
          else if \<not> pulse then Some False
          else LongDelayUntil time rounds)"

definition LongDelay :: "TimePoint option \<Rightarrow> int \<Rightarrow> (TimePoint option \<times> bool) list \<Rightarrow> bool option" where
  "LongDelay missionTime delay rounds =
     (case missionTime of
        None \<Rightarrow> Some False
      | Some now \<Rightarrow>
          LongDelayUntil (to_point (sint (TimePointToTimeSpan now) + delay)) rounds)"

section \<open>Advancing\<close>

primrec advance_all :: "int list \<Rightarrow> TimeProvider \<Rightarrow> time_event list \<times> TimeProvider" where
  "advance_all [] t = ([], t)"
| "advance_all (d # ds) t =
     (let (es, t) = AdvanceTime True True d t; (es', t) = advance_all ds t in (es @ es', t))"

definition pulses :: "time_event list \<Rightarrow> nat" where
  "pulses es = length (filter (\<lambda>e. e = PulseSet) es)"

lemma pulses_append [simp]: "pulses (es @ es') = pulses es + pulses es'"
  by (simp add: pulses_def)

lemma AdvanceTime_cases:
  shows "tm_currentTime (snd (AdvanceTime True True d t)) = tm_currentTime t + d"
    and "tm_notificationTime t + d \<le> NotificationPeriod \<Longrightarrow>
      AdvanceTime True True d t = ([], t\<lparr>tm_currentTime := tm_currentTime t + d,
        tm_notificationTime := tm_notificationTime t + d\<rparr>)"
    and "NotificationPeriod < tm_notificationTime t + d \<Longrightarrow>
      AdvanceTime True True d t = ((if tm_callback t then [OnTimePassed (to_point (tm_currentTime t + d))] else [])
        @ [PulseSet], t\<lparr>tm_currentTime := tm_currentTime t + d, tm_notificationTime := 0\<rparr>)"
  by (simp_all add: AdvanceTime_def BuildTimerState_def ProcessChange_def SendTimeNotification_def Let_def)

lemma advance_all_run:
  assumes "0 \<le> tm_notificationTime t" and "tm_notificationTime t \<le> NotificationPeriod"
    and "\<forall>d \<in> set ds. 0 \<le> d"
  shows "tm_currentTime (snd (advance_all ds t)) = tm_currentTime t + sum_list ds \<and>
    0 \<le> tm_notificationTime (snd (advance_all ds t)) \<and>
    tm_notificationTime (snd (advance_all ds t)) \<le> NotificationPeriod \<and>
    int (pulses (fst (advance_all ds t))) * (NotificationPeriod + 1) \<le> tm_notificationTime t + sum_list ds \<and>
    (NotificationPeriod < tm_notificationTime t + sum_list ds \<longrightarrow> 0 < pulses (fst (advance_all ds t)))"
  using assms
proof (induction ds arbitrary: t)
  case Nil
  then show ?case by (simp add: pulses_def)
next
  case (Cons d ds)
  show ?case
  proof (cases "tm_notificationTime t + d \<le> NotificationPeriod")
    case True
    define u where "u = t\<lparr>tm_currentTime := tm_currentTime t + d, tm_notificationTime := tm_notificationTime t + d\<rparr>"
    have "AdvanceTime True True d t = ([], u)" using AdvanceTime_cases(2) [OF True] by (simp add: u_def)
    moreover have "0 \<le> tm_notificationTime u" "tm_notificationTime u \<le> NotificationPeriod"
      using Cons.prems True by (simp_all add: u_def)
    ultimately show ?thesis
      using Cons.IH [of u] Cons.prems(3) by (simp add: split_beta pulses_def) (simp add: u_def add.assoc)
  next
    case False
    define u where "u = t\<lparr>tm_currentTime := tm_currentTime t + d, tm_notificationTime := 0\<rparr>"
    define es where "es = (if tm_callback t then [OnTimePassed (to_point (tm_currentTime t + d))] else []) @ [PulseSet]"
    have e: "AdvanceTime True True d t = (es, u)" using AdvanceTime_cases(3) [of t d] False by (simp add: u_def es_def)
    have p: "pulses es = 1" by (simp add: es_def pulses_def)
    have "0 \<le> tm_notificationTime u" "tm_notificationTime u \<le> NotificationPeriod"
      by (simp_all add: u_def NotificationPeriod_def)
    from Cons.IH [OF this] Cons.prems(3) False show ?thesis
      by (simp add: e p split_beta) (simp add: u_def NotificationPeriod_def)
  qed
qed

text \<open>
  C12. Time only moves by what is added to it; waiting tasks are woken at least once in any
  stretch longer than the notification period and at most once per period.
\<close>
theorem advance_all_notifies:
  assumes "0 \<le> tm_notificationTime t" and "tm_notificationTime t \<le> NotificationPeriod"
    and "\<forall>d \<in> set ds. 0 \<le> d" and "advance_all ds t = (es, t')"
  shows "tm_currentTime t' = tm_currentTime t + sum_list ds \<and>
    (NotificationPeriod < tm_notificationTime t + sum_list ds \<longrightarrow> 0 < pulses es) \<and>
    int (pulses es) * (NotificationPeriod + 1) \<le> tm_notificationTime t + sum_list ds"
  using advance_all_run [OF assms(1-3)] assms(4) by simp

lemma advance_all_notifies_witness:
  "tm_currentTime (snd (advance_all [2000, 3000, 1] TimeProvider_new)) = 5001 \<and>
   0 < pulses (fst (advance_all [2000, 3000, 1] TimeProvider_new))"
proof -
  obtain es t' where r: "advance_all [2000, 3000, 1] TimeProvider_new = (es, t')" by fastforce
  show ?thesis
    using advance_all_notifies [OF _ _ _ r] unfolding r
    by (simp add: TimeProvider_new_def NotificationPeriod_def)
qed

section \<open>Waiting\<close>

text \<open>
  A delay reports success only when the mission time read in its last round has reached the
  target, and it does report success in the first such round that it lives to see.
\<close>
theorem LongDelayUntil_reached:
  "LongDelayUntil time rounds = Some True \<longleftrightarrow>
     (\<exists>k < length rounds. \<exists>now. fst (rounds ! k) = Some now \<and> \<not> TimePointLessThan now time \<and>
       (\<forall>j < k. \<exists>earlier. rounds ! j = (Some earlier, True) \<and> TimePointLessThan earlier time))"
proof (induction rounds)
  case Nil
  then show ?case by simp
next
  case (Cons r rounds)
  obtain m pulse where r: "r = (m, pulse)" by (cases r)
  let ?P = "\<lambda>rs. \<exists>k < length rs. \<exists>now. fst (rs ! k) = Some now \<and> \<not> TimePointLessThan now time \<and>
       (\<forall>j < k. \<exists>earlier. rs ! j = (Some earlier, True) \<and> TimePointLessThan earlier time)"
  have split: "?P (r # rounds) \<longleftrightarrow>
      (\<exists>now. m = Some now \<and> \<not> TimePointLessThan now time) \<or>
      (\<exists>now. m = Some now \<and> pulse \<and> TimePointLessThan now time \<and> ?P rounds)"
    by (subst Ex_less_Suc2 [where n = "length rounds", folded length_Cons [of r rounds]])
      (auto simp: r All_less_Suc2)
  have lt: "TimePointLessThan time now \<or> TimePointEqual time now \<longleftrightarrow> \<not> TimePointLessThan now time" for now
    by (auto simp: LessThan_ms Equal_ms)
  show ?case
    unfolding split using Cons.IH lt by (auto simp: r split: option.splits)
qed

lemma LongDelayUntil_reached_witness:
  "LongDelayUntil (to_point 60000) [(Some (to_point 55000), True), (Some (to_point 60001), True)]
   = Some True"
proof (subst LongDelayUntil_reached, intro exI conjI)
  have ms: "point_ms (to_point 55000) = 55000" "point_ms (to_point 60000) = 60000"
    "point_ms (to_point 60001) = 60001"
    by (simp_all add: to_point_def point_ms_FromDuration MaxSpan_def)
  show "\<forall>j < 1. \<exists>earlier. [(Some (to_point 55000), True), (Some (to_point 60001), True)] ! j
      = (Some earlier, True) \<and> TimePointLessThan earlier (to_point 60000)"
    by (simp add: LessThan_ms ms)
  show "\<not> TimePointLessThan (to_point 60001) (to_point 60000)" by (simp add: LessThan_ms ms)
qed simp_all

end
