(* ===== verification/Byte_Writer.thy ===== *)
theory Byte_Writer
  imports Prelude
begin

text \<open>
  The byte serialiser \<open>Writer\<close> (libs/base/writer.cpp, libs/base/Include/base/writer.h).
  The record holds the bytes of the viewed buffer, the 16-bit write position and the
  validity flag; \<open>w_fault\<close> is the model's own: it is set when the code would write past the
  end of the viewed buffer. Every operation returns the code's result and the new writer.
\<close>

section \<open>State\<close>

record writer =
  w_buf :: bytes
  w_pos :: u16
  w_valid :: bool
  w_fault :: bool

definition Writer_Reset :: "writer \<Rightarrow> writer" where
  "Writer_Reset w = w\<lparr>w_pos := 0, w_valid := 0 < length (w_buf w)\<rparr>"

definition Writer_Initialize :: "bytes \<Rightarrow> writer" where
  "Writer_Initialize view =
     Writer_Reset \<lparr>w_buf = view, w_pos = 0, w_valid = False, w_fault = False\<rparr>"

definition Writer_empty :: writer where
  "Writer_empty = \<lparr>w_buf = [], w_pos = 0, w_valid = False, w_fault = False\<rparr>"

definition Writer_Status :: "writer \<Rightarrow> bool" where
  "Writer_Status w = w_valid w"

definition Writer_GetDataLength :: "writer \<Rightarrow> u16" where
  "Writer_GetDataLength w = w_pos w"

definition Writer_RemainingSize :: "writer \<Rightarrow> int" where
  "Writer_RemainingSize w = int (length (w_buf w)) - int (unat (w_pos w))"

definition Writer_Capture :: "writer \<Rightarrow> bytes" where
  "Writer_Capture w = take (unat (w_pos w)) (w_buf w)"

section \<open>Operations\<close>

text \<open>The requested size is a \<open>uint8_t\<close>: a larger argument is truncated at the call.\<close>

definition Writer_UpdateState :: "u8 \<Rightarrow> writer \<Rightarrow> bool \<times> writer" where
  "Writer_UpdateState requestedSize w =
     (let w' = (if w_valid w
                then w\<lparr>w_valid := unat (w_pos w) + unat requestedSize \<le> length (w_buf w)\<rparr>
                else w)
      in (w_valid w', w'))"

definition Writer_WriteByte :: "u8 \<Rightarrow> writer \<Rightarrow> bool \<times> writer" where
  "Writer_WriteByte byte w =
     (case Writer_UpdateState 1 w of
        (False, w1) \<Rightarrow> (False, w1)
      | (True, w1) \<Rightarrow>
          (True, w1\<lparr>w_buf := (w_buf w1)[unat (w_pos w1) := byte], w_pos := w_pos w1 + 1\<rparr>))"

definition Writer_WriteWordLE :: "u16 \<Rightarrow> writer \<Rightarrow> bool \<times> writer" where
  "Writer_WriteWordLE word w =
     (case Writer_UpdateState 2 w of
        (False, w1) \<Rightarrow> (False, w1)
      | (True, w1) \<Rightarrow>
          (let p = unat (w_pos w1)
           in (True, w1\<lparr>w_buf := (w_buf w1)
                [p := ucast (word AND 0xff), p + 1 := ucast (drop_bit 8 word AND 0xff)],
                w_pos := w_pos w1 + 2\<rparr>)))"

definition Writer_WriteWordBE :: "u16 \<Rightarrow> writer \<Rightarrow> bool \<times> writer" where
  "Writer_WriteWordBE word w =
     (case Writer_UpdateState 2 w of
        (False, w1) \<Rightarrow> (False, w1)
      | (True, w1) \<Rightarrow>
          (let p = unat (w_pos w1)
           in (True, w1\<lparr>w_buf := (w_buf w1)
                [p := ucast (drop_bit 8 word AND 0xff), p + 1 := ucast (word AND 0xff)],
                w_pos := w_pos w1 + 2\<rparr>)))"

text \<open>\<open>int16_t\<close> and \<open>int32_t\<close> values are words read as two's complement; the cast is the identity.\<close>

definition Writer_WriteSignedWordLE :: "16 word \<Rightarrow> writer \<Rightarrow> bool \<times> writer" where
  "Writer_WriteSignedWordLE word w = Writer_WriteWordLE word w"

definition Writer_WriteDoubleWordLE :: "u32 \<Rightarrow> writer \<Rightarrow> bool \<times> writer" where
  "Writer_WriteDoubleWordLE word w =
     (case Writer_UpdateState 4 w of
        (False, w1) \<Rightarrow> (False, w1)
      | (True, w1) \<Rightarrow>
          (let p = unat (w_pos w1)
           in (True, w1\<lparr>w_buf := (w_buf w1)
                [p := ucast (word AND 0xff), p + 1 := ucast (drop_bit 8 word AND 0xff),
                 p + 2 := ucast (drop_bit 16 word AND 0xff),
                 p + 3 := ucast (drop_bit 24 word AND 0xff)],
                w_pos := w_pos w1 + 4\<rparr>)))"

definition Writer_WriteSignedDoubleWordLE :: "32 word \<Rightarrow> writer \<Rightarrow> bool \<times> writer" where
  "Writer_WriteSignedDoubleWordLE dword w = Writer_WriteDoubleWordLE dword w"

definition Writer_WriteQuadWordLE :: "u64 \<Rightarrow> writer \<Rightarrow> bool \<times> writer" where
  "Writer_WriteQuadWordLE word w =
     (case Writer_UpdateState 8 w of
        (False, w1) \<Rightarrow> (False, w1)
      | (True, w1) \<Rightarrow>
          (let p = unat (w_pos w1)
           in (True, w1\<lparr>w_buf := (w_buf w1)
                [p := ucast (word AND 0xff), p + 1 := ucast (drop_bit 8 word AND 0xff),
                 p + 2 := ucast (drop_bit 16 word AND 0xff),
                 p + 3 := ucast (drop_bit 24 word AND 0xff),
                 p + 4 := ucast (drop_bit 32 word AND 0xff),
                 p + 5 := ucast (drop_bit 40 word AND 0xff),
                 p + 6 := ucast (drop_bit 48 word AND 0xff),
                 p + 7 := ucast (drop_bit 56 word AND 0xff)],
                w_pos := w_pos w1 + 8\<rparr>)))"

text \<open>
  \<open>memcpy\<close> copies the whole argument, while the bound check sees its length modulo 256:
  a copy that does not fit sets \<open>w_fault\<close> and only the bytes inside the view are kept.
\<close>

definition Writer_WriteArray :: "bytes \<Rightarrow> writer \<Rightarrow> bool \<times> writer" where
  "Writer_WriteArray buffer w =
     (case Writer_UpdateState (of_nat (length buffer)) w of
        (False, w1) \<Rightarrow> (False, w1)
      | (True, w1) \<Rightarrow>
          (let p = unat (w_pos w1)
           in (True, w1\<lparr>w_buf := put_at p buffer (w_buf w1),
                w_pos := w_pos w1 + of_nat (length buffer),
                w_fault := w_fault w1 \<or> length (w_buf w1) < p + length buffer\<rparr>)))"

definition Writer_Fill :: "u8 \<Rightarrow> writer \<Rightarrow> bool \<times> writer" where
  "Writer_Fill value w =
     (let remainingSize = Writer_RemainingSize w
      in case Writer_UpdateState (of_int remainingSize) w of
           (False, w1) \<Rightarrow> (False, w1)
         | (True, w1) \<Rightarrow>
             (True, w1\<lparr>w_buf := put_at (unat (w_pos w1)) (replicate (nat remainingSize) value) (w_buf w1),
                       w_pos := w_pos w1 + of_int remainingSize\<rparr>))"

text \<open>
  \<open>Reserve\<close> returns the reserved part of the buffer as (offset, length). \<open>std::min\<close> compares
  as \<open>size_t\<close>, so a position past the end of the view would compare as a huge remainder.
\<close>

definition Writer_Reserve :: "nat \<Rightarrow> writer \<Rightarrow> (nat \<times> nat) \<times> writer" where
  "Writer_Reserve count w =
     (let count' = min count (unat (of_int (Writer_RemainingSize w) :: u32));
          s = (unat (w_pos w), count');
          w1 = snd (Writer_UpdateState (of_nat count') w)
      in (s, w1\<lparr>w_pos := w_pos w1 + of_nat count'\<rparr>))"

text \<open>
  The loop of \<open>WriteLowerBytesBE\<close> counts an \<open>int8_t\<close> down from \<open>bytesCount - 1\<close>:
  \<open>write_lower n\<close> performs the iterations \<open>n - 1, ..., 0\<close>.
\<close>

fun write_lower :: "u32 \<Rightarrow> nat \<Rightarrow> writer \<Rightarrow> writer" where
  "write_lower number 0 w = w"
| "write_lower number (Suc i) w =
     write_lower number i
       (w\<lparr>w_buf := (w_buf w)[unat (w_pos w) := ucast (drop_bit (8 * i) number AND 0xFF)],
          w_pos := w_pos w + 1\<rparr>)"

definition Writer_WriteLowerBytesBE :: "u32 \<Rightarrow> u8 \<Rightarrow> writer \<Rightarrow> bool \<times> writer" where
  "Writer_WriteLowerBytesBE number bytesCount w =
     (case Writer_UpdateState bytesCount w of
        (False, w1) \<Rightarrow> (False, w1)
      | (True, w1) \<Rightarrow> (True, write_lower number (nat (sint (bytesCount - 1) + 1)) w1))"

definition Writer_WriteByteBCD :: "u8 \<Rightarrow> writer \<Rightarrow> bool \<times> writer" where
  "Writer_WriteByteBCD value w =
     (let a = value mod 10; b = value div 10
      in Writer_WriteByte (push_bit 4 b OR a) w)"

section \<open>Abstract view: appending bytes\<close>

text \<open>
  A well-formed writer has its position inside a buffer that 16 bits can index. On it every
  write operation is one abstract operation, \<open>emit\<close>: append a run of bytes or invalidate.
\<close>

definition writer_wf :: "writer \<Rightarrow> bool" where
  "writer_wf w \<longleftrightarrow> unat (w_pos w) \<le> length (w_buf w) \<and> length (w_buf w) < 2 ^ 16"

definition fits :: "nat \<Rightarrow> writer \<Rightarrow> bool" where
  "fits n w \<longleftrightarrow> w_valid w \<and> unat (w_pos w) + n \<le> length (w_buf w)"

definition advance :: "bytes \<Rightarrow> writer \<Rightarrow> writer" where
  "advance bs w = w\<lparr>w_buf := put_at (unat (w_pos w)) bs (w_buf w),
                    w_pos := w_pos w + of_nat (length bs)\<rparr>"

definition emit :: "bytes \<Rightarrow> writer \<Rightarrow> bool \<times> writer" where
  "emit bs w = (if fits (length bs) w then (True, advance bs w) else (False, w\<lparr>w_valid := False\<rparr>))"

lemma UpdateState_fits [run_simps]:
  "Writer_UpdateState n w = (fits (unat n) w, w\<lparr>w_valid := fits (unat n) w\<rparr>)"
  by (auto simp: Writer_UpdateState_def fits_def Let_def)

lemma fits_valid_upd [simp]: "fits n w \<Longrightarrow> w\<lparr>w_valid := True\<rparr> = w"
  by (simp add: fits_def)

lemma fits_mono: "fits n w \<Longrightarrow> m \<le> n \<Longrightarrow> fits m w"
  by (simp add: fits_def)

lemma advance_Nil [simp]: "advance [] w = w"
  by (simp add: advance_def)

lemma advance_frame [simp]:
  "w_valid (advance bs w) = w_valid w" "w_fault (advance bs w) = w_fault w"
  "length (w_buf (advance bs w)) = length (w_buf w)" if "unat (w_pos w) \<le> length (w_buf w)"
  using that by (simp_all add: advance_def)

lemma pos_advance:
  assumes "writer_wf w" and "fits (length bs) w"
  shows "unat (w_pos (advance bs w)) = unat (w_pos w) + length bs"
proof -
  have "unat (w_pos w) + length bs < 2 ^ 16"
    using assms by (simp add: writer_wf_def fits_def)
  then show ?thesis
    by (simp add: advance_def unat_word_ariths unat_of_nat)
qed

lemma wf_advance [intro]: "writer_wf w \<Longrightarrow> fits (length bs) w \<Longrightarrow> writer_wf (advance bs w)"
  using pos_advance [of w bs] by (simp add: writer_wf_def fits_def)

lemma fits_advance [run_simps]:
  "writer_wf w \<Longrightarrow> fits (length bs) w \<Longrightarrow> fits n (advance bs w) \<longleftrightarrow> fits (length bs + n) w"
  using pos_advance [of w bs] by (auto simp: fits_def writer_wf_def)

lemma advance_advance [run_simps]:
  assumes "writer_wf w" and "fits (length xs + length ys) w"
  shows "advance ys (advance xs w) = advance (xs @ ys) w"
proof -
  have xs: "fits (length xs) w" using assms(2) by (rule fits_mono) simp
  have "put_at (unat (w_pos w) + length xs) ys (put_at (unat (w_pos w)) xs (w_buf w))
      = put_at (unat (w_pos w)) (xs @ ys) (w_buf w)"
    using assms(2) by (intro put_at_append) (simp add: fits_def)
  moreover have "unat (w_pos w + of_nat (length xs)) = unat (w_pos w) + length xs"
    using pos_advance [OF assms(1) xs] by (simp add: advance_def)
  ultimately show ?thesis by (simp add: advance_def)
qed

lemma Capture_advance [run_simps]:
  "writer_wf w \<Longrightarrow> fits (length bs) w \<Longrightarrow>
     Writer_Capture (advance bs w) = Writer_Capture w @ bs"
  using pos_advance [of w bs]
  by (simp add: Writer_Capture_def) (simp add: advance_def fits_def)

lemma emit_wf [intro]: "writer_wf w \<Longrightarrow> writer_wf (snd (emit bs w))"
  by (auto simp: emit_def) (simp add: writer_wf_def)

lemma emit_frame:
  "writer_wf w \<Longrightarrow> w_fault (snd (emit bs w)) = w_fault w
     \<and> length (w_buf (snd (emit bs w))) = length (w_buf w)"
  by (simp add: emit_def writer_wf_def)

lemma emit_result [simp]: "fst (emit bs w) = fits (length bs) w"
  by (simp add: emit_def)

lemma emit_fits [simp]: "fits (length bs) w \<Longrightarrow> emit bs w = (True, advance bs w)"
  by (simp add: emit_def)

lemma emit_fits_length: "fits n w \<Longrightarrow> length bs = n \<Longrightarrow> emit bs w = (True, advance bs w)"
  by simp

lemma emit_no_fit: "\<not> fits (length bs) w \<Longrightarrow> emit bs w = (False, w\<lparr>w_valid := False\<rparr>)"
  by (simp add: emit_def)

lemma fits_after_failure [simp]: "\<not> fits n (w\<lparr>w_valid := False\<rparr>)"
  by (simp add: fits_def)

section \<open>Each operation is an \<open>emit\<close>\<close>

lemma pos_plus: "p + 2 = Suc (Suc p)" "p + 3 = Suc (Suc (Suc p))"
  "p + 4 = Suc (Suc (Suc (Suc p)))" "p + 5 = Suc (Suc (Suc (Suc (Suc p))))"
  "p + 6 = Suc (Suc (Suc (Suc (Suc (Suc p)))))"
  "p + 7 = Suc (Suc (Suc (Suc (Suc (Suc (Suc p))))))" for p :: nat
  by simp_all

lemma le_bytes_2: "le_bytes 2 w = [byte_of 0 w, byte_of 1 w]"
  and le_bytes_4: "le_bytes 4 w = [byte_of 0 w, byte_of 1 w, byte_of 2 w, byte_of 3 w]"
  and le_bytes_8: "le_bytes 8 w = [byte_of 0 w, byte_of 1 w, byte_of 2 w, byte_of 3 w,
                                   byte_of 4 w, byte_of 5 w, byte_of 6 w, byte_of 7 w]"
  by (simp_all add: le_bytes_def upt_rec numeral_eq_Suc)

lemma WriteByte_emit [run_simps]: "Writer_WriteByte b w = emit [b] w"
proof (cases "fits 1 w")
  case True
  then have "unat (w_pos w) + 1 \<le> length (w_buf w)" by (simp add: fits_def)
  with True show ?thesis
    by (simp add: Writer_WriteByte_def UpdateState_fits emit_fits_length [OF True] advance_def put_at_Cons)
qed (simp add: Writer_WriteByte_def UpdateState_fits emit_no_fit)

lemma WriteWordLE_emit [run_simps]: "Writer_WriteWordLE v w = emit (le_bytes 2 v) w"
proof (cases "fits 2 w")
  case True
  then have "unat (w_pos w) + 2 \<le> length (w_buf w)" by (simp add: fits_def)
  with True show ?thesis
    by (simp add: Writer_WriteWordLE_def UpdateState_fits emit_fits_length [OF True] advance_def put_at_Cons le_bytes_2 byte_of_def
        byte_simps pos_plus Let_def)
qed (simp add: Writer_WriteWordLE_def UpdateState_fits emit_no_fit)

lemma WriteWordBE_emit [run_simps]: "Writer_WriteWordBE v w = emit (rev (le_bytes 2 v)) w"
proof (cases "fits 2 w")
  case True
  then have "unat (w_pos w) + 2 \<le> length (w_buf w)" by (simp add: fits_def)
  with True show ?thesis
    by (simp add: Writer_WriteWordBE_def UpdateState_fits emit_fits_length [OF True] advance_def put_at_Cons le_bytes_2 byte_of_def
        byte_simps pos_plus Let_def)
qed (simp add: Writer_WriteWordBE_def UpdateState_fits emit_no_fit)

lemma WriteSignedWordLE_emit [run_simps]: "Writer_WriteSignedWordLE v w = emit (le_bytes 2 v) w"
  by (simp add: Writer_WriteSignedWordLE_def WriteWordLE_emit)

lemma WriteDoubleWordLE_emit [run_simps]: "Writer_WriteDoubleWordLE v w = emit (le_bytes 4 v) w"
proof (cases "fits 4 w")
  case True
  then have "unat (w_pos w) + 4 \<le> length (w_buf w)" by (simp add: fits_def)
  with True show ?thesis
    by (simp add: Writer_WriteDoubleWordLE_def UpdateState_fits emit_fits_length [OF True] advance_def put_at_Cons le_bytes_4 byte_of_def
        byte_simps pos_plus Let_def)
qed (simp add: Writer_WriteDoubleWordLE_def UpdateState_fits emit_no_fit)

lemma WriteSignedDoubleWordLE_emit [run_simps]:
  "Writer_WriteSignedDoubleWordLE v w = emit (le_bytes 4 v) w"
  by (simp add: Writer_WriteSignedDoubleWordLE_def WriteDoubleWordLE_emit)

lemma WriteQuadWordLE_emit [run_simps]: "Writer_WriteQuadWordLE v w = emit (le_bytes 8 v) w"
proof (cases "fits 8 w")
  case True
  then have "unat (w_pos w) + 8 \<le> length (w_buf w)" by (simp add: fits_def)
  with True show ?thesis
    by (simp add: Writer_WriteQuadWordLE_def UpdateState_fits emit_fits_length [OF True] advance_def put_at_Cons le_bytes_8 byte_of_def
        byte_simps pos_plus Let_def)
qed (simp add: Writer_WriteQuadWordLE_def UpdateState_fits emit_no_fit)

lemma WriteArray_emit [run_simps]:
  assumes "length bs < 256"
  shows "Writer_WriteArray bs w = emit bs w"
proof -
  have "unat (of_nat (length bs) :: u8) = length bs"
    using assms by (simp add: unat_of_nat)
  then show ?thesis
    by (cases "fits (length bs) w")
      (simp_all add: Writer_WriteArray_def UpdateState_fits emit_no_fit, simp add: advance_def fits_def)
qed

lemma WriteByteBCD_emit [run_simps]:
  "Writer_WriteByteBCD v w = emit [push_bit 4 (v div 10) OR (v mod 10)] w"
  by (simp add: Writer_WriteByteBCD_def WriteByte_emit Let_def)

lemma Fill_advance [run_simps]:
  assumes "writer_wf w" and "w_valid w"
  shows "Writer_Fill v w =
    (True, advance (replicate (length (w_buf w) - unat (w_pos w)) v) w)"
proof -
  let ?rem = "length (w_buf w) - unat (w_pos w)"
  have rem: "Writer_RemainingSize w = int ?rem"
    using assms(1) by (simp add: Writer_RemainingSize_def writer_wf_def)
  have "unat (of_nat ?rem :: u8) \<le> ?rem"
    by (simp add: unat_of_nat)
  then have "fits (unat (of_nat ?rem :: u8)) w"
    using assms unfolding fits_def writer_wf_def by linarith
  then show ?thesis
    by (simp add: Writer_Fill_def rem UpdateState_fits advance_def)
qed

lemma write_lower_advance:
  assumes "writer_wf w" and "fits n w"
  shows "write_lower v n w = advance (rev (le_bytes n v)) w"
  using assms
proof (induction n arbitrary: w)
  case 0
  then show ?case by (simp add: le_bytes_def)
next
  case (Suc i)
  have 1: "fits (length [byte_of i v]) w" using Suc.prems(2) by (rule fits_mono) simp
  have step: "w\<lparr>w_buf := (w_buf w)[unat (w_pos w) := ucast (drop_bit (8 * i) v AND 0xFF)],
                w_pos := w_pos w + 1\<rparr> = advance [byte_of i v] w"
    using 1 by (simp add: advance_def fits_def put_at_Cons byte_of_def byte_mask)
  have "write_lower v (Suc i) w = write_lower v i (advance [byte_of i v] w)"
    by (simp only: write_lower.simps step)
  also have "\<dots> = advance (rev (le_bytes i v)) (advance [byte_of i v] w)"
    using Suc.prems 1 by (intro Suc.IH) (auto simp: fits_advance)
  also have "\<dots> = advance ([byte_of i v] @ rev (le_bytes i v)) w"
    using Suc.prems by (intro advance_advance) auto
  also have "[byte_of i v] @ rev (le_bytes i v) = rev (le_bytes (Suc i) v)"
    by (simp add: le_bytes_def)
  finally show ?case .
qed

lemma sint_pred_small:
  assumes "unat (n :: u8) \<le> 128"
  shows "nat (sint (n - 1) + 1) = (if n = 0 then 0 else unat n)"
proof (cases "n = 0")
  case True
  then show ?thesis by simp
next
  case False
  then have "unat (n - 1) = unat n - 1" and "0 < unat n"
    by (simp_all add: unat_minus_one unat_gt_0)
  then have u: "uint (n - 1) = int (unat n) - 1"
    unfolding uint_nat by arith
  with assms have "uint (n - 1) < 128" by linarith
  then have "sint (n - 1) = uint (n - 1)" by (intro sint_small) simp
  then have "sint (n - 1) = int (unat n) - 1" using u by simp
  then show ?thesis using False by simp
qed

lemma WriteLowerBytesBE_emit [run_simps]:
  assumes "writer_wf w" and "unat n \<le> 128"
  shows "Writer_WriteLowerBytesBE v n w = emit (rev (le_bytes (unat n) v)) w"
  using assms by (auto simp: Writer_WriteLowerBytesBE_def UpdateState_fits sint_pred_small
      write_lower_advance emit_def)

end
