(* ===== verification/Byte_Reader.thy ===== *)
theory Byte_Reader
  imports Byte_Writer
begin

text \<open>
  The byte parser \<open>Reader\<close> (libs/base/reader.cpp, libs/base/Include/base/reader.h). The
  record holds the viewed bytes, the 16-bit read position and the validity flag;
  \<open>r_fault\<close> is the model's own: it is set when the code would index the view out of its
  bounds (a violated \<open>gsl::span\<close> precondition). Every operation returns the value the code
  returns, 0 or the empty span on failure, and the new reader.
\<close>

section \<open>State\<close>

record reader =
  r_buf :: bytes
  r_pos :: u16
  r_valid :: bool
  r_fault :: bool

definition Reader_Reset :: "reader \<Rightarrow> reader" where
  "Reader_Reset r = r\<lparr>r_pos := 0, r_valid := r_buf r \<noteq> []\<rparr>"

definition Reader_Initialize :: "bytes \<Rightarrow> reader" where
  "Reader_Initialize view =
     Reader_Reset \<lparr>r_buf = view, r_pos = 0, r_valid = False, r_fault = False\<rparr>"

definition Reader_empty :: reader where
  "Reader_empty = \<lparr>r_buf = [], r_pos = 0, r_valid = False, r_fault = False\<rparr>"

definition Reader_Status :: "reader \<Rightarrow> bool" where
  "Reader_Status r = r_valid r"

definition Reader_RemainingSize :: "reader \<Rightarrow> int" where
  "Reader_RemainingSize r = int (length (r_buf r)) - int (unat (r_pos r))"

section \<open>Operations\<close>

text \<open>
  The position is advanced first, with 16-bit wrap-around, and compared with the size after.
  The reads then index backwards from the new position, \<open>buffer[position - k]\<close>.
\<close>

definition Reader_UpdateState :: "u16 \<Rightarrow> reader \<Rightarrow> bool \<times> reader" where
  "Reader_UpdateState requestedSize r =
     (let r' = (if r_valid r
                then r\<lparr>r_pos := r_pos r + requestedSize,
                       r_valid := unat (r_pos r + requestedSize) \<le> length (r_buf r)\<rparr>
                else r)
      in (r_valid r', r'))"

definition rd_at :: "reader \<Rightarrow> nat \<Rightarrow> u8" where
  "rd_at r k = r_buf r ! (unat (r_pos r) - k)"

definition rd_touch :: "nat \<Rightarrow> reader \<Rightarrow> reader" where
  "rd_touch k r = r\<lparr>r_fault := r_fault r \<or> unat (r_pos r) < k\<rparr>"

definition Reader_Skip :: "u16 \<Rightarrow> reader \<Rightarrow> bool \<times> reader" where
  "Reader_Skip len r = Reader_UpdateState len r"

definition Reader_ReadByte :: "reader \<Rightarrow> u8 \<times> reader" where
  "Reader_ReadByte r =
     (case Reader_UpdateState 1 r of
        (False, r1) \<Rightarrow> (0, r1)
      | (True, r1) \<Rightarrow> (rd_at r1 1, rd_touch 1 r1))"

definition Reader_ReadByteBCD :: "u8 \<Rightarrow> reader \<Rightarrow> u8 \<times> reader" where
  "Reader_ReadByteBCD upperNibbleMask r =
     (case Reader_ReadByte r of
        (bcdByte, r1) \<Rightarrow>
          (drop_bit 4 (bcdByte AND upperNibbleMask) * 10 + (bcdByte AND 0x0F), r1))"

definition Reader_ReadWordLE :: "reader \<Rightarrow> 16 word \<times> reader" where
  "Reader_ReadWordLE r =
     (case Reader_UpdateState 2 r of
        (False, r1) \<Rightarrow> (0, r1)
      | (True, r1) \<Rightarrow>
          (let value = ucast (rd_at r1 1);
               value = push_bit 8 value; value = value + ucast (rd_at r1 2)
           in (value, rd_touch 2 r1)))"

definition Reader_ReadWordBE :: "reader \<Rightarrow> 16 word \<times> reader" where
  "Reader_ReadWordBE r =
     (case Reader_UpdateState 2 r of
        (False, r1) \<Rightarrow> (0, r1)
      | (True, r1) \<Rightarrow>
          (let value = ucast (rd_at r1 2);
               value = push_bit 8 value; value = value + ucast (rd_at r1 1)
           in (value, rd_touch 2 r1)))"

definition Reader_ReadWordAndHalfLE :: "reader \<Rightarrow> 32 word \<times> reader" where
  "Reader_ReadWordAndHalfLE r =
     (case Reader_UpdateState 3 r of
        (False, r1) \<Rightarrow> (0, r1)
      | (True, r1) \<Rightarrow>
          (let value = ucast (rd_at r1 1);
               value = push_bit 8 value; value = value + ucast (rd_at r1 2);
               value = push_bit 8 value; value = value + ucast (rd_at r1 3)
           in (value, rd_touch 3 r1)))"

definition Reader_ReadWordAndHalfBE :: "reader \<Rightarrow> 32 word \<times> reader" where
  "Reader_ReadWordAndHalfBE r =
     (case Reader_UpdateState 3 r of
        (False, r1) \<Rightarrow> (0, r1)
      | (True, r1) \<Rightarrow>
          (let value = ucast (rd_at r1 3);
               value = push_bit 8 value; value = value + ucast (rd_at r1 2);
               value = push_bit 8 value; value = value + ucast (rd_at r1 1)
           in (value, rd_touch 3 r1)))"

definition Reader_ReadDoubleWordLE :: "reader \<Rightarrow> 32 word \<times> reader" where
  "Reader_ReadDoubleWordLE r =
     (case Reader_UpdateState 4 r of
        (False, r1) \<Rightarrow> (0, r1)
      | (True, r1) \<Rightarrow>
          (let value = ucast (rd_at r1 1);
               value = push_bit 8 value; value = value + ucast (rd_at r1 2);
               value = push_bit 8 value; value = value + ucast (rd_at r1 3);
               value = push_bit 8 value; value = value + ucast (rd_at r1 4)
           in (value, rd_touch 4 r1)))"

definition Reader_ReadDoubleWordBE :: "reader \<Rightarrow> 32 word \<times> reader" where
  "Reader_ReadDoubleWordBE r =
     (case Reader_UpdateState 4 r of
        (False, r1) \<Rightarrow> (0, r1)
      | (True, r1) \<Rightarrow>
          (let value = ucast (rd_at r1 4);
               value = push_bit 8 value; value = value + ucast (rd_at r1 3);
               value = push_bit 8 value; value = value + ucast (rd_at r1 2);
               value = push_bit 8 value; value = value + ucast (rd_at r1 1)
           in (value, rd_touch 4 r1)))"

definition Reader_ReadQuadWordLE :: "reader \<Rightarrow> 64 word \<times> reader" where
  "Reader_ReadQuadWordLE r =
     (case Reader_UpdateState 8 r of
        (False, r1) \<Rightarrow> (0, r1)
      | (True, r1) \<Rightarrow>
          (let value = ucast (rd_at r1 1);
               value = push_bit 8 value; value = value + ucast (rd_at r1 2);
               value = push_bit 8 value; value = value + ucast (rd_at r1 3);
               value = push_bit 8 value; value = value + ucast (rd_at r1 4);
               value = push_bit 8 value; value = value + ucast (rd_at r1 5);
               value = push_bit 8 value; value = value + ucast (rd_at r1 6);
               value = push_bit 8 value; value = value + ucast (rd_at r1 7);
               value = push_bit 8 value; value = value + ucast (rd_at r1 8)
           in (value, rd_touch 8 r1)))"

definition Reader_ReadSignedWordLE :: "reader \<Rightarrow> 16 word \<times> reader" where
  "Reader_ReadSignedWordLE r = Reader_ReadWordLE r"

definition Reader_ReadSignedWordBE :: "reader \<Rightarrow> 16 word \<times> reader" where
  "Reader_ReadSignedWordBE r = Reader_ReadWordBE r"

definition Reader_ReadSignedDoubleWordLE :: "reader \<Rightarrow> 32 word \<times> reader" where
  "Reader_ReadSignedDoubleWordLE r = Reader_ReadDoubleWordLE r"

definition Reader_ReadArray :: "u16 \<Rightarrow> reader \<Rightarrow> bytes \<times> reader" where
  "Reader_ReadArray len r =
     (case Reader_UpdateState len r of
        (False, r1) \<Rightarrow> ([], r1)
      | (True, r1) \<Rightarrow>
          (sub_at (unat (r_pos r1) - unat len) (unat len) (r_buf r1), rd_touch (unat len) r1))"

text \<open>The remaining size is an \<open>int32_t\<close>, truncated to the \<open>uint16_t\<close> parameter.\<close>

definition Reader_ReadToEnd :: "reader \<Rightarrow> bytes \<times> reader" where
  "Reader_ReadToEnd r = Reader_ReadArray (of_int (Reader_RemainingSize r)) r"

text \<open>
  \<open>strlen_n\<close> (libs/base/utils.cpp): the number of characters before the first NUL, at most
  \<open>maxSize\<close>; it looks at the character after the last one it counts. \<open>ReadString\<close> bounds it by
  the remaining size, compared as unsigned 32-bit values. The look-ahead of an unterminated
  string that ends with the view is outside the view: \<open>r_fault\<close> records it. An empty view is
  taken to be the default span, whose null pointer \<open>strlen_n\<close> tests for.
\<close>

fun strlen_n :: "bytes \<Rightarrow> nat \<Rightarrow> nat" where
  "strlen_n [] n = 0"
| "strlen_n (c # cs) n = (if c = 0 \<or> n = 0 then 0 else Suc (strlen_n cs (n - 1)))"

definition Reader_ReadString :: "nat \<Rightarrow> reader \<Rightarrow> bytes \<times> reader" where
  "Reader_ReadString maxsize r =
     (let maxsize' = max 0 (min maxsize (unat (of_int (Reader_RemainingSize r) :: u32)));
          p = drop (unat (r_pos r)) (r_buf r);
          len = strlen_n p maxsize';
          r1 = snd (Reader_UpdateState (of_nat len) r)
      in (take len p,
          r1\<lparr>r_fault := r_fault r1 \<or>
               (r_buf r \<noteq> [] \<and> length (r_buf r) \<le> unat (r_pos r) + len)\<rparr>))"

section \<open>Abstract view: consuming bytes\<close>

definition reader_wf :: "reader \<Rightarrow> bool" where
  "reader_wf r \<longleftrightarrow> length (r_buf r) < 2 ^ 15 \<and> (r_valid r \<longrightarrow> unat (r_pos r) \<le> length (r_buf r))"

definition avail :: "nat \<Rightarrow> reader \<Rightarrow> bool" where
  "avail n r \<longleftrightarrow> r_valid r \<and> unat (r_pos r) + n \<le> length (r_buf r)"

definition rest :: "reader \<Rightarrow> bytes" where
  "rest r = drop (unat (r_pos r)) (r_buf r)"

definition consume :: "nat \<Rightarrow> reader \<Rightarrow> reader" where
  "consume n r = r\<lparr>r_pos := r_pos r + of_nat n, r_valid := avail n r\<rparr>"

text \<open>\<open>fetch n f z r\<close>: the result of \<open>f\<close> on the next \<open>n\<close> bytes, or \<open>z\<close> and an invalid reader.\<close>

definition fetch :: "nat \<Rightarrow> (bytes \<Rightarrow> 'v) \<Rightarrow> 'v \<Rightarrow> reader \<Rightarrow> 'v \<times> reader" where
  "fetch n f z r =
     (if avail n r then (f (take n (rest r)), consume n r)
      else (z, if r_valid r then consume n r else r))"

lemma avail_valid: "avail n r \<Longrightarrow> r_valid r"
  by (simp add: avail_def)

lemma avail_mono: "avail n r \<Longrightarrow> m \<le> n \<Longrightarrow> avail m r"
  by (simp add: avail_def)

lemma consume_frame [simp]:
  "r_buf (consume n r) = r_buf r" "r_fault (consume n r) = r_fault r"
  "r_valid (consume n r) = avail n r"
  by (simp_all add: consume_def)

lemma pos_consume:
  assumes "reader_wf r" and "r_valid r" and "n < 2 ^ 15"
  shows "unat (r_pos (consume n r)) = unat (r_pos r) + n"
  using assms by (simp add: consume_def reader_wf_def unat_word_ariths unat_of_nat)

lemma wf_consume [intro]: "reader_wf r \<Longrightarrow> avail n r \<Longrightarrow> reader_wf (consume n r)"
  using pos_consume [of r n] by (auto simp: reader_wf_def avail_def)

lemma rest_consume [run_simps]:
  "reader_wf r \<Longrightarrow> avail n r \<Longrightarrow> rest (consume n r) = drop n (rest r)"
  using pos_consume [of r n] by (simp add: rest_def reader_wf_def avail_def add.commute)

lemma avail_consume [run_simps]:
  "reader_wf r \<Longrightarrow> avail m r \<Longrightarrow> avail n (consume m r) \<longleftrightarrow> avail (m + n) r"
  using pos_consume [of r m] by (auto simp: avail_def reader_wf_def)

lemma consume_consume [run_simps]:
  "reader_wf r \<Longrightarrow> avail (m + n) r \<Longrightarrow> consume n (consume m r) = consume (m + n) r"
  using avail_consume [of r m n] avail_mono [of "m + n" r m]
  by (simp add: consume_def add.assoc)

lemma avail_rest: "r_valid r \<Longrightarrow> reader_wf r \<Longrightarrow> avail n r \<longleftrightarrow> n \<le> length (rest r)"
  by (auto simp: avail_def rest_def reader_wf_def)

lemma reader_wf_Initialize [simp]: "reader_wf (Reader_Initialize bs) \<longleftrightarrow> length bs < 2 ^ 15"
  by (simp add: reader_wf_def Reader_Initialize_def Reader_Reset_def)

lemma rest_Initialize [simp]: "rest (Reader_Initialize bs) = bs"
  by (simp add: rest_def Reader_Initialize_def Reader_Reset_def)

lemma valid_Initialize [simp]: "r_valid (Reader_Initialize bs) \<longleftrightarrow> bs \<noteq> []"
  by (simp add: Reader_Initialize_def Reader_Reset_def)

lemma fault_Initialize [simp]: "\<not> r_fault (Reader_Initialize bs)"
  by (simp add: Reader_Initialize_def Reader_Reset_def)

lemma avail_Initialize [simp]: "avail n (Reader_Initialize bs) \<longleftrightarrow> bs \<noteq> [] \<and> n \<le> length bs"
  by (simp add: avail_def Reader_Initialize_def Reader_Reset_def)

lemma ReaderUpdateState_consume [run_simps]:
  assumes "reader_wf r" and "unat n < 2 ^ 15"
  shows "Reader_UpdateState n r = (avail (unat n) r, if r_valid r then consume (unat n) r else r)"
proof (cases "r_valid r")
  case True
  have "unat (r_pos r + n) = unat (r_pos r) + unat n"
    using pos_consume [OF assms(1) True assms(2)] by (simp add: consume_def)
  with True show ?thesis
    by (simp add: Reader_UpdateState_def consume_def avail_def)
next
  case False
  then show ?thesis by (simp add: Reader_UpdateState_def avail_def)
qed

lemma rd_touch_consume [simp]:
  assumes "reader_wf r" and "avail n r"
  shows "rd_touch n (consume n r) = consume n r"
  using assms pos_consume [of r n] by (simp add: rd_touch_def reader_wf_def avail_def)

lemma rd_at_consume:
  assumes "reader_wf r" and "avail n r" and "k \<le> n" and "0 < k"
  shows "rd_at (consume n r) k = take n (rest r) ! (n - k)"
  using assms pos_consume [of r n]
  by (simp add: rd_at_def reader_wf_def avail_def rest_def)

section \<open>Each operation is a \<open>fetch\<close>\<close>

lemma ReadByte_fetch [run_simps]:
  "reader_wf r \<Longrightarrow> Reader_ReadByte r = fetch 1 (\<lambda>bs. bs ! 0) 0 r"
  by (cases "avail 1 r")
    (simp_all add: Reader_ReadByte_def ReaderUpdateState_consume fetch_def rd_at_consume avail_valid)

lemma list_of_length:
  "length xs = 2 \<Longrightarrow> xs = [xs ! 0, xs ! 1]"
  "length xs = 3 \<Longrightarrow> xs = [xs ! 0, xs ! 1, xs ! 2]"
  "length xs = 4 \<Longrightarrow> xs = [xs ! 0, xs ! 1, xs ! 2, xs ! 3]"
  "length xs = 8 \<Longrightarrow> xs = [xs ! 0, xs ! 1, xs ! 2, xs ! 3, xs ! 4, xs ! 5, xs ! 6, xs ! 7]"
  by (auto simp: list_eq_iff_nth_eq less_Suc_eq numeral_eq_Suc)

text \<open>The Horner scheme of the code on a run of bytes, from the last byte or from the first.\<close>

lemma le_word_run:
  "length bs = 2 \<Longrightarrow> le_word bs = push_bit 8 (ucast (bs ! 1)) + (ucast (bs ! 0) :: 'a::len word)"
  "length bs = 3 \<Longrightarrow> le_word bs =
     push_bit 8 (push_bit 8 (ucast (bs ! 2)) + ucast (bs ! 1)) + (ucast (bs ! 0) :: 'a word)"
  "length bs = 4 \<Longrightarrow> le_word bs =
     push_bit 8 (push_bit 8 (push_bit 8 (ucast (bs ! 3)) + ucast (bs ! 2)) + ucast (bs ! 1))
       + (ucast (bs ! 0) :: 'a word)"
  by (subst list_of_length, assumption, simp)+

lemma le_word_run8:
  "length bs = 8 \<Longrightarrow> le_word bs =
     push_bit 8 (push_bit 8 (push_bit 8 (push_bit 8 (push_bit 8 (push_bit 8 (push_bit 8
       (ucast (bs ! 7)) + ucast (bs ! 6)) + ucast (bs ! 5)) + ucast (bs ! 4)) + ucast (bs ! 3))
       + ucast (bs ! 2)) + ucast (bs ! 1)) + (ucast (bs ! 0) :: 'a::len word)"
  by (subst list_of_length, assumption, simp)

lemma le_word_rev_run:
  "length bs = 2 \<Longrightarrow> le_word (rev bs) = push_bit 8 (ucast (bs ! 0)) + (ucast (bs ! 1) :: 'a::len word)"
  "length bs = 3 \<Longrightarrow> le_word (rev bs) =
     push_bit 8 (push_bit 8 (ucast (bs ! 0)) + ucast (bs ! 1)) + (ucast (bs ! 2) :: 'a word)"
  "length bs = 4 \<Longrightarrow> le_word (rev bs) =
     push_bit 8 (push_bit 8 (push_bit 8 (ucast (bs ! 0)) + ucast (bs ! 1)) + ucast (bs ! 2))
       + (ucast (bs ! 3) :: 'a word)"
  by (subst le_word_run; simp add: rev_nth)+

lemma length_take_rest: "avail n r \<Longrightarrow> length (take n (rest r)) = n"
  by (auto simp: avail_def rest_def)

lemma ReadWordLE_fetch [run_simps]:
  "reader_wf r \<Longrightarrow> Reader_ReadWordLE r = fetch 2 le_word 0 r"
  by (cases "avail 2 r")
    (simp_all add: Reader_ReadWordLE_def ReaderUpdateState_consume fetch_def rd_at_consume
      avail_valid le_word_run [OF length_take_rest] Let_def)

lemma ReadWordBE_fetch [run_simps]:
  "reader_wf r \<Longrightarrow> Reader_ReadWordBE r = fetch 2 (\<lambda>bs. le_word (rev bs)) 0 r"
  by (cases "avail 2 r")
    (simp_all add: Reader_ReadWordBE_def ReaderUpdateState_consume fetch_def rd_at_consume
      avail_valid le_word_rev_run [OF length_take_rest] Let_def)

lemma ReadSignedWordLE_fetch [run_simps]:
  "reader_wf r \<Longrightarrow> Reader_ReadSignedWordLE r = fetch 2 le_word 0 r"
  by (simp add: Reader_ReadSignedWordLE_def ReadWordLE_fetch)

lemma ReadSignedWordBE_fetch [run_simps]:
  "reader_wf r \<Longrightarrow> Reader_ReadSignedWordBE r = fetch 2 (\<lambda>bs. le_word (rev bs)) 0 r"
  by (simp add: Reader_ReadSignedWordBE_def ReadWordBE_fetch)

lemma ReadWordAndHalfLE_fetch [run_simps]:
  "reader_wf r \<Longrightarrow> Reader_ReadWordAndHalfLE r = fetch 3 le_word 0 r"
  by (cases "avail 3 r")
    (simp_all add: Reader_ReadWordAndHalfLE_def ReaderUpdateState_consume fetch_def rd_at_consume
      avail_valid le_word_run [OF length_take_rest] Let_def)

lemma ReadWordAndHalfBE_fetch [run_simps]:
  "reader_wf r \<Longrightarrow> Reader_ReadWordAndHalfBE r = fetch 3 (\<lambda>bs. le_word (rev bs)) 0 r"
  by (cases "avail 3 r")
    (simp_all add: Reader_ReadWordAndHalfBE_def ReaderUpdateState_consume fetch_def rd_at_consume
      avail_valid le_word_rev_run [OF length_take_rest] Let_def)

lemma ReadDoubleWordLE_fetch [run_simps]:
  "reader_wf r \<Longrightarrow> Reader_ReadDoubleWordLE r = fetch 4 le_word 0 r"
  by (cases "avail 4 r")
    (simp_all add: Reader_ReadDoubleWordLE_def ReaderUpdateState_consume fetch_def rd_at_consume
      avail_valid le_word_run [OF length_take_rest] Let_def)

lemma ReadSignedDoubleWordLE_fetch [run_simps]:
  "reader_wf r \<Longrightarrow> Reader_ReadSignedDoubleWordLE r = fetch 4 le_word 0 r"
  by (simp add: Reader_ReadSignedDoubleWordLE_def ReadDoubleWordLE_fetch)

lemma ReadDoubleWordBE_fetch [run_simps]:
  "reader_wf r \<Longrightarrow> Reader_ReadDoubleWordBE r = fetch 4 (\<lambda>bs. le_word (rev bs)) 0 r"
  by (cases "avail 4 r")
    (simp_all add: Reader_ReadDoubleWordBE_def ReaderUpdateState_consume fetch_def rd_at_consume
      avail_valid le_word_rev_run [OF length_take_rest] Let_def)

lemma ReadQuadWordLE_fetch [run_simps]:
  "reader_wf r \<Longrightarrow> Reader_ReadQuadWordLE r = fetch 8 le_word 0 r"
  by (cases "avail 8 r")
    (simp_all add: Reader_ReadQuadWordLE_def ReaderUpdateState_consume fetch_def rd_at_consume
      avail_valid le_word_run8 [OF length_take_rest] Let_def)

lemma ReadArray_fetch [run_simps]:
  assumes "reader_wf r" and "unat n < 2 ^ 15"
  shows "Reader_ReadArray n r = fetch (unat n) (\<lambda>bs. bs) [] r"
proof (cases "avail (unat n) r")
  case True
  with assms have "unat (r_pos (consume (unat n) r)) = unat (r_pos r) + unat n"
    by (intro pos_consume) (auto dest: avail_valid)
  with True assms show ?thesis
    by (simp add: Reader_ReadArray_def ReaderUpdateState_consume fetch_def avail_valid
        sub_at_def rest_def)
next
  case False
  with assms show ?thesis
    by (simp add: Reader_ReadArray_def ReaderUpdateState_consume fetch_def)
qed

lemma ReadToEnd_fetch [run_simps]:
  assumes "reader_wf r" and "r_valid r"
  shows "Reader_ReadToEnd r = fetch (length (rest r)) (\<lambda>bs. bs) [] r"
proof -
  have le: "unat (r_pos r) \<le> length (r_buf r)" "length (r_buf r) < 2 ^ 15"
    using assms by (simp_all add: reader_wf_def)
  then have "Reader_RemainingSize r = int (length (rest r))"
    by (simp add: Reader_RemainingSize_def rest_def)
  moreover have l: "length (rest r) < 2 ^ 15" using le by (simp add: rest_def)
  moreover have "unat (of_nat (length (rest r)) :: u16) = length (rest r)"
    using l by (simp add: unat_of_nat)
  ultimately show ?thesis
    using assms by (simp add: Reader_ReadToEnd_def ReadArray_fetch)
qed

lemma fetch_avail [simp]: "avail n r \<Longrightarrow> fetch n f z r = (f (take n (rest r)), consume n r)"
  by (simp add: fetch_def)

lemma fetch_invalid [simp]: "\<not> avail n r \<Longrightarrow> \<not> r_valid (snd (fetch n f z r))"
  by (auto simp: fetch_def)

lemma fetch_default [simp]: "\<not> avail n r \<Longrightarrow> fst (fetch n f z r) = z"
  by (simp add: fetch_def)

lemma fetch_fault [simp]: "r_fault (snd (fetch n f z r)) = r_fault r"
  by (simp add: fetch_def)

lemma fetch_stays_invalid [simp]: "\<not> r_valid r \<Longrightarrow> fetch n f z r = (z, r)"
  by (simp add: fetch_def avail_def)

lemma fetch_wf [intro]: "reader_wf r \<Longrightarrow> reader_wf (snd (fetch n f z r))"
  by (cases "avail n r") (auto simp: fetch_def, auto simp: reader_wf_def)


section \<open>Functional view: what is left to read\<close>

text \<open>
  The bytes that a reader has left, or nothing once a read has failed. On this view a sequence of
  reads is a composition of \<open>skipping\<close>, so a parser is evaluated by \<open>left_simps\<close>.
\<close>

definition remaining :: "reader \<Rightarrow> bytes option" where
  "remaining r = (if r_valid r then Some (rest r) else None)"

definition skipping :: "nat \<Rightarrow> bytes option \<Rightarrow> bytes option" where
  "skipping n x = (case x of None \<Rightarrow> None | Some bs \<Rightarrow> if n \<le> length bs then Some (drop n bs) else None)"

definition taking :: "nat \<Rightarrow> (bytes \<Rightarrow> 'v) \<Rightarrow> 'v \<Rightarrow> bytes option \<Rightarrow> 'v" where
  "taking n f z x = (if skipping n x = None then z else f (take n (the x)))"

lemma Status_left [left_simps]: "Reader_Status r \<longleftrightarrow> remaining r \<noteq> None"
  by (simp add: remaining_def Reader_Status_def)

lemma left_Initialize [left_simps]: "remaining (Reader_Initialize bs) = (if bs = [] then None else Some bs)"
  by (simp add: remaining_def)

lemma left_wf_Initialize [left_simps]: "length bs < 2 ^ 15 \<Longrightarrow> reader_wf (Reader_Initialize bs)"
  by simp

lemma skipping_skipping [left_simps]: "skipping n (skipping m x) = skipping (m + n) x"
  by (auto simp: skipping_def add.commute split: option.splits)

lemma skipping_None [simp]: "skipping n None = None"
  by (simp add: skipping_def)

lemma skipping_Some [simp]: "skipping n (Some bs) = (if n \<le> length bs then Some (drop n bs) else None)"
  by (simp add: skipping_def)

lemma left_fetch:
  assumes "reader_wf r"
  shows "remaining (snd (fetch n f z r)) = skipping n (remaining r)" "fst (fetch n f z r) = taking n f z (remaining r)"
proof -
  have a: "avail n r \<longleftrightarrow> r_valid r \<and> n \<le> length (rest r)"
    using assms avail_rest avail_valid by blast
  show "remaining (snd (fetch n f z r)) = skipping n (remaining r)"
    using a assms by (cases "avail n r") (auto simp: remaining_def rest_consume skipping_def dest: fetch_invalid [of n r f z])
  show "fst (fetch n f z r) = taking n f z (remaining r)"
    using a assms by (cases "avail n r") (auto simp: remaining_def taking_def skipping_def)
qed

lemma ReadByte_left [left_simps]:
  assumes "reader_wf r"
  shows "fst (Reader_ReadByte r) = taking 1 (\<lambda>bs. bs ! 0) 0 (remaining r)"
    "remaining (snd (Reader_ReadByte r)) = skipping 1 (remaining r)" "reader_wf (snd (Reader_ReadByte r))"
  using assms by (simp_all only: ReadByte_fetch left_fetch fetch_wf)

lemma ReadWordLE_left [left_simps]:
  assumes "reader_wf r"
  shows "fst (Reader_ReadWordLE r) = taking 2 le_word 0 (remaining r)"
    "remaining (snd (Reader_ReadWordLE r)) = skipping 2 (remaining r)" "reader_wf (snd (Reader_ReadWordLE r))"
  using assms by (simp_all only: ReadWordLE_fetch left_fetch fetch_wf)

lemma ReadDoubleWordLE_left [left_simps]:
  assumes "reader_wf r"
  shows "fst (Reader_ReadDoubleWordLE r) = taking 4 le_word 0 (remaining r)"
    "remaining (snd (Reader_ReadDoubleWordLE r)) = skipping 4 (remaining r)" "reader_wf (snd (Reader_ReadDoubleWordLE r))"
  using assms by (simp_all only: ReadDoubleWordLE_fetch left_fetch fetch_wf)

lemma ReadArray_left [left_simps]:
  assumes "reader_wf r" and "unat n < 2 ^ 15"
  shows "fst (Reader_ReadArray n r) = taking (unat n) (\<lambda>bs. bs) [] (remaining r)"
    "remaining (snd (Reader_ReadArray n r)) = skipping (unat n) (remaining r)" "reader_wf (snd (Reader_ReadArray n r))"
  using assms by (simp_all only: ReadArray_fetch left_fetch fetch_wf)

lemma ReadToEnd_left [left_simps]:
  assumes "reader_wf r"
  shows "fst (Reader_ReadToEnd r) = (case remaining r of None \<Rightarrow> [] | Some bs \<Rightarrow> bs)"
    "remaining (snd (Reader_ReadToEnd r)) = map_option (\<lambda>_. []) (remaining r)" "reader_wf (snd (Reader_ReadToEnd r))"
proof -
  have "fst (Reader_ReadToEnd r) = (case remaining r of None \<Rightarrow> [] | Some bs \<Rightarrow> bs) \<and>
      remaining (snd (Reader_ReadToEnd r)) = map_option (\<lambda>_. []) (remaining r) \<and> reader_wf (snd (Reader_ReadToEnd r))"
  proof (cases "r_valid r")
    case True
    then show ?thesis
      using assms by (simp only: ReadToEnd_fetch left_fetch fetch_wf) (simp add: remaining_def taking_def)
  next
    case False
    then show ?thesis
      using assms by (simp add: remaining_def Reader_ReadToEnd_def Reader_ReadArray_def Reader_UpdateState_def)
  qed
  then show "fst (Reader_ReadToEnd r) = (case remaining r of None \<Rightarrow> [] | Some bs \<Rightarrow> bs)"
    "remaining (snd (Reader_ReadToEnd r)) = map_option (\<lambda>_. []) (remaining r)" "reader_wf (snd (Reader_ReadToEnd r))"
    by simp_all
qed

end
