(* ===== verification/Rtc.thy ===== *)
theory Rtc
  imports Byte_Reader Byte_Writer
begin

text \<open>
  The result codes of the operating system layer (base/os.h) and the external real time clock
  (libs/drivers/rtc). The I2C bus is a parameter; \<open>mktime\<close> of the C library is a parameter of
  \<open>ToDuration\<close>. Each driver operation also returns the result it reports to its error counter.
\<close>

section \<open>Result codes\<close>

datatype OSResult =
    OS_Success | OS_InvalidOperation | OS_PowerFailure | OS_NotFound | OS_Interrupted | OS_IOError
  | OS_ArgListTooLong | OS_InvalidFileHandle | OS_NoChildren | OS_NotEnoughMemory | OS_AccessDenied
  | OS_InvalidAddress | OS_Busy | OS_FileExists | OS_InvalidLink | OS_DeviceNotFound
  | OS_NotADirectory | OS_IsDirectory | OS_InvalidArgument | OS_TooManyOpenFiles
  | OS_DescriptorTooLarge | OS_FileTooLarge | OS_OutOfDiskSpace | OS_InvalidSeek | OS_ReadOnlyFs
  | OS_TooManyLinks | OS_OutOfRange | OS_Deadlock | OS_NoLock | OS_WouldBlock | OS_Timeout
  | OS_ProtocolError | OS_InvalidMessage | OS_InvalidFileFormat | OS_NotImplemented
  | OS_DirectoryNotEmpty | OS_PathTooLong | OS_LinkCycle | OS_NotSupported | OS_ProtocolNotSupported
  | OS_BufferNotAvailable | OS_ProtocolNotAvailable | OS_UnknownProtocol | OS_InvalidByteSequence
  | OS_Overflow | OS_Cancelled

definition OS_RESULT_SUCCEEDED :: "OSResult \<Rightarrow> bool" where
  "OS_RESULT_SUCCEEDED x \<longleftrightarrow> x = OS_Success"

definition OS_RESULT_FAILED :: "OSResult \<Rightarrow> bool" where
  "OS_RESULT_FAILED x \<longleftrightarrow> x \<noteq> OS_Success"

section \<open>The clock\<close>

record RTCTime =
  rt_seconds :: u8
  rt_minutes :: u8
  rt_hours :: u8
  rt_days :: u8
  rt_months :: u8
  rt_years :: u8

text \<open>\<open>struct tm\<close> as \<open>ToDuration\<close> fills it: year, month, day, hour, minute, second.\<close>

definition RTC_ToDuration ::
  "(int \<Rightarrow> int \<Rightarrow> int \<Rightarrow> int \<Rightarrow> int \<Rightarrow> int \<Rightarrow> int) \<Rightarrow> RTCTime \<Rightarrow> int" where
  "RTC_ToDuration mktime t =
     mktime (100 + uint (rt_years t)) (uint (rt_months t) - 1) (uint (rt_days t))
       (uint (rt_hours t)) (uint (rt_minutes t)) (uint (rt_seconds t))"

definition RTC_IsValid :: "RTCTime \<Rightarrow> bool" where
  "RTC_IsValid t \<longleftrightarrow> rt_seconds t \<le> 59 \<and> rt_minutes t \<le> 59 \<and> rt_hours t \<le> 23 \<and> rt_days t \<le> 31
     \<and> rt_months t \<le> 12 \<and> rt_years t \<le> 99"

definition RTC_I2CAddress :: u8 where "RTC_I2CAddress = 0b1010001"
definition RTC_VL_seconds :: u8 where "RTC_VL_seconds = 0x02"

definition SecondsNibbleMask :: u8 where "SecondsNibbleMask = 0x70"
definition MinutesNibbleMask :: u8 where "MinutesNibbleMask = 0x70"
definition HoursNibbleMask :: u8 where "HoursNibbleMask = 0x30"
definition DaysNibbleMask :: u8 where "DaysNibbleMask = 0x30"
definition MonthsNibbleMask :: u8 where "MonthsNibbleMask = 0x10"
definition YearsNibbleMask :: u8 where "YearsNibbleMask = 0xF0"

text \<open>Decoding the seven registers that \<open>ReadTime\<close> reads.\<close>

definition RTC_decode :: "bytes \<Rightarrow> RTCTime" where
  "RTC_decode outBuffer =
     (let r = Reader_Initialize outBuffer;
          (seconds, r) = Reader_ReadByteBCD SecondsNibbleMask r;
          (minutes, r) = Reader_ReadByteBCD MinutesNibbleMask r;
          (hours, r) = Reader_ReadByteBCD HoursNibbleMask r;
          (days, r) = Reader_ReadByteBCD DaysNibbleMask r;
          r = snd (Reader_Skip 1 r);
          (months, r) = Reader_ReadByteBCD MonthsNibbleMask r;
          (years, r) = Reader_ReadByteBCD YearsNibbleMask r
      in \<lparr>rt_seconds = seconds, rt_minutes = minutes, rt_hours = hours, rt_days = days,
          rt_months = months, rt_years = years\<rparr>)"

definition RTC_ReadTime ::
  "(u8 \<Rightarrow> bytes \<Rightarrow> nat \<Rightarrow> 'b \<Rightarrow> bool \<times> bytes \<times> 'b) \<Rightarrow> 'b
     \<Rightarrow> (OSResult \<times> RTCTime option \<times> bool) \<times> 'b" where
  "RTC_ReadTime writeRead b =
     (let (status, outBuffer, b) = writeRead RTC_I2CAddress [RTC_VL_seconds] 7 b
      in if \<not> status then ((OS_InvalidOperation, None, False), b)
         else ((OS_Success, Some (RTC_decode outBuffer), True), b))"

definition RTC_IsIntegrityGuaranteed ::
  "(u8 \<Rightarrow> bytes \<Rightarrow> nat \<Rightarrow> 'b \<Rightarrow> bool \<times> bytes \<times> 'b) \<Rightarrow> 'b \<Rightarrow> (bool \<times> bool) \<times> 'b" where
  "RTC_IsIntegrityGuaranteed writeRead b =
     (let (status, outBuffer, b) = writeRead RTC_I2CAddress [RTC_VL_seconds] 1 b
      in if \<not> status then ((False, False), b)
         else ((\<not> (outBuffer ! 0 AND push_bit 7 1 = push_bit 7 1), True), b))"

definition RTC_encode :: "RTCTime \<Rightarrow> bytes" where
  "RTC_encode time =
     (let w = Writer_Initialize (replicate 8 0);
          w = snd (Writer_WriteByte RTC_VL_seconds w);
          w = snd (Writer_WriteByteBCD (rt_seconds time) w);
          w = snd (Writer_WriteByteBCD (rt_minutes time) w);
          w = snd (Writer_WriteByteBCD (rt_hours time) w);
          w = snd (Writer_WriteByteBCD (rt_days time) w);
          w = snd (Writer_WriteByteBCD 0 w);
          w = snd (Writer_WriteByteBCD (rt_months time) w);
          w = snd (Writer_WriteByteBCD (rt_years time) w)
      in w_buf w)"

definition RTC_SetTime ::
  "(u8 \<Rightarrow> bytes \<Rightarrow> 'b \<Rightarrow> bool \<times> 'b) \<Rightarrow> RTCTime \<Rightarrow> 'b \<Rightarrow> (OSResult \<times> bool) \<times> 'b" where
  "RTC_SetTime busWrite time b =
     (let (status, b) = busWrite RTC_I2CAddress (RTC_encode time) b
      in if \<not> status then ((OS_DeviceNotFound, False), b) else ((OS_Success, True), b))"

definition RTC_zero :: RTCTime where
  "RTC_zero = \<lparr>rt_seconds = 0, rt_minutes = 0, rt_hours = 0, rt_days = 1, rt_months = 1, rt_years = 0\<rparr>"

definition RTC_Initialize ::
  "(u8 \<Rightarrow> bytes \<Rightarrow> nat \<Rightarrow> 'b \<Rightarrow> bool \<times> bytes \<times> 'b) \<Rightarrow> (u8 \<Rightarrow> bytes \<Rightarrow> 'b \<Rightarrow> bool \<times> 'b) \<Rightarrow> 'b
     \<Rightarrow> (OSResult \<times> bool list) \<times> 'b" where
  "RTC_Initialize writeRead busWrite b =
     (let ((isClockOk, reported), b) = RTC_IsIntegrityGuaranteed writeRead b
      in if isClockOk then ((OS_Success, [reported]), b)
         else
           (let ((result, reported'), b) = RTC_SetTime busWrite RTC_zero b
            in ((result, [reported, reported']), b)))"

section \<open>Binary coded decimals\<close>

definition bcd :: "u8 \<Rightarrow> u8" where
  "bcd v = push_bit 4 (v div 10) OR (v mod 10)"

definition unbcd :: "u8 \<Rightarrow> u8 \<Rightarrow> u8" where
  "unbcd m b = drop_bit 4 (b AND m) * 10 + (b AND 0x0F)"

definition bcd_upto :: "nat \<Rightarrow> u8 \<Rightarrow> bool" where
  "bcd_upto n m \<longleftrightarrow> list_all (\<lambda>v. unbcd m (bcd v) = v) (map of_nat [0..<n])"

lemma bcd_uptoD:
  assumes "bcd_upto n m" and "unat v < n"
  shows "unbcd m (bcd v) = v"
proof -
  have "v = of_nat (unat v)" by simp
  moreover have "\<forall>i < n. unbcd m (bcd (of_nat i)) = of_nat i"
    using assms(1) by (auto simp: bcd_upto_def list_all_iff)
  ultimately show ?thesis using assms(2) by metis
qed

lemma bcd_tables:
  "bcd_upto 60 0x70" "bcd_upto 24 0x30" "bcd_upto 32 0x30" "bcd_upto 13 0x10" "bcd_upto 100 0xF0"
  by code_simp+

text \<open>The buffer \<open>SetTime\<close> sends and what \<open>ReadTime\<close> makes of seven registers.\<close>

lemma WriteByteBCD_bcd: "Writer_WriteByteBCD v w = emit [bcd v] w"
  by (simp add: WriteByteBCD_emit bcd_def)

lemma emit_chain:
  assumes "writer_wf w" and "fits n w" and "length (bs @ [b]) \<le> n"
  shows "snd (emit [b] (advance bs w)) = advance (bs @ [b]) w"
proof -
  have "fits (length bs) w" "fits (length bs + 1) w" using assms(2,3) by (auto elim: fits_mono)
  then show ?thesis using assms(1) by (simp add: fits_advance advance_advance)
qed

lemma RTC_encode_bytes:
  "RTC_encode t = [RTC_VL_seconds, bcd (rt_seconds t), bcd (rt_minutes t), bcd (rt_hours t),
     bcd (rt_days t), bcd 0, bcd (rt_months t), bcd (rt_years t)]"
proof -
  let ?w = "Writer_Initialize (replicate 8 (0 :: u8))"
  have w: "writer_wf ?w" "fits 8 ?w"
    by (simp_all add: writer_wf_def fits_def Writer_Initialize_def Writer_Reset_def)
  note step = emit_chain [OF w]
  have "RTC_encode t = w_buf (advance [RTC_VL_seconds, bcd (rt_seconds t), bcd (rt_minutes t),
      bcd (rt_hours t), bcd (rt_days t), bcd 0, bcd (rt_months t), bcd (rt_years t)] ?w)"
    unfolding RTC_encode_def Let_def WriteByte_emit WriteByteBCD_bcd
    using step [of "[]"] by (simp add: step)
  then show ?thesis
    by (simp add: advance_def put_at_def Writer_Initialize_def Writer_Reset_def)
qed

lemma ReadByteBCD_unbcd:
  assumes "reader_wf r" and "avail 1 r" and "rest r = b # bs"
  shows "Reader_ReadByteBCD m r = (unbcd m b, consume 1 r)"
  using assms by (simp add: Reader_ReadByteBCD_def ReadByte_fetch unbcd_def)

lemma consume_step:
  assumes "reader_wf r" and "r_valid r" and "rest r = b # bs"
  shows "reader_wf (consume 1 r)" and "r_valid (consume 1 r)" and "rest (consume 1 r) = bs"
    and "avail 1 r"
proof -
  show a: "avail 1 r" using assms by (simp add: avail_rest)
  then show "reader_wf (consume 1 r)" "r_valid (consume 1 r)" "rest (consume 1 r) = bs"
    using assms by (auto simp: wf_consume rest_consume)
qed

lemma RTC_decode_bytes:
  "RTC_decode [s, m, h, d, x, mo, y] =
     \<lparr>rt_seconds = unbcd SecondsNibbleMask s, rt_minutes = unbcd MinutesNibbleMask m,
      rt_hours = unbcd HoursNibbleMask h, rt_days = unbcd DaysNibbleMask d,
      rt_months = unbcd MonthsNibbleMask mo, rt_years = unbcd YearsNibbleMask y\<rparr>"
proof -
  define r0 where "r0 = Reader_Initialize [s, m, h, d, x, mo, y]"
  have 0: "reader_wf r0" "r_valid r0" "rest r0 = [s, m, h, d, x, mo, y]" by (simp_all add: r0_def)
  note 1 = consume_step [OF 0]
  note 2 = consume_step [OF 1(1-3)]
  note 3 = consume_step [OF 2(1-3)]
  note 4 = consume_step [OF 3(1-3)]
  note 5 = consume_step [OF 4(1-3)]
  note 6 = consume_step [OF 5(1-3)]
  note 7 = consume_step [OF 6(1-3)]
  have skip: "snd (Reader_Skip 1 (consume 1 (consume 1 (consume 1 (consume 1 r0)))))
      = consume 1 (consume 1 (consume 1 (consume 1 (consume 1 r0))))"
    using 4 by (simp add: Reader_Skip_def ReaderUpdateState_consume del: One_nat_def)
  show ?thesis
    unfolding RTC_decode_def Let_def r0_def [symmetric]
    by (simp only: split skip ReadByteBCD_unbcd [OF 0(1) 1(4) 0(3)] ReadByteBCD_unbcd [OF 1(1) 2(4) 1(3)]
        ReadByteBCD_unbcd [OF 2(1) 3(4) 2(3)] ReadByteBCD_unbcd [OF 3(1) 4(4) 3(3)]
        ReadByteBCD_unbcd [OF 5(1) 6(4) 5(3)] ReadByteBCD_unbcd [OF 6(1) 7(4) 6(3)] prod.case)
qed

text \<open>
  A valid time written to the clock is the time the driver decodes when the registers it
  reads, from the seconds on, are the ones it wrote.
\<close>
theorem RTC_roundtrip:
  assumes "RTC_IsValid t"
  shows "hd (RTC_encode t) = RTC_VL_seconds \<and> RTC_decode (tl (RTC_encode t)) = t"
proof -
  have n: "unat (rt_seconds t) < 60" "unat (rt_minutes t) < 60" "unat (rt_hours t) < 24"
    "unat (rt_days t) < 32" "unat (rt_months t) < 13" "unat (rt_years t) < 100"
    using assms by (simp_all add: RTC_IsValid_def word_le_nat_alt)
  show ?thesis
    using bcd_uptoD [OF bcd_tables(1) n(1)] bcd_uptoD [OF bcd_tables(1) n(2)]
      bcd_uptoD [OF bcd_tables(2) n(3)] bcd_uptoD [OF bcd_tables(3) n(4)]
      bcd_uptoD [OF bcd_tables(4) n(5)] bcd_uptoD [OF bcd_tables(5) n(6)]
    by (simp add: RTC_encode_bytes RTC_decode_bytes SecondsNibbleMask_def MinutesNibbleMask_def
        HoursNibbleMask_def DaysNibbleMask_def MonthsNibbleMask_def YearsNibbleMask_def)
qed

lemma RTC_roundtrip_witness:
  "RTC_decode (tl (RTC_encode \<lparr>rt_seconds = 58, rt_minutes = 7, rt_hours = 23, rt_days = 31,
     rt_months = 12, rt_years = 99\<rparr>))
   = \<lparr>rt_seconds = 58, rt_minutes = 7, rt_hours = 23, rt_days = 31, rt_months = 12, rt_years = 99\<rparr>"
  by (rule conjunct2 [OF RTC_roundtrip]) (simp add: RTC_IsValid_def)

end
