(* ===== verification/Error_Counter.thy ===== *)
theory Error_Counter
  imports Prelude
begin

text \<open>
  The per-device error counters of libs/error_counter and the FDIR module of libs/obc/fdir that
  configures them and power cycles the satellite when a device fails too often. The counters are
  the \<open>int16_t\<close> atomics of the class, read with \<open>sint\<close>; an access outside the arrays is \<open>None\<close>.
\<close>

section \<open>Error counting\<close>

type_synonym device = u8

definition MaxDevices :: nat where
  "MaxDevices = 14"

record ec_config =
  ec_limit :: u8
  ec_increment :: u8
  ec_decrement :: u8

definition ErrorCounting_new :: "u16 list" where
  "ErrorCounting_new = replicate MaxDevices 0"

definition ErrorCounting_Current :: "u16 list \<Rightarrow> device \<Rightarrow> u8 option" where
  "ErrorCounting_Current cs d = (if unat d < length cs then Some (ucast (cs ! unat d)) else None)"

text \<open>
  \<open>Failure\<close> returns the counters and the argument of the callback \<open>LimitReached\<close>, when it is
  called: that call is the last action of the method.
\<close>

definition ErrorCounting_Failure ::
  "ec_config \<Rightarrow> bool \<Rightarrow> device \<Rightarrow> u16 list \<Rightarrow> (u16 list \<times> u8 option) option" where
  "ErrorCounting_Failure cfg has_callback d cs =
     (if unat d < length cs then
        (let i = unat d;
             increment = ec_increment cfg;
             prev = sint (cs ! i);
             cs = cs[i := cs ! i + ucast increment];
             overflow = (prev + uint increment) - 255;
             cs = (if overflow > 0 then cs[i := cs ! i - of_int overflow] else cs)
         in Some (cs,
              if prev + uint increment \<ge> uint (ec_limit cfg) \<and> has_callback
              then Some (ucast (cs ! i)) else None))
      else None)"

definition ErrorCounting_Success :: "ec_config \<Rightarrow> device \<Rightarrow> u16 list \<Rightarrow> u16 list option" where
  "ErrorCounting_Success cfg d cs =
     (if unat d < length cs then
        (let i = unat d;
             decrement = ec_decrement cfg;
             prev = sint (cs ! i);
             cs = cs[i := cs ! i - ucast decrement]
         in Some (if prev < uint decrement
                  then cs[i := cs ! i + of_int (uint decrement - prev)] else cs))
      else None)"

text \<open>The aggregated counter counts failures in 32 bits and reports once.\<close>

type_synonym aggregated = u32

definition Aggregated_Failure :: "aggregated \<Rightarrow> aggregated" where
  "Aggregated_Failure n = n + 1"

definition GetAggregatedResult :: "aggregated \<Rightarrow> bool" where
  "GetAggregatedResult n \<longleftrightarrow> n = 0"

definition report_bool :: "bool \<Rightarrow> aggregated \<Rightarrow> bool \<times> aggregated" where
  "report_bool flag n = (flag, if \<not> flag then Aggregated_Failure n else n)"

section \<open>FDIR\<close>

definition Config :: "u8 \<Rightarrow> u8 \<Rightarrow> u8 \<Rightarrow> u32" where
  "Config limit increment decrement =
     push_bit 0 (ucast limit AND 0xFF) OR push_bit 8 (ucast increment AND 0xFF)
     OR push_bit 16 (ucast decrement AND 0xFF)"

definition GetLimit :: "u32 \<Rightarrow> u8" where
  "GetLimit config = ucast (drop_bit 0 (config AND 0x0000FF))"

definition GetIncrement :: "u32 \<Rightarrow> u8" where
  "GetIncrement config = ucast (drop_bit 8 (config AND 0x00FF00))"

definition GetDecrement :: "u32 \<Rightarrow> u8" where
  "GetDecrement config = ucast (drop_bit 16 (config AND 0xFF0000))"

text \<open>\<open>fd_power_cycles\<close> counts the calls of \<open>PowerCycle\<close> on the power control interface.\<close>

record fdir =
  fd_counters :: "u16 list"
  fd_handler :: bool
  fd_configuration :: "u32 list"
  fd_masked :: u16
  fd_power_cycles :: nat

definition FDIR_new :: "u16 \<Rightarrow> fdir" where
  "FDIR_new maskedDevices =
     \<lparr>fd_counters = ErrorCounting_new, fd_handler = False,
      fd_configuration = replicate MaxDevices (Config 128 5 2), fd_masked = maskedDevices,
      fd_power_cycles = 0\<rparr>"

definition FDIR_Initalize :: "fdir \<Rightarrow> fdir" where
  "FDIR_Initalize f = f\<lparr>fd_handler := True\<rparr>"

text \<open>\<open>LoadConfig\<close> and \<open>GetConfig\<close> copy the fourteen words.\<close>

definition FDIR_LoadConfig :: "u32 list \<Rightarrow> fdir \<Rightarrow> fdir" where
  "FDIR_LoadConfig config f =
     f\<lparr>fd_configuration := fold (\<lambda>i c. c[i := config ! i]) [0..<MaxDevices] (fd_configuration f)\<rparr>"

definition FDIR_GetConfig :: "fdir \<Rightarrow> u32 list" where
  "FDIR_GetConfig f =
     fold (\<lambda>i buf. buf[i := fd_configuration f ! i]) [0..<MaxDevices] (replicate MaxDevices 0)"

definition FDIR_LimitReached :: "device \<Rightarrow> u8 \<Rightarrow> fdir \<Rightarrow> fdir" where
  "FDIR_LimitReached d errorsCount f =
     (if fd_masked f AND push_bit (unat d) 1 = push_bit (unat d) 1 then f
      else f\<lparr>fd_power_cycles := Suc (fd_power_cycles f)\<rparr>)"

definition FDIR_Limit :: "fdir \<Rightarrow> device \<Rightarrow> u8" where
  "FDIR_Limit f d = GetLimit (fd_configuration f ! unat d)"

definition FDIR_Increment :: "fdir \<Rightarrow> device \<Rightarrow> u8" where
  "FDIR_Increment f d = GetIncrement (fd_configuration f ! unat d)"

definition FDIR_Decrement :: "fdir \<Rightarrow> device \<Rightarrow> u8" where
  "FDIR_Decrement f d = GetDecrement (fd_configuration f ! unat d)"

definition FDIR_Set :: "device \<Rightarrow> u8 \<Rightarrow> u8 \<Rightarrow> u8 \<Rightarrow> fdir \<Rightarrow> fdir option" where
  "FDIR_Set d limit increment decrement f =
     (if unat d < length (fd_configuration f)
      then Some (f\<lparr>fd_configuration :=
             (fd_configuration f)[unat d := Config limit increment decrement]\<rparr>)
      else None)"

text \<open>The error counting of the module, with its own configuration and its own callback.\<close>

definition fdir_config :: "fdir \<Rightarrow> device \<Rightarrow> ec_config" where
  "fdir_config f d =
     \<lparr>ec_limit = FDIR_Limit f d, ec_increment = FDIR_Increment f d,
      ec_decrement = FDIR_Decrement f d\<rparr>"

definition FDIR_Failure :: "device \<Rightarrow> fdir \<Rightarrow> fdir option" where
  "FDIR_Failure d f =
     (case ErrorCounting_Failure (fdir_config f d) (fd_handler f) d (fd_counters f) of
        None \<Rightarrow> None
      | Some (cs, None) \<Rightarrow> Some (f\<lparr>fd_counters := cs\<rparr>)
      | Some (cs, Some n) \<Rightarrow> Some (FDIR_LimitReached d n (f\<lparr>fd_counters := cs\<rparr>)))"

definition FDIR_Success :: "device \<Rightarrow> fdir \<Rightarrow> fdir option" where
  "FDIR_Success d f =
     map_option (\<lambda>cs. f\<lparr>fd_counters := cs\<rparr>)
       (ErrorCounting_Success (fdir_config f d) d (fd_counters f))"

text \<open>\<open>ErrorCounter<Device>::operator>>\<close> and the destructor of the aggregated reporters.\<close>

definition report_device :: "bool \<Rightarrow> device \<Rightarrow> fdir \<Rightarrow> fdir option" where
  "report_device flag d f = (if flag then FDIR_Success d f else FDIR_Failure d f)"

definition Aggregated_ReportResult :: "aggregated \<Rightarrow> device \<Rightarrow> fdir \<Rightarrow> fdir option" where
  "Aggregated_ReportResult n d f = report_device (GetAggregatedResult n) d f"

section \<open>The packed configuration\<close>

lemma config_bytes:
  "GetLimit (Config l i d) = l" "GetIncrement (Config l i d) = i" "GetDecrement (Config l i d) = d"
proof -
  have m: "(0x0000FF :: u32) = mask 8" "(0x00FF00 :: u32) = push_bit 8 (mask 8)"
    "(0xFF0000 :: u32) = push_bit 16 (mask 8)"
    by (simp_all add: mask_eq_exp_minus_1)
  have h: "\<not> bit w (8 + n)" "\<not> bit w (16 + n)" for w :: u8 and n
    using bit_imp_le_length [of w "8 + n"] bit_imp_le_length [of w "16 + n"] by auto
  show "GetLimit (Config l i d) = l"
    unfolding GetLimit_def Config_def m by (rule bit_word_eqI) (simp add: bit_simps)
  show "GetIncrement (Config l i d) = i"
    unfolding GetIncrement_def Config_def m by (rule bit_word_eqI) (simp add: bit_simps h)
  show "GetDecrement (Config l i d) = d"
    unfolding GetDecrement_def Config_def m by (rule bit_word_eqI) (simp add: bit_simps h)
qed

section \<open>Saturating counters\<close>

definition counter :: "u16 list \<Rightarrow> device \<Rightarrow> nat" where
  "counter cs d = unat (cs ! unat d)"

definition counters_wf :: "u16 list \<Rightarrow> bool" where
  "counters_wf cs \<longleftrightarrow> length cs = MaxDevices \<and> (\<forall>c \<in> set cs. unat c \<le> 255)"

lemma counters_wf_nth: "counters_wf cs \<Longrightarrow> unat d < MaxDevices \<Longrightarrow> counter cs d \<le> 255"
  by (simp add: counters_wf_def counter_def)

lemma counters_wf_update:
  "counters_wf cs \<Longrightarrow> unat v \<le> 255 \<Longrightarrow> counters_wf (cs[i := v])"
  by (auto simp: counters_wf_def dest: set_update_subset_insert [THEN subsetD])

lemma small_sint: "unat (c :: u16) \<le> 255 \<Longrightarrow> sint c = int (unat c)"
proof -
  assume "unat c \<le> 255"
  then have "uint c \<le> 255" using uint_nat [of c] by linarith
  then show ?thesis by (subst sint_small) simp_all
qed

lemma counter_eqI:
  fixes v :: u16
  assumes "v = of_nat n" and "n \<le> 255"
  shows "unat v = n"
  using assms by (simp add: unat_of_nat)

lemma Failure_counters:
  assumes wf: "counters_wf cs" and d: "unat d < MaxDevices"
  obtains cs' where
    "ErrorCounting_Failure cfg cb d cs = Some (cs',
       if uint (ec_limit cfg) \<le> int (counter cs d) + uint (ec_increment cfg) \<and> cb
       then Some (of_nat (counter cs' d)) else None)"
    and "cs' = cs[unat d := of_nat (min 255 (counter cs d + unat (ec_increment cfg)))]"
    and "counters_wf cs'"
proof -
  let ?i = "unat d" and ?inc = "ec_increment cfg" and ?c = "counter cs d"
  define v where "v = (of_nat (min 255 (?c + unat ?inc)) :: u16)"
  have len: "?i < length cs" using wf d by (simp add: counters_wf_def)
  have c: "?c \<le> 255" using wf d by (rule counters_wf_nth)
  have prev: "sint (cs ! ?i) = int ?c" using c by (simp add: small_sint counter_def)
  have ci: "of_nat ?c = cs ! ?i" by (simp add: counter_def)
  have v255: "unat v \<le> 255" unfolding v_def by (subst counter_eqI [OF refl]) simp_all
  have val: "(if int ?c + uint ?inc - 255 > 0 then of_nat ?c + ucast ?inc - of_int (int ?c + uint ?inc - 255)
      else of_nat ?c + ucast ?inc) = v"
  proof (cases "?c + unat ?inc \<le> 255")
    case True
    then have "\<not> int ?c + uint ?inc - 255 > 0" unfolding uint_nat by linarith
    then show ?thesis using True by (simp add: v_def min_def)
  next
    case False
    then have pos: "int ?c + uint ?inc - 255 > 0" unfolding uint_nat by linarith
    show ?thesis using False pos by (simp add: v_def min_def)
  qed
  have "ErrorCounting_Failure cfg cb d cs = Some (cs[?i := v],
      if uint (ec_limit cfg) \<le> int ?c + uint ?inc \<and> cb
      then Some (of_nat (counter (cs[?i := v]) d)) else None)"
    unfolding ErrorCounting_Failure_def Let_def prev val [symmetric]
    using len by (simp add: ci) (simp add: counter_def)
  then show thesis using that counters_wf_update [OF wf v255] unfolding v_def by blast
qed

lemma Success_counters:
  assumes wf: "counters_wf cs" and d: "unat d < MaxDevices"
  shows "ErrorCounting_Success cfg d cs
      = Some (cs[unat d := of_nat (counter cs d - unat (ec_decrement cfg))])"
    and "counters_wf (cs[unat d := of_nat (counter cs d - unat (ec_decrement cfg))])"
proof -
  let ?i = "unat d" and ?dec = "ec_decrement cfg" and ?c = "counter cs d"
  have len: "?i < length cs" using wf d by (simp add: counters_wf_def)
  have c: "?c \<le> 255" using wf d by (rule counters_wf_nth)
  have prev: "sint (cs ! ?i) = int ?c" using c by (simp add: small_sint counter_def)
  have ci: "of_nat ?c = cs ! ?i" by (simp add: counter_def)
  have val: "(if int ?c < uint ?dec then of_nat ?c - ucast ?dec + of_int (uint ?dec - int ?c)
      else of_nat ?c - ucast ?dec) = (of_nat (?c - unat ?dec) :: u16)"
  proof (cases "?c < unat ?dec")
    case True
    have "int ?c < uint ?dec" using True unfolding uint_nat by linarith
    then show ?thesis using True by simp
  next
    case False
    then have "\<not> int ?c < uint ?dec" unfolding uint_nat by linarith
    then show ?thesis using False by (simp add: of_nat_diff)
  qed
  show "ErrorCounting_Success cfg d cs = Some (cs[?i := of_nat (?c - unat ?dec)])"
    unfolding ErrorCounting_Success_def Let_def prev val [symmetric]
    using len by (simp add: ci)
  show "counters_wf (cs[?i := of_nat (?c - unat ?dec)])"
    using c by (intro counters_wf_update [OF wf]) (simp add: unat_of_nat)
qed

section \<open>The counting contract\<close>

text \<open>
  What a driver may rely on when it reports results through \<open>IErrorCounting\<close>: failures and
  successes of a device move its own counter by the configured steps, saturating at 255 and 0,
  leave the counters of the other devices and the steps alone, and keep the invariant.
\<close>

locale error_counting =
  fixes inv :: "'s \<Rightarrow> bool"
    and current :: "'s \<Rightarrow> device \<Rightarrow> nat"
    and inc :: "'s \<Rightarrow> device \<Rightarrow> nat"
    and dec :: "'s \<Rightarrow> device \<Rightarrow> nat"
    and failure :: "device \<Rightarrow> 's \<Rightarrow> 's option"
    and success :: "device \<Rightarrow> 's \<Rightarrow> 's option"
  assumes bounded: "inv s \<Longrightarrow> unat d < MaxDevices \<Longrightarrow> current s d \<le> 255"
    and failure_step: "inv s \<Longrightarrow> unat d < MaxDevices \<Longrightarrow>
      \<exists>s'. failure d s = Some s' \<and> inv s' \<and> inc s' = inc s \<and> dec s' = dec s \<and>
        (\<forall>e. unat e < MaxDevices \<longrightarrow>
          current s' e = (if e = d then min 255 (current s d + inc s d) else current s e))"
    and success_step: "inv s \<Longrightarrow> unat d < MaxDevices \<Longrightarrow>
      \<exists>s'. success d s = Some s' \<and> inv s' \<and> inc s' = inc s \<and> dec s' = dec s \<and>
        (\<forall>e. unat e < MaxDevices \<longrightarrow>
          current s' e = (if e = d then current s d - dec s d else current s e))"
begin

definition report :: "device \<times> bool \<Rightarrow> 's \<Rightarrow> 's option" where
  "report r s = (if snd r then success (fst r) s else failure (fst r) s)"

primrec reports :: "(device \<times> bool) list \<Rightarrow> 's \<Rightarrow> 's option" where
  "reports [] s = Some s"
| "reports (r # rs) s = Option.bind (report r s) (reports rs)"

definition move :: "nat \<Rightarrow> nat \<Rightarrow> bool \<Rightarrow> nat \<Rightarrow> nat" where
  "move i j ok c = (if ok then c - j else min 255 (c + i))"

lemma report_step:
  assumes "inv s" and "unat d < MaxDevices"
  obtains s' where "report (d, ok) s = Some s'" and "inv s'" and "inc s' = inc s"
    and "dec s' = dec s" and "\<And>e. unat e < MaxDevices \<Longrightarrow>
      current s' e = (if e = d then move (inc s d) (dec s d) ok (current s d) else current s e)"
  using failure_step [OF assms] success_step [OF assms] that
  by (cases ok) (auto simp: report_def move_def)

text \<open>Any interleaving of reports moves each counter by that device's own results only.\<close>

lemma reports_run:
  assumes "inv s" and "\<forall>r \<in> set rs. unat (fst r) < MaxDevices"
  shows "\<exists>s'. reports rs s = Some s' \<and> inv s' \<and>
    (\<forall>e. unat e < MaxDevices \<longrightarrow>
      current s' e = fold (move (inc s e) (dec s e)) (map snd (filter (\<lambda>r. fst r = e) rs)) (current s e))"
  using assms
proof (induction rs arbitrary: s)
  case (Cons r rs)
  obtain d ok where r: "r = (d, ok)" by (cases r)
  then have d: "unat d < MaxDevices" using Cons.prems by simp
  obtain s' where s': "report (d, ok) s = Some s'" "inv s'" "inc s' = inc s" "dec s' = dec s"
    "\<And>e. unat e < MaxDevices \<Longrightarrow>
      current s' e = (if e = d then move (inc s d) (dec s d) ok (current s d) else current s e)"
    by (rule report_step [OF Cons.prems(1) d, of ok]) blast
  from Cons.IH [OF s'(2)] Cons.prems(2) obtain s'' where s'': "reports rs s' = Some s''" "inv s''"
    "\<forall>e. unat e < MaxDevices \<longrightarrow> current s'' e
       = fold (move (inc s e) (dec s e)) (map snd (filter (\<lambda>r. fst r = e) rs)) (current s' e)"
    by (auto simp: s'(3,4))
  then show ?case using s'(1,5) by (auto simp: r)
qed simp

lemma move_failures: "c \<le> 255 \<Longrightarrow> (move i j False ^^ n) c = min 255 (c + n * i)"
  by (induction n) (auto simp: move_def min_def)

lemma move_successes: "(move i j True ^^ n) c = c - n * j"
  by (induction n) (auto simp: move_def)

lemma reports_failures:
  assumes "inv s" and "unat d < MaxDevices"
  shows "\<exists>s'. reports (replicate n (d, False)) s = Some s' \<and> inv s' \<and>
    current s' d = min 255 (current s d + n * inc s d)"
proof -
  have m: "map snd (filter (\<lambda>r. fst r = d) (replicate n (d, False))) = replicate n False"
    by (induction n) auto
  from reports_run [OF assms(1), of "replicate n (d, False)"] assms show ?thesis
    by (auto simp: m move_failures [OF bounded])
qed

end

section \<open>FDIR meets the contract\<close>

definition fdir_wf :: "fdir \<Rightarrow> bool" where
  "fdir_wf f \<longleftrightarrow> counters_wf (fd_counters f) \<and> length (fd_configuration f) = MaxDevices"

definition fdir_current :: "fdir \<Rightarrow> device \<Rightarrow> nat" where
  "fdir_current f d = counter (fd_counters f) d"

definition fdir_inc :: "fdir \<Rightarrow> device \<Rightarrow> nat" where
  "fdir_inc f d = unat (FDIR_Increment f d)"

definition fdir_dec :: "fdir \<Rightarrow> device \<Rightarrow> nat" where
  "fdir_dec f d = unat (FDIR_Decrement f d)"

definition fdir_masks :: "fdir \<Rightarrow> device \<Rightarrow> bool" where
  "fdir_masks f d \<longleftrightarrow> bit (fd_masked f) (unat d)"

lemma masked_bit:
  fixes m :: u16
  assumes "i < MaxDevices"
  shows "m AND push_bit i 1 = push_bit i 1 \<longleftrightarrow> bit m i"
proof
  assume "m AND push_bit i 1 = push_bit i 1"
  then have "bit (m AND push_bit i 1) i = bit (push_bit i 1 :: u16) i" by (rule arg_cong)
  then show "bit m i" using assms by (simp add: bit_simps MaxDevices_def)
next
  assume "bit m i"
  then show "m AND push_bit i 1 = push_bit i 1" by (intro bit_word_eqI) (auto simp: bit_simps)
qed

lemma FDIR_Failure_step:
  assumes wf: "fdir_wf f" and d: "unat d < MaxDevices"
  obtains f' where "FDIR_Failure d f = Some f'" and "fdir_wf f'"
    and "fd_configuration f' = fd_configuration f" and "fd_handler f' = fd_handler f"
    and "fd_masked f' = fd_masked f"
    and "fd_counters f' = (fd_counters f)[unat d := of_nat (min 255 (fdir_current f d + fdir_inc f d))]"
    and "fd_power_cycles f' = fd_power_cycles f +
      of_bool (unat (FDIR_Limit f d) \<le> fdir_current f d + fdir_inc f d
        \<and> fd_handler f \<and> \<not> fdir_masks f d)"
proof -
  obtain cs where cs: "ErrorCounting_Failure (fdir_config f d) (fd_handler f) d (fd_counters f)
      = Some (cs, if uint (FDIR_Limit f d) \<le> int (counter (fd_counters f) d) + uint (FDIR_Increment f d)
                     \<and> fd_handler f then Some (of_nat (counter cs d)) else None)"
    "cs = (fd_counters f)[unat d := of_nat (min 255 (counter (fd_counters f) d + unat (FDIR_Increment f d)))]"
    "counters_wf cs"
    using Failure_counters [of "fd_counters f" d "fdir_config f d" "fd_handler f"] wf d
    by (auto simp: fdir_wf_def fdir_config_def)
  have lim: "uint (FDIR_Limit f d) \<le> int (counter (fd_counters f) d) + uint (FDIR_Increment f d)
      \<longleftrightarrow> unat (FDIR_Limit f d) \<le> fdir_current f d + fdir_inc f d"
    unfolding uint_nat fdir_current_def fdir_inc_def by linarith
  define f1 where "f1 = f\<lparr>fd_counters := cs\<rparr>"
  define f' where "f' = (if unat (FDIR_Limit f d) \<le> fdir_current f d + fdir_inc f d \<and> fd_handler f
    then FDIR_LimitReached d (of_nat (counter cs d)) f1 else f1)"
  have "FDIR_Failure d f = Some f'"
    unfolding FDIR_Failure_def cs(1) lim f'_def f1_def by simp
  moreover have "fdir_wf f1" using wf cs(3) by (simp add: fdir_wf_def f1_def)
  moreover have "FDIR_LimitReached d n f1 =
      (if fdir_masks f d then f1 else f1\<lparr>fd_power_cycles := Suc (fd_power_cycles f1)\<rparr>)" for n
    unfolding FDIR_LimitReached_def masked_bit [OF d] by (simp add: fdir_masks_def f1_def)
  ultimately show thesis
    using cs(2) by (intro that [of f'])
      (auto simp: f'_def f1_def fdir_wf_def fdir_current_def fdir_inc_def)
qed

lemma FDIR_Success_step:
  assumes wf: "fdir_wf f" and d: "unat d < MaxDevices"
  shows "FDIR_Success d f = Some (f\<lparr>fd_counters :=
      (fd_counters f)[unat d := of_nat (fdir_current f d - fdir_dec f d)]\<rparr>)"
    and "fdir_wf (f\<lparr>fd_counters :=
      (fd_counters f)[unat d := of_nat (fdir_current f d - fdir_dec f d)]\<rparr>)"
  using Success_counters [of "fd_counters f" d "fdir_config f d"] wf d
  by (simp_all add: fdir_wf_def FDIR_Success_def fdir_config_def fdir_current_def fdir_dec_def)

lemma counter_update:
  fixes d e :: device
  assumes "length cs = MaxDevices" and "unat d < MaxDevices" and "unat e < MaxDevices" and "n \<le> 255"
  shows "counter (cs[unat d := of_nat n]) e = (if e = d then n else counter cs e)"
proof -
  have "unat e = unat d \<longleftrightarrow> e = d" by (simp add: word_unat_eq_iff)
  then show ?thesis using assms by (auto simp: counter_def nth_list_update counter_eqI [OF refl])
qed

interpretation fd: error_counting fdir_wf fdir_current fdir_inc fdir_dec FDIR_Failure FDIR_Success
proof
  fix f and d :: device
  assume wf: "fdir_wf f" and d: "unat d < MaxDevices"
  show c: "fdir_current f d \<le> 255"
    using wf d by (simp add: fdir_wf_def fdir_current_def counters_wf_nth)
  have len: "length (fd_counters f) = MaxDevices" using wf by (simp add: fdir_wf_def counters_wf_def)
  obtain f' where f': "FDIR_Failure d f = Some f'" "fdir_wf f'"
    "fd_configuration f' = fd_configuration f"
    "fd_counters f' = (fd_counters f)[unat d := of_nat (min 255 (fdir_current f d + fdir_inc f d))]"
    by (rule FDIR_Failure_step [OF wf d]) blast
  then show "\<exists>s'. FDIR_Failure d f = Some s' \<and> fdir_wf s' \<and> fdir_inc s' = fdir_inc f \<and>
      fdir_dec s' = fdir_dec f \<and> (\<forall>e. unat e < MaxDevices \<longrightarrow>
      fdir_current s' e = (if e = d then min 255 (fdir_current f d + fdir_inc f d) else fdir_current f e))"
    using counter_update [OF len d] by (intro exI [of _ f'])
      (auto simp: fdir_inc_def fdir_dec_def FDIR_Increment_def FDIR_Decrement_def fdir_current_def)
  show "\<exists>s'. FDIR_Success d f = Some s' \<and> fdir_wf s' \<and> fdir_inc s' = fdir_inc f \<and>
      fdir_dec s' = fdir_dec f \<and> (\<forall>e. unat e < MaxDevices \<longrightarrow>
      fdir_current s' e = (if e = d then fdir_current f d - fdir_dec f d else fdir_current f e))"
    using FDIR_Success_step [OF wf d] counter_update [OF len d] c
    by (auto simp: fdir_inc_def fdir_dec_def FDIR_Increment_def FDIR_Decrement_def fdir_current_def)
qed

section \<open>Runs of the flight configuration\<close>

primrec report_all :: "(device \<times> bool) list \<Rightarrow> fdir \<Rightarrow> fdir option" where
  "report_all [] f = Some f"
| "report_all (r # rs) f = Option.bind (report_device (snd r) (fst r) f) (report_all rs)"

lemma report_all_reports: "report_all rs f = fd.reports rs f"
proof (induction rs arbitrary: f)
  case (Cons r rs)
  have "report_device (snd r) (fst r) f = fd.report r f"
    by (simp add: report_device_def fd.report_def)
  moreover have "report_all rs = fd.reports rs" using Cons.IH by blast
  ultimately show ?case by simp
qed simp

definition saturate :: "fdir \<Rightarrow> device \<Rightarrow> bool \<Rightarrow> nat \<Rightarrow> nat" where
  "saturate f d ok c = (if ok then c - fdir_dec f d else min 255 (c + fdir_inc f d))"

text \<open>
  C7. Whatever the order in which the devices report, every counter is its own results added up,
  saturating at 255 and at 0, and no report is lost or faults.
\<close>
theorem report_all_counts:
  assumes "fdir_wf f" and "\<forall>r \<in> set rs. unat (fst r) < MaxDevices"
  shows "\<exists>f'. report_all rs f = Some f' \<and> fdir_wf f' \<and>
    (\<forall>e. unat e < MaxDevices \<longrightarrow> fdir_current f' e =
       fold (saturate f e) (map snd (filter (\<lambda>r. fst r = e) rs)) (fdir_current f e))"
proof -
  have "saturate f e = fd.move (fdir_inc f e) (fdir_dec f e)" for e
    by (intro ext) (simp add: saturate_def fd.move_def)
  then show ?thesis using fd.reports_run [OF assms] by (simp add: report_all_reports)
qed

lemma fdir_wf_new: "fdir_wf (FDIR_Initalize (FDIR_new m))"
  by (simp add: fdir_wf_def FDIR_Initalize_def FDIR_new_def counters_wf_def ErrorCounting_new_def)

lemma report_all_counts_witness:
  "\<exists>f'. report_all [(2, False), (3, True), (2, False)] (FDIR_Initalize (FDIR_new 0)) = Some f' \<and>
     fdir_wf f' \<and> (\<forall>e. unat e < MaxDevices \<longrightarrow> fdir_current f' e =
       fold (saturate (FDIR_Initalize (FDIR_new 0)) e)
         (map snd (filter (\<lambda>r. fst r = e) [(2, False), (3, True), (2, False)]))
         (fdir_current (FDIR_Initalize (FDIR_new 0)) e))"
  by (rule report_all_counts [OF fdir_wf_new]) (simp add: MaxDevices_def)

lemma limit_le_255: "unat (FDIR_Limit f d) \<le> 255"
  using unsigned_less [of "FDIR_Limit f d", where ?'a = nat] by simp

lemma fdir_failures_run:
  assumes "fdir_wf f" and "unat d < MaxDevices"
  shows "\<exists>f'. report_all (replicate n (d, False)) f = Some f' \<and>
    (fd_power_cycles f < fd_power_cycles f' \<longleftrightarrow> fd_handler f \<and> \<not> fdir_masks f d \<and> 0 < n \<and>
       unat (FDIR_Limit f d) \<le> fdir_current f d + n * fdir_inc f d) \<and>
    fd_power_cycles f \<le> fd_power_cycles f'"
  using assms(1)
proof (induction n arbitrary: f)
  case (Suc n)
  obtain g where g: "FDIR_Failure d f = Some g" "fdir_wf g"
    "fd_configuration g = fd_configuration f" "fd_handler g = fd_handler f" "fd_masked g = fd_masked f"
    "fd_counters g = (fd_counters f)[unat d := of_nat (min 255 (fdir_current f d + fdir_inc f d))]"
    "fd_power_cycles g = fd_power_cycles f + of_bool (unat (FDIR_Limit f d)
        \<le> fdir_current f d + fdir_inc f d \<and> fd_handler f \<and> \<not> fdir_masks f d)"
    by (rule FDIR_Failure_step [OF Suc.prems assms(2)])
  have same: "FDIR_Limit g d = FDIR_Limit f d" "fdir_inc g d = fdir_inc f d"
    "fdir_masks g d = fdir_masks f d"
    using g(3,5) by (simp_all add: FDIR_Limit_def fdir_inc_def FDIR_Increment_def fdir_masks_def)
  have cur: "fdir_current g d = min 255 (fdir_current f d + fdir_inc f d)"
    using Suc.prems g(6) assms(2) counter_update [of "fd_counters f" d d]
    by (simp add: fdir_wf_def counters_wf_def fdir_current_def)
  obtain f' where f': "report_all (replicate n (d, False)) g = Some f'"
    "fd_power_cycles g < fd_power_cycles f' \<longleftrightarrow> fd_handler f \<and> \<not> fdir_masks f d \<and> 0 < n \<and>
       unat (FDIR_Limit f d) \<le> min 255 (fdir_current f d + fdir_inc f d) + n * fdir_inc f d"
    "fd_power_cycles g \<le> fd_power_cycles f'"
    using Suc.IH [OF g(2)] by (auto simp: same cur g(4))
  have "unat (FDIR_Limit f d) \<le> min 255 (fdir_current f d + fdir_inc f d) + n * fdir_inc f d
      \<longleftrightarrow> unat (FDIR_Limit f d) \<le> fdir_current f d + Suc n * fdir_inc f d"
    using limit_le_255 [of f d] by (simp add: min_def add.assoc)
  moreover have "unat (FDIR_Limit f d) \<le> fdir_current f d + fdir_inc f d \<Longrightarrow>
      unat (FDIR_Limit f d) \<le> fdir_current f d + Suc n * fdir_inc f d"
    by simp
  ultimately have "fd_power_cycles f < fd_power_cycles f' \<longleftrightarrow> fd_handler f \<and> \<not> fdir_masks f d \<and>
       unat (FDIR_Limit f d) \<le> fdir_current f d + Suc n * fdir_inc f d"
    using f'(2,3) g(7) by (cases "n = 0") (auto simp: of_bool_def split: if_splits)
  moreover have "report_all (replicate (Suc n) (d, False)) f = Some f'"
    using f'(1) by (simp add: report_device_def g(1))
  ultimately show ?case using f'(3) g(7) by (intro exI [of _ f']) simp
qed simp

text \<open>
  A run of consecutive failures power cycles the satellite exactly when the callback is
  installed, the device is not masked and the accumulated count reaches the configured limit.
\<close>
theorem FDIR_escalates:
  assumes "fdir_wf f" and "unat d < MaxDevices"
  shows "\<exists>f'. report_all (replicate n (d, False)) f = Some f' \<and>
    (fd_power_cycles f' > fd_power_cycles f \<longleftrightarrow> fd_handler f \<and> \<not> fdir_masks f d \<and> 0 < n \<and>
       unat (FDIR_Limit f d) \<le> fdir_current f d + n * fdir_inc f d)"
  using fdir_failures_run [OF assms] by blast

lemma FDIR_escalates_witness:
  "\<exists>f'. report_all (replicate 26 (3, False)) (FDIR_Initalize (FDIR_new 1)) = Some f' \<and>
    (fd_power_cycles f' > fd_power_cycles (FDIR_Initalize (FDIR_new 1)) \<longleftrightarrow>
       fd_handler (FDIR_Initalize (FDIR_new 1)) \<and> \<not> fdir_masks (FDIR_Initalize (FDIR_new 1)) 3 \<and>
       0 < (26 :: nat) \<and> unat (FDIR_Limit (FDIR_Initalize (FDIR_new 1)) 3)
         \<le> fdir_current (FDIR_Initalize (FDIR_new 1)) 3 + 26 * fdir_inc (FDIR_Initalize (FDIR_new 1)) 3)"
  by (rule FDIR_escalates [OF fdir_wf_new]) (simp add: MaxDevices_def)

lemma fold_copy:
  assumes "length xs = length ys" and "n \<le> length ys"
  shows "fold (\<lambda>i c. c[i := xs ! i]) [0..<n] ys = take n xs @ drop n ys"
  using assms(2)
proof (induction n)
  case (Suc n)
  have "drop n ys = ys ! n # drop (Suc n) ys" using Suc.prems by (simp add: Cons_nth_drop_Suc)
  with Suc assms(1) show ?case by (simp add: list_update_append take_Suc_conv_app_nth)
qed simp

lemma FDIR_GetConfig_eq: "fdir_wf f \<Longrightarrow> FDIR_GetConfig f = fd_configuration f"
  unfolding FDIR_GetConfig_def by (subst fold_copy) (simp_all add: fdir_wf_def)

text \<open>
  Setting the configuration of a device is read back by the three accessors, and loading a
  saved configuration restores it exactly.
\<close>
theorem FDIR_config_roundtrip:
  assumes "fdir_wf f" and "fdir_wf g" and "FDIR_Set d limit increment decrement f = Some f'"
  shows "FDIR_Limit f' d = limit \<and> FDIR_Increment f' d = increment \<and>
    FDIR_Decrement f' d = decrement \<and>
    fd_configuration (FDIR_LoadConfig (FDIR_GetConfig f') g) = fd_configuration f'"
proof -
  have d: "unat d < length (fd_configuration f)"
    and f': "f' = f\<lparr>fd_configuration := (fd_configuration f)[unat d := Config limit increment decrement]\<rparr>"
    using assms(3) by (auto simp: FDIR_Set_def split: if_splits)
  then have acc: "FDIR_Limit f' d = limit" "FDIR_Increment f' d = increment" "FDIR_Decrement f' d = decrement"
    by (simp_all add: FDIR_Limit_def FDIR_Increment_def FDIR_Decrement_def config_bytes)
  have "fdir_wf f'" using assms(1) f' by (simp add: fdir_wf_def)
  then show ?thesis
    using assms(2) acc by (simp add: FDIR_LoadConfig_def FDIR_GetConfig_eq fold_copy fdir_wf_def)
qed

lemma FDIR_config_roundtrip_witness:
  "FDIR_Limit ((FDIR_new 0)\<lparr>fd_configuration := (fd_configuration (FDIR_new 0))[13 := Config 9 8 7]\<rparr>) 13 = 9"
proof -
  have "fdir_wf (FDIR_new 0)"
    by (simp add: fdir_wf_def FDIR_new_def counters_wf_def ErrorCounting_new_def)
  moreover have "FDIR_Set 13 9 8 7 (FDIR_new 0)
      = Some ((FDIR_new 0)\<lparr>fd_configuration := (fd_configuration (FDIR_new 0))[13 := Config 9 8 7]\<rparr>)"
    by (simp add: FDIR_Set_def FDIR_new_def MaxDevices_def)
  ultimately show ?thesis
    using FDIR_config_roundtrip [of "FDIR_new 0" "FDIR_new 0" 13 9 8 7] by blast
qed

section \<open>Concurrent reports\<close>

text \<open>
  Drivers run in several tasks, and \<open>Failure\<close> is two atomic steps: \<open>fetch_add\<close> and, when the sum
  passed 255, the subtraction of the overflow computed from the value the first step returned.
  A state is the counter of one device and, for each task, the subtraction it still owes.
\<close>

record race =
  rc_counter :: u16
  rc_owed :: "nat \<Rightarrow> int option"

inductive race_step :: "u8 \<Rightarrow> race \<Rightarrow> race \<Rightarrow> bool" for increment :: u8 where
  fetch_add: "rc_owed r t = None \<Longrightarrow> overflow = (sint (rc_counter r) + uint increment) - 255 \<Longrightarrow>
    race_step increment r \<lparr>rc_counter = rc_counter r + ucast increment,
      rc_owed = (rc_owed r)(t := if overflow > 0 then Some overflow else None)\<rparr>"
| subtract: "rc_owed r t = Some overflow \<Longrightarrow>
    race_step increment r \<lparr>rc_counter = rc_counter r - of_int overflow,
      rc_owed = (rc_owed r)(t := None)\<rparr>"

inductive_cases race_stepE: "race_step increment r r'"

definition race_init :: "u16 \<Rightarrow> race" where
  "race_init c = \<lparr>rc_counter = c, rc_owed = Map.empty\<rparr>"

definition quiescent :: "race \<Rightarrow> bool" where
  "quiescent r \<longleftrightarrow> rc_owed r = Map.empty"

text \<open>
  Two overlapping failures of a saturated device can leave its counter below the maximum:
  with the default increment the run ends, with no task inside the method, at 250.
\<close>
theorem race_loses_count:
  "\<exists>r. (race_step 5)\<^sup>*\<^sup>* (race_init 255) r \<and> quiescent r \<and> rc_counter r = 250"
proof -
  let ?r1 = "\<lparr>rc_counter = 260 :: u16, rc_owed = [0 \<mapsto> 5 :: int]\<rparr>"
  let ?r2 = "\<lparr>rc_counter = 265 :: u16, rc_owed = [0 \<mapsto> 5, 1 \<mapsto> 10 :: int]\<rparr>"
  let ?r3 = "\<lparr>rc_counter = 260 :: u16, rc_owed = [1 \<mapsto> 10 :: int]\<rparr>"
  let ?r4 = "\<lparr>rc_counter = 250 :: u16, rc_owed = (Map.empty :: nat \<Rightarrow> int option)\<rparr>"
  have "race_step 5 (race_init 255) ?r1"
    using race_step.fetch_add [of "race_init 255" 0 5 5] by (simp add: race_init_def)
  moreover have "race_step 5 ?r1 ?r2"
    using race_step.fetch_add [of ?r1 1 10 5] by (simp add: fun_upd_twist)
  moreover have "race_step 5 ?r2 ?r3"
  proof -
    have "([0 \<mapsto> 5, 1 \<mapsto> 10 :: int])(0 := None) = [1 :: nat \<mapsto> 10]" by auto
    then show ?thesis using race_step.subtract [of ?r2 0 5 5] by simp
  qed
  moreover have "race_step 5 ?r3 ?r4"
    using race_step.subtract [of ?r3 1 10 5] by simp
  ultimately have "(race_step 5)\<^sup>*\<^sup>* (race_init 255) ?r4"
    by (meson converse_rtranclp_into_rtranclp rtranclp.rtrancl_refl)
  then show ?thesis by (intro exI [of _ ?r4]) (simp add: quiescent_def)
qed

end
