(* ===== verification/State_Parts.thy ===== *)
theory State_Parts
  imports Byte_Reader Byte_Writer Error_Counter
begin

text \<open>
  The parts of the persistent state (libs/state): what each serialises and how it is read back,
  and the contract between a part and the container, the locale \<open>state_part\<close>. A part is written
  by a method on the writer and read by a method that updates an existing object.
\<close>

section \<open>The contract of a part\<close>

locale state_part =
  fixes size :: nat
    and ok :: "'a \<Rightarrow> bool"
    and repr :: "'a \<Rightarrow> bytes"
    and put :: "'a \<Rightarrow> writer \<Rightarrow> writer"
    and get :: "reader \<Rightarrow> 'a \<Rightarrow> 'a \<times> reader"
  assumes repr_length: "ok x \<Longrightarrow> length (repr x) = size"
    and write_repr: "ok x \<Longrightarrow> writer_wf w \<Longrightarrow> fits size w \<Longrightarrow> put x w = advance (repr x) w"
    and read_repr: "ok x \<Longrightarrow> ok y \<Longrightarrow> reader_wf r \<Longrightarrow> avail size r \<Longrightarrow>
      take size (rest r) = repr x \<Longrightarrow> get r y = (x, consume size r)"
begin

text \<open>Reading what a part wrote at the same place gives the part back.\<close>

lemma write_read:
  assumes "ok x" and "ok y" and "0 < size" and "size < 2 ^ 15"
  shows "fst (get (Reader_Initialize (w_buf (put x (Writer_Initialize (replicate size 0))))) y) = x"
proof -
  let ?w = "Writer_Initialize (replicate size (0 :: u8))"
  have w: "writer_wf ?w" "fits size ?w"
    using assms(3,4) by (simp_all add: writer_wf_def fits_def Writer_Initialize_def Writer_Reset_def)
  have buf: "w_buf (put x ?w) = repr x"
    using repr_length [OF assms(1)] unfolding write_repr [OF assms(1) w]
    by (simp add: advance_def put_at_def Writer_Initialize_def Writer_Reset_def)
  have "repr x \<noteq> []" using repr_length [OF assms(1)] assms(3) by auto
  then show ?thesis
    unfolding buf using repr_length [OF assms(1)] assms
    by (subst read_repr [of x]) simp_all
qed

end

text \<open>Two parts in sequence, as the variadic \<open>Write\<close> and \<open>Read\<close> of the container recurse.\<close>

definition write_then ::
  "('a \<Rightarrow> writer \<Rightarrow> writer) \<Rightarrow> ('b \<Rightarrow> writer \<Rightarrow> writer) \<Rightarrow> 'a \<times> 'b \<Rightarrow> writer \<Rightarrow> writer" where
  "write_then f g p w = g (snd p) (f (fst p) w)"

definition read_then ::
  "(reader \<Rightarrow> 'a \<Rightarrow> 'a \<times> reader) \<Rightarrow> (reader \<Rightarrow> 'b \<Rightarrow> 'b \<times> reader) \<Rightarrow>
     reader \<Rightarrow> 'a \<times> 'b \<Rightarrow> ('a \<times> 'b) \<times> reader" where
  "read_then f g r p =
     (let (x, r1) = f r (fst p); (y, r2) = g r1 (snd p) in ((x, y), r2))"

definition repr_then :: "('a \<Rightarrow> bytes) \<Rightarrow> ('b \<Rightarrow> bytes) \<Rightarrow> 'a \<times> 'b \<Rightarrow> bytes" where
  "repr_then f g p = f (fst p) @ g (snd p)"

lemma parts_then:
  assumes f: "state_part m oa ra pa ga" and g: "state_part n ob rb pb gb"
  shows "state_part (m + n) (\<lambda>p. oa (fst p) \<and> ob (snd p)) (repr_then ra rb) (write_then pa pb)
    (read_then ga gb)"
proof
  fix p assume ok: "oa (fst p) \<and> ob (snd p)"
  have len: "length (ra (fst p)) = m" "length (rb (snd p)) = n"
    using ok state_part.repr_length [OF f] state_part.repr_length [OF g] by auto
  then show "length (repr_then ra rb p) = m + n" by (simp add: repr_then_def)
  { fix w assume w: "writer_wf w" "fits (m + n) w"
    have fm: "fits m w" using w(2) by (rule fits_mono) simp
    have "pa (fst p) w = advance (ra (fst p)) w"
      using ok w(1) fm by (intro state_part.write_repr [OF f]) auto
    moreover have "pb (snd p) (advance (ra (fst p)) w) = advance (rb (snd p)) (advance (ra (fst p)) w)"
      using ok w fm len by (intro state_part.write_repr [OF g]) (auto simp: fits_advance)
    ultimately show "write_then pa pb p w = advance (repr_then ra rb p) w"
      using w len by (simp add: write_then_def repr_then_def advance_advance) }
  { fix q r assume okq: "oa (fst q) \<and> ob (snd q)" and r: "reader_wf r" "avail (m + n) r"
      "take (m + n) (rest r) = repr_then ra rb p"
    have av: "avail m r" using r(2) by (rule avail_mono) simp
    have t: "take m (rest r) = ra (fst p)" "take n (drop m (rest r)) = rb (snd p)"
      using arg_cong [OF r(3), of "take m"] arg_cong [OF r(3), of "drop m"] len
      by (simp_all add: repr_then_def min_def take_drop add.commute)
    have "ga r (fst q) = (fst p, consume m r)"
      using ok okq r(1) av t(1) by (intro state_part.read_repr [OF f]) auto
    moreover have "gb (consume m r) (snd q) = (snd p, consume n (consume m r))"
      using ok okq r av t(2) by (intro state_part.read_repr [OF g]) (auto simp: avail_consume rest_consume)
    moreover have "consume n (consume m r) = consume (m + n) r"
      using r av by (simp add: consume_consume)
    ultimately show "read_then ga gb r q = (p, consume (m + n) r)"
      by (simp add: read_then_def) }
qed

section \<open>The parts\<close>

subsection \<open>Antenna configuration and ADCS state\<close>

record AntennaConfiguration =
  isDeploymentDisabled :: bool

definition AntennaConfiguration_default :: AntennaConfiguration where
  "AntennaConfiguration_default = \<lparr>isDeploymentDisabled = False\<rparr>"

definition AntennaConfiguration_Size :: nat where
  "AntennaConfiguration_Size = 1"

definition AntennaConfiguration_Read ::
  "reader \<Rightarrow> AntennaConfiguration \<Rightarrow> AntennaConfiguration \<times> reader" where
  "AntennaConfiguration_Read r c =
     (let (b, r) = Reader_ReadByte r; value = (b \<noteq> 0)
      in (if Reader_Status r then c\<lparr>isDeploymentDisabled := value\<rparr> else c, r))"

definition AntennaConfiguration_Write :: "AntennaConfiguration \<Rightarrow> writer \<Rightarrow> writer" where
  "AntennaConfiguration_Write c w = snd (Writer_WriteByte (of_bool (isDeploymentDisabled c)) w)"

record AdcsState =
  internalDetumblingDisabled :: bool

definition AdcsState_default :: AdcsState where
  "AdcsState_default = \<lparr>internalDetumblingDisabled = False\<rparr>"

definition AdcsState_Size :: nat where
  "AdcsState_Size = 1"

definition AdcsState_Read :: "reader \<Rightarrow> AdcsState \<Rightarrow> AdcsState \<times> reader" where
  "AdcsState_Read r c =
     (let (b, r) = Reader_ReadByte r in (c\<lparr>internalDetumblingDisabled := (b \<noteq> 0)\<rparr>, r))"

definition AdcsState_Write :: "AdcsState \<Rightarrow> writer \<Rightarrow> writer" where
  "AdcsState_Write c w = snd (Writer_WriteByte (of_bool (internalDetumblingDisabled c)) w)"

subsection \<open>Time\<close>

text \<open>\<open>std::chrono::milliseconds\<close> counts in \<open>int64_t\<close>; differences are taken on the integers.\<close>

record TimeState =
  lastMissionTime :: "64 word"
  lastExternalTime :: "64 word"

definition TimeState_default :: TimeState where
  "TimeState_default = \<lparr>lastMissionTime = 0, lastExternalTime = 0\<rparr>"

definition TimeState_Size :: nat where
  "TimeState_Size = 8 + 8"

definition TimeState_Read :: "reader \<Rightarrow> TimeState \<Rightarrow> TimeState \<times> reader" where
  "TimeState_Read r t =
     (let (value, r) = Reader_ReadQuadWordLE r;
          t = t\<lparr>lastMissionTime := value\<rparr>;
          (value, r) = Reader_ReadQuadWordLE r
      in (t\<lparr>lastExternalTime := value\<rparr>, r))"

definition TimeState_Write :: "TimeState \<Rightarrow> writer \<Rightarrow> writer" where
  "TimeState_Write t w =
     (let w = snd (Writer_WriteQuadWordLE (lastMissionTime t) w)
      in snd (Writer_WriteQuadWordLE (lastExternalTime t) w))"

definition TimeState_IsDifferent :: "TimeState \<Rightarrow> TimeState \<Rightarrow> bool" where
  "TimeState_IsDifferent t u =
     (let missionDifference = tdiv (sint (lastMissionTime t) - sint (lastMissionTime u)) 1000;
          externalDifference = tdiv (sint (lastExternalTime t) - sint (lastExternalTime u)) 1000
      in 60 < \<bar>missionDifference\<bar> \<or> 60 < \<bar>externalDifference\<bar>)"

record TimeCorrectionConfiguration =
  missionTimeFactor :: "16 word"
  externalTimeFactor :: "16 word"

definition TimeCorrection_default :: TimeCorrectionConfiguration where
  "TimeCorrection_default = \<lparr>missionTimeFactor = 1, externalTimeFactor = 1\<rparr>"

definition TimeCorrection_Size :: nat where
  "TimeCorrection_Size = 2 + 2"

definition TimeCorrection_Read ::
  "reader \<Rightarrow> TimeCorrectionConfiguration \<Rightarrow> TimeCorrectionConfiguration \<times> reader" where
  "TimeCorrection_Read r c =
     (let (m, r) = Reader_ReadSignedWordLE r;
          (e, r) = Reader_ReadSignedWordLE r
      in (c\<lparr>missionTimeFactor := m, externalTimeFactor := e\<rparr>, r))"

definition TimeCorrection_Write :: "TimeCorrectionConfiguration \<Rightarrow> writer \<Rightarrow> writer" where
  "TimeCorrection_Write c w =
     (let w = snd (Writer_WriteSignedWordLE (missionTimeFactor c) w)
      in snd (Writer_WriteSignedWordLE (externalTimeFactor c) w))"

definition TimeCorrection_Total :: "TimeCorrectionConfiguration \<Rightarrow> int" where
  "TimeCorrection_Total c = sint (missionTimeFactor c) + sint (externalTimeFactor c)"

subsection \<open>Sail, error counters, message\<close>

text \<open>An \<open>enum class : std::uint8_t\<close> that \<open>Read\<close> fills with any byte.\<close>

type_synonym SailOpeningState = u8

definition Sail_Waiting :: SailOpeningState where "Sail_Waiting = 0"
definition Sail_Opening :: SailOpeningState where "Sail_Opening = 1"
definition Sail_OpeningStopped :: SailOpeningState where "Sail_OpeningStopped = 2"

record SailState =
  currentState :: SailOpeningState

definition SailState_default :: SailState where
  "SailState_default = \<lparr>currentState = Sail_Waiting\<rparr>"

definition SailState_Size :: nat where
  "SailState_Size = 1"

definition SailState_Read :: "reader \<Rightarrow> SailState \<Rightarrow> SailState \<times> reader" where
  "SailState_Read r c = (let (b, r) = Reader_ReadByte r in (c\<lparr>currentState := b\<rparr>, r))"

definition SailState_Write :: "SailState \<Rightarrow> writer \<Rightarrow> writer" where
  "SailState_Write c w = snd (Writer_WriteByte (currentState c) w)"

record ErrorCountersConfigState =
  ec_config_words :: "u32 list"

definition ErrorCounters_default :: ErrorCountersConfigState where
  "ErrorCounters_default = \<lparr>ec_config_words =
     replicate MaxDevices (128 OR push_bit 8 5 OR push_bit 16 2)\<rparr>"

definition ErrorCounters_Size :: nat where
  "ErrorCounters_Size = MaxDevices * 4"

fun ErrorCounters_read_loop :: "nat \<Rightarrow> nat \<Rightarrow> reader \<Rightarrow> u32 list \<Rightarrow> u32 list \<times> reader" where
  "ErrorCounters_read_loop 0 i r c = (c, r)"
| "ErrorCounters_read_loop (Suc n) i r c =
     (let (v, r) = Reader_ReadDoubleWordLE r in ErrorCounters_read_loop n (Suc i) r (c[i := v]))"

definition ErrorCounters_Read ::
  "reader \<Rightarrow> ErrorCountersConfigState \<Rightarrow> ErrorCountersConfigState \<times> reader" where
  "ErrorCounters_Read r c =
     (let (ws, r) = ErrorCounters_read_loop MaxDevices 0 r (ec_config_words c)
      in (c\<lparr>ec_config_words := ws\<rparr>, r))"

definition ErrorCounters_Write :: "ErrorCountersConfigState \<Rightarrow> writer \<Rightarrow> writer" where
  "ErrorCounters_Write c w =
     fold (\<lambda>i w. snd (Writer_WriteDoubleWordLE (ec_config_words c ! i) w)) [0..<MaxDevices] w"

text \<open>\<open>ms_interval\<close> is the count of \<open>std::chrono::minutes\<close>, written as one byte.\<close>

record MessageState =
  ms_interval :: "64 word"
  ms_repeatCount :: u8
  ms_message :: bytes

definition MessageLength :: nat where
  "MessageLength = 200"

text \<open>The constructor copies the message over zeros; a longer one runs past the array.\<close>

definition MessageState_new :: "64 word \<Rightarrow> u8 \<Rightarrow> bytes \<Rightarrow> MessageState option" where
  "MessageState_new interval repeatCount message =
     (if length message \<le> MessageLength
      then Some \<lparr>ms_interval = interval, ms_repeatCount = repeatCount,
                 ms_message = put_at 0 message (replicate MessageLength 0)\<rparr>
      else None)"

definition MessageState_Size :: nat where
  "MessageState_Size = 1 + 1 + 200"

definition MessageState_Write :: "MessageState \<Rightarrow> writer \<Rightarrow> writer" where
  "MessageState_Write m w =
     (let w = snd (Writer_WriteByte (ucast (ms_interval m)) w);
          w = snd (Writer_WriteByte (ms_repeatCount m) w)
      in snd (Writer_WriteArray (ms_message m) w))"

definition MessageState_Read :: "reader \<Rightarrow> MessageState \<Rightarrow> MessageState \<times> reader" where
  "MessageState_Read r m =
     (let (i, r) = Reader_ReadByte r;
          (n, r) = Reader_ReadByte r;
          (d, r) = Reader_ReadArray (of_nat MessageLength) r
      in (m\<lparr>ms_interval := ucast i, ms_repeatCount := n,
            ms_message := put_at 0 d (ms_message m)\<rparr>, r))"

section \<open>Every part meets the contract\<close>

definition bool_byte :: "bool \<Rightarrow> u8" where
  "bool_byte b = of_bool b"

definition AntennaConfiguration_bytes :: "AntennaConfiguration \<Rightarrow> bytes" where
  "AntennaConfiguration_bytes c = [bool_byte (isDeploymentDisabled c)]"

definition AdcsState_bytes :: "AdcsState \<Rightarrow> bytes" where
  "AdcsState_bytes c = [bool_byte (internalDetumblingDisabled c)]"

definition TimeState_bytes :: "TimeState \<Rightarrow> bytes" where
  "TimeState_bytes t = le_bytes 8 (lastMissionTime t) @ le_bytes 8 (lastExternalTime t)"

definition TimeCorrection_bytes :: "TimeCorrectionConfiguration \<Rightarrow> bytes" where
  "TimeCorrection_bytes c = le_bytes 2 (missionTimeFactor c) @ le_bytes 2 (externalTimeFactor c)"

definition SailState_bytes :: "SailState \<Rightarrow> bytes" where
  "SailState_bytes c = [currentState c]"

definition ErrorCounters_bytes :: "ErrorCountersConfigState \<Rightarrow> bytes" where
  "ErrorCounters_bytes c = concat (map (le_bytes 4) (ec_config_words c))"

definition MessageState_bytes :: "MessageState \<Rightarrow> bytes" where
  "MessageState_bytes m = ucast (ms_interval m) # ms_repeatCount m # ms_message m"

definition ErrorCounters_ok :: "ErrorCountersConfigState \<Rightarrow> bool" where
  "ErrorCounters_ok c \<longleftrightarrow> length (ec_config_words c) = MaxDevices"

text \<open>The interval is one byte in the image: 255 minutes at most.\<close>

definition MessageState_ok :: "MessageState \<Rightarrow> bool" where
  "MessageState_ok m \<longleftrightarrow> unat (ms_interval m) < 256 \<and> length (ms_message m) = MessageLength"

interpretation antenna_part: state_part AntennaConfiguration_Size "\<lambda>_. True"
  AntennaConfiguration_bytes AntennaConfiguration_Write AntennaConfiguration_Read
  by unfold_locales
    (simp_all add: AntennaConfiguration_Size_def AntennaConfiguration_bytes_def bool_byte_def
      AntennaConfiguration_Write_def AntennaConfiguration_Read_def Reader_Status_def run_simps)

interpretation adcs_part: state_part AdcsState_Size "\<lambda>_. True"
  AdcsState_bytes AdcsState_Write AdcsState_Read
  by unfold_locales
    (simp_all add: AdcsState_Size_def AdcsState_bytes_def bool_byte_def
      AdcsState_Write_def AdcsState_Read_def run_simps)

interpretation sail_part: state_part SailState_Size "\<lambda>_. True"
  SailState_bytes SailState_Write SailState_Read
  by unfold_locales
    (simp_all add: SailState_Size_def SailState_bytes_def SailState_Write_def SailState_Read_def run_simps)

text \<open>Two words of \<open>n\<close> bytes each, written and read in sequence.\<close>

lemma read_two_words:
  assumes "take (n + n) (rest r) = le_bytes n a @ le_bytes n b"
    and "LENGTH('a::len) = 8 * n"
  shows "(le_word (take n (rest r)) :: 'a word) = a" and "(le_word (take n (drop n (rest r))) :: 'a word) = b"
proof -
  have "take n (rest r) = le_bytes n a" "take n (drop n (rest r)) = le_bytes n b"
    using arg_cong [OF assms(1), of "take n"] arg_cong [OF assms(1), of "drop n"]
    by (simp_all add: min_def take_drop)
  then show "(le_word (take n (rest r)) :: 'a word) = a"
    and "(le_word (take n (drop n (rest r))) :: 'a word) = b"
    using assms(2) by (simp_all add: le_word_le_bytes)
qed

interpretation time_part: state_part TimeState_Size "\<lambda>_. True"
  TimeState_bytes TimeState_Write TimeState_Read
proof
  fix t :: TimeState and w :: writer
  assume w: "writer_wf w" "fits TimeState_Size w"
  then have "fits 8 w" "fits 16 w" by (auto simp: TimeState_Size_def elim: fits_mono)
  then show "TimeState_Write t w = advance (TimeState_bytes t) w"
    using w(1) by (simp add: TimeState_Write_def TimeState_bytes_def run_simps)
next
  fix t u :: TimeState and r :: reader
  assume r: "reader_wf r" "avail TimeState_Size r" "take TimeState_Size (rest r) = TimeState_bytes t"
  then have "avail 8 r" "avail 16 r" by (auto simp: TimeState_Size_def elim: avail_mono)
  then show "TimeState_Read r u = (t, consume TimeState_Size r)"
    using r read_two_words [of 8 r "lastMissionTime t" "lastExternalTime t"]
    by (simp add: TimeState_Read_def TimeState_Size_def TimeState_bytes_def run_simps wf_consume)
qed (simp add: TimeState_Size_def TimeState_bytes_def)

interpretation correction_part: state_part TimeCorrection_Size "\<lambda>_. True"
  TimeCorrection_bytes TimeCorrection_Write TimeCorrection_Read
proof
  fix t :: TimeCorrectionConfiguration and w :: writer
  assume w: "writer_wf w" "fits TimeCorrection_Size w"
  then have "fits 2 w" "fits 4 w" by (auto simp: TimeCorrection_Size_def elim: fits_mono)
  then show "TimeCorrection_Write t w = advance (TimeCorrection_bytes t) w"
    using w(1) by (simp add: TimeCorrection_Write_def TimeCorrection_bytes_def run_simps)
next
  fix t u :: TimeCorrectionConfiguration and r :: reader
  assume r: "reader_wf r" "avail TimeCorrection_Size r"
    "take TimeCorrection_Size (rest r) = TimeCorrection_bytes t"
  then have "avail 2 r" "avail 4 r" by (auto simp: TimeCorrection_Size_def elim: avail_mono)
  then show "TimeCorrection_Read r u = (t, consume TimeCorrection_Size r)"
    using r read_two_words [of 2 r "missionTimeFactor t" "externalTimeFactor t"]
    by (simp add: TimeCorrection_Read_def TimeCorrection_Size_def TimeCorrection_bytes_def
        run_simps wf_consume)
qed (simp add: TimeCorrection_Size_def TimeCorrection_bytes_def)

lemma length_concat_le_bytes [simp]: "length (concat (map (le_bytes n) ws)) = n * length ws"
  by (induction ws) auto

lemma ErrorCounters_write_loop:
  assumes "writer_wf w" and "fits (4 * n) w" and "n \<le> length ws"
  shows "fold (\<lambda>i w. snd (Writer_WriteDoubleWordLE (ws ! i) w)) [0..<n] w
    = advance (concat (map (le_bytes 4) (take n ws))) w"
  using assms(2,3)
proof (induction n)
  case (Suc n)
  have f: "fits (4 * n) w" using Suc.prems(1) by (rule fits_mono) simp
  have "fold (\<lambda>i w. snd (Writer_WriteDoubleWordLE (ws ! i) w)) [0..<Suc n] w
      = snd (emit (le_bytes 4 (ws ! n)) (advance (concat (map (le_bytes 4) (take n ws))) w))"
    using Suc f by (simp add: run_simps)
  also have "\<dots> = advance (le_bytes 4 (ws ! n)) (advance (concat (map (le_bytes 4) (take n ws))) w)"
    using assms(1) Suc.prems f
    by (subst emit_fits) (simp_all add: fits_advance add.commute)
  also have "\<dots> = advance (concat (map (le_bytes 4) (take (Suc n) ws))) w"
    using assms(1) Suc.prems
    by (subst advance_advance) (simp_all add: add.commute take_Suc_conv_app_nth)
  finally show ?case .
qed simp

lemma ErrorCounters_read_loop_run:
  assumes "reader_wf r" and "avail (4 * length ws) r" and "length c = i + length ws"
    and "take (4 * length ws) (rest r) = concat (map (le_bytes 4) ws)"
  shows "ErrorCounters_read_loop (length ws) i r c = (take i c @ ws, consume (4 * length ws) r)"
  using assms
proof (induction ws arbitrary: i r c)
  case Nil
  have "consume 0 r = r" using Nil.prems(2) by (simp add: consume_def avail_def)
  then show ?case using Nil.prems(3) by simp
next
  case (Cons v ws)
  have a4: "avail 4 r" using Cons.prems(2) by (rule avail_mono) simp
  have t: "take 4 (rest r) = le_bytes 4 v"
    "take (4 * length ws) (drop 4 (rest r)) = concat (map (le_bytes 4) ws)"
    using arg_cong [OF Cons.prems(4), of "take 4"] arg_cong [OF Cons.prems(4), of "drop 4"]
    by (simp_all add: min_def take_drop add.commute)
  have "Reader_ReadDoubleWordLE r = (v, consume 4 r)"
    using Cons.prems(1) a4 t(1) by (simp add: run_simps le_word_le_bytes)
  moreover have "ErrorCounters_read_loop (length ws) (Suc i) (consume 4 r) (c[i := v])
      = (take (Suc i) (c[i := v]) @ ws, consume (4 * length ws) (consume 4 r))"
    using Cons.prems a4 t(2) by (intro Cons.IH) (auto simp: run_simps wf_consume)
  moreover have "take (Suc i) (c[i := v]) = take i c @ [v]"
    using Cons.prems(3) by (simp add: take_Suc_conv_app_nth)
  ultimately show ?case
    using Cons.prems(1,2) by (simp add: run_simps)
qed

interpretation counters_part: state_part ErrorCounters_Size ErrorCounters_ok
  ErrorCounters_bytes ErrorCounters_Write ErrorCounters_Read
proof
  fix c assume ok: "ErrorCounters_ok c"
  then show "length (ErrorCounters_bytes c) = ErrorCounters_Size"
    by (simp add: ErrorCounters_bytes_def ErrorCounters_ok_def ErrorCounters_Size_def)
  show "ErrorCounters_Write c w = advance (ErrorCounters_bytes c) w"
    if "writer_wf w" "fits ErrorCounters_Size w" for w
    using that ok ErrorCounters_write_loop [of w MaxDevices "ec_config_words c"]
    by (simp add: ErrorCounters_Write_def ErrorCounters_bytes_def ErrorCounters_ok_def
        ErrorCounters_Size_def mult.commute)
  show "ErrorCounters_Read r d = (c, consume ErrorCounters_Size r)"
    if "ErrorCounters_ok d" "reader_wf r" "avail ErrorCounters_Size r"
      "take ErrorCounters_Size (rest r) = ErrorCounters_bytes c" for d r
    using that ok ErrorCounters_read_loop_run [of r "ec_config_words c" "ec_config_words d" 0]
    by (simp add: ErrorCounters_Read_def ErrorCounters_bytes_def ErrorCounters_ok_def
        ErrorCounters_Size_def mult.commute)
qed

lemma put_at_whole [simp]: "length xs = length ys \<Longrightarrow> put_at 0 xs ys = xs"
  by (simp add: put_at_def)

interpretation message_part: state_part MessageState_Size MessageState_ok
  MessageState_bytes MessageState_Write MessageState_Read
proof
  fix m assume ok: "MessageState_ok m"
  then have len: "length (ms_message m) = 200" and small: "unat (ms_interval m) < 256"
    by (simp_all add: MessageState_ok_def MessageLength_def)
  show "length (MessageState_bytes m) = MessageState_Size"
    by (simp add: MessageState_bytes_def MessageState_Size_def len)
  show "MessageState_Write m w = advance (MessageState_bytes m) w"
    if w: "writer_wf w" "fits MessageState_Size w" for w
  proof -
    have "fits 1 w" "fits 2 w" "fits 202 w"
      using w(2) by (auto simp: MessageState_Size_def elim: fits_mono)
    define x where "x = [ucast (ms_interval m) :: u8]"
    define y where "y = x @ [ms_repeatCount m]"
    have l: "length x = 1" "length y = 2" by (simp_all add: x_def y_def)
    have 1: "snd (Writer_WriteByte (ucast (ms_interval m)) w) = advance x w"
      using \<open>fits 1 w\<close> by (simp add: WriteByte_emit x_def)
    have 2: "snd (Writer_WriteByte (ms_repeatCount m) (advance x w)) = advance y w"
      using w(1) \<open>fits 1 w\<close> \<open>fits 2 w\<close> l
      by (simp add: WriteByte_emit fits_advance advance_advance y_def numeral_2_eq_2)
    have "fits (length (ms_message m)) (advance y w)"
      using w(1) \<open>fits 2 w\<close> \<open>fits 202 w\<close> l len by (simp add: fits_advance)
    then have 3: "snd (Writer_WriteArray (ms_message m) (advance y w)) = advance (y @ ms_message m) w"
      using w(1) \<open>fits 2 w\<close> \<open>fits 202 w\<close> l len
      by (simp add: WriteArray_emit wf_advance advance_advance)
    show ?thesis by (simp add: MessageState_Write_def 1 2 3) (simp add: MessageState_bytes_def x_def y_def)
  qed
  have interval: "ucast (ucast (ms_interval m) :: u8) = ms_interval m"
    using small by (simp add: word_unat_eq_iff unsigned_ucast_eq take_bit_eq_mod unat_mod_distrib)
  show "MessageState_Read r d = (m, consume MessageState_Size r)"
    if r: "MessageState_ok d" "reader_wf r" "avail MessageState_Size r"
      "take MessageState_Size (rest r) = MessageState_bytes m" for d r
  proof -
    have a: "avail 1 r" "avail 2 r" "avail 202 r"
      using r(3) by (auto simp: MessageState_Size_def elim: avail_mono)
    obtain xs where xs: "rest r = ucast (ms_interval m) # ms_repeatCount m # xs" "take 200 xs = ms_message m"
      using r(4) by (cases "rest r"; cases "tl (rest r)") (auto simp: MessageState_Size_def MessageState_bytes_def)
    have wf: "reader_wf r" "reader_wf (consume 1 r)" "reader_wf (consume 2 r)"
      using r(2) a by (auto simp: wf_consume)
    have cc: "consume 1 (consume 1 r) = consume 2 r" "consume 200 (consume 2 r) = consume 202 r"
      using consume_consume [of r 1 1] consume_consume [of r 2 200] wf a by (simp_all add: numeral_2_eq_2)
    have "avail 1 (consume 1 r)" "avail 200 (consume 2 r)"
      using avail_consume [of r 1 1] avail_consume [of r 2 200] wf a by (simp_all add: numeral_2_eq_2)
    moreover have "rest (consume 1 r) = ms_repeatCount m # xs" "rest (consume 2 r) = xs"
      using wf a xs(1) by (simp_all add: rest_consume)
    ultimately have "Reader_ReadByte r = (ucast (ms_interval m), consume 1 r)"
      and "Reader_ReadByte (consume 1 r) = (ms_repeatCount m, consume 2 r)"
      and "Reader_ReadArray 200 (consume 2 r) = (ms_message m, consume 202 r)"
      using wf a xs cc by (simp_all add: ReadByte_fetch ReadArray_fetch)
    then show ?thesis
      using r(1) len interval
      by (simp add: MessageState_Read_def MessageState_Size_def MessageState_ok_def MessageLength_def)
  qed
qed

end
