(* ===== verification/Redundancy.thy ===== *)
theory Redundancy
  imports Prelude
begin

text \<open>
  Majority voting between redundant copies (libs/base/redundancy.cpp and redundancy.hpp), used
  for the boot parameters, the program slots and the redundant memories. A span is its address
  and its bytes; the loops go over the 32-bit words of the spans, as in the code.
\<close>

section \<open>Voting on values\<close>

definition Vote :: "'a \<Rightarrow> 'a \<Rightarrow> 'a \<Rightarrow> 'a option" where
  "Vote a b c = (if a = b \<or> a = c then Some a else if b = c then Some b else None)"

definition Correct3 :: "'a::len word \<Rightarrow> 'a word \<Rightarrow> 'a word \<Rightarrow> 'a word" where
  "Correct3 a b c = (a AND b) OR (b AND c) OR (a AND c)"

definition Correct5 :: "'a::len word \<Rightarrow> 'a word \<Rightarrow> 'a word \<Rightarrow> 'a word \<Rightarrow> 'a word \<Rightarrow> 'a word" where
  "Correct5 a b c d e =
     (c AND d AND e) OR (b AND d AND e) OR (b AND c AND e) OR (b AND c AND d) OR (a AND d AND e)
     OR (a AND c AND e) OR (a AND c AND d) OR (a AND b AND e) OR (a AND b AND d)
     OR (a AND b AND c)"

definition Correct_array :: "'a::len word list \<Rightarrow> 'a word" where
  "Correct_array elements = Correct3 (elements ! 0) (elements ! 1) (elements ! 2)"

section \<open>Voting on buffers\<close>

record span =
  s_addr :: u32
  s_data :: bytes

definition IsAligned4 :: "span \<Rightarrow> bool" where
  "IsAligned4 s \<longleftrightarrow> s_addr s AND (4 - 1) = 0"

definition word_at :: "bytes \<Rightarrow> nat \<Rightarrow> u32" where
  "word_at d i = le_word (sub_at (4 * i) 4 d)"

definition put_word :: "nat \<Rightarrow> u32 \<Rightarrow> bytes \<Rightarrow> bytes" where
  "put_word i w d = put_at (4 * i) (le_bytes 4 w) d"

definition span_len :: "span \<Rightarrow> nat" where
  "span_len s = length (s_data s)"

text \<open>\<open>CorrectBuffer(buffer1, buffer2, buffer3)\<close>: the vote replaces the first buffer.\<close>

definition CorrectBuffer_inplace :: "span \<Rightarrow> span \<Rightarrow> span \<Rightarrow> bool \<times> bytes" where
  "CorrectBuffer_inplace b1 b2 b3 =
     (if span_len b1 \<noteq> span_len b2 \<or> span_len b2 \<noteq> span_len b3 then (False, s_data b1)
      else if span_len b1 mod 4 \<noteq> 0 then (False, s_data b1)
      else if \<not> (IsAligned4 b1 \<and> IsAligned4 b2 \<and> IsAligned4 b3) then (False, s_data b1)
      else (True,
        fold (\<lambda>i a. put_word i
                (Correct3 (word_at a i) (word_at (s_data b2) i) (word_at (s_data b3) i)) a)
          [0..<span_len b1 div 4] (s_data b1)))"

text \<open>\<open>CorrectBuffer(result, buffers)\<close> for five copies; the result span is not alignment checked.\<close>

definition CorrectBuffer5 :: "span \<Rightarrow> span list \<Rightarrow> bool \<times> bytes" where
  "CorrectBuffer5 result buffers =
     (if span_len (buffers ! 0) \<noteq> span_len (buffers ! 1)
         \<or> span_len (buffers ! 1) \<noteq> span_len (buffers ! 2)
         \<or> span_len (buffers ! 2) \<noteq> span_len (buffers ! 3)
         \<or> span_len (buffers ! 3) \<noteq> span_len (buffers ! 4)
         \<or> span_len result \<noteq> span_len (buffers ! 0)
      then (False, s_data result)
      else if span_len result mod 4 \<noteq> 0 then (False, s_data result)
      else if \<not> (IsAligned4 (buffers ! 0) \<and> IsAligned4 (buffers ! 1) \<and> IsAligned4 (buffers ! 2)
                \<and> IsAligned4 (buffers ! 3) \<and> IsAligned4 (buffers ! 4))
      then (False, s_data result)
      else (True,
        fold (\<lambda>i r. put_word i
                (Correct5 (word_at (s_data (buffers ! 0)) i) (word_at (s_data (buffers ! 1)) i)
                   (word_at (s_data (buffers ! 2)) i) (word_at (s_data (buffers ! 3)) i)
                   (word_at (s_data (buffers ! 4)) i)) r)
          [0..<span_len result div 4] (s_data result)))"

text \<open>\<open>CorrectBuffer(output, buffer1, buffer2, buffer3)\<close>.\<close>

definition CorrectBuffer3 :: "span \<Rightarrow> span \<Rightarrow> span \<Rightarrow> span \<Rightarrow> bool \<times> bytes" where
  "CorrectBuffer3 output b1 b2 b3 =
     (if span_len output \<noteq> span_len b1 \<or> span_len b1 \<noteq> span_len b2
         \<or> span_len b2 \<noteq> span_len b3 then (False, s_data output)
      else if span_len output mod 4 \<noteq> 0 then (False, s_data output)
      else if \<not> (IsAligned4 b1 \<and> IsAligned4 b2 \<and> IsAligned4 b3) then (False, s_data output)
      else (True,
        fold (\<lambda>i r. put_word i
                (Correct3 (word_at (s_data b1) i) (word_at (s_data b2) i) (word_at (s_data b3) i)) r)
          [0..<span_len output div 4] (s_data output)))"

section \<open>Specification: majorities of bits\<close>

definition majority :: "bool list \<Rightarrow> bool" where
  "majority bs \<longleftrightarrow> length bs < 2 * length (filter id bs)"

definition data_bits :: "bytes \<Rightarrow> nat \<Rightarrow> bool" where
  "data_bits d A \<longleftrightarrow> bit (d ! (A div 8)) (A mod 8)"

lemma bit_Correct3 [bit_simps]: "bit (Correct3 a b c) n = majority [bit a n, bit b n, bit c n]"
  by (cases "bit a n"; cases "bit b n"; cases "bit c n")
    (simp_all add: Correct3_def majority_def bit_simps)

lemma bit_Correct5 [bit_simps]:
  "bit (Correct5 a b c d e) n = majority [bit a n, bit b n, bit c n, bit d n, bit e n]"
  by (cases "bit a n"; cases "bit b n"; cases "bit c n"; cases "bit d n"; cases "bit e n")
    (simp_all add: Correct5_def majority_def bit_simps)

section \<open>The word loops\<close>

lemma length_put_word [simp]: "4 * i \<le> length d \<Longrightarrow> length (put_word i w d) = length d"
  by (simp add: put_word_def)

lemma word_at_put_word:
  assumes "4 * i + 4 \<le> length d" and "4 * j + 4 \<le> length d"
  shows "word_at (put_word i w d) j = (if j = i then w else word_at d j)"
proof (cases "j = i")
  case True
  then show ?thesis using assms by (simp add: word_at_def put_word_def byte_simps)
next
  case False
  have "sub_at (4 * j) 4 (put_word i w d) = sub_at (4 * j) 4 d"
    using assms False by (intro nth_equalityI) (auto simp: put_word_def nth_put_at)
  then show ?thesis using False by (simp add: word_at_def)
qed

lemma fold_put_word:
  assumes "4 * n \<le> length d"
  shows "length (fold (\<lambda>i r. put_word i (f i (word_at r i)) r) [0..<n] d) = length d"
    and "4 * j + 4 \<le> length d \<Longrightarrow>
      word_at (fold (\<lambda>i r. put_word i (f i (word_at r i)) r) [0..<n] d) j
        = (if j < n then f j (word_at d j) else word_at d j)"
proof -
  let ?F = "\<lambda>n. fold (\<lambda>i r. put_word i (f i (word_at r i)) r) [0..<n] d"
  have "length (?F n) = length d \<and>
      (\<forall>j. 4 * j + 4 \<le> length d \<longrightarrow>
         word_at (?F n) j = (if j < n then f j (word_at d j) else word_at d j))"
    using assms
  proof (induction n)
    case (Suc n)
    then have IH: "length (?F n) = length d" "\<And>j. 4 * j + 4 \<le> length d \<Longrightarrow>
        word_at (?F n) j = (if j < n then f j (word_at d j) else word_at d j)"
      by simp_all
    have "?F (Suc n) = put_word n (f n (word_at (?F n) n)) (?F n)" by simp
    then show ?case using Suc.prems IH by (auto simp: word_at_put_word less_Suc_eq)
  qed simp
  then show "length (?F n) = length d"
    and "4 * j + 4 \<le> length d \<Longrightarrow>
      word_at (?F n) j = (if j < n then f j (word_at d j) else word_at d j)"
    by blast+
qed

lemma bit_word_at:
  assumes "4 * i + 4 \<le> length d" and "k < 32"
  shows "bit (word_at d i) k = data_bits d (32 * i + k)"
proof -
  have "(32 * i + k) div 8 = 4 * i + k div 8" and "(32 * i + k) mod 8 = k mod 8"
    and "k div 8 < 4"
    using assms(2) div_mult_self1 [of 8 k "4 * i"] mod_mult_self1 [of k "4 * i" 8]
    by (auto simp: add.commute less_mult_imp_div_less)
  then show ?thesis using assms by (simp add: word_at_def bit_le_word data_bits_def)
qed

lemma word_index:
  assumes "A < 8 * (n :: nat)" and "n mod 4 = 0"
  shows "A div 32 < n div 4" and "4 * (A div 32) + 4 \<le> n" and "4 * (n div 4) \<le> n"
proof -
  obtain m where m: "n = 4 * m" using assms(2) by auto
  with assms(1) show "A div 32 < n div 4" by (simp add: less_mult_imp_div_less)
  with m show "4 * (A div 32) + 4 \<le> n" and "4 * (n div 4) \<le> n" by simp_all
qed

lemma data_bits_word:
  assumes "A < 8 * length d" and "length d mod 4 = 0"
  shows "data_bits d A = bit (word_at d (A div 32)) (A mod 32)"
proof -
  have "4 * (A div 32) + 4 \<le> length d" using assms by (rule word_index)
  then show ?thesis by (simp add: bit_word_at)
qed

lemma vote_loop_bits:
  assumes "length d mod 4 = 0" and "A < 8 * length d"
    and d': "d' = fold (\<lambda>i r. put_word i (f i (word_at r i)) r) [0..<length d div 4] d"
  shows "length d' = length d"
    and "data_bits d' A = bit (f (A div 32) (word_at d (A div 32))) (A mod 32)"
proof -
  have n: "4 * (length d div 4) \<le> length d" and i: "4 * (A div 32) + 4 \<le> length d"
    "A div 32 < length d div 4"
    using word_index [OF assms(2,1)] by simp_all
  show len: "length d' = length d" unfolding d' by (rule fold_put_word(1) [OF n])
  have "data_bits d' A = bit (word_at d' (A div 32)) (A mod 32)"
    using assms(1,2) len by (intro data_bits_word) simp_all
  then show "data_bits d' A = bit (f (A div 32) (word_at d (A div 32))) (A mod 32)"
    unfolding d' fold_put_word(2) [OF n i(1)] using i(2) by simp
qed

lemma bytes_eq_bits:
  assumes "length xs = length ys" and "\<And>A. A < 8 * length xs \<Longrightarrow> data_bits xs A = data_bits ys A"
  shows "xs = ys"
proof (rule nth_equalityI [OF assms(1)], rule bit_word_eqI)
  fix i k assume "i < length xs" and "k < LENGTH(8)"
  then show "bit (xs ! i) k = bit (ys ! i) k"
    using assms(2) [of "8 * i + k"] by (simp add: data_bits_def)
qed

definition voted :: "bytes \<Rightarrow> bytes list \<Rightarrow> bool" where
  "voted r copies \<longleftrightarrow> (\<forall>d \<in> set copies. length d = length r) \<and>
     (\<forall>A < 8 * length r. data_bits r A = majority (map (\<lambda>d. data_bits d A) copies))"

text \<open>Copies that agree with an original on a majority at each bit vote for the original.\<close>

lemma majority_agree:
  assumes "length bs < 2 * length (filter (\<lambda>b. b = v) bs)"
  shows "majority bs = v"
proof (cases v)
  case True
  then have "filter (\<lambda>b. b = v) bs = filter id bs" by (intro filter_cong) auto
  then show ?thesis using assms True by (simp add: majority_def)
next
  case False
  then have "filter (\<lambda>b. b = v) bs = filter (\<lambda>b. \<not> id b) bs" by (intro filter_cong) auto
  then show ?thesis
    using assms False sum_length_filter_compl [of id bs] by (simp add: majority_def)
qed

lemma voted_original:
  assumes "voted r copies" and "length orig = length r"
    and "\<And>A. A < 8 * length r \<Longrightarrow>
       length copies < 2 * length (filter (\<lambda>d. data_bits d A = data_bits orig A) copies)"
  shows "r = orig"
proof (rule bytes_eq_bits)
  show "length r = length orig" using assms(2) by simp
  fix A assume A: "A < 8 * length r"
  have "length (filter (\<lambda>b. b = data_bits orig A) (map (\<lambda>d. data_bits d A) copies))
      = length (filter (\<lambda>d. data_bits d A = data_bits orig A) copies)"
    by (simp add: filter_map comp_def)
  then have "majority (map (\<lambda>d. data_bits d A) copies) = data_bits orig A"
    using assms(3) [OF A] by (intro majority_agree) simp
  then show "data_bits r A = data_bits orig A" using assms(1) A by (simp add: voted_def)
qed

section \<open>The buffers are voted bit by bit\<close>

lemma CorrectBuffer_inplace_voted:
  assumes "span_len b2 = span_len b1" and "span_len b3 = span_len b1" and "span_len b1 mod 4 = 0"
    and "IsAligned4 b1" and "IsAligned4 b2" and "IsAligned4 b3"
  shows "\<exists>r. CorrectBuffer_inplace b1 b2 b3 = (True, r) \<and> length r = span_len b1 \<and>
    voted r [s_data b1, s_data b2, s_data b3]"
proof -
  let ?f = "\<lambda>i w. Correct3 w (word_at (s_data b2) i) (word_at (s_data b3) i)"
  define r where "r = fold (\<lambda>i a. put_word i (?f i (word_at a i)) a) [0..<span_len b1 div 4] (s_data b1)"
  have len: "length r = span_len b1"
    unfolding r_def span_len_def by (rule fold_put_word(1)) simp
  have "voted r [s_data b1, s_data b2, s_data b3]"
    unfolding voted_def
  proof (intro conjI allI impI)
    fix A assume "A < 8 * length r"
    then have A: "A < 8 * length (s_data b1)" using len by (simp add: span_len_def)
    then have "data_bits r A = bit (?f (A div 32) (word_at (s_data b1) (A div 32))) (A mod 32)"
      using assms(3) by (intro vote_loop_bits(2)) (simp_all add: r_def span_len_def)
    then show "data_bits r A = majority (map (\<lambda>d. data_bits d A) [s_data b1, s_data b2, s_data b3])"
      using assms(1-3) A by (simp add: bit_Correct3 data_bits_word span_len_def)
  qed (use assms(1,2) len in \<open>auto simp: span_len_def\<close>)
  moreover have "CorrectBuffer_inplace b1 b2 b3 = (True, r)"
    unfolding CorrectBuffer_inplace_def r_def using assms by simp
  ultimately show ?thesis using len by blast
qed

lemma CorrectBuffer3_voted:
  assumes "span_len b1 = span_len out" and "span_len b2 = span_len out"
    and "span_len b3 = span_len out" and "span_len out mod 4 = 0"
    and "IsAligned4 b1" and "IsAligned4 b2" and "IsAligned4 b3"
  shows "\<exists>r. CorrectBuffer3 out b1 b2 b3 = (True, r) \<and> length r = span_len out \<and>
    voted r [s_data b1, s_data b2, s_data b3]"
proof -
  let ?f = "\<lambda>i. Correct3 (word_at (s_data b1) i) (word_at (s_data b2) i) (word_at (s_data b3) i)"
  define r where "r = fold (\<lambda>i a. put_word i (?f i) a) [0..<span_len out div 4] (s_data out)"
  have len: "length r = span_len out"
    unfolding r_def span_len_def by (rule fold_put_word(1)) simp
  have "voted r [s_data b1, s_data b2, s_data b3]"
    unfolding voted_def
  proof (intro conjI allI impI)
    fix A assume "A < 8 * length r"
    then have A: "A < 8 * length (s_data out)" using len by (simp add: span_len_def)
    then have "data_bits r A = bit (?f (A div 32)) (A mod 32)"
      using assms(4) by (intro vote_loop_bits(2)) (simp_all add: r_def span_len_def)
    then show "data_bits r A = majority (map (\<lambda>d. data_bits d A) [s_data b1, s_data b2, s_data b3])"
      using assms(1-4) A by (simp add: bit_Correct3 data_bits_word span_len_def)
  qed (use assms(1-3) len in \<open>auto simp: span_len_def\<close>)
  moreover have "CorrectBuffer3 out b1 b2 b3 = (True, r)"
    unfolding CorrectBuffer3_def r_def using assms by simp
  ultimately show ?thesis using len by blast
qed

lemma CorrectBuffer5_voted:
  assumes "bs = [b1, b2, b3, b4, b5]" and "\<forall>b \<in> set bs. span_len b = span_len out \<and> IsAligned4 b"
    and "span_len out mod 4 = 0"
  shows "\<exists>r. CorrectBuffer5 out bs = (True, r) \<and> length r = span_len out \<and>
    voted r (map s_data bs)"
proof -
  let ?f = "\<lambda>i. Correct5 (word_at (s_data b1) i) (word_at (s_data b2) i) (word_at (s_data b3) i)
    (word_at (s_data b4) i) (word_at (s_data b5) i)"
  define r where "r = fold (\<lambda>i a. put_word i (?f i) a) [0..<span_len out div 4] (s_data out)"
  have len: "length r = span_len out"
    unfolding r_def span_len_def by (rule fold_put_word(1)) simp
  have "voted r (map s_data bs)"
    unfolding voted_def
  proof (intro conjI allI impI)
    fix A assume "A < 8 * length r"
    then have A: "A < 8 * length (s_data out)" using len by (simp add: span_len_def)
    then have "data_bits r A = bit (?f (A div 32)) (A mod 32)"
      using assms(3) by (intro vote_loop_bits(2)) (simp_all add: r_def span_len_def)
    then show "data_bits r A = majority (map (\<lambda>d. data_bits d A) (map s_data bs))"
      using assms A by (simp add: bit_Correct5 data_bits_word span_len_def)
  qed (use assms(1,2) len in \<open>auto simp: span_len_def\<close>)
  moreover have "CorrectBuffer5 out bs = (True, r)"
    unfolding CorrectBuffer5_def r_def using assms by (simp add: span_len_def)
  ultimately show ?thesis using len by blast
qed

definition agree :: "bytes \<Rightarrow> nat \<Rightarrow> bytes list \<Rightarrow> nat" where
  "agree orig A copies = length (filter (\<lambda>d. data_bits d A = data_bits orig A) copies)"

text \<open>
  C3. Voting over five aligned copies of equal word-multiple length restores the original as long
  as every bit of it survives in three copies, wherever the damage of the other two is.
\<close>
theorem CorrectBuffer5_repairs:
  assumes "bs = [b1, b2, b3, b4, b5]" and "\<forall>b \<in> set bs. span_len b = span_len out \<and> IsAligned4 b"
    and "span_len out mod 4 = 0" and "length orig = span_len out"
    and "\<forall>A < 8 * span_len out. 3 \<le> agree orig A (map s_data bs)"
  shows "CorrectBuffer5 out bs = (True, orig)"
proof -
  obtain r where r: "CorrectBuffer5 out bs = (True, r)" "length r = span_len out"
    "voted r (map s_data bs)"
    using CorrectBuffer5_voted [OF assms(1-3)] by blast
  have "length (map s_data bs) < 2 * agree orig A (map s_data bs)" if "A < 8 * length r" for A
  proof -
    have "3 \<le> agree orig A (map s_data bs)" using assms(5) that r(2) by simp
    then show ?thesis using assms(1) by simp
  qed
  then have "r = orig"
    using r(2) assms(4) by (intro voted_original [OF r(3)]) (simp_all only: agree_def)
  then show ?thesis using r(1) by simp
qed

lemma CorrectBuffer5_repairs_witness:
  "CorrectBuffer5 \<lparr>s_addr = 0, s_data = [0, 0, 0, 0]\<rparr>
     (map (\<lambda>d. \<lparr>s_addr = 8, s_data = d\<rparr>)
       [[1, 2, 3, 4], [255, 2, 3, 4], [1, 2, 3, 4], [1, 0, 0, 0], [1, 2, 3, 4]])
   = (True, [1, 2, 3, 4])"
proof (rule CorrectBuffer5_repairs)
  show "\<forall>A < 8 * span_len \<lparr>s_addr = 0, s_data = [0, 0, 0, 0]\<rparr>. 3 \<le> agree [1, 2, 3, 4] A
      (map s_data (map (\<lambda>d. \<lparr>s_addr = 8, s_data = d\<rparr>)
       [[1, 2, 3, 4], [255, 2, 3, 4], [1, 2, 3, 4], [1, 0, 0, 0], [1, 2, 3, 4]]))"
    by (simp add: agree_def)
qed (simp_all add: span_len_def IsAligned4_def)

text \<open>
  Voting in place over three copies restores the original when every bit survives in two.
\<close>
theorem CorrectBuffer_inplace_repairs:
  assumes "span_len b2 = span_len b1" and "span_len b3 = span_len b1" and "span_len b1 mod 4 = 0"
    and "IsAligned4 b1" and "IsAligned4 b2" and "IsAligned4 b3" and "length orig = span_len b1"
    and "\<forall>A < 8 * span_len b1. 2 \<le> agree orig A [s_data b1, s_data b2, s_data b3]"
  shows "CorrectBuffer_inplace b1 b2 b3 = (True, orig)"
proof -
  obtain r where r: "CorrectBuffer_inplace b1 b2 b3 = (True, r)" "length r = span_len b1"
    "voted r [s_data b1, s_data b2, s_data b3]"
    using CorrectBuffer_inplace_voted [OF assms(1-6)] by blast
  have "length [s_data b1, s_data b2, s_data b3] < 2 * agree orig A [s_data b1, s_data b2, s_data b3]" if "A < 8 * length r" for A
  proof -
    have "2 \<le> agree orig A [s_data b1, s_data b2, s_data b3]" using assms(8) that r(2) by simp
    then show ?thesis by simp
  qed
  then have "r = orig"
    using r(2) assms(7) by (intro voted_original [OF r(3)]) (simp_all only: agree_def)
  then show ?thesis using r(1) by simp
qed

lemma CorrectBuffer_inplace_repairs_witness:
  "CorrectBuffer_inplace \<lparr>s_addr = 0, s_data = [1, 2, 3, 4]\<rparr> \<lparr>s_addr = 4, s_data = [1, 255, 12, 4]\<rparr>
     \<lparr>s_addr = 8, s_data = [1, 2, 3, 4]\<rparr> = (True, [1, 2, 3, 4])"
proof (rule CorrectBuffer_inplace_repairs)
  show "\<forall>A < 8 * span_len \<lparr>s_addr = 0, s_data = [1, 2, 3, 4]\<rparr>. 2 \<le> agree [1, 2, 3, 4] A
      [s_data \<lparr>s_addr = 0, s_data = [1, 2, 3, 4]\<rparr>, s_data \<lparr>s_addr = 4, s_data = [1, 255, 12, 4]\<rparr>,
       s_data \<lparr>s_addr = 8, s_data = [1, 2, 3, 4]\<rparr>]"
    by (simp add: agree_def)
qed (simp_all add: span_len_def IsAligned4_def)

end
