(* ===== verification/Fram.thy ===== *)
theory Fram
  imports Redundancy Byte_Writer Error_Counter
begin

text \<open>
  The FRAM drivers of libs/drivers/fm25w: the command protocol of one chip, and the triple
  redundant memory that the persistent state lives in. The SPI bus is a parameter: a function that
  runs one selected transaction (the spans written, the number of bytes read) on the chip.
\<close>

section \<open>One chip\<close>

type_synonym 'c spi = "bytes list \<Rightarrow> nat \<Rightarrow> 'c \<Rightarrow> bytes \<times> 'c"

definition Cmd_EnableWrite :: u8 where "Cmd_EnableWrite = 0x06"
definition Cmd_ReadStatusRegister :: u8 where "Cmd_ReadStatusRegister = 0x05"
definition Cmd_Read :: u8 where "Cmd_Read = 0x03"
definition Cmd_Write :: u8 where "Cmd_Write = 0x02"

definition FM25W_cmd :: "u8 \<Rightarrow> u16 \<Rightarrow> bytes" where
  "FM25W_cmd command address =
     (let w = Writer_Initialize (replicate 3 0);
          w = snd (Writer_WriteByte command w);
          w = snd (Writer_WriteWordBE address w)
      in w_buf w)"

definition FM25W_ReadStatus :: "'c spi \<Rightarrow> 'c \<Rightarrow> u8 option \<times> 'c" where
  "FM25W_ReadStatus spi c =
     (let (status, c) = spi [[Cmd_ReadStatusRegister]] 1 c in (Some (hd status), c))"

definition FM25W_Read :: "'c spi \<Rightarrow> u16 \<Rightarrow> nat \<Rightarrow> 'c \<Rightarrow> bytes \<times> 'c" where
  "FM25W_Read spi address n c = spi [FM25W_cmd Cmd_Read address] n c"

definition FM25W_Write :: "'c spi \<Rightarrow> u16 \<Rightarrow> bytes \<Rightarrow> 'c \<Rightarrow> 'c" where
  "FM25W_Write spi address buffer c =
     (let c = snd (spi [[Cmd_EnableWrite]] 0 c)
      in snd (spi [FM25W_cmd Cmd_Write address, buffer] 0 c))"

section \<open>Three chips\<close>

text \<open>
  \<open>IFM25WDriver\<close> is the pair of operations of a chip; \<open>report\<close> is the error counter of device 8.
\<close>

record ('c, 'e) redundant_fm25w =
  rf_chip0 :: 'c
  rf_chip1 :: 'c
  rf_chip2 :: 'c
  rf_errors :: 'e

definition Redundant_ReadStatus ::
  "('c \<Rightarrow> u8 option \<times> 'c) \<Rightarrow> (bool \<Rightarrow> 'e \<Rightarrow> 'e) \<Rightarrow> ('c, 'e) redundant_fm25w
     \<Rightarrow> u8 option \<times> ('c, 'e) redundant_fm25w" where
  "Redundant_ReadStatus readStatus report s =
     (let (status1, c0) = readStatus (rf_chip0 s);
          (status2, c1) = readStatus (rf_chip1 s);
          (status3, c2) = readStatus (rf_chip2 s);
          s = s\<lparr>rf_chip0 := c0, rf_chip1 := c1, rf_chip2 := c2\<rparr>
      in case Vote status1 status2 status3 of
           None \<Rightarrow> (None, s\<lparr>rf_errors := report False (rf_errors s)\<rparr>)
         | Some v \<Rightarrow> (v, s\<lparr>rf_errors := report True (rf_errors s)\<rparr>))"

text \<open>
  The private \<open>Read\<close> of one block; \<open>outAddr\<close> is where the output span lies in RAM. The third chip
  is read only when the first two disagree, and the result of \<open>CorrectBuffer\<close> is dropped.
\<close>

definition Redundant_ReadBlock ::
  "(u16 \<Rightarrow> nat \<Rightarrow> 'c \<Rightarrow> bytes \<times> 'c) \<Rightarrow> (bool \<Rightarrow> 'e \<Rightarrow> 'e) \<Rightarrow> u32 \<Rightarrow> u16 \<Rightarrow> nat
     \<Rightarrow> ('c, 'e) redundant_fm25w \<Rightarrow> bytes \<times> ('c, 'e) redundant_fm25w" where
  "Redundant_ReadBlock read report outAddr address n s =
     (let (output, c0) = read address n (rf_chip0 s);
          (buffer1, c1) = read address n (rf_chip1 s);
          s = s\<lparr>rf_chip0 := c0, rf_chip1 := c1\<rparr>
      in if output = buffer1 then (output, s\<lparr>rf_errors := report True (rf_errors s)\<rparr>)
         else
           (let s = s\<lparr>rf_errors := report False (rf_errors s)\<rparr>;
                (buffer2, c2) = read address n (rf_chip2 s);
                s = s\<lparr>rf_chip2 := c2\<rparr>
            in (snd (CorrectBuffer_inplace \<lparr>s_addr = outAddr, s_data = output\<rparr>
                  \<lparr>s_addr = 0, s_data = buffer1\<rparr> \<lparr>s_addr = 0, s_data = buffer2\<rparr>), s)))"

function Redundant_read_loop ::
  "(u16 \<Rightarrow> nat \<Rightarrow> 'c \<Rightarrow> bytes \<times> 'c) \<Rightarrow> (bool \<Rightarrow> 'e \<Rightarrow> 'e) \<Rightarrow> u32 \<Rightarrow> u16 \<Rightarrow> nat \<Rightarrow> nat
     \<Rightarrow> ('c, 'e) redundant_fm25w \<Rightarrow> bytes \<times> ('c, 'e) redundant_fm25w" where
  "Redundant_read_loop read report outAddr address offset outLen s =
     (if offset < outLen then
        (let len = min (outLen - offset) 1024;
             (output, s) = Redundant_ReadBlock read report (outAddr + of_nat offset)
               (address + of_nat offset) len s;
             (rest, s) = Redundant_read_loop read report outAddr address (offset + 1024) outLen s
         in (output @ rest, s))
      else ([], s))"
  by pat_completeness auto
termination by (relation "measure (\<lambda>(_, _, _, _, offset, outLen, _). outLen - offset)") auto

declare Redundant_read_loop.simps [simp del]

definition Redundant_Read ::
  "(u16 \<Rightarrow> nat \<Rightarrow> 'c \<Rightarrow> bytes \<times> 'c) \<Rightarrow> (bool \<Rightarrow> 'e \<Rightarrow> 'e) \<Rightarrow> u32 \<Rightarrow> u16 \<Rightarrow> nat
     \<Rightarrow> ('c, 'e) redundant_fm25w \<Rightarrow> bytes \<times> ('c, 'e) redundant_fm25w" where
  "Redundant_Read read report outAddr address n s =
     Redundant_read_loop read report outAddr address 0 n s"

definition Redundant_Write ::
  "(u16 \<Rightarrow> bytes \<Rightarrow> 'c \<Rightarrow> 'c) \<Rightarrow> u16 \<Rightarrow> bytes \<Rightarrow> ('c, 'e) redundant_fm25w
     \<Rightarrow> ('c, 'e) redundant_fm25w" where
  "Redundant_Write cwrite address buffer s =
     s\<lparr>rf_chip0 := cwrite address buffer (rf_chip0 s),
       rf_chip1 := cwrite address buffer (rf_chip1 s),
       rf_chip2 := cwrite address buffer (rf_chip2 s)\<rparr>"

text \<open>PersistentStorageAccess.cpp narrows the address to the 16 bits of the chips.\<close>

definition PersistentStorage_Read ::
  "(u16 \<Rightarrow> nat \<Rightarrow> 'c \<Rightarrow> bytes \<times> 'c) \<Rightarrow> (bool \<Rightarrow> 'e \<Rightarrow> 'e) \<Rightarrow> u32 \<Rightarrow> u32 \<Rightarrow> nat
     \<Rightarrow> ('c, 'e) redundant_fm25w \<Rightarrow> bytes \<times> ('c, 'e) redundant_fm25w" where
  "PersistentStorage_Read read report outAddr address n s =
     Redundant_Read read report outAddr (ucast address) n s"

definition PersistentStorage_Write ::
  "(u16 \<Rightarrow> bytes \<Rightarrow> 'c \<Rightarrow> 'c) \<Rightarrow> u32 \<Rightarrow> bytes \<Rightarrow> ('c, 'e) redundant_fm25w
     \<Rightarrow> ('c, 'e) redundant_fm25w" where
  "PersistentStorage_Write cwrite address buffer s = Redundant_Write cwrite (ucast address) buffer s"

section \<open>The contract of a chip\<close>

definition cells :: "(nat \<Rightarrow> u8) \<Rightarrow> nat \<Rightarrow> nat \<Rightarrow> bytes" where
  "cells mem a n = map (\<lambda>i. mem (a + i)) [0..<n]"

definition overwrite :: "nat \<Rightarrow> bytes \<Rightarrow> (nat \<Rightarrow> u8) \<Rightarrow> nat \<Rightarrow> u8" where
  "overwrite a bs mem = (\<lambda>i. if a \<le> i \<and> i < a + length bs then bs ! (i - a) else mem i)"

lemma length_cells [simp]: "length (cells mem a n) = n"
  by (simp add: cells_def)

lemma cells_append: "cells mem a m @ cells mem (a + m) n = cells mem a (m + n)"
proof (rule nth_equalityI)
  fix i assume "i < length (cells mem a m @ cells mem (a + m) n)"
  then show "(cells mem a m @ cells mem (a + m) n) ! i = cells mem a (m + n) ! i"
    by (auto simp: cells_def nth_append)
qed simp

lemma cells_overwrite [simp]: "cells (overwrite a bs mem) a (length bs) = bs"
  by (rule nth_equalityI) (simp_all add: cells_def overwrite_def)

locale fm25w_chip =
  fixes mem :: "'c \<Rightarrow> nat \<Rightarrow> u8"
    and cread :: "u16 \<Rightarrow> nat \<Rightarrow> 'c \<Rightarrow> bytes \<times> 'c"
    and cwrite :: "u16 \<Rightarrow> bytes \<Rightarrow> 'c \<Rightarrow> 'c"
  assumes read_cells: "unat a + n \<le> 2 ^ 16 \<Longrightarrow> cread a n c = (cells (mem c) (unat a) n, c)"
    and write_cells: "unat a + length bs \<le> 2 ^ 16 \<Longrightarrow>
      mem (cwrite a bs c) = overwrite (unat a) bs (mem c)"
begin

text \<open>What the redundant memory returns for a block, from the contents of the three chips.\<close>

definition block_value :: "u32 \<Rightarrow> bytes \<Rightarrow> bytes \<Rightarrow> bytes \<Rightarrow> bytes" where
  "block_value outAddr x y z =
     (if x = y then x
      else snd (CorrectBuffer_inplace \<lparr>s_addr = outAddr, s_data = x\<rparr>
             \<lparr>s_addr = 0, s_data = y\<rparr> \<lparr>s_addr = 0, s_data = z\<rparr>))"

lemma read_block:
  assumes "unat a + n \<le> 2 ^ 16"
  shows "\<exists>e. Redundant_ReadBlock cread report outAddr a n s =
    (block_value outAddr (cells (mem (rf_chip0 s)) (unat a) n) (cells (mem (rf_chip1 s)) (unat a) n)
       (cells (mem (rf_chip2 s)) (unat a) n), s\<lparr>rf_errors := e\<rparr>)"
  using assms
  by (cases "cells (mem (rf_chip0 s)) (unat a) n = cells (mem (rf_chip1 s)) (unat a) n")
    (auto simp: Redundant_ReadBlock_def read_cells block_value_def intro!: exI)

lemma block_value_same [simp]: "block_value outAddr x x z = x"
  by (simp add: block_value_def)

text \<open>A block whose length is not a multiple of four is not voted: it is the first chip's.\<close>

lemma block_value_odd: "length x mod 4 \<noteq> 0 \<Longrightarrow> block_value outAddr x y z = x"
  by (auto simp: block_value_def CorrectBuffer_inplace_def span_len_def)

text \<open>Nor is a block that is read to an address that is not a multiple of four.\<close>

lemma block_value_unaligned: "outAddr AND 3 \<noteq> 0 \<Longrightarrow> block_value outAddr x y z = x"
  by (auto simp: block_value_def CorrectBuffer_inplace_def IsAligned4_def)

lemma block_value_vote:
  assumes "length x mod 4 = 0" and "length y = length x" and "length z = length x"
    and "outAddr AND 3 = 0" and "x = orig \<and> y = orig \<or> x = orig \<and> z = orig \<or> y = orig \<and> z = orig"
  shows "block_value outAddr x y z = orig"
proof (cases "x = y")
  case True
  then show ?thesis using assms(5) by auto
next
  case False
  let ?a = "\<lparr>s_addr = outAddr, s_data = x\<rparr>" and ?b = "\<lparr>s_addr = 0, s_data = y\<rparr>"
    and ?c = "\<lparr>s_addr = 0, s_data = z\<rparr>"
  have "length orig = length x" using assms(2,3,5) by auto
  obtain r where r: "CorrectBuffer_inplace ?a ?b ?c = (True, r)" "length r = length x"
    "voted r [x, y, z]"
    using CorrectBuffer_inplace_voted [of ?b ?a ?c] assms by (auto simp: span_len_def IsAligned4_def)
  have "r = orig"
    using r(2) assms(5) \<open>length orig = length x\<close> by (intro voted_original [OF r(3)]) auto
  then show ?thesis using False r(1) by (simp add: block_value_def)
qed

lemma cells_sub:
  assumes "cells m a n = cells m' a n" and "k + len \<le> n"
  shows "cells m (a + k) len = cells m' (a + k) len"
proof (rule nth_equalityI)
  fix i assume "i < length (cells m (a + k) len)"
  then have i: "i < len" by simp
  have "m (a + j) = m' (a + j)" if "j < n" for j
    using arg_cong [OF assms(1), of "\<lambda>l. l ! j"] that by (simp add: cells_def)
  from this [of "k + i"] i assms(2) show "cells m (a + k) len ! i = cells m' (a + k) len ! i"
    by (simp add: cells_def add.assoc)
qed simp

lemma addr_add: "unat a + k < 2 ^ 16 \<Longrightarrow> unat ((a :: u16) + of_nat k) = unat a + k"
  by (simp add: unat_word_ariths unat_of_nat)

lemma read_loop_cells:
  assumes a: "unat a + n \<le> 2 ^ 16"
    and block: "\<And>k len. k mod 1024 = 0 \<Longrightarrow> k < n \<Longrightarrow> len = min (n - k) 1024 \<Longrightarrow>
      block_value (outAddr + of_nat k) (cells (mem (rf_chip0 s)) (unat a + k) len)
        (cells (mem (rf_chip1 s)) (unat a + k) len) (cells (mem (rf_chip2 s)) (unat a + k) len)
      = cells m (unat a + k) len"
    and "k mod 1024 = 0" and "s' = s\<lparr>rf_errors := e\<rparr>"
  shows "\<exists>e'. Redundant_read_loop cread report outAddr a k n s'
    = (cells m (unat a + k) (n - k), s\<lparr>rf_errors := e'\<rparr>)"
  using assms(3,4)
proof (induction "n - k" arbitrary: k s' e rule: less_induct)
  case less
  show ?case
  proof (cases "k < n")
    case False
    then show ?thesis
      by (subst Redundant_read_loop.simps) (auto simp: cells_def less.prems(2))
  next
    case True
    define len where "len = min (n - k) 1024"
    have ak: "unat (a + of_nat k) = unat a + k" using a True by (intro addr_add) simp
    have "unat (a + of_nat k) + len \<le> 2 ^ 16" using a True ak by (simp add: len_def)
    then obtain e1 where e1: "Redundant_ReadBlock cread report (outAddr + of_nat k) (a + of_nat k) len s'
        = (cells m (unat a + k) len, s'\<lparr>rf_errors := e1\<rparr>)"
      using read_block [of "a + of_nat k" len report "outAddr + of_nat k" s'] block [OF less.prems(1) True]
      by (auto simp: ak len_def less.prems(2))
    have "n - (k + 1024) < n - k" using True by simp
    from less.hyps [OF this, of "s'\<lparr>rf_errors := e1\<rparr>" e1] less.prems
    obtain e2 where e2: "Redundant_read_loop cread report outAddr a (k + 1024) n (s'\<lparr>rf_errors := e1\<rparr>)
        = (cells m (unat a + (k + 1024)) (n - (k + 1024)), s\<lparr>rf_errors := e2\<rparr>)"
      by auto
    have "cells m (unat a + k) len @ cells m (unat a + (k + 1024)) (n - (k + 1024))
        = cells m (unat a + k) (n - k)"
    proof (cases "n - k \<le> 1024")
      case True
      then show ?thesis by (simp add: len_def cells_def)
    next
      case False
      then show ?thesis
        using cells_append [of m "unat a + k" 1024 "n - (k + 1024)"] by (simp add: len_def add.assoc)
    qed
    then show ?thesis
      using True e1 e2 by (subst Redundant_read_loop.simps) (simp add: len_def, blast)
  qed
qed

lemma and_3_iff: "(w :: u32) AND 3 = 0 \<longleftrightarrow> unat w mod 4 = 0"
proof -
  have "w AND 3 = take_bit 2 w" by (simp add: take_bit_eq_mask mask_eq_exp_minus_1)
  then show ?thesis by (simp add: word_unat_eq_iff unsigned_take_bit_eq take_bit_eq_mod unat_mod_distrib)
qed

lemma aligned_offset:
  assumes "k mod 1024 = 0" and "(outAddr :: u32) AND 3 = 0"
  shows "(outAddr + of_nat k) AND 3 = 0"
proof -
  obtain j where "k = 1024 * j" using assms(1) by auto
  then have k: "4 dvd k" by simp
  have o: "4 dvd unat outAddr" using assms(2) by (auto simp: and_3_iff)
  have "unat (outAddr + of_nat k) = (unat outAddr + k) mod 2 ^ 32"
    by (simp add: unat_word_ariths unat_of_nat mod_add_right_eq)
  moreover have "4 dvd (unat outAddr + k) mod 2 ^ 32"
    using k o by (intro dvd_mod dvd_add) simp_all
  ultimately show ?thesis by (simp add: and_3_iff)
qed

lemma storage_read_vote:
  assumes a: "unat a + n \<le> 2 ^ 16" and n: "n mod 4 = 0" and al: "outAddr AND 3 = 0"
    and two: "(cells (mem (rf_chip0 s)) (unat a) n = cells m (unat a) n \<and>
          cells (mem (rf_chip1 s)) (unat a) n = cells m (unat a) n) \<or>
       (cells (mem (rf_chip0 s)) (unat a) n = cells m (unat a) n \<and>
          cells (mem (rf_chip2 s)) (unat a) n = cells m (unat a) n) \<or>
       (cells (mem (rf_chip1 s)) (unat a) n = cells m (unat a) n \<and>
          cells (mem (rf_chip2 s)) (unat a) n = cells m (unat a) n)"
  shows "fst (Redundant_Read cread report outAddr a n s) = cells m (unat a) n"
proof -
  have "block_value (outAddr + of_nat k) (cells (mem (rf_chip0 s)) (unat a + k) len)
        (cells (mem (rf_chip1 s)) (unat a + k) len) (cells (mem (rf_chip2 s)) (unat a + k) len)
      = cells m (unat a + k) len"
    if k: "k mod 1024 = 0" "k < n" "len = min (n - k) 1024" for k len
  proof (rule block_value_vote)
    have le: "k + len \<le> n" using k by simp
    obtain j where "k = 1024 * j" using k(1) by auto
    then have "k mod 4 = 0" by simp
    then have "(n - k) mod 4 = 0" using n k(2) by presburger
    then show "length (cells (mem (rf_chip0 s)) (unat a + k) len) mod 4 = 0"
      using k(3) by (simp add: min_def)
    show "outAddr + of_nat k AND 3 = 0" by (rule aligned_offset [OF k(1) al])
    show "cells (mem (rf_chip0 s)) (unat a + k) len = cells m (unat a + k) len \<and>
        cells (mem (rf_chip1 s)) (unat a + k) len = cells m (unat a + k) len \<or>
        cells (mem (rf_chip0 s)) (unat a + k) len = cells m (unat a + k) len \<and>
        cells (mem (rf_chip2 s)) (unat a + k) len = cells m (unat a + k) len \<or>
        cells (mem (rf_chip1 s)) (unat a + k) len = cells m (unat a + k) len \<and>
        cells (mem (rf_chip2 s)) (unat a + k) len = cells m (unat a + k) len"
      using two cells_sub [OF _ le] by blast
  qed simp_all
  then have "\<exists>e'. Redundant_read_loop cread report outAddr a 0 n s
      = (cells m (unat a + 0) (n - 0), s\<lparr>rf_errors := e'\<rparr>)"
    by (rule read_loop_cells [OF a, where e = "rf_errors s"]) simp_all
  then show ?thesis by (auto simp: Redundant_Read_def)
qed

lemma unaligned_offset: "k mod 1024 = 0 \<Longrightarrow> (outAddr :: u32) AND 3 \<noteq> 0 \<Longrightarrow> (outAddr + of_nat k) AND 3 \<noteq> 0"
proof -
  assume k: "k mod 1024 = 0" and o: "outAddr AND 3 \<noteq> 0"
  obtain j where "k = 1024 * j" using k by auto
  then have "4 dvd k" by simp
  moreover have "unat (outAddr + of_nat k) = (unat outAddr + k) mod 2 ^ 32"
    by (simp add: unat_word_ariths unat_of_nat mod_add_right_eq)
  moreover have "\<not> 4 dvd unat outAddr" using o by (simp add: and_3_iff dvd_eq_mod_eq_0)
  moreover have "(unat outAddr + k) mod 2 ^ 32 mod 4 = (unat outAddr + k) mod 4" by (rule mod_mod_cancel) simp
  ultimately show ?thesis by (simp add: and_3_iff dvd_eq_mod_eq_0 [symmetric]) (metis dvd_add_left_iff dvd_eq_mod_eq_0)
qed

lemma storage_read_unaligned:
  assumes a: "unat a + n \<le> 2 ^ 16" and al: "outAddr AND 3 \<noteq> 0"
  shows "fst (Redundant_Read cread report outAddr a n s) = cells (mem (rf_chip0 s)) (unat a) n"
proof -
  have "\<exists>e'. Redundant_read_loop cread report outAddr a 0 n s
      = (cells (mem (rf_chip0 s)) (unat a + 0) (n - 0), s\<lparr>rf_errors := e'\<rparr>)"
    by (rule read_loop_cells [OF a, where e = "rf_errors s"])
      (simp_all add: block_value_unaligned unaligned_offset [OF _ al])
  then show ?thesis by (auto simp: Redundant_Read_def)
qed

lemma storage_read_first:
  assumes a: "unat a + n \<le> 2 ^ 16" and n: "n \<le> 1024"
    and "n mod 4 \<noteq> 0 \<or> cells (mem (rf_chip0 s)) (unat a) n = cells (mem (rf_chip1 s)) (unat a) n"
  shows "fst (Redundant_Read cread report outAddr a n s) = cells (mem (rf_chip0 s)) (unat a) n"
proof -
  have "block_value (outAddr + of_nat k) (cells (mem (rf_chip0 s)) (unat a + k) len)
        (cells (mem (rf_chip1 s)) (unat a + k) len) (cells (mem (rf_chip2 s)) (unat a + k) len)
      = cells (mem (rf_chip0 s)) (unat a + k) len"
    if k: "k mod 1024 = 0" "k < n" "len = min (n - k) 1024" for k len
  proof -
    have "k = 0" using k(1,2) n by auto
    moreover from this have "len = n" using k(3) n by simp
    ultimately show ?thesis using assms(3) by (auto simp: block_value_odd)
  qed
  then have "\<exists>e'. Redundant_read_loop cread report outAddr a 0 n s
      = (cells (mem (rf_chip0 s)) (unat a + 0) (n - 0), s\<lparr>rf_errors := e'\<rparr>)"
    by (rule read_loop_cells [OF a, where e = "rf_errors s"]) simp_all
  then show ?thesis by (auto simp: Redundant_Read_def)
qed

end

section \<open>The storage interface\<close>

text \<open>
  \<open>IStorageAccess\<close>, as its clients use it: reading a range that was just written returns what
  was written. The redundant memory provides it for every chip that meets its own contract.
\<close>

locale storage_access =
  fixes sread :: "u32 \<Rightarrow> nat \<Rightarrow> 's \<Rightarrow> bytes \<times> 's"
    and swrite :: "u32 \<Rightarrow> bytes \<Rightarrow> 's \<Rightarrow> 's"
  assumes read_written: "unat a < 2 ^ 16 \<Longrightarrow> unat a + length bs \<le> 2 ^ 16 \<Longrightarrow>
    fst (sread a (length bs) (swrite a bs s)) = bs"

locale redundant_fram = fm25w_chip mem cread cwrite
  for mem :: "'c \<Rightarrow> nat \<Rightarrow> u8" and cread and cwrite +
  fixes report :: "bool \<Rightarrow> 'e \<Rightarrow> 'e" and outAddr :: u32
begin

lemma write_all:
  assumes "unat a + length bs \<le> 2 ^ 16"
  shows "cells (mem (rf_chip0 (Redundant_Write cwrite a bs s))) (unat a) (length bs) = bs"
    and "cells (mem (rf_chip1 (Redundant_Write cwrite a bs s))) (unat a) (length bs) = bs"
    and "cells (mem (rf_chip2 (Redundant_Write cwrite a bs s))) (unat a) (length bs) = bs"
  using assms by (simp_all add: Redundant_Write_def write_cells)

lemma write_read_back:
  assumes "unat a + length bs \<le> 2 ^ 16"
  shows "fst (Redundant_Read cread report outAddr a (length bs) (Redundant_Write cwrite a bs s)) = bs"
proof -
  let ?s = "Redundant_Write cwrite a bs s" and ?n = "length bs"
  have same: "cells (mem (rf_chip0 ?s)) (unat a) ?n = cells (mem (rf_chip1 ?s)) (unat a) ?n"
    using write_all [OF assms, of s] by simp
  have "\<exists>e'. Redundant_read_loop cread report outAddr a 0 ?n ?s
      = (cells (mem (rf_chip0 ?s)) (unat a + 0) (?n - 0), ?s\<lparr>rf_errors := e'\<rparr>)"
  proof (rule read_loop_cells [OF assms, where e = "rf_errors ?s"])
    fix k len assume "k mod 1024 = 0" "k < ?n" "len = min (?n - k) 1024"
    then have "cells (mem (rf_chip0 ?s)) (unat a + k) len = cells (mem (rf_chip1 ?s)) (unat a + k) len"
      by (intro cells_sub [OF same]) simp
    then show "block_value (outAddr + of_nat k) (cells (mem (rf_chip0 ?s)) (unat a + k) len)
        (cells (mem (rf_chip1 ?s)) (unat a + k) len) (cells (mem (rf_chip2 ?s)) (unat a + k) len)
      = cells (mem (rf_chip0 ?s)) (unat a + k) len" by simp
  qed simp_all
  then show ?thesis using write_all(1) [OF assms, of s] by (auto simp: Redundant_Read_def)
qed

end

lemma narrow_address: "unat (a :: u32) < 2 ^ 16 \<Longrightarrow> unat (ucast a :: u16) = unat a"
  by (simp add: unsigned_ucast_eq take_bit_eq_mod unat_mod_distrib)

sublocale redundant_fram \<subseteq> storage: storage_access "PersistentStorage_Read cread report outAddr"
  "PersistentStorage_Write cwrite"
proof
  fix a :: u32 and bs :: bytes and s :: "('c, 'e) redundant_fm25w"
  assume "unat a < 2 ^ 16" and "unat a + length bs \<le> 2 ^ 16"
  then show "fst (PersistentStorage_Read cread report outAddr a (length bs)
      (PersistentStorage_Write cwrite a bs s)) = bs"
    using write_read_back [of "ucast a" bs s]
    by (simp add: PersistentStorage_Read_def PersistentStorage_Write_def narrow_address)
qed

section \<open>The drivers on a simulated chip\<close>

text \<open>
  A slave with the documented FM25W commands, to run the driver on: the write enable latch is set
  by one transaction and consumed by the next write, addresses are two bytes, high byte first.
\<close>

record fram =
  fr_mem :: "nat \<Rightarrow> u8"
  fr_latch :: bool

definition fram_slave :: "bytes list \<Rightarrow> nat \<Rightarrow> fram \<Rightarrow> bytes \<times> fram" where
  "fram_slave ws n f =
     (case concat ws of
        command # args \<Rightarrow>
          if command = 0x06 then (replicate n 0, f\<lparr>fr_latch := True\<rparr>)
          else if command = 0x05 then (replicate n (if fr_latch f then 2 else 0), f)
          else
            (case args of
               hi # lo # bs \<Rightarrow>
                 if command = 0x03 then (cells (fr_mem f) (256 * unat hi + unat lo) n, f)
                 else if command = 0x02 \<and> fr_latch f then
                   (replicate n 0,
                    \<lparr>fr_mem = overwrite (256 * unat hi + unat lo) bs (fr_mem f), fr_latch = False\<rparr>)
                 else (replicate n 0, f)
             | _ \<Rightarrow> (replicate n 0, f))
      | [] \<Rightarrow> (replicate n 0, f))"

lemma FM25W_cmd_bytes: "FM25W_cmd c a = [c, byte_of 1 a, byte_of 0 a]"
proof -
  let ?w = "Writer_Initialize (replicate 3 (0 :: u8))"
  have w: "writer_wf ?w" "fits 1 ?w" "fits 3 ?w"
    by (simp_all add: writer_wf_def fits_def Writer_Initialize_def Writer_Reset_def)
  then have "snd (Writer_WriteWordBE a (snd (Writer_WriteByte c ?w)))
      = advance ([c] @ rev (le_bytes 2 a)) ?w"
    by (simp add: WriteByte_emit WriteWordBE_emit fits_advance advance_advance numeral_3_eq_3)
  then show ?thesis
    by (simp add: FM25W_cmd_def le_bytes_2 advance_def put_at_def Writer_Initialize_def Writer_Reset_def
        numeral_3_eq_3)
qed

lemma address_bytes: "256 * unat (byte_of 1 (a :: u16)) + unat (byte_of 0 a) = unat a"
proof -
  have "unat (byte_of 1 a) = unat a div 256"
  proof -
    have "unat a div 256 < 256" using unsigned_less [of a, where ?'a = nat] by simp
    then show ?thesis
      by (simp add: byte_of_def unsigned_ucast_eq take_bit_eq_mod unat_mod_distrib drop_bit_eq_div unat_div_distrib)
  qed
  moreover have "unat (byte_of 0 a) = unat a mod 256"
    by (simp add: byte_of_def unsigned_ucast_eq take_bit_eq_mod unat_mod_distrib)
  ultimately show ?thesis by simp
qed

text \<open>The FDIR entry of the memory: \<open>ErrorCounter<8>\<close>.\<close>

definition fram_report :: "bool \<Rightarrow> fdir \<Rightarrow> fdir" where
  "fram_report ok f = (case report_device ok 8 f of Some f' \<Rightarrow> f' | None \<Rightarrow> f)"

interpretation flight: redundant_fram fr_mem "FM25W_Read fram_slave" "FM25W_Write fram_slave"
  fram_report outAddr for outAddr
  by unfold_locales
    (simp_all add: FM25W_Read_def FM25W_Write_def fram_slave_def FM25W_cmd_bytes address_bytes [simplified]
      Cmd_EnableWrite_def Cmd_Read_def Cmd_Write_def)

end
