(* ===== verification/Persistent_State.thy ===== *)
theory Persistent_State
  imports State_Parts Fram
begin

text \<open>
  The container of the persistent state (PersistentState.hpp, LockablePersistentState.hpp,
  StatePolicies.hpp), the list of its parts (fwd.hpp) and its image in storage (ObcState.cpp). The
  tuple of parts is the nested pair of the part states in the order of the type list.
\<close>

section \<open>The container\<close>

type_synonym parts =
  "AntennaConfiguration \<times> TimeState \<times> TimeCorrectionConfiguration \<times> SailState
     \<times> ErrorCountersConfigState \<times> AdcsState \<times> MessageState"

text \<open>\<open>StateTrackingPolicy\<close> is the flag \<open>ps_modified\<close>.\<close>

record persistent_state =
  ps_parts :: parts
  ps_modified :: bool

definition NotifyModified :: "persistent_state \<Rightarrow> persistent_state" where
  "NotifyModified s = s\<lparr>ps_modified := True\<rparr>"

definition NotifySaved :: "persistent_state \<Rightarrow> persistent_state" where
  "NotifySaved s = s\<lparr>ps_modified := False\<rparr>"

definition MessageState_default :: "bytes \<Rightarrow> MessageState" where
  "MessageState_default text =
     \<lparr>ms_interval = 10, ms_repeatCount = 0,
      ms_message = put_at 0 (text @ [0]) (replicate MessageLength 0)\<rparr>"

text \<open>The default constructed container; the text is the string literal of comm.cpp.\<close>

definition PersistentState_new :: "bytes \<Rightarrow> persistent_state" where
  "PersistentState_new text =
     \<lparr>ps_parts = (AntennaConfiguration_default, TimeState_default, TimeCorrection_default,
        SailState_default, ErrorCounters_default, AdcsState_default, MessageState_default text),
      ps_modified = False\<rparr>"

definition PersistentState_Size :: nat where
  "PersistentState_Size =
     AntennaConfiguration_Size + (TimeState_Size + (TimeCorrection_Size + (SailState_Size
       + (ErrorCounters_Size + (AdcsState_Size + MessageState_Size)))))"

definition write_parts :: "parts \<Rightarrow> writer \<Rightarrow> writer" where
  "write_parts =
     write_then AntennaConfiguration_Write (write_then TimeState_Write
       (write_then TimeCorrection_Write (write_then SailState_Write
         (write_then ErrorCounters_Write (write_then AdcsState_Write MessageState_Write)))))"

definition read_parts :: "reader \<Rightarrow> parts \<Rightarrow> parts \<times> reader" where
  "read_parts =
     read_then AntennaConfiguration_Read (read_then TimeState_Read
       (read_then TimeCorrection_Read (read_then SailState_Read
         (read_then ErrorCounters_Read (read_then AdcsState_Read MessageState_Read)))))"

definition PersistentState_Write :: "persistent_state \<Rightarrow> writer \<Rightarrow> writer" where
  "PersistentState_Write s w = write_parts (ps_parts s) w"

definition PersistentState_Read :: "reader \<Rightarrow> persistent_state \<Rightarrow> persistent_state \<times> reader" where
  "PersistentState_Read r s =
     (let (p, r) = read_parts r (ps_parts s) in (s\<lparr>ps_parts := p\<rparr>, r))"

definition PersistentState_Capture :: "persistent_state \<Rightarrow> writer \<Rightarrow> writer \<times> persistent_state" where
  "PersistentState_Capture s w = (PersistentState_Write s w, NotifySaved s)"

text \<open>\<open>Set\<close> of one part: \<open>put\<close> is the update of that component of the tuple.\<close>

definition PersistentState_Set :: "(parts \<Rightarrow> parts) \<Rightarrow> persistent_state \<Rightarrow> persistent_state" where
  "PersistentState_Set put s = NotifyModified (s\<lparr>ps_parts := put (ps_parts s)\<rparr>)"

section \<open>The locked container\<close>

text \<open>
  Every operation takes the semaphore; \<open>taken\<close> is the result of \<open>System::TakeSemaphore\<close>, which the
  lock object gives back at the end of the block. Without it the operations do nothing.
\<close>

definition Lockable_Get :: "bool \<Rightarrow> (parts \<Rightarrow> 'v) \<Rightarrow> persistent_state \<Rightarrow> 'v \<Rightarrow> bool \<times> 'v" where
  "Lockable_Get taken get s object = (if \<not> taken then (False, object) else (True, get (ps_parts s)))"

definition Lockable_Set ::
  "bool \<Rightarrow> (parts \<Rightarrow> parts) \<Rightarrow> persistent_state \<Rightarrow> bool \<times> persistent_state" where
  "Lockable_Set taken put s = (if \<not> taken then (False, s) else (True, PersistentState_Set put s))"

definition Lockable_Read :: "bool \<Rightarrow> reader \<Rightarrow> persistent_state \<Rightarrow> bool \<times> persistent_state \<times> reader" where
  "Lockable_Read taken r s =
     (if \<not> taken then (False, s, r) else (True, PersistentState_Read r s))"

definition Lockable_Write :: "bool \<Rightarrow> persistent_state \<Rightarrow> writer \<Rightarrow> bool \<times> writer" where
  "Lockable_Write taken s w = (if \<not> taken then (False, w) else (True, PersistentState_Write s w))"

definition Lockable_Capture ::
  "bool \<Rightarrow> persistent_state \<Rightarrow> writer \<Rightarrow> bool \<times> writer \<times> persistent_state" where
  "Lockable_Capture taken s w =
     (if \<not> taken then (False, w, s) else (True, PersistentState_Capture s w))"

definition Lockable_IsModified :: "bool \<Rightarrow> persistent_state \<Rightarrow> bool" where
  "Lockable_IsModified taken s = (if \<not> taken then False else ps_modified s)"

definition Lockable_Load ::
  "bool \<Rightarrow> persistent_state \<Rightarrow> persistent_state \<Rightarrow> bool \<times> persistent_state" where
  "Lockable_Load taken newState s = (if \<not> taken then (False, s) else (True, newState))"

section \<open>The image in storage\<close>

text \<open>
  \<open>IStorageAccess\<close> is passed as its two methods on a storage state; a read fills a span of the
  given length.
\<close>

definition Signature :: u32 where
  "Signature = 0x55aa77ee"

definition TotalImageSize :: nat where
  "TotalImageSize = PersistentState_Size + 2 * 4"

definition WritePersistentState ::
  "(u32 \<Rightarrow> bytes \<Rightarrow> 'st \<Rightarrow> 'st) \<Rightarrow> bool \<Rightarrow> u32 \<Rightarrow> persistent_state \<Rightarrow> 'st
     \<Rightarrow> bool \<times> persistent_state \<times> 'st" where
  "WritePersistentState storage_Write taken baseAddress s st =
     (let w = Writer_Initialize (replicate TotalImageSize 0);
          w = snd (Writer_WriteDoubleWordLE Signature w);
          (captured, w, s') = Lockable_Capture taken s w
      in if \<not> captured then (False, s', st)
         else
           (let w = snd (Writer_WriteDoubleWordLE Signature w)
            in if \<not> Writer_Status w then (False, s', st)
               else (True, s', storage_Write baseAddress (Writer_Capture w) st)))"

definition ReadPersistentState ::
  "(u32 \<Rightarrow> nat \<Rightarrow> 'st \<Rightarrow> bytes \<times> 'st) \<Rightarrow> bool \<Rightarrow> bytes \<Rightarrow> u32 \<Rightarrow> persistent_state \<Rightarrow> 'st
     \<Rightarrow> bool \<times> persistent_state \<times> 'st" where
  "ReadPersistentState storage_Read taken text baseAddress s st =
     (let (array, st) = storage_Read baseAddress TotalImageSize st;
          r = Reader_Initialize array;
          (header, r) = Reader_ReadDoubleWordLE r
      in if header \<noteq> Signature \<or> \<not> Reader_Status r then (False, s, st)
         else
           (let (newState, r) = PersistentState_Read r (PersistentState_new text);
                (footer, r) = Reader_ReadDoubleWordLE r
            in if \<not> (footer = Signature \<and> Reader_Status r) then (False, s, st)
               else (let (ok, s) = Lockable_Load taken newState s in (ok, s, st))))"

text \<open>The mission task PersistentStateSave.cpp: save when modified.\<close>

definition PersistentStateSave ::
  "(u32 \<Rightarrow> bytes \<Rightarrow> 'st \<Rightarrow> 'st) \<Rightarrow> bool \<Rightarrow> u32 \<Rightarrow> persistent_state \<Rightarrow> 'st
     \<Rightarrow> persistent_state \<times> 'st" where
  "PersistentStateSave storage_Write taken baseAddress s st =
     (if Lockable_IsModified taken s
      then snd (WritePersistentState storage_Write taken baseAddress s st) else (s, st))"

section \<open>The container is a part\<close>

definition parts_bytes :: "parts \<Rightarrow> bytes" where
  "parts_bytes =
     repr_then AntennaConfiguration_bytes (repr_then TimeState_bytes
       (repr_then TimeCorrection_bytes (repr_then SailState_bytes
         (repr_then ErrorCounters_bytes (repr_then AdcsState_bytes MessageState_bytes)))))"

definition parts_ok :: "parts \<Rightarrow> bool" where
  "parts_ok p \<longleftrightarrow> (case p of (_, _, _, _, c, _, m) \<Rightarrow> ErrorCounters_ok c \<and> MessageState_ok m)"

interpretation container: state_part PersistentState_Size parts_ok parts_bytes write_parts read_parts
proof -
  note p = parts_then [OF antenna_part.state_part_axioms parts_then [OF time_part.state_part_axioms
      parts_then [OF correction_part.state_part_axioms parts_then [OF sail_part.state_part_axioms
      parts_then [OF counters_part.state_part_axioms parts_then [OF adcs_part.state_part_axioms
      message_part.state_part_axioms]]]]]]
  have ok: "(\<lambda>p. True \<and> True \<and> True \<and> True \<and> ErrorCounters_ok (fst (snd (snd (snd (snd p)))))
      \<and> True \<and> MessageState_ok (snd (snd (snd (snd (snd (snd p))))))) = parts_ok"
    by (auto simp: parts_ok_def fun_eq_iff)
  show "state_part PersistentState_Size parts_ok parts_bytes write_parts read_parts"
    using p unfolding PersistentState_Size_def parts_bytes_def write_parts_def read_parts_def ok .
qed

section \<open>Images\<close>

definition state_image :: "parts \<Rightarrow> bytes" where
  "state_image p = le_bytes 4 Signature @ parts_bytes p @ le_bytes 4 Signature"

lemma size_values: "PersistentState_Size = 281" "TotalImageSize = 289"
  by (simp_all add: TotalImageSize_def PersistentState_Size_def AntennaConfiguration_Size_def
      TimeState_Size_def TimeCorrection_Size_def SailState_Size_def ErrorCounters_Size_def
      AdcsState_Size_def MessageState_Size_def MaxDevices_def)

lemma length_state_image: "parts_ok p \<Longrightarrow> length (state_image p) = TotalImageSize"
  using container.repr_length [of p] by (simp add: state_image_def size_values)

lemma WritePersistentState_image:
  assumes "parts_ok (ps_parts s)"
  shows "WritePersistentState swrite True base s st = (True, NotifySaved s, swrite base (state_image (ps_parts s)) st)"
proof -
  define w0 where "w0 = Writer_Initialize (replicate TotalImageSize (0 :: u8))"
  define x where "x = le_bytes 4 Signature"
  define y where "y = parts_bytes (ps_parts s)"
  have len: "length x = 4" "length y = 281"
    using container.repr_length [OF assms] by (simp_all add: x_def y_def size_values)
  have w0: "writer_wf w0" "fits 289 w0" "Writer_Capture w0 = []"
    by (simp_all add: w0_def size_values writer_wf_def fits_def Writer_Initialize_def Writer_Reset_def
        Writer_Capture_def)
  then have f: "fits 4 w0" "fits 285 w0" by (auto elim: fits_mono)
  have 1: "snd (Writer_WriteDoubleWordLE Signature w0) = advance x w0"
    using f by (simp add: WriteDoubleWordLE_emit x_def)
  have "write_parts (ps_parts s) (advance x w0) = advance y (advance x w0)"
    using assms w0 f len by (simp add: container.write_repr fits_advance wf_advance size_values y_def)
  then have 2: "PersistentState_Write s (advance x w0) = advance (x @ y) w0"
    using w0 f len by (simp add: PersistentState_Write_def advance_advance)
  have 3: "snd (Writer_WriteDoubleWordLE Signature (advance (x @ y) w0)) = advance (x @ y @ x) w0"
    using w0 f len by (simp add: WriteDoubleWordLE_emit fits_advance advance_advance flip: x_def)
  have "Writer_Status (advance (x @ y @ x) w0)" and "Writer_Capture (advance (x @ y @ x) w0) = x @ y @ x"
    using w0 len by (simp_all add: Writer_Status_def Capture_advance) (simp_all add: advance_def fits_def)
  then show ?thesis
    unfolding WritePersistentState_def Lockable_Capture_def PersistentState_Capture_def
    by (simp add: 1 2 3 flip: w0_def) (simp add: state_image_def x_def y_def)
qed

lemma default_ok: "length text < MessageLength \<Longrightarrow> parts_ok (ps_parts (PersistentState_new text))"
  by (simp add: PersistentState_new_def parts_ok_def ErrorCounters_ok_def ErrorCounters_default_def
      MessageState_ok_def MessageState_default_def)

lemma ReadPersistentState_image:
  assumes "fst (sread base TotalImageSize st) = state_image p" and "parts_ok p"
    and "length text < MessageLength"
  shows "ReadPersistentState sread True text base s st
    = (True, \<lparr>ps_parts = p, ps_modified = False\<rparr>, snd (sread base TotalImageSize st))"
proof -
  define r0 where "r0 = Reader_Initialize (state_image p)"
  define x where "x = le_bytes 4 Signature"
  have x: "length x = 4" "le_word x = Signature" by (simp_all add: x_def le_word_le_bytes)
  have lp: "length (parts_bytes p) = 281" using container.repr_length [OF assms(2)] by (simp add: size_values)
  have len: "length (state_image p) = 289" using length_state_image [OF assms(2)] by (simp add: size_values)
  then have "state_image p \<noteq> []" by auto
  with len have r0: "reader_wf r0" "avail 289 r0" "rest r0 = x @ parts_bytes p @ x"
    by (simp_all add: r0_def) (simp add: state_image_def x_def)
  then have a: "avail 4 r0" "avail 285 r0" by (auto elim: avail_mono)
  have wf4: "reader_wf (consume 4 r0)" "reader_wf (consume 285 r0)"
    using r0 a by (auto simp: wf_consume)
  have 1: "Reader_ReadDoubleWordLE r0 = (Signature, consume 4 r0)"
    using r0 a x by (simp add: ReadDoubleWordLE_fetch)
  have "read_parts (consume 4 r0) (ps_parts (PersistentState_new text))
      = (p, consume PersistentState_Size (consume 4 r0))"
    using r0 a x lp assms(2) default_ok [OF assms(3)] wf4
    by (intro container.read_repr) (simp_all add: size_values avail_consume rest_consume)
  then have 2: "read_parts (consume 4 r0) (ps_parts (PersistentState_new text)) = (p, consume 285 r0)"
    using consume_consume [of r0 4 281] r0 a by (simp add: size_values)
  have 3: "Reader_ReadDoubleWordLE (consume 285 r0) = (Signature, consume 4 (consume 285 r0))"
    "Reader_Status (consume 4 (consume 285 r0))"
    using r0 a x lp wf4
    by (simp_all add: ReadDoubleWordLE_fetch avail_consume rest_consume Reader_Status_def)
  show ?thesis
  proof (cases "sread base TotalImageSize st")
    case (Pair arr st')
    then have "arr = state_image p" using assms(1) by simp
    then show ?thesis
      unfolding ReadPersistentState_def PersistentState_Read_def Lockable_Load_def Pair
      using a 1 2 3 by (simp add: Reader_Status_def PersistentState_new_def flip: r0_def)
  qed
qed

section \<open>The flight configuration\<close>

definition fram_write :: "u32 \<Rightarrow> bytes \<Rightarrow> (fram, fdir) redundant_fm25w \<Rightarrow> (fram, fdir) redundant_fm25w" where
  "fram_write = PersistentStorage_Write (FM25W_Write fram_slave)"

text \<open>\<open>dest\<close>: the address in RAM of the buffer that is read into.\<close>

definition fram_read ::
  "u32 \<Rightarrow> u32 \<Rightarrow> nat \<Rightarrow> (fram, fdir) redundant_fm25w \<Rightarrow> bytes \<times> (fram, fdir) redundant_fm25w" where
  "fram_read dest = PersistentStorage_Read (FM25W_Read fram_slave) fram_report dest"

text \<open>
  C1. The persistent state survives a restart: whatever is in the three chips before, a state
  written to them and read back into any other state object, through a buffer anywhere, is restored,
  part by part, and is not marked modified.
\<close>
theorem persistent_state_roundtrip:
  assumes "parts_ok (ps_parts s)" and "length text < MessageLength"
    and "unat base + TotalImageSize \<le> 2 ^ 16"
    and "WritePersistentState fram_write True base s st = (ok, s', st')"
  shows "ok \<and> \<not> ps_modified s' \<and>
    (\<exists>st''. ReadPersistentState (fram_read dest) True text base t st'
       = (True, \<lparr>ps_parts = ps_parts s, ps_modified = False\<rparr>, st''))"
proof -
  have w: "ok" "s' = NotifySaved s" "st' = fram_write base (state_image (ps_parts s)) st"
    using assms(4) unfolding WritePersistentState_image [OF assms(1)] by simp_all
  have "fst (fram_read dest base (length (state_image (ps_parts s))) st') = state_image (ps_parts s)"
    unfolding w(3) fram_read_def fram_write_def
    using assms(3) by (intro flight.storage.read_written)
      (simp_all add: length_state_image [OF assms(1)] size_values)
  then show ?thesis
    using ReadPersistentState_image [of "fram_read dest" base st' "ps_parts s" "text" t] assms(1,2) w(1,2)
    by (simp add: length_state_image NotifySaved_def)
qed

lemma persistent_state_roundtrip_witness:
  "fst (WritePersistentState fram_write True 8 (PersistentState_new [72, 105])
     (let f = \<lparr>fr_mem = (\<lambda>_. 0), fr_latch = False\<rparr>
      in \<lparr>rf_chip0 = f, rf_chip1 = f, rf_chip2 = f, rf_errors = FDIR_new 0\<rparr>))"
  (is "fst (WritePersistentState _ _ _ _ ?st)")
proof -
  obtain ok s' st' where w: "WritePersistentState fram_write True 8 (PersistentState_new [72, 105]) ?st
      = (ok, s', st')" by (metis prod_cases3)
  have "parts_ok (ps_parts (PersistentState_new [72, 105]))"
    by (rule default_ok) (simp add: MessageLength_def)
  then have ok
    using persistent_state_roundtrip [OF _ _ _ w, of "[72, 105]"]
    by (simp add: MessageLength_def size_values)
  then show ?thesis unfolding w by simp
qed

lemma fram_read_def':
  "fram_read dest a n st = Redundant_Read (FM25W_Read fram_slave) fram_report dest (ucast a) n st"
  by (simp add: fram_read_def PersistentStorage_Read_def)

text \<open>
  C8. A range whose length is a multiple of four is read correctly whichever one of the three chips has
  lost its contents, when the buffer it is read into lies at a multiple of four. When it does not, the
  voter refuses, and what the first chip holds is returned, whatever the others hold.
\<close>
theorem fram_read_votes:
  assumes "unat a < 2 ^ 16" and "unat a + n \<le> 2 ^ 16" and "n mod 4 = 0"
    and "two \<in> {[rf_chip0, rf_chip1], [rf_chip0, rf_chip2], [rf_chip1, rf_chip2]}"
    and "\<forall>chip \<in> set two. cells (fr_mem (chip st)) (unat a) n = bs"
  shows "fst (fram_read dest a n st)
    = (if dest AND 3 = 0 then bs else cells (fr_mem (rf_chip0 st)) (unat a) n)"
proof (cases "dest AND 3 = 0")
  case False
  then show ?thesis
    using flight.storage_read_unaligned [where a = "ucast a :: u16" and n = n and outAddr = dest] assms(1,2)
    by (simp add: fram_read_def' narrow_address)
next
  case True
  define m where "m = overwrite (unat a) bs (\<lambda>_. 0)"
  have len: "length bs = n" using assms(4,5) length_cells by auto
  then have m: "cells m (unat a) n = bs" using cells_overwrite by (auto simp: m_def)
  have "fst (Redundant_Read (FM25W_Read fram_slave) fram_report dest (ucast a) n st)
      = cells m (unat (ucast a :: u16)) n"
  proof (rule flight.storage_read_vote)
    show "(cells (fr_mem (rf_chip0 st)) (unat (ucast a :: u16)) n = cells m (unat (ucast a :: u16)) n \<and>
        cells (fr_mem (rf_chip1 st)) (unat (ucast a :: u16)) n = cells m (unat (ucast a :: u16)) n) \<or>
      (cells (fr_mem (rf_chip0 st)) (unat (ucast a :: u16)) n = cells m (unat (ucast a :: u16)) n \<and>
        cells (fr_mem (rf_chip2 st)) (unat (ucast a :: u16)) n = cells m (unat (ucast a :: u16)) n) \<or>
      (cells (fr_mem (rf_chip1 st)) (unat (ucast a :: u16)) n = cells m (unat (ucast a :: u16)) n \<and>
        cells (fr_mem (rf_chip2 st)) (unat (ucast a :: u16)) n = cells m (unat (ucast a :: u16)) n)"
      using assms(1,4,5) by (auto simp: narrow_address m)
  qed (use assms(1-3) True in \<open>simp_all add: narrow_address\<close>)
  then show ?thesis using assms(1) m True by (simp add: fram_read_def' narrow_address)
qed

definition damaged_chips :: "(fram, fdir) redundant_fm25w" where
  "damaged_chips =
     (let good = \<lparr>fr_mem = (\<lambda>i. 7), fr_latch = False\<rparr>; bad = \<lparr>fr_mem = (\<lambda>i. 9), fr_latch = False\<rparr>
      in \<lparr>rf_chip0 = bad, rf_chip1 = good, rf_chip2 = good, rf_errors = FDIR_new 0\<rparr>)"

lemma fram_read_votes_witness:
  "fst (fram_read 0x20000100 16 8 damaged_chips) = replicate 8 7
   \<and> fst (fram_read 0x20000102 16 8 damaged_chips) = replicate 8 9"
  using fram_read_votes [where two = "[rf_chip1, rf_chip2]" and a = 16 and n = 8 and st = damaged_chips
      and bs = "replicate 8 7" and dest = "0x20000100"]
    fram_read_votes [where two = "[rf_chip1, rf_chip2]" and a = 16 and n = 8 and st = damaged_chips
      and bs = "replicate 8 7" and dest = "0x20000102"]
  by (simp add: damaged_chips_def Let_def cells_def map_replicate_const)

text \<open>
  The image of the persistent state is 289 bytes, which the voter refuses: damage of the first
  chip reaches the reader unrepaired although the other two chips agree.
\<close>
theorem persistent_state_not_voted:
  assumes "unat base + TotalImageSize \<le> 2 ^ 16"
  shows "fst (fram_read dest base TotalImageSize st)
    = cells (fr_mem (rf_chip0 st)) (unat base) TotalImageSize"
proof -
  have a: "unat (ucast base :: u16) = unat base"
    using assms by (intro narrow_address) (simp add: size_values)
  have "fst (Redundant_Read (FM25W_Read fram_slave) fram_report dest (ucast base) TotalImageSize st)
      = cells (fr_mem (rf_chip0 st)) (unat (ucast base :: u16)) TotalImageSize"
    using assms by (intro flight.storage_read_first) (simp_all add: a size_values)
  then show ?thesis by (simp add: fram_read_def' a)
qed

lemma persistent_state_not_voted_witness:
  "fst (fram_read 0 8 TotalImageSize
     (let good = \<lparr>fr_mem = (\<lambda>i. 7), fr_latch = False\<rparr>; bad = \<lparr>fr_mem = (\<lambda>i. 9), fr_latch = False\<rparr>
      in \<lparr>rf_chip0 = bad, rf_chip1 = good, rf_chip2 = good, rf_errors = FDIR_new 0\<rparr>))
   = cells (\<lambda>i. 9) 8 TotalImageSize"
  by (subst persistent_state_not_voted) (simp_all add: size_values Let_def)

text \<open>
  A rejected image leaves the state in use untouched, and an accepted one begins with the
  signature and has been read with the semaphore held.
\<close>
theorem ReadPersistentState_guard:
  assumes "ReadPersistentState sread taken default_text base s st = (ok, s', st')"
    and "fst (sread base TotalImageSize st) = array" and "length array = TotalImageSize"
  shows "(\<not> ok \<longrightarrow> s' = s) \<and> (ok \<longrightarrow> taken \<and> take 4 array = le_bytes 4 Signature)"
proof -
  have "array \<noteq> []" using assms(3) by (auto simp: size_values)
  then have "Reader_ReadDoubleWordLE (Reader_Initialize array)
      = (le_word (take 4 array), consume 4 (Reader_Initialize array))"
    using assms(3) by (simp add: ReadDoubleWordLE_fetch size_values)
  moreover have "take 4 array = le_bytes 4 Signature" if "(le_word (take 4 array) :: u32) = Signature"
    using le_bytes_le_word [of "take 4 array" 4, where ?'a = 32] that assms(3) by (simp add: size_values)
  ultimately show ?thesis
    using assms(1,2) unfolding ReadPersistentState_def Lockable_Load_def
    by (auto simp: split_beta Let_def split: if_splits)
qed

lemma ReadPersistentState_guard_witness:
  "let r = ReadPersistentState (\<lambda>a n st. (replicate n 0, st)) True [] 8 (PersistentState_new []) ()
   in \<not> fst r \<longrightarrow> fst (snd r) = PersistentState_new []"
proof -
  let ?read = "\<lambda>(a :: u32) n (st :: unit). (replicate n 0 :: bytes, st)"
  obtain ok s' st' where r: "ReadPersistentState ?read True [] 8 (PersistentState_new []) () = (ok, s', st')"
    by (metis prod_cases3)
  have "(\<not> ok \<longrightarrow> s' = PersistentState_new []) \<and>
      (ok \<longrightarrow> True \<and> take 4 (replicate TotalImageSize 0) = le_bytes 4 Signature)"
    by (rule ReadPersistentState_guard [OF r]) simp_all
  then show ?thesis unfolding r by simp
qed

end
