(* ===== verification/Adcs_Coordinator.thy ===== *)
theory Adcs_Coordinator
  imports Rtc
begin

text \<open>
  The attitude control coordinator of libs/adcs/AdcsCoordinator.cpp. The three processors are
  behind the interface \<open>IAdcsProcessor\<close>; here they are a record of functions on a world \<open>'w\<close>, indexed
  like the array \<open>adcsProcessors\<close>. Uptimes and what the queue delivers are inputs of each round.
\<close>

section \<open>The code\<close>

datatype AdcsMode =
    AdcsDisabled | AdcsStopped | BuiltinDetumbling | ExperimentalDetumbling | ExperimentalSunpointing

primrec num_AdcsMode :: "AdcsMode \<Rightarrow> int" where
  "num_AdcsMode AdcsDisabled = -2"
| "num_AdcsMode AdcsStopped = -1"
| "num_AdcsMode BuiltinDetumbling = 0"
| "num_AdcsMode ExperimentalDetumbling = 1"
| "num_AdcsMode ExperimentalSunpointing = 2"

record 'w processors =
  pr_Initialize :: "nat \<Rightarrow> 'w \<Rightarrow> OSResult \<times> 'w"
  pr_Enable :: "nat \<Rightarrow> 'w \<Rightarrow> OSResult \<times> 'w"
  pr_Disable :: "nat \<Rightarrow> 'w \<Rightarrow> OSResult \<times> 'w"
  pr_Process :: "nat \<Rightarrow> 'w \<Rightarrow> 'w"
  pr_GetWait :: "nat \<Rightarrow> 'w \<Rightarrow> int"

record 'w coordinator =
  ac_queue :: "AdcsMode list"
  ac_currentMode :: AdcsMode
  ac_adcsMasks :: "bool list"
  ac_world :: 'w

definition AdcsCoordinator_new :: "'w \<Rightarrow> 'w coordinator" where
  "AdcsCoordinator_new world =
     \<lparr>ac_queue = [], ac_currentMode = AdcsStopped, ac_adcsMasks = replicate 3 False,
      ac_world = world\<rparr>"

text \<open>
  \<open>Initialize\<close>: the results of creating the queue and the task are inputs; the processors are
  initialised in order until one fails.
\<close>

fun initialize_processors ::
  "(nat \<Rightarrow> 'w \<Rightarrow> OSResult \<times> 'w) \<Rightarrow> nat list \<Rightarrow> OSResult \<Rightarrow> 'w \<Rightarrow> OSResult \<times> 'w" where
  "initialize_processors init [] result world = (result, world)"
| "initialize_processors init (i # is) result world =
     (let (result, world) = init i world
      in if OS_RESULT_FAILED result then (result, world)
         else initialize_processors init is result world)"

definition AdcsCoordinator_Initialize ::
  "'w processors \<Rightarrow> OSResult \<Rightarrow> OSResult \<Rightarrow> 'w coordinator \<Rightarrow> OSResult \<times> 'w coordinator" where
  "AdcsCoordinator_Initialize pr queueResult taskResult c =
     (if OS_RESULT_FAILED queueResult then (queueResult, c)
      else if OS_RESULT_FAILED taskResult then (taskResult, c)
      else
        (let (result, world) =
               initialize_processors (pr_Initialize pr) [0, 1, 2] taskResult (ac_world c)
         in (result, c\<lparr>ac_world := world\<rparr>)))"

text \<open>\<open>Queue::Push\<close> with room for five requests: it gives up after five seconds when full.\<close>

definition RequestMode :: "AdcsMode \<Rightarrow> 'w coordinator \<Rightarrow> OSResult \<times> 'w coordinator" where
  "RequestMode mode c =
     (if length (ac_queue c) < 5 then (OS_Success, c\<lparr>ac_queue := ac_queue c @ [mode]\<rparr>)
      else (OS_Timeout, c))"

definition EnableBuiltinDetumbling :: "'w coordinator \<Rightarrow> OSResult \<times> 'w coordinator" where
  "EnableBuiltinDetumbling = RequestMode BuiltinDetumbling"

definition EnableExperimentalDetumbling :: "'w coordinator \<Rightarrow> OSResult \<times> 'w coordinator" where
  "EnableExperimentalDetumbling = RequestMode ExperimentalDetumbling"

definition EnableSunPointing :: "'w coordinator \<Rightarrow> OSResult \<times> 'w coordinator" where
  "EnableSunPointing = RequestMode ExperimentalSunpointing"

definition Coordinator_Stop :: "'w coordinator \<Rightarrow> OSResult \<times> 'w coordinator" where
  "Coordinator_Stop = RequestMode AdcsStopped"

definition Coordinator_Disable :: "'w coordinator \<Rightarrow> OSResult \<times> 'w coordinator" where
  "Coordinator_Disable = RequestMode AdcsDisabled"

definition SetBlockMode :: "AdcsMode \<Rightarrow> bool \<Rightarrow> 'w coordinator \<Rightarrow> 'w coordinator" where
  "SetBlockMode mode isBlocked c =
     (let index = num_AdcsMode mode
      in if index < 0 \<or> nat index \<ge> length (ac_adcsMasks c) then c
         else c\<lparr>ac_adcsMasks := (ac_adcsMasks c)[nat index := isBlocked]\<rparr>)"

definition IsModeBlocked :: "AdcsMode \<Rightarrow> 'w coordinator \<Rightarrow> bool" where
  "IsModeBlocked mode c =
     (let index = num_AdcsMode mode
      in if index < 0 \<or> nat index \<ge> length (ac_adcsMasks c) then True
         else ac_adcsMasks c ! nat index)"

text \<open>
  \<open>SwitchMode\<close>: first the mode in force is left, then the requested one is entered. The enumerators
  are the only values that reach it, so the \<open>default\<close> branches are those of the named modes beside
  them.
\<close>

definition enter_mode ::
  "'w processors \<Rightarrow> AdcsMode \<Rightarrow> AdcsMode \<Rightarrow> 'w coordinator \<Rightarrow> (AdcsMode \<times> bool) \<times> 'w coordinator" where
  "enter_mode pr previousMode requestedMode c =
     (if requestedMode \<in> {BuiltinDetumbling, ExperimentalDetumbling, ExperimentalSunpointing} then
        (if IsModeBlocked requestedMode c
         then ((ac_currentMode c, previousMode \<noteq> ac_currentMode c), c)
         else
           (let (status, world) = pr_Enable pr (nat (num_AdcsMode requestedMode)) (ac_world c);
                c = c\<lparr>ac_world := world\<rparr>;
                c = (if OS_RESULT_SUCCEEDED status then c\<lparr>ac_currentMode := requestedMode\<rparr> else c)
            in ((ac_currentMode c, previousMode \<noteq> ac_currentMode c), c)))
      else ((requestedMode, True), c\<lparr>ac_currentMode := requestedMode\<rparr>))"

definition leave_mode ::
  "'w processors \<Rightarrow> AdcsMode \<Rightarrow> 'w coordinator \<Rightarrow> OSResult \<times> 'w coordinator" where
  "leave_mode pr previousMode c =
     (let (status, world) = pr_Disable pr (nat (num_AdcsMode previousMode)) (ac_world c)
      in (status, c\<lparr>ac_currentMode := AdcsStopped, ac_world := world\<rparr>))"

definition SwitchMode ::
  "'w processors \<Rightarrow> AdcsMode \<Rightarrow> 'w coordinator \<Rightarrow> (AdcsMode \<times> bool) \<times> 'w coordinator" where
  "SwitchMode pr requestedMode c =
     (let previousMode = ac_currentMode c
      in if previousMode = requestedMode then ((requestedMode, False), c)
         else if previousMode \<in> {BuiltinDetumbling, ExperimentalDetumbling, ExperimentalSunpointing}
         then
           (let (status, c) = leave_mode pr previousMode c
            in if OS_RESULT_FAILED status then ((AdcsStopped, True), c)
               else enter_mode pr previousMode requestedMode c)
         else if previousMode = AdcsDisabled \<and> requestedMode \<noteq> AdcsStopped
         then ((previousMode, False), c)
         else enter_mode pr previousMode requestedMode c)"

definition Coordinator_Run ::
  "'w processors \<Rightarrow> AdcsMode \<Rightarrow> int \<Rightarrow> int \<Rightarrow> 'w coordinator \<Rightarrow> int \<times> 'w coordinator" where
  "Coordinator_Run pr mode startTime uptime c =
     (let i = nat (num_AdcsMode mode);
          world = pr_Process pr i (ac_world c);
          elapsed = uptime - startTime
      in (max 0 (pr_GetWait pr i world - elapsed), c\<lparr>ac_world := world\<rparr>))"

text \<open>
  One round of \<open>Loop\<close>. Its local variables are the mode, the timeout (\<open>None\<close> for
  \<open>InfiniteTimeout\<close>) and the time of the next iteration; \<open>up\<close> lists the values that successive calls
  of \<open>GetUptime\<close> return.
\<close>

record loop_locals =
  lo_mode :: AdcsMode
  lo_timeout :: "int option"
  lo_nextIterationAt :: int

definition Coordinator_Loop_start :: "int \<Rightarrow> loop_locals" where
  "Coordinator_Loop_start uptime =
     \<lparr>lo_mode = AdcsStopped, lo_timeout = Some 0, lo_nextIterationAt = uptime\<rparr>"

record loop_inputs =
  li_popped :: "AdcsMode option"
  li_switched :: int
  li_checked :: int
  li_processed :: int
  li_after :: int

definition loop_receive ::
  "'w processors \<Rightarrow> loop_inputs \<Rightarrow> loop_locals \<Rightarrow> 'w coordinator \<Rightarrow> loop_locals \<times> 'w coordinator" where
  "loop_receive pr i l c =
     (case li_popped i of
        None \<Rightarrow> (l, c)
      | Some newMode \<Rightarrow>
          (let ((mode, changed), c) = SwitchMode pr newMode c;
               l = l\<lparr>lo_mode := mode\<rparr>
           in (if changed then l\<lparr>lo_nextIterationAt := li_switched i\<rparr> else l, c)))"

definition loop_process ::
  "'w processors \<Rightarrow> loop_inputs \<Rightarrow> loop_locals \<Rightarrow> 'w coordinator \<Rightarrow> loop_locals \<times> 'w coordinator" where
  "loop_process pr i l c =
     (if lo_mode l \<in> {BuiltinDetumbling, ExperimentalDetumbling, ExperimentalSunpointing} then
        (if li_checked i \<ge> lo_nextIterationAt l then
           (let (timeout, c) =
                  Coordinator_Run pr (lo_mode l) (lo_nextIterationAt l) (li_processed i) c
            in (l\<lparr>lo_timeout := Some timeout, lo_nextIterationAt := li_after i + timeout\<rparr>, c))
         else (l\<lparr>lo_timeout := Some (max 0 (lo_nextIterationAt l - li_after i))\<rparr>, c))
      else (l\<lparr>lo_timeout := None\<rparr>, c))"

definition Coordinator_Loop_round ::
  "'w processors \<Rightarrow> loop_inputs \<Rightarrow> loop_locals \<Rightarrow> 'w coordinator \<Rightarrow> loop_locals \<times> 'w coordinator" where
  "Coordinator_Loop_round pr i l c =
     (let (l, c) = loop_receive pr i l c in loop_process pr i l c)"

section \<open>At most one algorithm runs\<close>

text \<open>
  What happens in a run, latest last: requests that are taken from the queue, modes that are blocked or
  allowed again, and the calls to the processors with their success. \<open>logged\<close> wraps arbitrary processors
  so that the world also keeps this list.
\<close>

datatype pcall =
    Call_Request | Call_Block nat bool | Call_Enable nat bool | Call_Disable nat bool | Call_Process nat

definition logged :: "'w processors \<Rightarrow> ('w \<times> pcall list) processors" where
  "logged pr =
     \<lparr>pr_Initialize = \<lambda>i (w, l). (let (r, w) = pr_Initialize pr i w in (r, w, l)),
      pr_Enable = \<lambda>i (w, l). (let (r, w) = pr_Enable pr i w
        in (r, w, l @ [Call_Enable i (OS_RESULT_SUCCEEDED r)])),
      pr_Disable = \<lambda>i (w, l). (let (r, w) = pr_Disable pr i w
        in (r, w, l @ [Call_Disable i (OS_RESULT_SUCCEEDED r)])),
      pr_Process = \<lambda>i (w, l). (pr_Process pr i w, l @ [Call_Process i]),
      pr_GetWait = \<lambda>i (w, l). pr_GetWait pr i w\<rparr>"

text \<open>
  What an observer of the list knows: the processors that run, which are those enabled and not disabled
  since; those of them that could not be disabled; whether disabling has failed in the request at hand;
  and the blocked modes.
\<close>

record pview =
  pv_running :: "nat set"
  pv_stuck :: "nat set"
  pv_failed :: bool
  pv_blocked :: "nat set"

primrec pcall_step :: "pcall \<Rightarrow> pview \<Rightarrow> pview" where
  "pcall_step Call_Request v = v\<lparr>pv_failed := False\<rparr>"
| "pcall_step (Call_Block i b) v =
     v\<lparr>pv_blocked := (if b then insert i (pv_blocked v) else pv_blocked v - {i})\<rparr>"
| "pcall_step (Call_Enable i ok) v =
     (if ok then v\<lparr>pv_running := insert i (pv_running v), pv_stuck := pv_stuck v - {i}\<rparr> else v)"
| "pcall_step (Call_Disable i ok) v =
     (if ok then v\<lparr>pv_running := pv_running v - {i}, pv_stuck := pv_stuck v - {i}\<rparr>
      else v\<lparr>pv_stuck := insert i (pv_stuck v), pv_failed := True\<rparr>)"
| "pcall_step (Call_Process i) v = v"

text \<open>
  The specification: a processor is enabled only when no other one runs, those that could not be disabled
  by an earlier request apart, when the request at hand has disabled what it had to, and when its mode is
  not blocked; a processor is disabled and processed only while it runs.
\<close>

primrec pcall_allowed :: "pcall \<Rightarrow> pview \<Rightarrow> bool" where
  "pcall_allowed Call_Request v \<longleftrightarrow> True"
| "pcall_allowed (Call_Block i b) v \<longleftrightarrow> True"
| "pcall_allowed (Call_Enable i ok) v \<longleftrightarrow> pv_running v \<subseteq> pv_stuck v \<and> \<not> pv_failed v \<and> i \<notin> pv_blocked v"
| "pcall_allowed (Call_Disable i ok) v \<longleftrightarrow> i \<in> pv_running v - pv_stuck v"
| "pcall_allowed (Call_Process i) v \<longleftrightarrow> i \<in> pv_running v - pv_stuck v"

definition seen :: "pcall list \<Rightarrow> pview" where
  "seen l = fold pcall_step l \<lparr>pv_running = {}, pv_stuck = {}, pv_failed = False, pv_blocked = {}\<rparr>"

definition orderly :: "pcall list \<Rightarrow> bool" where
  "orderly l \<longleftrightarrow> (\<forall>k < length l. pcall_allowed (l ! k) (seen (take k l)))"

lemma seen_snoc [simp]:
  "seen [] = \<lparr>pv_running = {}, pv_stuck = {}, pv_failed = False, pv_blocked = {}\<rparr>"
  "seen (l @ [x]) = pcall_step x (seen l)"
  by (simp_all add: seen_def)

lemma orderly_snoc [simp]: "orderly []" "orderly (l @ [x]) \<longleftrightarrow> orderly l \<and> pcall_allowed x (seen l)"
  by (auto simp: orderly_def nth_append less_Suc_eq)

lemma no_failure_not_stuck:
  "\<forall>i. Call_Disable i False \<notin> set l \<Longrightarrow> pv_stuck (seen l) = {}"
proof (induction l rule: rev_induct)
  case (snoc x l)
  then show ?case by (cases x) auto
qed simp

definition mode_processors :: "AdcsMode \<Rightarrow> nat set" where
  "mode_processors m = (if num_AdcsMode m < 0 then {} else {nat (num_AdcsMode m)})"

lemma mode_processors_simps [simp]:
  "mode_processors AdcsDisabled = {}" "mode_processors AdcsStopped = {}"
  "mode_processors BuiltinDetumbling = {0}" "mode_processors ExperimentalDetumbling = {1}"
  "mode_processors ExperimentalSunpointing = {2}"
  by (simp_all add: mode_processors_def)

text \<open>The invariant of the coordinator; \<open>pv_stuck\<close> are those that were given up.\<close>

definition coordinator_inv :: "('w \<times> pcall list) coordinator \<Rightarrow> bool" where
  "coordinator_inv c \<longleftrightarrow>
     (let l = snd (ac_world c)
      in orderly l \<and> pv_running (seen l) - pv_stuck (seen l) = mode_processors (ac_currentMode c)
         \<and> length (ac_adcsMasks c) = 3 \<and> (\<forall>i < 3. ac_adcsMasks c ! i \<longleftrightarrow> i \<in> pv_blocked (seen l)))"

definition disabling_failed :: "('w \<times> pcall list) coordinator \<Rightarrow> bool" where
  "disabling_failed c = pv_failed (seen (snd (ac_world c)))"

lemmas coordinator_defs = coordinator_inv_def disabling_failed_def logged_def Let_def split_beta

lemma enter_mode_inv:
  assumes "enter_mode (logged pr) p m c = (r, c')" and "coordinator_inv c" and "\<not> disabling_failed c"
    and "mode_processors (ac_currentMode c) = {}"
  shows "coordinator_inv c' \<and> fst r = ac_currentMode c'"
proof (cases "m \<in> {BuiltinDetumbling, ExperimentalDetumbling, ExperimentalSunpointing} \<and> \<not> IsModeBlocked m c")
  case True
  define i where "i = nat (num_AdcsMode m)"
  have i: "i < 3" "mode_processors m = {i}" using True by (auto simp: i_def)
  have "i \<notin> pv_blocked (seen (snd (ac_world c)))"
    using True i(1) assms(2) by (auto simp: i_def IsModeBlocked_def coordinator_inv_def Let_def split: if_splits)
  then show ?thesis
    using assms True i by (auto simp: enter_mode_def i_def [symmetric] coordinator_defs split: if_splits)
next
  case False
  then show ?thesis using assms by (cases m) (auto simp: enter_mode_def coordinator_defs split: if_splits)
qed

lemma leave_mode_inv:
  assumes "leave_mode (logged pr) (ac_currentMode c) c = (status, c')" and "coordinator_inv c"
    and "0 \<le> num_AdcsMode (ac_currentMode c)" and "\<not> disabling_failed c"
  shows "coordinator_inv c' \<and> ac_currentMode c' = AdcsStopped \<and> (disabling_failed c' \<longleftrightarrow> OS_RESULT_FAILED status)"
  using assms
  by (cases "OS_RESULT_FAILED status")
    (auto simp: leave_mode_def coordinator_defs mode_processors_def OS_RESULT_FAILED_def OS_RESULT_SUCCEEDED_def)

lemma SwitchMode_inv:
  assumes "SwitchMode (logged pr) m c = (r, c')" and "coordinator_inv c" and "\<not> disabling_failed c"
  shows "coordinator_inv c' \<and> fst r = ac_currentMode c'"
proof (cases "0 \<le> num_AdcsMode (ac_currentMode c) \<and> ac_currentMode c \<noteq> m")
  case True
  obtain status d where d: "leave_mode (logged pr) (ac_currentMode c) c = (status, d)" by fastforce
  have "ac_currentMode c \<in> {BuiltinDetumbling, ExperimentalDetumbling, ExperimentalSunpointing}"
    using True by (cases "ac_currentMode c") simp_all
  then show ?thesis
    using assms(1) True d leave_mode_inv [OF d assms(2) _ assms(3)] enter_mode_inv [of pr _ m d r c']
    by (auto simp: SwitchMode_def split: if_splits)
next
  case False
  then have "ac_currentMode c = m \<or> mode_processors (ac_currentMode c) = {}"
    by (auto simp: mode_processors_def)
  then show ?thesis
    using assms enter_mode_inv [OF _ assms(2,3), of pr _ m r c'] False
    by (cases "ac_currentMode c") (auto simp: SwitchMode_def split: if_splits)
qed

lemma blocked_not_entered:
  assumes "SwitchMode pr m c = (r, c')" and "IsModeBlocked m c" and "m \<noteq> ac_currentMode c"
    and "0 \<le> num_AdcsMode m"
  shows "ac_currentMode c' \<noteq> m"
proof -
  have e: "ac_currentMode d' = ac_currentMode d"
    if "enter_mode pr p m d = (s, d')" "IsModeBlocked m d" for p d s d'
    using that assms(4) by (cases m) (auto simp: enter_mode_def split: if_splits)
  obtain status d where l: "leave_mode pr (ac_currentMode c) c = (status, d)" by fastforce
  then have d: "IsModeBlocked m d" "ac_currentMode d = AdcsStopped"
    using assms(2) by (auto simp: leave_mode_def IsModeBlocked_def split_beta Let_def)
  have m: "m \<noteq> AdcsStopped" using assms(4) by auto
  have "c' = c \<or> c' = d \<or> (\<exists>p. enter_mode pr p m c = (r, c')) \<or> (\<exists>p. enter_mode pr p m d = (r, c'))"
    using assms(1,3) l by (auto simp: SwitchMode_def Let_def split: if_splits)
  then show ?thesis
    using e [OF _ d(1)] e [OF _ assms(2)] d(2) m assms(3) by metis
qed

text \<open>
  Everything that can happen to the coordinator, one event at a time. The list notes the request that a
  round takes from the queue, before it acts on it, and the modes blocked.
\<close>

datatype coordinator_event = Ev_round loop_inputs | Ev_block AdcsMode bool | Ev_request AdcsMode

definition noted :: "pcall \<Rightarrow> ('w \<times> pcall list) coordinator \<Rightarrow> ('w \<times> pcall list) coordinator" where
  "noted x c = c\<lparr>ac_world := (fst (ac_world c), snd (ac_world c) @ [x])\<rparr>"

primrec coordinator_step ::
  "'w processors \<Rightarrow> coordinator_event \<Rightarrow> loop_locals \<times> ('w \<times> pcall list) coordinator
     \<Rightarrow> loop_locals \<times> ('w \<times> pcall list) coordinator" where
  "coordinator_step pr (Ev_round i) s =
     Coordinator_Loop_round (logged pr) i (fst s) (if li_popped i = None then snd s else noted Call_Request (snd s))"
| "coordinator_step pr (Ev_block m b) s =
     (fst s, if 0 \<le> num_AdcsMode m then noted (Call_Block (nat (num_AdcsMode m)) b) (SetBlockMode m b (snd s))
             else SetBlockMode m b (snd s))"
| "coordinator_step pr (Ev_request m) s = (fst s, snd (RequestMode m (snd s)))"

lemma Coordinator_Run_inv:
  assumes "coordinator_inv c" and "0 \<le> num_AdcsMode (ac_currentMode c)"
    and "Coordinator_Run (logged pr) (ac_currentMode c) start uptime c = (timeout, c')"
  shows "coordinator_inv c' \<and> ac_currentMode c' = ac_currentMode c"
  using assms by (auto simp: Coordinator_Run_def coordinator_defs mode_processors_def)

lemma loop_process_inv:
  assumes "coordinator_inv c" and "lo_mode l = ac_currentMode c"
    and "loop_process (logged pr) i l c = (l', c')"
  shows "coordinator_inv c' \<and> lo_mode l' = ac_currentMode c'"
proof (cases "0 \<le> num_AdcsMode (ac_currentMode c)")
  case True
  then show ?thesis
    using assms Coordinator_Run_inv [OF assms(1) True, of pr]
    by (auto simp: loop_process_def split: if_splits prod.splits)
next
  case False
  then have "lo_mode l \<notin> {BuiltinDetumbling, ExperimentalDetumbling, ExperimentalSunpointing}"
    using assms(2) by auto
  then show ?thesis using assms by (auto simp: loop_process_def)
qed

lemma noted_request:
  assumes "coordinator_inv c"
  shows "coordinator_inv (noted Call_Request c)" "\<not> disabling_failed (noted Call_Request c)"
    "ac_currentMode (noted Call_Request c) = ac_currentMode c"
  using assms by (simp_all add: noted_def coordinator_inv_def disabling_failed_def Let_def)

lemma coordinator_step_inv:
  assumes "coordinator_inv (snd s)" and "lo_mode (fst s) = ac_currentMode (snd s)"
  shows "coordinator_inv (snd (coordinator_step pr e s)) \<and>
    lo_mode (fst (coordinator_step pr e s)) = ac_currentMode (snd (coordinator_step pr e s))"
proof (cases e)
  case (Ev_round i)
  obtain l c where s: "s = (l, c)" by fastforce
  define d where "d = (if li_popped i = None then c else noted Call_Request c)"
  have d: "coordinator_inv d" "ac_currentMode d = ac_currentMode c" "li_popped i \<noteq> None \<Longrightarrow> \<not> disabling_failed d"
    using assms noted_request [of c] by (auto simp: d_def s)
  obtain l' c' where lc: "loop_receive (logged pr) i l d = (l', c')" by fastforce
  have inv: "coordinator_inv c'" "lo_mode l' = ac_currentMode c'"
    using lc assms d SwitchMode_inv [OF prod.collapse [symmetric], where pr = pr and c = d] s
    by (auto simp: loop_receive_def split_beta Let_def split: option.splits if_splits)
  have "coordinator_step pr e s = loop_process (logged pr) i l' c'"
    using lc by (auto simp: Ev_round s d_def Coordinator_Loop_round_def split: if_splits)
  then show ?thesis
    using loop_process_inv [OF inv prod.collapse [symmetric], of pr i] by simp
next
  case (Ev_block m b)
  have "num_AdcsMode m < 3" by (cases m) simp_all
  then show ?thesis
    using assms by (auto simp: Ev_block SetBlockMode_def noted_def coordinator_inv_def Let_def nth_list_update)
next
  case (Ev_request m)
  then show ?thesis using assms by (simp add: RequestMode_def coordinator_inv_def)
qed

lemma coordinator_run_inv:
  "coordinator_inv (snd (fold (coordinator_step pr) es (Coordinator_Loop_start t, AdcsCoordinator_new (w, []))))"
proof -
  have "coordinator_inv (snd (fold (coordinator_step pr) es s)) \<and>
      lo_mode (fst (fold (coordinator_step pr) es s)) = ac_currentMode (snd (fold (coordinator_step pr) es s))"
    if "coordinator_inv (snd s)" "lo_mode (fst s) = ac_currentMode (snd s)" for s
    using that by (induction es arbitrary: s) (simp_all add: coordinator_step_inv)
  then show ?thesis
    by (simp add: coordinator_inv_def AdcsCoordinator_new_def Coordinator_Loop_start_def Let_def nth_Cons split: nat.split)
qed

text \<open>
  C32. Whatever is requested, blocked or fails, the calls of the coordinator are orderly: an attitude
  control algorithm is enabled only while its mode is not blocked, never in a request whose disabling of
  the algorithm before has failed, and only while none runs but those that could not be disabled by an
  earlier request; it is processed only while it runs. The one that runs, those apart, is that of the mode
  the coordinator reports; as long as no disabling has failed, there are no others.
\<close>

theorem coordinator_orderly:
  "let c = snd (fold (coordinator_step pr) es (Coordinator_Loop_start t, AdcsCoordinator_new (w, [])));
       l = snd (ac_world c)
   in orderly l
      \<and> pv_running (seen l) - pv_stuck (seen l) = mode_processors (ac_currentMode c)
      \<and> ((\<forall>i. Call_Disable i False \<notin> set l) \<longrightarrow> pv_running (seen l) = mode_processors (ac_currentMode c))"
  using coordinator_run_inv [of pr es t w] no_failure_not_stuck
  by (fastforce simp: coordinator_inv_def Let_def)

text \<open>
  A run with an algorithm that starts, is processed and is stopped, and one in which its mode is blocked
  afterwards and requested again.
\<close>

definition pop_mode :: "AdcsMode \<Rightarrow> coordinator_event" where
  "pop_mode m = Ev_round \<lparr>li_popped = Some m, li_switched = 0, li_checked = 0, li_processed = 0, li_after = 0\<rparr>"

definition example_processors :: "OSResult \<Rightarrow> unit processors" where
  "example_processors disabling =
     \<lparr>pr_Initialize = \<lambda>_ w. (OS_Success, w), pr_Enable = \<lambda>_ w. (OS_Success, w), pr_Disable = \<lambda>_ w. (disabling, w),
      pr_Process = \<lambda>_ w. w, pr_GetWait = \<lambda>_ w. 0\<rparr>"

definition example_run :: "OSResult \<Rightarrow> coordinator_event list \<Rightarrow> (unit \<times> pcall list) coordinator" where
  "example_run disabling es = snd (fold (coordinator_step (example_processors disabling)) es
     (Coordinator_Loop_start 0, AdcsCoordinator_new ((), [])))"

definition example_log :: "OSResult \<Rightarrow> coordinator_event list \<Rightarrow> pcall list" where
  "example_log disabling es = snd (ac_world (example_run disabling es))"

lemmas example_run_simps = example_log_def example_run_def example_processors_def pop_mode_def Coordinator_Loop_round_def
  loop_receive_def SwitchMode_def enter_mode_def leave_mode_def loop_process_def Coordinator_Run_def IsModeBlocked_def
  SetBlockMode_def noted_def logged_def AdcsCoordinator_new_def Coordinator_Loop_start_def Let_def
  OS_RESULT_FAILED_def OS_RESULT_SUCCEEDED_def

theorem coordinator_orderly_witness:
  "example_log OS_Success [pop_mode BuiltinDetumbling, pop_mode AdcsStopped, Ev_block BuiltinDetumbling True,
       pop_mode BuiltinDetumbling]
     = [Call_Request, Call_Enable 0 True, Call_Process 0, Call_Request, Call_Disable 0 True, Call_Block 0 True,
        Call_Request]
   \<and> pv_running (seen (example_log OS_Success [pop_mode BuiltinDetumbling, pop_mode AdcsStopped,
       Ev_block BuiltinDetumbling True, pop_mode BuiltinDetumbling])) = {}"
proof -
  let ?es = "[pop_mode BuiltinDetumbling, pop_mode AdcsStopped, Ev_block BuiltinDetumbling True, pop_mode BuiltinDetumbling]"
  have l: "example_log OS_Success ?es
     = [Call_Request, Call_Enable 0 True, Call_Process 0, Call_Request, Call_Disable 0 True, Call_Block 0 True,
        Call_Request]" and m: "ac_currentMode (example_run OS_Success ?es) = AdcsStopped"
    by (simp_all add: example_run_simps)
  note orderly = coordinator_orderly [of "example_processors OS_Success" ?es 0 "()", folded example_run_def,
      unfolded Let_def, folded example_log_def]
  have "\<forall>i. Call_Disable i False \<notin> set (example_log OS_Success ?es)" by (simp add: l)
  then have "pv_running (seen (example_log OS_Success ?es)) = mode_processors (ac_currentMode (example_run OS_Success ?es))"
    using orderly by blast
  then show ?thesis using l m by simp
qed

text \<open>
  An algorithm that cannot be disabled is reported as stopped, and the next request enables another one
  beside it.
\<close>

theorem stuck_algorithm_joined:
  "pv_running (seen (example_log OS_Timeout
     [pop_mode BuiltinDetumbling, pop_mode ExperimentalDetumbling, pop_mode ExperimentalDetumbling])) = {0, 1}"
proof -
  have "example_log OS_Timeout [pop_mode BuiltinDetumbling, pop_mode ExperimentalDetumbling, pop_mode ExperimentalDetumbling]
      = [Call_Request, Call_Enable 0 True, Call_Process 0, Call_Request, Call_Disable 0 False,
         Call_Request, Call_Enable 1 True, Call_Process 1]"
    by (simp add: example_run_simps)
  then show ?thesis by (simp add: seen_def insert_commute)
qed

end
