(* ===== verification/Experiment_Controller.thy ===== *)
theory Experiment_Controller
  imports Rtc
begin

text \<open>
  The experiment controller of libs/experiments/experiments.cpp. An experiment is a record of
  functions on a world \<open>'w\<close>. The background task is a program counter and one function per state of
  it, cut at every access to the event group or to the members behind the lock; the mission loop
  and the telecommands act between its steps (\<open>controller_step\<close>). Waits are infinite, so taking the
  lock always succeeds.
\<close>

section \<open>The code\<close>

type_synonym ExperimentCode = u8

datatype StartResult = StartResult_Success | StartResult_Failure

datatype IterationResult =
    Iteration_None | Iteration_Finished | Iteration_LoopImmediately | Iteration_WaitForNextCycle
  | Iteration_Failure

record 'w iexperiment =
  ex_Type :: ExperimentCode
  ex_Start :: "'w \<Rightarrow> StartResult \<times> 'w"
  ex_Iteration :: "'w \<Rightarrow> IterationResult \<times> 'w"
  ex_Stop :: "IterationResult \<Rightarrow> 'w \<Rightarrow> 'w"

record ExperimentState =
  es_RequestedExperiment :: "ExperimentCode option"
  es_CurrentExperiment :: "ExperimentCode option"
  es_LastStartResult :: "StartResult option"
  es_LastIterationResult :: "IterationResult option"
  es_IterationCounter :: u32

text \<open>
  Where the background task is: waiting on its queue, clearing the abort flag, raising the progress
  flag, recording the experiment; before \<open>Start\<close>, before the abort check of the loop, before
  \<open>Iteration\<close>, waiting for the mission loop, before \<open>Stop\<close>; recording the end, lowering the flag.
\<close>

datatype task_pc =
    At_pop | At_clear ExperimentCode | At_mark ExperimentCode | At_record ExperimentCode
  | At_start ExperimentCode | At_check ExperimentCode | At_iterate ExperimentCode
  | At_wait ExperimentCode | At_stop ExperimentCode IterationResult | At_end | At_unmark

text \<open>The calls made to the experiments, for the statements below.\<close>

datatype experiment_call =
    Call_Start ExperimentCode StartResult
  | Call_Iteration ExperimentCode IterationResult
  | Call_Stop ExperimentCode IterationResult

record 'w controller =
  ct_InProgress :: bool
  ct_AbortRequest :: bool
  ct_MissionLoopIterationStarted :: bool
  ct_MissionLoopNotificationReqested :: bool
  ct_queue :: "ExperimentCode option"
  ct_requestedExperiment :: "ExperimentCode option"
  ct_currentExperiment :: "ExperimentCode option"
  ct_lastStartResult :: "StartResult option"
  ct_lastIterationResult :: "IterationResult option"
  ct_iterationCounter :: u32
  ct_pc :: task_pc
  ct_world :: 'w
  ct_calls :: "experiment_call list"

definition ExperimentController_new :: "'w \<Rightarrow> 'w controller" where
  "ExperimentController_new w =
     \<lparr>ct_InProgress = False, ct_AbortRequest = False, ct_MissionLoopIterationStarted = False,
      ct_MissionLoopNotificationReqested = False, ct_queue = None, ct_requestedExperiment = None,
      ct_currentExperiment = None, ct_lastStartResult = None, ct_lastIterationResult = None,
      ct_iterationCounter = 0, ct_pc = At_pop, ct_world = w, ct_calls = []\<rparr>"

definition RequestExperiment :: "ExperimentCode \<Rightarrow> 'w controller \<Rightarrow> bool \<times> 'w controller" where
  "RequestExperiment e c =
     (if ct_InProgress c then (False, c)
      else (True, c\<lparr>ct_requestedExperiment := Some e\<rparr>))"

definition AbortExperiment :: "'w controller \<Rightarrow> 'w controller" where
  "AbortExperiment c = c\<lparr>ct_AbortRequest := True\<rparr>"

definition IsExperimentRequested :: "'w controller \<Rightarrow> bool" where
  "IsExperimentRequested c \<longleftrightarrow> ct_requestedExperiment c \<noteq> None"

text \<open>\<open>StartExperiment\<close> without a request would read an empty \<open>Option\<close>; its caller checks first.\<close>

definition StartExperiment :: "'w controller \<Rightarrow> 'w controller option" where
  "StartExperiment c =
     (case ct_requestedExperiment c of
        None \<Rightarrow> None
      | Some e \<Rightarrow> Some (c\<lparr>ct_queue := Some e, ct_requestedExperiment := None\<rparr>))"

definition NotifyLoopIterationStart :: "'w controller \<Rightarrow> 'w controller" where
  "NotifyLoopIterationStart c =
     (if ct_MissionLoopNotificationReqested c
      then c\<lparr>ct_MissionLoopNotificationReqested := False, ct_MissionLoopIterationStarted := True\<rparr>
      else c)"

definition CurrentState :: "'w controller \<Rightarrow> ExperimentState" where
  "CurrentState c =
     \<lparr>es_RequestedExperiment = ct_requestedExperiment c,
      es_CurrentExperiment = ct_currentExperiment c,
      es_LastStartResult = ct_lastStartResult c,
      es_LastIterationResult = ct_lastIterationResult c,
      es_IterationCounter = ct_iterationCounter c\<rparr>"

definition find_experiment :: "'w iexperiment list \<Rightarrow> ExperimentCode \<Rightarrow> 'w iexperiment option" where
  "find_experiment exps e = find (\<lambda>x. ex_Type x = e) exps"

text \<open>\<open>BackgroundTask\<close> and \<open>RunExperiment\<close>; \<open>None\<close> while the task is blocked.\<close>

definition task_step :: "'w iexperiment list \<Rightarrow> 'w controller \<Rightarrow> 'w controller option" where
  "task_step exps c =
     (case ct_pc c of
        At_pop \<Rightarrow>
          (case ct_queue c of
             None \<Rightarrow> None
           | Some e \<Rightarrow>
               (if find_experiment exps e = None then Some (c\<lparr>ct_queue := None\<rparr>)
                else Some (c\<lparr>ct_queue := None, ct_pc := At_clear e\<rparr>)))
      | At_clear e \<Rightarrow> Some (c\<lparr>ct_AbortRequest := False, ct_pc := At_mark e\<rparr>)
      | At_mark e \<Rightarrow> Some (c\<lparr>ct_InProgress := True, ct_pc := At_record e\<rparr>)
      | At_record e \<Rightarrow>
          Some (c\<lparr>ct_currentExperiment := Some e, ct_lastIterationResult := None,
                 ct_lastStartResult := None, ct_iterationCounter := 0, ct_pc := At_start e\<rparr>)
      | At_start e \<Rightarrow>
          (let (r, w) = ex_Start (the (find_experiment exps e)) (ct_world c)
           in Some (c\<lparr>ct_world := w, ct_calls := ct_calls c @ [Call_Start e r],
                     ct_lastStartResult := Some r, ct_iterationCounter := 0,
                     ct_pc := (if r \<noteq> StartResult_Success then At_end else At_check e)\<rparr>))
      | At_check e \<Rightarrow>
          (if ct_AbortRequest c
           then Some (c\<lparr>ct_AbortRequest := False, ct_pc := At_stop e Iteration_Failure\<rparr>)
           else Some (c\<lparr>ct_MissionLoopIterationStarted := False, ct_pc := At_iterate e\<rparr>))
      | At_iterate e \<Rightarrow>
          (let (r, w) = ex_Iteration (the (find_experiment exps e)) (ct_world c);
               c = c\<lparr>ct_world := w, ct_calls := ct_calls c @ [Call_Iteration e r],
                     ct_lastIterationResult := Some r,
                     ct_iterationCounter := ct_iterationCounter c + 1\<rparr>
           in if r = Iteration_Finished \<or> r = Iteration_Failure then Some (c\<lparr>ct_pc := At_stop e r\<rparr>)
              else if r = Iteration_WaitForNextCycle
              then Some (c\<lparr>ct_MissionLoopNotificationReqested := True, ct_pc := At_wait e\<rparr>)
              else Some (c\<lparr>ct_pc := At_check e\<rparr>))
      | At_wait e \<Rightarrow>
          (if ct_MissionLoopIterationStarted c \<or> ct_AbortRequest c then Some (c\<lparr>ct_pc := At_check e\<rparr>)
           else None)
      | At_stop e r \<Rightarrow>
          Some (c\<lparr>ct_world := ex_Stop (the (find_experiment exps e)) r (ct_world c),
                 ct_calls := ct_calls c @ [Call_Stop e r], ct_pc := At_end\<rparr>)
      | At_end \<Rightarrow> Some (c\<lparr>ct_currentExperiment := None, ct_pc := At_unmark\<rparr>)
      | At_unmark \<Rightarrow> Some (c\<lparr>ct_InProgress := False, ct_pc := At_pop\<rparr>))"

text \<open>
  All interleavings of the task with the rest of the satellite. A request may take effect although
  an experiment has meanwhile started: \<open>RequestExperiment\<close> tests the flag before it takes the lock.
\<close>

inductive controller_step :: "'w iexperiment list \<Rightarrow> 'w controller \<Rightarrow> 'w controller \<Rightarrow> bool"
  for exps :: "'w iexperiment list" where
  task: "task_step exps c = Some c' \<Longrightarrow> controller_step exps c c'"
| request: "controller_step exps c (c\<lparr>ct_requestedExperiment := Some e\<rparr>)"
| abort: "controller_step exps c (AbortExperiment c)"
| start: "StartExperiment c = Some c' \<Longrightarrow> controller_step exps c c'"
| notify: "controller_step exps c (NotifyLoopIterationStart c)"

inductive_cases controller_stepE: "controller_step exps c c'"
inductive_simps controller_step_iff: "controller_step exps c c'"

section \<open>The protocol of an experiment\<close>

text \<open>
  What an experiment may rely on, as an automaton over the calls: a start; if it succeeds,
  iterations until one finishes or fails; then exactly one stop, told how the last iteration ended,
  or told of a failure when the experiment is aborted between two iterations.
\<close>

datatype protocol =
    Proto_idle | Proto_running ExperimentCode | Proto_ended ExperimentCode IterationResult
  | Proto_broken

primrec protocol_step :: "experiment_call \<Rightarrow> protocol \<Rightarrow> protocol" where
  "protocol_step (Call_Start e r) p =
     (if p = Proto_idle then (if r = StartResult_Success then Proto_running e else Proto_idle)
      else Proto_broken)"
| "protocol_step (Call_Iteration e r) p =
     (if p = Proto_running e
      then (if r = Iteration_Finished \<or> r = Iteration_Failure then Proto_ended e r else p)
      else Proto_broken)"
| "protocol_step (Call_Stop e r) p =
     (if p = Proto_ended e r \<or> p = Proto_running e \<and> r = Iteration_Failure then Proto_idle
      else Proto_broken)"

definition protocol_of :: "experiment_call list \<Rightarrow> protocol" where
  "protocol_of l = fold protocol_step l Proto_idle"

lemma protocol_of_simps [simp]:
  "protocol_of [] = Proto_idle" "protocol_of (l @ [x]) = protocol_step x (protocol_of l)"
  by (simp_all add: protocol_of_def)

text \<open>Where the protocol stands at each point of the task, and what the members show.\<close>

primrec pc_protocol :: "task_pc \<Rightarrow> protocol set" where
  "pc_protocol At_pop = {Proto_idle}"
| "pc_protocol (At_clear e) = {Proto_idle}"
| "pc_protocol (At_mark e) = {Proto_idle}"
| "pc_protocol (At_record e) = {Proto_idle}"
| "pc_protocol (At_start e) = {Proto_idle}"
| "pc_protocol (At_check e) = {Proto_running e}"
| "pc_protocol (At_iterate e) = {Proto_running e}"
| "pc_protocol (At_wait e) = {Proto_running e}"
| "pc_protocol (At_stop e r) = {Proto_ended e r} \<union> (if r = Iteration_Failure then {Proto_running e} else {})"
| "pc_protocol At_end = {Proto_idle}"
| "pc_protocol At_unmark = {Proto_idle}"

primrec pc_experiment :: "task_pc \<Rightarrow> ExperimentCode option" where
  "pc_experiment At_pop = None"
| "pc_experiment (At_clear e) = Some e"
| "pc_experiment (At_mark e) = Some e"
| "pc_experiment (At_record e) = Some e"
| "pc_experiment (At_start e) = Some e"
| "pc_experiment (At_check e) = Some e"
| "pc_experiment (At_iterate e) = Some e"
| "pc_experiment (At_wait e) = Some e"
| "pc_experiment (At_stop e r) = Some e"
| "pc_experiment At_end = None"
| "pc_experiment At_unmark = None"

definition pc_unmarked :: "task_pc \<Rightarrow> bool" where
  "pc_unmarked pc \<longleftrightarrow> (case pc of At_pop \<Rightarrow> True | At_clear e \<Rightarrow> True | At_mark e \<Rightarrow> True | _ \<Rightarrow> False)"

definition pc_recorded :: "task_pc \<Rightarrow> bool" where
  "pc_recorded pc \<longleftrightarrow> (case pc of At_pop \<Rightarrow> False | At_clear e \<Rightarrow> False | At_mark e \<Rightarrow> False
     | At_record e \<Rightarrow> False | At_unmark \<Rightarrow> False | _ \<Rightarrow> True)"

definition controller_inv :: "'w iexperiment list \<Rightarrow> 'w controller \<Rightarrow> bool" where
  "controller_inv exps c \<longleftrightarrow>
     protocol_of (ct_calls c) \<in> pc_protocol (ct_pc c) \<and>
     (ct_InProgress c \<longleftrightarrow> \<not> pc_unmarked (ct_pc c)) \<and>
     (ct_currentExperiment c \<noteq> None \<longleftrightarrow> pc_recorded (ct_pc c)) \<and>
     (\<forall>e. pc_experiment (ct_pc c) = Some e \<longrightarrow> find_experiment exps e \<noteq> None \<and>
        (pc_recorded (ct_pc c) \<longrightarrow> ct_currentExperiment c = Some e))"

lemma task_step_inv:
  assumes "task_step exps c = Some c'" and "controller_inv exps c"
  shows "controller_inv exps c'"
  using assms
  by (cases "ct_pc c")
    (auto simp: task_step_def controller_inv_def pc_unmarked_def pc_recorded_def Let_def split_beta
      split: if_splits option.splits)

lemma controller_step_inv:
  assumes "controller_step exps c c'" and "controller_inv exps c"
  shows "controller_inv exps c'"
  using assms
proof (cases rule: controller_step.cases)
  case task
  then show ?thesis using assms(2) by (rule task_step_inv)
qed (use assms(2) in \<open>auto simp: controller_inv_def AbortExperiment_def StartExperiment_def
  NotifyLoopIterationStart_def split: option.splits\<close>)

lemma controller_reach_inv:
  assumes "(controller_step exps)\<^sup>*\<^sup>* (ExperimentController_new w) c"
  shows "controller_inv exps c"
  using assms
proof induction
  case base
  show ?case
    by (simp add: controller_inv_def ExperimentController_new_def pc_unmarked_def pc_recorded_def)
next
  case (step c c')
  then show ?case using controller_step_inv by blast
qed

text \<open>
  C33. In every interleaving with requests, aborts and the mission loop the experiments see their
  protocol kept: each successful start is followed by exactly one stop, with the right result,
  before the next start. Whenever the controller shows a current experiment it is a registered one
  and the progress flag is up.
\<close>
theorem experiment_protocol:
  assumes "(controller_step exps)\<^sup>*\<^sup>* (ExperimentController_new w) c"
  shows "protocol_of (ct_calls c) \<noteq> Proto_broken \<and>
    (es_CurrentExperiment (CurrentState c) \<noteq> None \<longrightarrow> ct_InProgress c) \<and>
    (ct_pc c = At_pop \<longrightarrow> protocol_of (ct_calls c) = Proto_idle \<and> \<not> ct_InProgress c)"
proof -
  have inv: "controller_inv exps c" using assms by (rule controller_reach_inv)
  then have "Proto_broken \<notin> pc_protocol (ct_pc c)" by (cases "ct_pc c") auto
  with inv show ?thesis
    by (cases "ct_pc c")
      (auto simp: controller_inv_def CurrentState_def pc_unmarked_def pc_recorded_def)
qed

section \<open>An abort is honoured\<close>

definition is_stop :: "experiment_call \<Rightarrow> bool" where
  "is_stop x \<longleftrightarrow> (case x of Call_Stop _ _ \<Rightarrow> True | _ \<Rightarrow> False)"

definition before_stop :: "experiment_call list \<Rightarrow> nat" where
  "before_stop l = length (takeWhile (\<lambda>x. \<not> is_stop x) l)"

lemma before_stop_append [simp]:
  "before_stop (l @ m) = (if \<exists>x \<in> set l. is_stop x then before_stop l else length l + before_stop m)"
  by (auto simp: before_stop_def takeWhile_append)

lemma before_stop_simps [simp]:
  "before_stop [] = 0" "before_stop [x] = (if is_stop x then 0 else 1)"
  "is_stop (Call_Stop e r)" "\<not> is_stop (Call_Start e q)" "\<not> is_stop (Call_Iteration e r)"
  by (simp_all add: before_stop_def is_stop_def)

text \<open>Since the abort: not yet seen, seen and about to stop, or stopped.\<close>

definition aborting :: "ExperimentCode \<Rightarrow> experiment_call list \<Rightarrow> 'w controller \<Rightarrow> bool" where
  "aborting e l c \<longleftrightarrow> (\<exists>ms. ct_calls c = l @ ms \<and>
     (ct_AbortRequest c \<and> (\<forall>x \<in> set ms. \<not> is_stop x) \<and>
        (ct_pc c = At_iterate e \<and> ms = [] \<or> ct_pc c \<in> {At_check e, At_wait e} \<and> length ms \<le> 1) \<or>
      (\<exists>r. ct_pc c = At_stop e r) \<and> (\<forall>x \<in> set ms. \<not> is_stop x) \<and> length ms \<le> 1 \<or>
      (\<exists>x \<in> set ms. is_stop x) \<and> before_stop ms \<le> 1))"

lemma abortingI:
  assumes "ct_calls c = l @ ms"
    and "ct_AbortRequest c \<and> (\<forall>x \<in> set ms. \<not> is_stop x) \<and>
        (ct_pc c = At_iterate e \<and> ms = [] \<or> ct_pc c \<in> {At_check e, At_wait e} \<and> length ms \<le> 1) \<or>
      (\<exists>r. ct_pc c = At_stop e r) \<and> (\<forall>x \<in> set ms. \<not> is_stop x) \<and> length ms \<le> 1 \<or>
      (\<exists>x \<in> set ms. is_stop x) \<and> before_stop ms \<le> 1"
  shows "aborting e l c"
  using assms unfolding aborting_def by blast

lemma task_step_calls:
  assumes "task_step exps c = Some c'"
  shows "\<exists>new. ct_calls c' = ct_calls c @ new"
  using assms
  by (cases "ct_pc c") (auto simp: task_step_def Let_def split_beta split: if_splits option.splits)

lemma task_step_aborting:
  assumes "task_step exps c = Some c'" and "aborting e l c"
  shows "aborting e l c'"
proof -
  obtain ms where m: "ct_calls c = l @ ms"
    and c: "ct_AbortRequest c \<and> (\<forall>x \<in> set ms. \<not> is_stop x) \<and>
        (ct_pc c = At_iterate e \<and> ms = [] \<or> ct_pc c \<in> {At_check e, At_wait e} \<and> length ms \<le> 1) \<or>
      (\<exists>r. ct_pc c = At_stop e r) \<and> (\<forall>x \<in> set ms. \<not> is_stop x) \<and> length ms \<le> 1 \<or>
      (\<exists>x \<in> set ms. is_stop x) \<and> before_stop ms \<le> 1"
    using assms(2) unfolding aborting_def by blast
  from c consider (iterate) "ct_AbortRequest c" "ct_pc c = At_iterate e" "ms = []"
    | (check) "ct_AbortRequest c" "ct_pc c \<in> {At_check e, At_wait e}"
        "\<forall>x \<in> set ms. \<not> is_stop x" "length ms \<le> 1"
    | (stop) r where "ct_pc c = At_stop e r" "\<forall>x \<in> set ms. \<not> is_stop x" "length ms \<le> 1"
    | (stopped) "\<exists>x \<in> set ms. is_stop x" "before_stop ms \<le> 1" by blast
  then show ?thesis
  proof cases
    case iterate
    obtain r w where it: "ex_Iteration (the (find_experiment exps e)) (ct_world c) = (r, w)" by fastforce
    have "ct_calls c' = l @ [Call_Iteration e r]" "ct_AbortRequest c'"
      "ct_pc c' \<in> {At_check e, At_wait e} \<or> ct_pc c' = At_stop e r"
      using assms(1) iterate m it by (auto simp: task_step_def Let_def split: if_splits)
    then show ?thesis by (intro abortingI [where ms = "[Call_Iteration e r]"]) auto
  next
    case check
    then have "ct_calls c' = l @ ms" "ct_pc c' = At_check e \<and> ct_AbortRequest c' \<or>
        ct_pc c' = At_stop e Iteration_Failure"
      using assms(1) m by (auto simp: task_step_def split: if_splits)
    then show ?thesis using check by (intro abortingI [where ms = ms]) auto
  next
    case stop
    then have "ct_calls c' = l @ (ms @ [Call_Stop e r])"
      using assms(1) m by (auto simp: task_step_def)
    then show ?thesis using stop by (intro abortingI [where ms = "ms @ [Call_Stop e r]"]) auto
  next
    case stopped
    obtain new where "ct_calls c' = ct_calls c @ new" using task_step_calls [OF assms(1)] by blast
    then show ?thesis using stopped m by (intro abortingI [where ms = "ms @ new"]) auto
  qed
qed

lemma controller_step_aborting:
  assumes "controller_step exps c c'" and "aborting e l c"
  shows "aborting e l c'"
  using assms
proof (cases rule: controller_step.cases)
  case task
  then show ?thesis using assms(2) by (rule task_step_aborting)
next
  case (request e')
  then show ?thesis using assms(2) by (auto simp: aborting_def)
next
  case abort
  then show ?thesis using assms(2) by (fastforce simp: aborting_def AbortExperiment_def)
next
  case start
  then show ?thesis using assms(2) by (auto simp: aborting_def StartExperiment_def split: option.splits)
next
  case notify
  then show ?thesis using assms(2) by (auto simp: aborting_def NotifyLoopIterationStart_def)
qed

text \<open>
  C34. An abort requested while an experiment runs is honoured: the background task is not blocked,
  and in every continuation the experiment is called at most once more before it is stopped.
\<close>
theorem abort_honoured:
  assumes "ct_pc c \<in> {At_check e, At_iterate e, At_wait e}"
    and "(controller_step exps)\<^sup>*\<^sup>* (AbortExperiment c) c'"
  shows "task_step exps (AbortExperiment c) \<noteq> None \<and>
    (\<exists>ms. ct_calls c' = ct_calls c @ ms \<and> before_stop ms \<le> 1)"
proof -
  have init: "aborting e (ct_calls c) (AbortExperiment c)"
    using assms(1) by (intro abortingI [where ms = "[]"]) (auto simp: AbortExperiment_def)
  from assms(2) have "aborting e (ct_calls c) c'"
    by induction (use init controller_step_aborting in blast)+
  then obtain ms where "ct_calls c' = ct_calls c @ ms" "before_stop ms \<le> 1"
    unfolding aborting_def before_stop_def
    by (metis length_takeWhile_le order_trans list.size(3) zero_le_one)
  moreover have "task_step exps (AbortExperiment c) \<noteq> None"
    using assms(1) by (auto simp: task_step_def AbortExperiment_def Let_def split_beta)
  ultimately show ?thesis by blast
qed

section \<open>Concrete runs\<close>

primrec task_steps :: "'w iexperiment list \<Rightarrow> nat \<Rightarrow> 'w controller \<Rightarrow> 'w controller option" where
  "task_steps exps 0 c = Some c"
| "task_steps exps (Suc n) c = Option.bind (task_step exps c) (task_steps exps n)"

lemma task_steps_reach:
  "task_steps exps n c = Some c' \<Longrightarrow> (controller_step exps)\<^sup>*\<^sup>* c c'"
proof (induction n arbitrary: c)
  case (Suc n)
  then obtain d where "task_step exps c = Some d" "(controller_step exps)\<^sup>*\<^sup>* d c'"
    by (auto simp: bind_eq_Some_conv)
  then show ?case by (meson controller_step.task converse_rtranclp_into_rtranclp)
qed simp

text \<open>An experiment that counts its iterations and finishes in the second one.\<close>

definition sample_experiment :: "nat iexperiment" where
  "sample_experiment =
     \<lparr>ex_Type = 3, ex_Start = \<lambda>w. (StartResult_Success, 0),
      ex_Iteration = \<lambda>w. (if w = 0 then Iteration_LoopImmediately else Iteration_Finished, Suc w),
      ex_Stop = \<lambda>r w. w\<rparr>"

definition sample_started :: "nat controller" where
  "sample_started = (ExperimentController_new 7)\<lparr>ct_queue := Some 3\<rparr>"

lemma sample_started_reach:
  "(controller_step exps)\<^sup>*\<^sup>* (ExperimentController_new 7) sample_started"
proof -
  let ?c = "(ExperimentController_new (7 :: nat))\<lparr>ct_requestedExperiment := Some 3\<rparr>"
  have "StartExperiment ?c = Some sample_started"
    by (simp add: StartExperiment_def sample_started_def ExperimentController_new_def)
  then have "controller_step exps ?c sample_started" by (rule controller_step.start)
  moreover have "controller_step exps (ExperimentController_new 7) ?c" by (rule controller_step.request)
  ultimately show ?thesis by (meson converse_rtranclp_into_rtranclp rtranclp.rtrancl_refl)
qed

lemmas sample_run_defs = task_step_def sample_started_def ExperimentController_new_def
  find_experiment_def sample_experiment_def Let_def

lemma experiment_protocol_witness:
  "\<exists>c. (controller_step [sample_experiment])\<^sup>*\<^sup>* (ExperimentController_new 7) c \<and>
     ct_calls c = [Call_Start 3 StartResult_Success, Call_Iteration 3 Iteration_LoopImmediately,
       Call_Iteration 3 Iteration_Finished, Call_Stop 3 Iteration_Finished] \<and>
     protocol_of (ct_calls c) \<noteq> Proto_broken"
proof -
  let ?c = "the (task_steps [sample_experiment] 10 sample_started)"
  have run: "task_steps [sample_experiment] 10 sample_started = Some ?c"
    "ct_calls ?c = [Call_Start 3 StartResult_Success, Call_Iteration 3 Iteration_LoopImmediately,
       Call_Iteration 3 Iteration_Finished, Call_Stop 3 Iteration_Finished]"
    by (simp_all add: numeral_eq_Suc sample_run_defs)
  have "(controller_step [sample_experiment])\<^sup>*\<^sup>* (ExperimentController_new 7) ?c"
    using sample_started_reach task_steps_reach [OF run(1)] by (rule rtranclp_trans)
  from experiment_protocol [OF this] this run(2) show ?thesis by blast
qed

lemma abort_honoured_witness:
  "\<exists>c c'. ct_pc c = At_iterate 3 \<and> (controller_step [sample_experiment])\<^sup>*\<^sup>* (AbortExperiment c) c' \<and>
     ct_calls c' = ct_calls c @ [Call_Iteration 3 Iteration_LoopImmediately, Call_Stop 3 Iteration_Failure] \<and>
     task_step [sample_experiment] (AbortExperiment c) \<noteq> None"
proof -
  let ?c = "the (task_steps [sample_experiment] 6 sample_started)"
  let ?d = "the (task_steps [sample_experiment] 3 (AbortExperiment ?c))"
  have run: "ct_pc ?c = At_iterate 3"
    "task_steps [sample_experiment] 3 (AbortExperiment ?c) = Some ?d"
    "ct_calls ?d = ct_calls ?c @ [Call_Iteration 3 Iteration_LoopImmediately, Call_Stop 3 Iteration_Failure]"
    by (simp_all add: numeral_eq_Suc sample_run_defs AbortExperiment_def)
  have reach: "(controller_step [sample_experiment])\<^sup>*\<^sup>* (AbortExperiment ?c) ?d"
    using run(2) by (rule task_steps_reach)
  have "ct_pc ?c \<in> {At_check 3, At_iterate 3, At_wait 3}" using run(1) by simp
  from abort_honoured [OF this reach] run reach show ?thesis by blast
qed

end
