(* ===== verification/System_State.thy ===== *)
theory System_State
  imports Persistent_State Adcs_Coordinator Experiment_Controller
begin

text \<open>
  The state that the mission loop passes from task to task (libs/state/Include/state/struct.h) and
  the access to single parts of the persistent state (\<open>PersistentState::Get\<close> and \<open>Set\<close>).
\<close>

section \<open>The code\<close>

record SystemState =
  ss_Time :: int
  ss_AntennaDeployed :: bool
  ss_AdcsMode :: AdcsMode
  ss_Experiment :: ExperimentState
  ss_PersistentState :: persistent_state

text \<open>Parts of the tuple, selected by their type as \<open>std::get<Part>\<close> does.\<close>

definition get_AntennaConfiguration :: "parts \<Rightarrow> AntennaConfiguration" where
  "get_AntennaConfiguration p = (case p of (a, _) \<Rightarrow> a)"

definition put_AntennaConfiguration :: "AntennaConfiguration \<Rightarrow> parts \<Rightarrow> parts" where
  "put_AntennaConfiguration x p = (case p of (_, others) \<Rightarrow> (x, others))"

definition get_TimeState :: "parts \<Rightarrow> TimeState" where
  "get_TimeState p = (case p of (_, t, _) \<Rightarrow> t)"

definition put_TimeState :: "TimeState \<Rightarrow> parts \<Rightarrow> parts" where
  "put_TimeState t p = (case p of (a, _, others) \<Rightarrow> (a, t, others))"

definition get_TimeCorrection :: "parts \<Rightarrow> TimeCorrectionConfiguration" where
  "get_TimeCorrection p = (case p of (_, _, c, _) \<Rightarrow> c)"

definition put_TimeCorrection :: "TimeCorrectionConfiguration \<Rightarrow> parts \<Rightarrow> parts" where
  "put_TimeCorrection c p = (case p of (a, t, _, others) \<Rightarrow> (a, t, c, others))"

definition get_SailState :: "parts \<Rightarrow> SailState" where
  "get_SailState p = (case p of (_, _, _, s, _) \<Rightarrow> s)"

definition put_SailState :: "SailState \<Rightarrow> parts \<Rightarrow> parts" where
  "put_SailState s p = (case p of (a, t, c, _, others) \<Rightarrow> (a, t, c, s, others))"

definition get_ErrorCounters :: "parts \<Rightarrow> ErrorCountersConfigState" where
  "get_ErrorCounters p = (case p of (_, _, _, _, e, _) \<Rightarrow> e)"

definition put_ErrorCounters :: "ErrorCountersConfigState \<Rightarrow> parts \<Rightarrow> parts" where
  "put_ErrorCounters e p = (case p of (a, t, c, s, _, others) \<Rightarrow> (a, t, c, s, e, others))"

definition get_AdcsState :: "parts \<Rightarrow> AdcsState" where
  "get_AdcsState p = (case p of (_, _, _, _, _, d, _) \<Rightarrow> d)"

definition put_AdcsState :: "AdcsState \<Rightarrow> parts \<Rightarrow> parts" where
  "put_AdcsState d p = (case p of (a, t, c, s, e, _, m) \<Rightarrow> (a, t, c, s, e, d, m))"

definition get_MessageState :: "parts \<Rightarrow> MessageState" where
  "get_MessageState p = (case p of (_, _, _, _, _, _, m) \<Rightarrow> m)"

definition put_MessageState :: "MessageState \<Rightarrow> parts \<Rightarrow> parts" where
  "put_MessageState m p = (case p of (a, t, c, s, e, d, _) \<Rightarrow> (a, t, c, s, e, d, m))"

section \<open>Access to one part\<close>

text \<open>
  The contract of a part: what is set is read back, setting twice is setting once, and setting
  what is there changes nothing. Over it, the locked accessors of the container.
\<close>

locale part_access =
  fixes get :: "parts \<Rightarrow> 'p" and put :: "'p \<Rightarrow> parts \<Rightarrow> parts"
  assumes get_put [simp]: "get (put x p) = x"
    and put_put [simp]: "put x (put y p) = put x p"
    and put_get [simp]: "put (get p) p = p"
begin

lemma Get_after_Set:
  "Lockable_Get True get (snd (Lockable_Set taken (put x) s)) y
     = (True, if taken then x else get (ps_parts s))"
  by (cases taken) (simp_all add: Lockable_Get_def Lockable_Set_def PersistentState_Set_def
      NotifyModified_def)

lemma Set_modifies:
  "ps_modified (snd (Lockable_Set taken (put x) s)) \<longleftrightarrow> taken \<or> ps_modified s"
  by (cases taken) (simp_all add: Lockable_Set_def PersistentState_Set_def NotifyModified_def)

lemma Set_same: "taken \<Longrightarrow> ps_parts (snd (Lockable_Set taken (put (get (ps_parts s))) s)) = ps_parts s"
  by (simp add: Lockable_Set_def PersistentState_Set_def NotifyModified_def)

end

interpretation antenna_access: part_access get_AntennaConfiguration put_AntennaConfiguration
  by unfold_locales (simp_all add: get_AntennaConfiguration_def put_AntennaConfiguration_def split_beta)

interpretation time_access: part_access get_TimeState put_TimeState
  by unfold_locales (simp_all add: get_TimeState_def put_TimeState_def split_beta)

interpretation correction_access: part_access get_TimeCorrection put_TimeCorrection
  by unfold_locales (simp_all add: get_TimeCorrection_def put_TimeCorrection_def split_beta)

interpretation sail_access: part_access get_SailState put_SailState
  by unfold_locales (simp_all add: get_SailState_def put_SailState_def split_beta)

interpretation counters_access: part_access get_ErrorCounters put_ErrorCounters
  by unfold_locales (simp_all add: get_ErrorCounters_def put_ErrorCounters_def split_beta)

interpretation adcs_access: part_access get_AdcsState put_AdcsState
  by unfold_locales (simp_all add: get_AdcsState_def put_AdcsState_def split_beta)

interpretation message_access: part_access get_MessageState put_MessageState
  by unfold_locales (simp_all add: get_MessageState_def put_MessageState_def split_beta)

text \<open>
  The constructor (libs/state/state.cpp): the fields it does not name are default constructed; the
  counter of the experiment state, which that leaves open, is taken as zero. The text is that of
  the message part.
\<close>

definition SystemState_new :: "bytes \<Rightarrow> SystemState" where
  "SystemState_new text =
     \<lparr>ss_Time = 0, ss_AntennaDeployed = False, ss_AdcsMode = AdcsDisabled,
      ss_Experiment = \<lparr>es_RequestedExperiment = None, es_CurrentExperiment = None,
        es_LastStartResult = None, es_LastIterationResult = None, es_IterationCounter = 0\<rparr>,
      ss_PersistentState = PersistentState_new text\<rparr>"

end
