(* ===== verification/Mission_Time.thy ===== *)
theory Mission_Time
  imports Timer Rtc System_State "HOL-Library.Monad_Syntax"
begin

text \<open>
  The time task of libs/mission/time/time.cpp: periodic correction of the mission time against the
  external clock. Durations are the integers that the 64-bit counts hold. Results of the operating
  system (which semaphores were taken) are collected in a record, one field per attempt; what C++
  leaves undefined, a division by zero and a signed overflow of the 64-bit counts, is \<open>None\<close>.
\<close>

section \<open>The code\<close>

definition TimeCorrectionPeriod :: int where "TimeCorrectionPeriod = 15 * 60 * 1000"
definition TimeCorrectionWarningThreshold :: int where "TimeCorrectionWarningThreshold = 15 * 1000"
definition MaximumTimeCorrection :: int where "MaximumTimeCorrection = 2 * 3600 * 1000"

definition TimeState_new :: "int \<Rightarrow> int \<Rightarrow> TimeState" where
  "TimeState_new missionTime externalTime =
     \<lparr>lastMissionTime = of_int missionTime, lastExternalTime = of_int externalTime\<rparr>"

definition LastMissionTime :: "TimeState \<Rightarrow> int" where
  "LastMissionTime t = sint (lastMissionTime t)"

definition LastExternalTime :: "TimeState \<Rightarrow> int" where
  "LastExternalTime t = sint (lastExternalTime t)"

text \<open>The result of an operation on 64-bit counts.\<close>

definition i64 :: "int \<Rightarrow> int option" where
  "i64 x = (if - (2 ^ 63) \<le> x \<and> x < 2 ^ 63 then Some x else None)"

definition PerformTimeCorrection ::
  "int \<Rightarrow> int \<Rightarrow> TimeState \<Rightarrow> TimeCorrectionConfiguration \<Rightarrow> int option" where
  "PerformTimeCorrection missionTime externalTime sync config = do {
     deltaMcu \<leftarrow> i64 (missionTime - LastMissionTime sync);
     deltaRtc \<leftarrow> i64 (externalTime - LastExternalTime sync);
     let deltaMcu = (if deltaMcu < 0 then 0 else deltaMcu);
     let deltaRtc = (if deltaRtc < 0 then 0 else deltaRtc);
     if deltaRtc = 0 then Some missionTime
     else do {
       mcu \<leftarrow> i64 (deltaMcu * sint (missionTimeFactor config));
       rtc \<leftarrow> i64 (deltaRtc * sint (externalTimeFactor config));
       weighted \<leftarrow> i64 (mcu + rtc);
       elapsed \<leftarrow> (if TimeCorrection_Total config = 0 then None
                  else i64 (tdiv weighted (TimeCorrection_Total config)));
       corrected \<leftarrow> i64 (LastMissionTime sync + elapsed);
       correctionValue \<leftarrow> i64 (if corrected > missionTime then corrected - missionTime
                              else missionTime - corrected);
       Some (if correctionValue < MaximumTimeCorrection then corrected else missionTime)
     }
   }"

definition CorrectTimeCondition :: "bool \<Rightarrow> SystemState \<Rightarrow> bool" where
  "CorrectTimeCondition taken s =
     (let (ok, timeState) = Lockable_Get taken get_TimeState (ss_PersistentState s) TimeState_default
      in if \<not> ok then False
         else ss_Time s - LastMissionTime timeState \<ge> TimeCorrectionPeriod)"

text \<open>\<open>UpdateProc\<close>: \<open>True\<close> for \<open>UpdateResult::Ok\<close>, \<open>False\<close> for a warning.\<close>

definition TimeTask_Update :: "bool \<Rightarrow> TimeProvider \<Rightarrow> SystemState \<Rightarrow> bool \<times> SystemState" where
  "TimeTask_Update taken provider s =
     (case GetCurrentTime taken provider of
        Some v \<Rightarrow> (True, s\<lparr>ss_Time := v\<rparr>)
      | None \<Rightarrow> (False, s))"

record time_env =
  te_sync :: bool
  te_timer_get :: bool
  te_ps_time :: bool
  te_rtc :: "OSResult \<times> RTCTime"
  te_ps_config :: bool
  te_timer_set :: bool
  te_notify :: bool
  te_ps_set :: bool

definition DetermineNewTimeState ::
  "(int \<Rightarrow> int \<Rightarrow> int \<Rightarrow> int \<Rightarrow> int \<Rightarrow> int \<Rightarrow> int) \<Rightarrow> time_env \<Rightarrow> SystemState \<Rightarrow> int \<Rightarrow> TimeState
     \<Rightarrow> TimeProvider \<Rightarrow> (TimeState option \<times> time_event list \<times> TimeProvider) option" where
  "DetermineNewTimeState mktime env s time timeState provider =
     (let (rtcResult, rtcTime) = te_rtc env
      in if OS_RESULT_FAILED rtcResult then Some (None, [], provider)
         else if \<not> RTC_IsValid rtcTime then Some (None, [], provider)
         else
           (let currentRtcTime = RTC_ToDuration mktime rtcTime * 1000;
                (ok, config) = Lockable_Get (te_ps_config env) get_TimeCorrection
                  (ss_PersistentState s) TimeCorrection_default
            in if \<not> ok then Some (None, [], provider)
               else
                 (case PerformTimeCorrection time currentRtcTime timeState config of
                    None \<Rightarrow> None
                  | Some newTime \<Rightarrow>
                      (let (set, events, provider) =
                             SetCurrentTime (te_timer_set env) (te_notify env) newTime provider
                       in if \<not> set then Some (None, events, provider)
                          else Some (Some (TimeState_new newTime currentRtcTime), events, provider)))))"

text \<open>
  \<open>CorrectTime\<close> returns the system state, the provider, the events of the provider and the
  arguments of \<open>NotifyTimeChanged\<close> of the mission loop.
\<close>

definition CorrectTime ::
  "(int \<Rightarrow> int \<Rightarrow> int \<Rightarrow> int \<Rightarrow> int \<Rightarrow> int \<Rightarrow> int) \<Rightarrow> time_env \<Rightarrow> SystemState \<Rightarrow> TimeProvider
     \<Rightarrow> (SystemState \<times> TimeProvider \<times> time_event list \<times> int list) option" where
  "CorrectTime mktime env s provider =
     (if \<not> te_sync env then Some (s, provider, [], [])
      else
        (case GetCurrentTime (te_timer_get env) provider of
           None \<Rightarrow> Some (s, provider, [], [])
         | Some time \<Rightarrow>
             (let (ok, timeState) = Lockable_Get (te_ps_time env) get_TimeState
                    (ss_PersistentState s) TimeState_default
              in if \<not> ok then Some (s, provider, [], [])
                 else
                   (case DetermineNewTimeState mktime env s time timeState provider of
                      None \<Rightarrow> None
                    | Some (Some newTimeState, events, provider) \<Rightarrow>
                        (let ps = snd (Lockable_Set (te_ps_set env) (put_TimeState newTimeState)
                                   (ss_PersistentState s));
                             s = s\<lparr>ss_PersistentState := ps, ss_Time := LastMissionTime newTimeState\<rparr>
                         in Some (s, provider, events, [LastMissionTime newTimeState - time]))
                    | Some (None, events, provider) \<Rightarrow>
                        (let ps = snd (Lockable_Set (te_ps_set env)
                                   (put_TimeState (TimeState_new time (LastExternalTime timeState)))
                                   (ss_PersistentState s))
                         in Some (s\<lparr>ss_PersistentState := ps\<rparr>, provider, events, []))))))"

section \<open>Corrections are bounded\<close>

lemma correction_bounded:
  assumes "PerformTimeCorrection missionTime externalTime sync config = Some t"
  shows "\<bar>t - missionTime\<bar> < MaximumTimeCorrection"
    and "externalTime \<le> LastExternalTime sync \<Longrightarrow> t = missionTime"
  using assms
  by (auto simp: PerformTimeCorrection_def Let_def MaximumTimeCorrection_def bind_eq_Some_conv i64_def
      split: if_splits)

lemma i64_small: "\<bar>x\<bar> < 2 ^ 63 \<Longrightarrow> i64 x = Some x"
  by (auto simp: i64_def)

text \<open>
  A correction never moves the mission time by two hours or more, and it leaves it alone
  when the external clock has not advanced.
\<close>
theorem PerformTimeCorrection_bounded:
  assumes "PerformTimeCorrection missionTime externalTime sync config = Some t"
  shows "\<bar>t - missionTime\<bar> < MaximumTimeCorrection \<and>
    (externalTime \<le> LastExternalTime sync \<longrightarrow> t = missionTime)"
  using correction_bounded [OF assms] by blast

lemma PerformTimeCorrection_bounded_witness:
  "PerformTimeCorrection 5000 4000 (TimeState_new 0 0) TimeCorrection_default = Some 4500 \<and>
   \<bar>4500 - 5000\<bar> < MaximumTimeCorrection"
proof -
  have v: "PerformTimeCorrection 5000 4000 (TimeState_new 0 0) TimeCorrection_default = Some 4500"
    by (simp add: PerformTimeCorrection_def TimeState_new_def TimeCorrection_default_def
        TimeCorrection_Total_def LastMissionTime_def LastExternalTime_def tdiv_nonneg i64_def
        MaximumTimeCorrection_def)
  show ?thesis using PerformTimeCorrection_bounded [OF v] v by simp
qed

text \<open>The weighted mean, rounded down, lies between the two elapsed times.\<close>

lemma weighted_mean:
  fixes a b m n :: int
  assumes "0 \<le> a" and "0 \<le> b" and "0 \<le> m" and "0 \<le> n" and "0 < m + n"
  shows "min a b \<le> tdiv (a * m + b * n) (m + n)" and "tdiv (a * m + b * n) (m + n) \<le> max a b"
proof -
  have "tdiv (a * m + b * n) (m + n) = (a * m + b * n) div (m + n)"
    using assms by (intro tdiv_nonneg) simp_all
  moreover have "min a b * (m + n) \<le> a * m + b * n"
    using assms(3,4) by (simp add: distrib_left add_mono mult_right_mono)
  moreover have "a * m + b * n \<le> max a b * (m + n)"
    using assms(3,4) by (simp add: distrib_left add_mono mult_right_mono)
  ultimately show "min a b \<le> tdiv (a * m + b * n) (m + n)"
    and "tdiv (a * m + b * n) (m + n) \<le> max a b"
    using assms(5) zdiv_mono1 [of "min a b * (m + n)" "a * m + b * n" "m + n"]
      zdiv_mono1 [of "a * m + b * n" "max a b * (m + n)" "m + n"] by simp_all
qed

text \<open>
  C10. With weights that are not negative and not both zero, and clocks that have not run backwards, the
  corrected time, when a correction is applied, lies between what the two clocks say has elapsed since
  the last synchronisation. (The telecommand accepts negative weights too, with which this fails, as below.)
\<close>
theorem PerformTimeCorrection_between:
  assumes "PerformTimeCorrection missionTime externalTime sync config = Some t"
    and "0 \<le> sint (missionTimeFactor config)" and "0 \<le> sint (externalTimeFactor config)"
    and "0 < TimeCorrection_Total config" and "LastMissionTime sync \<le> missionTime"
    and "LastExternalTime sync < externalTime" and "t \<noteq> missionTime"
  shows "min (missionTime - LastMissionTime sync) (externalTime - LastExternalTime sync)
      \<le> t - LastMissionTime sync \<and>
    t - LastMissionTime sync
      \<le> max (missionTime - LastMissionTime sync) (externalTime - LastExternalTime sync)"
proof -
  let ?a = "missionTime - LastMissionTime sync" and ?b = "externalTime - LastExternalTime sync"
  have "t - LastMissionTime sync = tdiv (?a * sint (missionTimeFactor config)
      + ?b * sint (externalTimeFactor config)) (TimeCorrection_Total config)"
    using assms(1,4-7) by (auto simp: PerformTimeCorrection_def Let_def bind_eq_Some_conv i64_def split: if_splits)
  then show ?thesis
    using weighted_mean [of ?a ?b "sint (missionTimeFactor config)" "sint (externalTimeFactor config)"]
      assms(2-6) by (simp add: TimeCorrection_Total_def)
qed

lemma PerformTimeCorrection_between_witness:
  "min (5000 - 0) (4000 - 0) \<le> 4500 - LastMissionTime (TimeState_new 0 0) \<and>
   4500 - LastMissionTime (TimeState_new 0 0) \<le> max (5000 - 0) (4000 - (0 :: int))"
proof -
  have v: "PerformTimeCorrection 5000 4000 (TimeState_new 0 0) TimeCorrection_default = Some 4500"
    by (simp add: PerformTimeCorrection_def TimeState_new_def TimeCorrection_default_def
        TimeCorrection_Total_def LastMissionTime_def LastExternalTime_def tdiv_nonneg i64_def
        MaximumTimeCorrection_def)
  show ?thesis
    using PerformTimeCorrection_between [OF v]
    by (simp add: TimeState_new_def TimeCorrection_default_def TimeCorrection_Total_def
        LastMissionTime_def LastExternalTime_def)
qed

text \<open>With a negative weight, which the telecommand accepts, the result lies outside what the clocks say.\<close>

theorem negative_weight_extrapolates:
  "PerformTimeCorrection 5000 4000 (TimeState_new 0 0) \<lparr>missionTimeFactor = 3, externalTimeFactor = - 1\<rparr> = Some 5500"
  by (simp add: PerformTimeCorrection_def TimeState_new_def TimeCorrection_Total_def LastMissionTime_def
      LastExternalTime_def tdiv_nonneg i64_def MaximumTimeCorrection_def)

text \<open>
  For times of up to a thousand years the arithmetic does not overflow, and the task divides by zero exactly
  when the external clock has advanced and the two weights cancel, which weights accepted by the
  telecommand (only both zero is refused) can do.
\<close>

lemma factor_bound: "\<bar>sint (w :: 16 word)\<bar> \<le> 2 ^ 15"
  using sint_ge [of w] sint_lt [of w] by (simp add: abs_le_iff)

lemma tdiv_bound: "b \<noteq> 0 \<Longrightarrow> \<bar>tdiv a b\<bar> \<le> \<bar>a\<bar>"
proof -
  assume b: "b \<noteq> 0"
  let ?k = "\<bar>a\<bar> div \<bar>b\<bar>"
  have k: "0 \<le> ?k" using b by (simp add: pos_imp_zdiv_nonneg_iff)
  then have "?k * 1 \<le> ?k * \<bar>b\<bar>" using b by (intro mult_left_mono) auto
  also have "\<dots> \<le> \<bar>a\<bar>" using mult_div_mod_eq [of "\<bar>b\<bar>" "\<bar>a\<bar>"] pos_mod_sign [of "\<bar>b\<bar>" "\<bar>a\<bar>"] b
    by (simp only: mult.commute [of ?k]) linarith
  finally show ?thesis using k by (auto simp: tdiv_def abs_mult sgn_if)
qed

theorem PerformTimeCorrection_undefined:
  assumes "\<bar>missionTime\<bar> < 2 ^ 45" and "\<bar>externalTime\<bar> < 2 ^ 45"
    and "\<bar>LastMissionTime sync\<bar> < 2 ^ 45" and "\<bar>LastExternalTime sync\<bar> < 2 ^ 45"
  shows "PerformTimeCorrection missionTime externalTime sync config = None \<longleftrightarrow>
     LastExternalTime sync < externalTime \<and>
     sint (missionTimeFactor config) = - sint (externalTimeFactor config)"
proof -
  define a where "a = max 0 (missionTime - LastMissionTime sync)"
  define b where "b = max 0 (externalTime - LastExternalTime sync)"
  define p where "p = a * sint (missionTimeFactor config)"
  define q where "q = b * sint (externalTimeFactor config)"
  define n where "n = TimeCorrection_Total config"
  have ab: "\<bar>a\<bar> \<le> 2 ^ 46" "\<bar>b\<bar> \<le> 2 ^ 46" using assms by (auto simp: a_def b_def)
  have "\<bar>p\<bar> \<le> 2 ^ 46 * 2 ^ 15" "\<bar>q\<bar> \<le> 2 ^ 46 * 2 ^ 15"
    unfolding p_def q_def abs_mult by (intro mult_mono ab factor_bound; simp)+
  then have pq: "\<bar>p\<bar> \<le> 2 ^ 61" "\<bar>q\<bar> \<le> 2 ^ 61" by simp_all
  have d: "i64 (missionTime - LastMissionTime sync) = Some (missionTime - LastMissionTime sync)"
    "i64 (externalTime - LastExternalTime sync) = Some (externalTime - LastExternalTime sync)"
    using assms by (intro i64_small; simp)+
  have w: "i64 p = Some p" "i64 q = Some q" "i64 (p + q) = Some (p + q)" using pq by (intro i64_small; simp)+
  have t: "n \<noteq> 0 \<Longrightarrow> \<bar>tdiv (p + q) n\<bar> \<le> 2 ^ 62" using tdiv_bound [of n "p + q"] pq by simp
  then have e: "i64 (tdiv (p + q) n) = Some (tdiv (p + q) n)"
    "i64 (LastMissionTime sync + tdiv (p + q) n) = Some (LastMissionTime sync + tdiv (p + q) n)"
    "i64 (if LastMissionTime sync + tdiv (p + q) n > missionTime
        then LastMissionTime sync + tdiv (p + q) n - missionTime else missionTime - (LastMissionTime sync + tdiv (p + q) n)) \<noteq> None"
    if "n \<noteq> 0"
    using assms that by (auto simp: i64_def)
  have run: "PerformTimeCorrection missionTime externalTime sync config =
      (if b = 0 then Some missionTime
       else Option.bind (if n = 0 then None else i64 (tdiv (p + q) n)) (\<lambda>elapsed.
         Option.bind (i64 (LastMissionTime sync + elapsed)) (\<lambda>corrected.
           Option.bind (i64 (if corrected > missionTime then corrected - missionTime else missionTime - corrected))
             (\<lambda>correctionValue. Some (if correctionValue < MaximumTimeCorrection then corrected else missionTime)))))"
  proof -
    have "(if missionTime - LastMissionTime sync < 0 then 0 else missionTime - LastMissionTime sync) = a"
      "(if externalTime - LastExternalTime sync < 0 then 0 else externalTime - LastExternalTime sync) = b"
      by (simp_all add: a_def b_def)
    then show ?thesis
      by (simp only: PerformTimeCorrection_def d Option.bind_lunit Let_def p_def [symmetric] q_def [symmetric] w
          n_def [symmetric])
  qed
  show ?thesis
  proof (cases "n = 0")
    case True
    then show ?thesis unfolding run by (auto simp: b_def n_def TimeCorrection_Total_def max_def)
  next
    case False
    then show ?thesis unfolding run using e [OF False] by (auto simp: n_def TimeCorrection_Total_def)
  qed
qed

section \<open>A correction keeps the clocks together\<close>

lemma SetCurrentTime_time: "fst (SetCurrentTime taken notify d t) \<longleftrightarrow> taken"
  "taken \<Longrightarrow> tm_currentTime (snd (snd (SetCurrentTime taken notify d t))) = d"
  by (simp_all add: SetCurrentTime_def BuildTimerState_def split_beta Let_def)

lemma DetermineNewTimeState_Some:
  assumes "DetermineNewTimeState mktime env s time ts provider = Some (Some new, events, provider')"
  shows "\<exists>newTime ext config. PerformTimeCorrection time ext ts config = Some newTime \<and>
    new = TimeState_new newTime ext \<and> tm_currentTime provider' = newTime"
proof -
  obtain res rt where rtc: "te_rtc env = (res, rt)" by fastforce
  define ext where "ext = RTC_ToDuration mktime rt * 1000"
  obtain ok config where cfg: "Lockable_Get (te_ps_config env) get_TimeCorrection
      (ss_PersistentState s) TimeCorrection_default = (ok, config)" by fastforce
  have g: "\<not> OS_RESULT_FAILED res" "RTC_IsValid rt" "ok"
    using assms by (auto simp: DetermineNewTimeState_def Let_def rtc cfg split: if_splits)
  then obtain newTime where p: "PerformTimeCorrection time ext ts config = Some newTime"
    using assms by (auto simp: DetermineNewTimeState_def Let_def rtc cfg ext_def split: option.splits)
  obtain set es pr where sc: "SetCurrentTime (te_timer_set env) (te_notify env) newTime provider = (set, es, pr)"
    by (metis prod_cases3)
  have "set" "new = TimeState_new newTime ext" "provider' = pr"
    using assms g p by (auto simp: DetermineNewTimeState_def Let_def rtc cfg sc ext_def [symmetric] split: if_splits)
  moreover from this have "tm_currentTime pr = newTime"
    using SetCurrentTime_time [of "te_timer_set env" "te_notify env" newTime provider] unfolding sc by simp
  ultimately show ?thesis using p by blast
qed

lemma sint_of_int_64:
  assumes "- (2 ^ 63) \<le> x" and "x < 2 ^ 63"
  shows "sint (of_int x :: 64 word) = x"
  using assms by (simp add: int_word_sint)

text \<open>
  C9. When the task announces a time change, the time provider and the system state hold the same new time,
  and the announced difference is what it differs from the old one, less than two hours. The persistent
  state holds the new time too, if it could be locked; if it could not, the change is announced all the
  same, and the persistent state is left as it was.
\<close>
theorem CorrectTime_consistent:
  assumes "CorrectTime mktime env s provider = Some (s', provider', events, [delta])"
    and "GetCurrentTime (te_timer_get env) provider = Some time" and "\<bar>time\<bar> < 2 ^ 62"
  shows "tm_currentTime provider' = ss_Time s' \<and> ss_Time s' = time + delta \<and>
    \<bar>delta\<bar> < MaximumTimeCorrection \<and>
    (te_ps_set env \<longrightarrow>
       LastMissionTime (get_TimeState (ps_parts (ss_PersistentState s'))) = ss_Time s') \<and>
    (\<not> te_ps_set env \<longrightarrow> ss_PersistentState s' = ss_PersistentState s)"
proof -
  define ts where "ts = snd (Lockable_Get (te_ps_time env) get_TimeState
    (ss_PersistentState s) TimeState_default)"
  obtain new where det: "DetermineNewTimeState mktime env s time ts provider = Some (Some new, events, provider')"
    and s': "s' = s\<lparr>ss_PersistentState := snd (Lockable_Set (te_ps_set env) (put_TimeState new)
       (ss_PersistentState s)), ss_Time := LastMissionTime new\<rparr>"
    and delta: "delta = LastMissionTime new - time"
    using assms(1,2) unfolding CorrectTime_def ts_def
    by (auto simp: split_beta Let_def split: if_splits option.splits)
  from DetermineNewTimeState_Some [OF det] obtain newTime ext config where
    n: "PerformTimeCorrection time ext ts config = Some newTime" "new = TimeState_new newTime ext"
      "tm_currentTime provider' = newTime" by blast
  have b: "\<bar>newTime - time\<bar> < MaximumTimeCorrection" using correction_bounded [OF n(1)] by blast
  then have "- (2 ^ 63) \<le> newTime" "newTime < 2 ^ 63"
    using assms(3) by (simp_all add: MaximumTimeCorrection_def abs_less_iff)
  then have new: "LastMissionTime new = newTime"
    by (simp add: n(2) LastMissionTime_def TimeState_new_def sint_of_int_64)
  show ?thesis
    using b n(3) new by (simp add: s' delta Lockable_Set_def PersistentState_Set_def NotifyModified_def)
qed

definition sample_env :: time_env where
  "sample_env = \<lparr>te_sync = True, te_timer_get = True, te_ps_time = True,
     te_rtc = (OS_Success, RTC_zero), te_ps_config = True, te_timer_set = True, te_notify = True,
     te_ps_set = True\<rparr>"

lemma CorrectTime_consistent_witness:
  "\<exists>s' provider' events delta.
     CorrectTime (\<lambda>y mo d h m s. 4) sample_env
       (SystemState_new [])
       (TimeProvider_new\<lparr>tm_timerLock := True, tm_currentTime := 5000\<rparr>)
     = Some (s', provider', events, [delta]) \<and> tm_currentTime provider' = ss_Time s'"
proof -
  let ?s = "SystemState_new []"
  let ?t = "TimeProvider_new\<lparr>tm_timerLock := True, tm_currentTime := 5000\<rparr>"
  have "PerformTimeCorrection 5000 4000 TimeState_default TimeCorrection_default = Some 4500"
    by (simp add: PerformTimeCorrection_def TimeState_default_def TimeCorrection_default_def
        TimeCorrection_Total_def LastMissionTime_def LastExternalTime_def tdiv_nonneg i64_def
        MaximumTimeCorrection_def)
  moreover have "RTC_IsValid RTC_zero" by (simp add: RTC_IsValid_def RTC_zero_def)
  ultimately obtain s' provider' events delta where
    c: "CorrectTime (\<lambda>y mo d h m s. 4) sample_env ?s ?t = Some (s', provider', events, [delta])"
    by (simp add: CorrectTime_def DetermineNewTimeState_def sample_env_def GetCurrentTime_def
        Lockable_Get_def SystemState_new_def PersistentState_new_def get_TimeState_def get_TimeCorrection_def
        OS_RESULT_FAILED_def RTC_ToDuration_def split_beta SetCurrentTime_time)
  have g: "GetCurrentTime (te_timer_get sample_env) ?t = Some 5000"
    by (simp add: GetCurrentTime_def sample_env_def)
  have "tm_currentTime provider' = ss_Time s'"
    using CorrectTime_consistent [OF c g] by simp
  with c show ?thesis by blast
qed

end
