(* ===== verification/Mission_Base.thy ===== *)
theory Mission_Base
  imports System_State
begin

text \<open>
  The mission loop: descriptors and their execution (libs/mission/Include/mission/base.hpp and
  logic.hpp), one iteration, and the control task with its pause and single-step requests
  (main.hpp). A state \<open>'s\<close> is everything the loop and its tasks can reach: the system state and the
  task objects that the \<open>void*\<close> parameters of the descriptors point to, so a descriptor is a function
  on it; a condition may change the object it belongs to.
\<close>

section \<open>Descriptors\<close>

datatype UpdateResult = Update_Ok | Update_Warning | Update_Failure

record 's UpdateDescriptor =
  ud_updateProc :: "('s \<Rightarrow> UpdateResult \<times> 's) option"

definition UpdateDescriptor_Execute :: "'s UpdateDescriptor \<Rightarrow> 's \<Rightarrow> UpdateResult \<times> 's" where
  "UpdateDescriptor_Execute d s =
     (case ud_updateProc d of None \<Rightarrow> (Update_Warning, s) | Some f \<Rightarrow> f s)"

datatype VerifyResult = Verify_Ok | Verify_Failure

record VerifyDescriptorResult =
  vr_result :: VerifyResult
  vr_reason :: u32

definition VerifyDescriptorResult_default :: VerifyDescriptorResult where
  "VerifyDescriptorResult_default = \<lparr>vr_result = Verify_Ok, vr_reason = 0\<rparr>"

record 's VerifyDescriptor =
  vd_verifyProc :: "'s \<Rightarrow> VerifyDescriptorResult"

record 's ActionDescriptor =
  ad_condition :: "('s \<Rightarrow> bool \<times> 's) option"
  ad_actionProc :: "('s \<Rightarrow> 's) option"

definition EvaluateCondition :: "'s ActionDescriptor \<Rightarrow> 's \<Rightarrow> bool \<times> 's" where
  "EvaluateCondition d s = (case ad_condition d of None \<Rightarrow> (True, s) | Some f \<Rightarrow> f s)"

definition ActionDescriptor_Execute :: "'s ActionDescriptor \<Rightarrow> 's \<Rightarrow> 's" where
  "ActionDescriptor_Execute d s = (case ad_actionProc d of None \<Rightarrow> s | Some f \<Rightarrow> f s)"

text \<open>\<open>CompositeAction::Run\<close> evaluates each condition just before its action.\<close>

fun CompositeAction_Run :: "'s ActionDescriptor list \<Rightarrow> 's \<Rightarrow> 's" where
  "CompositeAction_Run [] s = s"
| "CompositeAction_Run (d # ds) s =
     (let (holds, s) = EvaluateCondition d s
      in CompositeAction_Run ds (if holds then ActionDescriptor_Execute d s else s))"

definition CompositeAction_Build :: "'s ActionDescriptor list \<Rightarrow> 's ActionDescriptor" where
  "CompositeAction_Build ds =
     \<lparr>ad_condition = Some (\<lambda>s. (True, s)), ad_actionProc = Some (CompositeAction_Run ds)\<rparr>"

section \<open>One iteration\<close>

fun SystemStateUpdate_from ::
  "UpdateResult \<Rightarrow> 's UpdateDescriptor list \<Rightarrow> 's \<Rightarrow> UpdateResult \<times> 's" where
  "SystemStateUpdate_from result [] s = (result, s)"
| "SystemStateUpdate_from result (d # ds) s =
     (let (descriptorResult, s) = UpdateDescriptor_Execute d s
      in if descriptorResult = Update_Warning then SystemStateUpdate_from Update_Warning ds s
         else if descriptorResult = Update_Failure then (Update_Failure, s)
         else SystemStateUpdate_from result ds s)"

definition SystemStateUpdate :: "'s UpdateDescriptor list \<Rightarrow> 's \<Rightarrow> UpdateResult \<times> 's" where
  "SystemStateUpdate ds s = SystemStateUpdate_from Update_Ok ds s"

text \<open>The index \<open>count\<close> of \<open>SystemStateVerify\<close> is a constant zero: every result goes into the first slot.\<close>

fun SystemStateVerify ::
  "'s \<Rightarrow> 's VerifyDescriptor list \<Rightarrow> VerifyDescriptorResult list \<Rightarrow> VerifyResult \<times> VerifyDescriptorResult list"
where
  "SystemStateVerify s [] results = (Verify_Ok, results)"
| "SystemStateVerify s (d # ds) results =
     (let target = vd_verifyProc d s; results = results[0 := target]
      in if vr_result target = Verify_Failure then (Verify_Failure, results)
         else SystemStateVerify s ds results)"

fun SystemDetermineActions :: "'s ActionDescriptor list \<Rightarrow> 's \<Rightarrow> 's ActionDescriptor list \<times> 's" where
  "SystemDetermineActions [] s = ([], s)"
| "SystemDetermineActions (d # ds) s =
     (let (holds, s) = EvaluateCondition d s; (target, s) = SystemDetermineActions ds s
      in (if holds then d # target else target, s))"

definition SystemDispatchActions :: "'s ActionDescriptor list \<Rightarrow> 's \<Rightarrow> 's" where
  "SystemDispatchActions actions s = fold ActionDescriptor_Execute actions s"

definition RunOnce ::
  "'s UpdateDescriptor list \<Rightarrow> 's VerifyDescriptor list \<Rightarrow> 's ActionDescriptor list \<Rightarrow> 's \<Rightarrow> 's" where
  "RunOnce updates verifications actions s =
     (let (updateResult, s) = SystemStateUpdate updates s;
          (verifyResult, details) = SystemStateVerify s verifications
            (replicate (length verifications) VerifyDescriptorResult_default);
          (runnable, s) = SystemDetermineActions actions s
      in SystemDispatchActions runnable s)"

lemma SystemStateUpdate_append:
  "SystemStateUpdate_from r (ds @ es) s =
     (let (r', s') = SystemStateUpdate_from r ds s
      in if r' = Update_Failure \<and> ds \<noteq> [] \<and> r \<noteq> Update_Failure then (r', s')
         else SystemStateUpdate_from r' es s')" if "r \<noteq> Update_Failure"
  using that by (induction ds arbitrary: r s) (auto simp: Let_def split_beta)

lemma SystemDetermineActions_subseq: "set (fst (SystemDetermineActions ds s)) \<subseteq> set ds"
  by (induction ds arbitrary: s) (auto simp: Let_def split_beta)

text \<open>An action whose condition fails is not executed, and all conditions come before all actions.\<close>

lemma SystemDetermineActions_pure:
  assumes "\<forall>d \<in> set ds. \<forall>s. snd (EvaluateCondition d s) = s"
  shows "SystemDetermineActions ds s = (filter (\<lambda>d. fst (EvaluateCondition d s)) ds, s)"
  using assms by (induction ds) (auto simp: Let_def split_beta)

section \<open>The control task\<close>

text \<open>
  The event group of the loop, whether its task is suspended, the point the task has reached, the
  number of iterations it has run, and the point of the requesting task. \<open>runs\<close> is a ghost counter.
  The control task waits for a request or the end of the period, and keeps the bits it saw; when the period
  ends with another bit of the group set, the value of the group is not zero and nothing is run.
\<close>

datatype loop_pc =
    Loop_wait
  | Loop_single bool          \<comment> \<open>about to run once; pause seen\<close>
  | Loop_clear_single bool
  | Loop_set_finished bool
  | Loop_clear_pause
  | Loop_set_ack
  | Loop_suspend
  | Loop_periodic

datatype requester_pc =
    Req_idle
  | Req_pause_wait            \<comment> \<open>\<open>Suspend\<close>: waiting for the acknowledgement\<close>
  | Req_single_resume nat     \<comment> \<open>\<open>RequestSingleIteration\<close>, asked when \<open>runs\<close> had this value\<close>
  | Req_single_wait nat
  | Req_single_done nat

record mission_loop =
  ml_PauseRequest :: bool
  ml_PauseAck :: bool
  ml_RunOnceRequest :: bool
  ml_RunOnceFinished :: bool
  ml_suspended :: bool
  ml_pc :: loop_pc
  ml_requester :: requester_pc
  ml_runs :: nat

text \<open>After \<open>Initialize\<close>: the task has been created and suspended at once.\<close>

definition mission_loop_initialized :: mission_loop where
  "mission_loop_initialized =
     \<lparr>ml_PauseRequest = False, ml_PauseAck = False, ml_RunOnceRequest = False,
      ml_RunOnceFinished = False, ml_suspended = True, ml_pc = Loop_wait, ml_requester = Req_idle,
      ml_runs = 0\<rparr>"

definition TaskLoop_step :: "mission_loop \<Rightarrow> mission_loop" where
  "TaskLoop_step m =
     (case ml_pc m of
        Loop_wait \<Rightarrow>
          m\<lparr>ml_pc := (if ml_RunOnceRequest m then Loop_single (ml_PauseRequest m)
                     else if ml_PauseRequest m then Loop_clear_pause
                     else if ml_PauseAck m \<or> ml_RunOnceFinished m then Loop_wait else Loop_periodic)\<rparr>
      | Loop_single pause \<Rightarrow> m\<lparr>ml_runs := Suc (ml_runs m), ml_pc := Loop_clear_single pause\<rparr>
      | Loop_clear_single pause \<Rightarrow> m\<lparr>ml_RunOnceRequest := False, ml_pc := Loop_set_finished pause\<rparr>
      | Loop_set_finished pause \<Rightarrow>
          m\<lparr>ml_RunOnceFinished := True, ml_pc := (if pause then Loop_clear_pause else Loop_wait)\<rparr>
      | Loop_clear_pause \<Rightarrow> m\<lparr>ml_PauseRequest := False, ml_pc := Loop_set_ack\<rparr>
      | Loop_set_ack \<Rightarrow> m\<lparr>ml_PauseAck := True, ml_pc := Loop_suspend\<rparr>
      | Loop_suspend \<Rightarrow> m\<lparr>ml_suspended := True, ml_pc := Loop_wait\<rparr>
      | Loop_periodic \<Rightarrow> m\<lparr>ml_runs := Suc (ml_runs m), ml_pc := Loop_wait\<rparr>)"

definition Suspend_begin :: "mission_loop \<Rightarrow> mission_loop" where
  "Suspend_begin m = m\<lparr>ml_PauseRequest := True, ml_requester := Req_pause_wait\<rparr>"

definition Suspend_return :: "mission_loop \<Rightarrow> mission_loop" where
  "Suspend_return m = m\<lparr>ml_PauseAck := False, ml_requester := Req_idle\<rparr>"

text \<open>\<open>Resume\<close>: resuming a task that is not suspended does nothing.\<close>

definition Resume :: "mission_loop \<Rightarrow> mission_loop" where
  "Resume m = m\<lparr>ml_suspended := False\<rparr>"

definition RequestSingleIteration_begin :: "mission_loop \<Rightarrow> mission_loop" where
  "RequestSingleIteration_begin m =
     m\<lparr>ml_RunOnceRequest := True, ml_PauseRequest := True, ml_requester := Req_single_resume (ml_runs m)\<rparr>"

definition RequestSingleIteration_return :: "nat \<Rightarrow> mission_loop \<Rightarrow> mission_loop" where
  "RequestSingleIteration_return n m =
     m\<lparr>ml_RunOnceFinished := False, ml_PauseAck := False, ml_requester := Req_single_done n\<rparr>"

text \<open>
  The interleavings of the control task with one task that uses the three methods. A wait of
  \<open>RequestSingleIteration\<close> that times out goes round its loop.
\<close>

inductive loop_step :: "mission_loop \<Rightarrow> mission_loop \<Rightarrow> bool" where
  control: "\<not> ml_suspended m \<Longrightarrow> loop_step m (TaskLoop_step m)"
| suspend: "ml_requester m = Req_idle \<Longrightarrow> loop_step m (Suspend_begin m)"
| suspended: "ml_requester m = Req_pause_wait \<Longrightarrow> ml_PauseAck m \<Longrightarrow> loop_step m (Suspend_return m)"
| resume: "ml_requester m = Req_idle \<Longrightarrow> loop_step m (Resume m)"
| single: "ml_requester m = Req_idle \<Longrightarrow> loop_step m (RequestSingleIteration_begin m)"
| single_resume: "ml_requester m = Req_single_resume n \<Longrightarrow>
    loop_step m ((Resume m)\<lparr>ml_requester := Req_single_wait n\<rparr>)"
| single_timeout: "ml_requester m = Req_single_wait n \<Longrightarrow>
    \<not> (ml_RunOnceFinished m \<and> ml_PauseAck m) \<Longrightarrow>
    loop_step m (m\<lparr>ml_requester := Req_single_resume n\<rparr>)"
| single_return: "ml_requester m = Req_single_wait n \<Longrightarrow> ml_RunOnceFinished m \<Longrightarrow> ml_PauseAck m \<Longrightarrow>
    loop_step m (RequestSingleIteration_return n m)"
| single_done: "ml_requester m = Req_single_done n \<Longrightarrow> loop_step m (m\<lparr>ml_requester := Req_idle\<rparr>)"

inductive_cases loop_stepE: "loop_step m m'"

section \<open>Requests are served\<close>

definition calm :: "loop_pc \<Rightarrow> bool" where
  "calm pc \<longleftrightarrow> pc \<in> {Loop_wait, Loop_suspend, Loop_periodic}"

definition no_request :: "mission_loop \<Rightarrow> bool" where
  "no_request m \<longleftrightarrow> \<not> ml_RunOnceRequest m \<and> \<not> ml_RunOnceFinished m \<and> \<not> ml_PauseRequest m
     \<and> \<not> ml_PauseAck m \<and> calm (ml_pc m)"

text \<open>A pause in progress, by how far the control task has got with it.\<close>

definition pausing :: "mission_loop \<Rightarrow> bool" where
  "pausing m \<longleftrightarrow> \<not> ml_RunOnceRequest m \<and> \<not> ml_RunOnceFinished m \<and>
     (ml_PauseRequest m \<and> \<not> ml_PauseAck m \<and> (calm (ml_pc m) \<or> ml_pc m = Loop_clear_pause) \<or>
      \<not> ml_PauseRequest m \<and> \<not> ml_PauseAck m \<and> ml_pc m = Loop_set_ack \<or>
      \<not> ml_PauseRequest m \<and> ml_PauseAck m \<and>
        (ml_pc m = Loop_suspend \<or> ml_pc m = Loop_wait \<and> ml_suspended m))"

definition single :: "nat \<Rightarrow> mission_loop \<Rightarrow> bool" where
  "single n m \<longleftrightarrow>
     ml_RunOnceRequest m \<and> ml_PauseRequest m \<and> \<not> ml_RunOnceFinished m \<and> \<not> ml_PauseAck m \<and>
       (calm (ml_pc m) \<or> ml_pc m = Loop_single True) \<and> n \<le> ml_runs m \<or>
     n < ml_runs m \<and>
      (ml_RunOnceRequest m \<and> ml_PauseRequest m \<and> \<not> ml_RunOnceFinished m \<and> \<not> ml_PauseAck m \<and>
         ml_pc m = Loop_clear_single True \<or>
       \<not> ml_RunOnceRequest m \<and> ml_PauseRequest m \<and> \<not> ml_RunOnceFinished m \<and> \<not> ml_PauseAck m \<and>
         ml_pc m = Loop_set_finished True \<or>
       \<not> ml_RunOnceRequest m \<and> ml_PauseRequest m \<and> ml_RunOnceFinished m \<and> \<not> ml_PauseAck m \<and>
         ml_pc m = Loop_clear_pause \<or>
       \<not> ml_RunOnceRequest m \<and> \<not> ml_PauseRequest m \<and> ml_RunOnceFinished m \<and> \<not> ml_PauseAck m \<and>
         ml_pc m = Loop_set_ack \<or>
       \<not> ml_RunOnceRequest m \<and> \<not> ml_PauseRequest m \<and> ml_RunOnceFinished m \<and> ml_PauseAck m \<and>
         calm (ml_pc m))"

definition loop_inv :: "mission_loop \<Rightarrow> bool" where
  "loop_inv m \<longleftrightarrow>
     (case ml_requester m of
        Req_idle \<Rightarrow> no_request m
      | Req_pause_wait \<Rightarrow> pausing m
      | Req_single_resume n \<Rightarrow> single n m
      | Req_single_wait n \<Rightarrow> single n m
      | Req_single_done n \<Rightarrow> no_request m \<and> n < ml_runs m)"

lemma TaskLoop_step_inv:
  assumes "\<not> ml_suspended m"
  shows "no_request m \<Longrightarrow> no_request (TaskLoop_step m)"
    and "pausing m \<Longrightarrow> pausing (TaskLoop_step m)"
    and "single n m \<Longrightarrow> single n (TaskLoop_step m)"
    and "ml_requester (TaskLoop_step m) = ml_requester m"
    and "ml_runs m \<le> ml_runs (TaskLoop_step m)"
  using assms
  by (cases "ml_pc m"; auto simp: TaskLoop_step_def no_request_def pausing_def single_def calm_def)+

lemma loop_step_inv:
  assumes "loop_step m m'" and "loop_inv m"
  shows "loop_inv m'"
  using assms
proof (cases rule: loop_step.cases)
  case control
  then show ?thesis
    using assms(2) TaskLoop_step_inv [OF control(2)]
    by (auto simp: loop_inv_def intro: less_le_trans split: requester_pc.splits)
qed (auto simp: loop_inv_def no_request_def pausing_def single_def calm_def Suspend_begin_def
  Suspend_return_def Resume_def RequestSingleIteration_begin_def RequestSingleIteration_return_def)

lemma loop_reach_inv:
  assumes "loop_step\<^sup>*\<^sup>* mission_loop_initialized m"
  shows "loop_inv m"
  using assms
proof induction
  case base
  show ?case by (simp add: loop_inv_def no_request_def calm_def mission_loop_initialized_def)
qed (rule loop_step_inv)

text \<open>Steps of the control task alone.\<close>

definition control_step :: "mission_loop \<Rightarrow> mission_loop \<Rightarrow> bool" where
  "control_step m m' \<longleftrightarrow> \<not> ml_suspended m \<and> m' = TaskLoop_step m"

lemma paused_runs:
  assumes "control_step\<^sup>*\<^sup>* m m'" and "ml_pc m = Loop_suspend \<or> ml_pc m = Loop_wait \<and> ml_suspended m"
  shows "ml_runs m' = ml_runs m \<and> (ml_pc m' = Loop_suspend \<or> ml_pc m' = Loop_wait \<and> ml_suspended m')"
  using assms by induction (auto simp: control_step_def TaskLoop_step_def)

text \<open>
  C35. A request for a single iteration returns only after an iteration has been run since it was
  made, and once \<open>Suspend\<close> has returned the control task by itself runs no further iteration.
\<close>
theorem mission_loop_requests:
  assumes "loop_step\<^sup>*\<^sup>* mission_loop_initialized m"
  shows "(\<forall>n. ml_requester m = Req_single_done n \<longrightarrow> n < ml_runs m) \<and>
    (\<forall>m'. ml_requester m = Req_pause_wait \<and> ml_PauseAck m \<and> control_step\<^sup>*\<^sup>* (Suspend_return m) m'
       \<longrightarrow> ml_runs m' = ml_runs m)"
proof -
  have inv: "loop_inv m" using assms by (rule loop_reach_inv)
  have "ml_runs m' = ml_runs m"
    if "ml_requester m = Req_pause_wait" "ml_PauseAck m" "control_step\<^sup>*\<^sup>* (Suspend_return m) m'" for m'
  proof -
    have "ml_pc m = Loop_suspend \<or> ml_pc m = Loop_wait \<and> ml_suspended m"
      using inv that(1,2) by (auto simp: loop_inv_def pausing_def)
    then show ?thesis using paused_runs [OF that(3)] by (simp add: Suspend_return_def)
  qed
  with inv show ?thesis by (auto simp: loop_inv_def)
qed

text \<open>Executing a schedule.\<close>

datatype loop_action = Act_control | Act_suspend | Act_suspended | Act_resume | Act_single
  | Act_single_resume | Act_single_return

fun loop_act :: "loop_action \<Rightarrow> mission_loop \<Rightarrow> mission_loop option" where
  "loop_act Act_control m = (if ml_suspended m then None else Some (TaskLoop_step m))"
| "loop_act Act_suspend m = (if ml_requester m = Req_idle then Some (Suspend_begin m) else None)"
| "loop_act Act_suspended m =
     (if ml_requester m = Req_pause_wait \<and> ml_PauseAck m then Some (Suspend_return m) else None)"
| "loop_act Act_resume m = (if ml_requester m = Req_idle then Some (Resume m) else None)"
| "loop_act Act_single m =
     (if ml_requester m = Req_idle then Some (RequestSingleIteration_begin m) else None)"
| "loop_act Act_single_resume m =
     (case ml_requester m of
        Req_single_resume n \<Rightarrow> Some ((Resume m)\<lparr>ml_requester := Req_single_wait n\<rparr>) | _ \<Rightarrow> None)"
| "loop_act Act_single_return m =
     (case ml_requester m of
        Req_single_wait n \<Rightarrow> (if ml_RunOnceFinished m \<and> ml_PauseAck m
          then Some (RequestSingleIteration_return n m) else None) | _ \<Rightarrow> None)"

primrec loop_acts :: "loop_action list \<Rightarrow> mission_loop \<Rightarrow> mission_loop option" where
  "loop_acts [] m = Some m"
| "loop_acts (a # as) m = Option.bind (loop_act a m) (loop_acts as)"

lemma loop_act_step: "loop_act a m = Some m' \<Longrightarrow> loop_step m m'"
  by (cases a) (auto intro: loop_step.intros split: if_splits requester_pc.splits)

lemma loop_acts_reach: "loop_acts as m = Some m' \<Longrightarrow> loop_step\<^sup>*\<^sup>* m m'"
proof (induction as arbitrary: m)
  case (Cons a as)
  then obtain d where "loop_act a m = Some d" "loop_step\<^sup>*\<^sup>* d m'" by (auto simp: bind_eq_Some_conv)
  then show ?case by (meson loop_act_step converse_rtranclp_into_rtranclp)
qed simp

lemmas loop_defs = mission_loop_initialized_def TaskLoop_step_def Suspend_begin_def
  Suspend_return_def Resume_def RequestSingleIteration_begin_def RequestSingleIteration_return_def

lemma mission_loop_requests_witness:
  "\<exists>m. loop_step\<^sup>*\<^sup>* mission_loop_initialized m \<and> ml_requester m = Req_single_done 0 \<and> 0 < ml_runs m"
proof -
  let ?m = "the (loop_acts [Act_single, Act_single_resume, Act_control, Act_control, Act_control,
    Act_control, Act_control, Act_control, Act_single_return] mission_loop_initialized)"
  have "loop_acts [Act_single, Act_single_resume, Act_control, Act_control, Act_control,
    Act_control, Act_control, Act_control, Act_single_return] mission_loop_initialized = Some ?m"
    "ml_requester ?m = Req_single_done 0"
    by (simp_all add: loop_defs)
  then have "loop_step\<^sup>*\<^sup>* mission_loop_initialized ?m" "ml_requester ?m = Req_single_done 0"
    by (simp_all only: loop_acts_reach)
  from mission_loop_requests [OF this(1)] this show ?thesis by blast
qed

text \<open>
  A resume can be lost: the pause is acknowledged before the control task suspends itself, so a
  \<open>Suspend\<close> that has returned, followed by a \<open>Resume\<close>, can leave the task suspended with no request
  outstanding, and no step but another \<open>Resume\<close> (or a new request) is then possible.
\<close>
theorem mission_loop_lost_resume:
  "\<exists>m. loop_acts [Act_resume, Act_suspend, Act_control, Act_control, Act_control, Act_suspended,
      Act_resume, Act_control] mission_loop_initialized = Some m \<and>
    ml_suspended m \<and> \<not> ml_PauseRequest m \<and> ml_requester m = Req_idle"
  by (simp add: loop_defs)

end
