(* ===== verification/Antenna_Task.thy ===== *)
theory Antenna_Task
  imports Mission_Base "HOL-Library.Sublist"
begin

text \<open>
  Antenna deployment (libs/mission/antenna/antenna.cpp) and the silent period
  (libs/mission/obc/obc.cpp). The power controller and the antenna driver are a function from a call
  to its result on a world \<open>'w\<close>; times are milliseconds.
\<close>

section \<open>The code\<close>

definition SilentPeriodThreshold :: int where
  "SilentPeriodThreshold = 40 * 60 * 1000"

definition IsInitialSilentPeriodFinished :: "int \<Rightarrow> bool" where
  "IsInitialSilentPeriodFinished currentTime \<longleftrightarrow> currentTime > SilentPeriodThreshold"

datatype AntennaChannel = ANTENNA_PRIMARY_CHANNEL | ANTENNA_BACKUP_CHANNEL

datatype AntennaId = ANTENNA_AUTO_ID | ANTENNA1_ID | ANTENNA2_ID | ANTENNA3_ID | ANTENNA4_ID

text \<open>The calls a step can make; the power calls report a \<open>bool\<close>, here success or failure.\<close>

datatype antenna_call =
    Call_PrimaryAntennaPower bool
  | Call_BackupAntennaPower bool
  | Call_Reset AntennaChannel
  | Call_Arm AntennaChannel
  | Call_DeployAntenna AntennaChannel AntennaId int bool
  | Call_Disarm AntennaChannel

datatype StepAction = Step_PowerOn | Step_Reset | Step_Arm | Step_Deploy | Step_Disarm | Step_PowerOff

record StepDescriptor =
  sd_Action :: StepAction
  sd_Channel :: AntennaChannel
  sd_Antenna :: AntennaId
  sd_burnTime :: int
  sd_waitTime :: int

definition antenna_sequence :: "AntennaChannel \<Rightarrow> AntennaId \<Rightarrow> int \<Rightarrow> int \<Rightarrow> StepDescriptor list" where
  "antenna_sequence ch antenna burn wait =
     [\<lparr>sd_Action = Step_PowerOn, sd_Channel = ch, sd_Antenna = ANTENNA_AUTO_ID, sd_burnTime = 0, sd_waitTime = 9000\<rparr>,
      \<lparr>sd_Action = Step_Reset, sd_Channel = ch, sd_Antenna = ANTENNA_AUTO_ID, sd_burnTime = 0, sd_waitTime = 59000\<rparr>,
      \<lparr>sd_Action = Step_Arm, sd_Channel = ch, sd_Antenna = ANTENNA_AUTO_ID, sd_burnTime = 0, sd_waitTime = 59000\<rparr>,
      \<lparr>sd_Action = Step_Deploy, sd_Channel = ch, sd_Antenna = antenna, sd_burnTime = burn, sd_waitTime = wait\<rparr>,
      \<lparr>sd_Action = Step_Disarm, sd_Channel = ch, sd_Antenna = ANTENNA_AUTO_ID, sd_burnTime = 0, sd_waitTime = 0\<rparr>,
      \<lparr>sd_Action = Step_PowerOff, sd_Channel = ch, sd_Antenna = ANTENNA_AUTO_ID, sd_burnTime = 0, sd_waitTime = 119000\<rparr>]"

definition FullSequenceAuto :: "AntennaChannel \<Rightarrow> StepDescriptor list" where
  "FullSequenceAuto ch = antenna_sequence ch ANTENNA_AUTO_ID (4 * 30000) 179000"

definition FullSequenceManual :: "AntennaChannel \<Rightarrow> AntennaId \<Rightarrow> StepDescriptor list" where
  "FullSequenceManual ch antenna = antenna_sequence ch antenna 30000 89000"

definition Antenna_Steps :: "StepDescriptor list" where
  "Antenna_Steps =
     FullSequenceAuto ANTENNA_PRIMARY_CHANNEL
     @ FullSequenceManual ANTENNA_PRIMARY_CHANNEL ANTENNA1_ID
     @ FullSequenceManual ANTENNA_PRIMARY_CHANNEL ANTENNA2_ID
     @ FullSequenceManual ANTENNA_PRIMARY_CHANNEL ANTENNA3_ID
     @ FullSequenceManual ANTENNA_PRIMARY_CHANNEL ANTENNA4_ID
     @ FullSequenceAuto ANTENNA_BACKUP_CHANNEL
     @ FullSequenceManual ANTENNA_BACKUP_CHANNEL ANTENNA1_ID
     @ FullSequenceManual ANTENNA_BACKUP_CHANNEL ANTENNA2_ID
     @ FullSequenceManual ANTENNA_BACKUP_CHANNEL ANTENNA3_ID
     @ FullSequenceManual ANTENNA_BACKUP_CHANNEL ANTENNA4_ID"

definition StepRetries :: int where
  "StepRetries = 3"

record 't antenna_task =
  at_step :: nat
  at_nextStepAt :: int
  at_retryCounter :: int
  at_currentTelemetry :: 't
  at_controllerPoweredOn :: bool

definition AntennaTask_new :: "'t \<Rightarrow> 't antenna_task" where
  "AntennaTask_new telemetry =
     \<lparr>at_step = 0, at_nextStepAt = 0, at_retryCounter = StepRetries,
      at_currentTelemetry = telemetry, at_controllerPoweredOn = False\<rparr>"

definition IsDeploymentDisabled :: "bool \<Rightarrow> SystemState \<Rightarrow> bool" where
  "IsDeploymentDisabled taken s =
     (let (ok, cfg) = Lockable_Get taken get_AntennaConfiguration (ss_PersistentState s)
            AntennaConfiguration_default
      in ok \<and> isDeploymentDisabled cfg)"

definition Antenna_Condition :: "bool \<Rightarrow> SystemState \<Rightarrow> 't antenna_task \<Rightarrow> bool" where
  "Antenna_Condition taken s t =
     (if \<not> IsInitialSilentPeriodFinished (ss_Time s) then False
      else if at_step t \<ge> length Antenna_Steps then False
      else if ss_Time s < at_nextStepAt t then False
      else \<not> IsDeploymentDisabled taken s)"

text \<open>The action of a step. Powering the controller on or off also sets the flag of the task.\<close>

definition step_call :: "StepDescriptor \<Rightarrow> antenna_call" where
  "step_call d =
     (case sd_Action d of
        Step_PowerOn \<Rightarrow>
          (if sd_Channel d = ANTENNA_PRIMARY_CHANNEL then Call_PrimaryAntennaPower True
           else Call_BackupAntennaPower True)
      | Step_Reset \<Rightarrow> Call_Reset (sd_Channel d)
      | Step_Arm \<Rightarrow> Call_Arm (sd_Channel d)
      | Step_Deploy \<Rightarrow> Call_DeployAntenna (sd_Channel d) (sd_Antenna d) (sd_burnTime d) True
      | Step_Disarm \<Rightarrow> Call_Disarm (sd_Channel d)
      | Step_PowerOff \<Rightarrow>
          (if sd_Channel d = ANTENNA_PRIMARY_CHANNEL then Call_PrimaryAntennaPower False
           else Call_BackupAntennaPower False))"

definition perform_step ::
  "(antenna_call \<Rightarrow> 'w \<Rightarrow> OSResult \<times> 'w) \<Rightarrow> StepDescriptor \<Rightarrow> 't antenna_task \<Rightarrow> 'w
     \<Rightarrow> OSResult \<times> 't antenna_task \<times> 'w" where
  "perform_step hw d t w =
     (let (r, w) = hw (step_call d) w
      in case sd_Action d of
           Step_PowerOn \<Rightarrow>
             (if OS_RESULT_SUCCEEDED r then (OS_Success, t\<lparr>at_controllerPoweredOn := True\<rparr>, w)
              else (OS_DeviceNotFound, t, w))
         | Step_PowerOff \<Rightarrow>
             (if OS_RESULT_SUCCEEDED r then (OS_Success, t\<lparr>at_controllerPoweredOn := False\<rparr>, w)
              else (OS_DeviceNotFound, t, w))
         | _ \<Rightarrow> (r, t, w))"

definition Antenna_Action ::
  "(antenna_call \<Rightarrow> 'w \<Rightarrow> OSResult \<times> 'w) \<Rightarrow> SystemState \<Rightarrow> 't antenna_task \<Rightarrow> 'w
     \<Rightarrow> SystemState \<times> 't antenna_task \<times> 'w" where
  "Antenna_Action hw s t w =
     (let d = Antenna_Steps ! at_step t;
          (result, t, w) = perform_step hw d t w
      in if OS_RESULT_FAILED result \<and> at_retryCounter t > 1
         then (s, t\<lparr>at_retryCounter := at_retryCounter t - 1\<rparr>, w)
         else
           (let t = t\<lparr>at_step := Suc (at_step t), at_nextStepAt := ss_Time s + sd_waitTime d,
                     at_retryCounter := StepRetries\<rparr>
            in (if at_step t \<ge> length Antenna_Steps then s\<lparr>ss_AntennaDeployed := True\<rparr> else s, t, w)))"

text \<open>
  \<open>Update\<close>: \<open>taken\<close> for the lock of the persistent state, \<open>sync\<close> for the task's own; what the driver
  reads is an input.
\<close>

definition Antenna_Update ::
  "bool \<Rightarrow> bool \<Rightarrow> 't \<Rightarrow> SystemState \<Rightarrow> 't antenna_task \<Rightarrow> UpdateResult \<times> SystemState \<times> 't antenna_task"
where
  "Antenna_Update taken sync telemetry s t =
     (let s = (if \<not> ss_AntennaDeployed s \<and> IsDeploymentDisabled taken s
               then s\<lparr>ss_AntennaDeployed := True\<rparr> else s)
      in if \<not> at_controllerPoweredOn t then (Update_Ok, s, t)
         else if \<not> sync then (Update_Warning, s, t)
         else (Update_Ok, s, t\<lparr>at_currentTelemetry := telemetry\<rparr>))"

definition Antenna_GetTelemetry :: "bool \<Rightarrow> 't antenna_task \<Rightarrow> 't option" where
  "Antenna_GetTelemetry sync t = (if \<not> sync then None else Some (at_currentTelemetry t))"

section \<open>The deployment runs to its end\<close>

text \<open>
  A run of the mission loop: in each round the task is updated, then its condition evaluated and, when it
  holds, its action performed. A round has its time, the answers of the locks and what the driver reads;
  the hardware is any function, wrapped to list the calls it gets.
\<close>

definition logged_hw ::
  "(antenna_call \<Rightarrow> 'w \<Rightarrow> OSResult \<times> 'w) \<Rightarrow> antenna_call \<Rightarrow> 'w \<times> antenna_call list
     \<Rightarrow> OSResult \<times> 'w \<times> antenna_call list" where
  "logged_hw hw c wl = (let (r, w) = hw c (fst wl) in (r, w, snd wl @ [c]))"

record 't antenna_inputs =
  ai_time :: int
  ai_updateLock :: bool
  ai_sync :: bool
  ai_telemetry :: 't
  ai_actionLock :: bool

definition antenna_round ::
  "(antenna_call \<Rightarrow> 'w \<Rightarrow> OSResult \<times> 'w) \<Rightarrow> 't antenna_inputs \<Rightarrow> SystemState \<times> 't antenna_task \<times> 'w
     \<Rightarrow> SystemState \<times> 't antenna_task \<times> 'w" where
  "antenna_round hw i st =
     (let (s, t, w) = st;
          s = s\<lparr>ss_Time := ai_time i\<rparr>;
          (_, s, t) = Antenna_Update (ai_updateLock i) (ai_sync i) (ai_telemetry i) s t
      in if Antenna_Condition (ai_actionLock i) s t then Antenna_Action hw s t w else (s, t, w))"

lemma Antenna_Steps_length [simp]: "length Antenna_Steps = 60"
  by (simp add: Antenna_Steps_def FullSequenceAuto_def FullSequenceManual_def antenna_sequence_def)

lemma Antenna_Steps_wait:
  assumes "i < 60"
  shows "sd_waitTime (Antenna_Steps ! i) \<le> 179000"
proof -
  have "\<forall>d \<in> set Antenna_Steps. sd_waitTime d \<le> 179000"
    by (simp add: Antenna_Steps_def FullSequenceAuto_def FullSequenceManual_def antenna_sequence_def)
  then show ?thesis using assms by simp
qed

lemma perform_step_logged:
  assumes "perform_step (logged_hw hw) d t (w, l) = (r, t', w')"
  shows "snd w' = l @ [step_call d] \<and> at_step t' = at_step t \<and>
    at_retryCounter t' = at_retryCounter t \<and> at_nextStepAt t' = at_nextStepAt t"
  using assms
  by (cases "sd_Action d")
    (auto simp: perform_step_def logged_hw_def split_beta Let_def split: if_splits)

text \<open>
  The calls made so far: one to three for every finished step, in order, and those of the current
  step, of which \<open>StepRetries - retryCounter\<close> have failed.
\<close>

definition tries :: "nat list \<Rightarrow> antenna_call list" where
  "tries ns = concat (map (\<lambda>(n, d). replicate n (step_call d)) (zip ns Antenna_Steps))"

definition antenna_inv :: "SystemState \<times> 't antenna_task \<times> 'w \<times> antenna_call list \<Rightarrow> nat list \<Rightarrow> bool" where
  "antenna_inv st ns \<longleftrightarrow> (case st of (s, t, w, l) \<Rightarrow>
     at_step t \<le> 60 \<and> 1 \<le> at_retryCounter t \<and> at_retryCounter t \<le> 3 \<and>
     length ns = at_step t \<and> (\<forall>n \<in> set ns. 1 \<le> n \<and> n \<le> 3) \<and>
     l = tries ns @ replicate (nat (3 - at_retryCounter t)) (step_call (Antenna_Steps ! at_step t)) \<and>
     (at_step t = 60 \<longrightarrow> ss_AntennaDeployed s \<and> at_retryCounter t = 3) \<and>
     at_nextStepAt t \<le> ss_Time s + 179000)"

definition antenna_progress :: "SystemState \<times> 't antenna_task \<times> 'w \<Rightarrow> nat" where
  "antenna_progress st = (case st of (s, t, w) \<Rightarrow> 3 * at_step t + nat (3 - at_retryCounter t))"

lemma tries_snoc:
  assumes "length ns < 60"
  shows "tries (ns @ [n]) = tries ns @ replicate n (step_call (Antenna_Steps ! length ns))"
proof -
  have z: "zip ns (take (length ns) Antenna_Steps) = zip ns Antenna_Steps"
    by (metis append_Nil2 zip_append1 zip_Nil)
  have d: "drop (length ns) Antenna_Steps
      = Antenna_Steps ! length ns # drop (Suc (length ns)) Antenna_Steps"
    using assms by (simp add: Cons_nth_drop_Suc)
  have "zip (ns @ [n]) Antenna_Steps = zip ns Antenna_Steps @ [(n, Antenna_Steps ! length ns)]"
    unfolding zip_append1 z d by simp
  then show ?thesis by (simp add: tries_def)
qed

lemma Antenna_Action_inv:
  assumes "antenna_inv (s, t, w) ns" and "at_step t < 60"
    and "Antenna_Action (logged_hw hw) s t w = (s', t', w')"
  shows "(\<exists>ns'. antenna_inv (s', t', w') ns') \<and>
    antenna_progress (s, t, w) < antenna_progress (s', t', w') \<and>
    ss_PersistentState s' = ss_PersistentState s \<and> ss_Time s' = ss_Time s"
proof -
  let ?d = "Antenna_Steps ! at_step t"
  obtain w0 l where w: "w = (w0, l)" by fastforce
  obtain r t1 w1 where p: "perform_step (logged_hw hw) ?d t w = (r, t1, w1)" by (metis prod_cases3)
  note logged = perform_step_logged [OF p [unfolded w]]
  have inv: "1 \<le> at_retryCounter t" "at_retryCounter t \<le> 3" "length ns = at_step t"
    "\<forall>n \<in> set ns. 1 \<le> n \<and> n \<le> 3" "l = tries ns @ replicate (nat (3 - at_retryCounter t)) (step_call ?d)"
    using assms(1) by (simp_all add: antenna_inv_def w)
  have more: "replicate (nat (3 - at_retryCounter t)) x @ [x] = replicate (nat (3 - (at_retryCounter t - 1))) x"
    for x :: antenna_call
  proof -
    have "nat (3 - (at_retryCounter t - 1)) = Suc (nat (3 - at_retryCounter t))" using inv(2) by linarith
    then show ?thesis by (simp only: replicate_append_same replicate_Suc)
  qed
  show ?thesis
  proof (cases "OS_RESULT_FAILED r \<and> at_retryCounter t > 1")
    case True
    then have "s' = s" "t' = t1\<lparr>at_retryCounter := at_retryCounter t - 1\<rparr>" "w' = w1"
      using assms(3) p logged by (simp_all add: Antenna_Action_def)
    then show ?thesis
      using assms(1,2) logged inv more True
      by (auto simp: antenna_inv_def antenna_progress_def w split_beta intro!: exI [of _ ns])
  next
    case False
    then have r: "s' = (if Suc (at_step t) \<ge> 60 then s\<lparr>ss_AntennaDeployed := True\<rparr> else s)"
      "t' = t1\<lparr>at_step := Suc (at_step t), at_nextStepAt := ss_Time s + sd_waitTime ?d,
        at_retryCounter := StepRetries\<rparr>" "w' = w1"
      using assms(3) p logged by (auto simp: Antenna_Action_def Let_def)
    let ?ns = "ns @ [nat (3 - (at_retryCounter t - 1))]"
    have "antenna_inv (s', t', w') ?ns"
      using assms(1,2) logged inv more tries_snoc [of ns] Antenna_Steps_wait [of "at_step t"]
      by (auto simp: antenna_inv_def r w StepRetries_def split_beta)
    then show ?thesis
      using inv(1,2) by (auto simp: r antenna_progress_def StepRetries_def)
  qed
qed

definition deployment_allowed :: "SystemState \<Rightarrow> bool" where
  "deployment_allowed s \<longleftrightarrow>
     \<not> isDeploymentDisabled (get_AntennaConfiguration (ps_parts (ss_PersistentState s)))"

text \<open>While deployment is allowed, whatever the locks answer, an update changes no more than the telemetry.\<close>

lemma Antenna_Update_allowed:
  assumes "deployment_allowed s"
  shows "\<exists>r tm. Antenna_Update taken sync telemetry s t = (r, s, t\<lparr>at_currentTelemetry := tm\<rparr>)"
proof -
  have "\<not> IsDeploymentDisabled taken s"
    using assms by (simp add: IsDeploymentDisabled_def Lockable_Get_def deployment_allowed_def)
  then have "Antenna_Update taken sync telemetry s t =
      (if at_controllerPoweredOn t \<and> \<not> sync then Update_Warning else Update_Ok, s,
       t\<lparr>at_currentTelemetry := if at_controllerPoweredOn t \<and> sync then telemetry else at_currentTelemetry t\<rparr>)"
    by (simp add: Antenna_Update_def Let_def)
  then show ?thesis by blast
qed

lemma antenna_inv_telemetry:
  "antenna_inv (s, t\<lparr>at_currentTelemetry := tm\<rparr>, w) ns = antenna_inv (s, t, w) ns"
  "antenna_progress (s, t\<lparr>at_currentTelemetry := tm\<rparr>, w) = antenna_progress (s, t, w)"
  by (simp_all add: antenna_inv_def antenna_progress_def split_beta)

text \<open>
  One round: it makes progress when its time has come, and otherwise may leave the task as it is; the
  next step is at most the longest wait away.
\<close>

definition due :: "'t antenna_task \<Rightarrow> int \<Rightarrow> bool" where
  "due t time \<longleftrightarrow> SilentPeriodThreshold < time \<and> at_nextStepAt t \<le> time"

lemma antenna_round_progress:
  assumes "antenna_inv (s, t, w) ns" and "deployment_allowed s" and "ss_Time s \<le> ai_time i" and "at_step t < 60"
  shows "\<exists>s' t' w' ns'. antenna_round (logged_hw hw) i (s, t, w) = (s', t', w') \<and> antenna_inv (s', t', w') ns'
    \<and> deployment_allowed s' \<and> ss_Time s' = ai_time i
    \<and> (if due t (ai_time i)
        then antenna_progress (s, t, w) < antenna_progress (s', t', w') \<and> at_nextStepAt t' \<le> ai_time i + 179000
        else antenna_progress (s, t, w) = antenna_progress (s', t', w') \<and> at_nextStepAt t' = at_nextStepAt t
          \<and> at_step t' = at_step t)"
proof -
  let ?s = "s\<lparr>ss_Time := ai_time i\<rparr>"
  have al: "deployment_allowed ?s" using assms(2) by (simp add: deployment_allowed_def)
  obtain r tm where u: "Antenna_Update (ai_updateLock i) (ai_sync i) (ai_telemetry i) ?s t
      = (r, ?s, t\<lparr>at_currentTelemetry := tm\<rparr>)"
    using Antenna_Update_allowed [OF al, of "ai_updateLock i" "ai_sync i" "ai_telemetry i" t] by blast
  let ?t = "t\<lparr>at_currentTelemetry := tm\<rparr>"
  have inv: "antenna_inv (?s, ?t, w) ns"
    using assms(1,3) by (auto simp: antenna_inv_telemetry antenna_inv_def split_beta)
  have c: "Antenna_Condition (ai_actionLock i) ?s ?t \<longleftrightarrow> due t (ai_time i)"
    using al assms(4) by (auto simp: Antenna_Condition_def due_def IsInitialSilentPeriodFinished_def
        IsDeploymentDisabled_def Lockable_Get_def deployment_allowed_def)
  have p: "antenna_progress (?s, ?t, w) = antenna_progress (s, t, w)" by (simp add: antenna_progress_def)
  show ?thesis
  proof (cases "due t (ai_time i)")
    case False
    then have "antenna_round (logged_hw hw) i (s, t, w) = (?s, ?t, w)" using c by (simp add: antenna_round_def u)
    then show ?thesis using False inv al p
      by (intro exI [of _ ?s] exI [of _ ?t] exI [of _ w] exI [of _ ns]) simp
  next
    case True
    obtain s' t' w' where a: "Antenna_Action (logged_hw hw) ?s ?t w = (s', t', w')" by (metis prod_cases3)
    have "at_step ?t < 60" using assms(4) by simp
    from Antenna_Action_inv [OF inv this a] obtain ns' where
      i: "antenna_inv (s', t', w') ns'" "antenna_progress (?s, ?t, w) < antenna_progress (s', t', w')"
        "ss_PersistentState s' = ss_PersistentState ?s" "ss_Time s' = ai_time i" by auto
    have "at_nextStepAt t' \<le> ai_time i + 179000" using i(1,4) by (auto simp: antenna_inv_def split_beta)
    moreover have "deployment_allowed s'" using al i(3) by (simp add: deployment_allowed_def)
    moreover have "antenna_round (logged_hw hw) i (s, t, w) = (s', t', w')"
      using True c a by (simp add: antenna_round_def u)
    ultimately show ?thesis using i True p
      by (intro exI [of _ s'] exI [of _ t'] exI [of _ w'] exI [of _ ns']) simp
  qed
qed

lemma antenna_finished:
  assumes "antenna_inv (s, t, w) ns" and "deployment_allowed s" and "at_step t = 60"
    and "sorted (map ai_time is)" and "\<forall>i \<in> set is. ss_Time s \<le> ai_time i"
  shows "\<exists>s' t'. fold (antenna_round (logged_hw hw)) is (s, t, w) = (s', t', w) \<and> antenna_inv (s', t', w) ns
    \<and> at_step t' = 60"
  using assms
proof (induction "is" arbitrary: s t)
  case (Cons i "is")
  let ?s = "s\<lparr>ss_Time := ai_time i\<rparr>"
  have al: "deployment_allowed ?s" using Cons.prems(2) by (simp add: deployment_allowed_def)
  obtain r tm where u: "Antenna_Update (ai_updateLock i) (ai_sync i) (ai_telemetry i) ?s t
      = (r, ?s, t\<lparr>at_currentTelemetry := tm\<rparr>)"
    using Antenna_Update_allowed [OF al, of "ai_updateLock i" "ai_sync i" "ai_telemetry i" t] by blast
  have e: "antenna_round (logged_hw hw) i (s, t, w) = (?s, t\<lparr>at_currentTelemetry := tm\<rparr>, w)"
    using Cons.prems(3) by (simp add: antenna_round_def u Antenna_Condition_def)
  have "antenna_inv (?s, t\<lparr>at_currentTelemetry := tm\<rparr>, w) ns"
    using Cons.prems(1,5) by (auto simp: antenna_inv_telemetry antenna_inv_def split_beta)
  then show ?case using Cons.IH [OF _ al] Cons.prems(3-5) by (simp add: e)
qed auto

text \<open>
  Rounds at any times, some of which, \<open>us\<close>, are the longest wait apart: each of those finds the next step
  due, or a step that has been made since the one before.
\<close>

lemma antenna_rounds:
  assumes "antenna_inv (s, t, w) ns" and "deployment_allowed s"
    and "sorted (map ai_time is)" and "\<forall>i \<in> set is. ss_Time s \<le> ai_time i"
    and "subseq us (map ai_time is)" and "sorted_wrt (\<lambda>a b. a + 179000 \<le> b) us" and "\<forall>u \<in> set us. due t u"
  shows "\<exists>s' t' w' ns'. fold (antenna_round (logged_hw hw)) is (s, t, w) = (s', t', w') \<and> antenna_inv (s', t', w') ns'
    \<and> (at_step t' = 60 \<or> antenna_progress (s, t, w) + length us \<le> antenna_progress (s', t', w'))"
  using assms
proof (induction "is" arbitrary: s t w ns us)
  case Nil
  then show ?case by auto
next
  case (Cons i "is")
  show ?case
  proof (cases "at_step t < 60")
    case False
    then have "at_step t = 60" using Cons.prems(1) by (simp add: antenna_inv_def split_beta)
    from antenna_finished [OF Cons.prems(1,2) this Cons.prems(3,4)] show ?thesis by blast
  next
    case True
    have time: "ss_Time s \<le> ai_time i" using Cons.prems(4) by simp
    obtain s' t' w' ns' where r: "antenna_round (logged_hw hw) i (s, t, w) = (s', t', w')" "antenna_inv (s', t', w') ns'"
      "deployment_allowed s'" "ss_Time s' = ai_time i"
      and p: "if due t (ai_time i)
        then antenna_progress (s, t, w) < antenna_progress (s', t', w') \<and> at_nextStepAt t' \<le> ai_time i + 179000
        else antenna_progress (s, t, w) = antenna_progress (s', t', w') \<and> at_nextStepAt t' = at_nextStepAt t
          \<and> at_step t' = at_step t"
      using antenna_round_progress [OF Cons.prems(1,2) time True] by blast
    have later: "sorted (map ai_time is)" "\<forall>i \<in> set is. ss_Time s' \<le> ai_time i" using Cons.prems(3) r(4) by simp_all
    let ?vs = "if due t (ai_time i) then tl us else us"
    have "subseq ?vs (map ai_time is) \<and> (\<forall>u \<in> set ?vs. due t' u) \<and> length us \<le> length ?vs + (if due t (ai_time i) then 1 else 0)
        \<and> sorted_wrt (\<lambda>a b. a + 179000 \<le> b) ?vs"
    proof (cases us)
      case Nil
      then show ?thesis by simp
    next
      case (Cons u vs)
      show ?thesis
      proof (cases "due t (ai_time i)")
        case True
        have "subseq vs (map ai_time is)"
          using Cons.prems(5) by (cases "u = ai_time i") (auto simp: \<open>us = u # vs\<close> dest: subseq_Cons')
        moreover have "ai_time i \<le> u"
          using list_emb_set [OF Cons.prems(5), of u] Cons.prems(3) by (auto simp: \<open>us = u # vs\<close>)
        ultimately show ?thesis
          using True p Cons.prems(6,7) by (fastforce simp: \<open>us = u # vs\<close> due_def)
      next
        case False
        then have "u \<noteq> ai_time i" using Cons.prems(7) by (auto simp: \<open>us = u # vs\<close>)
        then show ?thesis using False p Cons.prems(5-7) by (auto simp: \<open>us = u # vs\<close> due_def)
      qed
    qed
    then show ?thesis
      using Cons.IH [OF r(2,3) later, of ?vs] p r(1) by (fastforce split: if_splits)
  qed
qed

text \<open>
  C36. The antennas are deployed. Whatever the hardware, the locks and the driver answer, when the mission
  time does not go back, deployment is not disabled by telecommand, and the mission loop gets to the task
  regularly: in each of 180 stretches of \<open>G\<close> milliseconds, the longest wait of 179 seconds apart, the first one
  after the silent period. (The loop runs every ten seconds, so \<open>G = 10000\<close> and 180 times 189 seconds are
  enough; any other rounds may come in between.) Then the antennas are marked deployed, and the hardware
  has been given the commands of all sixty steps in order, each one to three times.
\<close>
theorem antenna_deployment_completes:
  assumes "fold (antenna_round (logged_hw hw)) is (SystemState_new text, AntennaTask_new tm, w, [])
      = (s, t, w', calls)"
    and "sorted (map ai_time is)" and "\<forall>i \<in> set is. 0 \<le> ai_time i"
    and "SilentPeriodThreshold < start" and "0 \<le> G"
    and "\<forall>k < 180. \<exists>i \<in> set is. start + int k * (G + 179000) \<le> ai_time i \<and> ai_time i \<le> start + int k * (G + 179000) + G"
  shows "ss_AntennaDeployed s \<and> (\<exists>ns. length ns = 60 \<and> (\<forall>n \<in> set ns. 1 \<le> n \<and> n \<le> 3) \<and>
    calls = concat (map (\<lambda>(n, d). replicate n (step_call d)) (zip ns Antenna_Steps)))"
proof -
  let ?s = "SystemState_new text" and ?t = "AntennaTask_new tm" and ?l = "[] :: antenna_call list"
  have inv: "antenna_inv (?s, ?t, w, ?l) []"
    by (simp add: antenna_inv_def AntennaTask_new_def StepRetries_def tries_def SystemState_new_def)
  have al: "deployment_allowed ?s"
    by (simp add: deployment_allowed_def SystemState_new_def PersistentState_new_def
        get_AntennaConfiguration_def AntennaConfiguration_default_def)
  obtain i where i: "\<And>k. k < 180 \<Longrightarrow> i k \<in> set is"
    "\<And>k. k < 180 \<Longrightarrow> start + int k * (G + 179000) \<le> ai_time (i k)"
    "\<And>k. k < 180 \<Longrightarrow> ai_time (i k) \<le> start + int k * (G + 179000) + G"
    using assms(6) by metis
  define us where "us = map (\<lambda>k. ai_time (i k)) [0..<180]"
  have gap: "ai_time (i a) + 179000 \<le> ai_time (i b)" if "a < b" "b < 180" for a b
  proof -
    have "(int a + 1) * (G + 179000) \<le> int b * (G + 179000)" using that(1) assms(5) by (intro mult_right_mono) auto
    then show ?thesis using i(3) [of a] i(2) [of b] that by (simp add: algebra_simps)
  qed
  have w: "sorted_wrt (\<lambda>a b. a + 179000 \<le> b) us" using gap by (auto simp: us_def sorted_wrt_iff_nth_less)
  then have "sorted_wrt (<) us" by (rule sorted_wrt_mono_rel [rotated]) simp
  moreover have "set us \<subseteq> set (map ai_time is)" using i(1) by (auto simp: us_def)
  ultimately have sub: "subseq us (map ai_time is)" by (intro sorted_subset_imp_subseq assms(2))
  have "start \<le> ai_time (i k)" if "k < 180" for k
  proof -
    have "0 \<le> int k * (G + 179000)" using assms(5) by simp
    then show ?thesis using i(2) [OF that] by linarith
  qed
  then have due: "\<forall>u \<in> set us. due ?t u"
    using assms(4) by (fastforce simp: us_def due_def AntennaTask_new_def SilentPeriodThreshold_def)
  have "\<forall>i \<in> set is. ss_Time ?s \<le> ai_time i" using assms(3) by (simp add: SystemState_new_def)
  from antenna_rounds [OF inv al assms(2) this sub w due, of hw] obtain ns where ns: "antenna_inv (s, t, w', calls) ns"
    "at_step t = 60 \<or> antenna_progress (?s, ?t, w, ?l) + length us \<le> antenna_progress (s, t, w', calls)"
    unfolding assms(1) by auto
  have "at_step t = 60"
    using ns by (auto simp: antenna_inv_def antenna_progress_def us_def)
  then show ?thesis using ns(1) by (auto simp: antenna_inv_def tries_def)
qed

text \<open>The mission loop every ten seconds from the start, whose hardware and locks always fail.\<close>

definition ten_second_rounds :: "unit antenna_inputs list" where
  "ten_second_rounds = map (\<lambda>k. \<lparr>ai_time = 10000 * int k, ai_updateLock = False, ai_sync = False, ai_telemetry = (),
     ai_actionLock = False\<rparr>) [0..<3800]"

lemma antenna_deployment_completes_witness:
  "\<exists>s t w' calls. fold (antenna_round (logged_hw (\<lambda>c w. (OS_Timeout, w)))) ten_second_rounds
       (SystemState_new [], AntennaTask_new (), (), [])
     = (s, t, w', calls) \<and> ss_AntennaDeployed s"
proof -
  obtain s t w' calls where r: "fold (antenna_round (logged_hw (\<lambda>c w. (OS_Timeout, w)))) ten_second_rounds
      (SystemState_new [], AntennaTask_new (), (), []) = (s, t, w', calls)" by (metis prod_cases4)
  have "\<exists>i \<in> set ten_second_rounds. 2410000 + int k * (10000 + 179000) \<le> ai_time i
      \<and> ai_time i \<le> 2410000 + int k * (10000 + 179000) + 10000" if k: "k < 180" for k
  proof -
    let ?m = "(2410000 + k * 189000 + 9999) div 10000"
    have "10000 * ?m + (2410000 + k * 189000 + 9999) mod 10000 = 2410000 + k * 189000 + 9999"
      by (rule mult_div_mod_eq)
    moreover have "(2410000 + k * 189000 + 9999) mod 10000 < 10000" by (rule mod_less_divisor) simp
    ultimately have m: "?m < 3800" "2410000 + k * 189000 \<le> 10000 * ?m" "10000 * ?m \<le> 2410000 + k * 189000 + 10000"
      using k by linarith+
    then have "2410000 + int k * 189000 \<le> 10000 * int ?m" "10000 * int ?m \<le> 2410000 + int k * 189000 + 10000"
      by linarith+
    then show ?thesis using m(1) by (auto simp: ten_second_rounds_def intro!: bexI [of _ ?m])
  qed
  moreover have "sorted (map ai_time ten_second_rounds)"
    by (auto simp: ten_second_rounds_def sorted_wrt_iff_nth_less)
  ultimately have "ss_AntennaDeployed s"
    using antenna_deployment_completes [OF r, of 2410000 10000]
    by (simp add: SilentPeriodThreshold_def ten_second_rounds_def)
  with r show ?thesis by blast
qed

end
