(* ===== verification/Mission_Tasks.thy ===== *)
theory Mission_Tasks
  imports Mission_Base Antenna_Task Error_Counter Timer
begin

text \<open>
  The smaller mission tasks: attitude control (libs/mission/adcs), transmitter idle state
  (libs/mission/comm), beacon (libs/mission/beacon), experiments (libs/mission/experiments), error
  counter configuration (libs/mission/fdir), file system checkpoints (libs/mission/fs), early orbit
  phase (libs/mission/leop), memory recovery (libs/mission/memory), periodic power cycle
  (libs/mission/power) and the watchdogs. Each is its members, its condition and its action.
\<close>

section \<open>Attitude control\<close>

datatype AdcsTaskState = AdcsTask_WaitingForStart | AdcsTask_Detumbling | AdcsTask_Stopped

definition hours :: "int \<Rightarrow> int" where
  "hours n = n * 3600 * 1000"

definition AdcsStatusUpdate :: "'w coordinator \<Rightarrow> SystemState \<Rightarrow> UpdateResult \<times> SystemState" where
  "AdcsStatusUpdate c s = (Update_Ok, s\<lparr>ss_AdcsMode := ac_currentMode c\<rparr>)"

definition IsDetumblingDisabled :: "bool \<Rightarrow> SystemState \<Rightarrow> bool" where
  "IsDetumblingDisabled taken s =
     (let (ok, adcsState) = Lockable_Get taken get_AdcsState (ss_PersistentState s) AdcsState_default
      in if \<not> ok then False else internalDetumblingDisabled adcsState)"

definition Adcs_StartCondition :: "bool \<Rightarrow> SystemState \<Rightarrow> AdcsTaskState \<Rightarrow> 'w coordinator \<Rightarrow> bool" where
  "Adcs_StartCondition taken s state c =
     (if \<not> IsInitialSilentPeriodFinished (ss_Time s) then False
      else if state \<noteq> AdcsTask_WaitingForStart then False
      else if ss_Time s > hours 4 then False
      else if ac_currentMode c \<noteq> AdcsStopped then False
      else if \<not> ss_AntennaDeployed s then False
      else if IsDetumblingDisabled taken s then False
      else True)"

definition Adcs_Start :: "AdcsTaskState \<Rightarrow> 'w coordinator \<Rightarrow> AdcsTaskState \<times> 'w coordinator" where
  "Adcs_Start state c =
     (let (result, c) = EnableBuiltinDetumbling c
      in (if OS_RESULT_SUCCEEDED result then AdcsTask_Detumbling else state, c))"

definition Adcs_StopCondition :: "SystemState \<Rightarrow> AdcsTaskState \<Rightarrow> bool" where
  "Adcs_StopCondition s state =
     (if ss_Time s \<le> hours 4 then False else if state \<noteq> AdcsTask_Detumbling then False else True)"

definition Adcs_Stop :: "AdcsTaskState \<Rightarrow> 'w coordinator \<Rightarrow> AdcsTaskState \<times> 'w coordinator" where
  "Adcs_Stop state c =
     (let (result, c) = Coordinator_Stop c
      in (if OS_RESULT_SUCCEEDED result then AdcsTask_Stopped else state, c))"

text \<open>The composite action, over the system state, the task and the coordinator.\<close>

definition AdcsPrimaryTask_action :: "bool \<Rightarrow> (SystemState \<times> AdcsTaskState \<times> 'w coordinator) ActionDescriptor" where
  "AdcsPrimaryTask_action taken = CompositeAction_Build
     [\<lparr>ad_condition = Some (\<lambda>(s, t, c). (Adcs_StartCondition taken s t c, s, t, c)),
       ad_actionProc = Some (\<lambda>(s, t, c). (s, Adcs_Start t c))\<rparr>,
      \<lparr>ad_condition = Some (\<lambda>(s, t, c). (Adcs_StopCondition s t, s, t, c)),
       ad_actionProc = Some (\<lambda>(s, t, c). (s, Adcs_Stop t c))\<rparr>]"

section \<open>Transmitter idle state\<close>

record comm_task =
  cm_idleStateTurnOffTime :: int
  cm_idleState :: bool

definition CommTask_new :: comm_task where
  "CommTask_new = \<lparr>cm_idleStateTurnOffTime = 0, cm_idleState = False\<rparr>"

text \<open>
  \<open>taken\<close>: the lock; \<open>set\<close>: \<open>SetTransmitterStateWhenIdle\<close> of the transmitter with the idle state
  (\<open>True\<close> for on) on its world.
\<close>

definition EnterTransmitterStateWhenIdle ::
  "(bool \<Rightarrow> 'w \<Rightarrow> bool \<times> 'w) \<Rightarrow> bool \<Rightarrow> int \<Rightarrow> comm_task \<Rightarrow> 'w \<Rightarrow> bool \<times> comm_task \<times> 'w" where
  "EnterTransmitterStateWhenIdle transmitter taken turnOffTime t w =
     (if \<not> taken then (False, t, w)
      else
        (let (result, w) = transmitter True w
         in (result, if result then t\<lparr>cm_idleState := True, cm_idleStateTurnOffTime := turnOffTime\<rparr>
                     else t, w)))"

definition LeaveTransmitterStateWhenIdle ::
  "(bool \<Rightarrow> 'w \<Rightarrow> bool \<times> 'w) \<Rightarrow> bool \<Rightarrow> comm_task \<Rightarrow> 'w \<Rightarrow> bool \<times> comm_task \<times> 'w" where
  "LeaveTransmitterStateWhenIdle transmitter taken t w =
     (if \<not> taken then (False, t, w)
      else
        (let (result, w) = transmitter False w
         in (result, if result then t\<lparr>cm_idleState := False\<rparr> else t, w)))"

definition CanLeaveTransmitterStateWhenIdle :: "SystemState \<Rightarrow> comm_task \<Rightarrow> bool" where
  "CanLeaveTransmitterStateWhenIdle s t \<longleftrightarrow> cm_idleState t \<and> cm_idleStateTurnOffTime t \<le> ss_Time s"

definition CommTask_ActionProc ::
  "(bool \<Rightarrow> 'w \<Rightarrow> bool \<times> 'w) \<Rightarrow> bool \<Rightarrow> comm_task \<Rightarrow> 'w \<Rightarrow> comm_task \<times> 'w" where
  "CommTask_ActionProc transmitter taken t w = snd (LeaveTransmitterStateWhenIdle transmitter taken t w)"

definition CommTask_TimeChanged :: "int \<Rightarrow> comm_task \<Rightarrow> comm_task" where
  "CommTask_TimeChanged d t = t\<lparr>cm_idleStateTurnOffTime := cm_idleStateTurnOffTime t + d\<rparr>"

text \<open>\<open>CommWdogTask\<close> waits for the communication loop when there is an observer.\<close>

definition CommWdog_ConditionProc :: "'o option \<Rightarrow> bool" where
  "CommWdog_ConditionProc observer \<longleftrightarrow> observer \<noteq> None"

section \<open>Beacon\<close>

record beacon_update =
  be_beaconTaskHandle :: bool
  be_isBeaconEnabled :: bool

definition BeaconUpdate_new :: beacon_update where
  "BeaconUpdate_new = \<lparr>be_beaconTaskHandle = False, be_isBeaconEnabled = False\<rparr>"

definition BeaconTaskHandle :: "bool \<Rightarrow> beacon_update \<Rightarrow> beacon_update" where
  "BeaconTaskHandle handle t = t\<lparr>be_beaconTaskHandle := handle\<rparr>"

definition ShouldUpdateBeacon :: "SystemState \<Rightarrow> beacon_update \<Rightarrow> bool" where
  "ShouldUpdateBeacon s t \<longleftrightarrow> ss_AntennaDeployed s \<and> be_beaconTaskHandle t \<and> \<not> be_isBeaconEnabled t"

text \<open>\<open>Run\<close> resumes the beacon task: the result says so.\<close>

definition BeaconUpdate_Run :: "beacon_update \<Rightarrow> bool \<times> beacon_update" where
  "BeaconUpdate_Run t = (True, t\<lparr>be_isBeaconEnabled := True\<rparr>)"

section \<open>Experiments\<close>

definition UpdateSystemState :: "SystemState \<Rightarrow> 'w controller \<Rightarrow> UpdateResult \<times> SystemState" where
  "UpdateSystemState s c = (Update_Ok, s\<lparr>ss_Experiment := CurrentState c\<rparr>)"

definition ShouldStartExperiment :: "'w controller \<Rightarrow> bool" where
  "ShouldStartExperiment c = (if ct_InProgress c then False else IsExperimentRequested c)"

definition ShouldKickExperiment :: "'w controller \<Rightarrow> bool" where
  "ShouldKickExperiment c = ct_InProgress c"

text \<open>Kick, then start; starting is guarded, so the controller is not asked without a request.\<close>

definition Experiment_actions :: "'w controller ActionDescriptor list" where
  "Experiment_actions =
     [\<lparr>ad_condition = Some (\<lambda>c. (ShouldKickExperiment c, c)),
       ad_actionProc = Some NotifyLoopIterationStart\<rparr>,
      \<lparr>ad_condition = Some (\<lambda>c. (ShouldStartExperiment c, c)),
       ad_actionProc = Some (\<lambda>c. case StartExperiment c of None \<Rightarrow> c | Some c' \<Rightarrow> c')\<rparr>]"

lemma ShouldStartExperiment_safe:
  "ShouldStartExperiment c \<Longrightarrow> StartExperiment c \<noteq> None"
  by (auto simp: ShouldStartExperiment_def IsExperimentRequested_def StartExperiment_def split: if_splits)

section \<open>Error counter configuration\<close>

definition SaveErrorCountersConfig_Update :: "bool \<Rightarrow> fdir \<Rightarrow> SystemState \<Rightarrow> UpdateResult \<times> SystemState" where
  "SaveErrorCountersConfig_Update taken f s =
     (let (r, ps) = Lockable_Set taken (put_ErrorCounters \<lparr>ec_config_words = FDIR_GetConfig f\<rparr>)
            (ss_PersistentState s)
      in (if r then Update_Ok else Update_Warning, s\<lparr>ss_PersistentState := ps\<rparr>))"

section \<open>File system checkpoints\<close>

definition SyncPeriod :: int where
  "SyncPeriod = 10 * 60 * 1000"

text \<open>The member \<open>_lastUpdate\<close>; the condition sets it on its first call.\<close>

definition CanCreateCheckpoint :: "SystemState \<Rightarrow> int option \<Rightarrow> bool \<times> int option" where
  "CanCreateCheckpoint s lastUpdate =
     (let last = (case lastUpdate of None \<Rightarrow> ss_Time s | Some v \<Rightarrow> v)
      in (ss_Time s - last \<ge> SyncPeriod, Some last))"

definition CreateCheckpoint :: "('w \<Rightarrow> 'w) \<Rightarrow> SystemState \<Rightarrow> int option \<Rightarrow> 'w \<Rightarrow> int option \<times> 'w" where
  "CreateCheckpoint sync s lastUpdate w = (Some (ss_Time s), sync w)"

definition FileSystem_TimeChanged :: "int \<Rightarrow> int option \<Rightarrow> int option" where
  "FileSystem_TimeChanged d lastUpdate = map_option (\<lambda>v. v + d) lastUpdate"

section \<open>Early orbit phase\<close>

definition ExperimentStartDelay :: int where
  "ExperimentStartDelay = 60 * 1000"

definition Leop_ExperimentTimeStop :: int where
  "Leop_ExperimentTimeStop = hours 4"

definition Leop_Code :: ExperimentCode where
  "Leop_Code = 0x04"

definition Leop_AutostartEnable :: "bool \<Rightarrow> bool" where
  "Leop_AutostartEnable isStartAllowed = True"

definition Leop_AutostartDisable :: "bool \<Rightarrow> bool" where
  "Leop_AutostartDisable isStartAllowed = False"

definition Leop_Condition :: "int option \<Rightarrow> bool \<Rightarrow> bool" where
  "Leop_Condition currentTime isStartAllowed =
     (case currentTime of
        None \<Rightarrow> False
      | Some v \<Rightarrow> isStartAllowed \<and> (v \<ge> ExperimentStartDelay \<and> v < Leop_ExperimentTimeStop))"

definition Leop_Action :: "bool \<Rightarrow> 'w controller \<Rightarrow> bool \<times> 'w controller" where
  "Leop_Action isStartAllowed c = (False, snd (RequestExperiment Leop_Code c))"

section \<open>Periodic power cycle\<close>

record scrubbing_status =
  sb_BootloaderInProgress :: bool
  sb_PrimarySlotsInProgress :: bool
  sb_FailsafeSlotsInProgress :: bool
  sb_SafeModeInProgress :: bool

definition PowerCycleTime :: int where
  "PowerCycleTime = hours 23"

definition PowerCycle_Condition ::
  "SystemState \<Rightarrow> scrubbing_status \<Rightarrow> ExperimentState \<Rightarrow> int option \<Rightarrow> bool \<times> int option" where
  "PowerCycle_Condition s scrubbing experiments bootTime =
     (case bootTime of
        None \<Rightarrow> (False, Some (ss_Time s))
      | Some boot \<Rightarrow>
          (if ss_Time s - boot < PowerCycleTime then (False, bootTime)
           else if sb_BootloaderInProgress scrubbing then (False, bootTime)
           else if sb_PrimarySlotsInProgress scrubbing then (False, bootTime)
           else if sb_FailsafeSlotsInProgress scrubbing then (False, bootTime)
           else if sb_SafeModeInProgress scrubbing then (False, bootTime)
           else if es_CurrentExperiment experiments \<noteq> None then (False, bootTime)
           else (True, bootTime)))"

definition PowerCycle_Action :: "('w \<Rightarrow> 'w) \<Rightarrow> 'w \<Rightarrow> 'w" where
  "PowerCycle_Action powerCycle w = powerCycle w"

definition PowerCycle_TimeChanged :: "int \<Rightarrow> int option \<Rightarrow> int option" where
  "PowerCycle_TimeChanged d bootTime = map_option (\<lambda>v. v + d) bootTime"

section \<open>Memory recovery and watchdogs\<close>

definition MemoryRecovery_Action :: "('w \<Rightarrow> 'w) \<Rightarrow> 'w \<Rightarrow> 'w" where
  "MemoryRecovery_Action performRecovery w = performRecovery w"

definition Watchdog_Kick :: "('w \<Rightarrow> 'w) \<Rightarrow> 'w \<Rightarrow> 'w" where
  "Watchdog_Kick resetWatchdog w = resetWatchdog w"

section \<open>The power cycle waits for what must not be interrupted\<close>

text \<open>A clock correction shifts the present and the boot time alike, so it does not shorten the wait.\<close>

lemma PowerCycle_shift:
  "fst (PowerCycle_Condition (s\<lparr>ss_Time := ss_Time s + d\<rparr>) sc ex (PowerCycle_TimeChanged d b))
     = fst (PowerCycle_Condition s sc ex b)"
  by (cases b) (simp_all add: PowerCycle_Condition_def PowerCycle_TimeChanged_def)

lemma PowerCycle_Condition_holds:
  "fst (PowerCycle_Condition s sc ex b) \<longleftrightarrow> (\<exists>boot. b = Some boot \<and> PowerCycleTime \<le> ss_Time s - boot) \<and>
     \<not> sb_BootloaderInProgress sc \<and> \<not> sb_PrimarySlotsInProgress sc \<and> \<not> sb_FailsafeSlotsInProgress sc \<and>
     \<not> sb_SafeModeInProgress sc \<and> es_CurrentExperiment ex = None"
  by (cases b; cases "es_CurrentExperiment ex") (auto simp: PowerCycle_Condition_def)

end
