(* ===== verification/Burn_Tasks.thy ===== *)
theory Burn_Tasks
  imports Mission_Base
begin

text \<open>
  Opening the sail (libs/mission/sail/sail.cpp) and deploying the solar arrays
  (libs/mission/sads/sads.cpp). Both tasks walk a table of steps, calling the power controller,
  whose results they ignore, and stop at every two minute wait. A task's actions are the calls it
  makes; delays of 100 ms are calls too.
\<close>

section \<open>The code\<close>

datatype PowerCall =
    MainThermalKnife bool | RedundantThermalKnife bool
  | EnableMainSailBurnSwitch | EnableRedundantSailBurnSwitch
  | EnableMainSADSBurnSwitch | EnableRedundantSADSBurnSwitch
  | IgnoreOverheat | SleepTask int

datatype BurnStep =
    Do_IgnoreOverheat | Do_Delay100ms | Do_WaitFor2mins
  | Do_EnableMainThermalKnife | Do_DisableMainThermalKnife
  | Do_EnableRedundantThermalKnife | Do_DisableRedundantThermalKnife
  | Do_EnableMainBurnSwitch | Do_EnableRedundantBurnSwitch

text \<open>
  The loop that both \<open>Action\<close> procedures contain: the step counter moves on first, the time of the
  next step is the present unless the step is a wait, and a wait ends the loop.
\<close>

function run_steps ::
  "BurnStep list \<Rightarrow> (BurnStep \<Rightarrow> PowerCall list) \<Rightarrow> int \<Rightarrow> nat \<Rightarrow> int \<Rightarrow> PowerCall list \<times> nat \<times> int" where
  "run_steps steps calls time step nextStepAfter =
     (if step < length steps then
        (let p = steps ! step;
             nextStepAfter = (if p = Do_WaitFor2mins then time + 2 * 60 * 1000 else time)
         in if nextStepAfter > time then (calls p, Suc step, nextStepAfter)
            else
              (let (cs, step, nextStepAfter) = run_steps steps calls time (Suc step) nextStepAfter
               in (calls p @ cs, step, nextStepAfter)))
      else ([], step, nextStepAfter))"
  by pat_completeness auto
termination by (relation "measure (\<lambda>(steps, _, _, step, _). length steps - step)") auto

declare run_steps.simps [simp del]

subsection \<open>The sail\<close>

record sail_task =
  sl_step :: nat
  sl_nextStepAfter :: int
  sl_openOnNextMissionLoop :: bool
  sl_ignoreOverheat :: bool

definition Sail_Steps :: "BurnStep list" where
  "Sail_Steps =
     [Do_IgnoreOverheat, Do_Delay100ms,
      Do_EnableMainThermalKnife, Do_Delay100ms, Do_EnableMainThermalKnife, Do_Delay100ms,
      Do_EnableMainBurnSwitch, Do_Delay100ms, Do_EnableMainBurnSwitch,
      Do_WaitFor2mins,
      Do_DisableMainThermalKnife, Do_Delay100ms, Do_DisableMainThermalKnife, Do_Delay100ms,
      Do_EnableRedundantThermalKnife, Do_Delay100ms, Do_EnableRedundantThermalKnife, Do_Delay100ms,
      Do_EnableRedundantBurnSwitch, Do_Delay100ms, Do_EnableRedundantBurnSwitch,
      Do_WaitFor2mins,
      Do_DisableRedundantThermalKnife, Do_Delay100ms, Do_DisableRedundantThermalKnife]"

definition OpenSailTask_new :: sail_task where
  "OpenSailTask_new = \<lparr>sl_step = 0, sl_nextStepAfter = 0, sl_openOnNextMissionLoop = False,
     sl_ignoreOverheat = True\<rparr>"

definition OpenSail :: "bool \<Rightarrow> sail_task \<Rightarrow> sail_task" where
  "OpenSail ignoreOverheat t = t\<lparr>sl_openOnNextMissionLoop := True, sl_ignoreOverheat := ignoreOverheat\<rparr>"

definition Sail_InProgress :: "sail_task \<Rightarrow> bool" where
  "Sail_InProgress t \<longleftrightarrow> sl_step t < length Sail_Steps"

text \<open>The lambda \<open>open\<close> of \<open>Update\<close>; the result of storing the state is ignored.\<close>

definition sail_open :: "bool \<Rightarrow> SystemState \<Rightarrow> sail_task \<Rightarrow> SystemState \<times> sail_task" where
  "sail_open taken s t =
     (s\<lparr>ss_PersistentState := snd (Lockable_Set taken (put_SailState \<lparr>currentState = Sail_Opening\<rparr>)
          (ss_PersistentState s))\<rparr>,
      t\<lparr>sl_step := 0, sl_nextStepAfter := 0\<rparr>)"

definition Sail_Update ::
  "bool \<Rightarrow> bool \<Rightarrow> SystemState \<Rightarrow> sail_task \<Rightarrow> UpdateResult \<times> SystemState \<times> sail_task" where
  "Sail_Update takenGet takenSet s t =
     (let (ok, sailState) = Lockable_Get takenGet get_SailState (ss_PersistentState s) SailState_default
      in if \<not> ok then (Update_Failure, s, t)
         else
           (let explicitOpen = sl_openOnNextMissionLoop t;
                t = t\<lparr>sl_openOnNextMissionLoop := False\<rparr>;
                opens =
                  (if currentState sailState = Sail_Opening then explicitOpen \<and> \<not> Sail_InProgress t
                   else if currentState sailState = Sail_OpeningStopped then explicitOpen
                   else if currentState sailState = Sail_Waiting
                   then ss_Time s \<ge> 40 * (24 * 3600 * 1000) \<or> explicitOpen
                   else False);
                (s, t) = (if opens then sail_open takenSet s t else (s, t))
            in (Update_Ok, s, t)))"

definition Sail_Condition :: "bool \<Rightarrow> SystemState \<Rightarrow> sail_task \<Rightarrow> bool" where
  "Sail_Condition taken s t =
     (let (ok, sailState) = Lockable_Get taken get_SailState (ss_PersistentState s) SailState_default
      in if \<not> ok then False
         else if currentState sailState \<noteq> Sail_Opening then False
         else if ss_Time s < sl_nextStepAfter t then False
         else if sl_step t \<ge> length Sail_Steps then False
         else True)"

definition sail_calls :: "bool \<Rightarrow> BurnStep \<Rightarrow> PowerCall list" where
  "sail_calls ignoreOverheat p =
     (case p of
        Do_IgnoreOverheat \<Rightarrow> (if ignoreOverheat then [IgnoreOverheat] else [])
      | Do_Delay100ms \<Rightarrow> [SleepTask 100]
      | Do_WaitFor2mins \<Rightarrow> []
      | Do_EnableMainThermalKnife \<Rightarrow> [MainThermalKnife True]
      | Do_DisableMainThermalKnife \<Rightarrow> [MainThermalKnife False]
      | Do_EnableRedundantThermalKnife \<Rightarrow> [RedundantThermalKnife True]
      | Do_DisableRedundantThermalKnife \<Rightarrow> [RedundantThermalKnife False]
      | Do_EnableMainBurnSwitch \<Rightarrow> [EnableMainSailBurnSwitch]
      | Do_EnableRedundantBurnSwitch \<Rightarrow> [EnableRedundantSailBurnSwitch])"

definition Sail_Action :: "SystemState \<Rightarrow> sail_task \<Rightarrow> PowerCall list \<times> sail_task" where
  "Sail_Action s t =
     (let (cs, step, next) = run_steps Sail_Steps (sail_calls (sl_ignoreOverheat t)) (ss_Time s)
            (sl_step t) (sl_nextStepAfter t)
      in (cs, t\<lparr>sl_step := step, sl_nextStepAfter := next\<rparr>))"

definition Sail_TimeChanged :: "int \<Rightarrow> sail_task \<Rightarrow> sail_task" where
  "Sail_TimeChanged timeCorrection t = t\<lparr>sl_nextStepAfter := sl_nextStepAfter t + timeCorrection\<rparr>"

subsection \<open>The solar arrays\<close>

record sads_task =
  sd_step :: nat
  sd_nextStepAfter :: int
  sd_deployOnNextMissionLoop :: bool
  sd_isDeploying :: bool

definition Sads_Steps :: "BurnStep list" where
  "Sads_Steps =
     [Do_EnableMainThermalKnife, Do_Delay100ms, Do_EnableMainThermalKnife, Do_Delay100ms,
      Do_EnableMainBurnSwitch, Do_Delay100ms, Do_EnableMainBurnSwitch,
      Do_WaitFor2mins,
      Do_DisableMainThermalKnife, Do_Delay100ms, Do_DisableMainThermalKnife, Do_Delay100ms,
      Do_EnableRedundantThermalKnife, Do_Delay100ms, Do_EnableRedundantThermalKnife, Do_Delay100ms,
      Do_EnableRedundantBurnSwitch, Do_Delay100ms, Do_EnableRedundantBurnSwitch,
      Do_WaitFor2mins,
      Do_DisableRedundantThermalKnife, Do_Delay100ms, Do_DisableRedundantThermalKnife]"

definition DeploySolarArrayTask_new :: sads_task where
  "DeploySolarArrayTask_new = \<lparr>sd_step = 0, sd_nextStepAfter = 0, sd_deployOnNextMissionLoop = False,
     sd_isDeploying = False\<rparr>"

definition DeploySolarArray :: "sads_task \<Rightarrow> sads_task" where
  "DeploySolarArray t = t\<lparr>sd_deployOnNextMissionLoop := True\<rparr>"

definition Sads_Update :: "sads_task \<Rightarrow> UpdateResult \<times> sads_task" where
  "Sads_Update t =
     (let explicitDeploy = sd_deployOnNextMissionLoop t;
          t = t\<lparr>sd_deployOnNextMissionLoop := False\<rparr>;
          t = (if sd_step t \<ge> length Sads_Steps \<and> sd_isDeploying t
               then t\<lparr>sd_isDeploying := False\<rparr> else t);
          t = (if explicitDeploy \<and> \<not> sd_isDeploying t
               then t\<lparr>sd_step := 0, sd_nextStepAfter := 0, sd_isDeploying := True\<rparr> else t)
      in (Update_Ok, t))"

definition Sads_Condition :: "SystemState \<Rightarrow> sads_task \<Rightarrow> bool" where
  "Sads_Condition s t =
     (if \<not> sd_isDeploying t then False
      else if ss_Time s < sd_nextStepAfter t then False
      else if sd_step t \<ge> length Sads_Steps then False
      else True)"

definition sads_calls :: "BurnStep \<Rightarrow> PowerCall list" where
  "sads_calls p =
     (case p of
        Do_IgnoreOverheat \<Rightarrow> []
      | Do_Delay100ms \<Rightarrow> [SleepTask 100]
      | Do_WaitFor2mins \<Rightarrow> []
      | Do_EnableMainThermalKnife \<Rightarrow> [MainThermalKnife True]
      | Do_DisableMainThermalKnife \<Rightarrow> [MainThermalKnife False]
      | Do_EnableRedundantThermalKnife \<Rightarrow> [RedundantThermalKnife True]
      | Do_DisableRedundantThermalKnife \<Rightarrow> [RedundantThermalKnife False]
      | Do_EnableMainBurnSwitch \<Rightarrow> [EnableMainSADSBurnSwitch]
      | Do_EnableRedundantBurnSwitch \<Rightarrow> [EnableRedundantSADSBurnSwitch])"

definition Sads_Action :: "SystemState \<Rightarrow> sads_task \<Rightarrow> PowerCall list \<times> sads_task" where
  "Sads_Action s t =
     (let (cs, step, next) = run_steps Sads_Steps sads_calls (ss_Time s) (sd_step t) (sd_nextStepAfter t)
      in (cs, t\<lparr>sd_step := step, sd_nextStepAfter := next\<rparr>))"

definition Sads_TimeChanged :: "int \<Rightarrow> sads_task \<Rightarrow> sads_task" where
  "Sads_TimeChanged timeCorrection t = t\<lparr>sd_nextStepAfter := sd_nextStepAfter t + timeCorrection\<rparr>"

section \<open>Burns are safe\<close>

text \<open>
  What a list of calls does to the two thermal knives. A call is allowed when it never powers one
  knife beside the other and enables a burn switch only with its knife powered.
\<close>

type_synonym knives = "bool \<times> bool"

primrec knife_step :: "PowerCall \<Rightarrow> knives \<Rightarrow> knives" where
  "knife_step (MainThermalKnife b) k = (b, snd k)"
| "knife_step (RedundantThermalKnife b) k = (fst k, b)"
| "knife_step EnableMainSailBurnSwitch k = k"
| "knife_step EnableRedundantSailBurnSwitch k = k"
| "knife_step EnableMainSADSBurnSwitch k = k"
| "knife_step EnableRedundantSADSBurnSwitch k = k"
| "knife_step IgnoreOverheat k = k"
| "knife_step (SleepTask d) k = k"

primrec call_allowed :: "PowerCall \<Rightarrow> knives \<Rightarrow> bool" where
  "call_allowed (MainThermalKnife b) k \<longleftrightarrow> b \<longrightarrow> \<not> snd k"
| "call_allowed (RedundantThermalKnife b) k \<longleftrightarrow> b \<longrightarrow> \<not> fst k"
| "call_allowed EnableMainSailBurnSwitch k \<longleftrightarrow> fst k"
| "call_allowed EnableRedundantSailBurnSwitch k \<longleftrightarrow> snd k"
| "call_allowed EnableMainSADSBurnSwitch k \<longleftrightarrow> fst k"
| "call_allowed EnableRedundantSADSBurnSwitch k \<longleftrightarrow> snd k"
| "call_allowed IgnoreOverheat k \<longleftrightarrow> True"
| "call_allowed (SleepTask d) k \<longleftrightarrow> True"

primrec safe_from :: "knives \<Rightarrow> PowerCall list \<Rightarrow> bool" where
  "safe_from k [] \<longleftrightarrow> True"
| "safe_from k (c # cs) \<longleftrightarrow> call_allowed c k \<and> safe_from (knife_step c k) cs"

definition knives_after :: "PowerCall list \<Rightarrow> knives" where
  "knives_after cs = fold knife_step cs (False, False)"

definition burns_safe :: "PowerCall list \<Rightarrow> bool" where
  "burns_safe cs \<longleftrightarrow> safe_from (False, False) cs"






text \<open>Everything that happens to the task while nobody stops the deployment.\<close>

datatype sail_event = Ev_update bool bool int | Ev_iteration bool int | Ev_open bool | Ev_time_changed int

primrec sail_handle :: "sail_event \<Rightarrow> SystemState \<times> sail_task \<times> PowerCall list
    \<Rightarrow> SystemState \<times> sail_task \<times> PowerCall list" where
  "sail_handle (Ev_update takenGet takenSet time) st =
     (case st of (s, t, log) \<Rightarrow>
        (let (r, s, t) = Sail_Update takenGet takenSet (s\<lparr>ss_Time := time\<rparr>) t in (s, t, log)))"
| "sail_handle (Ev_iteration taken time) st =
     (case st of (s, t, log) \<Rightarrow>
        (let s = s\<lparr>ss_Time := time\<rparr>
         in if Sail_Condition taken s t
            then (let (cs, t) = Sail_Action s t in (s, t, log @ cs)) else (s, t, log)))"
| "sail_handle (Ev_open ignore) st = (case st of (s, t, log) \<Rightarrow> (s, OpenSail ignore t, log))"
| "sail_handle (Ev_time_changed d) st = (case st of (s, t, log) \<Rightarrow> (s, Sail_TimeChanged d t, log))"

definition sail_state :: "SystemState \<Rightarrow> SailOpeningState" where
  "sail_state s = currentState (get_SailState (ps_parts (ss_PersistentState s)))"




lemma sail_states_distinct [simp]:
  "Sail_Waiting \<noteq> Sail_Opening" "Sail_Opening \<noteq> Sail_Waiting" "Sail_OpeningStopped \<noteq> Sail_Opening"
  "Sail_Opening \<noteq> Sail_OpeningStopped" "Sail_OpeningStopped \<noteq> Sail_Waiting"
  "Sail_Waiting \<noteq> Sail_OpeningStopped"
  by (simp_all add: Sail_Waiting_def Sail_Opening_def Sail_OpeningStopped_def)




lemmas sail_run_simps = Sail_Update_def Sail_Condition_def Sail_Action_def OpenSail_def
  OpenSailTask_new_def Lockable_Get_def Lockable_Set_def PersistentState_Set_def NotifyModified_def
  sail_open_def SystemState_new_def PersistentState_new_def get_SailState_def put_SailState_def
  SailState_default_def Sail_Waiting_def Sail_Opening_def Sail_OpeningStopped_def Sail_Steps_def
  run_steps.simps sail_calls_def


section \<open>Stopping a deployment\<close>

text \<open>What the telecommand that stops the deployment stores.\<close>

definition sail_stop :: "SystemState \<Rightarrow> SystemState" where
  "sail_stop s = s\<lparr>ss_PersistentState := snd (Lockable_Set True
     (put_SailState \<lparr>currentState = Sail_OpeningStopped\<rparr>) (ss_PersistentState s))\<rparr>"

lemma stopped_stays:
  assumes "\<forall>e \<in> set es. \<forall>b. e \<noteq> Ev_open b" and "sail_state s = Sail_OpeningStopped"
    and "\<not> sl_openOnNextMissionLoop t"
  shows "snd (snd (fold sail_handle es (s, t, log))) = log"
  using assms
proof (induction es arbitrary: s t)
  case (Cons e es)
  obtain s' t' log' where h: "sail_handle e (s, t, log) = (s', t', log')" by (metis prod_cases3)
  then have "log' = log" "sail_state s' = Sail_OpeningStopped" "\<not> sl_openOnNextMissionLoop t'"
    using Cons.prems
    by (cases e; auto simp: Sail_Update_def Sail_Condition_def Lockable_Get_def sail_state_def
        Sail_TimeChanged_def Let_def split: if_splits)+
  then show ?case using Cons.IH [of s' t'] Cons.prems(1) by (simp add: h)
qed simp

text \<open>
  C40. Stopping the deployment during the first burn leaves the main thermal knife powered: with no
  new request, no sequence of updates, iterations and clock corrections makes another call.
\<close>
theorem sail_stop_leaves_knife_on:
  assumes "fold sail_handle [Ev_open True, Ev_update True True time, Ev_iteration True time]
      (SystemState_new text, OpenSailTask_new, []) = (s, t, log)"
    and "0 \<le> time" and "\<forall>e \<in> set es. \<forall>b. e \<noteq> Ev_open b"
  shows "snd (snd (fold sail_handle es (sail_stop s, t, log))) = log \<and>
    knives_after log = (True, False)"
proof -
  have "\<not> sl_openOnNextMissionLoop t" "knives_after log = (True, False)"
    using assms(1,2) by (auto simp: sail_run_simps knives_after_def)
  moreover have "sail_state (sail_stop s) = Sail_OpeningStopped"
    using sail_access.get_put
    by (simp add: sail_state_def sail_stop_def Lockable_Set_def PersistentState_Set_def NotifyModified_def)
  ultimately show ?thesis using stopped_stays [OF assms(3)] by blast
qed

lemma sail_stop_leaves_knife_on_witness:
  "\<exists>s t log. fold sail_handle [Ev_open True, Ev_update True True 1000, Ev_iteration True 1000]
      (SystemState_new [], OpenSailTask_new, []) = (s, t, log) \<and>
    snd (snd (fold sail_handle [Ev_update True True 999999, Ev_iteration True 999999]
      (sail_stop s, t, log))) = log \<and> knives_after log = (True, False)"
proof -
  obtain s t log where r: "fold sail_handle [Ev_open True, Ev_update True True 1000, Ev_iteration True 1000]
      (SystemState_new [], OpenSailTask_new, []) = (s, t, log)" by (metis prod_cases3)
  from sail_stop_leaves_knife_on [OF r, of "[Ev_update True True 999999, Ev_iteration True 999999]"] r
  show ?thesis by auto
qed

text \<open>
  When the stop comes during the second burn and the opening is requested again, the main knife is turned on
  while the redundant one still is.
\<close>

theorem sail_stop_powers_both_knives:
  "let (s, t, log) = fold sail_handle [Ev_open True, Ev_update True True 1000, Ev_iteration True 1000, Ev_iteration True 121000]
         (SystemState_new [], OpenSailTask_new, []);
       (s, t, log) = fold sail_handle [Ev_open True, Ev_update True True 200000, Ev_iteration True 200000] (sail_stop s, t, log)
   in knives_after log = (True, True) \<and> \<not> burns_safe log"
  by (simp add: sail_run_simps sail_stop_def knives_after_def burns_safe_def)

end
