(* ===== verification/Telecommunication.thy ===== *)
theory Telecommunication
  imports Bit_Writer Byte_Writer Byte_Reader
begin

text \<open>
  Uplink and downlink framing and the dispatch of telecommands (libs/telecommunication). A downlink
  frame is its three header bytes and the writer over the rest of its buffer; a telecommand handler
  is a function from its parameters and a world to the world, where the frames it sends go.
\<close>

section \<open>Downlink\<close>

definition MaxDownlinkFrameSize :: nat where "MaxDownlinkFrameSize = 235"
definition MaxUplinkFrameSize :: nat where "MaxUplinkFrameSize = 200"
definition BeaconMarker :: u8 where "BeaconMarker = 0xCD"

datatype DownlinkAPID =
    APID_Pong | APID_Operation | APID_ErrorCounters | APID_ProgramUpload | APID_PeriodicMessage
  | APID_PersistentState | APID_BootSlotsInfo | APID_CompileInfo | APID_EraseFlash | APID_FileRemove
  | APID_FileSend | APID_FileList | APID_Forbidden | APID_Photo | APID_SunS | APID_Experiment
  | APID_ErrorCounterConfiguration | APID_PurgePhoto | APID_Powercycle | APID_Sail
  | APID_TimeCorrection | APID_TimeSet | APID_Comm | APID_SetBitrate | APID_DisableOverheatSubmode
  | APID_I2C | APID_PeriodicSet | APID_SailExperiment | APID_CopyBootTable
  | APID_SetInternalDetumblingMode | APID_SetAdcsMode | APID_DisableSailDeployment
  | APID_MemoryContent | APID_BeaconError | APID_DisableAntennaDeployment | APID_Telemetry

primrec num_APID :: "DownlinkAPID \<Rightarrow> u8" where
  "num_APID APID_Pong = 0x01"
| "num_APID APID_Operation = 0x2"
| "num_APID APID_ErrorCounters = 0x3"
| "num_APID APID_ProgramUpload = 0x4"
| "num_APID APID_PeriodicMessage = 0x5"
| "num_APID APID_PersistentState = 0x6"
| "num_APID APID_BootSlotsInfo = 0x7"
| "num_APID APID_CompileInfo = 0x8"
| "num_APID APID_EraseFlash = 0x9"
| "num_APID APID_FileRemove = 0xA"
| "num_APID APID_FileSend = 0xB"
| "num_APID APID_FileList = 0xC"
| "num_APID APID_Forbidden = BeaconMarker AND 0x3f"
| "num_APID APID_Photo = 0xE"
| "num_APID APID_SunS = 0xF"
| "num_APID APID_Experiment = 0x10"
| "num_APID APID_ErrorCounterConfiguration = 0x11"
| "num_APID APID_PurgePhoto = 0x12"
| "num_APID APID_Powercycle = 0x13"
| "num_APID APID_Sail = 0x14"
| "num_APID APID_TimeCorrection = 0x15"
| "num_APID APID_TimeSet = 0x16"
| "num_APID APID_Comm = 0x17"
| "num_APID APID_SetBitrate = 0x18"
| "num_APID APID_DisableOverheatSubmode = 0x19"
| "num_APID APID_I2C = 0x1A"
| "num_APID APID_PeriodicSet = 0x1B"
| "num_APID APID_SailExperiment = 0x1C"
| "num_APID APID_CopyBootTable = 0x1D"
| "num_APID APID_SetInternalDetumblingMode = 0x1E"
| "num_APID APID_SetAdcsMode = 0x1F"
| "num_APID APID_DisableSailDeployment = 0x20"
| "num_APID APID_MemoryContent = 0x21"
| "num_APID APID_BeaconError = 0x22"
| "num_APID APID_DisableAntennaDeployment = 0x23"
| "num_APID APID_Telemetry = 0x3F"

record downlink_frame =
  df_header :: bytes
  df_payload :: writer

definition HeaderSize :: nat where "HeaderSize = 3"
definition DownlinkFrame_MaxPayloadSize :: nat where
  "DownlinkFrame_MaxPayloadSize = MaxDownlinkFrameSize - HeaderSize"

definition DownlinkFrame :: "DownlinkAPID \<Rightarrow> u32 \<Rightarrow> downlink_frame" where
  "DownlinkFrame apid seq =
     (let w = BitWriter_Initialize (replicate MaxDownlinkFrameSize 0);
          w = snd (BitWriter_WriteWord (ucast (num_APID apid)) 6 w);
          w = snd (BitWriter_WriteDoubleWord seq 18 w)
      in \<lparr>df_header = take HeaderSize (bw_buf w),
          df_payload = Writer_Initialize (drop HeaderSize (bw_buf w))\<rparr>)"

text \<open>Writing through the reference that \<open>PayloadWriter\<close> returns.\<close>

definition PayloadWriter :: "(writer \<Rightarrow> writer) \<Rightarrow> downlink_frame \<Rightarrow> downlink_frame" where
  "PayloadWriter f d = d\<lparr>df_payload := f (df_payload d)\<rparr>"

definition DownlinkFrame_Frame :: "downlink_frame \<Rightarrow> bytes" where
  "DownlinkFrame_Frame d =
     take (HeaderSize + unat (Writer_GetDataLength (df_payload d))) (df_header d @ w_buf (df_payload d))"

definition CorrelatedDownlinkFrame :: "DownlinkAPID \<Rightarrow> u32 \<Rightarrow> u8 \<Rightarrow> downlink_frame" where
  "CorrelatedDownlinkFrame apid seq correlationId =
     PayloadWriter (\<lambda>w. snd (Writer_WriteByte correlationId w)) (DownlinkFrame apid seq)"

definition Correlated_MaxPayloadSize :: nat where
  "Correlated_MaxPayloadSize = DownlinkFrame_MaxPayloadSize - 1"

text \<open>\<open>RawFrame\<close>: a writer over the whole buffer; its frame is what was captured.\<close>

definition RawFrame :: "bytes \<Rightarrow> writer" where
  "RawFrame memory = Writer_Initialize memory"

definition RawFrame_Frame :: "writer \<Rightarrow> bytes" where
  "RawFrame_Frame w = Writer_Capture w"

datatype DownlinkGenericResponse = Response_Success | Response_MalformedRequest | Response_ExperimentError

primrec num_DownlinkGenericResponse :: "DownlinkGenericResponse \<Rightarrow> u8" where
  "num_DownlinkGenericResponse Response_Success = 0"
| "num_DownlinkGenericResponse Response_MalformedRequest = 1"
| "num_DownlinkGenericResponse Response_ExperimentError = 2"

text \<open>The beacon: its marker and the last telemetry, if the lock on it was \<open>taken\<close>.\<close>

definition WriteBeaconPayload :: "bool \<Rightarrow> bytes \<Rightarrow> writer \<Rightarrow> bool \<times> writer" where
  "WriteBeaconPayload taken lastSerializedTelemetry w =
     (if \<not> taken then (False, w)
      else
        (let w = Writer_Reset w;
             w = snd (Writer_WriteByte BeaconMarker w);
             w = snd (Writer_WriteArray lastSerializedTelemetry w)
         in (Writer_Status w, w)))"

text \<open>\<open>FrameContentWriter\<close>: every value is preceded by the identifier of its field.\<close>

datatype FieldId = Field_None | Field_TimeStamp

primrec num_FieldId :: "FieldId \<Rightarrow> u8" where
  "num_FieldId Field_None = 0"
| "num_FieldId Field_TimeStamp = 1"

definition WriteFieldId :: "FieldId \<Rightarrow> writer \<Rightarrow> bool \<times> writer" where
  "WriteFieldId fieldId w = Writer_WriteByte (num_FieldId fieldId) w"

definition FrameContent_WriteByte :: "FieldId \<Rightarrow> u8 \<Rightarrow> writer \<Rightarrow> bool \<times> writer" where
  "FrameContent_WriteByte fieldId v w = Writer_WriteByte v (snd (WriteFieldId fieldId w))"

definition FrameContent_WriteWordLE :: "FieldId \<Rightarrow> u16 \<Rightarrow> writer \<Rightarrow> bool \<times> writer" where
  "FrameContent_WriteWordLE fieldId v w = Writer_WriteWordLE v (snd (WriteFieldId fieldId w))"

definition FrameContent_WriteDoubleWordLE :: "FieldId \<Rightarrow> u32 \<Rightarrow> writer \<Rightarrow> bool \<times> writer" where
  "FrameContent_WriteDoubleWordLE fieldId v w = Writer_WriteDoubleWordLE v (snd (WriteFieldId fieldId w))"

definition FrameContent_WriteQuadWordLE :: "FieldId \<Rightarrow> u64 \<Rightarrow> writer \<Rightarrow> bool \<times> writer" where
  "FrameContent_WriteQuadWordLE fieldId v w = Writer_WriteQuadWordLE v (snd (WriteFieldId fieldId w))"

definition FrameContent_WriteSignedWordLE :: "FieldId \<Rightarrow> 16 word \<Rightarrow> writer \<Rightarrow> bool \<times> writer" where
  "FrameContent_WriteSignedWordLE fieldId v w = Writer_WriteSignedWordLE v (snd (WriteFieldId fieldId w))"

definition FrameContent_WriteSignedDoubleWordLE :: "FieldId \<Rightarrow> 32 word \<Rightarrow> writer \<Rightarrow> bool \<times> writer" where
  "FrameContent_WriteSignedDoubleWordLE fieldId v w =
     Writer_WriteSignedDoubleWordLE v (snd (WriteFieldId fieldId w))"

definition FrameContent_WriteArray :: "FieldId \<Rightarrow> bytes \<Rightarrow> writer \<Rightarrow> bool \<times> writer" where
  "FrameContent_WriteArray fieldId v w = Writer_WriteArray v (snd (WriteFieldId fieldId w))"

section \<open>Uplink\<close>

datatype DecodeTelecommandFailureReason = MalformedFrame | InvalidSecurityCode | GeneralError

datatype DecodeTelecommandResult =
    Decode_Success u8 bytes
  | Decode_Failure DecodeTelecommandFailureReason

definition UplinkProtocol_Decode :: "u32 \<Rightarrow> bytes \<Rightarrow> DecodeTelecommandResult" where
  "UplinkProtocol_Decode securityCode frame =
     (let r = Reader_Initialize frame;
          (code, r) = Reader_ReadDoubleWordBE r;
          (command, r) = Reader_ReadByte r;
          (parameters, r) = Reader_ReadToEnd r
      in if \<not> Reader_Status r then Decode_Failure MalformedFrame
         else if code \<noteq> securityCode then Decode_Failure InvalidSecurityCode
         else Decode_Success command parameters)"

section \<open>Dispatch\<close>

record 'w telecommand =
  tc_CommandCode :: u8
  tc_Handle :: "bytes \<Rightarrow> 'w \<Rightarrow> 'w"

definition DispatchCommandHandler :: "'w telecommand list \<Rightarrow> u8 \<Rightarrow> bytes \<Rightarrow> 'w \<Rightarrow> 'w" where
  "DispatchCommandHandler telecommands commandCode parameters w =
     (case find (\<lambda>p. tc_CommandCode p = commandCode) telecommands of
        None \<Rightarrow> w
      | Some command \<Rightarrow> tc_Handle command parameters w)"

definition HandleFrame ::
  "(bytes \<Rightarrow> DecodeTelecommandResult) \<Rightarrow> 'w telecommand list \<Rightarrow> bytes \<Rightarrow> 'w \<Rightarrow> 'w" where
  "HandleFrame decode telecommands payload w =
     (case decode payload of
        Decode_Failure reason \<Rightarrow> w
      | Decode_Success command parameters \<Rightarrow>
          DispatchCommandHandler telecommands command parameters w)"

section \<open>What a frame holds\<close>

text \<open>The header as the ground reads it: six bits of APID, then 18 bits of sequence number.\<close>

definition header_apid :: "bytes \<Rightarrow> u8" where
  "header_apid h = h ! 0 AND 0x3F"

definition header_seq :: "bytes \<Rightarrow> u32" where
  "header_seq h = drop_bit 6 (ucast (h ! 0)) OR push_bit 2 (ucast (h ! 1)) OR push_bit 10 (ucast (h ! 2))"

lemma DownlinkFrame_bits:
  "length (df_header (DownlinkFrame apid seq)) = 3"
  "bits_of (df_header (DownlinkFrame apid seq)) = word_bits 6 (num_APID apid) @ word_bits 18 seq"
  "df_payload (DownlinkFrame apid seq) = Writer_Initialize (w_buf (df_payload (DownlinkFrame apid seq)))"
  "length (w_buf (df_payload (DownlinkFrame apid seq))) = 232"
proof -
  let ?w0 = "BitWriter_Initialize (replicate MaxDownlinkFrameSize 0)"
  let ?r1 = "BitWriter_WriteWord (ucast (num_APID apid)) 6 ?w0"
  let ?r2 = "BitWriter_WriteDoubleWord seq 18 (snd ?r1)"
  have wf0: "bw_wf ?w0" by (rule bw_wf_Initialize) (simp add: MaxDownlinkFrameSize_def)
  have e1: "bit_emit (word_bits 6 (num_APID apid)) ?w0 ?r1"
    using WriteWord_emit [OF wf0, of 6 "ucast (num_APID apid)"] by simp
  have ok1: "fst ?r1" using bit_emit_ok [OF e1] by (simp add: MaxDownlinkFrameSize_def)
  have wf1: "bw_wf (snd ?r1)" using bit_emit_wf [OF e1] .
  have e2: "bit_emit (word_bits 18 seq) (snd ?r1) ?r2"
    using WriteDoubleWord_emit [OF wf1, of 18 seq] by simp
  have ok2: "fst ?r2"
    using bit_emit_ok [OF e2] bit_emit_room [OF e1 wf0 ok1, of 18] by (simp add: MaxDownlinkFrameSize_def)
  have bits: "bw_bits (snd ?r2) = word_bits 6 (num_APID apid) @ word_bits 18 seq"
    using bit_emit_bits [OF e2 ok2] bit_emit_bits [OF e1 ok1] by simp
  have wf2: "bw_wf (snd ?r2)" using bit_emit_wf [OF e2] .
  have len: "length (bw_buf (snd ?r2)) = 235"
    using e1 e2 by (auto simp: bit_emit_def BitWriter_Initialize_def BitWriter_Reset_def
        MaxDownlinkFrameSize_def split: prod.splits)
  have "bitlen (snd ?r2) = 24" using arg_cong [OF bits, of length] length_bw_bits [OF wf2] by simp
  then have "take (8 * 3) (bits_of (bw_buf (snd ?r2))) = word_bits 6 (num_APID apid) @ word_bits 18 seq"
    using bits by (simp add: bw_bits_def)
  then show "bits_of (df_header (DownlinkFrame apid seq)) = word_bits 6 (num_APID apid) @ word_bits 18 seq"
    by (simp only: take_bits_of) (simp add: DownlinkFrame_def HeaderSize_def Let_def)
  show "length (df_header (DownlinkFrame apid seq)) = 3"
    "df_payload (DownlinkFrame apid seq) = Writer_Initialize (w_buf (df_payload (DownlinkFrame apid seq)))"
    "length (w_buf (df_payload (DownlinkFrame apid seq))) = 232"
    using len by (simp_all add: DownlinkFrame_def HeaderSize_def Writer_Initialize_def Writer_Reset_def Let_def)
qed


lemma bit_header_seq: "3 \<le> length h \<Longrightarrow> bit (header_seq h) i \<longleftrightarrow> i < 18 \<and> bits_of h ! (6 + i)"
proof -
  assume "3 \<le> length h"
  then have n: "j < 24 \<Longrightarrow> bits_of h ! j = bit (h ! (j div 8)) (j mod 8)" for j by simp
  have B: "bit (header_seq h) i \<longleftrightarrow>
      i < 2 \<and> bit (h ! 0) (6 + i) \<or> 2 \<le> i \<and> i < 10 \<and> bit (h ! 1) (i - 2)
      \<or> 10 \<le> i \<and> i < 18 \<and> bit (h ! 2) (i - 10)"
    by (auto simp: header_seq_def bit_simps dest: bit_imp_le_length)
  consider "i < 2" | "2 \<le> i" "i < 10" | "10 \<le> i" "i < 18" | "18 \<le> i" by linarith
  then show ?thesis
  proof cases
    case 2
    then have "(6 + i) div 8 = 1" "(6 + i) mod 8 = i - 2" by presburger+
    with 2 show ?thesis using n [of "6 + i"] by (simp add: B)
  next
    case 3
    then have "(6 + i) div 8 = 2" "(6 + i) mod 8 = i - 10" by presburger+
    with 3 show ?thesis using n [of "6 + i"] by (simp add: B)
  qed (use n [of "6 + i"] in \<open>auto simp: B\<close>)
qed

lemma bit_low_six: "bit (0x3F :: int) i \<longleftrightarrow> i < 6"
proof -
  have "(0x3F :: int) = mask 6" by (simp add: mask_eq_exp_minus_1)
  then show ?thesis by (simp only: bit_mask_iff) auto
qed

lemma bit_header_apid: "0 < length h \<Longrightarrow> bit (header_apid h) i \<longleftrightarrow> i < 6 \<and> bits_of h ! i"
  using nth_bits_of [of i h]
  by (cases "i < 6") (simp_all add: header_apid_def bit_and_iff bit_low_six Suc_le_eq [symmetric] del: length_greater_0_conv)

lemma header_cong: "take 3 f = h \<Longrightarrow> length h = 3 \<Longrightarrow> header_apid f = header_apid h"
  "take 3 f = h \<Longrightarrow> length h = 3 \<Longrightarrow> header_seq f = header_seq h"
  by (auto simp: header_apid_def header_seq_def)

lemma num_APID_small: "num_APID apid AND 0x3F = num_APID apid"
  by (cases apid) (simp_all add: BeaconMarker_def)

lemma DownlinkFrame_header:
  "header_apid (df_header (DownlinkFrame apid seq)) = num_APID apid"
  "header_seq (df_header (DownlinkFrame apid seq)) = take_bit 18 seq"
proof -
  note D = DownlinkFrame_bits [of apid seq]
  have "bit (header_apid (df_header (DownlinkFrame apid seq))) i \<longleftrightarrow> bit (num_APID apid AND 0x3F) i" for i
    using D(1) by (auto simp: bit_header_apid D(2) nth_append bit_low_six bit_and_iff)
  then show "header_apid (df_header (DownlinkFrame apid seq)) = num_APID apid"
    unfolding num_APID_small by (intro bit_eqI) simp
  show "header_seq (df_header (DownlinkFrame apid seq)) = take_bit 18 seq"
    using D(1) by (intro bit_eqI) (auto simp: bit_header_seq D(2) nth_append bit_simps)
qed

text \<open>A frame whose payload was emitted as a run of bytes.\<close>

lemma Frame_emitted:
  assumes "length payload \<le> DownlinkFrame_MaxPayloadSize"
    and "f (df_payload (DownlinkFrame apid seq)) = advance payload (df_payload (DownlinkFrame apid seq))"
  shows "DownlinkFrame_Frame (PayloadWriter f (DownlinkFrame apid seq))
       = df_header (DownlinkFrame apid seq) @ payload"
proof -
  let ?w = "df_payload (DownlinkFrame apid seq)"
  note D = DownlinkFrame_bits [of apid seq]
  have wf: "writer_wf ?w" "fits (length payload) ?w" "Writer_Capture ?w = []"
    by (subst D(3), simp add: writer_wf_def fits_def Writer_Initialize_def Writer_Reset_def Writer_Capture_def
        D(4) assms(1) [unfolded DownlinkFrame_MaxPayloadSize_def MaxDownlinkFrameSize_def HeaderSize_def,
          simplified])+
  have "Writer_Capture (advance payload ?w) = payload"
    using Capture_advance [OF wf(1,2)] wf(3) by simp
  then show ?thesis
    using D(1) by (simp add: DownlinkFrame_Frame_def PayloadWriter_def assms(2) HeaderSize_def
        Writer_Capture_def Writer_GetDataLength_def)
qed

lemma payload_ready:
  "writer_wf (df_payload (DownlinkFrame apid seq))"
  "fits n (df_payload (DownlinkFrame apid seq)) \<longleftrightarrow> n \<le> DownlinkFrame_MaxPayloadSize"
  using DownlinkFrame_bits(4) [of apid seq]
  by (subst DownlinkFrame_bits(3), simp add: writer_wf_def fits_def Writer_Initialize_def Writer_Reset_def
        DownlinkFrame_MaxPayloadSize_def MaxDownlinkFrameSize_def HeaderSize_def)+


text \<open>
  C39. A downlink frame built with an APID and a sequence number, with up to 232 bytes written as its
  payload, carries exactly these: the ground reads the APID and the low 18 bits of the sequence number
  out of the three header bytes, and the bytes after the header are the payload. Except for the
  reserved APID it never starts with the byte that marks a beacon.
\<close>

theorem downlink_frame_layout:
  assumes "length payload \<le> DownlinkFrame_MaxPayloadSize"
  shows "let f = DownlinkFrame_Frame (PayloadWriter (\<lambda>w. snd (Writer_WriteArray payload w)) (DownlinkFrame apid seq))
         in header_apid f = num_APID apid \<and> header_seq f = take_bit 18 seq \<and> drop HeaderSize f = payload
          \<and> length f \<le> MaxDownlinkFrameSize \<and> (apid \<noteq> APID_Forbidden \<longrightarrow> f ! 0 \<noteq> BeaconMarker)"
proof -
  let ?D = "DownlinkFrame apid seq"
  have n: "length payload < 256"
    using assms by (simp add: DownlinkFrame_MaxPayloadSize_def MaxDownlinkFrameSize_def HeaderSize_def)
  have f: "DownlinkFrame_Frame (PayloadWriter (\<lambda>w. snd (Writer_WriteArray payload w)) ?D)
      = df_header ?D @ payload"
    by (rule Frame_emitted [OF assms]) (simp add: WriteArray_emit [OF n] payload_ready assms)
  have h: "take 3 (df_header ?D @ payload) = df_header ?D" using DownlinkFrame_bits(1) [of apid seq] by simp
  have "apid \<noteq> APID_Forbidden \<Longrightarrow> header_apid (df_header ?D) \<noteq> BeaconMarker AND 0x3F"
    unfolding DownlinkFrame_header by (cases apid) (simp_all add: BeaconMarker_def)
  then have b: "apid \<noteq> APID_Forbidden \<longrightarrow> (df_header ?D @ payload) ! 0 \<noteq> BeaconMarker"
    using DownlinkFrame_bits(1) [of apid seq] by (auto simp: header_apid_def nth_append)
  show ?thesis
    using assms b DownlinkFrame_bits(1) [of apid seq] header_cong [OF h DownlinkFrame_bits(1)] DownlinkFrame_header
    by (simp add: f HeaderSize_def DownlinkFrame_MaxPayloadSize_def MaxDownlinkFrameSize_def)
qed

theorem downlink_frame_layout_witness:
  "header_seq (DownlinkFrame_Frame (PayloadWriter (\<lambda>w. snd (Writer_WriteArray [1, 2, 3] w))
     (DownlinkFrame APID_FileSend 0x12345))) = 0x12345"
  using downlink_frame_layout [of "[1, 2, 3]" APID_FileSend "0x12345"]
  by (simp add: DownlinkFrame_MaxPayloadSize_def MaxDownlinkFrameSize_def HeaderSize_def Let_def take_bit_eq_mod)

lemma CorrelatedDownlinkFrame_payload:
  assumes "length payload \<le> Correlated_MaxPayloadSize"
    and "f (advance [correlationId] (df_payload (DownlinkFrame apid seq)))
       = advance payload (advance [correlationId] (df_payload (DownlinkFrame apid seq)))"
  shows "DownlinkFrame_Frame (PayloadWriter f (CorrelatedDownlinkFrame apid seq correlationId))
       = df_header (DownlinkFrame apid seq) @ correlationId # payload"
proof -
  let ?D = "DownlinkFrame apid seq"
  have n: "length (correlationId # payload) \<le> DownlinkFrame_MaxPayloadSize"
    using assms(1) by (simp add: Correlated_MaxPayloadSize_def DownlinkFrame_MaxPayloadSize_def
        MaxDownlinkFrameSize_def HeaderSize_def)
  have c: "CorrelatedDownlinkFrame apid seq correlationId = PayloadWriter (advance [correlationId]) ?D"
    using n by (simp add: CorrelatedDownlinkFrame_def WriteByte_emit PayloadWriter_def payload_ready)
  have "PayloadWriter f (PayloadWriter (advance [correlationId]) ?D)
      = PayloadWriter (\<lambda>w. f (advance [correlationId] w)) ?D"
    by (simp add: PayloadWriter_def)
  moreover have "f (advance [correlationId] (df_payload ?D)) = advance (correlationId # payload) (df_payload ?D)"
    using assms(2) advance_advance [OF payload_ready(1), of "[correlationId]" payload] n
    by (simp add: payload_ready)
  ultimately show ?thesis
    using Frame_emitted [OF n, of "\<lambda>w. f (advance [correlationId] w)"] c by simp
qed

section \<open>What an uplink frame must be\<close>

lemma Decode_cases:
  assumes "length frame < 2 ^ 15"
  shows "UplinkProtocol_Decode securityCode frame =
    (if length frame < 5 then Decode_Failure MalformedFrame
     else if le_word (rev (take 4 frame)) \<noteq> securityCode then Decode_Failure InvalidSecurityCode
     else Decode_Success (frame ! 4) (drop 5 frame))"
proof (cases "length frame < 5")
  case True
  let ?r = "Reader_Initialize frame"
  have wf: "reader_wf ?r" using assms by simp
  have "\<not> Reader_Status (snd (Reader_ReadToEnd r))" if "\<not> r_valid r" for r
    using that by (simp add: Reader_ReadToEnd_def Reader_ReadArray_def Reader_UpdateState_def Reader_Status_def)
  moreover have "\<not> r_valid (snd (Reader_ReadByte (snd (Reader_ReadDoubleWordBE ?r))))"
  proof (cases "avail 4 ?r")
    case a: True
    with True have "\<not> avail 1 (consume 4 ?r)" by (simp add: avail_consume wf)
    moreover have "snd (Reader_ReadDoubleWordBE ?r) = consume 4 ?r"
      by (simp only: ReadDoubleWordBE_fetch [OF wf] fetch_avail [OF a] snd_conv)
    ultimately show ?thesis by (simp add: ReadByte_fetch wf_consume [OF wf a])
  next
    case False
    then have "\<not> r_valid (snd (Reader_ReadDoubleWordBE ?r))" by (simp add: ReadDoubleWordBE_fetch [OF wf])
    then show ?thesis by (simp add: Reader_ReadByte_def Reader_UpdateState_def)
  qed
  ultimately show ?thesis
    using True by (simp add: UplinkProtocol_Decode_def Let_def case_prod_beta)
next
  case False
  let ?r = "Reader_Initialize frame"
  have wf: "reader_wf ?r" using assms by simp
  have ne: "frame \<noteq> []" using False by auto
  then have a5: "avail 5 ?r" using False by auto
  have a: "avail 4 ?r" "avail 1 (consume 4 ?r)"
    using avail_mono [OF a5, of 4] a5 avail_consume [OF wf, of 4 1] by simp_all
  have w5: "consume 1 (consume 4 ?r) = consume 5 ?r" "reader_wf (consume 5 ?r)" "rest (consume 5 ?r) = drop 5 frame"
    using consume_consume [OF wf, of 4 1] a5 wf rest_consume [OF wf a5] by auto
  have rest4: "rest (consume 4 ?r) = drop 4 frame" using rest_consume [OF wf a(1)] by simp
  have last: "avail (length (drop 5 frame)) (consume 5 ?r)"
    using False ne by (simp add: avail_consume [OF wf a5])
  have p: "Reader_ReadToEnd (consume 5 ?r) = (drop 5 frame, consume (length (drop 5 frame)) (consume 5 ?r))"
    using last w5 a5 by (simp add: ReadToEnd_fetch)
  show ?thesis
    using False a last p
    by (simp add: UplinkProtocol_Decode_def ReadDoubleWordBE_fetch [OF wf] ReadByte_fetch wf_consume [OF wf a(1)]
        w5(1) [simplified] rest4 Reader_Status_def)
qed

lemma authentic_frame:
  assumes "5 \<le> length frame" and "le_word (rev (take 4 frame)) = securityCode"
  shows "frame = rev (le_bytes 4 (securityCode :: u32)) @ frame ! 4 # drop 5 frame"
proof -
  have "le_bytes 4 securityCode = rev (take 4 frame)"
    using le_bytes_le_word [of "rev (take 4 frame)", where 'a = 32] assms by simp
  moreover have "frame = take 4 frame @ frame ! 4 # drop 5 frame"
    using assms(1) id_take_nth_drop [of 4 frame] by simp
  ultimately show ?thesis by simp
qed

text \<open>
  A telecommand is accepted exactly when the frame is the security code (most significant byte
  first), the command code and the parameters; a frame shorter than five bytes is malformed, and every
  other frame is refused for its security code.
\<close>

theorem uplink_authenticates:
  assumes "length frame < 2 ^ 15"
  shows "(UplinkProtocol_Decode securityCode frame = Decode_Success command parameters \<longleftrightarrow>
            frame = rev (le_bytes 4 securityCode) @ command # parameters)
       \<and> (UplinkProtocol_Decode securityCode frame = Decode_Failure MalformedFrame \<longleftrightarrow> length frame < 5)
       \<and> UplinkProtocol_Decode securityCode frame \<noteq> Decode_Failure GeneralError"
proof -
  have "frame = rev (le_bytes 4 securityCode) @ frame ! 4 # drop 5 frame"
    if "5 \<le> length frame" and "le_word (rev (take 4 frame)) = securityCode"
    using authentic_frame [OF that] .
  moreover have "le_word (rev (take 4 frame)) = securityCode \<and> 5 \<le> length frame
      \<and> frame ! 4 = command \<and> drop 5 frame = parameters"
    if "frame = rev (le_bytes 4 securityCode) @ command # parameters"
    using arg_cong [OF that, of length] arg_cong [OF that, of "take 4"] arg_cong [OF that, of "drop 5"]
      arg_cong [OF that, of "\<lambda>f. f ! 4"] le_word_le_bytes [of 4 securityCode]
    by (simp add: nth_append)
  ultimately have "frame = rev (le_bytes 4 securityCode) @ command # parameters \<longleftrightarrow>
      5 \<le> length frame \<and> le_word (rev (take 4 frame)) = securityCode
      \<and> frame ! 4 = command \<and> drop 5 frame = parameters"
    by blast
  then show ?thesis
    by (simp only: Decode_cases [OF assms]) (auto simp: not_less)
qed

theorem uplink_authenticates_witness:
  "UplinkProtocol_Decode 0xBBCCDDEE [0xBB, 0xCC, 0xDD, 0xEE, 0x10, 1, 2] = Decode_Success 0x10 [1, 2]"
  using uplink_authenticates [of "[0xBB, 0xCC, 0xDD, 0xEE, 0x10, 1, 2]" "0xBBCCDDEE" "0x10" "[1, 2]"]
  by (simp add: le_bytes_4 byte_of_def drop_bit_eq_div)


section \<open>Only an authenticated telecommand has an effect\<close>

lemma DispatchCommandHandler_cases:
  obtains "DispatchCommandHandler tcs command parameters w = w"
    "\<forall>tc \<in> set tcs. tc_CommandCode tc \<noteq> command"
  | tc where "tc \<in> set tcs" "tc_CommandCode tc = command"
    "DispatchCommandHandler tcs command parameters w = tc_Handle tc parameters w"
proof (cases "find (\<lambda>p. tc_CommandCode p = command) tcs")
  case None
  show ?thesis by (rule that(1)) (use None in \<open>simp_all add: DispatchCommandHandler_def, simp add: find_None_iff\<close>)
next
  case (Some tc)
  then have "tc \<in> set tcs" "tc_CommandCode tc = command" by (auto simp: find_Some_iff)
  then show ?thesis by (rule that(2)) (simp add: DispatchCommandHandler_def Some)
qed

text \<open>
  C38. If a received frame has any effect at all, it is the effect of exactly one of the registered
  telecommands, run once, and the frame carried the security code, that command's code and the
  parameters it was run with.
\<close>

theorem only_authenticated_frames_act:
  assumes "length frame < 2 ^ 15"
    and "HandleFrame (UplinkProtocol_Decode securityCode) tcs frame w \<noteq> w"
  shows "\<exists>tc \<in> set tcs. \<exists>parameters.
      frame = rev (le_bytes 4 securityCode) @ tc_CommandCode tc # parameters
    \<and> HandleFrame (UplinkProtocol_Decode securityCode) tcs frame w = tc_Handle tc parameters w"
proof -
  let ?c = "le_word (rev (take 4 frame)) = securityCode"
  have ok: "5 \<le> length frame" ?c
    using assms(2) by (auto simp: HandleFrame_def Decode_cases [OF assms(1)] split: if_splits)
  then have act: "HandleFrame (UplinkProtocol_Decode securityCode) tcs frame w
      = DispatchCommandHandler tcs (frame ! 4) (drop 5 frame) w"
    by (simp add: HandleFrame_def Decode_cases [OF assms(1)])
  have split: "frame = rev (le_bytes 4 securityCode) @ frame ! 4 # drop 5 frame"
    using authentic_frame [OF ok] .
  show ?thesis
    by (rule DispatchCommandHandler_cases [of tcs "frame ! 4" "drop 5 frame" w])
      (use assms(2) act split in \<open>auto, metis\<close>)
qed

theorem only_authenticated_frames_act_witness:
  "\<exists>tc \<in> set [\<lparr>tc_CommandCode = 0x10, tc_Handle = \<lambda>ps n. n + length ps\<rparr>]. \<exists>parameters.
      [0, 0, 0, 7, 0x10, 1, 2] = rev (le_bytes 4 (7 :: u32)) @ tc_CommandCode tc # parameters
    \<and> HandleFrame (UplinkProtocol_Decode 7) [\<lparr>tc_CommandCode = 0x10, tc_Handle = \<lambda>ps n. n + length ps\<rparr>]
        [0, 0, 0, 7, 0x10, 1, 2] 5 = tc_Handle tc parameters 5"
  by (rule only_authenticated_frames_act)
    (simp_all add: HandleFrame_def Decode_cases DispatchCommandHandler_def)

section \<open>Replies\<close>

text \<open>Bytes written one by one through \<open>PayloadWriter\<close>.\<close>

definition write_bytes :: "bytes \<Rightarrow> writer \<Rightarrow> writer" where
  "write_bytes bs w = fold (\<lambda>b w. snd (Writer_WriteByte b w)) bs w"

definition correlated_reply :: "DownlinkAPID \<Rightarrow> u32 \<Rightarrow> u8 \<Rightarrow> bytes \<Rightarrow> bytes" where
  "correlated_reply apid seq correlationId bs =
     DownlinkFrame_Frame (PayloadWriter (write_bytes bs) (CorrelatedDownlinkFrame apid seq correlationId))"

definition plain_reply :: "DownlinkAPID \<Rightarrow> u32 \<Rightarrow> bytes \<Rightarrow> bytes" where
  "plain_reply apid seq bs = DownlinkFrame_Frame (PayloadWriter (write_bytes bs) (DownlinkFrame apid seq))"

lemma write_bytes_emit:
  assumes "writer_wf w" and "fits (length bs) w"
  shows "write_bytes bs w = advance bs w"
  using assms
proof (induction bs arbitrary: w)
  case Nil
  then show ?case by (simp add: write_bytes_def advance_def)
next
  case (Cons b bs)
  have f: "fits 1 w" using Cons.prems by (auto simp: fits_def)
  then have "fits (length bs) (advance [b] w)"
    using Cons.prems fits_advance [OF Cons.prems(1), of "[b]" "length bs"] by simp
  note f = f this
  have "write_bytes (b # bs) w = write_bytes bs (advance [b] w)"
    using f(1) by (simp add: write_bytes_def WriteByte_emit)
  also have "\<dots> = advance bs (advance [b] w)"
    by (rule Cons.IH) (use Cons.prems f in auto)
  finally show ?case
    using advance_advance [OF Cons.prems(1), of "[b]" bs] Cons.prems(2) by simp
qed

lemma plain_reply_bytes:
  assumes "length bs \<le> DownlinkFrame_MaxPayloadSize"
  shows "plain_reply apid seq bs = df_header (DownlinkFrame apid seq) @ bs"
  unfolding plain_reply_def
  by (rule Frame_emitted [OF assms]) (simp add: write_bytes_emit payload_ready assms)

lemma reply_payload:
  assumes "length bs \<le> DownlinkFrame_MaxPayloadSize"
  shows "drop HeaderSize (plain_reply apid seq bs) = bs"
  using DownlinkFrame_bits(1) [of apid seq] by (simp add: plain_reply_bytes [OF assms] HeaderSize_def)

end
