(* ===== verification/Boot_Settings.thy ===== *)
theory Boot_Settings
  imports Fram Byte_Reader
begin

text \<open>
  The boot settings (libs/boot_settings): which program slots to boot, the failsafe slots and the
  two boot counters, kept in the FRAM below the persistent state. \<open>fread\<close> and \<open>fwrite\<close> are the
  \<open>IFM25WDriver\<close> of the class, on a state \<open>'s\<close>; the semaphore of the class guards other tasks only.
\<close>

section \<open>The code\<close>

definition DefaultBootSlot :: u8 where "DefaultBootSlot = 0b111"
definition DefaultFailsafeBootSlot :: u8 where "DefaultFailsafeBootSlot = 0b111000"
definition DefaultBootCounter :: u32 where "DefaultBootCounter = 0"
definition SafeModeBootSlot :: u8 where "SafeModeBootSlot = 0b01000000"
definition UpperBootSlot :: u8 where "UpperBootSlot = 0b10000000"
definition BootCounterTop :: u32 where "BootCounterTop = 0xFFFF"
definition MagicNumber :: u32 where "MagicNumber = 0x7D53C5D5"

text \<open>\<open>BootFields\<close>: the offsets of the five fields, in the order of the type list.\<close>

definition MagicNumberField :: u16 where "MagicNumberField = 0"
definition BootSlotsField :: u16 where "BootSlotsField = 4"
definition FailsafeBootSlotsField :: u16 where "FailsafeBootSlotsField = 5"
definition BootCounterField :: u16 where "BootCounterField = 6"
definition LastConfirmedBootCounterField :: u16 where "LastConfirmedBootCounterField = 10"
definition BootFields_Size :: nat where "BootFields_Size = 14"

type_synonym 's fread = "u16 \<Rightarrow> nat \<Rightarrow> 's \<Rightarrow> bytes \<times> 's"
type_synonym 's fwrite = "u16 \<Rightarrow> bytes \<Rightarrow> 's \<Rightarrow> 's"

definition CheckMagicNumber :: "'s fread \<Rightarrow> 's \<Rightarrow> bool \<times> 's" where
  "CheckMagicNumber fread s =
     (let (buf, s) = fread MagicNumberField 4 s
      in (fst (Reader_ReadDoubleWordLE (Reader_Initialize buf)) = MagicNumber, s))"

definition BootSlots :: "'s fread \<Rightarrow> 's \<Rightarrow> u8 \<times> 's" where
  "BootSlots fread s =
     (let (ok, s) = CheckMagicNumber fread s
      in if \<not> ok then (DefaultBootSlot, s)
         else (let (r, s) = fread BootSlotsField 1 s in (r ! 0, s)))"

definition SetBootSlots :: "'s fread \<Rightarrow> 's fwrite \<Rightarrow> u8 \<Rightarrow> 's \<Rightarrow> bool \<times> 's" where
  "SetBootSlots fread fwrite slots s =
     (let (v, s) = BootSlots fread (fwrite BootSlotsField [slots] s) in (v = slots, s))"

definition FailsafeBootSlots :: "'s fread \<Rightarrow> 's \<Rightarrow> u8 \<times> 's" where
  "FailsafeBootSlots fread s =
     (let (ok, s) = CheckMagicNumber fread s
      in if \<not> ok then (DefaultFailsafeBootSlot, s)
         else (let (r, s) = fread FailsafeBootSlotsField 1 s in (r ! 0, s)))"

definition SetFailsafeBootSlots :: "'s fread \<Rightarrow> 's fwrite \<Rightarrow> u8 \<Rightarrow> 's \<Rightarrow> bool \<times> 's" where
  "SetFailsafeBootSlots fread fwrite slots s =
     (let (v, s) = FailsafeBootSlots fread (fwrite FailsafeBootSlotsField [slots] s) in (v = slots, s))"

definition BootCounter :: "'s fread \<Rightarrow> 's \<Rightarrow> u32 \<times> 's" where
  "BootCounter fread s =
     (let (ok, s) = CheckMagicNumber fread s
      in if \<not> ok then (DefaultBootCounter, s)
         else
           (let (buf, s) = fread BootCounterField 4 s
            in (fst (Reader_ReadDoubleWordLE (Reader_Initialize buf)), s)))"

definition counter_bytes :: "u32 \<Rightarrow> bytes" where
  "counter_bytes v = w_buf (snd (Writer_WriteDoubleWordLE v (Writer_Initialize (replicate 4 0))))"

definition SetBootCounter :: "'s fread \<Rightarrow> 's fwrite \<Rightarrow> u32 \<Rightarrow> 's \<Rightarrow> bool \<times> 's" where
  "SetBootCounter fread fwrite boots s =
     (let (v, s) = BootCounter fread (fwrite BootCounterField (counter_bytes boots) s) in (v = boots, s))"

definition MarkAsValid :: "'s fwrite \<Rightarrow> 's \<Rightarrow> 's" where
  "MarkAsValid fwrite s = fwrite MagicNumberField (counter_bytes MagicNumber) s"

definition LastConfirmedBootCounter :: "'s fread \<Rightarrow> 's \<Rightarrow> u32 \<times> 's" where
  "LastConfirmedBootCounter fread s =
     (let (buf, s) = fread LastConfirmedBootCounterField 4 s
      in (fst (Reader_ReadDoubleWordLE (Reader_Initialize buf)), s))"

definition ConfirmBoot :: "'s fread \<Rightarrow> 's fwrite \<Rightarrow> 's \<Rightarrow> bool \<times> 's" where
  "ConfirmBoot fread fwrite s =
     (let (boots, s) = BootCounter fread s;
          s = fwrite LastConfirmedBootCounterField (counter_bytes boots) s;
          (v, s) = LastConfirmedBootCounter fread s
      in (v = boots, s))"

definition BootSettings_Erase :: "'s fwrite \<Rightarrow> 's \<Rightarrow> 's" where
  "BootSettings_Erase fwrite s = fwrite 0 (replicate BootFields_Size 0xFF) s"

definition popcount :: "u8 \<Rightarrow> nat" where
  "popcount w = length (filter (bit w) [0..<8])"

definition IsValidBootSlot :: "u8 \<Rightarrow> bool" where
  "IsValidBootSlot slotsMask =
     (if slotsMask = UpperBootSlot then True
      else if slotsMask = SafeModeBootSlot then True
      else (let selectedSlots = slotsMask AND 0b00111111
            in if popcount selectedSlots = 3 then True else False))"

section \<open>What the settings hold\<close>

record boot_view =
  bv_magic :: u32
  bv_slots :: u8
  bv_failsafe :: u8
  bv_counter :: u32
  bv_confirmed :: u32

definition view_of :: "(nat \<Rightarrow> u8) \<Rightarrow> boot_view" where
  "view_of m = \<lparr>bv_magic = le_word (cells m 0 4), bv_slots = m 4, bv_failsafe = m 5,
     bv_counter = le_word (cells m 6 4), bv_confirmed = le_word (cells m 10 4)\<rparr>"

definition bv_valid :: "boot_view \<Rightarrow> bool" where
  "bv_valid v \<longleftrightarrow> bv_magic v = MagicNumber"

lemma cells_4: "cells m a 4 = [m a, m (a + 1), m (a + 2), m (a + 3)]"
  by (simp add: cells_def upt_rec numeral_eq_Suc)

lemma cells_1: "cells m a (Suc 0) = [m a]"
  by (simp add: cells_def)

lemma read_word_cells: "fst (Reader_ReadDoubleWordLE (Reader_Initialize (cells m a 4))) = le_word (cells m a 4)"
  by (simp add: left_simps taking_def cells_4)

lemma counter_bytes_le: "counter_bytes v = le_bytes 4 v"
proof -
  let ?w = "Writer_Initialize (replicate 4 (0 :: u8))"
  have "fits 4 ?w" by (simp add: fits_def Writer_Initialize_def Writer_Reset_def)
  then show ?thesis
    by (simp add: counter_bytes_def WriteDoubleWordLE_emit advance_def put_at_def Writer_Initialize_def
        Writer_Reset_def)
qed

lemma view_overwrite:
  "view_of (overwrite 4 [x] m) = (view_of m)\<lparr>bv_slots := x\<rparr>"
  "view_of (overwrite 5 [x] m) = (view_of m)\<lparr>bv_failsafe := x\<rparr>"
  "view_of (overwrite 6 (le_bytes 4 c) m) = (view_of m)\<lparr>bv_counter := c\<rparr>"
  "view_of (overwrite 10 (le_bytes 4 c) m) = (view_of m)\<lparr>bv_confirmed := c\<rparr>"
  "view_of (overwrite 0 (le_bytes 4 c) m) = (view_of m)\<lparr>bv_magic := c\<rparr>"
proof -
  have w: "le_word (cells (overwrite a (le_bytes 4 c) m) a 4) = c" for a
    using cells_overwrite [of a "le_bytes 4 c" m] by (simp add: byte_simps)
  show "view_of (overwrite 4 [x] m) = (view_of m)\<lparr>bv_slots := x\<rparr>"
    "view_of (overwrite 5 [x] m) = (view_of m)\<lparr>bv_failsafe := x\<rparr>"
    by (simp_all add: view_of_def cells_4 overwrite_def)
  show "view_of (overwrite 6 (le_bytes 4 c) m) = (view_of m)\<lparr>bv_counter := c\<rparr>"
    "view_of (overwrite 10 (le_bytes 4 c) m) = (view_of m)\<lparr>bv_confirmed := c\<rparr>"
    "view_of (overwrite 0 (le_bytes 4 c) m) = (view_of m)\<lparr>bv_magic := c\<rparr>"
    unfolding view_of_def w by (simp_all add: cells_4) (simp_all add: overwrite_def)
qed

section \<open>The operations on what the settings hold\<close>

text \<open>
  The contract of the driver: while \<open>ok\<close> holds, reads return the contents \<open>mem\<close> and leave them, and
  writes replace them.
\<close>

locale byte_memory =
  fixes ok :: "'s \<Rightarrow> bool" and mem :: "'s \<Rightarrow> nat \<Rightarrow> u8" and fread :: "'s fread" and fwrite :: "'s fwrite"
  assumes fread_cells: "ok s \<Longrightarrow> unat a + n \<le> 2 ^ 16 \<Longrightarrow> fst (fread a n s) = cells (mem s) (unat a) n"
    and fread_mem: "ok s \<Longrightarrow> unat a + n \<le> 2 ^ 16 \<Longrightarrow> mem (snd (fread a n s)) = mem s"
    and fread_ok: "ok s \<Longrightarrow> unat a + n \<le> 2 ^ 16 \<Longrightarrow> ok (snd (fread a n s))"
    and fwrite_mem: "ok s \<Longrightarrow> unat a + length bs \<le> 2 ^ 16 \<Longrightarrow>
      mem (fwrite a bs s) = overwrite (unat a) bs (mem s)"
    and fwrite_ok: "ok s \<Longrightarrow> unat a + length bs \<le> 2 ^ 16 \<Longrightarrow> ok (fwrite a bs s)"
begin

definition view :: "'s \<Rightarrow> boot_view" where
  "view s = view_of (mem s)"

lemmas accesses = fread_cells fread_mem fread_ok fwrite_mem fwrite_ok
lemmas fields = MagicNumberField_def BootSlotsField_def FailsafeBootSlotsField_def BootCounterField_def
  LastConfirmedBootCounterField_def

lemma magic [simp]:
  assumes "ok s"
  shows "fst (CheckMagicNumber fread s) = bv_valid (view s)"
    "mem (snd (CheckMagicNumber fread s)) = mem s" "ok (snd (CheckMagicNumber fread s))"
  using assms by (simp_all add: CheckMagicNumber_def fields accesses case_prod_beta read_word_cells
      bv_valid_def view_def view_of_def)

lemma slots [simp]:
  assumes "ok s"
  shows "fst (BootSlots fread s) = (if bv_valid (view s) then bv_slots (view s) else DefaultBootSlot)"
    "mem (snd (BootSlots fread s)) = mem s" "ok (snd (BootSlots fread s))"
  using assms by (simp_all add: BootSlots_def fields accesses case_prod_beta cells_1 view_def [of s] view_of_def)

lemma failsafe [simp]:
  assumes "ok s"
  shows "fst (FailsafeBootSlots fread s)
      = (if bv_valid (view s) then bv_failsafe (view s) else DefaultFailsafeBootSlot)"
    "mem (snd (FailsafeBootSlots fread s)) = mem s" "ok (snd (FailsafeBootSlots fread s))"
  using assms by (simp_all add: FailsafeBootSlots_def fields accesses case_prod_beta cells_1 view_def [of s] view_of_def)

lemma counter [simp]:
  assumes "ok s"
  shows "fst (BootCounter fread s) = (if bv_valid (view s) then bv_counter (view s) else DefaultBootCounter)"
    "mem (snd (BootCounter fread s)) = mem s" "ok (snd (BootCounter fread s))"
  using assms by (simp_all add: BootCounter_def fields accesses case_prod_beta read_word_cells
      view_def [of s] view_of_def)

lemma confirmed [simp]:
  assumes "ok s"
  shows "fst (LastConfirmedBootCounter fread s) = bv_confirmed (view s)"
    "mem (snd (LastConfirmedBootCounter fread s)) = mem s" "ok (snd (LastConfirmedBootCounter fread s))"
  using assms by (simp_all add: LastConfirmedBootCounter_def fields accesses case_prod_beta read_word_cells
      view_def [of s] view_of_def)

lemma set_slots [simp]:
  assumes "ok s"
  shows "fst (SetBootSlots fread fwrite x s) = (bv_valid (view s) \<or> x = DefaultBootSlot)"
    "view (snd (SetBootSlots fread fwrite x s)) = (view s)\<lparr>bv_slots := x\<rparr>"
    "ok (snd (SetBootSlots fread fwrite x s))"
  using assms by (auto simp: SetBootSlots_def fields accesses case_prod_beta view_def view_overwrite bv_valid_def)

lemma set_failsafe [simp]:
  assumes "ok s"
  shows "fst (SetFailsafeBootSlots fread fwrite x s) = (bv_valid (view s) \<or> x = DefaultFailsafeBootSlot)"
    "view (snd (SetFailsafeBootSlots fread fwrite x s)) = (view s)\<lparr>bv_failsafe := x\<rparr>"
    "ok (snd (SetFailsafeBootSlots fread fwrite x s))"
  using assms by (auto simp: SetFailsafeBootSlots_def fields accesses case_prod_beta view_def view_overwrite bv_valid_def)

lemma set_counter [simp]:
  assumes "ok s"
  shows "fst (SetBootCounter fread fwrite x s) = (bv_valid (view s) \<or> x = DefaultBootCounter)"
    "view (snd (SetBootCounter fread fwrite x s)) = (view s)\<lparr>bv_counter := x\<rparr>"
    "ok (snd (SetBootCounter fread fwrite x s))"
  using assms by (auto simp: SetBootCounter_def fields accesses case_prod_beta view_def view_overwrite
      counter_bytes_le bv_valid_def)

lemma mark_valid [simp]:
  assumes "ok s"
  shows "view (MarkAsValid fwrite s) = (view s)\<lparr>bv_magic := MagicNumber\<rparr>" "ok (MarkAsValid fwrite s)"
  using assms by (simp_all add: MarkAsValid_def fields accesses view_def view_overwrite counter_bytes_le)

lemma confirm [simp]:
  assumes "ok s"
  shows "fst (ConfirmBoot fread fwrite s)"
    "view (snd (ConfirmBoot fread fwrite s)) = (view s)\<lparr>bv_confirmed :=
       if bv_valid (view s) then bv_counter (view s) else DefaultBootCounter\<rparr>"
    "ok (snd (ConfirmBoot fread fwrite s))"
  using assms by (simp_all add: ConfirmBoot_def fields accesses case_prod_beta view_def view_overwrite
      counter_bytes_le)

lemma same_view: "mem s = mem t \<Longrightarrow> view s = view t"
  by (simp add: view_def)

end


section \<open>The redundant memory provides the contract\<close>

text \<open>While the three chips agree, they are one memory. \<open>outAddr\<close> is where the buffers lie in RAM.\<close>

context redundant_fram
begin

definition agreed :: "('c, 'e) redundant_fm25w \<Rightarrow> bool" where
  "agreed s \<longleftrightarrow> (\<forall>a n. a + n \<le> 2 ^ 16 \<longrightarrow>
     cells (mem (rf_chip0 s)) a n = cells (mem (rf_chip1 s)) a n
   \<and> cells (mem (rf_chip0 s)) a n = cells (mem (rf_chip2 s)) a n)"

lemma agreed_errors [simp]: "agreed (s\<lparr>rf_errors := e\<rparr>) = agreed s"
  by (simp add: agreed_def)

lemma read_agreed:
  assumes "agreed s" and a: "unat a + n \<le> 2 ^ 16"
  shows "\<exists>e. Redundant_Read cread report outAddr a n s
    = (cells (mem (rf_chip0 s)) (unat a) n, s\<lparr>rf_errors := e\<rparr>)"
proof -
  have "\<exists>e'. Redundant_read_loop cread report outAddr a 0 n s
      = (cells (mem (rf_chip0 s)) (unat a + 0) (n - 0), s\<lparr>rf_errors := e'\<rparr>)"
  proof (rule read_loop_cells [OF a, where e = "rf_errors s"])
    fix k len assume "k mod 1024 = 0" "k < n" "len = min (n - k) 1024"
    then have "unat a + k + len \<le> 2 ^ 16" using a by simp
    then show "block_value (outAddr + of_nat k) (cells (mem (rf_chip0 s)) (unat a + k) len)
        (cells (mem (rf_chip1 s)) (unat a + k) len) (cells (mem (rf_chip2 s)) (unat a + k) len)
      = cells (mem (rf_chip0 s)) (unat a + k) len"
      using assms(1) by (simp add: agreed_def)
  qed simp_all
  then show ?thesis by (simp add: Redundant_Read_def)
qed

lemma agreed_mem:
  "agreed s \<longleftrightarrow> (\<forall>i < 2 ^ 16. mem (rf_chip1 s) i = mem (rf_chip0 s) i \<and> mem (rf_chip2 s) i = mem (rf_chip0 s) i)"
proof
  assume l: "agreed s"
  show "\<forall>i < 2 ^ 16. mem (rf_chip1 s) i = mem (rf_chip0 s) i \<and> mem (rf_chip2 s) i = mem (rf_chip0 s) i"
  proof (intro allI impI)
    fix i :: nat assume "i < 2 ^ 16"
    then have "i + 1 \<le> 2 ^ 16" by simp
    then show "mem (rf_chip1 s) i = mem (rf_chip0 s) i \<and> mem (rf_chip2 s) i = mem (rf_chip0 s) i"
      using l [unfolded agreed_def, rule_format, of i 1] by (auto simp: cells_1)
  qed
next
  assume r: "\<forall>i < 2 ^ 16. mem (rf_chip1 s) i = mem (rf_chip0 s) i \<and> mem (rf_chip2 s) i = mem (rf_chip0 s) i"
  show "agreed s" unfolding agreed_def cells_def
    by (intro allI impI conjI map_cong refl) (use r in auto)
qed

end

sublocale redundant_fram \<subseteq> memory: byte_memory agreed "\<lambda>s. mem (rf_chip0 s)"
  "Redundant_Read cread report outAddr" "Redundant_Write cwrite"
proof
  fix s :: "('c, 'e) redundant_fm25w" and a :: u16 and n :: nat
  assume "agreed s" "unat a + n \<le> 2 ^ 16"
  then obtain e where e: "Redundant_Read cread report outAddr a n s
      = (cells (mem (rf_chip0 s)) (unat a) n, s\<lparr>rf_errors := e\<rparr>)"
    using read_agreed by blast
  then show "fst (Redundant_Read cread report outAddr a n s) = cells (mem (rf_chip0 s)) (unat a) n"
    "mem (rf_chip0 (snd (Redundant_Read cread report outAddr a n s))) = mem (rf_chip0 s)"
    "agreed (snd (Redundant_Read cread report outAddr a n s))"
    using \<open>agreed s\<close> by simp_all
next
  fix s :: "('c, 'e) redundant_fm25w" and a :: u16 and bs :: bytes
  assume "agreed s" "unat a + length bs \<le> 2 ^ 16"
  then show "mem (rf_chip0 (Redundant_Write cwrite a bs s)) = overwrite (unat a) bs (mem (rf_chip0 s))"
    "agreed (Redundant_Write cwrite a bs s)"
    by (simp_all add: Redundant_Write_def write_cells agreed_mem overwrite_def)
qed

text \<open>
  The memory of the satellite, on which the properties are stated. The address of the buffer that is read
  into is that of an aligned one; the lemma below says that it does not matter on chips that agree.
\<close>

definition flight_read :: "(fram, fdir) redundant_fm25w fread" where
  "flight_read = Redundant_Read (FM25W_Read fram_slave) fram_report 0"

definition flight_write :: "(fram, fdir) redundant_fm25w fwrite" where
  "flight_write = Redundant_Write (FM25W_Write fram_slave)"

interpretation boot_memory: byte_memory flight.agreed "\<lambda>s. fr_mem (rf_chip0 s)" flight_read flight_write
  unfolding flight_read_def flight_write_def by (rule flight.memory.byte_memory_axioms)

lemma flight_read_destination:
  assumes "flight.agreed s" and "unat a + n \<le> 2 ^ 16"
  shows "fst (Redundant_Read (FM25W_Read fram_slave) fram_report dest a n s) = fst (flight_read a n s)"
  using flight.read_agreed [where outAddr = dest, OF assms] flight.read_agreed [where outAddr = 0, OF assms]
  by (auto simp: flight_read_def)

section \<open>One damaged chip and the slot masks\<close>

context redundant_fram
begin

lemma read_small:
  assumes "0 < n" and "n \<le> 1024"
  shows "Redundant_Read cread report outAddr a n s = Redundant_ReadBlock cread report outAddr a n s"
  using assms by (simp add: Redundant_Read_def Redundant_read_loop.simps case_prod_beta)

lemma read_byte:
  assumes "unat a < 2 ^ 16"
  shows "fst (Redundant_Read cread report outAddr a (Suc 0) s) = [mem (rf_chip0 s) (unat a)]"
  using storage_read_first [where a = a and n = 1 and s = s] assms by (simp add: cells_1)

lemma magic_read:
  assumes "outAddr AND 3 = 0" and "cells (mem (rf_chip1 s)) 0 4 = cells (mem (rf_chip2 s)) 0 4"
    and "le_word (cells (mem (rf_chip1 s)) 0 4) = MagicNumber"
  shows "fst (CheckMagicNumber (Redundant_Read cread report outAddr) s)"
    and "\<exists>e. snd (CheckMagicNumber (Redundant_Read cread report outAddr) s) = s\<lparr>rf_errors := e\<rparr>"
proof -
  have "fst (Redundant_Read cread report outAddr 0 4 s) = cells (mem (rf_chip1 s)) 0 4"
    using storage_read_vote [where a = 0 and n = 4 and s = s and m = "mem (rf_chip1 s)"] assms(1,2) by simp
  then show "fst (CheckMagicNumber (Redundant_Read cread report outAddr) s)"
    using assms(3) by (simp add: CheckMagicNumber_def MagicNumberField_def case_prod_beta read_word_cells)
  show "\<exists>e. snd (CheckMagicNumber (Redundant_Read cread report outAddr) s) = s\<lparr>rf_errors := e\<rparr>"
    using read_block [of 0 4 report outAddr s] by (auto simp: CheckMagicNumber_def MagicNumberField_def
        case_prod_beta read_small)
qed

lemma masks_unvoted:
  assumes "outAddr AND 3 = 0" and "cells (mem (rf_chip1 s)) 0 4 = cells (mem (rf_chip2 s)) 0 4"
    and "le_word (cells (mem (rf_chip1 s)) 0 4) = MagicNumber"
  shows "fst (BootSlots (Redundant_Read cread report outAddr) s) = mem (rf_chip0 s) 4"
    and "fst (FailsafeBootSlots (Redundant_Read cread report outAddr) s) = mem (rf_chip0 s) 5"
proof -
  note m = magic_read [OF assms]
  obtain e where "snd (CheckMagicNumber (Redundant_Read cread report outAddr) s) = s\<lparr>rf_errors := e\<rparr>"
    using m(2) by blast
  then show "fst (BootSlots (Redundant_Read cread report outAddr) s) = mem (rf_chip0 s) 4"
    "fst (FailsafeBootSlots (Redundant_Read cread report outAddr) s) = mem (rf_chip0 s) 5"
    using m(1) by (simp_all add: BootSlots_def FailsafeBootSlots_def case_prod_beta BootSlotsField_def
        FailsafeBootSlotsField_def read_byte)
qed

end

text \<open>
  The slot masks are single bytes, which the redundant memory never votes: even when the second
  and the third chip agree on valid settings, the masks are those of the first chip, whatever it holds.
\<close>

theorem boot_masks_not_voted:
  assumes "cells (fr_mem (rf_chip1 s)) 0 6 = cells (fr_mem (rf_chip2 s)) 0 6"
    and "le_word (cells (fr_mem (rf_chip1 s)) 0 4) = MagicNumber"
  shows "fst (BootSlots flight_read s) = fr_mem (rf_chip0 s) 4 \<and>
    fst (FailsafeBootSlots flight_read s) = fr_mem (rf_chip0 s) 5"
proof -
  have "cells (fr_mem (rf_chip1 s)) (0 + 0) 4 = cells (fr_mem (rf_chip2 s)) (0 + 0) 4"
    by (rule flight.cells_sub [OF assms(1)]) simp
  then show ?thesis
    using flight.masks_unvoted [of 0 s] assms(2) by (simp add: flight_read_def)
qed

definition damaged_settings :: "(fram, fdir) redundant_fm25w" where
  "damaged_settings =
     (let good = \<lparr>fr_mem = overwrite 0 (le_bytes 4 MagicNumber @ [0b111, 0b111000]) (\<lambda>_. 0), fr_latch = False\<rparr>
      in \<lparr>rf_chip0 = \<lparr>fr_mem = \<lambda>_. 0, fr_latch = False\<rparr>, rf_chip1 = good, rf_chip2 = good,
          rf_errors = FDIR_new 0\<rparr>)"

theorem boot_masks_not_voted_witness:
  "fst (BootSlots flight_read damaged_settings) = 0 \<and> fr_mem (rf_chip1 damaged_settings) 4 = 0b111"
proof -
  have m: "cells (fr_mem (rf_chip1 damaged_settings)) 0 4 = le_bytes 4 MagicNumber"
    by (rule nth_equalityI) (simp_all add: damaged_settings_def Let_def cells_def overwrite_def nth_append)
  have "fst (BootSlots flight_read damaged_settings) = fr_mem (rf_chip0 damaged_settings) 4 \<and>
      fst (FailsafeBootSlots flight_read damaged_settings) = fr_mem (rf_chip0 damaged_settings) 5"
    by (rule boot_masks_not_voted) (simp_all add: m byte_simps, simp add: damaged_settings_def Let_def)
  then show ?thesis by (simp add: damaged_settings_def Let_def overwrite_def nth_append)
qed

end
