(* ===== verification/Telecommands.thy ===== *)
theory Telecommands
  imports Telecommunication Mission_Time Mission_Tasks Burn_Tasks Boot_Settings
begin

text \<open>
  The telecommands that configure the satellite and report its state (libs/obc/communication/
  telecommands). A handler maps its parameters and the state of the components it uses to their new
  state and the list of frames it passes to \<open>SendFrame\<close>, in order, where it ignores that method's
  result. A lock's outcome (\<open>taken\<close>) and the answers of devices are arguments.
\<close>

section \<open>Error counters (fdir.cpp)\<close>

text \<open>
  The loop reads four bytes at a time until the reader fails or a device number is refused; its
  first argument bounds the rounds. \<open>None\<close>: the configuration is written outside its array.
\<close>

fun set_error_counters_loop :: "nat \<Rightarrow> reader \<Rightarrow> fdir \<Rightarrow> writer \<Rightarrow> (fdir \<times> writer) option" where
  "set_error_counters_loop 0 r config response = Some (config, response)"
| "set_error_counters_loop (Suc n) r config response =
     (let (device, r) = Reader_ReadByte r;
          (limit, r) = Reader_ReadByte r;
          (increment, r) = Reader_ReadByte r;
          (decrement, r) = Reader_ReadByte r
      in if \<not> Reader_Status r then Some (config, response)
         else if unat device > MaxDevices then Some (config, response)
         else
           (case FDIR_Set device limit increment decrement config of
              None \<Rightarrow> None
            | Some config \<Rightarrow>
                set_error_counters_loop n r config (snd (Writer_WriteByte device response))))"

definition SetErrorCounterConfig_Handle :: "bytes \<Rightarrow> fdir \<Rightarrow> (fdir \<times> bytes list) option" where
  "SetErrorCounterConfig_Handle parameters config =
     (let r = Reader_Initialize parameters;
          (correlationId, r) = Reader_ReadByte r;
          responseFrame = CorrelatedDownlinkFrame APID_ErrorCounterConfiguration 0 correlationId
      in if \<not> Reader_Status r
         then Some (config, [DownlinkFrame_Frame (PayloadWriter (write_bytes [1]) responseFrame)])
         else
           (let response = write_bytes [0] (df_payload responseFrame)
            in case set_error_counters_loop (Suc (length parameters)) r config response of
                 None \<Rightarrow> None
               | Some (config, response) \<Rightarrow>
                   Some (config, [DownlinkFrame_Frame (responseFrame\<lparr>df_payload := response\<rparr>)])))"

definition GetErrorCountersConfig_Handle :: "fdir \<Rightarrow> bytes list" where
  "GetErrorCountersConfig_Handle f =
     [DownlinkFrame_Frame
        (PayloadWriter
           (\<lambda>w. fold (\<lambda>i w.
              (let d = of_nat i;
                   w = snd (Writer_WriteByte (the (ErrorCounting_Current (fd_counters f) d)) w);
                   w = snd (Writer_WriteByte (FDIR_Limit f d) w);
                   w = snd (Writer_WriteByte (FDIR_Increment f d) w)
               in snd (Writer_WriteByte (FDIR_Decrement f d) w))) [0..<MaxDevices] w)
           (DownlinkFrame APID_ErrorCounters 0))]"

section \<open>Time (time.cpp)\<close>

definition SetTimeCorrectionConfig_Handle ::
  "bool \<Rightarrow> bytes \<Rightarrow> persistent_state \<Rightarrow> persistent_state \<times> bytes list" where
  "SetTimeCorrectionConfig_Handle taken parameters ps =
     (let r = Reader_Initialize parameters;
          (correlationId, r) = Reader_ReadByte r;
          (missionTimeWeight, r) = Reader_ReadWordLE r;
          (externalTimeWeight, r) = Reader_ReadWordLE r;
          reply = (\<lambda>b. [plain_reply APID_TimeCorrection 0 [correlationId, b]])
      in if missionTimeWeight = 0 \<and> externalTimeWeight = 0 then (ps, reply (- 1))
         else
           (let (ok, ps) = Lockable_Set taken
                  (put_TimeCorrection \<lparr>missionTimeFactor = missionTimeWeight,
                                       externalTimeFactor = externalTimeWeight\<rparr>) ps
            in if \<not> ok then (ps, reply (- 2)) else (ps, reply 0)))"

text \<open>The locks and the clock, as the handler meets them.\<close>

record set_time_env =
  se_sync :: bool
  se_rtc :: "OSResult \<times> RTCTime"
  se_get :: bool
  se_timer :: bool
  se_notify :: bool
  se_set :: bool

definition SetTime_Handle ::
  "(int \<Rightarrow> int \<Rightarrow> int \<Rightarrow> int \<Rightarrow> int \<Rightarrow> int \<Rightarrow> int) \<Rightarrow> set_time_env \<Rightarrow> bytes \<Rightarrow> persistent_state
     \<Rightarrow> TimeProvider \<Rightarrow> persistent_state \<times> TimeProvider \<times> time_event list \<times> bytes list" where
  "SetTime_Handle mktime env parameters ps provider =
     (let r = Reader_Initialize parameters;
          (correlationId, r) = Reader_ReadByte r;
          (seconds, r) = Reader_ReadDoubleWordLE r;
          targetTime = uint seconds * 1000;
          reply = (\<lambda>b. [plain_reply APID_TimeSet 0 [correlationId, b]])
      in if \<not> se_sync env then (ps, provider, [], reply (- 4))
         else
           (let failed = OS_RESULT_FAILED (fst (se_rtc env));
                (ok, currentTimeState) = Lockable_Get (se_get env) get_TimeState ps TimeState_default;
                externalTime = (if failed then LastExternalTime currentTimeState
                                else RTC_ToDuration mktime (snd (se_rtc env)) * 1000);
                status = (if failed then 1 else 0)
            in if failed \<and> \<not> ok then (ps, provider, [], reply (- 5))
               else
                 (let (set, events, provider) =
                        SetCurrentTime (se_timer env) (se_notify env) targetTime provider
                  in if \<not> set then (ps, provider, events, reply (- 2))
                     else
                       (let (ok, ps) = Lockable_Set (se_set env)
                              (put_TimeState (TimeState_new targetTime externalTime)) ps
                        in if \<not> ok then (ps, provider, events, reply (- 3))
                           else (ps, provider, events, reply status)))))"

section \<open>Settings in the persistent state (adcs.cpp, antenna.cpp, sail.cpp, periodic_message.cpp)\<close>

definition SetBuiltinDetumblingBlockMask_Handle ::
  "bool \<Rightarrow> bytes \<Rightarrow> persistent_state \<Rightarrow> 'w coordinator
     \<Rightarrow> persistent_state \<times> 'w coordinator \<times> bytes list" where
  "SetBuiltinDetumblingBlockMask_Handle taken parameters ps c =
     (let r = Reader_Initialize parameters;
          (correlationId, r) = Reader_ReadByte r;
          (b, r) = Reader_ReadByte r;
          newState = (b \<noteq> 0);
          reply = (\<lambda>b. [plain_reply APID_SetInternalDetumblingMode 0 [correlationId, b]])
      in if \<not> Reader_Status r then (ps, c, reply 1)
         else
           (let (ok, ps) = Lockable_Set taken (put_AdcsState \<lparr>internalDetumblingDisabled = newState\<rparr>) ps
            in if \<not> ok then (ps, c, reply 2)
               else (ps, SetBlockMode BuiltinDetumbling newState c, reply 0)))"

definition SetAntennaDeploymentMask_Handle ::
  "bool \<Rightarrow> bytes \<Rightarrow> persistent_state \<Rightarrow> persistent_state \<times> bytes list" where
  "SetAntennaDeploymentMask_Handle taken parameters ps =
     (let r = Reader_Initialize parameters;
          (correlationId, r) = Reader_ReadByte r;
          (b, r) = Reader_ReadByte r;
          disabled = (b \<noteq> 0);
          reply = (\<lambda>b. [correlated_reply APID_DisableAntennaDeployment 0 correlationId [b]])
      in if \<not> Reader_Status r then (ps, reply (- 1))
         else
           (let (ok, ps) = Lockable_Set taken (put_AntennaConfiguration \<lparr>isDeploymentDisabled = disabled\<rparr>) ps
            in if \<not> ok then (ps, reply (- 2)) else (ps, reply 0)))"

definition StopSailDeployment_Handle ::
  "bool \<Rightarrow> bytes \<Rightarrow> persistent_state \<Rightarrow> persistent_state \<times> bytes list" where
  "StopSailDeployment_Handle taken parameters ps =
     (let r = Reader_Initialize parameters;
          (correlationId, r) = Reader_ReadByte r;
          reply = (\<lambda>b. [correlated_reply APID_DisableSailDeployment 0 correlationId [b]])
      in if \<not> Reader_Status r then (ps, reply (- 1))
         else
           (let (ok, ps) = Lockable_Set taken (put_SailState \<lparr>currentState = Sail_OpeningStopped\<rparr>) ps
            in if \<not> ok then (ps, reply (- 2)) else (ps, reply 0)))"

definition OpenSail_Handle :: "bytes \<Rightarrow> sail_task \<Rightarrow> sail_task \<times> bytes list" where
  "OpenSail_Handle parameters t =
     (let r = Reader_Initialize parameters;
          (correlationId, r) = Reader_ReadByte r;
          (b, r) = Reader_ReadByte r;
          ignoreOverheat = (b \<noteq> 0);
          reply = (\<lambda>b. [correlated_reply APID_Sail 0 correlationId [b]])
      in if \<not> Reader_Status r then (t, reply 1) else (OpenSail ignoreOverheat t, reply 0))"

text \<open>The result of \<open>Set\<close> is ignored; \<open>None\<close> for a message longer than its array.\<close>

definition SetPeriodicMessage_Handle ::
  "bool \<Rightarrow> bytes \<Rightarrow> persistent_state \<Rightarrow> (persistent_state \<times> bytes list) option" where
  "SetPeriodicMessage_Handle taken parameters ps =
     (let r = Reader_Initialize parameters;
          (correlationId, r) = Reader_ReadByte r;
          (interval, r) = Reader_ReadByte r;
          (repeatCount, r) = Reader_ReadByte r;
          (msg, r) = Reader_ReadToEnd r;
          reply = (\<lambda>b. [correlated_reply APID_PeriodicSet 0 correlationId [b]])
      in if \<not> Reader_Status r \<or> length msg = 0 then Some (ps, reply 1)
         else
           (case MessageState_new (ucast interval) repeatCount msg of
              None \<Rightarrow> None
            | Some newSettings \<Rightarrow>
                Some (snd (Lockable_Set taken (put_MessageState newSettings) ps), reply 0)))"

definition SendPeriodicMessage_Handle :: "bool \<Rightarrow> bytes \<Rightarrow> bytes \<Rightarrow> persistent_state \<Rightarrow> bytes list" where
  "SendPeriodicMessage_Handle taken text parameters ps =
     (let msg = snd (Lockable_Get taken get_MessageState ps (MessageState_default text));
          frame = PayloadWriter (\<lambda>w. snd (Writer_WriteArray (ms_message msg) w))
                    (DownlinkFrame APID_PeriodicMessage 0);
          count = (if length parameters = 1 then parameters ! 0 else 40)
      in replicate (unat count) (DownlinkFrame_Frame frame))"

definition SetAdcsMode_Handle :: "bytes \<Rightarrow> 'w coordinator \<Rightarrow> 'w coordinator \<times> bytes list" where
  "SetAdcsMode_Handle parameters c =
     (let r = Reader_Initialize parameters;
          (correlationId, r) = Reader_ReadByte r;
          (b, r) = Reader_ReadByte r;
          newState = sint b;
          finish = (\<lambda>(result, c).
            (c, [plain_reply APID_SetAdcsMode 0 [correlationId, if OS_RESULT_SUCCEEDED result then 0 else 1]]))
      in if \<not> Reader_Status r then finish (OS_BufferNotAvailable, c)
         else if newState = num_AdcsMode BuiltinDetumbling then finish (EnableBuiltinDetumbling c)
         else if newState = num_AdcsMode ExperimentalDetumbling then finish (EnableExperimentalDetumbling c)
         else if newState = num_AdcsMode ExperimentalSunpointing then finish (EnableSunPointing c)
         else if newState = num_AdcsMode AdcsDisabled then finish (Coordinator_Disable c)
         else if newState = num_AdcsMode AdcsStopped then finish (Coordinator_Stop c)
         else finish (OS_InvalidArgument, c))"

section \<open>Boot slots (boot_settings.cpp)\<close>

definition SetBootSlots_Handle ::
  "'s fread \<Rightarrow> 's fwrite \<Rightarrow> bytes \<Rightarrow> 's \<Rightarrow> 's \<times> bytes list" where
  "SetBootSlots_Handle fread fwrite parameters s =
     (let r = Reader_Initialize parameters;
          (correlationId, r) = Reader_ReadByte r;
          (bootSlots, r) = Reader_ReadByte r;
          (failsafeBootSlots, r) = Reader_ReadByte r;
          reply = (\<lambda>bs. [correlated_reply APID_BootSlotsInfo 0 correlationId bs])
      in if \<not> Reader_Status r then (s, reply [0xE0])
         else if \<not> IsValidBootSlot bootSlots then (s, reply [0xE1])
         else if \<not> IsValidBootSlot failsafeBootSlots then (s, reply [0xE2])
         else
           (let s = snd (SetBootSlots fread fwrite bootSlots s);
                s = snd (SetFailsafeBootSlots fread fwrite failsafeBootSlots s);
                s = MarkAsValid fwrite s;
                (b, s) = BootSlots fread s;
                (f, s) = FailsafeBootSlots fread s
            in (s, reply [0, b, f])))"

section \<open>Reports (ping.cpp, compile_info.cpp, state.cpp, memory.cpp)\<close>

definition Ping_Handle :: "bytes \<Rightarrow> bytes list" where
  "Ping_Handle parameters =
     [DownlinkFrame_Frame
        (PayloadWriter (\<lambda>w. snd (Writer_WriteArray [0x50, 0x4F, 0x4E, 0x47] w)) (DownlinkFrame APID_Pong 0))]"

text \<open>The loops end when the reader is used up; \<open>None\<close> if they never do.\<close>

partial_function (option) compile_info_frames :: "u32 \<Rightarrow> reader \<Rightarrow> bytes list option" where
  "compile_info_frames seq r =
     (if Reader_RemainingSize r > 0 then
        (let response = DownlinkFrame APID_CompileInfo seq;
             size = min (Reader_RemainingSize r) (int DownlinkFrame_MaxPayloadSize);
             (span, r) = Reader_ReadArray (of_int size) r;
             frame = DownlinkFrame_Frame (PayloadWriter (\<lambda>w. snd (Writer_WriteArray span w)) response)
         in Option.bind (compile_info_frames (seq + 1) r) (\<lambda>frames. Some (frame # frames)))
      else Some [])"

definition CompileInfo_Handle :: "bytes \<Rightarrow> bytes \<Rightarrow> bytes list option" where
  "CompileInfo_Handle version parameters = compile_info_frames 0 (Reader_Initialize version)"

definition WriteState :: "bool \<Rightarrow> bytes \<Rightarrow> persistent_state \<Rightarrow> bool \<times> bytes" where
  "WriteState taken target ps =
     (let (ok, w) = Lockable_Write taken ps (Writer_Initialize target)
      in if \<not> ok then (False, w_buf w) else (Writer_Status w, w_buf w))"

partial_function (option) persistent_state_frames :: "u32 \<Rightarrow> reader \<Rightarrow> bytes list option" where
  "persistent_state_frames seq r =
     (if Reader_RemainingSize r > 0 then
        (let frame = DownlinkFrame APID_PersistentState seq;
             len = min (Writer_RemainingSize (df_payload frame)) (Reader_RemainingSize r);
             (span, r) = Reader_ReadArray (of_int len) r;
             sent = DownlinkFrame_Frame (PayloadWriter (\<lambda>w. snd (Writer_WriteArray span w)) frame)
         in Option.bind (persistent_state_frames (seq + 1) r) (\<lambda>frames. Some (sent # frames)))
      else Some [])"

definition GetPersistentState_Handle :: "bool \<Rightarrow> persistent_state \<Rightarrow> bytes \<Rightarrow> bytes list option" where
  "GetPersistentState_Handle taken ps parameters =
     (let (ok, buffer) = WriteState taken (replicate PersistentState_Size 0) ps
      in if \<not> ok then Some [] else persistent_state_frames 0 (Reader_Initialize buffer))"

text \<open>
  The memory is a function from addresses; \<open>ReadByte0\<close>, the detour of gcc_workaround.hpp for the
  address zero, loads the byte and returns a constant.
\<close>

definition ReadByte0 :: "(nat \<Rightarrow> u8) \<Rightarrow> u8" where
  "ReadByte0 mem = 0"

partial_function (option) memory_frames ::
  "(nat \<Rightarrow> u8) \<Rightarrow> u8 \<Rightarrow> nat \<Rightarrow> u32 \<Rightarrow> u32 \<Rightarrow> bytes list option" where
  "memory_frames mem correlationId sz memoryToRead seq =
     (if sz > 0 then
        (let partSize = min sz Correlated_MaxPayloadSize;
             frame = CorrelatedDownlinkFrame APID_MemoryContent seq correlationId;
             (frame, memoryToRead, partSize, sz) =
               (if memoryToRead = 0
                then (PayloadWriter (\<lambda>w. snd (Writer_WriteByte (ReadByte0 mem) w)) frame,
                      memoryToRead + 1, partSize - 1, sz - 1)
                else (frame, memoryToRead, partSize, sz));
             part = map (\<lambda>i. mem (unat (memoryToRead + of_nat i))) [0..<partSize];
             sent = DownlinkFrame_Frame (PayloadWriter (\<lambda>w. snd (Writer_WriteArray part w)) frame)
         in Option.bind
              (memory_frames mem correlationId (sz - partSize) (memoryToRead + of_nat partSize) (seq + 1))
              (\<lambda>frames. Some (sent # frames)))
      else Some [])"

definition ReadMemory_Handle :: "(nat \<Rightarrow> u8) \<Rightarrow> bytes \<Rightarrow> bytes list option" where
  "ReadMemory_Handle mem parameters =
     (let r = Reader_Initialize parameters;
          (correlationId, r) = Reader_ReadByte r;
          (offset, r) = Reader_ReadDoubleWordLE r;
          (size, r) = Reader_ReadDoubleWordLE r;
          size = min size (0xFFFFFFFF - offset)
      in if \<not> Reader_Status r then Some [correlated_reply APID_Operation 0 correlationId [1]]
         else memory_frames mem correlationId (unat size) offset 0)"

section \<open>Data in numbered frames\<close>

text \<open>What the ground expects of a report: its data cut into pieces, one frame for each.\<close>

fun chunked :: "nat \<Rightarrow> 'a list \<Rightarrow> 'a list list" where
  "chunked n xs = (if xs = [] \<or> n = 0 then [] else take n xs # chunked n (drop n xs))"

declare chunked.simps [simp del]

primrec numbered :: "(u32 \<Rightarrow> 'a \<Rightarrow> 'b) \<Rightarrow> u32 \<Rightarrow> 'a list \<Rightarrow> 'b list" where
  "numbered f seq [] = []"
| "numbered f seq (c # cs) = f seq c # numbered f (seq + 1) cs"

lemma chunked_simps [simp]:
  "chunked n [] = []"
  "xs \<noteq> [] \<Longrightarrow> 0 < n \<Longrightarrow> chunked n xs = take n xs # chunked n (drop n xs)"
  by (simp_all add: chunked.simps)

lemma chunked_concat [simp]: "0 < n \<Longrightarrow> concat (chunked n xs) = xs"
  by (induction n xs rule: chunked.induct) (subst chunked.simps, simp)

lemma chunked_length: "c \<in> set (chunked n xs) \<Longrightarrow> length c \<le> n"
proof (induction n xs rule: chunked.induct)
  case (1 n xs)
  then show ?case by (subst (asm) (2) chunked.simps) (auto split: if_splits)
qed

lemma numbered_nth [simp]:
  "length (numbered f seq cs) = length cs"
  "i < length cs \<Longrightarrow> numbered f seq cs ! i = f (seq + of_nat i) (cs ! i)"
proof (induction cs arbitrary: seq i)
  case (Cons c cs)
  { case 1 show ?case using Cons(1) by simp
  next
    case 2 then show ?case using Cons(2) by (cases i) (simp_all add: add_ac) }
qed simp_all

lemma numbered_map: "(\<And>s c. c \<in> set cs \<Longrightarrow> g (f s c) = h c) \<Longrightarrow> map g (numbered f seq cs) = map h cs"
  by (induction cs arbitrary: seq) simp_all

definition data_frame :: "DownlinkAPID \<Rightarrow> u32 \<Rightarrow> bytes \<Rightarrow> bytes" where
  "data_frame apid seq payload = df_header (DownlinkFrame apid seq) @ payload"

lemma data_frame_fields:
  "drop HeaderSize (data_frame apid seq payload) = payload"
  "header_apid (data_frame apid seq payload) = num_APID apid"
  "header_seq (data_frame apid seq payload) = take_bit 18 seq"
  using DownlinkFrame_bits(1) [of apid seq] header_cong [of "data_frame apid seq payload" "df_header (DownlinkFrame apid seq)"]
    DownlinkFrame_header [of apid seq]
  by (simp_all add: data_frame_def HeaderSize_def)

lemma array_frame:
  assumes "length payload \<le> DownlinkFrame_MaxPayloadSize"
  shows "DownlinkFrame_Frame (PayloadWriter (\<lambda>w. snd (Writer_WriteArray payload w)) (DownlinkFrame apid seq))
    = data_frame apid seq payload"
proof -
  have n: "length payload < 256"
    using assms by (simp add: DownlinkFrame_MaxPayloadSize_def MaxDownlinkFrameSize_def HeaderSize_def)
  show ?thesis unfolding data_frame_def
    by (rule Frame_emitted [OF assms]) (simp add: WriteArray_emit [OF n] payload_ready assms)
qed

text \<open>One round of the loops over a reader.\<close>

lemma reader_remaining:
  assumes "reader_wf r" and "r_valid r"
  shows "Reader_RemainingSize r = int (length (rest r))"
proof -
  have "unat (r_pos r) \<le> length (r_buf r)" using assms by (simp add: reader_wf_def)
  then show ?thesis unfolding Reader_RemainingSize_def rest_def length_drop by (simp only: of_nat_diff)
qed

lemma read_chunk:
  assumes "reader_wf r" and "r_valid r" and "rest r \<noteq> []"
  shows "Reader_RemainingSize r = int (length (rest r))"
    "Reader_ReadArray (of_int (min (int (length (rest r))) 232)) r
      = (take 232 (rest r), consume (min (length (rest r)) 232) r)"
    "reader_wf (consume (min (length (rest r)) 232) r)" "r_valid (consume (min (length (rest r)) 232) r)"
    "rest (consume (min (length (rest r)) 232) r) = drop 232 (rest r)"
proof -
  let ?n = "min (length (rest r)) 232"
  show "Reader_RemainingSize r = int (length (rest r))"
    using assms by (simp only: reader_remaining)
  have a: "avail ?n r" using assms by (simp add: avail_rest)
  have "unat (of_int (min (int (length (rest r))) 232) :: u16) = ?n"
    by (cases "length (rest r) \<le> 232") (simp_all add: unat_of_nat)
  moreover have "take ?n (rest r) = take 232 (rest r)" "drop ?n (rest r) = drop 232 (rest r)"
    by (simp_all add: min_def)
  ultimately show "Reader_ReadArray (of_int (min (int (length (rest r))) 232)) r
      = (take 232 (rest r), consume ?n r)"
    "reader_wf (consume ?n r)" "r_valid (consume ?n r)" "rest (consume ?n r) = drop 232 (rest r)"
    using a assms wf_consume [OF assms(1) a] rest_consume [OF assms(1) a]
    by (simp_all add: ReadArray_fetch)
qed

lemma payload_size: "DownlinkFrame_MaxPayloadSize = 232" "Correlated_MaxPayloadSize = 231"
  by (simp_all add: DownlinkFrame_MaxPayloadSize_def Correlated_MaxPayloadSize_def MaxDownlinkFrameSize_def HeaderSize_def)

lemma fresh_payload: "Writer_RemainingSize (df_payload (DownlinkFrame apid seq)) = 232"
  using DownlinkFrame_bits(4) [of apid seq]
  by (subst DownlinkFrame_bits(3)) (simp add: Writer_RemainingSize_def Writer_Initialize_def Writer_Reset_def)

lemma compile_info_frames_run:
  assumes "reader_wf r" and "r_valid r"
  shows "compile_info_frames seq r = Some (numbered (data_frame APID_CompileInfo) seq (chunked 232 (rest r)))"
  using assms
proof (induction "length (rest r)" arbitrary: r seq rule: less_induct)
  case less
  note C = read_chunk [OF less.prems]
  show ?case
  proof (cases "rest r = []")
    case True
    then show ?thesis using less.prems by (subst compile_info_frames.simps) (simp add: reader_remaining)
  next
    case False
    have "compile_info_frames (seq + 1) (consume (min (length (rest r)) 232) r)
        = Some (numbered (data_frame APID_CompileInfo) (seq + 1) (chunked 232 (drop 232 (rest r))))"
      using less.hyps [OF _ C(3,4) [OF False]] C(5) [OF False] False by simp
    then show ?thesis using False
      by (subst compile_info_frames.simps) (simp add: C(1,2) [OF False] payload_size array_frame)
  qed
qed

lemma persistent_state_frames_run:
  assumes "reader_wf r" and "r_valid r"
  shows "persistent_state_frames seq r = Some (numbered (data_frame APID_PersistentState) seq (chunked 232 (rest r)))"
  using assms
proof (induction "length (rest r)" arbitrary: r seq rule: less_induct)
  case less
  note C = read_chunk [OF less.prems]
  show ?case
  proof (cases "rest r = []")
    case True
    then show ?thesis using less.prems by (subst persistent_state_frames.simps) (simp add: reader_remaining)
  next
    case False
    have "persistent_state_frames (seq + 1) (consume (min (length (rest r)) 232) r)
        = Some (numbered (data_frame APID_PersistentState) (seq + 1) (chunked 232 (drop 232 (rest r))))"
      using less.hyps [OF _ C(3,4) [OF False]] C(5) [OF False] False by simp
    then show ?thesis using False
      by (subst persistent_state_frames.simps)
        (simp add: C(1,2) [OF False] payload_size array_frame fresh_payload min.commute [of 232])
  qed
qed

lemma memory_frames_run:
  assumes "unat a + n < 2 ^ 32"
  shows "memory_frames mem c n a seq
    = Some (numbered (\<lambda>s p. data_frame APID_MemoryContent s (c # p)) seq
        (chunked 231 (map (mem(0 := 0)) [unat a..<unat a + n])))"
  using assms
proof (induction n arbitrary: a seq rule: less_induct)
  case (less n)
  let ?cell = "mem(0 := 0)"
  show ?case
  proof (cases "n = 0")
    case True
    then show ?thesis by (subst memory_frames.simps) simp
  next
    case False
    define k where "k = min n 231"
    have k: "0 < k" "k \<le> n" "k \<le> 231" using False by (simp_all add: k_def)
    have ak: "unat (a + of_nat k) = unat a + k"
      using less.prems k by (simp add: unat_word_ariths unat_of_nat)
    define piece where "piece = map ?cell [unat a..<unat a + k]"
    have piece: "take 231 (map ?cell [unat a..<unat a + n]) = piece"
      "drop 231 (map ?cell [unat a..<unat a + n]) = map ?cell [unat (a + of_nat k)..<unat (a + of_nat k) + (n - k)]"
      unfolding ak by (simp_all add: piece_def take_map drop_map k_def min_def)
    let ?F = "CorrelatedDownlinkFrame APID_MemoryContent seq c"
    have small: "length piece \<le> Correlated_MaxPayloadSize" using k by (simp add: piece_def payload_size)
    have rec: "memory_frames mem c (n - k) (a + of_nat k) (seq + 1)
        = Some (numbered (\<lambda>s p. data_frame APID_MemoryContent s (c # p)) (seq + 1)
            (chunked 231 (map ?cell [unat (a + of_nat k)..<unat (a + of_nat k) + (n - k)])))"
      by (rule less.IH) (use k less.prems in \<open>simp_all add: ak\<close>)
    let ?w = "advance [c] (df_payload (DownlinkFrame APID_MemoryContent seq))"
    have w: "writer_wf ?w" "fits m ?w \<longleftrightarrow> m \<le> 231" for m
      using wf_advance [OF payload_ready(1), of "[c]" APID_MemoryContent seq]
        fits_advance [OF payload_ready(1), of "[c]" APID_MemoryContent seq m]
      by (simp_all add: payload_ready payload_size)
    have put: "DownlinkFrame_Frame (PayloadWriter f ?F) = data_frame APID_MemoryContent seq (c # piece)"
      if "f ?w = advance piece ?w" for f
      unfolding data_frame_def by (rule CorrelatedDownlinkFrame_payload [of piece f c APID_MemoryContent seq, OF small that])
    show ?thesis
    proof (cases "a = 0")
      case True
      have "piece = 0 # map (\<lambda>i. mem (unat (1 + of_nat i :: u32))) [0..<k - 1]" (is "_ = 0 # ?part")
      proof (rule nth_equalityI)
        show "length piece = length (0 # ?part)" using k by (simp add: piece_def)
        fix i assume "i < length piece"
        then have i: "i < k" "i < 231" using k by (simp_all add: piece_def)
        then show "piece ! i = (0 # ?part) ! i" using True k
          by (cases i) (simp_all add: piece_def unat_word_ariths unat_of_nat)
      qed
      then have p: "piece = 0 # ?part" .
      have "length ?part < 256" using k by simp
      then have f: "snd (Writer_WriteArray ?part (snd (Writer_WriteByte 0 ?w))) = advance piece ?w"
        using w(1) w(2) [of k] w(2) [of 1] k fits_advance [OF w(1), of "[0]" "k - 1"]
          advance_advance [OF w(1), of "[0]" ?part]
        by (simp add: WriteByte_emit WriteArray_emit p)
      have g: "PayloadWriter (\<lambda>w. snd (Writer_WriteArray ?part w)) (PayloadWriter (\<lambda>w. snd (Writer_WriteByte 0 w)) ?F)
          = PayloadWriter (\<lambda>w. snd (Writer_WriteArray ?part (snd (Writer_WriteByte 0 w)))) ?F"
        by (simp add: PayloadWriter_def)
      have "n - 1 - (k - 1) = n - k" "1 + of_nat (k - 1) = (of_nat k :: u32)"
        using k by (simp_all add: of_nat_diff)
      then show ?thesis
        using False True rec put [of "\<lambda>w. snd (Writer_WriteArray ?part (snd (Writer_WriteByte 0 w)))", OF f] piece g
        by (subst memory_frames.simps) (simp add: payload_size ReadByte0_def Let_def flip: k_def)
    next
      case nz: False
      let ?part = "map (\<lambda>i. mem (unat (a + of_nat i))) [0..<k]"
      have p: "piece = ?part"
      proof (rule nth_equalityI)
        show "length piece = length ?part" by (simp add: piece_def)
        fix i assume "i < length piece"
        then have i: "i < k" "unat a + i < 2 ^ 32" using k less.prems by (simp_all add: piece_def)
        then have "unat (a + of_nat i) = unat a + i" by (simp add: unat_word_ariths unat_of_nat)
        then show "piece ! i = ?part ! i" using i nz by (simp add: piece_def unat_eq_0)
      qed
      have "length ?part < 256" using k by simp
      then have f: "snd (Writer_WriteArray ?part ?w) = advance piece ?w"
        using w(2) [of k] k by (simp add: WriteArray_emit p)
      show ?thesis
        using False nz rec put [of "\<lambda>w. snd (Writer_WriteArray ?part w)", OF f] piece
        by (subst memory_frames.simps) (simp add: payload_size Let_def flip: k_def)
    qed
  qed
qed

text \<open>
  The ground keeps the frames of a report by their numbers and reads them off in order; \<open>h\<close> is the
  number of bytes before the data. It needs every frame once at least, in any order.
\<close>

definition ground_data :: "nat \<Rightarrow> nat \<Rightarrow> bytes list \<Rightarrow> bytes" where
  "ground_data h n frames =
     concat (map (\<lambda>k. the (map_of (map (\<lambda>f. (unat (header_seq f), drop h f)) frames) k)) [0..<n])"

lemma ground_data_complete:
  assumes "length cs \<le> 2 ^ 18" and "set received = set (numbered f 0 cs)"
    and f: "\<And>s c. header_seq (f s c) = take_bit 18 s" "\<And>s c. drop h (f s c) = c"
  shows "ground_data h (length cs) received = concat cs"
proof -
  have key: "unat (header_seq (f (0 + of_nat i) (cs ! i))) = i" if "i < length cs" for i
    using that assms(1) by (simp add: f unsigned_take_bit_eq take_bit_nat_eq_self_iff unat_of_nat)
  have data: "drop h x = cs ! unat (header_seq x) \<and> unat (header_seq x) < length cs" if "x \<in> set received" for x
  proof -
    have "x \<in> set (numbered f 0 cs)" using that assms(2) by simp
    then obtain i where "i < length cs" "x = f (0 + of_nat i) (cs ! i)"
      unfolding in_set_conv_nth by auto
    then show ?thesis using key [of i] f by simp
  qed
  have img: "(\<lambda>x. unat (header_seq x)) ` set received = {..<length cs}"
  proof (intro set_eqI iffI)
    fix i assume "i \<in> {..<length cs}"
    then have "f (0 + of_nat i) (cs ! i) \<in> set (numbered f 0 cs)" unfolding in_set_conv_nth by auto
    moreover have "unat (header_seq (f (0 + of_nat i) (cs ! i))) = i"
      using \<open>i \<in> {..<length cs}\<close> key by simp
    ultimately show "i \<in> (\<lambda>x. unat (header_seq x)) ` set received" using assms(2) by (metis image_eqI)
  qed (use data in auto)
  have m: "map (\<lambda>x. (unat (header_seq x), drop h x)) received
      = map (\<lambda>x. (unat (header_seq x), cs ! unat (header_seq x))) received"
    using data by (intro map_cong) auto
  have "map (\<lambda>k. the (map_of (map (\<lambda>x. (unat (header_seq x), drop h x)) received) k)) [0..<length cs]
      = map (\<lambda>k. cs ! k) [0..<length cs]"
    unfolding m using map_of_image [of _ "\<lambda>x. unat (header_seq x)" received "\<lambda>k. cs ! k"]
    by (intro map_cong) (auto simp: img)
  then show ?thesis unfolding ground_data_def by (simp only: map_nth)
qed

lemma chunked_count: "0 < n \<Longrightarrow> length (chunked n xs) \<le> m \<longleftrightarrow> length xs \<le> n * m"
proof (induction m arbitrary: xs)
  case 0
  then show ?case by (cases "xs = []") simp_all
next
  case (Suc m)
  then show ?case by (cases "xs = []") (auto simp: algebra_simps)
qed

lemma WriteState_image:
  assumes "parts_ok (ps_parts ps)"
  shows "WriteState True (replicate PersistentState_Size 0) ps = (True, parts_bytes (ps_parts ps))"
proof -
  let ?w = "Writer_Initialize (replicate PersistentState_Size (0 :: u8))"
  have w: "writer_wf ?w" "fits PersistentState_Size ?w"
    by (simp_all add: size_values writer_wf_def fits_def Writer_Initialize_def Writer_Reset_def)
  have "w_buf (advance (parts_bytes (ps_parts ps)) ?w) = parts_bytes (ps_parts ps)"
    using container.repr_length [OF assms] by (simp add: advance_def Writer_Initialize_def Writer_Reset_def)
  moreover have "w_valid (advance (parts_bytes (ps_parts ps)) ?w)"
    by (simp add: advance_def Writer_Initialize_def Writer_Reset_def size_values)
  ultimately show ?thesis
    by (simp add: WriteState_def Lockable_Write_def PersistentState_Write_def Writer_Status_def
        container.write_repr [OF assms w])
qed

text \<open>
  The report of the persistent state ends, and from its frames, received in any order and some
  of them more than once, the ground gets an image from which the parser of the flight software
  restores every part of the state, whatever object it is read into.
\<close>

theorem state_report_complete:
  assumes "parts_ok (ps_parts ps)"
  shows "\<exists>frames. GetPersistentState_Handle True ps parameters = Some frames \<and> length frames = 2
    \<and> (\<forall>f \<in> set frames. header_apid f = num_APID APID_PersistentState)
    \<and> (\<forall>received qs. set received = set frames \<longrightarrow> parts_ok qs \<longrightarrow>
         fst (read_parts (Reader_Initialize (ground_data HeaderSize 2 received)) qs) = ps_parts ps)"
proof -
  let ?b = "parts_bytes (ps_parts ps)"
  let ?cs = "chunked 232 ?b"
  let ?frames = "numbered (data_frame APID_PersistentState) 0 ?cs"
  have len: "length ?b = 281" using container.repr_length [OF assms] by (simp add: size_values)
  then have ne: "?b \<noteq> []" by auto
  have "length ?cs \<le> 2" "\<not> length ?cs \<le> 1" using len chunked_count [of 232 ?b] by simp_all
  then have two: "length ?cs = 2" by simp
  have run: "GetPersistentState_Handle True ps parameters = Some ?frames"
    using persistent_state_frames_run [of "Reader_Initialize ?b" 0] len ne
    by (simp add: GetPersistentState_Handle_def WriteState_image [OF assms])
  have data: "ground_data HeaderSize 2 received = ?b" if "set received = set ?frames" for received
    using ground_data_complete [OF _ that, of HeaderSize] two by (simp add: data_frame_fields)
  have read: "fst (read_parts (Reader_Initialize ?b) qs) = ps_parts ps" if "parts_ok qs" for qs
    using len ne by (subst container.read_repr [OF assms that]) (simp_all add: size_values)
  have "header_apid f = num_APID APID_PersistentState" if "f \<in> set ?frames" for f
    using that by (auto simp: in_set_conv_nth data_frame_fields)
  then show ?thesis using run two data read by auto
qed

theorem state_report_complete_witness:
  "\<exists>frames. GetPersistentState_Handle True (PersistentState_new [72, 105]) [1] = Some frames \<and> length frames = 2
    \<and> (\<forall>f \<in> set frames. header_apid f = num_APID APID_PersistentState)
    \<and> (\<forall>received qs. set received = set frames \<longrightarrow> parts_ok qs \<longrightarrow>
         fst (read_parts (Reader_Initialize (ground_data HeaderSize 2 received)) qs)
           = ps_parts (PersistentState_new [72, 105]))"
  by (rule state_report_complete) (simp add: default_ok MessageLength_def)

text \<open>
  The memory report ends, and from its frames, in any order and with repetitions, the ground gets
  the bytes it asked for, short of the last address of the memory: except that the byte at the
  address zero is always reported as zero. The numbers of the frames, of 18 bits, bound the length.
\<close>

theorem memory_report_complete:
  fixes offset sz :: u32
  defines "n \<equiv> min (unat sz) (2 ^ 32 - 1 - unat offset)"
  assumes "n \<le> 231 * 2 ^ 18"
  shows "\<exists>frames. ReadMemory_Handle mem (correlationId # le_bytes 4 offset @ le_bytes 4 sz) = Some frames
    \<and> (\<forall>f \<in> set frames. header_apid f = num_APID APID_MemoryContent \<and> f ! 3 = correlationId)
    \<and> (\<forall>received. set received = set frames \<longrightarrow> ground_data 4 (length frames) received
         = map (\<lambda>a. if a = 0 then 0 else mem a) [unat offset..<unat offset + n])"
proof -
  let ?data = "map (mem(0 := 0)) [unat offset..<unat offset + n]"
  let ?f = "\<lambda>s p. data_frame APID_MemoryContent s (correlationId # p)"
  let ?frames = "numbered ?f 0 (chunked 231 ?data)"
  have le: "offset \<le> 0xFFFFFFFF" using unsigned_less [of offset, where 'a = nat] by (simp add: word_le_nat_alt)
  have top: "unat (0xFFFFFFFF - offset) = 2 ^ 32 - 1 - unat offset"
    using unat_sub [OF le] by simp
  have n: "unat (min sz (0xFFFFFFFF - offset)) = n"
    unfolding n_def top [symmetric] by (simp add: min_def word_le_nat_alt)
  have sum: "unat offset + n < 2 ^ 32"
    using unsigned_less [of offset, where 'a = nat] unfolding n_def by simp
  have run: "ReadMemory_Handle mem (correlationId # le_bytes 4 offset @ le_bytes 4 sz) = Some ?frames"
    using memory_frames_run [OF sum, of mem correlationId 0]
    by (simp add: ReadMemory_Handle_def case_prod_beta Let_def left_simps taking_def byte_simps n)
  have count: "length (chunked 231 ?data) \<le> 2 ^ 18" using assms(2) by (subst chunked_count) simp_all
  have D: "header_seq (?f s c) = take_bit 18 s" "drop 4 (?f s c) = c"
    "header_apid (?f s c) = num_APID APID_MemoryContent" "?f s c ! 3 = correlationId" for s c
    using data_frame_fields [of APID_MemoryContent s "correlationId # c"] DownlinkFrame_bits(1) [of APID_MemoryContent s]
    by (simp_all add: data_frame_def nth_append)
  have fields: "header_apid f = num_APID APID_MemoryContent \<and> f ! 3 = correlationId" if f: "f \<in> set ?frames" for f
    using f D unfolding in_set_conv_nth by auto
  have whole: "ground_data 4 (length ?frames) received = ?data" if "set received = set ?frames" for received
    using ground_data_complete [OF count that D(1,2)] by simp
  have data: "map (\<lambda>a. if a = 0 then 0 else mem a) [unat offset..<unat offset + n] = ?data"
    by (simp add: fun_upd_def)
  show ?thesis unfolding data
    using fields whole by (intro exI [of _ ?frames] conjI run ballI allI impI) blast+
qed

theorem memory_report_complete_witness:
  "\<exists>frames. ReadMemory_Handle (\<lambda>a. of_nat a + 7) (0x2A # le_bytes 4 (0 :: u32) @ le_bytes 4 (300 :: u32)) = Some frames
    \<and> (\<forall>f \<in> set frames. header_apid f = num_APID APID_MemoryContent \<and> f ! 3 = 0x2A)
    \<and> (\<forall>received. set received = set frames \<longrightarrow> ground_data 4 (length frames) received
         = map (\<lambda>a. if a = 0 then 0 else of_nat a + 7) [unat (0 :: u32)..<unat (0 :: u32) + min (unat (300 :: u32)) (2 ^ 32 - 1 - unat (0 :: u32))])"
  by (rule memory_report_complete) simp

section \<open>What the error counter telecommand configures\<close>

fun config_entries :: "bytes \<Rightarrow> (u8 \<times> u8 \<times> u8 \<times> u8) list" where
  "config_entries (d # l # i # e # bs) = (d, l, i, e) # config_entries bs"
| "config_entries _ = []"

definition accepted_entries :: "bytes \<Rightarrow> (u8 \<times> u8 \<times> u8 \<times> u8) list" where
  "accepted_entries bs = takeWhile (\<lambda>(d, _). unat d \<le> MaxDevices) (config_entries bs)"

definition apply_entries :: "(u8 \<times> u8 \<times> u8 \<times> u8) list \<Rightarrow> u32 list \<Rightarrow> u32 list" where
  "apply_entries es c = fold (\<lambda>(d, l, i, e) c. c[unat d := Config l i e]) es c"

lemma config_entries_short: "length bs < 4 \<Longrightarrow> config_entries bs = []"
  by (cases bs rule: config_entries.cases) simp_all

lemma set_error_counters_loop_run:
  assumes "reader_wf r" and "remaining r = Some bs" and "length bs < 4 * n" and "length (fd_configuration f) = MaxDevices"
  shows "set_error_counters_loop n r f w =
    (if MaxDevices \<in> unat ` fst ` set (accepted_entries bs) then None
     else Some (f\<lparr>fd_configuration := apply_entries (accepted_entries bs) (fd_configuration f)\<rparr>,
                write_bytes (map fst (accepted_entries bs)) w))"
  using assms
proof (induction n arbitrary: r bs f w)
  case (Suc n)
  show ?case
  proof (cases "length bs < 4")
    case True
    have "\<not> Reader_Status (snd (Reader_ReadByte (snd (Reader_ReadByte (snd (Reader_ReadByte (snd (Reader_ReadByte r))))))))"
      using Suc.prems(1,2) True by (simp add: left_simps) arith
    then show ?thesis
      using True by (simp add: case_prod_beta Let_def accepted_entries_def config_entries_short apply_entries_def write_bytes_def)
  next
    case False
    then obtain d l i e bs' where bs: "bs = d # l # i # e # bs'"
      by (cases bs rule: config_entries.cases) auto
    let ?r = "snd (Reader_ReadByte (snd (Reader_ReadByte (snd (Reader_ReadByte (snd (Reader_ReadByte r)))))))"
    have r: "Reader_Status ?r" "reader_wf ?r" "remaining ?r = Some bs'"
      "fst (Reader_ReadByte r) = d" "fst (Reader_ReadByte (snd (Reader_ReadByte r))) = l"
      "fst (Reader_ReadByte (snd (Reader_ReadByte (snd (Reader_ReadByte r))))) = i"
      "fst (Reader_ReadByte (snd (Reader_ReadByte (snd (Reader_ReadByte (snd (Reader_ReadByte r))))))) = e"
      using Suc.prems(1,2) by (simp_all add: left_simps bs taking_def)
    have step: "set_error_counters_loop (Suc n) r f w =
        (if unat d > MaxDevices then Some (f, w)
         else if unat d = MaxDevices then None
         else set_error_counters_loop n ?r (f\<lparr>fd_configuration := (fd_configuration f)[unat d := Config l i e]\<rparr>)
                (snd (Writer_WriteByte d w)))"
      using Suc.prems(4) by (simp add: case_prod_beta Let_def r FDIR_Set_def)
    show ?thesis
    proof (cases "unat d < MaxDevices")
      case True
      show ?thesis unfolding step
        using True Suc.prems(3,4) by (subst Suc.IH [OF r(2,3)])
          (auto simp: bs accepted_entries_def apply_entries_def write_bytes_def)
    next
      case False
      then show ?thesis unfolding step
        by (cases "unat d = MaxDevices") (simp_all add: bs accepted_entries_def apply_entries_def write_bytes_def)
    qed
  qed
qed simp

lemma accepted_entries_length: "4 * length (accepted_entries bs) \<le> length bs"
proof -
  have "4 * length (config_entries bs) \<le> length bs"
    by (induction bs rule: config_entries.induct) simp_all
  then show ?thesis
    using length_takeWhile_le [of "\<lambda>(d, _). unat d \<le> MaxDevices" "config_entries bs"]
    unfolding accepted_entries_def by linarith
qed

lemma error_counter_config_run:
  assumes "length parameters \<le> 900" and "length (fd_configuration f) = MaxDevices"
  shows "SetErrorCounterConfig_Handle (correlationId # parameters) f =
    (if MaxDevices \<in> unat ` fst ` set (accepted_entries parameters) then None
     else Some (f\<lparr>fd_configuration := apply_entries (accepted_entries parameters) (fd_configuration f)\<rparr>,
            [data_frame APID_ErrorCounterConfiguration 0
              (correlationId # 0 # map fst (accepted_entries parameters))]))"
proof -
  let ?ps = "correlationId # parameters" and ?es = "accepted_entries parameters"
  let ?r = "snd (Reader_ReadByte (Reader_Initialize ?ps))"
  let ?F = "CorrelatedDownlinkFrame APID_ErrorCounterConfiguration 0 correlationId"
  let ?bs = "0 # map fst ?es"
  have r: "reader_wf ?r" "remaining ?r = Some parameters" "Reader_Status ?r"
    "fst (Reader_ReadByte (Reader_Initialize ?ps)) = correlationId"
    using assms(1) by (simp_all add: left_simps taking_def)
  have "length ?es \<le> 225" using assms(1) accepted_entries_length [of parameters] by linarith
  then have len: "length ?bs \<le> Correlated_MaxPayloadSize" by (simp add: payload_size)
  let ?w = "advance [correlationId] (df_payload (DownlinkFrame APID_ErrorCounterConfiguration 0))"
  have w: "writer_wf ?w" "fits m ?w \<longleftrightarrow> m \<le> 231" for m
    using wf_advance [OF payload_ready(1), of "[correlationId]"] fits_advance [OF payload_ready(1), of "[correlationId]" _ _ m]
    by (simp_all add: payload_ready payload_size)
  have "write_bytes ?bs ?w = advance ?bs ?w"
    using len w by (intro write_bytes_emit) (simp_all add: payload_size)
  from CorrelatedDownlinkFrame_payload [of ?bs "write_bytes ?bs", OF len this]
  have frame: "DownlinkFrame_Frame (?F\<lparr>df_payload := write_bytes (map fst ?es) (write_bytes [0] (df_payload ?F))\<rparr>)
      = data_frame APID_ErrorCounterConfiguration 0 (correlationId # ?bs)"
    by (simp add: PayloadWriter_def data_frame_def write_bytes_def)
  show ?thesis
    unfolding SetErrorCounterConfig_Handle_def Let_def case_prod_beta r(4)
    by (subst set_error_counters_loop_run [OF r(1,2) _ assms(2)])
      (simp_all add: r(3) frame)
qed

text \<open>
  The error counter configuration telecommand sets the limits of the listed devices, in their
  order, up to the first number above the number of devices, and names the devices it has set; but
  a device number equal to the number of devices passes its check, and the configuration is written
  one word past its end.
\<close>

theorem error_counter_config:
  assumes "length parameters \<le> 900" and "length (fd_configuration f) = MaxDevices"
  shows "SetErrorCounterConfig_Handle (correlationId # parameters) f =
    (if MaxDevices \<in> unat ` fst ` set (accepted_entries parameters) then None
     else Some (f\<lparr>fd_configuration := apply_entries (accepted_entries parameters) (fd_configuration f)\<rparr>,
            [data_frame APID_ErrorCounterConfiguration 0
              (correlationId # 0 # map fst (accepted_entries parameters))]))"
  using assms by (rule error_counter_config_run)

theorem error_counter_config_witness:
  "SetErrorCounterConfig_Handle [1, 3, 10, 5, 2, 14, 1, 1, 1] (FDIR_new 0) = None"
  using error_counter_config [of "[3, 10, 5, 2, 14, 1, 1, 1]" "FDIR_new 0" 1]
  by (simp add: FDIR_new_def MaxDevices_def accepted_entries_def)

end
