(* ===== verification/Program_Flash.thy ===== *)
theory Program_Flash
  imports Redundancy Crc Fram
begin

text \<open>
  The program flash: the S29JL driver (libs/drivers/s29jl/s29jl.cpp) and the table of program
  entries, boot loader copies and safe mode copies it stores (libs/drivers/program_flash). The
  low-level driver of the manufacturer is a parameter, the record \<open>lld\<close>; what the code relies on
  of it is the locale \<open>nor_device\<close>. Offsets are 32-bit and wrap as \<open>std::size_t\<close> does.
\<close>

section \<open>The driver\<close>

datatype FlashStatus =
    StatusUnknown | NotBusy | Busy | ExceededTimeLimits | SuspendStatus | WriteBufferAbort
  | StatusGetProblem | VerifyError | BytesPerOpWrong | EraseError | ProgramError | SectorLock
  | ProgramSuspend | ProgramSuspendError | EraseSuspend | EraseSuspendError | BusyInOtherBank

fun FlashStatus_num :: "FlashStatus \<Rightarrow> u8" where
  "FlashStatus_num StatusUnknown = 0"
| "FlashStatus_num NotBusy = 1"
| "FlashStatus_num Busy = 2"
| "FlashStatus_num ExceededTimeLimits = 3"
| "FlashStatus_num SuspendStatus = 4"
| "FlashStatus_num WriteBufferAbort = 5"
| "FlashStatus_num StatusGetProblem = 6"
| "FlashStatus_num VerifyError = 7"
| "FlashStatus_num BytesPerOpWrong = 8"
| "FlashStatus_num EraseError = 9"
| "FlashStatus_num ProgramError = 10"
| "FlashStatus_num SectorLock = 11"
| "FlashStatus_num ProgramSuspend = 12"
| "FlashStatus_num ProgramSuspendError = 13"
| "FlashStatus_num EraseSuspend = 14"
| "FlashStatus_num EraseSuspendError = 15"
| "FlashStatus_num BusyInOtherBank = 16"

text \<open>\<open>IFlashDriver\<close>, as the functions of an implementation on a state \<open>'s\<close>.\<close>

record 's IFlashDriver =
  fl_At :: "u32 \<Rightarrow> 's \<Rightarrow> u8"
  fl_ProgramByte :: "u32 \<Rightarrow> u8 \<Rightarrow> 's \<Rightarrow> FlashStatus \<times> 's"
  fl_Program :: "u32 \<Rightarrow> bytes \<Rightarrow> 's \<Rightarrow> FlashStatus \<times> 's"
  fl_EraseSector :: "u32 \<Rightarrow> 's \<Rightarrow> FlashStatus \<times> 's"

definition LargeSectorSize :: u32 where "LargeSectorSize = 64 * 1024"

record 's lld =
  lld_At :: "u32 \<Rightarrow> 's \<Rightarrow> u8"
  lld_StatusGet :: "u32 \<Rightarrow> 's \<Rightarrow> FlashStatus \<times> 's"
  lld_ProgramOp :: "u32 \<Rightarrow> u8 \<Rightarrow> 's \<Rightarrow> FlashStatus \<times> 's"
  lld_SectorEraseOp :: "u32 \<Rightarrow> 's \<Rightarrow> FlashStatus \<times> 's"

text \<open>\<open>polls\<close> is how often the timer of \<open>WaitForIdle\<close> is found not to have expired.\<close>

primrec WaitForIdle :: "'s lld \<Rightarrow> nat \<Rightarrow> u32 \<Rightarrow> 's \<Rightarrow> bool \<times> 's" where
  "WaitForIdle l 0 offset s = (let (dev_status, s) = lld_StatusGet l offset s in (dev_status = NotBusy, s))"
| "WaitForIdle l (Suc polls) offset s =
     (let (dev_status, s) = lld_StatusGet l offset s
      in if dev_status \<noteq> Busy then (dev_status = NotBusy, s) else WaitForIdle l polls offset s)"

text \<open>The first 64 KB have eight sectors of 8 KB; the loop stops at the first failure.\<close>

fun erase_small_sectors :: "'s lld \<Rightarrow> nat list \<Rightarrow> 's \<Rightarrow> FlashStatus \<times> 's" where
  "erase_small_sectors l [] s = (NotBusy, s)"
| "erase_small_sectors l (i # is) s =
     (let (d, s) = lld_SectorEraseOp l (of_nat i * 8192) s
      in if d \<noteq> NotBusy then (d, s) else erase_small_sectors l is s)"

definition FlashDriver_EraseSector :: "'s lld \<Rightarrow> nat \<Rightarrow> u32 \<Rightarrow> 's \<Rightarrow> FlashStatus \<times> 's" where
  "FlashDriver_EraseSector l polls sectorOffset s =
     (let (idle, s) = WaitForIdle l polls sectorOffset s
      in if \<not> idle then (Busy, s)
         else if sectorOffset = 0 then erase_small_sectors l [0..<8] s
         else lld_SectorEraseOp l sectorOffset s)"

definition FlashDriver_ProgramByte :: "'s lld \<Rightarrow> nat \<Rightarrow> u32 \<Rightarrow> u8 \<Rightarrow> 's \<Rightarrow> FlashStatus \<times> 's" where
  "FlashDriver_ProgramByte l polls offset v s =
     (let (idle, s) = WaitForIdle l polls offset s
      in if \<not> idle then (Busy, s) else lld_ProgramOp l offset v s)"

fun program_bytes :: "'s lld \<Rightarrow> u32 \<Rightarrow> bytes \<Rightarrow> 's \<Rightarrow> FlashStatus \<times> 's" where
  "program_bytes l a [] s = (NotBusy, s)"
| "program_bytes l a (v # vs) s =
     (let (d, s) = lld_ProgramOp l a v s
      in if d \<noteq> NotBusy then (d, s) else program_bytes l (a + 1) vs s)"

definition FlashDriver_Program :: "'s lld \<Rightarrow> nat \<Rightarrow> u32 \<Rightarrow> bytes \<Rightarrow> 's \<Rightarrow> FlashStatus \<times> 's" where
  "FlashDriver_Program l polls offset vs s =
     (let (idle, s) = WaitForIdle l polls offset s
      in if \<not> idle then (Busy, s) else program_bytes l offset vs s)"

text \<open>\<open>Initialize\<close> keeps one byte of the identifier and the low byte of a configuration word.\<close>

definition FlashDriver_Initialize ::
  "(u32 \<Rightarrow> 's \<Rightarrow> u32 \<times> 's) \<Rightarrow> ('s \<Rightarrow> u32 \<times> 's) \<Rightarrow> 's lld \<Rightarrow> nat \<Rightarrow> 's \<Rightarrow> (u32 \<times> u8) \<times> 's" where
  "FlashDriver_Initialize readCfiWord getDeviceId l polls s =
     (let (_, s) = WaitForIdle l polls 0 s;
          (deviceId, s) = getDeviceId s;
          (bootConfig, s) = readCfiWord 0x9E s
      in ((deviceId AND 0x00FF0000, ucast bootConfig), s))"

definition FlashDriver :: "'s lld \<Rightarrow> nat \<Rightarrow> 's IFlashDriver" where
  "FlashDriver l polls = \<lparr>fl_At = lld_At l, fl_ProgramByte = FlashDriver_ProgramByte l polls,
     fl_Program = FlashDriver_Program l polls, fl_EraseSector = FlashDriver_EraseSector l polls\<rparr>"

section \<open>Program entries\<close>

text \<open>Reading \<open>n\<close> bytes through the pointer that \<open>FlashSpan::Data\<close> returns.\<close>

definition flash_bytes :: "'s IFlashDriver \<Rightarrow> u32 \<Rightarrow> nat \<Rightarrow> 's \<Rightarrow> bytes" where
  "flash_bytes d a n s = map (\<lambda>i. fl_At d (a + of_nat i) s) [0..<n]"

definition ProgramEntry_Size :: u32 where "ProgramEntry_Size = 512 * 1024"

definition InFlashOffset :: "u8 \<Rightarrow> u32" where
  "InFlashOffset index = ucast index * ProgramEntry_Size"

definition Entry_length :: "u8 \<Rightarrow> u32" where "Entry_length index = InFlashOffset index + 0"
definition Entry_crc :: "u8 \<Rightarrow> u32" where "Entry_crc index = InFlashOffset index + 32"
definition Entry_isValid :: "u8 \<Rightarrow> u32" where "Entry_isValid index = InFlashOffset index + 64"
definition Entry_description :: "u8 \<Rightarrow> u32" where "Entry_description index = InFlashOffset index + 128"
definition Entry_program :: "u8 \<Rightarrow> u32" where "Entry_program index = InFlashOffset index + 1024"

definition ProgramEntry_IsValid :: "'s IFlashDriver \<Rightarrow> u8 \<Rightarrow> 's \<Rightarrow> bool" where
  "ProgramEntry_IsValid d index s \<longleftrightarrow> fl_At d (Entry_isValid index) s = 0xAA"

definition ProgramEntry_Length :: "'s IFlashDriver \<Rightarrow> u8 \<Rightarrow> 's \<Rightarrow> u32" where
  "ProgramEntry_Length d index s = le_word (flash_bytes d (Entry_length index) 4 s)"

definition ProgramEntry_Crc :: "'s IFlashDriver \<Rightarrow> u8 \<Rightarrow> 's \<Rightarrow> u16" where
  "ProgramEntry_Crc d index s = le_word (flash_bytes d (Entry_crc index) 2 s)"

definition ProgramEntry_Content :: "'s IFlashDriver \<Rightarrow> u8 \<Rightarrow> nat \<Rightarrow> 's \<Rightarrow> bytes" where
  "ProgramEntry_Content d index n s = flash_bytes d (Entry_program index) n s"

definition ProgramEntry_WholeEntry :: "'s IFlashDriver \<Rightarrow> u8 \<Rightarrow> 's \<Rightarrow> bytes" where
  "ProgramEntry_WholeEntry d index s = flash_bytes d (InFlashOffset index) (unat ProgramEntry_Size) s"

text \<open>What fits between the header of an entry and the next entry.\<close>

definition MaxProgram :: nat where "MaxProgram = 523264"

text \<open>\<open>Erase\<close>: sector by sector; a failure is reported with its offset.\<close>

function ProgramEntry_Erase_loop ::
  "'s IFlashDriver \<Rightarrow> u8 \<Rightarrow> nat \<Rightarrow> 's \<Rightarrow> (FlashStatus \<times> nat) option \<times> 's" where
  "ProgramEntry_Erase_loop d index sectorOffset s =
     (if sectorOffset < unat ProgramEntry_Size then
        (let (status, s) = fl_EraseSector d (InFlashOffset index + of_nat sectorOffset) s
         in if status \<noteq> NotBusy then (Some (status, sectorOffset), s)
            else ProgramEntry_Erase_loop d index (sectorOffset + 65536) s)
      else (None, s))"
  by pat_completeness auto
termination by (relation "measure (\<lambda>(_, _, sectorOffset, _). unat ProgramEntry_Size - sectorOffset)") auto

declare ProgramEntry_Erase_loop.simps [simp del]

definition ProgramEntry_Erase :: "'s IFlashDriver \<Rightarrow> u8 \<Rightarrow> 's \<Rightarrow> (FlashStatus \<times> nat) option \<times> 's" where
  "ProgramEntry_Erase d index s = ProgramEntry_Erase_loop d index 0 s"

text \<open>\<open>Description\<close> writes up to the first zero of \<open>description\<close> and then the zero.\<close>

fun ProgramEntry_SetDescription_loop ::
  "'s IFlashDriver \<Rightarrow> u32 \<Rightarrow> bytes \<Rightarrow> 's \<Rightarrow> FlashStatus \<times> 's" where
  "ProgramEntry_SetDescription_loop d a [] s = fl_ProgramByte d a 0 s"
| "ProgramEntry_SetDescription_loop d a (c # cs) s =
     (if c \<noteq> 0 then
        (let (r, s) = fl_ProgramByte d a c s
         in if r \<noteq> NotBusy then (r, s) else ProgramEntry_SetDescription_loop d (a + 1) cs s)
      else fl_ProgramByte d a 0 s)"

definition ProgramEntry_SetDescription ::
  "'s IFlashDriver \<Rightarrow> u8 \<Rightarrow> bytes \<Rightarrow> 's \<Rightarrow> FlashStatus \<times> 's" where
  "ProgramEntry_SetDescription d index description s =
     ProgramEntry_SetDescription_loop d (Entry_description index) description s"

definition ProgramEntry_SetCrc :: "'s IFlashDriver \<Rightarrow> u8 \<Rightarrow> u16 \<Rightarrow> 's \<Rightarrow> FlashStatus \<times> 's" where
  "ProgramEntry_SetCrc d index crc s =
     fl_Program d (Entry_crc index) [ucast (crc AND 0x00FF), ucast (drop_bit 8 (crc AND 0xFF00))] s"

definition ProgramEntry_MarkAsValid :: "'s IFlashDriver \<Rightarrow> u8 \<Rightarrow> 's \<Rightarrow> FlashStatus \<times> 's" where
  "ProgramEntry_MarkAsValid d index s = fl_ProgramByte d (Entry_isValid index) 0xAA s"

definition ProgramEntry_SetLength :: "'s IFlashDriver \<Rightarrow> u8 \<Rightarrow> u32 \<Rightarrow> 's \<Rightarrow> FlashStatus \<times> 's" where
  "ProgramEntry_SetLength d index len s =
     fl_Program d (Entry_length index)
       [ucast (len AND 0x000000FF), ucast (drop_bit 8 (len AND 0x0000FF00)),
        ucast (drop_bit 16 (len AND 0x00FF0000)), ucast (drop_bit 24 (len AND 0xFF000000))] s"

definition ProgramEntry_WriteContent ::
  "'s IFlashDriver \<Rightarrow> u8 \<Rightarrow> u32 \<Rightarrow> bytes \<Rightarrow> 's \<Rightarrow> FlashStatus \<times> 's" where
  "ProgramEntry_WriteContent d index offset content s = fl_Program d (Entry_program index + offset) content s"

definition ProgramEntry_CalculateCrc :: "'s IFlashDriver \<Rightarrow> u8 \<Rightarrow> 's \<Rightarrow> u16" where
  "ProgramEntry_CalculateCrc d index s =
     CRC_calc (ProgramEntry_Content d index (unat (ProgramEntry_Length d index s)) s)"

section \<open>Boot loader and safe mode copies\<close>

definition BootloaderCopy_Size :: nat where "BootloaderCopy_Size = 64 * 1024"
definition SafeModeCopy_Size :: nat where "SafeModeCopy_Size = 32 * 1024"

definition BootloaderCopy_base :: "u8 \<Rightarrow> u32" where
  "BootloaderCopy_base index = 3 * 1024 * 1024 + 64 * 1024 * ucast index"

definition SafeModeCopy_base :: "u8 \<Rightarrow> u32" where
  "SafeModeCopy_base index = 3 * 1024 * 1024 + 5 * of_nat BootloaderCopy_Size + 64 * 1024 * ucast index"

text \<open>Both kinds of copies have the same operations, on their base.\<close>

definition Copy_Erase :: "'s IFlashDriver \<Rightarrow> u32 \<Rightarrow> 's \<Rightarrow> FlashStatus \<times> 's" where
  "Copy_Erase d base s = fl_EraseSector d (base + 0) s"

definition Copy_Write :: "'s IFlashDriver \<Rightarrow> u32 \<Rightarrow> u32 \<Rightarrow> bytes \<Rightarrow> 's \<Rightarrow> FlashStatus \<times> 's" where
  "Copy_Write d base offset contents s = fl_Program d (base + offset) contents s"

definition Copy_WriteByte :: "'s IFlashDriver \<Rightarrow> u32 \<Rightarrow> u32 \<Rightarrow> u8 \<Rightarrow> 's \<Rightarrow> FlashStatus \<times> 's" where
  "Copy_WriteByte d base offset v s = fl_ProgramByte d (base + offset) v s"

definition BootloaderCopy_Content :: "'s IFlashDriver \<Rightarrow> u8 \<Rightarrow> 's \<Rightarrow> bytes" where
  "BootloaderCopy_Content d index s = flash_bytes d (BootloaderCopy_base index) BootloaderCopy_Size s"

definition SafeModeCopy_Content :: "'s IFlashDriver \<Rightarrow> u8 \<Rightarrow> 's \<Rightarrow> bytes" where
  "SafeModeCopy_Content d index s = flash_bytes d (SafeModeCopy_base index) SafeModeCopy_Size s"

definition BootloaderCopy_CalculateCrc :: "'s IFlashDriver \<Rightarrow> u8 \<Rightarrow> 's \<Rightarrow> u16" where
  "BootloaderCopy_CalculateCrc d index s = CRC_calc (BootloaderCopy_Content d index s)"

definition SafeModeCopy_CalculateCrc :: "'s IFlashDriver \<Rightarrow> u8 \<Rightarrow> 's \<Rightarrow> u16" where
  "SafeModeCopy_CalculateCrc d index s = CRC_calc (SafeModeCopy_Content d index s)"

definition EntriesCount :: nat where "EntriesCount = 6"

text \<open>\<open>BootTable::Initialize\<close> compares what the driver read; \<open>None\<close> is \<open>NotSupported\<close>.\<close>

definition ExpectedDeviceId :: u32 where "ExpectedDeviceId = 0x00530000"
definition ExpectedDeviceBootConfig :: u32 where "ExpectedDeviceBootConfig = 0x00000002"

definition BootTable_Initialize :: "u32 \<Rightarrow> u32 \<Rightarrow> bool \<times> u32 \<times> u8" where
  "BootTable_Initialize deviceId bootConfig =
     (\<not> (deviceId \<noteq> ExpectedDeviceId \<or> ucast (ucast bootConfig :: u8) \<noteq> ExpectedDeviceBootConfig),
      deviceId, ucast bootConfig)"

section \<open>What the code relies on of the device\<close>

definition flash_size :: nat where "flash_size = 4 * 1024 * 1024"

definition sector :: "nat \<Rightarrow> nat set" where
  "sector a = {a ..< a + 65536}"

text \<open>The sectors that one erase command of the device clears.\<close>

definition device_sector :: "nat \<Rightarrow> nat set" where
  "device_sector a = {a ..< a + (if a < 65536 then 8192 else 65536)}"

text \<open>
  A NOR flash with its low-level driver: an operation that reports \<open>NotBusy\<close> has done its work, and
  no operation changes other cells. Nothing is said of the cells an operation fails on.
\<close>

locale nor_device =
  fixes ok :: "'s \<Rightarrow> bool" and mem :: "'s \<Rightarrow> nat \<Rightarrow> u8" and l :: "'s lld"
  assumes lld_at: "ok s \<Longrightarrow> unat a < flash_size \<Longrightarrow> lld_At l a s = mem s (unat a)"
    and lld_status: "ok s \<Longrightarrow> unat a < flash_size \<Longrightarrow>
      ok (snd (lld_StatusGet l a s)) \<and> mem (snd (lld_StatusGet l a s)) = mem s"
    and lld_program_ok: "ok s \<Longrightarrow> unat a < flash_size \<Longrightarrow> ok (snd (lld_ProgramOp l a v s))"
    and lld_program_other: "ok s \<Longrightarrow> unat a < flash_size \<Longrightarrow> i \<noteq> unat a \<Longrightarrow>
      mem (snd (lld_ProgramOp l a v s)) i = mem s i"
    and lld_program_done: "ok s \<Longrightarrow> unat a < flash_size \<Longrightarrow> fst (lld_ProgramOp l a v s) = NotBusy \<Longrightarrow>
      mem (snd (lld_ProgramOp l a v s)) (unat a) = v"
    and lld_erase_ok: "ok s \<Longrightarrow> unat a < flash_size \<Longrightarrow> ok (snd (lld_SectorEraseOp l a s))"
    and lld_erase_other: "ok s \<Longrightarrow> unat a < flash_size \<Longrightarrow> i \<notin> device_sector (unat a) \<Longrightarrow>
      mem (snd (lld_SectorEraseOp l a s)) i = mem s i"
    and lld_erase_done: "ok s \<Longrightarrow> unat a < flash_size \<Longrightarrow> fst (lld_SectorEraseOp l a s) = NotBusy \<Longrightarrow>
      i \<in> device_sector (unat a) \<Longrightarrow> mem (snd (lld_SectorEraseOp l a s)) i = 0xFF"

text \<open>A device that is idle and in order: it clears bits, and erases.\<close>

locale working_nor_device = nor_device +
  assumes lld_status_idle: "ok s \<Longrightarrow> unat a < flash_size \<Longrightarrow> fst (lld_StatusGet l a s) = NotBusy"
    and lld_program_works: "ok s \<Longrightarrow> unat a < flash_size \<Longrightarrow> mem s (unat a) = 0xFF \<Longrightarrow>
      fst (lld_ProgramOp l a v s) = NotBusy"
    and lld_erase_works: "ok s \<Longrightarrow> unat a < flash_size \<Longrightarrow> fst (lld_SectorEraseOp l a s) = NotBusy"

text \<open>The same contract for the sectors and spans of the driver interface.\<close>

locale flash_driver =
  fixes ok :: "'s \<Rightarrow> bool" and mem :: "'s \<Rightarrow> nat \<Rightarrow> u8" and d :: "'s IFlashDriver"
  assumes at: "ok s \<Longrightarrow> unat a < flash_size \<Longrightarrow> fl_At d a s = mem s (unat a)"
    and program_byte: "fl_ProgramByte d a v s = fl_Program d a [v] s"
    and program_ok: "ok s \<Longrightarrow> unat a + length bs \<le> flash_size \<Longrightarrow> unat a < flash_size \<Longrightarrow>
      ok (snd (fl_Program d a bs s))"
    and program_other: "ok s \<Longrightarrow> unat a + length bs \<le> flash_size \<Longrightarrow> unat a < flash_size \<Longrightarrow>
      i \<notin> {unat a ..< unat a + length bs} \<Longrightarrow> mem (snd (fl_Program d a bs s)) i = mem s i"
    and program_done: "ok s \<Longrightarrow> unat a + length bs \<le> flash_size \<Longrightarrow> unat a < flash_size \<Longrightarrow>
      fst (fl_Program d a bs s) = NotBusy \<Longrightarrow>
      mem (snd (fl_Program d a bs s)) = overwrite (unat a) bs (mem s)"
    and erase_ok: "ok s \<Longrightarrow> unat a + 65536 \<le> flash_size \<Longrightarrow> unat a mod 65536 = 0 \<Longrightarrow>
      ok (snd (fl_EraseSector d a s))"
    and erase_other: "ok s \<Longrightarrow> unat a + 65536 \<le> flash_size \<Longrightarrow> unat a mod 65536 = 0 \<Longrightarrow> i \<notin> sector (unat a) \<Longrightarrow>
      mem (snd (fl_EraseSector d a s)) i = mem s i"
    and erase_done: "ok s \<Longrightarrow> unat a + 65536 \<le> flash_size \<Longrightarrow> unat a mod 65536 = 0 \<Longrightarrow>
      fst (fl_EraseSector d a s) = NotBusy \<Longrightarrow> i \<in> sector (unat a) \<Longrightarrow>
      mem (snd (fl_EraseSector d a s)) i = 0xFF"

locale working_flash_driver = flash_driver +
  assumes program_works: "ok s \<Longrightarrow> unat a + length bs \<le> flash_size \<Longrightarrow> unat a < flash_size \<Longrightarrow>
      (\<And>i. unat a \<le> i \<Longrightarrow> i < unat a + length bs \<Longrightarrow> mem s i = 0xFF) \<Longrightarrow> fst (fl_Program d a bs s) = NotBusy"
    and erase_works: "ok s \<Longrightarrow> unat a + 65536 \<le> flash_size \<Longrightarrow> unat a mod 65536 = 0 \<Longrightarrow>
      fst (fl_EraseSector d a s) = NotBusy"

section \<open>The driver keeps the contract\<close>

context nor_device
begin

lemma wait_keeps:
  assumes "ok s" and "unat a < flash_size"
  shows "ok (snd (WaitForIdle l polls a s)) \<and> mem (snd (WaitForIdle l polls a s)) = mem s"
  using assms
proof (induction polls arbitrary: s)
  case 0
  then show ?case using lld_status [of s a] by (simp add: case_prod_beta)
next
  case (Suc polls)
  then show ?case using lld_status [of s a] by (simp add: case_prod_beta)
qed

lemma small_steps: "unat (of_nat i * 8192 :: u32) = 8192 * i" if "i < 8"
  using that by (subst unat_word_ariths) (simp add: unat_of_nat)

lemma small_sectors:
  assumes "ok s" and "k \<le> 8"
  shows "ok (snd (erase_small_sectors l [k..<8] s))
    \<and> (\<forall>i. i \<notin> {8192 * k ..< 65536} \<longrightarrow> mem (snd (erase_small_sectors l [k..<8] s)) i = mem s i)
    \<and> (fst (erase_small_sectors l [k..<8] s) = NotBusy \<longrightarrow>
        (\<forall>i \<in> {8192 * k ..< 65536}. mem (snd (erase_small_sectors l [k..<8] s)) i = 0xFF))"
  using assms
proof (induction "8 - k" arbitrary: k s)
  case 0
  then show ?case by simp
next
  case (Suc n)
  then have k: "k < 8" by simp
  then have a: "unat (of_nat k * 8192 :: u32) = 8192 * k" by (rule small_steps)
  then have lt: "unat (of_nat k * 8192 :: u32) < flash_size" using k by (simp add: flash_size_def)
  have sec: "device_sector (8192 * k) = {8192 * k ..< 8192 * Suc k}" using k by (auto simp: device_sector_def)
  have u: "[k..<8] = k # [Suc k..<8]" using k by (rule upt_conv_Cons)
  define t where "t = snd (lld_SectorEraseOp l (of_nat k * 8192) s)"
  have t: "ok t" "i \<notin> {8192 * k ..< 8192 * Suc k} \<Longrightarrow> mem t i = mem s i" for i
    using lld_erase_ok [OF Suc.prems(1) lt] lld_erase_other [OF Suc.prems(1) lt, of i] by (simp_all add: t_def a sec)
  show ?case
  proof (cases "fst (lld_SectorEraseOp l (of_nat k * 8192) s) = NotBusy")
    case False
    then show ?thesis using t(1) k by (auto simp: u case_prod_beta t_def [symmetric] intro!: t(2))
  next
    case True
    have FF: "mem t i = 0xFF" if "i \<in> {8192 * k ..< 8192 * Suc k}" for i
      using lld_erase_done [OF Suc.prems(1) lt True, of i] that by (simp only: t_def a sec)
    have ih: "ok (snd (erase_small_sectors l [Suc k..<8] t))"
      "\<And>i. i \<notin> {8192 * Suc k ..< 65536} \<Longrightarrow> mem (snd (erase_small_sectors l [Suc k..<8] t)) i = mem t i"
      "\<And>i. fst (erase_small_sectors l [Suc k..<8] t) = NotBusy \<Longrightarrow> i \<in> {8192 * Suc k ..< 65536} \<Longrightarrow>
        mem (snd (erase_small_sectors l [Suc k..<8] t)) i = 0xFF"
      using Suc.hyps(1) [of "Suc k" t] Suc.hyps(2) t(1) k by auto
    have e: "erase_small_sectors l [k..<8] s = erase_small_sectors l [Suc k..<8] t"
      using True by (simp add: u case_prod_beta t_def)
    show ?thesis unfolding e
    proof (intro conjI allI ballI impI)
      fix i assume "i \<notin> {8192 * k..<65536}"
      then show "mem (snd (erase_small_sectors l [Suc k..<8] t)) i = mem s i"
        using ih(2) [of i] t(2) [of i] k by auto
    next
      fix i assume "fst (erase_small_sectors l [Suc k..<8] t) = NotBusy" "i \<in> {8192 * k..<65536}"
      then show "mem (snd (erase_small_sectors l [Suc k..<8] t)) i = 0xFF"
        using ih(2) [of i] ih(3) [of i] FF [of i] by (cases "i < 8192 * Suc k") auto
    qed (rule ih(1))
  qed
qed

lemma programs:
  assumes "ok s" and "unat a + length bs \<le> flash_size"
  shows "ok (snd (program_bytes l a bs s))
    \<and> (\<forall>i. i \<notin> {unat a ..< unat a + length bs} \<longrightarrow> mem (snd (program_bytes l a bs s)) i = mem s i)
    \<and> (fst (program_bytes l a bs s) = NotBusy \<longrightarrow>
        mem (snd (program_bytes l a bs s)) = overwrite (unat a) bs (mem s))"
  using assms
proof (induction bs arbitrary: a s)
  case Nil
  then show ?case by (auto simp: overwrite_def fun_eq_iff)
next
  case (Cons v bs)
  then have lt: "unat a < flash_size" by simp
  define t where "t = snd (lld_ProgramOp l a v s)"
  have t: "ok t" "i \<noteq> unat a \<Longrightarrow> mem t i = mem s i" for i
    using lld_program_ok [OF Cons.prems(1) lt] lld_program_other [OF Cons.prems(1) lt] by (simp_all add: t_def)
  show ?case
  proof (cases "fst (lld_ProgramOp l a v s) = NotBusy")
    case False
    then show ?thesis using t(1) by (auto simp: case_prod_beta t_def [symmetric] intro!: t(2))
  next
    case True
    have v: "mem t (unat a) = v" using lld_program_done [OF Cons.prems(1) lt True] by (simp add: t_def)
    have e: "program_bytes l a (v # bs) s = program_bytes l (a + 1) bs t"
      using True by (simp add: case_prod_beta t_def)
    show ?thesis
    proof (cases "bs = []")
      case True
      then show ?thesis unfolding e using t v by (auto simp: overwrite_def fun_eq_iff less_Suc_eq)
    next
      case False
      then have "unat a + 1 < 2 ^ 32" using Cons.prems(2) by (cases bs) (auto simp: flash_size_def)
      then have a: "unat (a + 1) = Suc (unat a)" by (subst unat_word_ariths) simp
      note ih = Cons.IH [of t "a + 1"]
      have o: "mem (snd (program_bytes l (a + 1) bs t)) i = mem t i"
        if "i \<notin> {Suc (unat a) ..< Suc (unat a) + length bs}" for i
        using ih t(1) Cons.prems(2) that by (simp add: a)
      have "mem (snd (program_bytes l (a + 1) bs t)) = overwrite (unat a) (v # bs) (mem s)"
        if "fst (program_bytes l (a + 1) bs t) = NotBusy"
      proof -
        have "mem (snd (program_bytes l (a + 1) bs t)) = overwrite (Suc (unat a)) bs (mem t)"
          using ih t(1) Cons.prems(2) that by (simp add: a)
        then show ?thesis using t(2) v by (auto simp: overwrite_def fun_eq_iff nth_Cons')
      qed
      then show ?thesis unfolding e using ih t Cons.prems(2) o by (auto simp: a)
    qed
  qed
qed

end

text \<open>Hence the driver is a \<open>flash_driver\<close>, however long it is willing to wait.\<close>

sublocale nor_device \<subseteq> driver: flash_driver ok mem "FlashDriver l polls" for polls
proof
  fix s :: 's and a :: u32 assume "ok s" "unat a < flash_size"
  then show "fl_At (FlashDriver l polls) a s = mem s (unat a)" by (simp add: FlashDriver_def lld_at)
next
  fix a :: u32 and v :: u8 and s :: 's
  show "fl_ProgramByte (FlashDriver l polls) a v s = fl_Program (FlashDriver l polls) a [v] s"
    by (simp add: FlashDriver_def FlashDriver_ProgramByte_def FlashDriver_Program_def case_prod_beta prod_eq_iff)
next
  fix s :: 's and a :: u32 and bs :: bytes and i :: nat
  assume s: "ok s" and n: "unat a + length bs \<le> flash_size" and a: "unat a < flash_size"
  let ?w = "WaitForIdle l polls a s" and ?p = "fl_Program (FlashDriver l polls) a bs s"
  note w = wait_keeps [OF s a, of polls]
  have p: "?p = (if fst ?w then program_bytes l a bs (snd ?w) else (Busy, snd ?w))"
    by (simp add: FlashDriver_def FlashDriver_Program_def case_prod_beta)
  note b = programs [of "snd ?w" a bs]
  show "ok (snd ?p)" using w b n by (simp add: p)
  show "i \<notin> {unat a ..< unat a + length bs} \<Longrightarrow> mem (snd ?p) i = mem s i"
    using w b n by (simp add: p)
  show "fst ?p = NotBusy \<Longrightarrow> mem (snd ?p) = overwrite (unat a) bs (mem s)"
    using w b n by (simp add: p split: if_splits)
next
  fix s :: 's and a :: u32 and i :: nat
  assume s: "ok s" and n: "unat a + 65536 \<le> flash_size" and m: "unat a mod 65536 = 0"
  let ?w = "WaitForIdle l polls a s" and ?e = "fl_EraseSector (FlashDriver l polls) a s"
  have a: "unat a < flash_size" using n by simp
  note w = wait_keeps [OF s a, of polls]
  have e: "?e = (if \<not> fst ?w then (Busy, snd ?w)
      else if a = 0 then erase_small_sectors l [0..<8] (snd ?w) else lld_SectorEraseOp l a (snd ?w))"
    by (simp add: FlashDriver_def FlashDriver_EraseSector_def case_prod_beta)
  have big: "a \<noteq> 0 \<Longrightarrow> device_sector (unat a) = sector (unat a)"
    using m by (auto simp: device_sector_def sector_def unat_eq_zero dest: dvd_imp_le)
  have small: "sector 0 = {8192 * 0 ..< 65536}" by (simp add: sector_def)
  note b = small_sectors [of "snd ?w" 0]
  show "ok (snd ?e)"
    unfolding e using w b lld_erase_ok [of "snd ?w" a] a by (cases "a = 0") simp_all
  show "i \<notin> sector (unat a) \<Longrightarrow> mem (snd ?e) i = mem s i"
    unfolding e using w b lld_erase_other [of "snd ?w" a i] a big by (cases "a = 0") (simp_all add: small)
  show "fst ?e = NotBusy \<Longrightarrow> i \<in> sector (unat a) \<Longrightarrow> mem (snd ?e) i = 0xFF"
    unfolding e using w b lld_erase_done [of "snd ?w" a i] a big
    by (cases "a = 0") (simp_all add: small split: if_splits)
qed

context working_nor_device
begin

lemma wait_works: "ok s \<Longrightarrow> unat a < flash_size \<Longrightarrow> fst (WaitForIdle l polls a s)"
  by (cases polls) (simp_all add: case_prod_beta lld_status_idle)

lemma small_sectors_work: "ok s \<Longrightarrow> k \<le> 8 \<Longrightarrow> fst (erase_small_sectors l [k..<8] s) = NotBusy"
proof (induction "8 - k" arbitrary: k s)
  case (Suc n)
  then have k: "k < 8" by simp
  then have lt: "unat (of_nat k * 8192 :: u32) < flash_size" by (simp add: small_steps flash_size_def)
  have "[k..<8] = k # [Suc k..<8]" using k by (rule upt_conv_Cons)
  then show ?case
    using Suc.hyps(1) [of "Suc k"] Suc.hyps(2) k lld_erase_works [OF Suc.prems(1) lt] lld_erase_ok [OF Suc.prems(1) lt]
    by (simp add: case_prod_beta)
qed simp

lemma programs_work:
  "ok s \<Longrightarrow> unat a + length bs \<le> flash_size \<Longrightarrow> (\<And>i. unat a \<le> i \<Longrightarrow> i < unat a + length bs \<Longrightarrow> mem s i = 0xFF) \<Longrightarrow>
    fst (program_bytes l a bs s) = NotBusy"
proof (induction bs arbitrary: a s)
  case (Cons v bs)
  then have lt: "unat a < flash_size" by simp
  note p = lld_program_works [OF Cons.prems(1) lt Cons.prems(3) [of "unat a"]]
  define t where "t = snd (lld_ProgramOp l a v s)"
  have t: "ok t" "i \<noteq> unat a \<Longrightarrow> mem t i = mem s i" for i
    using lld_program_ok [OF Cons.prems(1) lt] lld_program_other [OF Cons.prems(1) lt] by (simp_all add: t_def)
  show ?case
  proof (cases "bs = []")
    case True
    then show ?thesis using p by (simp add: case_prod_beta)
  next
    case False
    then have "unat a + 1 < 2 ^ 32" using Cons.prems(2) by (cases bs) (auto simp: flash_size_def)
    then have a: "unat (a + 1) = Suc (unat a)" by (subst unat_word_ariths) simp
    have "fst (program_bytes l (a + 1) bs t) = NotBusy"
      using t Cons.prems by (intro Cons.IH) (simp_all add: a)
    then show ?thesis using p by (simp add: case_prod_beta t_def)
  qed
qed simp

end

sublocale working_nor_device \<subseteq> working_driver: working_flash_driver ok mem "FlashDriver l polls" for polls
proof
  fix s :: 'a and a :: u32 and bs :: bytes
  assume s: "ok s" and n: "unat a + length bs \<le> flash_size" and a: "unat a < flash_size"
    and e: "\<And>i. unat a \<le> i \<Longrightarrow> i < unat a + length bs \<Longrightarrow> mem s i = 0xFF"
  note w = wait_keeps [OF s a, of polls]
  then show "fst (fl_Program (FlashDriver l polls) a bs s) = NotBusy"
    using programs_work [of "snd (WaitForIdle l polls a s)" a bs] n e
    by (simp add: FlashDriver_def FlashDriver_Program_def case_prod_beta wait_works [OF s a])
next
  fix s :: 'a and a :: u32
  assume s: "ok s" and n: "unat a + 65536 \<le> flash_size" and "unat a mod 65536 = 0"
  have a: "unat a < flash_size" using n by simp
  note w = wait_keeps [OF s a, of polls]
  then show "fst (fl_EraseSector (FlashDriver l polls) a s) = NotBusy"
    using small_sectors_work [of "snd (WaitForIdle l polls a s)" 0] lld_erase_works [of "snd (WaitForIdle l polls a s)" a] a
    by (cases "a = 0") (simp_all add: FlashDriver_def FlashDriver_EraseSector_def case_prod_beta wait_works [OF s a] wait_works [OF s])
qed

text \<open>
  The array of cells the data sheet describes: programming clears bits and fails when a bit would
  have to be set, erasing sets all bits of a sector.
\<close>

definition nor_lld :: "(nat \<Rightarrow> u8) lld" where
  "nor_lld =
     \<lparr>lld_At = \<lambda>a m. m (unat a), lld_StatusGet = \<lambda>a m. (NotBusy, m),
      lld_ProgramOp = \<lambda>a v m. (if m (unat a) AND v = v then NotBusy else ProgramError,
        m(unat a := m (unat a) AND v)),
      lld_SectorEraseOp = \<lambda>a m. (NotBusy,
        \<lambda>i. if unat a \<le> i \<and> i < unat a + (if unat a < 65536 then 8192 else 65536) then 0xFF else m i)\<rparr>"

lemma nor_lld_working: "working_nor_device (\<lambda>_. True) (\<lambda>m. m) nor_lld"
proof
  fix m :: "nat \<Rightarrow> u8" and a :: u32 and v :: u8
  have "0xFF AND v = v" by (rule bit_word_eqI) (simp add: bit_simps low_byte_mask)
  then show "m (unat a) = 0xFF \<Longrightarrow> fst (lld_ProgramOp nor_lld a v m) = NotBusy"
    by (simp add: nor_lld_def)
qed (auto simp: nor_lld_def device_sector_def split: if_splits)

interpretation nor: working_nor_device "\<lambda>_. True" "\<lambda>m. m" nor_lld
  by (rule nor_lld_working)

section \<open>Entries on a device that keeps the contract\<close>

lemma unat_add_small: "unat (a :: u32) + unat b < 2 ^ 32 \<Longrightarrow> unat (a + b) = unat a + unat b"
  by (subst unat_word_ariths) simp

lemma entry_offset:
  assumes "unat (i :: u8) < 6"
  shows "unat (InFlashOffset i) = 524288 * unat i"
proof -
  have "unat (ucast i :: u32) = unat i"
    using unsigned_less [of i, where 'a = nat] by (simp add: unsigned_ucast_eq take_bit_nat_eq_self)
  then show ?thesis using assms by (simp add: InFlashOffset_def ProgramEntry_Size_def unat_word_ariths)
qed

lemma entry_fields:
  assumes "unat (i :: u8) < 6"
  shows "unat (Entry_length i) = 524288 * unat i" "unat (Entry_crc i) = 524288 * unat i + 32"
    "unat (Entry_isValid i) = 524288 * unat i + 64" "unat (Entry_description i) = 524288 * unat i + 128"
    "unat (Entry_program i) = 524288 * unat i + 1024"
  using assms by (simp_all add: Entry_length_def Entry_crc_def Entry_isValid_def Entry_description_def
      Entry_program_def unat_add_small entry_offset)

context flash_driver
begin

lemma bytes_cells:
  assumes "ok s" and "unat a + n \<le> flash_size"
  shows "flash_bytes d a n s = cells (mem s) (unat a) n"
proof -
  have "fl_At d (a + of_nat i) s = mem s (unat a + i)" if "i < n" for i
  proof -
    have "unat (a + of_nat i) = unat a + i"
      using that assms(2) by (subst unat_add_small) (simp_all add: flash_size_def unat_of_nat)
    then show ?thesis using at [OF assms(1), of "a + of_nat i"] that assms(2) by simp
  qed
  then show ?thesis by (simp add: flash_bytes_def cells_def)
qed

end

lemma overwrite_Nil [simp]: "overwrite a [] m = m"
  by (auto simp: overwrite_def fun_eq_iff)

lemma overwrite_Cons: "overwrite a (v # bs) m = overwrite (Suc a) bs (m(a := v))"
  by (auto simp: overwrite_def fun_eq_iff nth_Cons')

lemma field_mask: "ucast (drop_bit (8 * n) (w AND push_bit (8 * n) (mask 8))) = byte_of n w"
  by (rule bit_word_eqI) (auto simp: bit_simps dest: bit_imp_le_length)

lemma crc_field_bytes: "[ucast (crc AND 0x00FF), ucast (drop_bit 8 (crc AND 0xFF00))] = le_bytes 2 (crc :: u16)"
proof -
  have "(0xFF00 :: u16) = push_bit (8 * 1) (mask 8)" "(0x00FF :: u16) = push_bit (8 * 0) (mask 8)"
    by (simp_all add: mask_eq_exp_minus_1 push_bit_eq_mult)
  then show ?thesis using field_mask [of 0 crc] field_mask [of 1 crc] by (simp add: le_bytes_def upt_rec)
qed

lemma length_field_bytes:
  "[ucast (w AND 0x000000FF), ucast (drop_bit 8 (w AND 0x0000FF00)), ucast (drop_bit 16 (w AND 0x00FF0000)),
    ucast (drop_bit 24 (w AND 0xFF000000))] = le_bytes 4 (w :: u32)"
proof -
  have "(0x000000FF :: u32) = push_bit (8 * 0) (mask 8)" "(0x0000FF00 :: u32) = push_bit (8 * 1) (mask 8)"
    "(0x00FF0000 :: u32) = push_bit (8 * 2) (mask 8)" "(0xFF000000 :: u32) = push_bit (8 * 3) (mask 8)"
    by (simp_all add: mask_eq_exp_minus_1 push_bit_eq_mult)
  then show ?thesis using field_mask [of 0 w] field_mask [of 1 w] field_mask [of 2 w] field_mask [of 3 w]
    by (simp add: le_bytes_def upt_rec eval_nat_numeral)
qed

definition entry_region :: "u8 \<Rightarrow> nat set" where
  "entry_region i = {524288 * unat i ..< 524288 * Suc (unat i)}"

lemma entry_regions_disjoint: "k \<in> entry_region i \<Longrightarrow> k \<in> entry_region j \<Longrightarrow> i = j"
proof -
  assume "k \<in> entry_region i" "k \<in> entry_region j"
  then have "unat i = k div 524288" "unat j = k div 524288"
    by (auto simp: entry_region_def intro!: div_nat_eqI [symmetric])
  then show "i = j" by (metis word_unat_eq_iff)
qed

context flash_driver
begin

text \<open>An operation that touches only the cells of \<open>A\<close>.\<close>

definition confined :: "nat set \<Rightarrow> 's \<Rightarrow> 's \<Rightarrow> bool" where
  "confined A s t \<longleftrightarrow> ok t \<and> (\<forall>k. k \<notin> A \<longrightarrow> mem t k = mem s k)"

lemma confined_ok: "confined A s t \<Longrightarrow> ok t"
  by (simp add: confined_def)

lemma confined_mem: "confined A s t \<Longrightarrow> k \<notin> A \<Longrightarrow> mem t k = mem s k"
  by (simp add: confined_def)

lemma confined_refl: "ok s \<Longrightarrow> confined A s s"
  by (simp add: confined_def)

lemma confined_trans: "confined A s t \<Longrightarrow> confined A t u \<Longrightarrow> confined A s u"
  by (simp add: confined_def)

lemma confined_mono: "confined A s t \<Longrightarrow> A \<subseteq> B \<Longrightarrow> confined B s t"
  by (auto simp: confined_def)

lemma program_confined:
  "ok s \<Longrightarrow> unat a + length bs \<le> flash_size \<Longrightarrow> unat a < flash_size \<Longrightarrow>
    confined {unat a ..< unat a + length bs} s (snd (fl_Program d a bs s))"
  by (simp add: confined_def program_ok program_other)

lemma erase_loop:
  assumes "ok s" and i: "unat i < 6" and "j \<le> 8"
  shows "confined {524288 * unat i + 65536 * j ..< 524288 * Suc (unat i)} s
      (snd (ProgramEntry_Erase_loop d i (65536 * j) s))
    \<and> (fst (ProgramEntry_Erase_loop d i (65536 * j) s) = None \<longrightarrow>
        (\<forall>k \<in> {524288 * unat i + 65536 * j ..< 524288 * Suc (unat i)}.
           mem (snd (ProgramEntry_Erase_loop d i (65536 * j) s)) k = 0xFF))"
  using assms(1,3)
proof (induction "8 - j" arbitrary: j s)
  case 0
  then show ?case
    by (simp add: ProgramEntry_Erase_loop.simps [of _ _ 524288] ProgramEntry_Size_def confined_refl)
next
  case (Suc n)
  then have j: "j < 8" by simp
  define a where "a = InFlashOffset i + of_nat (65536 * j)"
  have a: "unat a = 524288 * unat i + 65536 * j"
  proof -
    have "unat (of_nat (65536 * j) :: u32) = 65536 * j" by (subst unat_of_nat) (use j in simp)
    moreover have "524288 * unat i + 65536 * j < 2 ^ 32" using i j by simp
    ultimately show ?thesis
      unfolding a_def using unat_add_small [of "InFlashOffset i" "of_nat (65536 * j)"]
      by (simp only: entry_offset [OF i])
  qed
  have "unat a = 65536 * (8 * unat i + j)" by (simp add: a)
  then have m: "unat a mod 65536 = 0" by (simp only: mod_mult_self1_is_0)
  have n: "unat a + 65536 \<le> flash_size" using i j by (simp add: a flash_size_def)
  have sec: "sector (unat a) = {524288 * unat i + 65536 * j ..< 524288 * unat i + 65536 * Suc j}"
    by (auto simp: sector_def a)
  define t where "t = snd (fl_EraseSector d a s)"
  let ?A = "{524288 * unat i + 65536 * j ..< 524288 * Suc (unat i)}"
  have t: "confined (sector (unat a)) s t"
    using erase_ok [OF Suc.prems(1) n m] erase_other [OF Suc.prems(1) n m] by (simp add: confined_def t_def)
  then have tA: "confined ?A s t" by (rule confined_mono) (use j in \<open>auto simp: sec\<close>)
  have l: "ProgramEntry_Erase_loop d i (65536 * j) s
      = (if fst (fl_EraseSector d a s) = NotBusy then ProgramEntry_Erase_loop d i (65536 * Suc j) t
         else (Some (fst (fl_EraseSector d a s), 65536 * j), t))"
  proof -
    have "65536 * j < unat ProgramEntry_Size" using j by (simp add: ProgramEntry_Size_def)
    moreover have "65536 * j + 65536 = 65536 * Suc j" by simp
    ultimately show ?thesis
      by (simp only: ProgramEntry_Erase_loop.simps [of d i "65536 * j" s] a_def [symmetric] Let_def
          case_prod_beta if_True t_def [symmetric] if_not_P if_P split: if_split) simp
  qed
  show ?case
  proof (cases "fst (fl_EraseSector d a s) = NotBusy")
    case False
    then show ?thesis using tA by (simp add: l)
  next
    case True
    let ?u = "ProgramEntry_Erase_loop d i (65536 * Suc j) t"
    have ih: "confined {524288 * unat i + 65536 * Suc j ..< 524288 * Suc (unat i)} t (snd ?u)"
      "\<And>k. fst ?u = None \<Longrightarrow> k \<in> {524288 * unat i + 65536 * Suc j ..< 524288 * Suc (unat i)} \<Longrightarrow>
        mem (snd ?u) k = 0xFF"
      using Suc.hyps(1) [of "Suc j" t] Suc.hyps(2) j confined_ok [OF t] by auto
    have "mem (snd ?u) k = 0xFF" if "fst ?u = None" "k \<in> ?A" for k
    proof (cases "k \<in> sector (unat a)")
      case True
      then have "mem (snd ?u) k = mem t k" by (intro confined_mem [OF ih(1)]) (simp add: sec)
      then show ?thesis
        using True erase_done [OF Suc.prems(1) n m \<open>fst (fl_EraseSector d a s) = NotBusy\<close>] by (simp add: t_def)
    next
      case False
      then show ?thesis using ih(2) that by (auto simp: sec)
    qed
    moreover have "confined ?A s (snd ?u)"
      by (rule confined_trans [OF tA], rule confined_mono [OF ih(1)]) auto
    ultimately show ?thesis using True by (simp add: l)
  qed
qed

lemma entry_erase:
  assumes "ok s" and "unat i < 6"
  shows "confined (entry_region i) s (snd (ProgramEntry_Erase d i s))"
    and "fst (ProgramEntry_Erase d i s) = None \<Longrightarrow> k \<in> entry_region i \<Longrightarrow>
      mem (snd (ProgramEntry_Erase d i s)) k = 0xFF"
  using erase_loop [OF assms, of 0] by (auto simp: ProgramEntry_Erase_def entry_region_def)

end

context flash_driver
begin

lemma set_description:
  assumes "ok s" and "unat a + Suc (length cs) \<le> flash_size"
  shows "confined {unat a ..< unat a + Suc (length cs)} s (snd (ProgramEntry_SetDescription_loop d a cs s))
    \<and> (fst (ProgramEntry_SetDescription_loop d a cs s) = NotBusy \<longrightarrow>
        mem (snd (ProgramEntry_SetDescription_loop d a cs s))
          = overwrite (unat a) (takeWhile (\<lambda>c. c \<noteq> 0) cs @ [0]) (mem s))"
  using assms
proof (induction cs arbitrary: a s)
  case Nil
  then show ?case using program_confined [of s a "[0]"] by (simp add: program_byte program_done)
next
  case (Cons c cs)
  let ?A = "{unat a ..< unat a + Suc (length (c # cs))}"
  have a: "unat (a + 1) = Suc (unat a)"
    using Cons.prems(2) by (subst unat_add_small) (simp_all add: flash_size_def)
  have one: "confined ?A s (snd (fl_ProgramByte d a v s))" for v
    unfolding program_byte by (rule confined_mono [OF program_confined]) (use Cons.prems in auto)
  have did: "fst (fl_ProgramByte d a v s) = NotBusy \<Longrightarrow>
      mem (snd (fl_ProgramByte d a v s)) = overwrite (unat a) [v] (mem s)" for v
    unfolding program_byte by (rule program_done) (use Cons.prems in auto)
  define t where "t = snd (fl_ProgramByte d a c s)"
  let ?u = "ProgramEntry_SetDescription_loop d (a + 1) cs t"
  have ih: "confined {Suc (unat a) ..< Suc (unat a) + Suc (length cs)} t (snd ?u)"
    "fst ?u = NotBusy \<Longrightarrow> mem (snd ?u) = overwrite (Suc (unat a)) (takeWhile (\<lambda>c. c \<noteq> 0) cs @ [0]) (mem t)"
    using Cons.IH [of t "a + 1"] Cons.prems(2) confined_ok [OF one [of c]] by (simp_all add: t_def a)
  have "confined ?A s (snd ?u)"
    by (rule confined_trans [OF one [of c], folded t_def]) (rule confined_mono [OF ih(1)], auto)
  then show ?case
    using one did ih(2) by (auto simp: case_prod_beta t_def [symmetric] overwrite_Cons)
      (auto simp: t_def overwrite_Cons)
qed

end

end
