(* ===== verification/Program_Upload.thy ===== *)
theory Program_Upload
  imports Program_Flash Telecommunication
begin

text \<open>
  The telecommands that upload a program to the boot table (libs/obc/communication/telecommands/
  program_upload.cpp): erase entries, write a part of a program, and finalize. Each sends one frame,
  returned with the state of the flash. The lock of the boot table is waited for without a time limit.
\<close>

section \<open>Replies\<close>

definition upload_reply :: "bytes \<Rightarrow> bytes" where
  "upload_reply bs = plain_reply APID_ProgramUpload 0 bs"

definition entry_bit :: "nat \<Rightarrow> u8" where
  "entry_bit i = push_bit i 1"

definition EraseEntryError :: "u8 \<Rightarrow> nat \<Rightarrow> u32 \<Rightarrow> bytes" where
  "EraseEntryError errorCode i offset = upload_reply ([0, 1, errorCode, entry_bit i] @ le_bytes 4 offset)"

definition EraseEntryMalformedError :: bytes where
  "EraseEntryMalformedError = upload_reply [0, 1, 10]"

definition EraseEntrySuccess :: "u8 \<Rightarrow> bytes" where
  "EraseEntrySuccess entries = upload_reply [0, 0, entries]"

definition WriteProgramError :: "u8 \<Rightarrow> nat \<Rightarrow> u32 \<Rightarrow> bytes" where
  "WriteProgramError errorCode i offset = upload_reply ([1, 1, errorCode, entry_bit i] @ le_bytes 4 offset)"

definition WriteProgramMalformedError :: bytes where
  "WriteProgramMalformedError = upload_reply [1, 1, 10]"

definition WriteProgramSuccess :: "u8 \<Rightarrow> u32 \<Rightarrow> u8 \<Rightarrow> bytes" where
  "WriteProgramSuccess entries offset n = upload_reply ([1, 0, entries] @ le_bytes 4 offset @ [n])"

definition FinalizeEntryWriteError :: "u8 \<Rightarrow> nat \<Rightarrow> bytes" where
  "FinalizeEntryWriteError errorCode i = upload_reply [2, 1, errorCode, entry_bit i]"

definition FinalizeEntryCRCError :: "nat \<Rightarrow> u16 \<Rightarrow> bytes" where
  "FinalizeEntryCRCError i actualCrc = upload_reply ([2, 20, entry_bit i] @ le_bytes 2 actualCrc)"

definition FinalizeEntrySuccess :: "u8 \<Rightarrow> u16 \<Rightarrow> bytes" where
  "FinalizeEntrySuccess entries crc = upload_reply ([2, 0, entries] @ le_bytes 2 crc)"

definition FinalizeEntryMalformedError :: bytes where
  "FinalizeEntryMalformedError = upload_reply [2, 1, 10]"

section \<open>The handlers\<close>

fun erase_entries :: "'s IFlashDriver \<Rightarrow> u8 \<Rightarrow> nat list \<Rightarrow> 's \<Rightarrow> bytes \<times> 's" where
  "erase_entries d entries [] s = (EraseEntrySuccess entries, s)"
| "erase_entries d entries (i # is) s =
     (if bit entries i then
        (let (result, s) = ProgramEntry_Erase d (of_nat i) s
         in case result of
              Some (status, offset) \<Rightarrow> (EraseEntryError (FlashStatus_num status) i (of_nat offset), s)
            | None \<Rightarrow> erase_entries d entries is s)
      else erase_entries d entries is s)"

definition EraseBootTableEntry_Handle :: "'s IFlashDriver \<Rightarrow> bytes \<Rightarrow> 's \<Rightarrow> bytes \<times> 's" where
  "EraseBootTableEntry_Handle d parameters s =
     (if length parameters \<noteq> 1 then (EraseEntryMalformedError, s)
      else erase_entries d (parameters ! 0) [0..<EntriesCount] s)"

fun write_entries :: "'s IFlashDriver \<Rightarrow> u8 \<Rightarrow> u32 \<Rightarrow> bytes \<Rightarrow> nat list \<Rightarrow> 's \<Rightarrow> bytes \<times> 's" where
  "write_entries d entries offset content [] s =
     (WriteProgramSuccess entries offset (of_nat (length content)), s)"
| "write_entries d entries offset content (i # is) s =
     (if bit entries i then
        (let (r, s) = ProgramEntry_WriteContent d (of_nat i) offset content s
         in if r \<noteq> NotBusy then (WriteProgramError (FlashStatus_num r) i offset, s)
            else write_entries d entries offset content is s)
      else write_entries d entries offset content is s)"

definition WriteProgramPart_Handle :: "'s IFlashDriver \<Rightarrow> bytes \<Rightarrow> 's \<Rightarrow> bytes \<times> 's" where
  "WriteProgramPart_Handle d parameters s =
     (let r = Reader_Initialize parameters;
          (entries, r) = Reader_ReadByte r;
          (offset, r) = Reader_ReadDoubleWordLE r;
          (content, r) = Reader_ReadToEnd r
      in if \<not> Reader_Status r then (WriteProgramMalformedError, s)
         else write_entries d entries offset content [0..<EntriesCount] s)"

definition Worst :: "FlashStatus \<Rightarrow> FlashStatus \<Rightarrow> FlashStatus" where
  "Worst a b = (if a = NotBusy then b else a)"

definition finalize_header ::
  "'s IFlashDriver \<Rightarrow> u8 \<Rightarrow> u16 \<Rightarrow> u32 \<Rightarrow> bytes \<Rightarrow> 's \<Rightarrow> FlashStatus \<times> 's" where
  "finalize_header d i crc len description s =
     (let r = NotBusy;
          (x, s) = ProgramEntry_SetCrc d i crc s; r = Worst r x;
          (x, s) = ProgramEntry_SetLength d i len s; r = Worst r x;
          (x, s) = ProgramEntry_SetDescription d i description s; r = Worst r x;
          (x, s) = ProgramEntry_MarkAsValid d i s; r = Worst r x
      in (r, s))"

fun finalize_entries ::
  "'s IFlashDriver \<Rightarrow> u8 \<Rightarrow> u16 \<Rightarrow> u32 \<Rightarrow> bytes \<Rightarrow> nat list \<Rightarrow> 's \<Rightarrow> bytes \<times> 's" where
  "finalize_entries d entries crc len description [] s = (FinalizeEntrySuccess entries crc, s)"
| "finalize_entries d entries crc len description (i # is) s =
     (if bit entries i then
        (let (r, s) = finalize_header d (of_nat i) crc len description s
         in if r \<noteq> NotBusy then (FinalizeEntryWriteError (FlashStatus_num r) i, s)
            else
              (let actualCrc = ProgramEntry_CalculateCrc d (of_nat i) s
               in if actualCrc \<noteq> crc then (FinalizeEntryCRCError i actualCrc, s)
                  else finalize_entries d entries crc len description is s))
      else finalize_entries d entries crc len description is s)"

text \<open>
  The description is copied into an array of 30 characters that starts as zeros and is read up to its
  first zero. \<open>None\<close>: the copy, or that scan, leaves the array.
\<close>

definition FinalizeProgramEntry_Handle :: "'s IFlashDriver \<Rightarrow> bytes \<Rightarrow> 's \<Rightarrow> (bytes \<times> 's) option" where
  "FinalizeProgramEntry_Handle d parameters s =
     (let r = Reader_Initialize parameters;
          (entries, r) = Reader_ReadByte r;
          (len, r) = Reader_ReadDoubleWordLE r;
          (expectedCrc, r) = Reader_ReadWordLE r;
          (tmp, r) = Reader_ReadToEnd r;
          description = put_at 0 tmp (replicate 30 0)
      in if 30 < length tmp then None
         else if \<not> Reader_Status r then Some (FinalizeEntryMalformedError, s)
         else if 0 \<notin> set description then None
         else Some (finalize_entries d entries expectedCrc len description [0..<EntriesCount] s))"

section \<open>Which reply it was\<close>

lemma upload_reply_inj:
  assumes "length xs \<le> DownlinkFrame_MaxPayloadSize" and "length ys \<le> DownlinkFrame_MaxPayloadSize"
  shows "upload_reply xs = upload_reply ys \<longleftrightarrow> xs = ys"
  using assms reply_payload by (metis upload_reply_def)

lemma max_payload: "DownlinkFrame_MaxPayloadSize = 232"
  by (simp add: DownlinkFrame_MaxPayloadSize_def MaxDownlinkFrameSize_def HeaderSize_def)

lemmas reply_cases = upload_reply_inj max_payload EraseEntryError_def EraseEntrySuccess_def
  EraseEntryMalformedError_def WriteProgramError_def WriteProgramMalformedError_def WriteProgramSuccess_def
  FinalizeEntryWriteError_def FinalizeEntryCRCError_def FinalizeEntrySuccess_def FinalizeEntryMalformedError_def

section \<open>Finalizing\<close>

definition header_region :: "nat \<Rightarrow> nat set" where
  "header_region i = {524288 * i ..< 524288 * i + 1024}"

definition content_region :: "nat \<Rightarrow> nat set" where
  "content_region i = {524288 * i + 1024 ..< 524288 * Suc i}"

text \<open>The entry as the boot loader reads it.\<close>

definition finalized :: "'s IFlashDriver \<Rightarrow> u16 \<Rightarrow> u32 \<Rightarrow> nat \<Rightarrow> 's \<Rightarrow> bool" where
  "finalized d crc len i s \<longleftrightarrow> ProgramEntry_IsValid d (of_nat i) s \<and> ProgramEntry_Length d (of_nat i) s = len
     \<and> ProgramEntry_Crc d (of_nat i) s = crc \<and> ProgramEntry_CalculateCrc d (of_nat i) s = crc"

lemma unat_entry: "i < 6 \<Longrightarrow> unat (of_nat i :: u8) = i"
  by (simp add: unat_of_nat)

lemma cells_cong: "(\<And>k. a \<le> k \<Longrightarrow> k < a + n \<Longrightarrow> m k = m' k) \<Longrightarrow> cells m a n = cells m' a n"
  by (simp add: cells_def)

lemma cells_overwrite_other:
  "a + n \<le> b \<or> b + length bs \<le> a \<Longrightarrow> cells (overwrite b bs m) a n = cells m a n"
  by (rule cells_cong) (auto simp: overwrite_def)

context flash_driver
begin

lemma entry_reads:
  assumes "ok s" and "i < 6"
  shows "ProgramEntry_IsValid d (of_nat i) s \<longleftrightarrow> mem s (524288 * i + 64) = 0xAA"
    and "ProgramEntry_Length d (of_nat i) s = le_word (cells (mem s) (524288 * i) 4)"
    and "ProgramEntry_Crc d (of_nat i) s = le_word (cells (mem s) (524288 * i + 32) 2)"
    and "n \<le> MaxProgram \<Longrightarrow> ProgramEntry_Content d (of_nat i) n s = cells (mem s) (524288 * i + 1024) n"
  using assms by (simp_all add: ProgramEntry_IsValid_def ProgramEntry_Length_def ProgramEntry_Crc_def
      ProgramEntry_Content_def at bytes_cells entry_fields unat_entry flash_size_def MaxProgram_def)

lemma content_same:
  assumes "ok s" and "ok t" and "i < 6" and "n \<le> MaxProgram"
    and "\<And>k. k \<in> content_region i \<Longrightarrow> mem t k = mem s k"
  shows "ProgramEntry_Content d (of_nat i) n t = ProgramEntry_Content d (of_nat i) n s"
  unfolding entry_reads(4) [OF assms(1,3,4)] entry_reads(4) [OF assms(2,3,4)]
  by (rule cells_cong, rule assms(5)) (use assms(4) in \<open>auto simp: content_region_def MaxProgram_def\<close>)

lemma finalized_same:
  assumes "finalized d crc len i s" and "ok s" and "ok t" and "i < 6" and "unat len \<le> MaxProgram"
    and same: "\<And>k. k \<in> header_region i \<union> content_region i \<Longrightarrow> mem t k = mem s k"
  shows "finalized d crc len i t"
proof -
  have "mem t (524288 * i + 64) = mem s (524288 * i + 64)"
    by (rule same) (simp add: header_region_def)
  moreover have "cells (mem t) (524288 * i) 4 = cells (mem s) (524288 * i) 4"
    "cells (mem t) (524288 * i + 32) 2 = cells (mem s) (524288 * i + 32) 2"
    by (rule cells_cong, rule same, simp add: header_region_def)+
  moreover have "ProgramEntry_Content d (of_nat i) (unat len) t = ProgramEntry_Content d (of_nat i) (unat len) s"
    by (rule content_same) (use assms in auto)
  ultimately show ?thesis
    using assms(1-4) by (auto simp: finalized_def entry_reads ProgramEntry_CalculateCrc_def)
qed

lemma header_written:
  assumes "ok s" and i: "i < 6" and n: "length description \<le> 30"
  shows "confined (header_region i) s (snd (finalize_header d (of_nat i) crc len description s))"
    and "fst (finalize_header d (of_nat i) crc len description s) = NotBusy \<Longrightarrow>
      (let t = snd (finalize_header d (of_nat i) crc len description s)
       in ProgramEntry_IsValid d (of_nat i) t \<and> ProgramEntry_Length d (of_nat i) t = len
        \<and> ProgramEntry_Crc d (of_nat i) t = crc)"
proof -
  let ?i = "of_nat i :: u8"
  define p1 where "p1 = ProgramEntry_SetCrc d ?i crc s"
  define p2 where "p2 = ProgramEntry_SetLength d ?i len (snd p1)"
  define p3 where "p3 = ProgramEntry_SetDescription d ?i description (snd p2)"
  define p4 where "p4 = ProgramEntry_MarkAsValid d ?i (snd p3)"
  note P1 = p1_def [unfolded ProgramEntry_SetCrc_def crc_field_bytes]
  note P2 = p2_def [unfolded ProgramEntry_SetLength_def length_field_bytes]
  note P3 = p3_def [unfolded ProgramEntry_SetDescription_def]
  note P4 = p4_def [unfolded ProgramEntry_MarkAsValid_def program_byte]
  have f: "unat (Entry_crc ?i) = 524288 * i + 32" "unat (Entry_length ?i) = 524288 * i"
    "unat (Entry_description ?i) = 524288 * i + 128" "unat (Entry_isValid ?i) = 524288 * i + 64"
    using i by (simp_all add: entry_fields unat_entry)
  have b: "524288 * i + 1024 \<le> flash_size" using i by (simp add: flash_size_def)
  have c1: "confined (header_region i) s (snd p1)"
    unfolding P1 by (rule confined_mono [OF program_confined]) (use assms(1) b in \<open>auto simp: f header_region_def\<close>)
  note o1 = confined_ok [OF c1]
  have c2: "confined (header_region i) (snd p1) (snd p2)"
    unfolding P2 by (rule confined_mono [OF program_confined]) (use o1 b in \<open>auto simp: f header_region_def\<close>)
  note o2 = confined_ok [OF c2]
  note D = set_description [of "snd p2" "Entry_description ?i" description, folded P3, OF o2]
  have "unat (Entry_description ?i) + Suc (length description) \<le> flash_size" using b n by (simp add: f)
  note D = D [OF this]
  have c3: "confined (header_region i) (snd p2) (snd p3)"
    by (rule confined_mono [OF conjunct1 [OF D]]) (use n in \<open>auto simp: f header_region_def\<close>)
  note o3 = confined_ok [OF c3]
  have c4: "confined (header_region i) (snd p3) (snd p4)"
    unfolding P4 by (rule confined_mono [OF program_confined]) (use o3 b in \<open>auto simp: f header_region_def\<close>)
  have r: "finalize_header d ?i crc len description s
      = (Worst (Worst (Worst (Worst NotBusy (fst p1)) (fst p2)) (fst p3)) (fst p4), snd p4)"
    by (simp add: finalize_header_def case_prod_beta Let_def p1_def p2_def p3_def p4_def)
  show "confined (header_region i) s (snd (finalize_header d ?i crc len description s))"
    using confined_trans [OF confined_trans [OF confined_trans [OF c1 c2] c3] c4] by (simp add: r)
  show "let t = snd (finalize_header d ?i crc len description s)
       in ProgramEntry_IsValid d ?i t \<and> ProgramEntry_Length d ?i t = len \<and> ProgramEntry_Crc d ?i t = crc"
    if "fst (finalize_header d ?i crc len description s) = NotBusy"
  proof -
    have w: "Worst a b = NotBusy \<longleftrightarrow> a = NotBusy \<and> b = NotBusy" for a b by (auto simp: Worst_def)
    have nb: "fst p1 = NotBusy" "fst p2 = NotBusy" "fst p3 = NotBusy" "fst p4 = NotBusy"
      using that by (simp_all add: r w)
    have m1: "mem (snd p1) = overwrite (524288 * i + 32) (le_bytes 2 crc) (mem s)"
      using program_done [of s "Entry_crc ?i" "le_bytes 2 crc"] assms(1) b nb(1) by (simp add: P1 f)
    have m2: "mem (snd p2) = overwrite (524288 * i) (le_bytes 4 len) (mem (snd p1))"
      using program_done [of "snd p1" "Entry_length ?i" "le_bytes 4 len"] o1 b nb(2) by (simp add: P2 f)
    have m3: "mem (snd p3) = overwrite (524288 * i + 128) (takeWhile (\<lambda>c. c \<noteq> 0) description @ [0]) (mem (snd p2))"
      using D nb(3) by (simp add: f)
    have m4: "mem (snd p4) = overwrite (524288 * i + 64) [0xAA] (mem (snd p3))"
      using program_done [of "snd p3" "Entry_isValid ?i" "[0xAA]"] o3 b nb(4) by (simp add: P4 f)
    have "cells (mem (snd p4)) (524288 * i) 4 = le_bytes 4 len"
      using cells_overwrite [of "524288 * i" "le_bytes 4 len" "mem (snd p1)"]
      by (simp add: m4 m3 m2 cells_overwrite_other)
    moreover have "cells (mem (snd p4)) (524288 * i + 32) 2 = le_bytes 2 crc"
      using cells_overwrite [of "524288 * i + 32" "le_bytes 2 crc" "mem s"]
      by (simp add: m4 m3 m2 m1 cells_overwrite_other)
    moreover have "mem (snd p4) (524288 * i + 64) = 0xAA" by (simp add: m4 overwrite_def)
    ultimately show ?thesis
      using confined_ok [OF c4] i by (simp add: r entry_reads byte_simps)
  qed
qed

end

definition selected_headers :: "u8 \<Rightarrow> nat list \<Rightarrow> nat set" where
  "selected_headers entries is = (\<Union>i \<in> {i \<in> set is. bit entries i}. header_region i)"

lemma region_index: "k \<in> header_region i \<union> content_region i \<Longrightarrow> k div 524288 = i"
  by (intro div_nat_eqI) (auto simp: header_region_def content_region_def)

lemma regions_apart:
  assumes "k \<in> header_region i \<union> content_region i" and "i \<noteq> j"
  shows "k \<notin> header_region j"
proof -
  have "k div 524288 = i" using assms(1) by (rule region_index)
  moreover have "k div 524288 = j" if "k \<in> header_region j" using that by (intro region_index) simp
  ultimately show ?thesis using assms(2) by auto
qed

lemma content_apart:
  assumes "k \<in> content_region i"
  shows "k \<notin> header_region j"
proof (cases "i = j")
  case True
  then show ?thesis using assms by (auto simp: header_region_def content_region_def)
next
  case False
  then show ?thesis using regions_apart [of k i j] assms by simp
qed

lemma selected_Cons:
  "selected_headers entries (j # js) =
     (if bit entries j then header_region j \<union> selected_headers entries js else selected_headers entries js)"
  by (auto simp: selected_headers_def)

lemma selected_apart:
  assumes "k \<in> header_region i \<union> content_region i" and "i \<notin> set is"
  shows "k \<notin> selected_headers entries is"
proof
  assume "k \<in> selected_headers entries is"
  then obtain x where "x \<in> set is" "k \<in> header_region x" by (auto simp: selected_headers_def)
  then show False using regions_apart [OF assms(1), of x] assms(2) by auto
qed

lemma content_selected: "k \<in> content_region i \<Longrightarrow> k \<notin> selected_headers entries is"
  using content_apart by (auto simp: selected_headers_def)

lemma entry_bit_inj:
  assumes "i < 8" and "entry_bit j = entry_bit i"
  shows "j = i"
proof -
  have "bit (entry_bit i) i" using assms(1) by (simp add: entry_bit_def bit_simps)
  then have "bit (entry_bit j) i" using assms(2) by simp
  then show ?thesis by (simp add: entry_bit_def bit_simps)
qed

context flash_driver
begin

text \<open>The loop touches the headers of the selected entries only.\<close>

lemma entries_confined:
  assumes "ok s" and "set is \<subseteq> {..<6}" and "length description \<le> 30"
  shows "confined (selected_headers entries is) s (snd (finalize_entries d entries crc len description is s))"
  using assms(1,2)
proof (induction "is" arbitrary: s)
  case Nil
  then show ?case by (simp add: confined_refl)
next
  case (Cons j js)
  let ?t = "snd (finalize_header d (of_nat j) crc len description s)"
  have t: "confined (header_region j) s ?t" using Cons.prems assms(3) by (intro header_written(1)) auto
  have t': "confined (header_region j \<union> selected_headers entries js) s ?t"
    using t by (rule confined_mono) simp
  have "confined (selected_headers entries js) ?t (snd (finalize_entries d entries crc len description js ?t))"
    using Cons.IH [OF confined_ok [OF t]] Cons.prems by simp
  then have "confined (header_region j \<union> selected_headers entries js) s
      (snd (finalize_entries d entries crc len description js ?t))"
    by (intro confined_trans [OF t']) (rule confined_mono, assumption, simp)
  then show ?case
    using Cons t' by (simp add: selected_Cons case_prod_beta Let_def)
qed

text \<open>If it answers that all is well, every selected entry is finalized.\<close>

lemma entries_finalized:
  assumes "ok s" and "set is \<subseteq> {..<6}" and "distinct is" and "length description \<le> 30"
    and len: "unat len \<le> MaxProgram"
    and "fst (finalize_entries d entries crc len description is s) = FinalizeEntrySuccess entries crc"
    and "i \<in> set is" and "bit entries i"
  shows "finalized d crc len i (snd (finalize_entries d entries crc len description is s))"
  using assms(1-3,6,7)
proof (induction "is" arbitrary: s)
  case (Cons j js)
  let ?F = "finalize_header d (of_nat j) crc len description s"
  let ?t = "snd ?F"
  show ?case
  proof (cases "bit entries j")
    case False
    then show ?thesis using Cons \<open>bit entries i\<close> by auto
  next
    case True
    have j: "j < 6" using Cons.prems(2) by simp
    have r: "fst ?F = NotBusy" "ProgramEntry_CalculateCrc d (of_nat j) ?t = crc"
      using Cons.prems(4) True by (auto simp: case_prod_beta Let_def reply_cases split: if_splits)
    have e: "finalize_entries d entries crc len description (j # js) s
        = finalize_entries d entries crc len description js ?t"
      using True r by (simp add: case_prod_beta Let_def)
    have ok: "ok ?t" using confined_ok [OF header_written(1)] Cons.prems(1) j assms(4) by blast
    show ?thesis
    proof (cases "i = j")
      case False
      then show ?thesis using Cons.IH [OF ok] Cons.prems unfolding e by auto
    next
      case True
      have c: "confined (selected_headers entries js) ?t (snd (finalize_entries d entries crc len description js ?t))"
        by (rule entries_confined) (use ok Cons.prems assms(4) in auto)
      have "finalized d crc len i ?t"
        using header_written(2) [OF Cons.prems(1) j assms(4) r(1)] r(2) True by (simp add: finalized_def Let_def)
      then show ?thesis unfolding e
        by (rule finalized_same [OF _ ok confined_ok [OF c]], simp_all add: j True len)
          (rule confined_mem [OF c], rule selected_apart [of _ j], use Cons.prems(3) in auto)
    qed
  qed
qed simp

text \<open>If it reports a wrong checksum, that entry is marked valid.\<close>

lemma entries_wrong_crc:
  assumes "ok s" and "set is \<subseteq> {..<6}" and "length description \<le> 30"
    and "fst (finalize_entries d entries crc len description is s) = FinalizeEntryCRCError i actual" and "i < 6"
  shows "actual \<noteq> crc \<and>
    ProgramEntry_IsValid d (of_nat i) (snd (finalize_entries d entries crc len description is s))"
  using assms(1,2,4)
proof (induction "is" arbitrary: s)
  case Nil
  then show ?case by (simp add: reply_cases)
next
  case (Cons j js)
  let ?F = "finalize_header d (of_nat j) crc len description s"
  let ?t = "snd ?F"
  show ?case
  proof (cases "bit entries j")
    case False
    then show ?thesis using Cons by auto
  next
    case True
    have j: "j < 6" using Cons.prems(2) by simp
    have r: "fst ?F = NotBusy" 
      using Cons.prems(3) True by (auto simp: case_prod_beta Let_def reply_cases split: if_splits)
    have ok: "ok ?t" using confined_ok [OF header_written(1)] Cons.prems(1) j assms(3) by blast
    show ?thesis
    proof (cases "ProgramEntry_CalculateCrc d (of_nat j) ?t = crc")
      case True
      then have "finalize_entries d entries crc len description (j # js) s
        = finalize_entries d entries crc len description js ?t"
        using \<open>bit entries j\<close> r by (simp add: case_prod_beta Let_def)
      then show ?thesis using Cons.IH [OF ok] Cons.prems by simp
    next
      case False
      have e: "finalize_entries d entries crc len description (j # js) s
          = (FinalizeEntryCRCError j (ProgramEntry_CalculateCrc d (of_nat j) ?t), ?t)"
        using True r False by (simp add: case_prod_beta Let_def)
      have p: "le_bytes 2 v = le_bytes 2 w \<longleftrightarrow> v = w" for v w :: u16
        using le_bytes_inj [of 2 v w] by auto
      have q: "entry_bit j = entry_bit i \<longleftrightarrow> j = i"
        using entry_bit_inj [of i j] assms(5) by auto
      have "j = i" "actual = ProgramEntry_CalculateCrc d (of_nat j) ?t"
        using Cons.prems(3) unfolding e by (auto simp: reply_cases p q)
      then show ?thesis
        using header_written(2) [OF Cons.prems(1) j assms(3) r] False unfolding e by (simp add: Let_def)
    qed
  qed
qed

end

section \<open>Writing the parts\<close>

text \<open>The bytes of an entry's content, by their offset.\<close>

definition content_at :: "(nat \<Rightarrow> u8) \<Rightarrow> nat \<Rightarrow> nat \<Rightarrow> u8" where
  "content_at m i k = m (524288 * i + 1024 + k)"

definition selected_contents :: "u8 \<Rightarrow> nat list \<Rightarrow> nat set" where
  "selected_contents entries is = (\<Union>i \<in> {i \<in> set is. bit entries i}. content_region i)"

lemma content_region_iff: "524288 * i + 1024 + k \<in> content_region j \<longleftrightarrow> i = j" if "k < MaxProgram"
proof
  assume "524288 * i + 1024 + k \<in> content_region j"
  then have "(524288 * i + 1024 + k) div 524288 = j" by (intro div_nat_eqI) (auto simp: content_region_def)
  moreover have "(524288 * i + 1024 + k) div 524288 = i" using that by (intro div_nat_eqI) (auto simp: MaxProgram_def)
  ultimately show "i = j" by simp
qed (use that in \<open>simp add: content_region_def MaxProgram_def\<close>)

lemma contents_apart: "k \<in> header_region i \<Longrightarrow> k \<notin> selected_contents entries is"
  using content_apart by (auto simp: selected_contents_def)

lemma selected_contents_Cons:
  "selected_contents entries (j # js) =
     (if bit entries j then content_region j \<union> selected_contents entries js else selected_contents entries js)"
  by (auto simp: selected_contents_def)

lemma content_selected_iff:
  "k < MaxProgram \<Longrightarrow> 524288 * i + 1024 + k \<in> selected_contents entries is \<longleftrightarrow> i \<in> set is \<and> bit entries i"
  by (auto simp: selected_contents_def content_region_iff)

context flash_driver
begin

lemma write_content:
  assumes "ok s" and "i < 6" and n: "unat offset + length part \<le> MaxProgram"
  defines "r \<equiv> ProgramEntry_WriteContent d (of_nat i) offset part s"
  shows "confined (content_region i) s (snd r)"
    and "fst r = NotBusy \<Longrightarrow> k < MaxProgram \<Longrightarrow> content_at (mem (snd r)) i k =
      (if unat offset \<le> k \<and> k < unat offset + length part then part ! (k - unat offset) else content_at (mem s) i k)"
proof -
  have a: "unat (Entry_program (of_nat i) + offset) = 524288 * i + 1024 + unat offset"
    using assms(2) n by (subst unat_add_small) (simp_all add: entry_fields unat_entry MaxProgram_def)
  have c: "confined {524288 * i + 1024 + unat offset ..< 524288 * i + 1024 + unat offset + length part} s (snd r)"
    if "unat offset < MaxProgram"
    using program_confined [of s "Entry_program (of_nat i) + offset" part] assms(1,2) n that
    by (simp add: r_def ProgramEntry_WriteContent_def a flash_size_def MaxProgram_def)
  have b: "unat (Entry_program (of_nat i) + offset) < flash_size \<and>
      unat (Entry_program (of_nat i) + offset) + length part \<le> flash_size"
    using assms(2) n by (auto simp: a flash_size_def MaxProgram_def)
  show "confined (content_region i) s (snd r)"
    unfolding r_def ProgramEntry_WriteContent_def
    by (rule confined_mono [OF program_confined])
      (use assms(1,2) b n in \<open>auto simp: a content_region_def MaxProgram_def\<close>)
  show "content_at (mem (snd r)) i k =
      (if unat offset \<le> k \<and> k < unat offset + length part then part ! (k - unat offset) else content_at (mem s) i k)"
    if "fst r = NotBusy" "k < MaxProgram"
    using program_done [of s "Entry_program (of_nat i) + offset" part] that assms(1) b
    by (auto simp: r_def ProgramEntry_WriteContent_def a content_at_def overwrite_def)
qed

lemma writes_confined:
  assumes "ok s" and "set is \<subseteq> {..<6}" and "unat offset + length part \<le> MaxProgram"
  shows "confined (selected_contents entries is) s (snd (write_entries d entries offset part is s))"
  using assms(1,2)
proof (induction "is" arbitrary: s)
  case Nil
  then show ?case by (simp add: confined_refl)
next
  case (Cons j js)
  let ?t = "snd (ProgramEntry_WriteContent d (of_nat j) offset part s)"
  have t: "confined (content_region j) s ?t" using Cons.prems assms(3) by (intro write_content(1)) auto
  have t': "confined (content_region j \<union> selected_contents entries js) s ?t"
    using t by (rule confined_mono) simp
  have "confined (selected_contents entries js) ?t (snd (write_entries d entries offset part js ?t))"
    using Cons.IH [OF confined_ok [OF t]] Cons.prems by simp
  then have "confined (content_region j \<union> selected_contents entries js) s
      (snd (write_entries d entries offset part js ?t))"
    by (intro confined_trans [OF t']) (rule confined_mono, assumption, simp)
  then show ?case
    using Cons t' by (simp add: selected_contents_Cons case_prod_beta Let_def)
qed

lemma writes_done:
  assumes "ok s" and "set is \<subseteq> {..<6}" and "distinct is" and n: "unat offset + length part \<le> MaxProgram"
    and "fst (write_entries d entries offset part is s) = WriteProgramSuccess entries offset (of_nat (length part))"
    and "i \<in> set is" and "bit entries i" and k: "k < MaxProgram"
  shows "content_at (mem (snd (write_entries d entries offset part is s))) i k =
    (if unat offset \<le> k \<and> k < unat offset + length part then part ! (k - unat offset) else content_at (mem s) i k)"
  using assms(1-3,5,6)
proof (induction "is" arbitrary: s)
  case (Cons j js)
  let ?r = "ProgramEntry_WriteContent d (of_nat j) offset part s"
  show ?case
  proof (cases "bit entries j")
    case False
    then show ?thesis using Cons \<open>bit entries i\<close> by auto
  next
    case True
    have j: "j < 6" using Cons.prems(2) by simp
    have r: "fst ?r = NotBusy"
      using Cons.prems(4) True by (auto simp: case_prod_beta Let_def reply_cases split: if_splits)
    have e: "write_entries d entries offset part (j # js) s = write_entries d entries offset part js (snd ?r)"
      using True r by (simp add: case_prod_beta Let_def)
    note c = write_content(1) [OF Cons.prems(1) j n]
    note ok = confined_ok [OF c]
    show ?thesis
    proof (cases "i = j")
      case True
      have "content_at (mem (snd (write_entries d entries offset part js (snd ?r)))) i k = content_at (mem (snd ?r)) i k"
        unfolding content_at_def
        by (rule confined_mem [OF writes_confined [OF ok _ n]])
          (use Cons.prems True k in \<open>auto simp: content_selected_iff\<close>)
      then show ?thesis using write_content(2) [OF Cons.prems(1) j n r k] True by (simp only: e)
    next
      case False
      have "content_at (mem (snd ?r)) i k = content_at (mem s) i k"
        unfolding content_at_def
        by (rule confined_mem [OF c]) (use False k in \<open>simp add: content_region_iff\<close>)
      then show ?thesis using Cons.IH [OF ok] Cons.prems False unfolding e by simp
    qed
  qed
qed simp

end

section \<open>The telecommands, from their parameters\<close>

definition write_parameters :: "u8 \<Rightarrow> u32 \<Rightarrow> bytes \<Rightarrow> bytes" where
  "write_parameters entries offset part = entries # le_bytes 4 offset @ part"

definition finalize_parameters :: "u8 \<Rightarrow> u32 \<Rightarrow> u16 \<Rightarrow> bytes \<Rightarrow> bytes" where
  "finalize_parameters entries len crc description = entries # le_bytes 4 len @ le_bytes 2 crc @ description"

lemma WriteProgramPart_parsed:
  assumes "length part < 2 ^ 14"
  shows "WriteProgramPart_Handle d (write_parameters entries offset part) s
      = write_entries d entries offset part [0..<EntriesCount] s"
  using assms by (simp add: WriteProgramPart_Handle_def write_parameters_def case_prod_beta Let_def left_simps
      taking_def byte_simps)

lemma FinalizeProgramEntry_parsed:
  assumes "length description < 30"
  shows "FinalizeProgramEntry_Handle d (finalize_parameters entries len crc description) s
      = Some (finalize_entries d entries crc len (put_at 0 description (replicate 30 0)) [0..<EntriesCount] s)"
proof -
  have "0 \<in> set (put_at 0 description (replicate 30 (0 :: u8)))"
    using assms by (simp add: put_at_def)
  then show ?thesis
    using assms by (simp add: FinalizeProgramEntry_Handle_def finalize_parameters_def case_prod_beta Let_def left_simps
      taking_def byte_simps)
qed

text \<open>The ground uploads a program part by part, and goes on after a successful reply only.\<close>

fun upload_parts :: "'s IFlashDriver \<Rightarrow> u8 \<Rightarrow> nat \<Rightarrow> bytes list \<Rightarrow> 's \<Rightarrow> bool \<times> 's" where
  "upload_parts d entries offset [] s = (True, s)"
| "upload_parts d entries offset (p # ps) s =
     (let (reply, s) = WriteProgramPart_Handle d (write_parameters entries (of_nat offset) p) s
      in if reply = WriteProgramSuccess entries (of_nat offset) (of_nat (length p))
         then upload_parts d entries (offset + length p) ps s else (False, s))"

context flash_driver
begin

lemma entry_list: "set [0..<EntriesCount] \<subseteq> {..<6}" "distinct [0..<EntriesCount]"
  "i \<in> set [0..<EntriesCount] \<longleftrightarrow> i < 6"
  by (auto simp: EntriesCount_def)

lemma upload_written:
  assumes "ok s" and "offset + length (concat parts) \<le> MaxProgram" and "\<forall>p \<in> set parts. length p < 2 ^ 14"
    and "fst (upload_parts d entries offset parts s)"
  shows "confined (selected_contents entries [0..<EntriesCount]) s (snd (upload_parts d entries offset parts s))"
    and "i < 6 \<Longrightarrow> bit entries i \<Longrightarrow> k < offset + length (concat parts) \<Longrightarrow>
      content_at (mem (snd (upload_parts d entries offset parts s))) i k
        = (if k < offset then content_at (mem s) i k else concat parts ! (k - offset))"
proof -
  have "confined (selected_contents entries [0..<EntriesCount]) s (snd (upload_parts d entries offset parts s)) \<and>
    (\<forall>i k. i < 6 \<longrightarrow> bit entries i \<longrightarrow> k < offset + length (concat parts) \<longrightarrow>
      content_at (mem (snd (upload_parts d entries offset parts s))) i k
        = (if k < offset then content_at (mem s) i k else concat parts ! (k - offset)))"
    using assms
  proof (induction parts arbitrary: offset s)
    case Nil
    then show ?case by (simp add: confined_refl)
  next
    case (Cons p ps)
    let ?W = "write_entries d entries (of_nat offset) p [0..<EntriesCount] s"
    have o: "unat (of_nat offset :: u32) = offset"
      using Cons.prems(2) by (simp add: MaxProgram_def unat_of_nat)
    then have n: "unat (of_nat offset :: u32) + length p \<le> MaxProgram" using Cons.prems(2) by simp
    have w: "WriteProgramPart_Handle d (write_parameters entries (of_nat offset) p) s = ?W"
      by (rule WriteProgramPart_parsed) (use Cons.prems(3) in simp)
    have succ: "fst ?W = WriteProgramSuccess entries (of_nat offset) (of_nat (length p))"
      using Cons.prems(4) by (auto simp: w case_prod_beta split: if_splits)
    have e: "upload_parts d entries offset (p # ps) s = upload_parts d entries (offset + length p) ps (snd ?W)"
      using succ by (simp add: w case_prod_beta)
    note c = writes_confined [OF Cons.prems(1) entry_list(1) n, of entries]
    have ih: "confined (selected_contents entries [0..<EntriesCount]) (snd ?W) (snd (upload_parts d entries (offset + length p) ps (snd ?W)))"
      "\<And>i k. i < 6 \<Longrightarrow> bit entries i \<Longrightarrow> k < offset + length p + length (concat ps) \<Longrightarrow>
        content_at (mem (snd (upload_parts d entries (offset + length p) ps (snd ?W)))) i k
        = (if k < offset + length p then content_at (mem (snd ?W)) i k else concat ps ! (k - (offset + length p)))"
      using Cons.IH [OF confined_ok [OF c], of "offset + length p"] Cons.prems(2-4) unfolding e by auto
    have "content_at (mem (snd (upload_parts d entries (offset + length p) ps (snd ?W)))) i k
        = (if k < offset then content_at (mem s) i k else concat (p # ps) ! (k - offset))"
      if "i < 6" "bit entries i" "k < offset + length (concat (p # ps))" for i k
    proof -
      have "k < MaxProgram" using that(3) Cons.prems(2) by simp
      then have "content_at (mem (snd ?W)) i k
          = (if offset \<le> k \<and> k < offset + length p then p ! (k - offset) else content_at (mem s) i k)"
        using writes_done [OF Cons.prems(1) entry_list(1,2) n succ, of i k] that(1,2)
        by (simp only: entry_list(3) o)
      then show ?thesis using ih(2) [OF that(1,2), of k] that(3) by (auto simp: nth_append)
    qed
    then show ?case unfolding e using confined_trans [OF c ih(1)] by blast
  qed
  then show "confined (selected_contents entries [0..<EntriesCount]) s (snd (upload_parts d entries offset parts s))"
    and "i < 6 \<Longrightarrow> bit entries i \<Longrightarrow> k < offset + length (concat parts) \<Longrightarrow>
      content_at (mem (snd (upload_parts d entries offset parts s))) i k
        = (if k < offset then content_at (mem s) i k else concat parts ! (k - offset))" by blast+
qed

lemma finalized_content:
  assumes "ok s" and "length description < 30" and "unat len \<le> MaxProgram" and "i < 6"
    and "FinalizeProgramEntry_Handle d (finalize_parameters entries len crc description) s
       = Some (FinalizeEntrySuccess entries crc, t)"
  shows "confined (selected_headers entries [0..<EntriesCount]) s t"
    and "bit entries i \<Longrightarrow> finalized d crc len i t"
proof -
  let ?desc = "put_at 0 description (replicate 30 0)"
  have n: "length ?desc \<le> 30" by simp
  have t: "finalize_entries d entries crc len ?desc [0..<EntriesCount] s = (FinalizeEntrySuccess entries crc, t)"
    using assms(5) FinalizeProgramEntry_parsed [OF assms(2), of d entries len crc s] by simp
  show "confined (selected_headers entries [0..<EntriesCount]) s t"
    using entries_confined [OF assms(1) entry_list(1) n, of entries crc len] by (simp only: t snd_conv)
  show "bit entries i \<Longrightarrow> finalized d crc len i t"
    using entries_finalized [OF assms(1) entry_list(1,2) n assms(3), of entries crc i] assms(4)
    by (simp only: t fst_conv snd_conv entry_list(3))
qed

end

section \<open>What an upload guarantees\<close>

lemma not_selected:
  assumes "\<not> bit entries i"
  shows "header_region i \<inter> selected_contents entries is = {}" "content_region i \<inter> selected_contents entries is = {}"
    "header_region i \<inter> selected_headers entries is = {}" "content_region i \<inter> selected_headers entries is = {}"
proof -
  have "False" if "k \<in> header_region i \<union> content_region i" "k \<in> header_region j \<union> content_region j" "bit entries j" for j k
    using region_index [OF that(1)] region_index [OF that(2)] that(3) assms by auto
  then show "header_region i \<inter> selected_contents entries is = {}" "content_region i \<inter> selected_contents entries is = {}"
    "header_region i \<inter> selected_headers entries is = {}" "content_region i \<inter> selected_headers entries is = {}"
    by (auto simp: selected_contents_def selected_headers_def disjoint_iff)
qed

context flash_driver
begin

lemma whole_entry:
  assumes "ok s" and "i < 6"
  shows "ProgramEntry_WholeEntry d (of_nat i) s = cells (mem s) (524288 * i) 524288"
  using assms by (simp add: ProgramEntry_WholeEntry_def ProgramEntry_Size_def bytes_cells entry_offset unat_entry flash_size_def)

lemma entry_untouched:
  assumes "confined A s t" and "ok s" and "i < 6" and "header_region i \<inter> A = {}" and "content_region i \<inter> A = {}"
  shows "ProgramEntry_WholeEntry d (of_nat i) t = ProgramEntry_WholeEntry d (of_nat i) s"
  unfolding whole_entry [OF assms(2,3)] whole_entry [OF confined_ok [OF assms(1)] assms(3)]
proof (rule cells_cong, rule confined_mem [OF assms(1)])
  fix k assume "524288 * i \<le> k" "k < 524288 * i + 524288"
  then have "k \<in> header_region i \<union> content_region i"
    by (cases "k < 524288 * i + 1024") (simp_all add: header_region_def content_region_def)
  then show "k \<notin> A" using assms(4,5) by auto
qed

lemma upload_delivers:
  assumes "ok s" and "i < 6"
    and n: "length (concat parts) \<le> MaxProgram" and p: "\<forall>p \<in> set parts. length p < 2 ^ 14"
    and "length description < 30" and "upload_parts d entries 0 parts s = (True, t)"
    and "FinalizeProgramEntry_Handle d
        (finalize_parameters entries (of_nat (length (concat parts))) crc description) t
      = Some (FinalizeEntrySuccess entries crc, u)"
  shows "if bit entries i
    then ProgramEntry_IsValid d (of_nat i) u \<and> ProgramEntry_Length d (of_nat i) u = of_nat (length (concat parts))
      \<and> ProgramEntry_Content d (of_nat i) (length (concat parts)) u = concat parts
      \<and> ProgramEntry_Crc d (of_nat i) u = crc \<and> CRC_calc (concat parts) = crc
    else ProgramEntry_WholeEntry d (of_nat i) u = ProgramEntry_WholeEntry d (of_nat i) s"
proof -
  let ?n = "length (concat parts)"
  have N: "unat (of_nat ?n :: u32) = ?n" using n by (simp add: MaxProgram_def unat_of_nat del: length_concat)
  have up: "confined (selected_contents entries [0..<EntriesCount]) s t"
    "\<And>k. bit entries i \<Longrightarrow> k < ?n \<Longrightarrow> content_at (mem t) i k = concat parts ! k"
    using upload_written [OF assms(1), of 0 parts entries] n p assms(2,6) by (auto simp del: length_concat)
  note ot = confined_ok [OF up(1)]
  have fin: "confined (selected_headers entries [0..<EntriesCount]) t u"
    "bit entries i \<Longrightarrow> finalized d crc (of_nat ?n) i u"
    using finalized_content [OF ot assms(5) _ assms(2,7)] n by (simp_all add: N del: length_concat)
  note ou = confined_ok [OF fin(1)]
  show ?thesis
  proof (cases "bit entries i")
    case True
    have "ProgramEntry_Content d (of_nat i) ?n u = ProgramEntry_Content d (of_nat i) ?n t"
      by (rule content_same [OF ot ou assms(2) n]) (use content_selected confined_mem [OF fin(1)] in blast)
    also have "\<dots> = concat parts"
      unfolding entry_reads(4) [OF ot assms(2) n]
      by (rule nth_equalityI) (use up(2) [OF True] in \<open>simp_all add: cells_def content_at_def del: length_concat\<close>)
    finally show ?thesis
      using fin(2) [OF True] True N by (auto simp: finalized_def ProgramEntry_CalculateCrc_def simp del: length_concat)
  next
    case False
    let ?A = "selected_contents entries [0..<EntriesCount] \<union> selected_headers entries [0..<EntriesCount]"
    have "confined ?A s u"
      by (rule confined_trans [OF confined_mono [OF up(1)] confined_mono [OF fin(1)]]) auto
    then show ?thesis
      using entry_untouched [of ?A s u i] assms(1,2) False
        not_selected [of entries i] by (simp add: Int_Un_distrib)
  qed
qed

end

context nor_device
begin

lemma driver_contract: "flash_driver ok mem (FlashDriver l polls)"
  by (rule driver.flash_driver_axioms)

end

lemmas flash_keeps = nor_device.driver_contract

text \<open>
  C18. A program that fits an entry, uploaded in parts one after the other, every part and the final command
  answered with success, is in every selected entry: the entry is valid, has the length of the program,
  its content is the program, and the checksum it stores is the one sent by the ground and that of the
  program. No other entry is changed. The flash may fail operations at any time; the low-level driver is
  trusted to report it. (A program that does not fit an entry is not refused, and is written on into the
  next one.)
\<close>

theorem program_upload_delivers:
  assumes "nor_device ok mem l" and "ok s" and "i < 6"
    and "length (concat parts) \<le> MaxProgram" and "\<forall>p \<in> set parts. length p < 2 ^ 14"
    and "length description < 30" and "upload_parts (FlashDriver l polls) entries 0 parts s = (True, t)"
    and "FinalizeProgramEntry_Handle (FlashDriver l polls)
        (finalize_parameters entries (of_nat (length (concat parts))) crc description) t
      = Some (FinalizeEntrySuccess entries crc, u)"
  shows "let d = FlashDriver l polls; e = of_nat i
    in if bit entries i
       then ProgramEntry_IsValid d e u \<and> ProgramEntry_Length d e u = of_nat (length (concat parts))
         \<and> ProgramEntry_Content d e (length (concat parts)) u = concat parts
         \<and> ProgramEntry_Crc d e u = crc \<and> CRC_calc (concat parts) = crc
       else ProgramEntry_WholeEntry d e u = ProgramEntry_WholeEntry d e s"
  unfolding Let_def
  by (rule flash_driver.upload_delivers [OF flash_keeps [OF assms(1)] assms(2-8)])

definition blank_flash :: "nat \<Rightarrow> u8" where "blank_flash = (\<lambda>_. 0xFF)"

definition nor_flash :: "(nat \<Rightarrow> u8) IFlashDriver" where "nor_flash = FlashDriver nor_lld 0"

lemma nor_program:
  "fl_Program nor_flash a bs m = program_bytes nor_lld a bs m"
  "fl_ProgramByte nor_flash a v m = lld_ProgramOp nor_lld a v m"
  "fl_At nor_flash a m = m (unat a)"
  by (simp_all add: nor_flash_def FlashDriver_def FlashDriver_Program_def FlashDriver_ProgramByte_def nor_lld_def)

lemma entry_zero:
  "Entry_program 0 = 1024" "Entry_crc 0 = 32" "Entry_length 0 = 0" "Entry_description 0 = 128" "Entry_isValid 0 = 64"
  by (simp_all add: Entry_program_def Entry_crc_def Entry_length_def Entry_description_def Entry_isValid_def InFlashOffset_def)

lemma no_description: "replicate 30 (0 :: u8) = 0 # replicate 29 0"
  by (simp add: eval_nat_numeral)

lemma all_ones: "0xFF AND v = (v :: u8)"
  by (rule bit_word_eqI) (simp add: bit_simps low_byte_mask)

lemmas nor_flash_simps = WriteProgramPart_parsed FinalizeProgramEntry_parsed EntriesCount_def upt_rec nor_program
  ProgramEntry_WriteContent_def finalize_header_def ProgramEntry_SetCrc_def ProgramEntry_SetLength_def
  ProgramEntry_SetDescription_def ProgramEntry_MarkAsValid_def nor_lld_def blank_flash_def
  Worst_def ProgramEntry_CalculateCrc_def ProgramEntry_Content_def ProgramEntry_Length_def flash_bytes_def Let_def
  entry_zero no_description all_ones

lemma nor_flash_runs:
  "fst (upload_parts nor_flash 1 0 [[7], [9]] blank_flash)"
  "fst (the (FinalizeProgramEntry_Handle nor_flash (finalize_parameters 1 2 (CRC_calc [7, 9]) [])
     (snd (upload_parts nor_flash 1 0 [[7], [9]] blank_flash)))) = FinalizeEntrySuccess 1 (CRC_calc [7, 9])"
proof -
  have up: "upload_parts nor_flash 1 0 [[7], [9]] blank_flash = (True, blank_flash(1024 := 7, 1025 := 9))"
    by (simp add: nor_flash_simps)
  then show "fst (upload_parts nor_flash 1 0 [[7], [9]] blank_flash)" by simp
  show "fst (the (FinalizeProgramEntry_Handle nor_flash (finalize_parameters 1 2 (CRC_calc [7, 9]) [])
     (snd (upload_parts nor_flash 1 0 [[7], [9]] blank_flash)))) = FinalizeEntrySuccess 1 (CRC_calc [7, 9])"
    unfolding up by (simp add: nor_flash_simps)
qed

theorem program_upload_delivers_witness:
  "\<exists>u. ProgramEntry_IsValid nor_flash 0 u \<and> ProgramEntry_Content nor_flash 0 2 u = [7, 9]
     \<and> ProgramEntry_Crc nor_flash 0 u = CRC_calc [7, 9]
     \<and> ProgramEntry_WholeEntry nor_flash 1 u = ProgramEntry_WholeEntry nor_flash 1 blank_flash"
proof -
  have dev: "nor_device (\<lambda>_. True) (\<lambda>m. m) nor_lld" by (rule nor.nor_device_axioms)
  obtain t where t: "upload_parts nor_flash 1 0 [[7], [9]] blank_flash = (True, t)"
    using nor_flash_runs(1) by (metis prod.collapse)
  obtain u where "FinalizeProgramEntry_Handle nor_flash (finalize_parameters 1 2 (CRC_calc [7, 9]) []) t
      = Some (FinalizeEntrySuccess 1 (CRC_calc [7, 9]), u)"
    using nor_flash_runs(2) [unfolded t] by (auto simp: FinalizeProgramEntry_parsed prod_eq_iff)
  then have u: "FinalizeProgramEntry_Handle (FlashDriver nor_lld 0)
      (finalize_parameters 1 (of_nat (length (concat [[7], [9 :: u8]]))) (CRC_calc (concat [[7], [9]])) []) t
      = Some (FinalizeEntrySuccess 1 (CRC_calc (concat [[7], [9]])), u)"
    by (simp add: nor_flash_def)
  have small: "length (concat [[7], [9 :: u8]]) \<le> MaxProgram" "\<forall>p \<in> set [[7], [9 :: u8]]. length p < 2 ^ 14"
    "length ([] :: bytes) < 30" by (simp_all add: MaxProgram_def)
  note P = program_upload_delivers [OF dev TrueI _ small t [unfolded nor_flash_def] u]
  show ?thesis
    by (rule exI [of _ u]) (use P [of 0] P [of 1] in \<open>simp add: Let_def nor_flash_def numeral_2_eq_2\<close>)
qed

text \<open>
  C21. When the final command reports a wrong checksum for an entry, that entry is already marked
  valid: the marker is written before the checksum is compared, and the marker is all that the boot
  loader looks at.
\<close>

theorem wrong_checksum_marked_valid:
  assumes "nor_device ok mem l" and "ok s" and "i < 6" and "length description < 30"
    and "FinalizeProgramEntry_Handle (FlashDriver l polls) (finalize_parameters entries len crc description) s
      = Some (FinalizeEntryCRCError i actual, t)"
  shows "actual \<noteq> crc \<and> ProgramEntry_IsValid (FlashDriver l polls) (of_nat i) t"
proof -
  let ?d = "FlashDriver l polls"
  have t: "finalize_entries ?d entries crc len (put_at 0 description (replicate 30 0)) [0..<EntriesCount] s
      = (FinalizeEntryCRCError i actual, t)"
    using assms(5) FinalizeProgramEntry_parsed [OF assms(4), of ?d entries len crc s] by simp
  show ?thesis
    using flash_driver.entries_wrong_crc [OF flash_keeps [OF assms(1), of polls] assms(2),
        of "[0..<EntriesCount]" "put_at 0 description (replicate 30 0)" entries crc len i actual] assms(3) t
    by (auto simp: EntriesCount_def atLeast0LessThan)
qed

theorem wrong_checksum_marked_valid_witness:
  "\<exists>t. FinalizeProgramEntry_Handle nor_flash (finalize_parameters 1 0 5 []) blank_flash
      = Some (FinalizeEntryCRCError 0 0, t) \<and> ProgramEntry_IsValid nor_flash 0 t"
proof -
  have dev: "nor_device (\<lambda>_. True) (\<lambda>m. m) nor_lld" by (rule nor.nor_device_axioms)
  have "fst (the (FinalizeProgramEntry_Handle nor_flash (finalize_parameters 1 0 5 []) blank_flash))
      = FinalizeEntryCRCError 0 0"
    by (simp add: nor_flash_simps CRC_calc_def)
  then obtain t where t: "FinalizeProgramEntry_Handle nor_flash (finalize_parameters 1 0 5 []) blank_flash
      = Some (FinalizeEntryCRCError 0 0, t)"
    by (auto simp: FinalizeProgramEntry_parsed prod_eq_iff)
  then show ?thesis
    using wrong_checksum_marked_valid [OF dev TrueI _ _ t [unfolded nor_flash_def]] by (auto simp: nor_flash_def)
qed

end
