(* ===== verification/Bootloader.thy ===== *)
theory Bootloader
  imports Boot_Settings Program_Flash
begin

text \<open>
  The boot loader (boot/boot.cpp): which program to boot, after how many unconfirmed attempts it is
  given up, and the copy of a program from three slots into the flash of the microcontroller. The
  memory controller of the microcontroller is a parameter, the record \<open>msc\<close>; its results are not
  looked at. The jump to the address that is returned is left out.
\<close>

section \<open>The code\<close>

datatype Reason =
    BootToUpper | PrimaryBootSlots | BootNotConfirmed | InvalidPrimaryBootSlots | InvalidFailsafeBootSlots
  | CounterExpired

record ('s, 'f, 'm) boot =
  bt_settings :: 's
  bt_flash :: 'f
  bt_mcu :: 'm
  bt_reason :: Reason
  bt_index :: u8

record 'm msc =
  msc_read :: "u32 \<Rightarrow> 'm \<Rightarrow> u8"
  msc_ErasePage :: "u32 \<Rightarrow> 'm \<Rightarrow> 'm"
  msc_WriteWord :: "u32 \<Rightarrow> bytes \<Rightarrow> 'm \<Rightarrow> 'm"

definition BOOT_SAFEMODE_BASE_CODE :: u32 where "BOOT_SAFEMODE_BASE_CODE = 0x12000000"
definition BOOT_APPLICATION_BASE :: u32 where "BOOT_APPLICATION_BASE = 0x00080000"
definition FlashBase :: u32 where "FlashBase = 0x84000000"

definition ProgramBlock :: "'m msc \<Rightarrow> bytes \<Rightarrow> u32 \<Rightarrow> 'm \<Rightarrow> 'm" where
  "ProgramBlock c dat base m = msc_WriteWord c base dat (msc_ErasePage c base m)"

definition PageSize :: nat where "PageSize = 4096"

text \<open>
  The loop over the pages. Its counter is 32 bits wide: with a length above \<open>0xFFFFF000\<close> it never
  ends, which is \<open>None\<close>. The page buffer keeps its contents when the vote is refused.
\<close>

partial_function (option) load_pages ::
  "'f IFlashDriver \<Rightarrow> 'm msc \<Rightarrow> u8 list \<Rightarrow> u32 \<Rightarrow> 'f \<Rightarrow> u32 \<Rightarrow> bytes \<Rightarrow> 'm \<Rightarrow> 'm option" where
  "load_pages d c slots len f offset pageBuffer m =
     (if offset < len then
        (let pageSpans = map (\<lambda>i. \<lparr>s_addr = FlashBase + Entry_program i + offset,
                                   s_data = flash_bytes d (Entry_program i + offset) PageSize f\<rparr>) slots;
             ptr = BOOT_APPLICATION_BASE + offset;
             pageBuffer = snd (CorrectBuffer3 \<lparr>s_addr = 0, s_data = pageBuffer\<rparr>
                                (pageSpans ! 0) (pageSpans ! 1) (pageSpans ! 2));
             internalOk = (pageBuffer = map (\<lambda>k. msc_read c (ptr + of_nat k) m) [0..<length pageBuffer]);
             m = (if \<not> internalOk then ProgramBlock c pageBuffer ptr m else m)
         in load_pages d c slots len f (offset + of_nat PageSize) pageBuffer m)
      else Some m)"

definition LoadApplicationTMR ::
  "'f IFlashDriver \<Rightarrow> 'm msc \<Rightarrow> bytes \<Rightarrow> u8 list \<Rightarrow> 'f \<Rightarrow> 'm \<Rightarrow> 'm option" where
  "LoadApplicationTMR d c pageBuffer slots f m =
     (let lengths = map (\<lambda>i. ProgramEntry_Length d i f) slots;
          len = Correct_array lengths
      in load_pages d c slots len f 0 pageBuffer m)"

text \<open>The loop over the six low bits, leaving at the third that is set.\<close>

fun slot_loop :: "u8 \<Rightarrow> nat list \<Rightarrow> nat \<Rightarrow> u8 list \<Rightarrow> u8 list" where
  "slot_loop slotsMask [] j slots = slots"
| "slot_loop slotsMask (i # is) j slots =
     (let (slots, j) = (if bit slotsMask i then (slots[j := of_nat i], j + 1) else (slots, j))
      in if j = 3 then slots else slot_loop slotsMask is j slots)"

definition ToSlotNumbers :: "u8 \<Rightarrow> u8 list" where
  "ToSlotNumbers slotsMask = slot_loop slotsMask [0..<6] 0 [0, 0, 0]"

definition LoadApplication ::
  "'f IFlashDriver \<Rightarrow> 'm msc \<Rightarrow> bytes \<Rightarrow> u8 \<Rightarrow> ('s, 'f, 'm) boot \<Rightarrow> (u32 \<times> ('s, 'f, 'm) boot) option" where
  "LoadApplication d c pageBuffer slotsMask b =
     (if slotsMask = SafeModeBootSlot then Some (BOOT_SAFEMODE_BASE_CODE, b)
      else if slotsMask \<noteq> UpperBootSlot then
        (case LoadApplicationTMR d c pageBuffer (ToSlotNumbers slotsMask) (bt_flash b) (bt_mcu b) of
           None \<Rightarrow> None
         | Some m \<Rightarrow> Some (BOOT_APPLICATION_BASE, b\<lparr>bt_mcu := m\<rparr>))
      else Some (BOOT_APPLICATION_BASE, b))"

text \<open>The setters of the settings read back what they wrote; the boot loader drops the result.\<close>

definition ResolveFailedBoot ::
  "'s fread \<Rightarrow> 's fwrite \<Rightarrow> ('s, 'f, 'm) boot \<Rightarrow> ('s, 'f, 'm) boot" where
  "ResolveFailedBoot fread fwrite b =
     (let (currentSlots, s) = BootSlots fread (bt_settings b)
      in if currentSlots = SafeModeBootSlot then b\<lparr>bt_settings := s\<rparr>
         else if currentSlots = UpperBootSlot then b\<lparr>bt_settings := s\<rparr>
         else
           (let (counter, s) = BootCounter fread s;
                (lastConfirmed, s) = LastConfirmedBootCounter fread s
            in if counter - lastConfirmed \<ge> 10 then
                 (let (failsafe, s) = FailsafeBootSlots fread s;
                      (slots, s) = BootSlots fread s;
                      s = (if failsafe \<noteq> slots then snd (SetBootSlots fread fwrite failsafe s)
                           else snd (SetBootSlots fread fwrite SafeModeBootSlot s))
                  in b\<lparr>bt_settings := s, bt_reason := BootNotConfirmed\<rparr>)
               else b\<lparr>bt_settings := s\<rparr>))"

definition IsBootSlotsValid :: "'f IFlashDriver \<Rightarrow> u8 \<Rightarrow> 'f \<Rightarrow> bool" where
  "IsBootSlotsValid d slotsMask f =
     (if popcount slotsMask \<noteq> 3 then False
      else
        (let slots = ToSlotNumbers slotsMask;
             x = ProgramEntry_IsValid d (slots ! 0) f;
             y = ProgramEntry_IsValid d (slots ! 1) f;
             z = ProgramEntry_IsValid d (slots ! 2) f
         in (x \<and> y) \<or> (y \<and> z) \<or> (x \<and> z)))"

definition CountBootAttempts :: "'s fread \<Rightarrow> 's fwrite \<Rightarrow> 's \<Rightarrow> 's" where
  "CountBootAttempts fread fwrite s =
     (let (counter, s) = BootCounter fread s in snd (SetBootCounter fread fwrite (counter + 1) s))"

text \<open>\<open>ProceedWithBooting\<close> up to the choice of the slots, which is what outlasts a failed start.\<close>

definition select_boot_slots ::
  "'f IFlashDriver \<Rightarrow> 's fread \<Rightarrow> 's fwrite \<Rightarrow> ('s, 'f, 'm) boot \<Rightarrow> u8 \<times> ('s, 'f, 'm) boot" where
  "select_boot_slots d fread fwrite b =
     (let b = b\<lparr>bt_reason := PrimaryBootSlots\<rparr>;
          (magic, s) = CheckMagicNumber fread (bt_settings b);
          b = b\<lparr>bt_settings := s\<rparr>;
          (slotsMask, b) =
            (if magic then
               (let b = ResolveFailedBoot fread fwrite b;
                    (slotsMask, s) = BootSlots fread (bt_settings b)
                in (slotsMask, b\<lparr>bt_settings := s\<rparr>))
             else (SafeModeBootSlot, b))
      in if slotsMask = SafeModeBootSlot then (slotsMask, b)
         else if slotsMask = UpperBootSlot then
           (slotsMask, b\<lparr>bt_reason := BootToUpper, bt_settings := CountBootAttempts fread fwrite (bt_settings b)\<rparr>)
         else if \<not> IsBootSlotsValid d slotsMask (bt_flash b) then
           (let (slotsMask, s) = FailsafeBootSlots fread (bt_settings b)
            in if IsBootSlotsValid d slotsMask (bt_flash b) then
                 (slotsMask, b\<lparr>bt_reason := InvalidPrimaryBootSlots,
                               bt_settings := snd (SetBootSlots fread fwrite slotsMask s)\<rparr>)
               else
                 (SafeModeBootSlot, b\<lparr>bt_reason := InvalidFailsafeBootSlots,
                    bt_settings := snd (SetBootSlots fread fwrite SafeModeBootSlot s)\<rparr>))
         else
           (let (counter, s) = BootCounter fread (bt_settings b)
            in if counter \<ge> BootCounterTop then
                 (SafeModeBootSlot, b\<lparr>bt_settings := snd (SetBootSlots fread fwrite SafeModeBootSlot s),
                                      bt_reason := CounterExpired\<rparr>)
               else (slotsMask, b\<lparr>bt_settings := CountBootAttempts fread fwrite s\<rparr>)))"

definition ProceedWithBooting ::
  "'f IFlashDriver \<Rightarrow> 'm msc \<Rightarrow> bytes \<Rightarrow> 's fread \<Rightarrow> 's fwrite \<Rightarrow> ('s, 'f, 'm) boot
     \<Rightarrow> (u32 \<times> ('s, 'f, 'm) boot) option" where
  "ProceedWithBooting d c pageBuffer fread fwrite b =
     (let (slotsMask, b) = select_boot_slots d fread fwrite b;
          b = b\<lparr>bt_index := slotsMask\<rparr>
      in LoadApplication d c pageBuffer slotsMask b)"

section \<open>The choice, on what the settings hold\<close>

definition resolve :: "boot_view \<Rightarrow> boot_view" where
  "resolve v =
     (if bv_slots v = SafeModeBootSlot \<or> bv_slots v = UpperBootSlot \<or> bv_counter v - bv_confirmed v < 10 then v
      else v\<lparr>bv_slots := if bv_failsafe v \<noteq> bv_slots v then bv_failsafe v else SafeModeBootSlot\<rparr>)"

text \<open>\<open>bootable\<close> says of a mask whether its slots hold a program.\<close>

definition choose_slots :: "(u8 \<Rightarrow> bool) \<Rightarrow> boot_view \<Rightarrow> u8 \<times> boot_view" where
  "choose_slots bootable v =
     (let m = bv_slots v
      in if m = SafeModeBootSlot then (m, v)
         else if m = UpperBootSlot then (m, v\<lparr>bv_counter := bv_counter v + 1\<rparr>)
         else if \<not> bootable m then
           (if bootable (bv_failsafe v) then (bv_failsafe v, v\<lparr>bv_slots := bv_failsafe v\<rparr>)
            else (SafeModeBootSlot, v\<lparr>bv_slots := SafeModeBootSlot\<rparr>))
         else if bv_counter v \<ge> BootCounterTop then (SafeModeBootSlot, v\<lparr>bv_slots := SafeModeBootSlot\<rparr>)
         else (m, v\<lparr>bv_counter := bv_counter v + 1\<rparr>))"

definition boot_attempt :: "(u8 \<Rightarrow> bool) \<Rightarrow> boot_view \<Rightarrow> u8 \<times> boot_view" where
  "boot_attempt bootable v = (if bv_valid v then choose_slots bootable (resolve v) else (SafeModeBootSlot, v))"

lemma slots_differ [simp]: "SafeModeBootSlot \<noteq> UpperBootSlot" "UpperBootSlot \<noteq> SafeModeBootSlot"
  by (simp_all add: SafeModeBootSlot_def UpperBootSlot_def)

lemma resolve_same [simp]:
  "bv_magic (resolve v) = bv_magic v" "bv_failsafe (resolve v) = bv_failsafe v"
  "bv_counter (resolve v) = bv_counter v" "bv_confirmed (resolve v) = bv_confirmed v"
  by (simp_all add: resolve_def)

context byte_memory
begin

lemma keeps: "mem t = mem s \<Longrightarrow> view t = view s"
  by (rule same_view)

lemma count_attempt:
  assumes "ok s" and "bv_valid (view s)"
  shows "ok (CountBootAttempts fread fwrite s)"
    "view (CountBootAttempts fread fwrite s) = (view s)\<lparr>bv_counter := bv_counter (view s) + 1\<rparr>"
  using assms keeps [of "snd (BootCounter fread s)" s]
  by (simp_all add: CountBootAttempts_def case_prod_beta)

lemma resolve_refines:
  fixes b :: "('s, 'f, 'm) boot"
  assumes "ok (bt_settings b)" and "bv_valid (view (bt_settings b))"
  defines "t \<equiv> ResolveFailedBoot fread fwrite b"
  shows "ok (bt_settings t)" "view (bt_settings t) = resolve (view (bt_settings b))"
    "bt_flash t = bt_flash b" "bt_mcu t = bt_mcu b"
proof -
  define s1 where "s1 = snd (BootSlots fread (bt_settings b))"
  define s2 where "s2 = snd (BootCounter fread s1)"
  define s3 where "s3 = snd (LastConfirmedBootCounter fread s2)"
  define s4 where "s4 = snd (FailsafeBootSlots fread s3)"
  define s5 where "s5 = snd (BootSlots fread s4)"
  note defs = s1_def s2_def s3_def s4_def s5_def
  have o1: "ok s1" "view s1 = view (bt_settings b)" using assms(1) keeps [of s1] by (simp_all add: s1_def)
  have o2: "ok s2" "view s2 = view (bt_settings b)" using o1 keeps [of s2] by (simp_all add: s2_def)
  have o3: "ok s3" "view s3 = view (bt_settings b)" using o2 keeps [of s3] by (simp_all add: s3_def)
  have o4: "ok s4" "view s4 = view (bt_settings b)" using o3 keeps [of s4] by (simp_all add: s4_def)
  have o5: "ok s5" "view s5 = view (bt_settings b)" using o4 keeps [of s5] by (simp_all add: s5_def)
  let ?v = "view (bt_settings b)"
  have f: "fst (BootSlots fread (bt_settings b)) = bv_slots ?v" "fst (BootCounter fread s1) = bv_counter ?v"
    "fst (LastConfirmedBootCounter fread s2) = bv_confirmed ?v" "fst (FailsafeBootSlots fread s3) = bv_failsafe ?v"
    "fst (BootSlots fread s4) = bv_slots ?v"
    using assms(1,2) o1 o2 o3 o4 by simp_all
  have t: "t =
    (if bv_slots ?v = SafeModeBootSlot then b\<lparr>bt_settings := s1\<rparr>
     else if bv_slots ?v = UpperBootSlot then b\<lparr>bt_settings := s1\<rparr>
     else if bv_counter ?v - bv_confirmed ?v \<ge> 10 then
       b\<lparr>bt_settings := (if bv_failsafe ?v \<noteq> bv_slots ?v then snd (SetBootSlots fread fwrite (bv_failsafe ?v) s5)
                        else snd (SetBootSlots fread fwrite SafeModeBootSlot s5)),
         bt_reason := BootNotConfirmed\<rparr>
     else b\<lparr>bt_settings := s3\<rparr>)"
    by (simp only: t_def ResolveFailedBoot_def Let_def case_prod_beta defs [symmetric] f)
  show "ok (bt_settings t)" "view (bt_settings t) = resolve (view (bt_settings b))"
    "bt_flash t = bt_flash b" "bt_mcu t = bt_mcu b"
    unfolding t resolve_def using o1 o3 o5 by (auto simp: not_le)
qed

end

context byte_memory
begin

lemma choice_refines:
  fixes b :: "('s, 'f, 'm) boot" and d :: "'f IFlashDriver"
  assumes "ok (bt_settings b)"
  defines "r \<equiv> select_boot_slots d fread fwrite b"
    and "a \<equiv> boot_attempt (\<lambda>x. IsBootSlotsValid d x (bt_flash b)) (view (bt_settings b))"
  shows "ok (bt_settings (snd r)) \<and> fst r = fst a \<and> view (bt_settings (snd r)) = snd a
    \<and> bt_flash (snd r) = bt_flash b \<and> bt_mcu (snd r) = bt_mcu b"
proof -
  let ?v = "view (bt_settings b)"
  define s1 where "s1 = snd (CheckMagicNumber fread (bt_settings b))"
  define b1 where "b1 = b\<lparr>bt_reason := PrimaryBootSlots\<rparr>\<lparr>bt_settings := s1\<rparr>"
  have o1: "ok (bt_settings b1)" "view (bt_settings b1) = ?v" "bt_flash b1 = bt_flash b" "bt_mcu b1 = bt_mcu b"
    using assms(1) keeps [of s1] by (simp_all add: b1_def s1_def)
  show ?thesis
  proof (cases "bv_valid ?v")
    case False
    then have "r = (SafeModeBootSlot, b1)"
      using assms(1) by (simp add: r_def select_boot_slots_def case_prod_beta Let_def s1_def b1_def)
    then show ?thesis using False o1 by (simp add: a_def boot_attempt_def)
  next
    case True
    define b2 where "b2 = ResolveFailedBoot fread fwrite b1"
    define v2 where "v2 = resolve ?v"
    have o2: "ok (bt_settings b2)" "view (bt_settings b2) = v2" "bt_flash b2 = bt_flash b" "bt_mcu b2 = bt_mcu b"
      using resolve_refines [of b1] o1 True by (simp_all add: b2_def v2_def)
    have v2: "bv_valid v2" using True by (simp add: v2_def bv_valid_def)
    define s3 where "s3 = snd (BootSlots fread (bt_settings b2))"
    have o3: "ok s3" "view s3 = v2" using o2 keeps [of s3] by (simp_all add: s3_def)
    define s4 where "s4 = snd (FailsafeBootSlots fread s3)"
    have o4: "ok s4" "view s4 = v2" using o3 keeps [of s4] by (simp_all add: s4_def)
    define s5 where "s5 = snd (BootCounter fread s3)"
    have o5: "ok s5" "view s5 = v2" using o3 keeps [of s5] by (simp_all add: s5_def)
    have f: "fst (CheckMagicNumber fread (bt_settings b))" "fst (BootSlots fread (bt_settings b2)) = bv_slots v2"
      "fst (FailsafeBootSlots fread s3) = bv_failsafe v2" "fst (BootCounter fread s3) = bv_counter v2"
      using assms(1) True o2 o3 v2 by simp_all
    let ?b3 = "b2\<lparr>bt_settings := s3\<rparr>"
    have r: "r =
      (if bv_slots v2 = SafeModeBootSlot then (bv_slots v2, ?b3)
       else if bv_slots v2 = UpperBootSlot then
         (bv_slots v2, ?b3\<lparr>bt_reason := BootToUpper, bt_settings := CountBootAttempts fread fwrite s3\<rparr>)
       else if \<not> IsBootSlotsValid d (bv_slots v2) (bt_flash b) then
         (if IsBootSlotsValid d (bv_failsafe v2) (bt_flash b) then
            (bv_failsafe v2, ?b3\<lparr>bt_reason := InvalidPrimaryBootSlots,
               bt_settings := snd (SetBootSlots fread fwrite (bv_failsafe v2) s4)\<rparr>)
          else (SafeModeBootSlot, ?b3\<lparr>bt_reason := InvalidFailsafeBootSlots,
               bt_settings := snd (SetBootSlots fread fwrite SafeModeBootSlot s4)\<rparr>))
       else if bv_counter v2 \<ge> BootCounterTop then
         (SafeModeBootSlot, ?b3\<lparr>bt_settings := snd (SetBootSlots fread fwrite SafeModeBootSlot s5), bt_reason := CounterExpired\<rparr>)
       else (bv_slots v2, ?b3\<lparr>bt_settings := CountBootAttempts fread fwrite s5\<rparr>))"
      using f(1) by (simp add: r_def select_boot_slots_def Let_def case_prod_beta
          s1_def [symmetric] b1_def [symmetric] b2_def [symmetric] s3_def [symmetric] s4_def [symmetric]
          s5_def [symmetric] f o2(3) cong: if_cong)
    have a: "a = choose_slots (\<lambda>x. IsBootSlotsValid d x (bt_flash b)) v2"
      using True by (simp add: a_def boot_attempt_def v2_def)
    note c = count_attempt [OF o3(1)] count_attempt [OF o5(1)]
    show ?thesis unfolding r a choose_slots_def Let_def using o2 o3 o4 o5 c v2 by auto
  qed
qed

end

section \<open>Unconfirmed programs are given up\<close>

text \<open>How many more attempts can be spent on a program before safe mode is booted.\<close>

definition attempts_left :: "boot_view \<Rightarrow> nat" where
  "attempts_left v =
     (if \<not> bv_valid v \<or> bv_slots v = SafeModeBootSlot then 0
      else
        (let unconfirmed = bv_counter v - bv_confirmed v
         in if bv_slots v = bv_failsafe v then (if unconfirmed \<ge> 10 then 0 else 10 - unat unconfirmed)
            else if unconfirmed < 10 then 11 - unat unconfirmed
            else if unconfirmed = - 1 then 11 else 1))"

definition names_upper :: "boot_view \<Rightarrow> bool" where
  "names_upper v \<longleftrightarrow> bv_slots v = UpperBootSlot \<or> bv_failsafe v = UpperBootSlot"

lemma attempts_left_bound: "attempts_left v \<le> 11"
  by (auto simp: attempts_left_def Let_def)

lemma names_upper_attempt: "names_upper (snd (boot_attempt bootable v)) \<Longrightarrow> names_upper v"
  by (auto simp: names_upper_def boot_attempt_def choose_slots_def resolve_def Let_def split: if_splits)

text \<open>The upper image is never given up once it is selected.\<close>

lemma upper_stays:
  assumes "bv_slots v = UpperBootSlot"
  shows "bv_slots (snd (boot_attempt bootable v)) = UpperBootSlot"
    "fst (boot_attempt bootable v) \<in> {SafeModeBootSlot, UpperBootSlot}"
  using assms by (auto simp: boot_attempt_def choose_slots_def resolve_def Let_def)

lemma safe_stays:
  "bv_slots v = SafeModeBootSlot \<Longrightarrow> boot_attempt bootable v = (SafeModeBootSlot, v)"
  by (simp add: boot_attempt_def choose_slots_def resolve_def)

lemma choose_safe: "bv_slots v = SafeModeBootSlot \<Longrightarrow> choose_slots bootable v = (SafeModeBootSlot, v)"
  by (simp add: choose_slots_def)

lemma no_attempt_left:
  assumes "attempts_left v = 0" and "bv_slots v \<noteq> UpperBootSlot"
  shows "fst (boot_attempt bootable v) = SafeModeBootSlot" "attempts_left (snd (boot_attempt bootable v)) = 0"
proof -
  have l: "unat u < 10" if "u < 10" for u :: u32 using that by (simp add: word_less_nat_alt)
  consider "\<not> bv_valid v" | "bv_slots v = SafeModeBootSlot"
    | "bv_valid v" "bv_slots v = bv_failsafe v" "bv_slots v \<noteq> SafeModeBootSlot" "bv_counter v - bv_confirmed v \<ge> 10"
    using assms(1) l [of "bv_counter v - bv_confirmed v"]
    by (auto simp: attempts_left_def Let_def not_le split: if_splits)
  then have "fst (boot_attempt bootable v) = SafeModeBootSlot \<and> attempts_left (snd (boot_attempt bootable v)) = 0"
  proof cases
    case 1
    then show ?thesis by (simp add: boot_attempt_def attempts_left_def)
  next
    case 2
    then show ?thesis by (simp add: safe_stays attempts_left_def)
  next
    case 3
    then have "resolve v = v\<lparr>bv_slots := SafeModeBootSlot\<rparr>"
      using assms(2) by (auto simp: resolve_def not_less)
    then show ?thesis using 3 by (simp add: boot_attempt_def choose_safe attempts_left_def)
  qed
  then show "fst (boot_attempt bootable v) = SafeModeBootSlot" "attempts_left (snd (boot_attempt bootable v)) = 0"
    by simp_all
qed

lemma unconfirmed_next:
  fixes u :: u32
  shows "u < 10 \<Longrightarrow> unat (u + 1) = Suc (unat u)" "u < 10 \<Longrightarrow> u + 1 \<noteq> - 1" "u < 10 \<Longrightarrow> unat u < 10"
    and "u \<ge> 10 \<Longrightarrow> u \<noteq> - 1 \<Longrightarrow> u + 1 \<ge> 10"
proof -
  have m: "u = - 1 \<longleftrightarrow> unat u = 2 ^ 32 - 1"
    by (simp add: word_unat_eq_iff unsigned_minus_1_eq_mask mask_eq_exp_minus_1)
  show "u < 10 \<Longrightarrow> unat (u + 1) = Suc (unat u)" "u < 10 \<Longrightarrow> unat u < 10"
    by (simp_all add: word_less_nat_alt unat_word_ariths)
  then show "u < 10 \<Longrightarrow> u + 1 \<noteq> - 1"
    by (auto simp: word_unat_eq_iff unsigned_minus_1_eq_mask mask_eq_exp_minus_1)
  show "u \<ge> 10 \<Longrightarrow> u \<noteq> - 1 \<Longrightarrow> u + 1 \<ge> 10"
    using unsigned_less [of u, where 'a = nat] by (simp add: word_le_nat_alt unat_word_ariths m)
qed

lemma attempt_spent:
  assumes "0 < attempts_left v" and "bv_slots v \<noteq> UpperBootSlot"
  shows "bv_slots (snd (boot_attempt bootable v)) = UpperBootSlot
    \<or> attempts_left (snd (boot_attempt bootable v)) < attempts_left v"
proof -
  define u where "u = bv_counter v - bv_confirmed v"
  have u1: "bv_counter v + 1 - bv_confirmed v = u + 1" by (simp add: u_def)
  have v: "bv_valid v" "bv_slots v \<noteq> SafeModeBootSlot" "bv_slots v \<noteq> UpperBootSlot"
    using assms by (auto simp: attempts_left_def split: if_splits)
  have left: "attempts_left v = (if bv_slots v = bv_failsafe v then if u \<ge> 10 then 0 else 10 - unat u
      else if u < 10 then 11 - unat u else if u = - 1 then 11 else 1)"
    using v by (simp add: attempts_left_def u_def)
  note n = unconfirmed_next [of u]
  have b: "snd (boot_attempt bootable v) = snd (choose_slots bootable (resolve v))"
    using v by (simp add: boot_attempt_def)
  have "u \<ge> 10 \<Longrightarrow> bv_slots v \<noteq> bv_failsafe v" using assms(1) left by auto
  then consider "u < 10" | "u \<ge> 10" "bv_slots v \<noteq> bv_failsafe v" "bv_failsafe v = SafeModeBootSlot"
    | "u \<ge> 10" "bv_slots v \<noteq> bv_failsafe v" "bv_failsafe v \<noteq> SafeModeBootSlot"
    using not_less by blast
  then show ?thesis
  proof cases
    case 1
    then have r: "resolve v = v" by (simp add: resolve_def u_def)
    have "attempts_left (v\<lparr>bv_counter := bv_counter v + 1\<rparr>) < attempts_left v"
      using 1 v n by (simp add: attempts_left_def u1 u_def [symmetric] bv_valid_def Let_def) (auto simp: not_le)
    moreover have "bv_failsafe v \<noteq> bv_slots v \<Longrightarrow> attempts_left (v\<lparr>bv_slots := bv_failsafe v\<rparr>) < attempts_left v"
      using 1 v n by (simp add: attempts_left_def u_def [symmetric] bv_valid_def Let_def) auto
    moreover have "attempts_left (v\<lparr>bv_slots := SafeModeBootSlot\<rparr>) < attempts_left v"
      using assms(1) by (simp add: attempts_left_def [of "v\<lparr>bv_slots := SafeModeBootSlot\<rparr>"])
    ultimately show ?thesis
      using v by (cases "bv_failsafe v = bv_slots v") (auto simp: b r choose_slots_def Let_def)
  next
    case 2
    then have "resolve v = v\<lparr>bv_slots := SafeModeBootSlot\<rparr>"
      using v by (auto simp: resolve_def u_def [symmetric] not_less)
    then show ?thesis using assms(1) by (simp add: b choose_safe attempts_left_def [of "v\<lparr>bv_slots := SafeModeBootSlot\<rparr>"])
  next
    case 3
    let ?w = "v\<lparr>bv_slots := bv_failsafe v\<rparr>"
    have r: "resolve v = ?w" using v 3 by (auto simp: resolve_def u_def [symmetric] not_less)
    have "attempts_left (?w\<lparr>bv_counter := bv_counter v + 1\<rparr>) < attempts_left v"
      using 3 v n by (cases "u = - 1") (simp_all add: attempts_left_def u1 u_def [symmetric] bv_valid_def Let_def)
    moreover have "attempts_left (v\<lparr>bv_slots := SafeModeBootSlot\<rparr>) < attempts_left v"
      using assms(1) by (simp add: attempts_left_def [of "v\<lparr>bv_slots := SafeModeBootSlot\<rparr>"])
    ultimately show ?thesis using v 3 by (auto simp: b r choose_slots_def Let_def)
  qed
qed

lemma attempts_exhausted:
  fixes bootable :: "u8 \<Rightarrow> bool" and v :: boot_view
  defines "w \<equiv> \<lambda>n. ((\<lambda>v. snd (boot_attempt bootable v)) ^^ n) v"
  shows "(names_upper (w n) \<longrightarrow> names_upper v)
    \<and> (bv_slots (w n) = UpperBootSlot \<or> attempts_left (w n) \<le> 11 - n)"
proof (induction n)
  case 0
  then show ?case using attempts_left_bound by (simp add: w_def)
next
  case (Suc n)
  have s: "w (Suc n) = snd (boot_attempt bootable (w n))" by (simp add: w_def)
  have u: "names_upper (w (Suc n)) \<longrightarrow> names_upper v"
    using Suc names_upper_attempt unfolding s by blast
  show ?case
  proof (cases "bv_slots (w n) = UpperBootSlot")
    case True
    then show ?thesis using u upper_stays(1) unfolding s by blast
  next
    case False
    then have left: "attempts_left (w n) \<le> 11 - n" using Suc by blast
    show ?thesis
    proof (cases "attempts_left (w n) = 0")
      case True
      then show ?thesis using u no_attempt_left(2) [OF _ False] unfolding s by simp
    next
      case nonzero: False
      then have "bv_slots (w (Suc n)) = UpperBootSlot \<or> attempts_left (w (Suc n)) < attempts_left (w n)"
        using attempt_spent [OF _ False] unfolding s by blast
      then show ?thesis using u left by linarith
    qed
  qed
qed

section \<open>On the memory of the satellite\<close>

definition chips_agree :: "(fram, fdir) redundant_fm25w \<Rightarrow> bool" where
  "chips_agree s \<longleftrightarrow> (\<forall>i < 2 ^ 16. fr_mem (rf_chip1 s) i = fr_mem (rf_chip0 s) i
     \<and> fr_mem (rf_chip2 s) i = fr_mem (rf_chip0 s) i)"

definition settings_view :: "(fram, fdir) redundant_fm25w \<Rightarrow> boot_view" where
  "settings_view s = view_of (fr_mem (rf_chip0 s))"

type_synonym ('f, 'm) flight_boot = "((fram, fdir) redundant_fm25w, 'f, 'm) boot"

definition next_boot :: "'f IFlashDriver \<Rightarrow> ('f, 'm) flight_boot \<Rightarrow> ('f, 'm) flight_boot" where
  "next_boot d b = snd (select_boot_slots d flight_read flight_write b)"

lemma flight_choice:
  fixes d :: "'f IFlashDriver" and b :: "('f, 'm) flight_boot"
  assumes "chips_agree (bt_settings b)"
  defines "r \<equiv> select_boot_slots d flight_read flight_write b"
    and "a \<equiv> boot_attempt (\<lambda>x. IsBootSlotsValid d x (bt_flash b)) (settings_view (bt_settings b))"
  shows "chips_agree (bt_settings (snd r)) \<and> fst r = fst a \<and> settings_view (bt_settings (snd r)) = snd a
    \<and> bt_flash (snd r) = bt_flash b \<and> bt_mcu (snd r) = bt_mcu b"
proof -
  have c: "chips_agree s = flight.agreed s" for s by (simp add: chips_agree_def flight.agreed_mem)
  have v: "settings_view s = boot_memory.view s" for s by (simp add: settings_view_def boot_memory.view_def)
  show ?thesis
    using boot_memory.choice_refines [of b d] assms(1) unfolding r_def a_def c v by simp
qed

text \<open>
  C17. While the three memory chips agree, the choice the boot loader makes and the settings it leaves
  behind are those of \<open>boot_attempt\<close>, the specification over the five fields of the settings: ten
  unconfirmed starts switch to the failsafe slots and then to safe mode, slots that do not hold a
  valid program fall back likewise, and every start of a program is counted. The chips still agree
  afterwards, and the program flash is untouched.
\<close>

theorem bootloader_choice:
  assumes "chips_agree (bt_settings b)"
    and "select_boot_slots d flight_read flight_write b = (slotsMask, b')"
  shows "boot_attempt (\<lambda>x. IsBootSlotsValid d x (bt_flash b)) (settings_view (bt_settings b))
        = (slotsMask, settings_view (bt_settings b'))
    \<and> chips_agree (bt_settings b') \<and> bt_flash b' = bt_flash b"
  using flight_choice [OF assms(1), of d] assms(2) by (simp add: prod_eq_iff)

text \<open>
  C15. A program in slots that is never confirmed is given up. While the memory chips agree, whatever
  settings they hold (which need not be valid, with any values of the counters) and whatever the boot
  table holds, from the twelfth start on the boot loader boots no program from slots any more: it boots
  safe mode, or the upper image, and that only when one of the two masks of the settings names it. (The
  upper image is never given up; when no mask names it, it is safe mode that is booted.)
\<close>

theorem bootloader_gives_up:
  assumes "chips_agree (bt_settings b)" and "11 \<le> n"
    and "fst (select_boot_slots d flight_read flight_write ((next_boot d ^^ n) b)) = slotsMask"
  shows "slotsMask = SafeModeBootSlot \<or> slotsMask = UpperBootSlot \<and> names_upper (settings_view (bt_settings b))"
proof -
  let ?bootable = "\<lambda>x. IsBootSlotsValid d x (bt_flash b)"
  let ?b = "\<lambda>n. (next_boot d ^^ n) b"
  let ?v = "\<lambda>n. ((\<lambda>v. snd (boot_attempt ?bootable v)) ^^ n) (settings_view (bt_settings b))"
  have s: "chips_agree (bt_settings (?b n)) \<and> bt_flash (?b n) = bt_flash b \<and> settings_view (bt_settings (?b n)) = ?v n" for n
  proof (induction n)
    case 0
    then show ?case using assms(1) by simp
  next
    case (Suc n)
    have "?b (Suc n) = snd (select_boot_slots d flight_read flight_write (?b n))" by (simp add: next_boot_def)
    moreover have "?v (Suc n) = snd (boot_attempt ?bootable (?v n))" by simp
    ultimately show ?case using Suc flight_choice [of "?b n" d] by (simp only: conj_assoc)
  qed
  have m: "slotsMask = fst (boot_attempt ?bootable (?v n))"
    using s [of n] flight_choice [of "?b n" d] assms(3) by simp
  note x = attempts_exhausted [where bootable = ?bootable and n = n and v = "settings_view (bt_settings b)"]
  show ?thesis
  proof (cases "bv_slots (?v n) = UpperBootSlot")
    case True
    then show ?thesis using x upper_stays(2) [OF True, of ?bootable] by (auto simp: m names_upper_def)
  next
    case False
    then have "attempts_left (?v n) = 0" using x assms(2) by auto
    then show ?thesis using no_attempt_left(1) [OF _ False] by (simp add: m)
  qed
qed

section \<open>The copy of the program\<close>

text \<open>The flash of the microcontroller: pages are erased to ones, and words written to erased cells.\<close>

definition mcu_size :: nat where "mcu_size = 1024 * 1024"

locale mcu_flash =
  fixes mok :: "'m \<Rightarrow> bool" and mmem :: "'m \<Rightarrow> nat \<Rightarrow> u8" and c :: "'m msc"
  assumes mcu_read: "mok m \<Longrightarrow> unat a < mcu_size \<Longrightarrow> msc_read c a m = mmem m (unat a)"
    and mcu_erase_ok: "mok m \<Longrightarrow> unat a mod PageSize = 0 \<Longrightarrow> unat a + PageSize \<le> mcu_size \<Longrightarrow>
      mok (msc_ErasePage c a m)"
    and mcu_erase: "mok m \<Longrightarrow> unat a mod PageSize = 0 \<Longrightarrow> unat a + PageSize \<le> mcu_size \<Longrightarrow>
      mmem (msc_ErasePage c a m) i = (if unat a \<le> i \<and> i < unat a + PageSize then 0xFF else mmem m i)"
    and mcu_write_ok: "mok m \<Longrightarrow> unat a + length bs \<le> mcu_size \<Longrightarrow>
      (\<And>i. unat a \<le> i \<Longrightarrow> i < unat a + length bs \<Longrightarrow> mmem m i = 0xFF) \<Longrightarrow> mok (msc_WriteWord c a bs m)"
    and mcu_write: "mok m \<Longrightarrow> unat a + length bs \<le> mcu_size \<Longrightarrow>
      (\<And>i. unat a \<le> i \<Longrightarrow> i < unat a + length bs \<Longrightarrow> mmem m i = 0xFF) \<Longrightarrow>
      mmem (msc_WriteWord c a bs m) = overwrite (unat a) bs (mmem m)"
begin

lemma block_programmed:
  assumes "mok m" and "unat a mod PageSize = 0" and "unat a + PageSize \<le> mcu_size" and "length bs = PageSize"
  shows "mok (ProgramBlock c bs a m)" "mmem (ProgramBlock c bs a m) = overwrite (unat a) bs (mmem m)"
proof -
  let ?e = "msc_ErasePage c a m"
  have e: "mok ?e" "\<And>i. unat a \<le> i \<Longrightarrow> i < unat a + length bs \<Longrightarrow> mmem ?e i = 0xFF"
    using assms by (simp_all add: mcu_erase mcu_erase_ok)
  show "mok (ProgramBlock c bs a m)"
    unfolding ProgramBlock_def by (rule mcu_write_ok) (use e assms in auto)
  have "mmem (ProgramBlock c bs a m) = overwrite (unat a) bs (mmem ?e)"
    unfolding ProgramBlock_def by (rule mcu_write) (use e assms in auto)
  then show "mmem (ProgramBlock c bs a m) = overwrite (unat a) bs (mmem m)"
    using assms by (auto simp: overwrite_def mcu_erase fun_eq_iff)
qed

end

lemma aligned4: "w AND 3 = 0 \<longleftrightarrow> unat (w :: u32) mod 4 = 0"
proof -
  have "w AND 3 = take_bit 2 w" by (simp add: take_bit_eq_mask mask_eq_exp_minus_1)
  moreover have "take_bit 2 w = 0 \<longleftrightarrow> unat (take_bit 2 w) = 0" by (simp add: unat_eq_zero)
  ultimately show ?thesis by (simp add: take_bit_eq_mod unat_mod_distrib)
qed

lemma CorrectBuffer3_repairs:
  assumes "span_len b1 = span_len out" and "span_len b2 = span_len out"
    and "span_len b3 = span_len out" and "span_len out mod 4 = 0"
    and "IsAligned4 b1" and "IsAligned4 b2" and "IsAligned4 b3" and "length orig = span_len out"
    and "\<forall>A < 8 * span_len out. 2 \<le> agree orig A [s_data b1, s_data b2, s_data b3]"
  shows "CorrectBuffer3 out b1 b2 b3 = (True, orig)"
proof -
  obtain r where r: "CorrectBuffer3 out b1 b2 b3 = (True, r)" "length r = span_len out"
    "voted r [s_data b1, s_data b2, s_data b3]"
    using CorrectBuffer3_voted [OF assms(1-7)] by blast
  have "length [s_data b1, s_data b2, s_data b3] < 2 * agree orig A [s_data b1, s_data b2, s_data b3]"
    if "A < 8 * length r" for A
  proof -
    have "2 \<le> agree orig A [s_data b1, s_data b2, s_data b3]" using assms(9) that r(2) by simp
    then show ?thesis by simp
  qed
  then have "r = orig"
    using r(2) assms(8) by (intro voted_original [OF r(3)]) (simp_all only: agree_def)
  then show ?thesis using r(1) by simp
qed

lemma data_bits_sub_at:
  assumes "p + n \<le> length xs" and "A < 8 * n"
  shows "data_bits (sub_at p n xs) A = data_bits xs (8 * p + A)"
proof -
  have "A div 8 < n" using assms(2) by (simp add: less_mult_imp_div_less mult.commute)
  then show ?thesis using assms(1) by (simp add: data_bits_def)
qed

lemma agree_sub_at:
  assumes "\<forall>xs \<in> set (orig # copies). p + n \<le> length xs" and "A < 8 * n"
  shows "agree (sub_at p n orig) A (map (sub_at p n) copies) = agree orig (8 * p + A) copies"
  using assms by (simp add: agree_def filter_map comp_def data_bits_sub_at cong: filter_cong)

lemma flash_bytes_sub: "p + n \<le> N \<Longrightarrow> flash_bytes d (a + of_nat p) n f = sub_at p n (flash_bytes d a N f)"
  by (rule nth_equalityI) (simp_all add: flash_bytes_def add.assoc)

definition pages :: "nat \<Rightarrow> nat" where
  "pages n = (n + 4095) div 4096"

lemma page_of: "4096 * j < n \<longleftrightarrow> j < pages n"
  by (auto simp: pages_def)

text \<open>The contents of the three slots, over all pages of the program, and what they agree on.\<close>

definition slot_contents :: "'f IFlashDriver \<Rightarrow> u8 list \<Rightarrow> nat \<Rightarrow> 'f \<Rightarrow> bytes list" where
  "slot_contents d slots n f = map (\<lambda>i. ProgramEntry_Content d i n f) slots"

definition survives :: "bytes \<Rightarrow> bytes list \<Rightarrow> bool" where
  "survives original copies \<longleftrightarrow> (\<forall>A < 8 * length original. 2 \<le> agree original A copies)"

lemma slot_page:
  assumes "slots = [x, y, z]" and "\<forall>i \<in> set slots. unat i < 6" and "length prog = 4096 * n"
    and "survives prog (slot_contents d slots (4096 * n) f)" and "j < n" and "n \<le> 128" and "length page = 4096"
  defines "spans \<equiv> map (\<lambda>i. \<lparr>s_addr = FlashBase + Entry_program i + of_nat (4096 * j),
      s_data = flash_bytes d (Entry_program i + of_nat (4096 * j)) PageSize f\<rparr>) slots"
  shows "CorrectBuffer3 \<lparr>s_addr = 0, s_data = page\<rparr> (spans ! 0) (spans ! 1) (spans ! 2)
      = (True, sub_at (4096 * j) 4096 prog)"
proof -
  have le: "4096 * j + 4096 \<le> 4096 * n" using assms(5) by simp
  have dat: "map s_data spans = map (sub_at (4096 * j) 4096) (slot_contents d slots (4096 * n) f)"
    using le by (simp add: spans_def slot_contents_def ProgramEntry_Content_def PageSize_def flash_bytes_sub
        del: of_nat_mult)
  have al: "FlashBase + Entry_program i + of_nat (4096 * j) AND 3 = 0" if "unat i < 6" for i
  proof -
    have o: "unat (of_nat (4096 * j) :: u32) = 4096 * j" using assms(5,6) by (subst unat_of_nat) simp
    have "unat (FlashBase + Entry_program i) = 0x84000000 + (524288 * unat i + 1024)"
      using that by (subst unat_add_small) (simp_all add: entry_fields FlashBase_def)
    then have "unat (FlashBase + Entry_program i + of_nat (4096 * j)) = 0x84000000 + (524288 * unat i + 1024) + 4096 * j"
      using that assms(5,6) o by (subst unat_add_small) (simp_all del: of_nat_mult)
    also have "\<dots> = 4 * (0x21000000 + 131072 * unat i + 256 + 1024 * j)" by simp
    finally show ?thesis unfolding aligned4 by (simp only: mod_mult_self1_is_0)
  qed
  have "\<forall>s \<in> set spans. IsAligned4 s" using al assms(2) by (auto simp: spans_def IsAligned4_def)
  moreover have "\<forall>A < 8 * 4096. 2 \<le> agree (sub_at (4096 * j) 4096 prog) A (map s_data spans)"
  proof (intro allI impI)
    fix A :: nat assume A: "A < 8 * 4096"
    have "\<forall>xs \<in> set (prog # slot_contents d slots (4096 * n) f). 4096 * j + 4096 \<le> length xs"
      using le assms(3) by (auto simp: slot_contents_def ProgramEntry_Content_def flash_bytes_def)
    then have "agree (sub_at (4096 * j) 4096 prog) A (map s_data spans)
        = agree prog (8 * (4096 * j) + A) (slot_contents d slots (4096 * n) f)"
      unfolding dat using A by (intro agree_sub_at)
    then show "2 \<le> agree (sub_at (4096 * j) 4096 prog) A (map s_data spans)"
      using assms(3,4,5) A le by (simp add: survives_def)
  qed
  ultimately show ?thesis
    using assms(1,3,7) le by (intro CorrectBuffer3_repairs) (simp_all add: spans_def span_len_def PageSize_def flash_bytes_def)
qed

lemma overwrite_append: "overwrite (a + length xs) ys (overwrite a xs m) = overwrite a (xs @ ys) m"
  by (auto simp: overwrite_def fun_eq_iff nth_append)

lemma drop_sub_at: "drop p xs = sub_at p n xs @ drop (p + n) xs"
  by (simp add: sub_at_def) (metis append_take_drop_id drop_drop add.commute)

lemma overwrite_same:
  assumes "cells m a (length bs) = bs"
  shows "overwrite a bs m = m"
proof
  fix i
  have "bs ! (i - a) = m i" if "a \<le> i" "i < a + length bs"
  proof -
    have "[0..<length bs] ! (i - a) = i - a" using that by (subst nth_upt) auto
    then show ?thesis using arg_cong [OF assms, of "\<lambda>xs. xs ! (i - a)"] that by (simp add: cells_def)
  qed
  then show "overwrite a bs m i = m i" by (simp add: overwrite_def)
qed

context mcu_flash
begin

lemma pages_loaded:
  assumes "slots = [x, y, z]" and "\<forall>i \<in> set slots. unat i < 6" and "length prog = 4096 * pages len"
    and "survives prog (slot_contents d slots (4096 * pages len) f)" and "len \<le> MaxProgram"
    and "j \<le> pages len" and "length page = PageSize" and "mok m"
  shows "\<exists>m'. load_pages d c slots (of_nat len) f (of_nat (4096 * j)) page m = Some m' \<and> mok m'
      \<and> mmem m' = overwrite (0x80000 + 4096 * j) (drop (4096 * j) prog) (mmem m)"
  using assms(6-8)
proof (induction "pages len - j" arbitrary: j page m)
  case 0
  then have j: "j = pages len" by simp
  have n: "pages len \<le> 128" using assms(5) by (simp add: pages_def MaxProgram_def)
  have "unat (of_nat len :: u32) = len" using assms(5) by (simp add: unat_of_nat MaxProgram_def)
  moreover have "unat (of_nat (4096 * j) :: u32) = 4096 * j" using n j by (subst unat_of_nat) simp
  ultimately have "\<not> (of_nat (4096 * j) :: u32) < of_nat len"
    using page_of [of j len] j by (simp add: word_less_nat_alt del: of_nat_mult)
  then have "load_pages d c slots (of_nat len) f (of_nat (4096 * j)) page m = Some m"
    by (subst load_pages.simps) simp
  then show ?case using 0 assms(3) j by simp
next
  case (Suc k)
  then have j: "j < pages len" by simp
  have n: "pages len \<le> 128" using assms(5) by (simp add: pages_def MaxProgram_def)
  have o: "unat (of_nat (4096 * j) :: u32) = 4096 * j" using n j by (subst unat_of_nat) simp
  have "unat (of_nat len :: u32) = len" using assms(5) by (simp add: unat_of_nat MaxProgram_def)
  then have lt: "(of_nat (4096 * j) :: u32) < of_nat len"
    using page_of [of j len] j o by (simp add: word_less_nat_alt del: of_nat_mult)
  define ptr where "ptr = BOOT_APPLICATION_BASE + of_nat (4096 * j)"
  have ptr: "unat ptr = 0x80000 + 4096 * j"
    unfolding ptr_def using n j o by (subst unat_add_small) (simp_all add: BOOT_APPLICATION_BASE_def del: of_nat_mult)
  define page1 where "page1 = sub_at (4096 * j) 4096 prog"
  have page1: "length page1 = PageSize" using assms(3) j by (simp add: page1_def PageSize_def)
  define ok where "ok \<longleftrightarrow> page1 = map (\<lambda>k. msc_read c (ptr + of_nat k) m) [0..<length page1]"
  define m1 where "m1 = (if \<not> ok then ProgramBlock c page1 ptr m else m)"
  have sz: "unat ptr + PageSize \<le> mcu_size" using n j by (simp add: ptr mcu_size_def PageSize_def)
  have m1: "mok m1" "mmem m1 = overwrite (unat ptr) page1 (mmem m)"
  proof -
    have al: "unat ptr mod PageSize = 0" unfolding ptr PageSize_def by presburger
    note p = block_programmed [OF Suc.prems(3) al sz page1]
    have r: "msc_read c (ptr + of_nat k) m = mmem m (unat ptr + k)" if "k < length page1" for k
    proof -
      have "unat (of_nat k :: u32) = k" using that page1 by (simp add: unat_of_nat PageSize_def)
      then have "unat (ptr + of_nat k) = unat ptr + k"
        using that page1 sz by (subst unat_add_small) (simp_all add: PageSize_def mcu_size_def)
      then show ?thesis using mcu_read [OF Suc.prems(3), of "ptr + of_nat k"] that page1 sz by simp
    qed
    have "ok \<Longrightarrow> cells (mmem m) (unat ptr) (length page1) = page1"
      unfolding ok_def cells_def using r by (metis (no_types, lifting) atLeastLessThan_iff map_eq_conv set_upt)
    then show "mok m1" "mmem m1 = overwrite (unat ptr) page1 (mmem m)"
      using p Suc.prems(3) by (auto simp: m1_def overwrite_same)
  qed
  have next_offset: "of_nat (4096 * j) + of_nat PageSize = (of_nat (4096 * Suc j) :: u32)" by (simp add: PageSize_def)
  have step: "load_pages d c slots (of_nat len) f (of_nat (4096 * j)) page m
      = load_pages d c slots (of_nat len) f (of_nat (4096 * Suc j)) page1 m1"
  proof -
    have "snd (CorrectBuffer3 \<lparr>s_addr = 0, s_data = page\<rparr>
        (map (\<lambda>i. \<lparr>s_addr = FlashBase + Entry_program i + of_nat (4096 * j),
           s_data = flash_bytes d (Entry_program i + of_nat (4096 * j)) PageSize f\<rparr>) slots ! 0)
        (map (\<lambda>i. \<lparr>s_addr = FlashBase + Entry_program i + of_nat (4096 * j),
           s_data = flash_bytes d (Entry_program i + of_nat (4096 * j)) PageSize f\<rparr>) slots ! 1)
        (map (\<lambda>i. \<lparr>s_addr = FlashBase + Entry_program i + of_nat (4096 * j),
           s_data = flash_bytes d (Entry_program i + of_nat (4096 * j)) PageSize f\<rparr>) slots ! 2)) = page1"
      using slot_page [OF assms(1-4) j n, of page] Suc.prems(2) by (simp add: PageSize_def page1_def)
    then show ?thesis
      using lt by (subst load_pages.simps)
        (simp only: Let_def if_True ptr_def [symmetric] ok_def [symmetric] m1_def [symmetric] next_offset)
  qed
  obtain m' where m': "load_pages d c slots (of_nat len) f (of_nat (4096 * Suc j)) page1 m1 = Some m'" "mok m'"
    "mmem m' = overwrite (0x80000 + 4096 * Suc j) (drop (4096 * Suc j) prog) (mmem m1)"
  proof -
    have "k = pages len - Suc j" using Suc.hyps(2) by simp
    then show ?thesis using that Suc.hyps(1) [of "Suc j" page1 m1] j m1(1) page1 by auto
  qed
  have "mmem m' = overwrite (0x80000 + 4096 * j) (drop (4096 * j) prog) (mmem m)"
    using overwrite_append [of "0x80000 + 4096 * j" page1 "drop (4096 * Suc j) prog" "mmem m"]
      drop_sub_at [of "4096 * j" prog 4096] page1
    by (simp add: m'(3) m1(2) ptr page1_def [symmetric] PageSize_def add.assoc [symmetric] add.commute)
  then show ?case unfolding step using m'(1,2) by (intro exI [of _ m'] conjI)
qed

end

lemma slot_loop_numbers:
  "set is \<subseteq> {..<6} \<Longrightarrow> \<forall>x \<in> set slots. unat x < 6 \<Longrightarrow>
     length (slot_loop slotsMask is j slots) = length slots
     \<and> (\<forall>x \<in> set (slot_loop slotsMask is j slots). unat x < 6)"
proof (induction slotsMask "is" j slots rule: slot_loop.induct)
  case (2 slotsMask i "is" j slots)
  have u: "\<forall>x \<in> set (slots[j := of_nat i]). unat x < 6"
    using "2.prems" by (auto dest!: set_update_subset_insert [THEN subsetD] simp: unat_of_nat)
  show ?case using 2 u by (auto split: if_splits)
qed simp

lemma ToSlotNumbers_three:
  "\<exists>x y z. ToSlotNumbers slotsMask = [x, y, z]" "\<forall>x \<in> set (ToSlotNumbers slotsMask). unat x < 6"
proof -
  have "length (ToSlotNumbers slotsMask) = 3 \<and> (\<forall>x \<in> set (ToSlotNumbers slotsMask). unat x < 6)"
    using slot_loop_numbers [of "[0..<6]" "[0, 0, 0]" slotsMask 0]
    by (simp add: ToSlotNumbers_def atLeast0LessThan numeral_3_eq_3)
  then show "\<exists>x y z. ToSlotNumbers slotsMask = [x, y, z]" "\<forall>x \<in> set (ToSlotNumbers slotsMask). unat x < 6"
    by (auto simp: length_Suc_conv eval_nat_numeral)
qed

lemma ResolveFailedBoot_flash: "bt_flash (ResolveFailedBoot fread fwrite b) = bt_flash b"
  "bt_mcu (ResolveFailedBoot fread fwrite b) = bt_mcu b"
  by (simp_all add: ResolveFailedBoot_def case_prod_beta Let_def)

lemma select_keeps:
  "bt_flash (snd (select_boot_slots d fread fwrite b)) = bt_flash b"
  "bt_mcu (snd (select_boot_slots d fread fwrite b)) = bt_mcu b"
  by (simp_all add: select_boot_slots_def case_prod_beta Let_def ResolveFailedBoot_flash)

lemma select_valid:
  assumes "fst (select_boot_slots d fread fwrite b) = slotsMask"
    and "slotsMask \<noteq> SafeModeBootSlot" and "slotsMask \<noteq> UpperBootSlot"
  shows "IsBootSlotsValid d slotsMask (bt_flash b)"
  using assms by (auto simp: select_boot_slots_def case_prod_beta Let_def ResolveFailedBoot_flash split: if_splits)

text \<open>A mask of the six entries with three bits set names three different ones; that is checked for all.\<close>

lemma masks_name_entries:
  "list_all (\<lambda>n. popcount (word_of_nat n :: u8) = 3 \<longrightarrow>
     distinct (ToSlotNumbers (word_of_nat n)) \<and> list_all (\<lambda>x. bit (word_of_nat n :: u8) (unat x)) (ToSlotNumbers (word_of_nat n)))
   [0..<64]"
  by code_simp

lemma mask_names_entries:
  assumes "popcount slotsMask = 3" and "slotsMask < 64"
  shows "distinct (ToSlotNumbers slotsMask)" "\<forall>x \<in> set (ToSlotNumbers slotsMask). bit slotsMask (unat x)"
proof -
  have "unat slotsMask \<in> set [0..<64]" using assms(2) by (simp add: word_less_nat_alt)
  then show "distinct (ToSlotNumbers slotsMask)" "\<forall>x \<in> set (ToSlotNumbers slotsMask). bit slotsMask (unat x)"
    using masks_name_entries assms(1) by (auto simp: list_all_iff dest!: bspec [of _ _ "unat slotsMask"])
qed

lemma valid_slots:
  assumes "IsBootSlotsValid d slotsMask f"
  shows "popcount slotsMask = 3"
    "2 \<le> length (filter (\<lambda>i. ProgramEntry_IsValid d i f) (ToSlotNumbers slotsMask))"
proof -
  obtain x y z where "ToSlotNumbers slotsMask = [x, y, z]" using ToSlotNumbers_three(1) by blast
  then show "popcount slotsMask = 3"
    "2 \<le> length (filter (\<lambda>i. ProgramEntry_IsValid d i f) (ToSlotNumbers slotsMask))"
    using assms by (auto simp: IsBootSlotsValid_def Let_def split: if_splits)
qed

text \<open>
  C16. When the boot loader starts a program from slots, two of the three entries it reads are marked
  valid; these are three different entries, and those that the mask names, unless one of the two upper
  bits of the mask is set, which name no entry (such a mask can have an entry read more than once). The
  start is at the application base with the program in place: provided that the lengths stored in the three
  entries are voted to one that fits an entry, and that every bit of the program, filled up to whole pages,
  survives in two of the three, the flash of the microcontroller holds the program from the application
  base on, and is unchanged elsewhere.
\<close>

theorem boot_runs_voted_program:
  assumes "mcu_flash mok mmem c" and "mok (bt_mcu b)" and "length pageBuffer = PageSize"
    and "select_boot_slots d fread fwrite b = (slotsMask, b')"
    and "slotsMask \<noteq> SafeModeBootSlot" and "slotsMask \<noteq> UpperBootSlot"
    and "Correct_array (map (\<lambda>i. ProgramEntry_Length d i (bt_flash b)) (ToSlotNumbers slotsMask)) = of_nat len"
    and "len \<le> MaxProgram" and "length prog = 4096 * pages len"
    and "survives prog (slot_contents d (ToSlotNumbers slotsMask) (4096 * pages len) (bt_flash b))"
  shows "2 \<le> length (filter (\<lambda>i. ProgramEntry_IsValid d i (bt_flash b)) (ToSlotNumbers slotsMask))
    \<and> (slotsMask < 64 \<longrightarrow> distinct (ToSlotNumbers slotsMask) \<and> (\<forall>i \<in> set (ToSlotNumbers slotsMask). bit slotsMask (unat i)))
    \<and> (\<exists>m'. ProceedWithBooting d c pageBuffer fread fwrite b
            = Some (BOOT_APPLICATION_BASE, b'\<lparr>bt_index := slotsMask, bt_mcu := m'\<rparr>)
          \<and> mmem m' = overwrite 0x80000 prog (mmem (bt_mcu b)))"
proof -
  have valid: "IsBootSlotsValid d slotsMask (bt_flash b)"
    using select_valid [of d fread fwrite b] assms(4-6) by simp
  have k: "bt_flash b' = bt_flash b" "bt_mcu b' = bt_mcu b"
    using select_keeps [of d fread fwrite b] assms(4) by simp_all
  obtain x y z where s: "ToSlotNumbers slotsMask = [x, y, z]" using ToSlotNumbers_three(1) by blast
  obtain m' where m': "load_pages d c (ToSlotNumbers slotsMask) (of_nat len) (bt_flash b) (of_nat (4096 * 0)) pageBuffer (bt_mcu b)
      = Some m'" "mmem m' = overwrite (0x80000 + 4096 * 0) (drop (4096 * 0) prog) (mmem (bt_mcu b))"
    using mcu_flash.pages_loaded [OF assms(1) s ToSlotNumbers_three(2) assms(9,10,8) _ assms(3,2), of 0] by auto
  have "ProceedWithBooting d c pageBuffer fread fwrite b
      = Some (BOOT_APPLICATION_BASE, b'\<lparr>bt_index := slotsMask, bt_mcu := m'\<rparr>)"
    using assms(4-7) k m'(1)
    by (simp add: ProceedWithBooting_def LoadApplication_def LoadApplicationTMR_def Let_def)
  then show ?thesis using valid_slots [OF valid] mask_names_entries m'(2) by auto
qed

section \<open>An example: three slots with a program of four bytes\<close>

definition nor_msc :: "(nat \<Rightarrow> u8) msc" where
  "nor_msc =
     \<lparr>msc_read = \<lambda>a m. m (unat a),
      msc_ErasePage = \<lambda>a m i. if unat a \<le> i \<and> i < unat a + PageSize then 0xFF else m i,
      msc_WriteWord = \<lambda>a bs m i. if unat a \<le> i \<and> i < unat a + length bs then m i AND bs ! (i - unat a) else m i\<rparr>"

interpretation mcu: mcu_flash "\<lambda>_. True" "\<lambda>m. m" nor_msc
proof
  fix m :: "nat \<Rightarrow> u8" and a :: u32 and bs :: bytes
  have ones: "0xFF AND v = (v :: u8)" for v by (rule bit_word_eqI) (simp add: bit_simps low_byte_mask)
  assume "\<And>i. unat a \<le> i \<Longrightarrow> i < unat a + length bs \<Longrightarrow> m i = 0xFF"
  then show "msc_WriteWord nor_msc a bs m = overwrite (unat a) bs m"
    by (auto simp: nor_msc_def overwrite_def fun_eq_iff ones)
qed (simp_all add: nor_msc_def)

definition example_settings :: "(fram, fdir) redundant_fm25w" where
  "example_settings =
     (let chip = \<lparr>fr_mem = overwrite 0 (le_bytes 4 MagicNumber @ [0b111, 0b111000]) (\<lambda>_. 0), fr_latch = False\<rparr>
      in \<lparr>rf_chip0 = chip, rf_chip1 = chip, rf_chip2 = chip, rf_errors = FDIR_new 0\<rparr>)"

definition example_flash :: "nat \<Rightarrow> u8" where
  "example_flash a =
     (let r = a mod 524288 in if r = 0 then 4 else if r < 4 then 0 else if r = 64 then 0xAA else 0xFF)"

definition example_boot :: "(nat \<Rightarrow> u8, nat \<Rightarrow> u8) flight_boot" where
  "example_boot = \<lparr>bt_settings = example_settings, bt_flash = example_flash, bt_mcu = \<lambda>_. 0,
     bt_reason = BootToUpper, bt_index = 0\<rparr>"

definition example_driver :: "(nat \<Rightarrow> u8) IFlashDriver" where "example_driver = FlashDriver nor_lld 0"

lemma example_view:
  "chips_agree example_settings"
  "settings_view example_settings = \<lparr>bv_magic = MagicNumber, bv_slots = 0b111, bv_failsafe = 0b111000,
     bv_counter = 0, bv_confirmed = 0\<rparr>"
proof -
  show "chips_agree example_settings" by (simp add: chips_agree_def example_settings_def Let_def)
  let ?m = "overwrite 0 (le_bytes 4 MagicNumber @ [0b111, 0b111000]) (\<lambda>_. 0)"
  have "cells ?m 0 4 = le_bytes 4 MagicNumber"
    by (rule nth_equalityI) (simp_all add: cells_def overwrite_def nth_append)
  moreover have "cells ?m 6 4 = [0, 0, 0, 0]" "cells ?m 10 4 = [0, 0, 0, 0]"
    by (simp_all add: cells_4 overwrite_def)
  ultimately show "settings_view example_settings = \<lparr>bv_magic = MagicNumber, bv_slots = 0b111,
      bv_failsafe = 0b111000, bv_counter = 0, bv_confirmed = 0\<rparr>"
    by (simp add: settings_view_def example_settings_def Let_def view_of_def byte_simps)
      (simp add: overwrite_def nth_append)
qed

lemma example_slots: "ToSlotNumbers 0b111 = [0, 1, 2]"
  by (simp add: ToSlotNumbers_def upt_rec)

lemma example_valid: "IsBootSlotsValid example_driver 0b111 example_flash"
proof -
  have v: "unat i < 6 \<Longrightarrow> ProgramEntry_IsValid example_driver i example_flash" for i
    by (simp add: ProgramEntry_IsValid_def example_driver_def FlashDriver_def nor_lld_def entry_fields
        example_flash_def Let_def)
  have "popcount 0b111 = 3" by (simp add: popcount_def upt_rec)
  then show ?thesis using v by (simp add: IsBootSlotsValid_def example_slots)
qed

lemma example_choice:
  "fst (select_boot_slots example_driver flight_read flight_write example_boot) = 0b111"
  using flight_choice [of example_boot example_driver] example_valid
  by (simp add: example_boot_def example_view boot_attempt_def choose_slots_def resolve_def bv_valid_def
      SafeModeBootSlot_def UpperBootSlot_def BootCounterTop_def)

theorem bootloader_choice_witness:
  "settings_view (bt_settings (snd (select_boot_slots example_driver flight_read flight_write example_boot)))
     = \<lparr>bv_magic = MagicNumber, bv_slots = 0b111, bv_failsafe = 0b111000, bv_counter = 1, bv_confirmed = 0\<rparr>"
proof -
  let ?r = "select_boot_slots example_driver flight_read flight_write example_boot"
  have "chips_agree (bt_settings example_boot)" by (simp add: example_boot_def example_view)
  from bootloader_choice [OF this, of example_driver "fst ?r" "snd ?r"]
  have "snd (boot_attempt (\<lambda>x. IsBootSlotsValid example_driver x example_flash) (settings_view example_settings))
      = settings_view (bt_settings (snd ?r))"
    by (simp add: example_boot_def)
  then show ?thesis
    using example_valid
    by (simp add: example_view boot_attempt_def choose_slots_def resolve_def bv_valid_def
      SafeModeBootSlot_def UpperBootSlot_def BootCounterTop_def)
qed

theorem bootloader_gives_up_witness:
  "fst (select_boot_slots example_driver flight_read flight_write ((next_boot example_driver ^^ 11) example_boot))
     = SafeModeBootSlot"
proof -
  have "chips_agree (bt_settings example_boot)" by (simp add: example_boot_def example_view)
  from bootloader_gives_up [OF this _ refl, of 11 example_driver] show ?thesis
    by (simp add: example_boot_def example_view names_upper_def UpperBootSlot_def)
qed

lemma example_content:
  assumes "unat i < 6"
  shows "ProgramEntry_Length example_driver i example_flash = 4"
    and "ProgramEntry_Content example_driver i 4096 example_flash = replicate 4096 0xFF"
proof -
  have b: "unat a + n \<le> flash_size \<Longrightarrow> flash_bytes example_driver a n example_flash = cells example_flash (unat a) n" for a n
    unfolding example_driver_def by (rule nor.driver.bytes_cells) simp_all
  have m: "(524288 * k + r) mod 524288 = r" if "r < 524288" for k r :: nat using that by simp
  have e: "r < 524288 \<Longrightarrow> example_flash (524288 * k + r)
      = (if r = 0 then 4 else if r < 4 then 0 else if r = 64 then 0xAA else 0xFF)" for k r :: nat
    by (simp only: example_flash_def Let_def m)
  have "cells example_flash (524288 * unat i) 4 = [4, 0, 0, 0]"
    unfolding cells_4 using e [of 0 "unat i"] e [of 1 "unat i"] e [of 2 "unat i"] e [of 3 "unat i"] by simp
  then show "ProgramEntry_Length example_driver i example_flash = 4"
    using assms by (simp add: ProgramEntry_Length_def b entry_fields flash_size_def)
  have "cells example_flash (524288 * unat i + 1024) 4096 = replicate 4096 0xFF"
  proof (rule nth_equalityI)
    fix k assume "k < length (cells example_flash (524288 * unat i + 1024) 4096)"
    then have "k < 4096" by simp
    then have "(524288 * unat i + 1024 + k) mod 524288 = 1024 + k"
      using m [of "1024 + k" "unat i"] by (simp add: add.assoc)
    then show "cells example_flash (524288 * unat i + 1024) 4096 ! k = replicate 4096 0xFF ! k"
      using \<open>k < 4096\<close> by (simp add: cells_def example_flash_def)
  qed simp
  then show "ProgramEntry_Content example_driver i 4096 example_flash = replicate 4096 0xFF"
    using assms by (simp add: ProgramEntry_Content_def b entry_fields flash_size_def)
qed

theorem boot_runs_voted_program_witness:
  "\<exists>b. ProceedWithBooting example_driver nor_msc (replicate PageSize 0) flight_read flight_write example_boot
      = Some (BOOT_APPLICATION_BASE, b) \<and> bt_mcu b = overwrite 0x80000 (replicate 4096 0xFF) (\<lambda>_. 0)"
proof -
  let ?r = "select_boot_slots example_driver flight_read flight_write example_boot"
  have p: "pages 4 = 1" by (simp add: pages_def)
  have c: "\<forall>i \<in> set [0, 1, 2 :: u8]. ProgramEntry_Content example_driver i 4096 example_flash = replicate 4096 0xFF"
    "map (\<lambda>i. ProgramEntry_Length example_driver i example_flash) [0, 1, 2] = [4, 4, 4]"
    by (simp_all add: example_content)
  have s: "survives (replicate 4096 0xFF) (slot_contents example_driver (ToSlotNumbers 0b111) (4096 * pages 4) (bt_flash example_boot))"
    using c(1) by (simp add: survives_def slot_contents_def example_slots p example_boot_def agree_def)
  have len: "Correct_array (map (\<lambda>i. ProgramEntry_Length example_driver i (bt_flash example_boot)) (ToSlotNumbers 0b111)) = of_nat 4"
    using c(2) by (simp add: example_slots example_boot_def Correct_array_def Correct3_def)
  have sel: "?r = (0b111, snd ?r)" using example_choice by (simp add: prod_eq_iff)
  have "2 \<le> length (filter (\<lambda>i. ProgramEntry_IsValid example_driver i (bt_flash example_boot)) (ToSlotNumbers 0b111))
    \<and> ((0b111 :: u8) < 64 \<longrightarrow> distinct (ToSlotNumbers 0b111) \<and> (\<forall>i \<in> set (ToSlotNumbers 0b111). bit (0b111 :: u8) (unat i)))
    \<and> (\<exists>m'. ProceedWithBooting example_driver nor_msc (replicate PageSize 0) flight_read flight_write example_boot
            = Some (BOOT_APPLICATION_BASE, (snd ?r)\<lparr>bt_index := 0b111, bt_mcu := m'\<rparr>)
          \<and> m' = overwrite 0x80000 (replicate 4096 0xFF) (bt_mcu example_boot))"
    by (rule boot_runs_voted_program [OF mcu.mcu_flash_axioms TrueI _ sel _ _ len _ _ s])
      (simp_all add: PageSize_def SafeModeBootSlot_def UpperBootSlot_def MaxProgram_def p)
  then show ?thesis by (auto simp: example_boot_def)
qed

section \<open>Masks that the telecommand and the boot loader see differently\<close>

text \<open>
  The telecommand that sets the masks looks at six bits, the boot loader counts all eight: a mask it
  accepts can be refused at the next start, and a mask with the two upper bits set passes the count
  although it names one slot, which is then read three times.
\<close>

theorem slot_masks_disagree:
  "IsValidBootSlot 0b11000111" "\<not> IsBootSlotsValid d 0b11000111 f"
  "\<not> IsValidBootSlot 0b11000001"
  "IsBootSlotsValid d 0b11000001 f \<longleftrightarrow> ProgramEntry_IsValid d 0 f"
  by (simp_all add: IsValidBootSlot_def IsBootSlotsValid_def popcount_def upt_rec ToSlotNumbers_def Let_def
      UpperBootSlot_def SafeModeBootSlot_def)

end
