(* ===== verification/Scrubber.thy ===== *)
theory Scrubber
  imports Bootloader Program_Upload
begin

text \<open>
  Memory scrubbing (libs/scrubber): the redundant copies of programs, boot loader, safe mode and boot
  settings are voted from time to time, and the damaged ones rewritten. \<open>taken\<close> is the outcome of
  the lock. The scrubbers share one buffer of 64 KB.
\<close>

section \<open>Programs (program.cpp)\<close>

record program_scrubber =
  ps_slotsMask :: u8
  ps_offset :: nat
  ps_iterationsCount :: u32
  ps_slotsCorrected :: u32

definition ProgramScrubber :: "u8 \<Rightarrow> program_scrubber" where
  "ProgramScrubber slotsMask =
     \<lparr>ps_slotsMask = slotsMask, ps_offset = 0, ps_iterationsCount = 0, ps_slotsCorrected = 0\<rparr>"

definition ScrubSize :: nat where "ScrubSize = 65536"
definition ScrubAreaSize :: nat where "ScrubAreaSize = 524288"

text \<open>The same loop as that of the boot loader.\<close>

definition DecodeSlotsMask :: "u8 \<Rightarrow> u8 list" where
  "DecodeSlotsMask m = slot_loop m [0..<EntriesCount] 0 [0, 0, 0]"

text \<open>Rewriting the copies that differ; the results of the flash operations are dropped.\<close>

fun rewrite_copies ::
  "'s IFlashDriver \<Rightarrow> bytes \<Rightarrow> (u32 \<times> bool) list \<Rightarrow> u32 \<Rightarrow> 's \<Rightarrow> u32 \<times> 's" where
  "rewrite_copies d buffer [] corrected s = (corrected, s)"
| "rewrite_copies d buffer ((flashOffset, isCorrect) # cs) corrected s =
     (if isCorrect then rewrite_copies d buffer cs corrected s
      else
        (let s = snd (fl_EraseSector d flashOffset s);
             s = snd (fl_Program d flashOffset buffer s)
         in rewrite_copies d buffer cs (corrected + 1) s))"

definition flash_span :: "'s IFlashDriver \<Rightarrow> u32 \<Rightarrow> nat \<Rightarrow> 's \<Rightarrow> span" where
  "flash_span d a n s = \<lparr>s_addr = FlashBase + a, s_data = flash_bytes d a n s\<rparr>"

definition ScrubSlots ::
  "'s IFlashDriver \<Rightarrow> bool \<Rightarrow> bytes \<Rightarrow> program_scrubber \<Rightarrow> 's \<Rightarrow> bytes \<times> program_scrubber \<times> 's" where
  "ScrubSlots d taken buffer ps s =
     (let slots = DecodeSlotsMask (ps_slotsMask ps)
      in if \<not> taken then (buffer, ps, s)
         else
           (let offsets = map (\<lambda>i. InFlashOffset i + of_nat (ps_offset ps)) slots;
                scrubSpans = map (\<lambda>a. flash_span d a ScrubSize s) offsets;
                buffer = snd (CorrectBuffer3 \<lparr>s_addr = 0, s_data = buffer\<rparr>
                                (scrubSpans ! 0) (scrubSpans ! 1) (scrubSpans ! 2));
                isCorrect = map (\<lambda>x. s_data x = buffer) scrubSpans;
                (corrected, s) = rewrite_copies d buffer (zip offsets isCorrect) (ps_slotsCorrected ps) s;
                offset = ps_offset ps + ScrubSize;
                offset = (if ScrubAreaSize \<le> offset then 0 else offset)
            in (buffer, ps\<lparr>ps_slotsCorrected := corrected, ps_offset := offset,
                           ps_iterationsCount := ps_iterationsCount ps + 1\<rparr>, s)))"

section \<open>Boot loader (bootloader.cpp)\<close>

record bootloader_scrubber =
  bs_iterationsCount :: u32
  bs_copiesCorrected :: u32
  bs_mcuPagesCorrected :: u32

definition BootloaderScrubber :: bootloader_scrubber where
  "BootloaderScrubber = \<lparr>bs_iterationsCount = 0, bs_copiesCorrected = 0, bs_mcuPagesCorrected = 0\<rparr>"

definition mcu_bytes :: "'m msc \<Rightarrow> u32 \<Rightarrow> nat \<Rightarrow> 'm \<Rightarrow> bytes" where
  "mcu_bytes c a n m = map (\<lambda>k. msc_read c (a + of_nat k) m) [0..<n]"

text \<open>The loop over the pages of the microcontroller, page number \<open>k\<close> at \<open>4096 * k\<close>.\<close>

fun rewrite_pages :: "'m msc \<Rightarrow> bytes \<Rightarrow> nat list \<Rightarrow> u32 \<Rightarrow> 'm \<Rightarrow> u32 \<times> 'm" where
  "rewrite_pages c buffer [] corrected m = (corrected, m)"
| "rewrite_pages c buffer (k # ks) corrected m =
     (let offset = of_nat (4096 * k);
          validPart = sub_at (4096 * k) 4096 buffer
      in if mcu_bytes c offset 4096 m = validPart then rewrite_pages c buffer ks corrected m
         else
           (let m = msc_ErasePage c offset m;
                m = msc_WriteWord c offset validPart m
            in rewrite_pages c buffer ks (corrected + 1) m))"

definition BootloaderScrubber_Scrub ::
  "'s IFlashDriver \<Rightarrow> 'm msc \<Rightarrow> bool \<Rightarrow> bytes \<Rightarrow> bootloader_scrubber \<Rightarrow> 's \<Rightarrow> 'm
     \<Rightarrow> bytes \<times> bootloader_scrubber \<times> 's \<times> 'm" where
  "BootloaderScrubber_Scrub d c taken buffer bs s m =
     (if \<not> taken then (buffer, bs, s, m)
      else
        (let offsets = map BootloaderCopy_base [0, 1, 2, 3, 4];
             spans = map (\<lambda>a. flash_span d a BootloaderCopy_Size s) offsets;
             buffer = snd (CorrectBuffer5 \<lparr>s_addr = 0, s_data = buffer\<rparr> spans);
             isCorrect = map (\<lambda>x. s_data x = buffer) spans;
             (copies, s) = rewrite_copies d buffer (zip offsets isCorrect) (bs_copiesCorrected bs) s;
             (pgs, m) = rewrite_pages c buffer [0..<16] (bs_mcuPagesCorrected bs) m
         in (buffer, bs\<lparr>bs_copiesCorrected := copies, bs_mcuPagesCorrected := pgs\<rparr>, s, m)))"

section \<open>Safe mode (safe_mode.cpp)\<close>

record safe_mode_scrubber =
  ss_iterationsCount :: u32
  ss_copiesCorrected :: u32
  ss_eepromPagesCorrected :: u32

definition SafeModeScrubber :: safe_mode_scrubber where
  "SafeModeScrubber = \<lparr>ss_iterationsCount = 0, ss_copiesCorrected = 0, ss_eepromPagesCorrected = 0\<rparr>"

text \<open>The EEPROM on the external bus; a read can change it, as it tells when a write is over.\<close>

record 'e eeprom =
  ee_read :: "u32 \<Rightarrow> 'e \<Rightarrow> u8 \<times> 'e"
  ee_write :: "u32 \<Rightarrow> u8 \<Rightarrow> 'e \<Rightarrow> 'e"

fun ee_bytes :: "'e eeprom \<Rightarrow> u32 \<Rightarrow> nat \<Rightarrow> 'e \<Rightarrow> bytes \<times> 'e" where
  "ee_bytes x a 0 e = ([], e)"
| "ee_bytes x a (Suc n) e =
     (let (b, e) = ee_read x a e; (bs, e) = ee_bytes x (a + 1) n e in (b # bs, e))"

fun ee_writes :: "'e eeprom \<Rightarrow> u32 \<Rightarrow> bytes \<Rightarrow> 'e \<Rightarrow> 'e" where
  "ee_writes x a [] e = e"
| "ee_writes x a (b # bs) e = ee_writes x (a + 1) bs (ee_write x a b e)"

text \<open>Waiting for the last byte to be there: \<open>None\<close> is for ever.\<close>

partial_function (option) ee_wait :: "'e eeprom \<Rightarrow> u32 \<Rightarrow> u8 \<Rightarrow> 'e \<Rightarrow> 'e option" where
  "ee_wait x a b e =
     (let (v, e) = ee_read x a e
      in if v AND 0x80 \<noteq> b AND 0x80 then ee_wait x a b e else Some e)"

definition ee_write_page :: "'e eeprom \<Rightarrow> u32 \<Rightarrow> bytes \<Rightarrow> 'e \<Rightarrow> 'e option" where
  "ee_write_page x offset correctPart e =
     (let e = ee_write x 0x5555 0xAA e;
          e = ee_write x 0x2AAA 0x55 e;
          e = ee_write x 0x5555 0xA0 e;
          e = ee_writes x offset correctPart e
      in ee_wait x (offset + 63) (correctPart ! 63) e)"

fun rewrite_eeprom :: "'e eeprom \<Rightarrow> bytes \<Rightarrow> nat list \<Rightarrow> u32 \<Rightarrow> 'e \<Rightarrow> (u32 \<times> 'e) option" where
  "rewrite_eeprom x buffer [] corrected e = Some (corrected, e)"
| "rewrite_eeprom x buffer (k # ks) corrected e =
     (let offset = of_nat (64 * k);
          correctPart = sub_at (64 * k) 64 buffer;
          (bs, e) = ee_bytes x offset 64 e
      in if bs = correctPart then rewrite_eeprom x buffer ks corrected e
         else
           (case ee_write_page x offset correctPart e of
              None \<Rightarrow> None
            | Some e \<Rightarrow> rewrite_eeprom x buffer ks (corrected + 1) e))"

text \<open>The buffer is the first 32 KB of the shared one.\<close>

definition SafeModeScrubber_Scrub ::
  "'s IFlashDriver \<Rightarrow> 'e eeprom \<Rightarrow> bool \<Rightarrow> bytes \<Rightarrow> safe_mode_scrubber \<Rightarrow> 's \<Rightarrow> 'e
     \<Rightarrow> (bytes \<times> safe_mode_scrubber \<times> 's \<times> 'e) option" where
  "SafeModeScrubber_Scrub d x taken shared ss s e =
     (if \<not> taken then Some (shared, ss, s, e)
      else
        (let offsets = map SafeModeCopy_base [0, 1, 2, 3, 4];
             spans = map (\<lambda>a. flash_span d a SafeModeCopy_Size s) offsets;
             buffer = snd (CorrectBuffer5 \<lparr>s_addr = 0, s_data = take SafeModeCopy_Size shared\<rparr> spans);
             isCorrect = map (\<lambda>y. s_data y = buffer) spans;
             (copies, s) = rewrite_copies d buffer (zip offsets isCorrect) (ss_copiesCorrected ss) s
         in case rewrite_eeprom x buffer [0..<512] (ss_eepromPagesCorrected ss) e of
              None \<Rightarrow> None
            | Some (pgs, e) \<Rightarrow>
                Some (put_at 0 buffer shared,
                      ss\<lparr>ss_copiesCorrected := copies, ss_eepromPagesCorrected := pgs\<rparr>, s, e)))"

section \<open>Boot settings (boot_settings.cpp)\<close>

definition BootSettingsSize :: nat where "BootSettingsSize = 16"

definition BootSettingsScrubber_Scrub :: "'s fread \<Rightarrow> 's fwrite \<Rightarrow> bool \<Rightarrow> 's \<Rightarrow> 's" where
  "BootSettingsScrubber_Scrub fread fwrite taken s =
     (if \<not> taken then s
      else (let (buffer, s) = fread 0 BootSettingsSize s in fwrite 0 buffer s))"

section \<open>The memory of the microcontroller (ram.hpp)\<close>

text \<open>
  One cycle reads and writes back \<open>CycleSize\<close> bytes, by words, from the current position, and moves
  on; \<open>start\<close>, \<open>n\<close> and \<open>cycle\<close> are the template parameters, all multiples of four.
\<close>

definition RAMScrubber_Scrub :: "u32 \<Rightarrow> u32 \<Rightarrow> u32 \<Rightarrow> u32 \<Rightarrow> u32" where
  "RAMScrubber_Scrub start n cycle current =
     (let current = current + cycle in if start + n < current then start else current)"

text \<open>
  The position is compared with the end of the memory by \<open>>\<close>: the cycle after the last one starts at
  the end, and rewrites \<open>CycleSize\<close> bytes that lie behind the memory before it starts over.
\<close>

lemma RAMScrubber_positions:
  assumes "unat start + unat n + unat cycle < 2 ^ 32" and "unat n = N * unat cycle" and "0 < unat cycle"
    and "k \<le> N"
  shows "(RAMScrubber_Scrub start n cycle ^^ k) start = start + of_nat k * cycle
    \<and> unat (start + of_nat k * cycle) = unat start + k * unat cycle"
  using assms(4)
proof (induction k)
  case (Suc k)
  have le: "Suc k * unat cycle \<le> unat n" using Suc.prems assms(2) mult_le_mono1 by metis
  have u: "unat (start + of_nat k * cycle) = unat start + k * unat cycle"
    "(RAMScrubber_Scrub start n cycle ^^ k) start = start + of_nat k * cycle" using Suc by simp_all
  have e: "start + of_nat (Suc k) * cycle = (start + of_nat k * cycle) + cycle" by (simp add: algebra_simps)
  then have u': "unat (start + of_nat (Suc k) * cycle) = unat start + Suc k * unat cycle"
    unfolding e using u(1) le assms(1) by (subst unat_add_small) simp_all
  have "unat (start + n) = unat start + unat n" using assms(1) by (intro unat_add_small) simp
  then have "\<not> start + n < start + of_nat (Suc k) * cycle" using u' le by (simp add: word_less_nat_alt)
  then have "RAMScrubber_Scrub start n cycle (start + of_nat k * cycle) = start + of_nat (Suc k) * cycle"
    unfolding e by (simp add: RAMScrubber_Scrub_def Let_def add.assoc)
  then show ?case using u' u(2) by (simp only: funpow.simps comp_apply)
qed simp

theorem RAMScrubber_runs_over:
  assumes "unat start + unat n + unat cycle < 2 ^ 32" and "unat n = N * unat cycle" and "0 < unat cycle"
  shows "(RAMScrubber_Scrub start n cycle ^^ N) start = start + n"
    and "(RAMScrubber_Scrub start n cycle ^^ Suc N) start = start"
proof -
  have u: "unat (start + n) = unat start + unat n" using assms(1) by (intro unat_add_small) simp
  then show e: "(RAMScrubber_Scrub start n cycle ^^ N) start = start + n"
    using RAMScrubber_positions [OF assms order_refl] assms(2) by (metis word_unat_eq_iff)
  have "unat (start + n + cycle) = unat start + unat n + unat cycle"
    using u assms(1) by (simp add: unat_add_small)
  then have "start + n < start + n + cycle" using u assms(3) by (simp add: word_less_nat_alt)
  then have "RAMScrubber_Scrub start n cycle (start + n) = start" by (simp add: RAMScrubber_Scrub_def Let_def)
  then show "(RAMScrubber_Scrub start n cycle ^^ Suc N) start = start" using e by (simp only: funpow.simps comp_apply)
qed

section \<open>Rewritten copies\<close>

lemma sector_start:
  assumes "a mod 65536 = 0" and "a \<le> k" and "k < a + 65536"
  shows "65536 * (k div 65536) = (a :: nat)"
proof -
  obtain q where q: "a = 65536 * q" using assms(1) by (auto simp: mod_eq_0_iff_dvd)
  then have "k div 65536 = q" using assms(2,3) by (intro div_nat_eqI) auto
  then show ?thesis using q by simp
qed

definition rewritten :: "u32 list \<Rightarrow> nat set" where
  "rewritten as = (\<Union>a \<in> set as. {unat a ..< unat a + 65536})"

context working_flash_driver
begin

lemma rewrite_one:
  assumes "ok s" and "unat a + 65536 \<le> flash_size" and "unat a mod 65536 = 0" and n: "length buffer \<le> 65536"
  defines "t \<equiv> snd (fl_Program d a buffer (snd (fl_EraseSector d a s)))"
  shows "confined {unat a ..< unat a + 65536} s t" "cells (mem t) (unat a) (length buffer) = buffer"
proof -
  let ?e = "snd (fl_EraseSector d a s)"
  have lt: "unat a < flash_size" using assms(2) by simp
  have e: "confined (sector (unat a)) s ?e"
    using erase_ok [OF assms(1-3)] erase_other [OF assms(1-3)] by (simp add: confined_def)
  note oe = confined_ok [OF e]
  have FF: "mem ?e i = 0xFF" if "unat a \<le> i" "i < unat a + length buffer" for i
    using erase_done [OF assms(1-3) erase_works [OF assms(1-3)]] that n by (simp add: sector_def)
  have le: "unat a + length buffer \<le> flash_size" using assms(2) n by simp
  have nb: "fst (fl_Program d a buffer ?e) = NotBusy" by (rule program_works [OF oe le lt FF])
  have p: "confined {unat a ..< unat a + length buffer} ?e t"
    unfolding t_def by (rule program_confined [OF oe le lt])
  show "confined {unat a ..< unat a + 65536} s t"
    using confined_trans [OF confined_mono [OF e] confined_mono [OF p]] n by (auto simp: sector_def)
  show "cells (mem t) (unat a) (length buffer) = buffer"
    using program_done [OF oe le lt nb] cells_overwrite by (simp add: t_def)
qed

text \<open>
  Afterwards every copy is the buffer, if the copies marked as correct were; the copies lie in
  different sectors, or are the same.
\<close>

lemma copies_rewritten:
  assumes "ok s" and al: "\<forall>a \<in> set (map fst cs). unat a + 65536 \<le> flash_size \<and> unat a mod 65536 = 0"
    and n: "length buffer \<le> 65536"
    and "\<forall>(a, isCorrect) \<in> set cs. isCorrect \<longrightarrow> cells (mem s) (unat a) (length buffer) = buffer"
  defines "t \<equiv> \<lambda>cs corrected s. snd (rewrite_copies d buffer cs corrected s)"
  shows "confined (rewritten (map fst cs)) s (t cs corrected s) \<and>
    (\<forall>a \<in> set (map fst cs). cells (mem (t cs corrected s)) (unat a) (length buffer) = buffer)"
  using assms(1,2,4)
proof (induction cs arbitrary: corrected s)
  case Nil
  then show ?case by (simp add: t_def confined_refl)
next
  case (Cons x cs)
  obtain a isCorrect where x: "x = (a, isCorrect)" by (cases x)
  have al: "unat a + 65536 \<le> flash_size" "unat a mod 65536 = 0" using Cons.prems(2) x by simp_all
  define s' where "s' = (if isCorrect then s else snd (fl_Program d a buffer (snd (fl_EraseSector d a s))))"
  define k' where "k' = (if isCorrect then corrected else corrected + 1)"
  have t: "t (x # cs) corrected s = t cs k' s'" by (simp add: t_def x s'_def k'_def Let_def)
  have c: "confined {unat a ..< unat a + 65536} s s'" "cells (mem s') (unat a) (length buffer) = buffer"
    using rewrite_one [OF Cons.prems(1) al n] Cons.prems(1,3) x by (auto simp: s'_def confined_refl)
  have keep: "cells (mem s') (unat b) (length buffer) = buffer"
    if "cells (mem s) (unat b) (length buffer) = buffer" "unat b mod 65536 = 0" for b :: u32
  proof (cases "unat a = unat b")
    case False
    have "k \<notin> {unat a ..< unat a + 65536}" if "unat b \<le> k" "k < unat b + length buffer" for k
      using sector_start [OF al(2), of k] sector_start [OF \<open>unat b mod 65536 = 0\<close>, of k] that n False by auto
    then have "cells (mem s') (unat b) (length buffer) = cells (mem s) (unat b) (length buffer)"
      unfolding cells_def using confined_mem [OF c(1)] by (intro map_cong) auto
    then show ?thesis using that(1) by simp
  qed (use c(2) in simp)
  have "\<forall>(b, isCorrect) \<in> set cs. isCorrect \<longrightarrow> cells (mem s') (unat b) (length buffer) = buffer"
    using Cons.prems(2,3) keep by fastforce
  then have ih: "confined (rewritten (map fst cs)) s' (t cs k' s')"
    "\<forall>b \<in> set (map fst cs). cells (mem (t cs k' s')) (unat b) (length buffer) = buffer"
    using Cons.IH [OF confined_ok [OF c(1)], of k'] Cons.prems(2) by auto
  have "cells (mem (t cs k' s')) (unat a) (length buffer) = buffer"
  proof (cases "a \<in> set (map fst cs)")
    case False
    have "k \<notin> rewritten (map fst cs)" if k: "unat a \<le> k" "k < unat a + length buffer" for k
    proof
      assume "k \<in> rewritten (map fst cs)"
      then obtain b where b: "b \<in> set (map fst cs)" "unat b \<le> k" "k < unat b + 65536" by (auto simp: rewritten_def)
      then have "unat b = unat a"
        using sector_start [OF al(2), of k] sector_start [of "unat b" k] Cons.prems(2) k n by auto
      then have "b = a" by (simp add: word_unat_eq_iff)
      then show False using b(1) False by simp
    qed
    then have "cells (mem (t cs k' s')) (unat a) (length buffer) = cells (mem s') (unat a) (length buffer)"
      unfolding cells_def using confined_mem [OF ih(1)] by (intro map_cong) auto
    then show ?thesis using c(2) by simp
  qed (use ih(2) in auto)
  moreover have "confined (rewritten (map fst (x # cs))) s (t cs k' s')"
    by (rule confined_trans [OF confined_mono [OF c(1)] confined_mono [OF ih(1)]]) (auto simp: rewritten_def x)
  ultimately show ?case unfolding t using ih(2) by (auto simp: x)
qed

end

section \<open>A scrubbed program\<close>

lemma DecodeSlotsMask_numbers: "DecodeSlotsMask m = ToSlotNumbers m"
  by (simp add: DecodeSlotsMask_def ToSlotNumbers_def EntriesCount_def)

lemma sub_cells: "p + n \<le> N \<Longrightarrow> sub_at p n (cells m a N) = cells m (a + p) n"
  by (rule nth_equalityI) (simp_all add: cells_def add.assoc)

lemma survives_sub_at:
  assumes "survives original copies" and "p + n \<le> length original" and "\<forall>xs \<in> set copies. length xs = length original"
  shows "survives (sub_at p n original) (map (sub_at p n) copies)"
  unfolding survives_def
proof (intro allI impI)
  fix A assume "A < 8 * length (sub_at p n original)"
  then have A: "A < 8 * n" using assms(2) by simp
  have "\<forall>xs \<in> set (original # copies). p + n \<le> length xs" using assms(2,3) by auto
  then show "2 \<le> agree (sub_at p n original) A (map (sub_at p n) copies)"
    using assms(1,2) A agree_sub_at [of original copies p n A] by (simp add: survives_def)
qed

definition scrub_offset :: "u8 \<Rightarrow> nat \<Rightarrow> u32" where
  "scrub_offset i j = InFlashOffset i + of_nat (65536 * j)"

lemma unat_scrub_offset: "unat i < 6 \<Longrightarrow> j < 8 \<Longrightarrow> unat (scrub_offset i j) = 524288 * unat i + 65536 * j"
proof -
  assume i: "unat i < 6" and j: "j < 8"
  have "unat (of_nat (65536 * j) :: u32) = 65536 * j" by (subst unat_of_nat) (use j in simp)
  moreover have "524288 * unat i + 65536 * j < 2 ^ 32" using i j by simp
  ultimately show ?thesis
    unfolding scrub_offset_def using unat_add_small [of "InFlashOffset i" "of_nat (65536 * j)"]
    by (simp only: entry_offset [OF i])
qed

lemma scrub_offset_sector:
  assumes "unat i < 6" and "j < 8"
  shows "unat (scrub_offset i j) mod 65536 = 0" "unat (scrub_offset i j) + 65536 \<le> flash_size"
    "FlashBase + scrub_offset i j AND 3 = 0"
proof -
  note u = unat_scrub_offset [OF assms]
  have "unat (scrub_offset i j) = 65536 * (8 * unat i + j)" using u by simp
  then show "unat (scrub_offset i j) mod 65536 = 0" by (simp only: mod_mult_self1_is_0)
  show "unat (scrub_offset i j) + 65536 \<le> flash_size" using u assms by (simp add: flash_size_def)
  have "unat (FlashBase + scrub_offset i j) = 0x84000000 + (524288 * unat i + 65536 * j)"
    using u assms by (subst unat_add_small) (simp_all add: FlashBase_def)
  also have "\<dots> = 4 * (0x21000000 + 131072 * unat i + 16384 * j)" by simp
  finally show "FlashBase + scrub_offset i j AND 3 = 0" unfolding aligned4 by (simp only: mod_mult_self1_is_0)
qed

context working_flash_driver
begin

lemma scrub_step:
  assumes "ok s" and "length buffer = 65536" and j: "ps_offset ps = 65536 * j" "j < 8"
    and slots: "ToSlotNumbers (ps_slotsMask ps) = slots"
    and o: "length original = 65536" "survives original (map (\<lambda>i. flash_bytes d (scrub_offset i j) 65536 s) slots)"
  obtains ps' s' where "ScrubSlots d True buffer ps s = (original, ps', s')"
    "ps_slotsMask ps' = ps_slotsMask ps" "ps_offset ps' = (if j = 7 then 0 else 65536 * Suc j)"
    "confined (rewritten (map (\<lambda>i. scrub_offset i j) slots)) s s'"
    "\<forall>i \<in> set slots. cells (mem s') (524288 * unat i + 65536 * j) 65536 = original"
proof -
  obtain x y z where xyz: "slots = [x, y, z]" using ToSlotNumbers_three(1) slots by metis
  have six: "\<forall>i \<in> set slots. unat i < 6" using ToSlotNumbers_three(2) slots by metis
  let ?offsets = "map (\<lambda>i. scrub_offset i j) slots"
  let ?spans = "map (\<lambda>a. flash_span d a ScrubSize s) ?offsets"
  have off: "map (\<lambda>i. InFlashOffset i + of_nat (ps_offset ps)) slots = ?offsets"
    by (simp only: scrub_offset_def j(1))
  have vote: "CorrectBuffer3 \<lparr>s_addr = 0, s_data = buffer\<rparr> (?spans ! 0) (?spans ! 1) (?spans ! 2) = (True, original)"
    using assms(2) o six scrub_offset_sector(3) [OF _ j(2)]
    by (intro CorrectBuffer3_repairs)
      (simp_all add: xyz flash_span_def span_len_def ScrubSize_def flash_bytes_def IsAligned4_def survives_def)
  let ?cs = "zip ?offsets (map (\<lambda>x. s_data x = original) ?spans)"
  have fst: "map fst ?cs = ?offsets" by simp
  have al: "\<forall>a \<in> set (map fst ?cs). unat a + 65536 \<le> flash_size \<and> unat a mod 65536 = 0"
    unfolding fst using six scrub_offset_sector [OF _ j(2)] by auto
  have start: "\<forall>(a, isCorrect) \<in> set ?cs. isCorrect \<longrightarrow> cells (mem s) (unat a) (length original) = original"
    using six scrub_offset_sector(2) [OF _ j(2)] assms(1) o(1)
    by (auto simp: xyz flash_span_def ScrubSize_def bytes_cells)
  note r = copies_rewritten [OF assms(1) al _ start, of "ps_slotsCorrected ps", unfolded fst]
  let ?r = "rewrite_copies d original ?cs (ps_slotsCorrected ps) s"
  have run: "ScrubSlots d True buffer ps s =
      (original, ps\<lparr>ps_slotsCorrected := fst ?r, ps_offset := (if j = 7 then 0 else 65536 * Suc j),
         ps_iterationsCount := ps_iterationsCount ps + 1\<rparr>, snd ?r)"
  proof -
    have "(if ScrubAreaSize \<le> ps_offset ps + ScrubSize then 0 else ps_offset ps + ScrubSize)
        = (if j = 7 then 0 else 65536 * Suc j)"
      using j by (auto simp: ScrubAreaSize_def ScrubSize_def)
    then show ?thesis
      by (simp only: ScrubSlots_def Let_def DecodeSlotsMask_numbers slots off vote snd_conv case_prod_beta
          not_True_eq_False if_False)
  qed
  show ?thesis
  proof (rule that [OF run])
    show "confined (rewritten ?offsets) s (snd ?r)" using r o(1) by simp
    show "\<forall>i \<in> set slots. cells (mem (snd ?r)) (524288 * unat i + 65536 * j) 65536 = original"
      using r o(1) six unat_scrub_offset [OF _ j(2)] by auto
  qed simp_all
qed

end


section \<open>Rounds of scrubbing\<close>

definition scrub_round ::
  "'s IFlashDriver \<Rightarrow> bytes \<times> program_scrubber \<times> 's \<Rightarrow> bytes \<times> program_scrubber \<times> 's" where
  "scrub_round d = (\<lambda>(buffer, ps, s). ScrubSlots d True buffer ps s)"

text \<open>What \<open>k\<close> rounds that start at offset 0 can touch.\<close>

definition scrubbed :: "u8 list \<Rightarrow> nat \<Rightarrow> nat set" where
  "scrubbed slots k = (\<Union>i \<in> set slots. {524288 * unat i ..< 524288 * unat i + 65536 * k})"

lemma scrubbed_iff:
  assumes "x < 524288" and "k \<le> 8"
  shows "524288 * unat i + x \<in> scrubbed slots k \<longleftrightarrow> i \<in> set slots \<and> x < 65536 * k"
proof -
  have "i = j" if "524288 * unat j \<le> 524288 * unat i + x" "524288 * unat i + x < 524288 * unat j + 65536 * k" for j
  proof -
    have "(524288 * unat i + x) div 524288 = unat j" using that assms(2) by (intro div_nat_eqI) auto
    then show ?thesis using assms(1) by (simp add: word_unat_eq_iff)
  qed
  note same = this
  show ?thesis
  proof
    assume "524288 * unat i + x \<in> scrubbed slots k"
    then obtain j where j: "j \<in> set slots" "524288 * unat j \<le> 524288 * unat i + x"
        "524288 * unat i + x < 524288 * unat j + 65536 * k"
      by (auto simp: scrubbed_def)
    then have "i = j" by (intro same)
    then show "i \<in> set slots \<and> x < 65536 * k" using j by simp
  next
    assume "i \<in> set slots \<and> x < 65536 * k"
    then show "524288 * unat i + x \<in> scrubbed slots k" by (auto simp: scrubbed_def intro!: bexI [of _ i])
  qed
qed

lemma scrubbed_disjoint:
  assumes "k \<le> 8" and "a + n \<le> 524288" and "i \<in> set slots \<Longrightarrow> 65536 * k \<le> a"
  shows "{524288 * unat i + a ..< 524288 * unat i + a + n} \<inter> scrubbed slots k = {}"
proof (intro equals0I)
  fix z assume z: "z \<in> {524288 * unat i + a ..< 524288 * unat i + a + n} \<inter> scrubbed slots k"
  then have "z = 524288 * unat i + (z - 524288 * unat i)" "a \<le> z - 524288 * unat i"
    "z - 524288 * unat i < a + n" by auto
  then show False
    using z assms scrubbed_iff [of "z - 524288 * unat i" k i slots] by auto
qed

lemma rewritten_scrubbed:
  assumes "\<forall>i \<in> set slots. unat i < 6" and "k < 8"
  shows "rewritten (map (\<lambda>i. scrub_offset i k) slots) \<subseteq> scrubbed slots (Suc k)"
    and "rewritten (map (\<lambda>i. scrub_offset i k) slots) \<inter> scrubbed slots k = {}"
proof -
  have r: "rewritten (map (\<lambda>i. scrub_offset i k) slots)
      = (\<Union>i \<in> set slots. {524288 * unat i + 65536 * k ..< 524288 * unat i + 65536 * k + 65536})"
    using assms by (auto simp: rewritten_def unat_scrub_offset)
  show "rewritten (map (\<lambda>i. scrub_offset i k) slots) \<subseteq> scrubbed slots (Suc k)"
    unfolding r scrubbed_def by (intro UN_mono) auto
  show "rewritten (map (\<lambda>i. scrub_offset i k) slots) \<inter> scrubbed slots k = {}"
    unfolding r using scrubbed_disjoint [of k "65536 * k" 65536 _ slots] assms(2) by (force simp: disjoint_iff)
qed

lemma take_sub_at: "take a xs @ sub_at a n xs = take (a + n) xs"
  by (simp add: sub_at_def take_add)

context working_flash_driver
begin

lemma cells_confined: "confined A s t \<Longrightarrow> {a ..< a + n} \<inter> A = {} \<Longrightarrow> cells (mem t) a n = cells (mem s) a n"
  by (rule cells_cong, rule confined_mem) auto

lemma scrub_rounds:
  assumes "ok s0" and "length buffer0 = 65536" and "ps_offset ps0 = 0"
    and slots: "ToSlotNumbers (ps_slotsMask ps0) = slots"
    and prog: "length prog = 524288" "survives prog (map (\<lambda>i. ProgramEntry_WholeEntry d i s0) slots)"
    and "k \<le> 8"
  shows "\<exists>buffer ps s. (scrub_round d ^^ k) (buffer0, ps0, s0) = (buffer, ps, s)
    \<and> length buffer = 65536 \<and> ps_slotsMask ps = ps_slotsMask ps0 \<and> ps_offset ps = (if k = 8 then 0 else 65536 * k)
    \<and> confined (scrubbed slots k) s0 s
    \<and> (\<forall>i \<in> set slots. cells (mem s) (524288 * unat i) (65536 * k) = take (65536 * k) prog)"
  using \<open>k \<le> 8\<close>
proof (induction k)
  case 0
  then show ?case using assms(1-3) by (simp add: confined_refl cells_def)
next
  case (Suc k)
  then have k: "k < 8" "k \<le> 8" by simp_all
  obtain buffer ps s where run: "(scrub_round d ^^ k) (buffer0, ps0, s0) = (buffer, ps, s)" "length buffer = 65536"
    and ps: "ps_slotsMask ps = ps_slotsMask ps0" "ps_offset ps = 65536 * k"
    and c: "confined (scrubbed slots k) s0 s"
    and d: "\<forall>i \<in> set slots. cells (mem s) (524288 * unat i) (65536 * k) = take (65536 * k) prog"
    using Suc.IH [OF k(2)] k(1) by auto
  note s = confined_ok [OF c]
  have six: "\<forall>i \<in> set slots. unat i < 6" using ToSlotNumbers_three(2) slots by metis
  let ?orig = "sub_at (65536 * k) 65536 prog"
  have le: "65536 * k + 65536 \<le> 524288" using k(1) by simp
  have part: "flash_bytes d (scrub_offset i k) 65536 s = sub_at (65536 * k) 65536 (ProgramEntry_WholeEntry d i s0)"
    if i: "i \<in> set slots" for i
  proof -
    have u: "unat i < 6" using six i by simp
    have "{524288 * unat i + 65536 * k ..< 524288 * unat i + 65536 * k + 65536} \<inter> scrubbed slots k = {}"
      using k(1) by (intro scrubbed_disjoint) auto
    moreover have "ProgramEntry_WholeEntry d i s0 = cells (mem s0) (524288 * unat i) 524288"
      using whole_entry [OF assms(1) u] by simp
    ultimately show ?thesis
      using scrub_offset_sector(2) [OF u k(1)] cells_confined [OF c] le
      by (simp add: bytes_cells [OF s] unat_scrub_offset [OF u k(1)] sub_cells)
  qed
  have lens: "\<forall>xs \<in> set (map (\<lambda>i. ProgramEntry_WholeEntry d i s0) slots). length xs = length prog"
    using prog(1) by (auto simp: ProgramEntry_WholeEntry_def flash_bytes_def ProgramEntry_Size_def)
  have "survives ?orig (map (sub_at (65536 * k) 65536) (map (\<lambda>i. ProgramEntry_WholeEntry d i s0) slots))"
    using prog(1) le by (intro survives_sub_at [OF prog(2) _ lens]) simp
  also have "map (sub_at (65536 * k) 65536) (map (\<lambda>i. ProgramEntry_WholeEntry d i s0) slots)
      = map (\<lambda>i. flash_bytes d (scrub_offset i k) 65536 s) slots"
    by (simp add: part)
  finally have surv: "survives ?orig (map (\<lambda>i. flash_bytes d (scrub_offset i k) 65536 s) slots)" .
  have len: "length ?orig = 65536" using prog(1) le by simp
  obtain ps' s' where step: "ScrubSlots d True buffer ps s = (?orig, ps', s')"
    "ps_slotsMask ps' = ps_slotsMask ps" "ps_offset ps' = (if k = 7 then 0 else 65536 * Suc k)"
    "confined (rewritten (map (\<lambda>i. scrub_offset i k) slots)) s s'"
    "\<forall>i \<in> set slots. cells (mem s') (524288 * unat i + 65536 * k) 65536 = ?orig"
    by (rule scrub_step [OF s run(2) ps(2) k(1) slots [folded ps(1)] len surv])
  have "cells (mem s') (524288 * unat i) (65536 * Suc k) = take (65536 * Suc k) prog" if i: "i \<in> set slots" for i
  proof -
    have "{524288 * unat i ..< 524288 * unat i + 65536 * k} \<inter> rewritten (map (\<lambda>i. scrub_offset i k) slots) = {}"
      using rewritten_scrubbed(2) [OF six k(1)] i by (auto simp: scrubbed_def)
    then have "cells (mem s') (524288 * unat i) (65536 * k) = take (65536 * k) prog"
      using cells_confined [OF step(4)] d i by simp
    then show ?thesis
      using cells_append [of "mem s'" "524288 * unat i" "65536 * k" 65536] step(5) i
        take_sub_at [of "65536 * k" prog 65536] by (simp add: add.commute)
  qed
  moreover have "confined (scrubbed slots (Suc k)) s0 s'"
    using rewritten_scrubbed(1) [OF six k(1)]
    by (intro confined_trans [OF confined_mono [OF c] confined_mono [OF step(4)]]) (auto simp: scrubbed_def)
  ultimately show ?case
    using run(1) step(1-3) ps(1) k(1) len by (simp add: scrub_round_def)
qed

lemma scrub_restores:
  assumes "ok s0" and "length buffer0 = 65536" and "ps_offset ps0 = 0"
    and slots: "ToSlotNumbers (ps_slotsMask ps0) = slots"
    and prog: "length prog = 524288" "survives prog (map (\<lambda>i. ProgramEntry_WholeEntry d i s0) slots)"
    and "unat i < 6"
  defines "r \<equiv> (scrub_round d ^^ 8) (buffer0, ps0, s0)"
  shows "ps_offset (fst (snd r)) = 0"
    and "ProgramEntry_WholeEntry d i (snd (snd r)) = (if i \<in> set slots then prog else ProgramEntry_WholeEntry d i s0)"
proof -
  obtain buffer ps s where r: "r = (buffer, ps, s)" and "ps_offset ps = 0"
    and c: "confined (scrubbed slots 8) s0 s"
    and p: "\<forall>i \<in> set slots. cells (mem s) (524288 * unat i) 524288 = prog"
    using scrub_rounds [OF assms(1-6), of 8] prog(1) by (auto simp: r_def)
  then show "ps_offset (fst (snd r)) = 0" by simp
  have "{524288 * unat i ..< 524288 * unat i + 524288} \<inter> scrubbed slots 8 = {}" if "i \<notin> set slots"
    using scrubbed_disjoint [of 8 0 524288 i slots] that by simp
  then show "ProgramEntry_WholeEntry d i (snd (snd r)) = (if i \<in> set slots then prog else ProgramEntry_WholeEntry d i s0)"
    using p whole_entry [OF confined_ok [OF c] \<open>unat i < 6\<close>] whole_entry [OF assms(1) \<open>unat i < 6\<close>]
      cells_confined [OF c] r by auto
qed

end


context working_nor_device
begin

lemma working_driver_contract: "working_flash_driver ok mem (FlashDriver l polls)"
  by (rule working_driver.working_flash_driver_axioms)

end

lemmas working_flash_keeps = working_nor_device.working_driver_contract

text \<open>
  C13. Scrubbing restores damaged programs. When the scrubber starts at the beginning of the entries and
  every bit of the program survives in two of its three slots, then after eight rounds each slot holds
  the program again, whole with its header, every other entry is as before, and the scrubber is ready
  for the next pass. Any damage that leaves two good copies of every bit is repaired, also damage in
  all three slots at different places. The flash has to carry out its operations.
\<close>

theorem scrub_restores_programs:
  assumes "working_nor_device ok mem l" and "ok s" and "length buffer = 65536" and "ps_offset ps = 0"
    and "length prog = 524288"
    and "survives prog (map (\<lambda>i. ProgramEntry_WholeEntry (FlashDriver l polls) i s) (ToSlotNumbers (ps_slotsMask ps)))"
    and "unat i < 6"
  shows "let d = FlashDriver l polls; (buffer', ps', t) = (scrub_round d ^^ 8) (buffer, ps, s)
    in ps_offset ps' = 0
      \<and> ProgramEntry_WholeEntry d i t
        = (if i \<in> set (ToSlotNumbers (ps_slotsMask ps)) then prog else ProgramEntry_WholeEntry d i s)"
  using working_flash_driver.scrub_restores [OF working_flash_keeps [OF assms(1)] assms(2-4) refl assms(5-7)]
  by (simp add: Let_def case_prod_beta)

definition example_damaged :: "nat \<Rightarrow> u8" where
  "example_damaged k = (if k = 524288 + 70000 then 0 else 0xFF)"

definition example_program :: bytes where
  "example_program = cells (\<lambda>_. 0xFF) 0 524288"

lemma example_entry:
  "unat i < 6 \<Longrightarrow> ProgramEntry_WholeEntry example_driver i m = cells m (524288 * unat i) 524288"
  unfolding example_driver_def using nor.driver.whole_entry [OF TrueI, of "unat i" 0 m] by simp

lemma example_survives: "survives example_program
    (map (\<lambda>i. ProgramEntry_WholeEntry example_driver i example_damaged) (ToSlotNumbers 0b111))"
proof -
  have "cells example_damaged 0 524288 = example_program" "cells example_damaged 1048576 524288 = example_program"
    by (simp_all add: example_program_def cells_def example_damaged_def)
  then show ?thesis by (simp add: survives_def example_slots example_entry agree_def)
qed

lemma example_is_damaged: "ProgramEntry_WholeEntry example_driver 1 example_damaged \<noteq> example_program"
proof -
  have "cells example_damaged 524288 524288 ! 70000 \<noteq> example_program ! 70000"
    by (simp add: cells_def example_program_def example_damaged_def)
  then show ?thesis by (auto simp: example_entry)
qed

theorem scrub_restores_programs_witness:
  "ProgramEntry_WholeEntry example_driver 1 example_damaged \<noteq> example_program
   \<and> (let (buffer, ps, t) = (scrub_round example_driver ^^ 8) (replicate 65536 0, ProgramScrubber 0b111, example_damaged)
      in ProgramEntry_WholeEntry example_driver 1 t = example_program)"
  using scrub_restores_programs [OF nor_lld_working TrueI, of "replicate 65536 0" "ProgramScrubber 0b111"
      example_program 0 example_damaged 1] example_survives
  by (intro conjI example_is_damaged) (simp add: ProgramScrubber_def example_program_def example_slots example_driver_def
      Let_def case_prod_beta)

end
