(* ===== verification/Scrub_Task.thy ===== *)
theory Scrub_Task
  imports Scrubber
begin

text \<open>
  When the scrubbers run: the down-counters of libs/base/Include/base/time_counter.hpp and the task
  of libs/obc/scrubbing/scrubbing.cpp. Durations are milliseconds. A callback is a function of the
  world of the scrubbers, \<open>None\<close> when it does not return.
\<close>

section \<open>Time counters (time_counter.hpp)\<close>

record time_counter =
  tc_value :: int
  tc_period :: int

definition TimeCounter_min :: "int \<Rightarrow> int \<Rightarrow> time_counter" where
  "TimeCounter_min period startDelay = \<lparr>tc_value = startDelay * 60000, tc_period = period * 60000\<rparr>"

text \<open>With a period of zero the recursion does not end.\<close>

partial_function (option) TimeCounter_Step :: "int \<Rightarrow> time_counter \<Rightarrow> time_counter option" where
  "TimeCounter_Step delta c =
     (if tc_value c = 0 then TimeCounter_Step delta (c\<lparr>tc_value := tc_period c\<rparr>)
      else if tc_value c < delta then Some (c\<lparr>tc_value := 0\<rparr>)
      else Some (c\<lparr>tc_value := tc_value c - delta\<rparr>))"

definition TimeCounter_DoOnBottom ::
  "('w \<Rightarrow> 'w option) \<Rightarrow> time_counter \<Rightarrow> 'w \<Rightarrow> (bool \<times> time_counter \<times> 'w) option" where
  "TimeCounter_DoOnBottom action c w =
     (if tc_value c = 0
      then (case action w of None \<Rightarrow> None | Some w \<Rightarrow> Some (True, c\<lparr>tc_value := tc_period c\<rparr>, w))
      else Some (False, c, w))"

definition SleepTime :: "time_counter list \<Rightarrow> int" where
  "SleepTime counters = Min (set (map tc_value counters))"

fun Step_all :: "int \<Rightarrow> time_counter list \<Rightarrow> time_counter list option" where
  "Step_all delta [] = Some []"
| "Step_all delta (c # cs) =
     (case TimeCounter_Step delta c of
        None \<Rightarrow> None
      | Some c \<Rightarrow> (case Step_all delta cs of None \<Rightarrow> None | Some cs \<Rightarrow> Some (c # cs)))"

fun DoOnBottom_all ::
  "(('w \<Rightarrow> 'w option) \<times> time_counter) list \<Rightarrow> 'w \<Rightarrow> (time_counter list \<times> 'w) option" where
  "DoOnBottom_all [] w = Some ([], w)"
| "DoOnBottom_all ((action, c) # cs) w =
     (case TimeCounter_DoOnBottom action c w of
        None \<Rightarrow> None
      | Some (_, c, w) \<Rightarrow>
          (case DoOnBottom_all cs w of None \<Rightarrow> None | Some (cs, w) \<Rightarrow> Some (c # cs, w)))"

section \<open>The task (scrubbing.cpp)\<close>

definition Event_Running :: u32 where "Event_Running = 1"
definition Event_RunOnceRequested :: u32 where "Event_RunOnceRequested = 2"
definition Event_RunOnceFinished :: u32 where "Event_RunOnceFinished = 4"

text \<open>Primary slots, secondary slots, boot loader, safe mode, boot settings.\<close>

definition scrub_counters :: "time_counter list" where
  "scrub_counters =
     [TimeCounter_min 7 1, TimeCounter_min 7 2, TimeCounter_min 8 1, TimeCounter_min 8 2, TimeCounter_min 30 15]"

record 'w scrubbing =
  sc_counters :: "time_counter list"
  sc_world :: 'w
  sc_control :: u32
  sc_iterationsCount :: u32

definition OBCScrubbing :: "'w \<Rightarrow> 'w scrubbing" where
  "OBCScrubbing w =
     \<lparr>sc_counters = scrub_counters, sc_world = w, sc_control = 0, sc_iterationsCount = 0\<rparr>"

text \<open>What \<open>RunOnce\<close> does before it waits for the end of the iteration.\<close>

definition RunOnce_begin :: "'w scrubbing \<Rightarrow> 'w scrubbing" where
  "RunOnce_begin sc =
     sc\<lparr>sc_control := (sc_control sc AND NOT Event_RunOnceFinished) OR Event_RunOnceRequested\<rparr>"

text \<open>
  The wait. \<open>once\<close> says after how many milliseconds \<open>RunOnce\<close> is called, if it is; when that is before
  the sleep time is over, the wait ends then.
\<close>

definition wait_requested :: "nat option \<Rightarrow> int \<Rightarrow> bool" where
  "wait_requested once sleepTime = (case once of None \<Rightarrow> False | Some w \<Rightarrow> int w < sleepTime)"

definition wait_time :: "nat option \<Rightarrow> int \<Rightarrow> int" where
  "wait_time once sleepTime =
     (if wait_requested once sleepTime then (case once of None \<Rightarrow> sleepTime | Some w \<Rightarrow> int w) else sleepTime)"

text \<open>
  One iteration. Whether the wait ends early or times out, the bit that was waited for is cleared and the
  bits before that are returned; the counters are stepped by the whole sleep time either way.
\<close>

definition ScrubberTask_round ::
  "('w \<Rightarrow> 'w option) list \<Rightarrow> nat option \<Rightarrow> 'w scrubbing \<Rightarrow> 'w scrubbing option" where
  "ScrubberTask_round actions once sc =
     (let sleepTime = SleepTime (sc_counters sc);
          sc = (if wait_requested once sleepTime then RunOnce_begin sc else sc);
          f = sc_control sc;
          sc = sc\<lparr>sc_control := f AND NOT Event_RunOnceRequested\<rparr>
      in case Step_all sleepTime (sc_counters sc) of
           None \<Rightarrow> None
         | Some counters \<Rightarrow>
             (case DoOnBottom_all (zip actions counters) (sc_world sc) of
                None \<Rightarrow> None
              | Some (counters, w) \<Rightarrow>
                  (let sc = sc\<lparr>sc_counters := counters, sc_world := w\<rparr>;
                       sc = sc\<lparr>sc_control := sc_control sc OR Event_Running\<rparr>;
                       sc = sc\<lparr>sc_control := sc_control sc AND NOT Event_Running\<rparr>;
                       sc = sc\<lparr>sc_iterationsCount := sc_iterationsCount sc + 1\<rparr>
                   in Some (if f AND Event_RunOnceRequested = Event_RunOnceRequested
                            then sc\<lparr>sc_control := sc_control sc OR Event_RunOnceFinished\<rparr>
                            else sc))))"

text \<open>
  Iterations one after the other. With the state, the time by which the counters have been stepped and
  the time that has been waited.
\<close>

fun ScrubberTask ::
  "('w \<Rightarrow> 'w option) list \<Rightarrow> nat option list \<Rightarrow> int \<Rightarrow> int \<Rightarrow> 'w scrubbing
     \<Rightarrow> (int \<times> int \<times> 'w scrubbing) option" where
  "ScrubberTask actions [] stepped waited sc = Some (stepped, waited, sc)"
| "ScrubberTask actions (once # rs) stepped waited sc =
     (let sleepTime = SleepTime (sc_counters sc)
      in case ScrubberTask_round actions once sc of
           None \<Rightarrow> None
         | Some sc \<Rightarrow> ScrubberTask actions rs (stepped + sleepTime) (waited + wait_time once sleepTime) sc)"

text \<open>
  The flags of the scrubbers, as the power cycle task asks for them; the one for safe mode is that of
  the secondary slots.
\<close>

record scrub_flags =
  sf_primarySlots :: bool
  sf_secondarySlots :: bool
  sf_bootloader :: bool
  sf_safeMode :: bool

definition BootloaderInProgress :: "scrub_flags \<Rightarrow> bool" where "BootloaderInProgress f = sf_bootloader f"
definition PrimarySlotsInProgress :: "scrub_flags \<Rightarrow> bool" where "PrimarySlotsInProgress f = sf_primarySlots f"
definition FailsafeSlotsInProgress :: "scrub_flags \<Rightarrow> bool" where "FailsafeSlotsInProgress f = sf_secondarySlots f"
definition SafeModeInProgress :: "scrub_flags \<Rightarrow> bool" where "SafeModeInProgress f = sf_secondarySlots f"

section \<open>The schedule\<close>

lemma Step_positive:
  "0 < tc_value c \<Longrightarrow> delta \<le> tc_value c \<Longrightarrow>
    TimeCounter_Step delta c = Some (c\<lparr>tc_value := tc_value c - delta\<rparr>)"
  by (subst TimeCounter_Step.simps) simp

lemma Step_all_positive:
  "\<forall>c \<in> set cs. 0 < tc_value c \<and> delta \<le> tc_value c \<Longrightarrow>
    Step_all delta cs = Some (map (\<lambda>c. c\<lparr>tc_value := tc_value c - delta\<rparr>) cs)"
  by (induction cs) (simp_all add: Step_positive)

lemma SleepTime_positive:
  assumes "cs \<noteq> []" and "\<forall>c \<in> set cs. 0 < tc_value c"
  shows "0 < SleepTime cs" and "\<forall>c \<in> set cs. SleepTime cs \<le> tc_value c"
    and "\<exists>c \<in> set cs. tc_value c = SleepTime cs"
proof -
  have m: "SleepTime cs \<in> tc_value ` set cs" unfolding SleepTime_def using assms(1) by (metis Min_in list.map_disc_iff List.finite_set set_empty set_map)
  then show "0 < SleepTime cs" "\<exists>c \<in> set cs. tc_value c = SleepTime cs" using assms(2) by auto
  show "\<forall>c \<in> set cs. SleepTime cs \<le> tc_value c" by (simp add: SleepTime_def)
qed

text \<open>
  The specification: the task of a counter runs first after its delay and then once in every period,
  so that in the first \<open>t\<close> milliseconds it has run \<open>runs_due\<close> times.
\<close>

definition runs_due :: "int \<Rightarrow> int \<Rightarrow> int \<Rightarrow> nat" where
  "runs_due delay period t = (if t < delay then 0 else Suc (nat ((t - delay) div period)))"

lemma runs_due_unique:
  assumes "v + t = delay + int runs * period" and "0 < v" and "runs = 0 \<or> v \<le> period" and "0 < period"
  shows "runs_due delay period t = runs"
proof (cases runs)
  case 0
  then show ?thesis using assms by (simp add: runs_due_def)
next
  case (Suc n)
  have "(t - delay) div period = int n"
    using assms Suc by (intro int_div_pos_eq [of _ _ _ "period - v"]) (auto simp: algebra_simps)
  moreover have "0 \<le> period * int n" using assms(4) by simp
  then have "delay \<le> t" using assms(1,3) Suc by (simp add: algebra_simps)
  ultimately show ?thesis using Suc by (simp add: runs_due_def)
qed

text \<open>Callbacks one after the other.\<close>

fun performed :: "('w \<Rightarrow> 'w option) list \<Rightarrow> 'w \<Rightarrow> 'w option" where
  "performed [] w = Some w"
| "performed (a # as) w = (case a w of None \<Rightarrow> None | Some w \<Rightarrow> performed as w)"

lemma performed_append:
  "performed (as @ bs) w = (case performed as w of None \<Rightarrow> None | Some w \<Rightarrow> performed bs w)"
  by (induction as arbitrary: w) (simp_all split: option.split)

lemma performed_total: "\<forall>a \<in> set as. \<forall>w. a w \<noteq> None \<Longrightarrow> \<exists>w'. performed as w = Some w'"
  by (induction as arbitrary: w) (auto split: option.split)

definition restarted :: "time_counter \<Rightarrow> time_counter" where
  "restarted c = (if tc_value c = 0 then c\<lparr>tc_value := tc_period c\<rparr> else c)"

lemma DoOnBottom_performed:
  "DoOnBottom_all acs w =
     map_option (\<lambda>w. (map (restarted \<circ> snd) acs, w)) (performed (map fst (filter (\<lambda>(a, c). tc_value c = 0) acs)) w)"
  by (induction acs arbitrary: w)
    (auto simp: TimeCounter_DoOnBottom_def restarted_def map_option_case split: option.split)

lemma filter_zip_index:
  assumes "length as = length cs"
  shows "map fst (filter (\<lambda>(a, c). P c) (zip as cs)) = map ((!) as) (filter (\<lambda>k. P (cs ! k)) [0..<length cs])"
proof -
  have "zip as cs = map (\<lambda>k. (as ! k, cs ! k)) [0..<length cs]"
    using assms by (intro nth_equalityI) simp_all
  then show ?thesis by (simp add: filter_map comp_def)
qed

lemma count_list_distinct: "distinct ks \<Longrightarrow> count_list ks k = (if k \<in> set ks then 1 else 0)"
  by (induction ks) auto

text \<open>The invariant: the callbacks run so far are \<open>ks\<close>, by number.\<close>

definition on_schedule ::
  "('w \<Rightarrow> 'w option) list \<Rightarrow> 'w \<Rightarrow> time_counter list \<Rightarrow> int \<Rightarrow> nat list \<Rightarrow> 'w scrubbing \<Rightarrow> bool" where
  "on_schedule actions w0 start elapsed ks sc \<longleftrightarrow>
     length (sc_counters sc) = length start
     \<and> performed (map ((!) actions) ks) w0 = Some (sc_world sc)
     \<and> (\<forall>k < length start.
          tc_period (sc_counters sc ! k) = tc_period (start ! k)
          \<and> 0 < tc_value (sc_counters sc ! k) \<and> 60000 dvd tc_value (sc_counters sc ! k)
          \<and> tc_value (sc_counters sc ! k) + elapsed
              = tc_value (start ! k) + int (count_list ks k) * tc_period (start ! k)
          \<and> (count_list ks k = 0 \<or> tc_value (sc_counters sc ! k) \<le> tc_period (start ! k)))"

definition proper_counters :: "time_counter list \<Rightarrow> bool" where
  "proper_counters cs \<longleftrightarrow> cs \<noteq> [] \<and> (\<forall>c \<in> set cs. 0 < tc_value c \<and> 60000 dvd tc_value c
     \<and> 0 < tc_period c \<and> 60000 dvd tc_period c)"

lemma round_on_schedule:
  assumes sched: "on_schedule actions w0 start elapsed ks sc" and start: "proper_counters start"
    and n: "length actions = length start" and total: "\<forall>a \<in> set actions. \<forall>w. a w \<noteq> None"
  obtains ks' sc' where "ScrubberTask_round actions once sc = Some sc'"
    "on_schedule actions w0 start (elapsed + SleepTime (sc_counters sc)) (ks @ ks') sc'"
    "60000 \<le> SleepTime (sc_counters sc)"
proof -
  let ?cs = "sc_counters sc" and ?t = "SleepTime (sc_counters sc)"
  have len: "length ?cs = length start" and per: "\<forall>k < length start. tc_period (?cs ! k) = tc_period (start ! k)"
    using sched by (auto simp: on_schedule_def)
  have pos: "\<forall>c \<in> set ?cs. 0 < tc_value c" "\<forall>c \<in> set ?cs. 60000 dvd tc_value c"
    using sched by (auto simp: on_schedule_def in_set_conv_nth)
  have ne: "?cs \<noteq> []" using start len by (auto simp: proper_counters_def)
  note st = SleepTime_positive [OF ne pos(1)]
  have dvd: "60000 dvd ?t" using st(3) pos(2) by fastforce
  define cs where "cs = map (\<lambda>c. c\<lparr>tc_value := tc_value c - ?t\<rparr>) ?cs"
  have step: "Step_all ?t ?cs = Some cs" unfolding cs_def using pos(1) st(2) by (intro Step_all_positive) auto
  define ks' where "ks' = filter (\<lambda>k. tc_value (cs ! k) = 0) [0..<length cs]"
  have run: "map fst (filter (\<lambda>(a, c). tc_value c = 0) (zip actions cs)) = map ((!) actions) ks'"
    unfolding ks'_def using n len by (intro filter_zip_index) (simp add: cs_def)
  have "set (map ((!) actions) ks') \<subseteq> set actions" using n len by (auto simp: ks'_def cs_def)
  then obtain w where w: "performed (map ((!) actions) ks') (sc_world sc) = Some w"
    using total performed_total by (metis subset_iff)
  have "map snd (zip actions cs) = cs" using n len by (simp add: cs_def)
  then have b: "DoOnBottom_all (zip actions cs) (sc_world sc) = Some (map restarted cs, w)"
    by (simp add: DoOnBottom_performed run w flip: map_map)
  have "\<exists>sc'. ScrubberTask_round actions once sc = Some sc' \<and> sc_counters sc' = map restarted cs
      \<and> sc_world sc' = w"
    by (simp add: ScrubberTask_round_def Let_def RunOnce_begin_def b step)
  then obtain sc' where sc': "ScrubberTask_round actions once sc = Some sc'" "sc_counters sc' = map restarted cs"
      "sc_world sc' = w"
    by blast
  show ?thesis
  proof (rule that [OF sc'(1)])
    show "60000 \<le> ?t" using dvd st(1) by (simp add: zdvd_imp_le)
    have cnt: "count_list ks' k = (if tc_value (?cs ! k) = ?t then 1 else 0)" if "k < length start" for k
      using that len by (simp add: ks'_def cs_def count_list_distinct)
    have "performed (map ((!) actions) (ks @ ks')) w0 = Some w"
      using sched w by (simp add: on_schedule_def performed_append)
    moreover have "tc_period (map restarted cs ! k) = tc_period (start ! k)
        \<and> 0 < tc_value (map restarted cs ! k) \<and> 60000 dvd tc_value (map restarted cs ! k)
        \<and> tc_value (map restarted cs ! k) + (elapsed + ?t)
          = tc_value (start ! k) + int (count_list (ks @ ks') k) * tc_period (start ! k)
        \<and> (count_list (ks @ ks') k = 0 \<or> tc_value (map restarted cs ! k) \<le> tc_period (start ! k))"
      if k: "k < length start" for k
    proof -
      have "?t \<le> tc_value (?cs ! k)" "0 < tc_period (start ! k)" "60000 dvd tc_period (start ! k)"
        using st(2) k len start by (auto simp: proper_counters_def)
      moreover have "tc_value (?cs ! k) + elapsed
          = tc_value (start ! k) + int (count_list ks k) * tc_period (start ! k)"
        "count_list ks k = 0 \<or> tc_value (?cs ! k) \<le> tc_period (start ! k)" "60000 dvd tc_value (?cs ! k)"
        "0 < tc_value (?cs ! k)"
        using sched k by (auto simp: on_schedule_def)
      ultimately show ?thesis
        using k len per cnt [OF k] dvd st(1)
        by (auto simp: cs_def restarted_def count_list_append algebra_simps)
    qed
    ultimately show "on_schedule actions w0 start (elapsed + ?t) (ks @ ks') sc'"
      using len by (simp add: on_schedule_def sc' cs_def)
  qed
qed

lemma wait_time_le:
  "wait_time once t \<le> t" "wait_time once t = t \<longleftrightarrow> \<not> wait_requested once t"
  by (auto simp: wait_time_def wait_requested_def split: option.splits if_splits)

lemma task_on_schedule:
  assumes "on_schedule actions w0 start stepped ks sc" and start: "proper_counters start"
    and n: "length actions = length start" and total: "\<forall>a \<in> set actions. \<forall>w. a w \<noteq> None"
  shows "\<exists>t e ks' sc'. ScrubberTask actions rs stepped waited sc = Some (t, e, sc')
    \<and> on_schedule actions w0 start t ks' sc' \<and> stepped + 60000 * int (length rs) \<le> t
    \<and> e - waited \<le> t - stepped \<and> (set rs \<subseteq> {None} \<longrightarrow> e - waited = t - stepped)
    \<and> (set rs \<subseteq> {Some 0} \<longrightarrow> e = waited)"
  using assms(1)
proof (induction rs arbitrary: stepped waited ks sc)
  case (Cons r rs)
  let ?t = "SleepTime (sc_counters sc)"
  obtain ks' sc' where r: "ScrubberTask_round actions r sc = Some sc'"
    "on_schedule actions w0 start (stepped + ?t) (ks @ ks') sc'" "60000 \<le> ?t"
    by (rule round_on_schedule [OF Cons.prems start n total])
  obtain t e ks'' sc'' where run: "ScrubberTask actions rs (stepped + ?t) (waited + wait_time r ?t) sc' = Some (t, e, sc'')"
    "on_schedule actions w0 start t ks'' sc''" "stepped + ?t + 60000 * int (length rs) \<le> t"
    "e - (waited + wait_time r ?t) \<le> t - (stepped + ?t)"
    "set rs \<subseteq> {None} \<longrightarrow> e - (waited + wait_time r ?t) = t - (stepped + ?t)"
    "set rs \<subseteq> {Some 0} \<longrightarrow> e = waited + wait_time r ?t"
    using Cons.IH [OF r(2), of "waited + wait_time r ?t"] by blast
  have "r = None \<Longrightarrow> wait_time r ?t = ?t" "r = Some 0 \<Longrightarrow> wait_time r ?t = 0"
    using r(3) by (simp_all add: wait_time_def wait_requested_def)
  then show ?case
    using run r wait_time_le(1) [of r ?t]
    by (intro exI [of _ t] exI [of _ e] exI [of _ ks''] exI [of _ sc'']) (auto simp: Let_def algebra_simps)
qed auto

text \<open>Delays and periods of the five scrubbers in minutes.\<close>

definition scrub_delay :: "nat \<Rightarrow> int" where "scrub_delay k = [1, 2, 1, 2, 15] ! k"
definition scrub_period :: "nat \<Rightarrow> int" where "scrub_period k = [7, 7, 8, 8, 30] ! k"

lemma five: "(k :: nat) < 5 \<longleftrightarrow> k = 0 \<or> k = 1 \<or> k = 2 \<or> k = 3 \<or> k = 4"
  by auto

text \<open>
  C14. The schedule of scrubbing. The task ends a wait early when a single run is requested, but steps its
  counters by the whole sleep time. So after any number \<open>n\<close> of iterations there is a time \<open>t\<close> of at least \<open>n\<close>
  minutes, by which the counters have been stepped, such that the primary slots, the secondary slots, the
  boot loader, safe mode and the boot settings have been scrubbed, one after the other, exactly as often as
  their delay and period say for \<open>t\<close>, and the state of the memories is the result of these scrubs. The time \<open>e\<close>
  that the task has really waited is \<open>t\<close> when no single run was requested; otherwise it is at most \<open>t\<close>, and
  nothing at all when every wait is ended at once: the schedule runs ahead of the clock, never behind it.
  The scrubs have to return.
\<close>

theorem scrub_schedule:
  assumes "length actions = 5" and "\<forall>a \<in> set actions. \<forall>w. a w \<noteq> None"
  shows "\<exists>t e ks sc. ScrubberTask actions rs 0 0 (OBCScrubbing w) = Some (t, e, sc)
    \<and> 60000 * int (length rs) \<le> t \<and> e \<le> t \<and> (set rs \<subseteq> {None} \<longrightarrow> e = t) \<and> (set rs \<subseteq> {Some 0} \<longrightarrow> e = 0)
    \<and> performed (map ((!) actions) ks) w = Some (sc_world sc)
    \<and> (\<forall>k < 5. count_list ks k = runs_due (60000 * scrub_delay k) (60000 * scrub_period k) t)"
proof -
  have p: "proper_counters scrub_counters"
    by (simp add: proper_counters_def scrub_counters_def TimeCounter_min_def)
  have l: "length scrub_counters = 5" by (simp add: scrub_counters_def)
  have v: "tc_value (scrub_counters ! k) = 60000 * scrub_delay k" "tc_period (scrub_counters ! k) = 60000 * scrub_period k"
    "0 < scrub_period k" if "k < 5" for k
    using that by (auto simp: five scrub_counters_def TimeCounter_min_def scrub_delay_def scrub_period_def)
  have "on_schedule actions w scrub_counters 0 [] (OBCScrubbing w)"
    using p by (simp add: on_schedule_def OBCScrubbing_def proper_counters_def)
  from task_on_schedule [OF this p _ assms(2), of rs 0] obtain t e ks sc
    where r: "ScrubberTask actions rs 0 0 (OBCScrubbing w) = Some (t, e, sc)" "60000 * int (length rs) \<le> t"
        "e \<le> t" "set rs \<subseteq> {None} \<longrightarrow> e = t" "set rs \<subseteq> {Some 0} \<longrightarrow> e = 0"
      and s: "on_schedule actions w scrub_counters t ks sc"
    using assms(1) l by (simp only: add_0 diff_0_right) blast
  have "count_list ks k = runs_due (60000 * scrub_delay k) (60000 * scrub_period k) t" if k: "k < 5" for k
    using s k v [OF k] unfolding on_schedule_def l
    by (intro runs_due_unique [of "tc_value (sc_counters sc ! k)", symmetric]) auto
  then show ?thesis using r s by (auto simp: on_schedule_def)
qed

definition example_actions :: "(nat list \<Rightarrow> nat list option) list" where
  "example_actions = map (\<lambda>k log. Some (log @ [k])) [0..<5]"

theorem scrub_schedule_witness:
  "\<exists>t e ks sc. ScrubberTask example_actions [None, Some 5, None] 0 0 (OBCScrubbing []) = Some (t, e, sc) \<and> 180000 \<le> t
     \<and> e \<le> t \<and> (\<forall>k < 5. count_list ks k = runs_due (60000 * scrub_delay k) (60000 * scrub_period k) t)"
  using scrub_schedule [of example_actions "[None, Some 5, None]" "[]"] by (auto simp: example_actions_def)

end
