(* ===== verification/File_System.thy ===== *)
theory File_System
  imports Rtc
begin

text \<open>
  The file system interface (libs/fs): its implementation on yaffs (yaffs.cpp), the class \<open>File\<close> and
  the functions that save and read whole files (extension.cpp). The calls of yaffs are parameters; a
  path is the bytes before its terminator.
\<close>

section \<open>The calls of yaffs\<close>

record file_stat =
  st_isdir :: bool
  st_size :: int

text \<open>
  Every call returns its status, -1 for an error, and the new state; reading also returns the bytes it
  has put into the buffer. A status buffer that is not filled is part of the state.
\<close>

record 'y yaffs =
  ya_open :: "bytes \<Rightarrow> u32 \<Rightarrow> 'y \<Rightarrow> int \<times> 'y"
  ya_close :: "int \<Rightarrow> 'y \<Rightarrow> int \<times> 'y"
  ya_read :: "int \<Rightarrow> nat \<Rightarrow> 'y \<Rightarrow> (int \<times> bytes) \<times> 'y"
  ya_write :: "int \<Rightarrow> bytes \<Rightarrow> 'y \<Rightarrow> int \<times> 'y"
  ya_lseek :: "int \<Rightarrow> int \<Rightarrow> nat \<Rightarrow> 'y \<Rightarrow> int \<times> 'y"
  ya_ftruncate :: "int \<Rightarrow> int \<Rightarrow> 'y \<Rightarrow> int \<times> 'y"
  ya_fstat :: "int \<Rightarrow> 'y \<Rightarrow> (int \<times> file_stat) \<times> 'y"
  ya_stat :: "bytes \<Rightarrow> 'y \<Rightarrow> (int \<times> file_stat) \<times> 'y"
  ya_stat_reldir :: "bytes \<Rightarrow> bytes \<Rightarrow> 'y \<Rightarrow> (int \<times> file_stat) option \<times> 'y"
  ya_unlink :: "bytes \<Rightarrow> 'y \<Rightarrow> int \<times> 'y"
  ya_rename :: "bytes \<Rightarrow> bytes \<Rightarrow> 'y \<Rightarrow> int \<times> 'y"
  ya_mkdir :: "bytes \<Rightarrow> 'y \<Rightarrow> int \<times> 'y"
  ya_opendir :: "bytes \<Rightarrow> 'y \<Rightarrow> nat option \<times> 'y"
  ya_readdir :: "nat \<Rightarrow> 'y \<Rightarrow> bytes option \<times> 'y"
  ya_closedir :: "nat \<Rightarrow> 'y \<Rightarrow> int \<times> 'y"
  ya_format :: "bytes \<Rightarrow> 'y \<Rightarrow> int \<times> 'y"
  ya_freespace :: "bytes \<Rightarrow> 'y \<Rightarrow> u32 \<times> 'y"
  ya_error :: "'y \<Rightarrow> OSResult"

section \<open>The interface\<close>

datatype FileOpen =
    Open_Existing | Open_TruncateExisting | Open_OpenAlways | Open_CreateAlways | Open_CreateNew
  | Open_AppendExisting | Open_AppendAlways

primrec num_FileOpen :: "FileOpen \<Rightarrow> u32" where
  "num_FileOpen Open_Existing = 0"
| "num_FileOpen Open_TruncateExisting = 0x200"
| "num_FileOpen Open_OpenAlways = 0x40"
| "num_FileOpen Open_CreateAlways = 0x40 OR 0x200"
| "num_FileOpen Open_CreateNew = 0x40 OR 0x80"
| "num_FileOpen Open_AppendExisting = 0x400"
| "num_FileOpen Open_AppendAlways = 0x400 OR 0x40"

datatype FileAccess = Access_ReadOnly | Access_WriteOnly | Access_ReadWrite

primrec num_FileAccess :: "FileAccess \<Rightarrow> u32" where
  "num_FileAccess Access_ReadOnly = 0"
| "num_FileAccess Access_WriteOnly = 1"
| "num_FileAccess Access_ReadWrite = 2"

datatype SeekOrigin = Seek_Begin | Seek_Current | Seek_End

text \<open>
  \<open>fs_Read\<close> takes the buffer and returns the status, the length of the span that was read, and the
  buffer afterwards; \<open>fs_Write\<close> the status and the length of the written span. Copying, and creating
  directories, can leave what is defined: \<open>None\<close>.
\<close>

record 's IFileSystem =
  fs_Open :: "bytes \<Rightarrow> FileOpen \<Rightarrow> FileAccess \<Rightarrow> 's \<Rightarrow> (OSResult \<times> int) \<times> 's"
  fs_Unlink :: "bytes \<Rightarrow> 's \<Rightarrow> OSResult \<times> 's"
  fs_Move :: "bytes \<Rightarrow> bytes \<Rightarrow> 's \<Rightarrow> OSResult \<times> 's"
  fs_Copy :: "bytes \<Rightarrow> bytes \<Rightarrow> 's \<Rightarrow> (OSResult \<times> 's) option"
  fs_TruncateFile :: "int \<Rightarrow> int \<Rightarrow> 's \<Rightarrow> OSResult \<times> 's"
  fs_Write :: "int \<Rightarrow> bytes \<Rightarrow> 's \<Rightarrow> (OSResult \<times> nat) \<times> 's"
  fs_Read :: "int \<Rightarrow> bytes \<Rightarrow> 's \<Rightarrow> (OSResult \<times> nat \<times> bytes) \<times> 's"
  fs_Close :: "int \<Rightarrow> 's \<Rightarrow> OSResult \<times> 's"
  fs_OpenDirectory :: "bytes \<Rightarrow> 's \<Rightarrow> (OSResult \<times> nat option) \<times> 's"
  fs_ReadDirectory :: "nat \<Rightarrow> 's \<Rightarrow> bytes option \<times> 's"
  fs_CloseDirectory :: "nat \<Rightarrow> 's \<Rightarrow> OSResult \<times> 's"
  fs_IsDirectory :: "bytes \<Rightarrow> 's \<Rightarrow> bool \<times> 's"
  fs_Format :: "bytes \<Rightarrow> 's \<Rightarrow> OSResult \<times> 's"
  fs_MakeDirectory :: "bytes \<Rightarrow> 's \<Rightarrow> (OSResult \<times> 's) option"
  fs_Exists :: "bytes \<Rightarrow> 's \<Rightarrow> bool \<times> 's"
  fs_GetFileSize :: "int \<Rightarrow> 's \<Rightarrow> int \<times> 's"
  fs_GetFileSizeIn :: "bytes option \<Rightarrow> bytes \<Rightarrow> 's \<Rightarrow> int \<times> 's"
  fs_Seek :: "int \<Rightarrow> SeekOrigin \<Rightarrow> int \<Rightarrow> 's \<Rightarrow> OSResult \<times> 's"
  fs_GetFreeSpace :: "bytes \<Rightarrow> 's \<Rightarrow> u32 \<times> 's"

section \<open>The implementation on yaffs (yaffs.cpp)\<close>

definition YaffsTranslateError :: "'y yaffs \<Rightarrow> int \<times> 'y \<Rightarrow> OSResult \<times> 'y" where
  "YaffsTranslateError y r = ((if fst r \<noteq> - 1 then OS_Success else ya_error y (snd r)), snd r)"

definition Yaffs_Open :: "'y yaffs \<Rightarrow> bytes \<Rightarrow> FileOpen \<Rightarrow> FileAccess \<Rightarrow> 'y \<Rightarrow> (OSResult \<times> int) \<times> 'y" where
  "Yaffs_Open y path openFlag accessMode s =
     (let (status, s) = ya_open y path (num_FileOpen openFlag OR num_FileAccess accessMode) s
      in ((fst (YaffsTranslateError y (status, s)), status), s))"

text \<open>
  The loop of \<open>Copy\<close> over blocks of 1024 bytes. After an error of reading or writing both files are
  closed and the error of \<open>destFile\<close>, a valid handle, is returned.
\<close>

partial_function (option) Yaffs_copy_loop ::
  "'y yaffs \<Rightarrow> int \<Rightarrow> int \<Rightarrow> 'y \<Rightarrow> (OSResult \<times> 'y) option" where
  "Yaffs_copy_loop y srcFile destFile s =
     (let ((bytesRead, buffer), s) = ya_read y srcFile 1024 s
      in if bytesRead = - 1
         then Some (YaffsTranslateError y (destFile, snd (ya_close y srcFile (snd (ya_close y destFile s)))))
         else
           (let (bytesWritten, s) = ya_write y destFile (take (nat bytesRead) buffer) s
            in if bytesWritten = - 1
               then Some (YaffsTranslateError y (destFile, snd (ya_close y srcFile (snd (ya_close y destFile s)))))
               else if bytesRead < 1024
               then
                 (let (destCloseStatus, s) = ya_close y destFile s;
                      (srcCloseStatus, s) = ya_close y srcFile s
                  in Some (YaffsTranslateError y
                             (if destCloseStatus = - 1 then destCloseStatus else srcCloseStatus, s)))
               else Yaffs_copy_loop y srcFile destFile s))"

definition Yaffs_Copy :: "'y yaffs \<Rightarrow> bytes \<Rightarrow> bytes \<Rightarrow> 'y \<Rightarrow> (OSResult \<times> 'y) option" where
  "Yaffs_Copy y src dest s =
     (let (srcFile, s) = ya_open y src 0 s
      in if srcFile = - 1 then Some (YaffsTranslateError y (srcFile, s))
         else
           (let (destFile, s) = ya_open y dest (0x40 OR 1 OR 0x200) s
            in if destFile = - 1
               then Some (YaffsTranslateError y (destFile, snd (ya_close y srcFile s)))
               else Yaffs_copy_loop y srcFile destFile s))"

definition Yaffs_Write :: "'y yaffs \<Rightarrow> int \<Rightarrow> bytes \<Rightarrow> 'y \<Rightarrow> (OSResult \<times> nat) \<times> 'y" where
  "Yaffs_Write y file buffer s =
     (let (status, s) = ya_write y file buffer s
      in if 0 \<le> status then ((OS_Success, nat status), s)
         else ((fst (YaffsTranslateError y (status, s)), 0), s))"

definition Yaffs_Read :: "'y yaffs \<Rightarrow> int \<Rightarrow> bytes \<Rightarrow> 'y \<Rightarrow> (OSResult \<times> nat \<times> bytes) \<times> 'y" where
  "Yaffs_Read y file buffer s =
     (let ((status, bs), s) = ya_read y file (length buffer) s;
          buffer = put_at 0 bs buffer
      in if 0 \<le> status then ((OS_Success, nat status, buffer), s)
         else ((fst (YaffsTranslateError y (status, s)), 0, buffer), s))"

definition Yaffs_OpenDirectory :: "'y yaffs \<Rightarrow> bytes \<Rightarrow> 'y \<Rightarrow> (OSResult \<times> nat option) \<times> 'y" where
  "Yaffs_OpenDirectory y directory s =
     (let (status, s) = ya_opendir y directory s
      in ((if status \<noteq> None then OS_Success else ya_error y s, status), s))"

definition YaffsPathExists :: "'y yaffs \<Rightarrow> bytes \<Rightarrow> 'y \<Rightarrow> bool \<times> 'y" where
  "YaffsPathExists y path s =
     (let ((status, st), s) = ya_stat y path s in (status \<noteq> - 1, s))"

text \<open>
  The path with a closing slash, in a buffer of 257 bytes: \<open>None\<close> when it does not fit, or when it is
  empty and the byte before it is looked at.
\<close>

definition NAME_MAX :: nat where "NAME_MAX = 256"

definition closed_path :: "bytes \<Rightarrow> bytes option" where
  "closed_path path =
     (if path = [] \<or> NAME_MAX \<le> length path then None
      else Some (if last path = 0x2F then path else path @ [0x2F]))"

text \<open>The loop over the slashes after the first character, at the positions \<open>ps\<close>.\<close>

fun make_directories :: "'y yaffs \<Rightarrow> bytes \<Rightarrow> nat list \<Rightarrow> int \<Rightarrow> 'y \<Rightarrow> OSResult \<times> 'y" where
  "make_directories y buf [] status s = YaffsTranslateError y (status, s)"
| "make_directories y buf (p # ps) status s =
     (let (exists, s) = YaffsPathExists y (take p buf) s
      in if exists then make_directories y buf ps status s
         else
           (let (status, s) = ya_mkdir y (take p buf) s
            in if status < 0 then YaffsTranslateError y (status, s)
               else make_directories y buf ps status s))"

definition Yaffs_MakeDirectory :: "'y yaffs \<Rightarrow> bytes \<Rightarrow> 'y \<Rightarrow> (OSResult \<times> 'y) option" where
  "Yaffs_MakeDirectory y path s =
     map_option
       (\<lambda>buf. make_directories y buf (filter (\<lambda>p. buf ! p = 0x2F) [1..<length buf]) 0 s)
       (closed_path path)"

definition Yaffs_IsDirectory :: "'y yaffs \<Rightarrow> bytes \<Rightarrow> 'y \<Rightarrow> bool \<times> 'y" where
  "Yaffs_IsDirectory y path s =
     (let ((status, st), s) = ya_stat y path s in (status \<noteq> - 1 \<and> st_isdir st, s))"

definition Yaffs_GetFileSize :: "'y yaffs \<Rightarrow> int \<Rightarrow> 'y \<Rightarrow> int \<times> 'y" where
  "Yaffs_GetFileSize y file s = (let ((_, st), s) = ya_fstat y file s in (st_size st, s))"

text \<open>\<open>ya_stat_reldir\<close> stands for the search of the directory object, which may fail, and the call on it.\<close>

definition Yaffs_GetFileSizeIn :: "'y yaffs \<Rightarrow> bytes option \<Rightarrow> bytes \<Rightarrow> 'y \<Rightarrow> int \<times> 'y" where
  "Yaffs_GetFileSizeIn y dir file s =
     (case dir of
        None \<Rightarrow> (let ((_, st), s) = ya_stat y file s in (st_size st, s))
      | Some dir \<Rightarrow>
          (case ya_stat_reldir y dir file s of
             (None, s) \<Rightarrow> (- 1, s)
           | (Some (_, st), s) \<Rightarrow> (st_size st, s)))"

primrec num_SeekOrigin :: "SeekOrigin \<Rightarrow> nat" where
  "num_SeekOrigin Seek_Begin = 0"
| "num_SeekOrigin Seek_Current = 1"
| "num_SeekOrigin Seek_End = 2"

definition YaffsFileSystem :: "'y yaffs \<Rightarrow> 'y IFileSystem" where
  "YaffsFileSystem y =
     \<lparr>fs_Open = Yaffs_Open y,
      fs_Unlink = (\<lambda>path s. YaffsTranslateError y (ya_unlink y path s)),
      fs_Move = (\<lambda>src dest s. YaffsTranslateError y (ya_rename y src dest s)),
      fs_Copy = Yaffs_Copy y,
      fs_TruncateFile = (\<lambda>file n s. YaffsTranslateError y (ya_ftruncate y file n s)),
      fs_Write = Yaffs_Write y,
      fs_Read = Yaffs_Read y,
      fs_Close = (\<lambda>file s. YaffsTranslateError y (ya_close y file s)),
      fs_OpenDirectory = Yaffs_OpenDirectory y,
      fs_ReadDirectory = ya_readdir y,
      fs_CloseDirectory = (\<lambda>d s. YaffsTranslateError y (ya_closedir y d s)),
      fs_IsDirectory = Yaffs_IsDirectory y,
      fs_Format = (\<lambda>path s. YaffsTranslateError y (ya_format y path s)),
      fs_MakeDirectory = Yaffs_MakeDirectory y,
      fs_Exists = YaffsPathExists y,
      fs_GetFileSize = Yaffs_GetFileSize y,
      fs_GetFileSizeIn = Yaffs_GetFileSizeIn y,
      fs_Seek = (\<lambda>file origin offset s.
        YaffsTranslateError y (ya_lseek y file offset (num_SeekOrigin origin) s)),
      fs_GetFreeSpace = ya_freespace y\<rparr>"

section \<open>Files (extension.cpp)\<close>

text \<open>\<open>None\<close> is the handle of a file that is not valid.\<close>

type_synonym File = "int option"

definition File_open :: "'s IFileSystem \<Rightarrow> bytes \<Rightarrow> FileOpen \<Rightarrow> FileAccess \<Rightarrow> 's \<Rightarrow> File \<times> 's" where
  "File_open fs path mode access s =
     (let ((status, handle), s) = fs_Open fs path mode access s
      in (if OS_RESULT_SUCCEEDED status then Some handle else None, s))"

definition File_Read :: "'s IFileSystem \<Rightarrow> File \<Rightarrow> bytes \<Rightarrow> 's \<Rightarrow> (OSResult \<times> nat \<times> bytes) \<times> 's" where
  "File_Read fs f buffer s =
     (case f of None \<Rightarrow> ((OS_InvalidOperation, 0, buffer), s) | Some h \<Rightarrow> fs_Read fs h buffer s)"

definition File_Write :: "'s IFileSystem \<Rightarrow> File \<Rightarrow> bytes \<Rightarrow> 's \<Rightarrow> (OSResult \<times> nat) \<times> 's" where
  "File_Write fs f buffer s =
     (case f of None \<Rightarrow> ((OS_InvalidOperation, 0), s) | Some h \<Rightarrow> fs_Write fs h buffer s)"

definition File_Truncate :: "'s IFileSystem \<Rightarrow> File \<Rightarrow> int \<Rightarrow> 's \<Rightarrow> OSResult \<times> 's" where
  "File_Truncate fs f n s = (case f of None \<Rightarrow> (OS_InvalidOperation, s) | Some h \<Rightarrow> fs_TruncateFile fs h n s)"

definition File_Size :: "'s IFileSystem \<Rightarrow> File \<Rightarrow> 's \<Rightarrow> int \<times> 's" where
  "File_Size fs f s = (case f of None \<Rightarrow> (0, s) | Some h \<Rightarrow> fs_GetFileSize fs h s)"

definition File_Close :: "'s IFileSystem \<Rightarrow> File \<Rightarrow> 's \<Rightarrow> OSResult \<times> File \<times> 's" where
  "File_Close fs f s =
     (case f of
        None \<Rightarrow> (OS_InvalidOperation, f, s)
      | Some h \<Rightarrow> (OS_Success, None, snd (fs_Close fs h s)))"

text \<open>The destructor.\<close>

definition File_drop :: "'s IFileSystem \<Rightarrow> File \<Rightarrow> 's \<Rightarrow> 's" where
  "File_drop fs f s = (case f of None \<Rightarrow> s | Some h \<Rightarrow> snd (fs_Close fs h s))"

text \<open>Seeking does not look at the validity; \<open>h\<close> is the handle the object holds.\<close>

definition File_Seek :: "'s IFileSystem \<Rightarrow> int \<Rightarrow> SeekOrigin \<Rightarrow> int \<Rightarrow> 's \<Rightarrow> OSResult \<times> 's" where
  "File_Seek fs h origin offset s = fs_Seek fs h origin offset s"

definition SaveToFile :: "'s IFileSystem \<Rightarrow> bytes \<Rightarrow> bytes \<Rightarrow> 's \<Rightarrow> bool \<times> 's" where
  "SaveToFile fs file buffer s =
     (let (f, s) = File_open fs file Open_CreateAlways Access_WriteOnly s
      in if f = None then (False, File_drop fs f s)
         else
           (let ((status, n), s) = File_Write fs f buffer s
            in (OS_RESULT_SUCCEEDED status \<and> n = length buffer, File_drop fs f s)))"

definition ReadFromFile :: "'s IFileSystem \<Rightarrow> bytes \<Rightarrow> bytes \<Rightarrow> 's \<Rightarrow> (bool \<times> bytes) \<times> 's" where
  "ReadFromFile fs filePath buffer s =
     (let (f, s) = File_open fs filePath Open_Existing Access_ReadOnly s
      in if f = None then ((False, buffer), File_drop fs f s)
         else
           (let ((status, n, buffer'), s) = File_Read fs f buffer s
            in ((OS_RESULT_SUCCEEDED status \<and> n = length buffer, buffer'), File_drop fs f s)))"



section \<open>The contract of a file store\<close>

text \<open>
  Files by path, and the open handles with their path and position. A call that fails says so and
  changes no file, except that a failed write can leave anything in the file it writes to. Directories
  and flags other than those used below are not described.
\<close>

type_synonym handles = "int \<Rightarrow> (bytes \<times> nat) option"

definition overwritten :: "bytes \<Rightarrow> nat \<Rightarrow> bytes \<Rightarrow> bytes" where
  "overwritten c k bs = take k c @ bs @ drop (k + length bs) c"

locale file_store =
  fixes ok :: "'s \<Rightarrow> bool" and files :: "'s \<Rightarrow> bytes \<Rightarrow> bytes option" and handles :: "'s \<Rightarrow> handles"
    and fs :: "'s IFileSystem"
  assumes open_result: "ok s \<Longrightarrow> m \<in> {Open_Existing, Open_CreateAlways} \<Longrightarrow> fs_Open fs p m a s = ((r, h), t) \<Longrightarrow>
      ok t \<and> (if r = OS_Success
        then handles s h = None \<and> handles t = (handles s)(h \<mapsto> (p, 0))
          \<and> (if m = Open_Existing then files t = files s \<and> files s p \<noteq> None else files t = (files s)(p \<mapsto> []))
        else handles t = handles s \<and> files t = files s)"
    and read_result: "ok s \<Longrightarrow> handles s h = Some (p, k) \<Longrightarrow> files s p = Some c \<Longrightarrow>
      fs_Read fs h buffer s = ((r, n, buffer'), t) \<Longrightarrow> ok t \<and> files t = files s \<and>
      (if r = OS_Success
       then n \<le> length buffer \<and> n \<le> length c - k \<and> buffer' = put_at 0 (take n (drop k c)) buffer
         \<and> handles t = (handles s)(h \<mapsto> (p, k + n))
       else handles t = handles s)"
    and write_result: "ok s \<Longrightarrow> handles s h = Some (p, k) \<Longrightarrow> files s p = Some c \<Longrightarrow> k \<le> length c \<Longrightarrow>
      fs_Write fs h bs s = ((r, n), t) \<Longrightarrow> ok t \<and> (\<exists>c'. files t = (files s)(p \<mapsto> c') \<and>
      (if r = OS_Success
       then n \<le> length bs \<and> c' = overwritten c k (take n bs) \<and> handles t = (handles s)(h \<mapsto> (p, k + n))
       else handles t = handles s))"
    and close_result: "ok s \<Longrightarrow> handles s h \<noteq> None \<Longrightarrow> fs_Close fs h s = (r, t) \<Longrightarrow>
      ok t \<and> files t = files s \<and> handles t = (handles s)(h := None)"

text \<open>A store whose operations on existing files work.\<close>

locale working_file_store = file_store +
  assumes open_works: "ok s \<Longrightarrow> files s p \<noteq> None \<Longrightarrow> fst (fst (fs_Open fs p Open_Existing a s)) = OS_Success"
    and read_works: "ok s \<Longrightarrow> handles s h = Some (p, k) \<Longrightarrow> files s p = Some c \<Longrightarrow>
      fs_Read fs h buffer s = ((r, n, buffer'), t) \<Longrightarrow> r = OS_Success \<and> n = min (length buffer) (length c - k)"
    and size_works: "ok s \<Longrightarrow> handles s h = Some (p, k) \<Longrightarrow> files s p = Some c \<Longrightarrow>
      fs_GetFileSize fs h s = (len, t) \<Longrightarrow>
      ok t \<and> files t = files s \<and> handles t = handles s \<and> len = int (length c)"
    and seek_works: "ok s \<Longrightarrow> handles s h = Some (p, k) \<Longrightarrow> 0 \<le> offset \<Longrightarrow> offset < 2 ^ 31 \<Longrightarrow>
      fs_Seek fs h Seek_Begin offset s = (r, t) \<Longrightarrow>
      r = OS_Success \<and> ok t \<and> files t = files s \<and> handles t = (handles s)(h \<mapsto> (p, nat offset))"
    and stat_works: "ok s \<Longrightarrow> files s p \<noteq> None \<Longrightarrow> fs_IsDirectory fs p s = (b, t) \<Longrightarrow>
      \<not> b \<and> ok t \<and> files t = files s \<and> handles t = handles s"

context file_store
begin

lemma save_result:
  assumes "ok s" and "SaveToFile fs p bs s = (b, t)"
  shows "ok t" "handles t = handles s" "q \<noteq> p \<Longrightarrow> files t q = files s q" "b \<Longrightarrow> files t p = Some bs"
proof -
  obtain r h u where o: "fs_Open fs p Open_CreateAlways Access_WriteOnly s = ((r, h), u)" by (metis prod.collapse)
  note u = open_result [OF assms(1) _ o, simplified]
  have "ok t \<and> handles t = handles s \<and> (q \<noteq> p \<longrightarrow> files t q = files s q) \<and> (b \<longrightarrow> files t p = Some bs)"
  proof (cases "r = OS_Success")
    case False
    then show ?thesis
      using assms(2) u o by (auto simp: SaveToFile_def File_open_def OS_RESULT_SUCCEEDED_def File_drop_def)
  next
    case True
    with u have u: "ok u" "handles u h = Some (p, 0)" "files u p = Some []" "handles s h = None"
      "handles u = (handles s)(h \<mapsto> (p, 0))" "files u = (files s)(p \<mapsto> [])" by simp_all
    obtain r' n v where w: "fs_Write fs h bs u = ((r', n), v)" by (metis prod.collapse)
    obtain c' where v: "ok v" "files v = (files u)(p \<mapsto> c')"
      "r' = OS_Success \<longrightarrow> n \<le> length bs \<and> c' = overwritten [] 0 (take n bs)"
      "handles v = (if r' = OS_Success then (handles u)(h \<mapsto> (p, 0 + n)) else handles u)"
      using write_result [OF u(1-3) _ w] by (auto split: if_splits)
    then have hv: "handles v h \<noteq> None" using u(2) by auto
    obtain r'' x where c: "fs_Close fs h v = (r'', x)" by (metis prod.collapse)
    note x = close_result [OF v(1) hv c]
    have t: "t = x" "b \<longleftrightarrow> r' = OS_Success \<and> n = length bs"
      using assms(2) o w c True by (auto simp: SaveToFile_def File_open_def OS_RESULT_SUCCEEDED_def File_drop_def File_Write_def)
    have "handles t = handles s" using t x v(4) u(4,5) by (auto simp: fun_upd_idem)
    then show ?thesis using t x v u by (auto simp: overwritten_def)
  qed
  then show "ok t" "handles t = handles s" "q \<noteq> p \<Longrightarrow> files t q = files s q" "b \<Longrightarrow> files t p = Some bs" by auto
qed

lemma read_file_result:
  assumes "ok s" and "ReadFromFile fs p buffer s = ((b, buffer'), t)"
  shows "ok t \<and> handles t = handles s \<and> files t = files s
    \<and> (b \<longrightarrow> (\<exists>c. files s p = Some c \<and> length buffer \<le> length c \<and> buffer' = take (length buffer) c))"
proof -
  obtain r h u where o: "fs_Open fs p Open_Existing Access_ReadOnly s = ((r, h), u)" by (metis prod.collapse)
  note u = open_result [OF assms(1) _ o, simplified]
  show ?thesis
  proof (cases "r = OS_Success")
    case False
    then show ?thesis
      using assms(2) u o by (auto simp: ReadFromFile_def File_open_def OS_RESULT_SUCCEEDED_def File_drop_def)
  next
    case True
    with u obtain c where u: "ok u" "handles u h = Some (p, 0)" "files u p = Some c" "handles s h = None"
      "handles u = (handles s)(h \<mapsto> (p, 0))" "files u = files s" by auto
    obtain r' n buf v where w: "fs_Read fs h buffer u = ((r', n, buf), v)" by (metis prod.collapse)
    note v = read_result [OF u(1-3) w]
    then have hv: "handles v h \<noteq> None" using u(2) by (auto split: if_splits)
    obtain r'' x where c: "fs_Close fs h v = (r'', x)" by (metis prod.collapse)
    have "ok v" using v by simp
    note x = close_result [OF this hv c]
    have t: "t = x" "b \<longleftrightarrow> r' = OS_Success \<and> n = length buffer" "buffer' = buf"
      using assms(2) o w c True by (auto simp: ReadFromFile_def File_open_def OS_RESULT_SUCCEEDED_def File_drop_def File_Read_def)
    have "handles t = handles s" using t x v u(4,5) by (auto simp: fun_upd_idem split: if_splits)
    moreover have "put_at 0 (take (length buffer) c) buffer = take (length buffer) c" if "length buffer \<le> length c"
      using that by (simp add: put_at_def)
    ultimately show ?thesis using t x v u by (auto split: if_splits)
  qed
qed

end

section \<open>The implementation keeps the contract\<close>

text \<open>What yaffs documents of the calls, after POSIX: the error number is set by a call that fails.\<close>

locale yaffs_calls =
  fixes ok :: "'y \<Rightarrow> bool" and files :: "'y \<Rightarrow> bytes \<Rightarrow> bytes option" and handles :: "'y \<Rightarrow> handles"
    and y :: "'y yaffs"
  assumes ya_open_result: "ok s \<Longrightarrow> m \<in> {Open_Existing, Open_CreateAlways} \<Longrightarrow>
      ya_open y p (num_FileOpen m OR num_FileAccess a) s = (h, t) \<Longrightarrow>
      ok t \<and> (if h = - 1 then ya_error y t \<noteq> OS_Success \<and> handles t = handles s \<and> files t = files s
        else handles s h = None \<and> handles t = (handles s)(h \<mapsto> (p, 0))
          \<and> (if m = Open_Existing then files t = files s \<and> files s p \<noteq> None else files t = (files s)(p \<mapsto> [])))"
    and ya_read_result: "ok s \<Longrightarrow> handles s h = Some (p, k) \<Longrightarrow> files s p = Some c \<Longrightarrow>
      ya_read y h n s = ((status, bs), t) \<Longrightarrow> ok t \<and> files t = files s \<and>
      (if status = - 1 then ya_error y t \<noteq> OS_Success \<and> handles t = handles s
       else status = int (length bs) \<and> length bs \<le> n \<and> length bs \<le> length c - k
         \<and> bs = take (length bs) (drop k c) \<and> handles t = (handles s)(h \<mapsto> (p, k + length bs)))"
    and ya_write_result: "ok s \<Longrightarrow> handles s h = Some (p, k) \<Longrightarrow> files s p = Some c \<Longrightarrow> k \<le> length c \<Longrightarrow>
      ya_write y h bs s = (status, t) \<Longrightarrow> ok t \<and> (\<exists>c'. files t = (files s)(p \<mapsto> c') \<and>
      (if status = - 1 then ya_error y t \<noteq> OS_Success \<and> handles t = handles s
       else 0 \<le> status \<and> nat status \<le> length bs \<and> c' = overwritten c k (take (nat status) bs)
         \<and> handles t = (handles s)(h \<mapsto> (p, k + nat status))))"
    and ya_close_result: "ok s \<Longrightarrow> handles s h \<noteq> None \<Longrightarrow> ya_close y h s = (status, t) \<Longrightarrow>
      ok t \<and> files t = files s \<and> handles t = (handles s)(h := None)"

locale working_yaffs_calls = yaffs_calls +
  assumes ya_open_works: "ok s \<Longrightarrow> files s p \<noteq> None \<Longrightarrow>
      fst (ya_open y p (num_FileOpen Open_Existing OR num_FileAccess a) s) \<noteq> - 1"
    and ya_create_works: "ok s \<Longrightarrow> fst (ya_open y p (num_FileOpen Open_CreateAlways OR num_FileAccess a) s) \<noteq> - 1"
    and ya_read_works: "ok s \<Longrightarrow> handles s h = Some (p, k) \<Longrightarrow> files s p = Some c \<Longrightarrow>
      fst (fst (ya_read y h n s)) = int (min n (length c - k))"
    and ya_write_works: "ok s \<Longrightarrow> handles s h = Some (p, k) \<Longrightarrow> files s p = Some c \<Longrightarrow> k \<le> length c \<Longrightarrow>
      fst (ya_write y h bs s) = int (length bs)"
    and ya_fstat_works: "ok s \<Longrightarrow> handles s h = Some (p, k) \<Longrightarrow> files s p = Some c \<Longrightarrow>
      ya_fstat y h s = ((status, st), t) \<Longrightarrow>
      st_size st = int (length c) \<and> ok t \<and> files t = files s \<and> handles t = handles s"
    and ya_lseek_works: "ok s \<Longrightarrow> handles s h = Some (p, k) \<Longrightarrow> 0 \<le> offset \<Longrightarrow> offset < 2 ^ 31 \<Longrightarrow>
      ya_lseek y h offset 0 s = (status, t) \<Longrightarrow>
      status \<noteq> - 1 \<and> ok t \<and> files t = files s \<and> handles t = (handles s)(h \<mapsto> (p, nat offset))"
    and ya_stat_works: "ok s \<Longrightarrow> files s p \<noteq> None \<Longrightarrow> ya_stat y p s = ((status, st), t) \<Longrightarrow>
      \<not> st_isdir st \<and> ok t \<and> files t = files s \<and> handles t = handles s"

lemmas yaffs_defs = YaffsFileSystem_def YaffsTranslateError_def Yaffs_Open_def Yaffs_Read_def Yaffs_Write_def
  Yaffs_GetFileSize_def Yaffs_IsDirectory_def

sublocale yaffs_calls \<subseteq> store: file_store ok files handles "YaffsFileSystem y"
proof
  fix s t :: 'y and m p a h r
  assume "ok s" "m \<in> {Open_Existing, Open_CreateAlways}" "fs_Open (YaffsFileSystem y) p m a s = ((r, h), t)"
  then show "ok t \<and> (if r = OS_Success
        then handles s h = None \<and> handles t = (handles s)(h \<mapsto> (p, 0))
          \<and> (if m = Open_Existing then files t = files s \<and> files s p \<noteq> None else files t = (files s)(p \<mapsto> []))
        else handles t = handles s \<and> files t = files s)"
    using ya_open_result [of s m p a h t] by (auto simp: yaffs_defs case_prod_beta prod_eq_iff split: if_splits)
next
  fix s t :: 'y and h p k c n r and buffer buffer' :: bytes
  assume a: "ok s" "handles s h = Some (p, k)" "files s p = Some c"
    "fs_Read (YaffsFileSystem y) h buffer s = ((r, n, buffer'), t)"
  obtain status bs u where "ya_read y h (length buffer) s = ((status, bs), u)" by (metis prod.collapse)
  with a ya_read_result [OF a(1-3) this] show "ok t \<and> files t = files s \<and>
      (if r = OS_Success
       then n \<le> length buffer \<and> n \<le> length c - k \<and> buffer' = put_at 0 (take n (drop k c)) buffer
         \<and> handles t = (handles s)(h \<mapsto> (p, k + n))
       else handles t = handles s)"
    by (auto simp: yaffs_defs split: if_splits)
next
  fix s t :: 'y and h p k c n r and bs :: bytes
  assume a: "ok s" "handles s h = Some (p, k)" "files s p = Some c" "k \<le> length c"
    "fs_Write (YaffsFileSystem y) h bs s = ((r, n), t)"
  obtain status u where "ya_write y h bs s = (status, u)" by (metis prod.collapse)
  with a ya_write_result [OF a(1-4) this] show "ok t \<and> (\<exists>c'. files t = (files s)(p \<mapsto> c') \<and>
      (if r = OS_Success
       then n \<le> length bs \<and> c' = overwritten c k (take n bs) \<and> handles t = (handles s)(h \<mapsto> (p, k + n))
       else handles t = handles s))"
    by (auto simp: yaffs_defs split: if_splits)
next
  fix s t :: 'y and h r
  assume "ok s" "handles s h \<noteq> None" "fs_Close (YaffsFileSystem y) h s = (r, t)"
  then show "ok t \<and> files t = files s \<and> handles t = (handles s)(h := None)"
    using ya_close_result [of s h "fst (ya_close y h s)" t] by (auto simp: yaffs_defs prod_eq_iff)
qed

sublocale working_yaffs_calls \<subseteq> working_store: working_file_store ok files handles "YaffsFileSystem y"
proof
  fix s :: 'a and p a
  assume "ok s" "files s p \<noteq> None"
  then show "fst (fst (fs_Open (YaffsFileSystem y) p Open_Existing a s)) = OS_Success"
    using ya_open_works [of s p a] by (simp add: yaffs_defs case_prod_beta)
next
  fix s t :: 'a and h p k c n r and buffer buffer' :: bytes
  assume a: "ok s" "handles s h = Some (p, k)" "files s p = Some c"
    "fs_Read (YaffsFileSystem y) h buffer s = ((r, n, buffer'), t)"
  then show "r = OS_Success \<and> n = min (length buffer) (length c - k)"
    using ya_read_works [OF a(1-3), of "length buffer"]
    by (auto simp: yaffs_defs case_prod_beta prod_eq_iff split: if_splits)
next
  fix s t :: 'a and h p k c len
  assume a: "ok s" "handles s h = Some (p, k)" "files s p = Some c"
    "fs_GetFileSize (YaffsFileSystem y) h s = (len, t)"
  obtain status st u where "ya_fstat y h s = ((status, st), u)" by (metis prod.collapse)
  with a ya_fstat_works [OF a(1-3) this]
  show "ok t \<and> files t = files s \<and> handles t = handles s \<and> len = int (length c)" by (auto simp: yaffs_defs)
next
  fix s t :: 'a and h p k offset r
  assume a: "ok s" "handles s h = Some (p, k)" "0 \<le> offset" "offset < 2 ^ 31"
    "fs_Seek (YaffsFileSystem y) h Seek_Begin offset s = (r, t)"
  obtain status u where "ya_lseek y h offset 0 s = (status, u)" by (metis prod.collapse)
  with a ya_lseek_works [OF a(1-4) this]
  show "r = OS_Success \<and> ok t \<and> files t = files s \<and> handles t = (handles s)(h \<mapsto> (p, nat offset))"
    by (auto simp: yaffs_defs)
next
  fix s t :: 'a and p b
  assume a: "ok s" "files s p \<noteq> None" "fs_IsDirectory (YaffsFileSystem y) p s = (b, t)"
  obtain status st u where "ya_stat y p s = ((status, st), u)" by (metis prod.collapse)
  with a ya_stat_works [OF a(1,2) this]
  show "\<not> b \<and> ok t \<and> files t = files s \<and> handles t = handles s" by (auto simp: yaffs_defs)
qed

section \<open>Copying\<close>

context yaffs_calls
begin

lemma close_other:
  assumes "ok s" and "handles s h \<noteq> None"
  shows "ok (snd (ya_close y h s))" "files (snd (ya_close y h s)) = files s"
    "handles (snd (ya_close y h s)) = (handles s)(h := None)"
  using ya_close_result [OF assms, of "fst (ya_close y h s)"] by simp_all

lemma close_both:
  assumes "ok s" and "handles s h \<noteq> None" and "handles s h' \<noteq> None" and "h \<noteq> h'"
  shows "ok (snd (ya_close y h (snd (ya_close y h' s))))" "files (snd (ya_close y h (snd (ya_close y h' s)))) = files s"
  using assms close_other [OF assms(1,3)] close_other [of "snd (ya_close y h' s)" h] by simp_all

text \<open>One round: either the loop ends, or it has moved on by 1024 bytes.\<close>

lemma copy_round:
  assumes s: "ok s" "handles s hs = Some (src, k)" "files s src = Some c" "k \<le> length c"
    "handles s hd1 = Some (dest, j)" "files s dest = Some c'" "j \<le> length c'" and ne: "hs \<noteq> hd1" "src \<noteq> dest"
  obtains (ended) r t where "Yaffs_copy_loop y hs hd1 s = Some (r, t)" "ok t" "\<forall>q. q \<noteq> dest \<longrightarrow> files t q = files s q"
    "fst (fst (ya_read y hs 1024 s)) = int (min 1024 (length c - k)) \<Longrightarrow>
      (\<And>u bs. ok u \<Longrightarrow> handles u hd1 = Some (dest, j) \<Longrightarrow> files u dest = Some c' \<Longrightarrow> fst (ya_write y hd1 bs u) = int (length bs)) \<Longrightarrow>
      files t dest = Some (overwritten c' j (drop k c))"
  | (goes_on) n v where "Yaffs_copy_loop y hs hd1 s = Yaffs_copy_loop y hs hd1 v" "ok v"
    "\<forall>q. q \<noteq> dest \<longrightarrow> files v q = files s q" "k + 1024 \<le> length c" "n \<le> 1024"
    "handles v hs = Some (src, k + 1024)" "handles v hd1 = Some (dest, j + n)"
    "files v dest = Some (overwritten c' j (take n (drop k c)))"
    "(\<And>u bs. ok u \<Longrightarrow> handles u hd1 = Some (dest, j) \<Longrightarrow> files u dest = Some c' \<Longrightarrow> fst (ya_write y hd1 bs u) = int (length bs)) \<Longrightarrow> n = 1024"
proof -
  obtain b bs u where r: "ya_read y hs 1024 s = ((b, bs), u)" by (metis prod.collapse)
  note u = ya_read_result [OF s(1-3) r]
  have u1: "ok u" "files u = files s" "handles u hd1 = Some (dest, j)" "handles u hs \<noteq> None"
    using u s ne by (auto split: if_splits)
  show thesis
  proof (cases "b = - 1")
    case True
    then have "\<exists>r. Yaffs_copy_loop y hs hd1 s = Some (r, snd (ya_close y hs (snd (ya_close y hd1 u))))"
      by (subst Yaffs_copy_loop.simps) (simp add: r YaffsTranslateError_def)
    then show thesis using ended close_both [OF u1(1,4) _ ne(1)] u1 True r by auto
  next
    case False
    with u have u2: "b = int (length bs)" "length bs \<le> 1024" "length bs \<le> length c - k" "bs = take (length bs) (drop k c)"
      "handles u = (handles s)(hs \<mapsto> (src, k + length bs))" by simp_all
    obtain w v where w: "ya_write y hd1 bs u = (w, v)" by (metis prod.collapse)
    obtain c'' where v: "ok v" "files v = (files u)(dest \<mapsto> c'')"
      "if w = - 1 then handles v = handles u
       else 0 \<le> w \<and> nat w \<le> length bs \<and> c'' = overwritten c' j (take (nat w) bs) \<and> handles v = (handles u)(hd1 \<mapsto> (dest, j + nat w))"
      using ya_write_result [OF u1(1,3) _ s(7) w] u1(2) s(6) by (auto split: if_splits)
    have v1: "handles v hs \<noteq> None" "handles v hd1 \<noteq> None" "\<forall>q. q \<noteq> dest \<longrightarrow> files v q = files s q"
      using v u1 ne by (auto split: if_splits)
    note cl = close_both [OF v(1) v1(1,2) ne(1)]
    show thesis
    proof (cases "w = - 1 \<or> length bs < 1024")
      case True
      have "\<exists>r. Yaffs_copy_loop y hs hd1 s = Some (r, snd (ya_close y hs (snd (ya_close y hd1 v))))"
        using True False u2(1) by (subst Yaffs_copy_loop.simps) (auto simp: r w YaffsTranslateError_def case_prod_beta)
      then obtain r where run: "Yaffs_copy_loop y hs hd1 s = Some (r, snd (ya_close y hs (snd (ya_close y hd1 v))))" by auto
      show thesis
      proof (rule ended [OF run cl(1)])
        show "\<forall>q. q \<noteq> dest \<longrightarrow> files (snd (ya_close y hs (snd (ya_close y hd1 v)))) q = files s q" using cl v1(3) by simp
        assume full: "fst (fst (ya_read y hs 1024 s)) = int (min 1024 (length c - k))"
          and works: "\<And>u bs. ok u \<Longrightarrow> handles u hd1 = Some (dest, j) \<Longrightarrow> files u dest = Some c' \<Longrightarrow>
            fst (ya_write y hd1 bs u) = int (length bs)"
        have ww: "w = int (length bs)" using works [of u bs] u1 s(6) w by simp
        then have "length bs < 1024" using True by simp
        then have "length bs = length c - k" using full r u2(1) by simp
        then have "bs = drop k c" using u2(4) by simp
        with ww have "c'' = overwritten c' j (drop k c)" using v(3) by simp
        then show "files (snd (ya_close y hs (snd (ya_close y hd1 v)))) dest = Some (overwritten c' j (drop k c))"
          using cl v(2) by simp
      qed
    next
      case more: False
      then have n: "length bs = 1024" using u2(2) by simp
      have "Yaffs_copy_loop y hs hd1 s = Yaffs_copy_loop y hs hd1 v"
        using more False u2(1) n by (subst Yaffs_copy_loop.simps) (simp add: r w)
      moreover have "take (nat w) bs = take (nat w) (drop k c)" using u2(4) n v(3) more by (auto simp: min_def)
      moreover have "nat w = 1024"
        if works: "\<And>u bs. ok u \<Longrightarrow> handles u hd1 = Some (dest, j) \<Longrightarrow> files u dest = Some c' \<Longrightarrow>
          fst (ya_write y hd1 bs u) = int (length bs)"
        using works [of u bs] u1 s(6) w n by simp
      moreover have "k + 1024 \<le> length c" using u2(3) n by linarith
      ultimately show thesis
        using goes_on [of v "nat w"] v v1(3) u2(3,5) n more ne u1 s(6) by (auto split: if_splits)
    qed
  qed
qed

end

context yaffs_calls
begin

lemma copy_loop_returns:
  assumes "ok s" and "handles s hs = Some (src, k)" and "files s src = Some c" and "k \<le> length c"
    and "handles s hd1 = Some (dest, j)" and "files s dest = Some c'" and "j \<le> length c'"
    and ne: "hs \<noteq> hd1" "src \<noteq> dest"
  shows "\<exists>r t. Yaffs_copy_loop y hs hd1 s = Some (r, t) \<and> ok t \<and> (\<forall>q. q \<noteq> dest \<longrightarrow> files t q = files s q)"
  using assms(1-7)
proof (induction "length c - k" arbitrary: s k j c' rule: less_induct)
  case less
  show ?case
  proof (rule copy_round [OF less.prems ne])
    fix n v
    assume step: "Yaffs_copy_loop y hs hd1 s = Yaffs_copy_loop y hs hd1 v" "ok v"
      "\<forall>q. q \<noteq> dest \<longrightarrow> files v q = files s q" "k + 1024 \<le> length c"
      "handles v hs = Some (src, k + 1024)" "handles v hd1 = Some (dest, j + n)"
      "files v dest = Some (overwritten c' j (take n (drop k c)))" "n \<le> 1024"
    have "j + n \<le> length (overwritten c' j (take n (drop k c)))"
      using less.prems(7) step(4,8) by (simp add: overwritten_def)
    then have "\<exists>r t. Yaffs_copy_loop y hs hd1 v = Some (r, t) \<and> ok t \<and> (\<forall>q. q \<noteq> dest \<longrightarrow> files t q = files v q)"
      using step less.prems(3,4) ne by (intro less.hyps [of "k + 1024"]) auto
    then show ?thesis using step by auto
  qed auto
qed

lemma copy_returns:
  assumes "ok s" and "files s src \<noteq> None" and "src \<noteq> dest"
  shows "\<exists>r t. Yaffs_Copy y src dest s = Some (r, t) \<and> ok t \<and> (\<forall>q. q \<noteq> dest \<longrightarrow> files t q = files s q)"
proof -
  obtain hs u where a: "ya_open y src 0 s = (hs, u)" by (metis prod.collapse)
  obtain hd1 v where b: "ya_open y dest (0x40 OR 1 OR 0x200) u = (hd1, v)" by (metis prod.collapse)
  have flags: "(0x40 OR 1 OR 0x200 :: u32) = num_FileOpen Open_CreateAlways OR num_FileAccess Access_WriteOnly"
    by simp
  note u = ya_open_result [OF assms(1), of Open_Existing src Access_ReadOnly hs u]
  show ?thesis
  proof (cases "hs = - 1")
    case True
    then show ?thesis using u a by (simp add: Yaffs_Copy_def YaffsTranslateError_def)
  next
    case hs: False
    with u a obtain c where u: "ok u" "handles u hs = Some (src, 0)" "files u = files s" "files s src = Some c" by auto
    note v = ya_open_result [OF u(1), of Open_CreateAlways dest Access_WriteOnly hd1 v, folded flags, OF _ b]
    show ?thesis
    proof (cases "hd1 = - 1")
      case True
      then show ?thesis
        using hs u a b v close_other [of v hs] by (simp add: Yaffs_Copy_def YaffsTranslateError_def)
    next
      case False
      with v u have v: "ok v" "handles v hs = Some (src, 0)" "handles v hd1 = Some (dest, 0)" "hs \<noteq> hd1"
        "files v = (files s)(dest \<mapsto> [])" by auto
      have "\<exists>r t. Yaffs_copy_loop y hs hd1 v = Some (r, t) \<and> ok t \<and> (\<forall>q. q \<noteq> dest \<longrightarrow> files t q = files v q)"
        using v u(4) assms(3) by (intro copy_loop_returns [where c = c and k = 0 and j = 0 and c' = "[]"]) auto
      then show ?thesis using hs False a b v(5) by (simp add: Yaffs_Copy_def)
    qed
  qed
qed

end

context working_yaffs_calls
begin

lemma copy_loop_copies:
  assumes "ok s" and "handles s hs = Some (src, k)" and "files s src = Some c" and "k \<le> length c"
    and "handles s hd1 = Some (dest, k)" and "files s dest = Some (take k c)"
    and ne: "hs \<noteq> hd1" "src \<noteq> dest"
  shows "\<exists>r t. Yaffs_copy_loop y hs hd1 s = Some (r, t) \<and> files t dest = Some c"
  using assms(1-6)
proof (induction "length c - k" arbitrary: s k rule: less_induct)
  case less
  have k: "k \<le> length (take k c)" using less.prems(4) by simp
  have works: "ok u \<Longrightarrow> handles u hd1 = Some (dest, k) \<Longrightarrow> files u dest = Some (take k c) \<Longrightarrow>
      fst (ya_write y hd1 bs u) = int (length bs)" for u bs
    using ya_write_works k by blast
  show ?case
  proof (rule copy_round [OF less.prems(1-6) k ne])
    fix r t
    assume e: "Yaffs_copy_loop y hs hd1 s = Some (r, t)"
      "fst (fst (ya_read y hs 1024 s)) = int (min 1024 (length c - k)) \<Longrightarrow>
      (\<And>u bs. ok u \<Longrightarrow> handles u hd1 = Some (dest, k) \<Longrightarrow> files u dest = Some (take k c) \<Longrightarrow> fst (ya_write y hd1 bs u) = int (length bs)) \<Longrightarrow>
      files t dest = Some (overwritten (take k c) k (drop k c))"
    then show ?thesis using works ya_read_works [OF less.prems(1-3), of 1024] k by (simp add: overwritten_def)
  next
    fix n v
    assume step: "Yaffs_copy_loop y hs hd1 s = Yaffs_copy_loop y hs hd1 v" "ok v"
      "\<forall>q. q \<noteq> dest \<longrightarrow> files v q = files s q" "k + 1024 \<le> length c"
      "handles v hs = Some (src, k + 1024)" "handles v hd1 = Some (dest, k + n)"
      "files v dest = Some (overwritten (take k c) k (take n (drop k c)))"
      "(\<And>u bs. ok u \<Longrightarrow> handles u hd1 = Some (dest, k) \<Longrightarrow> files u dest = Some (take k c) \<Longrightarrow> fst (ya_write y hd1 bs u) = int (length bs)) \<Longrightarrow> n = 1024"
    then have n: "n = 1024" using works by blast
    have "overwritten (take k c) k (take n (drop k c)) = take (k + 1024) c"
      using step(4) n by (simp add: overwritten_def take_add)
    then have "\<exists>r t. Yaffs_copy_loop y hs hd1 v = Some (r, t) \<and> files t dest = Some c"
      using step n less.prems(3,4) ne by (intro less.hyps [of "k + 1024"]) auto
    then show ?thesis using step by auto
  qed
qed

lemma copy_copies:
  assumes "ok s" and "files s src = Some c" and "src \<noteq> dest"
  shows "\<exists>r t. Yaffs_Copy y src dest s = Some (r, t) \<and> files t dest = Some c"
proof -
  obtain hs u where a: "ya_open y src 0 s = (hs, u)" by (metis prod.collapse)
  obtain hd1 v where b: "ya_open y dest (0x40 OR 1 OR 0x200) u = (hd1, v)" by (metis prod.collapse)
  have flags: "(0x40 OR 1 OR 0x200 :: u32) = num_FileOpen Open_CreateAlways OR num_FileAccess Access_WriteOnly"
    by simp
  have hs: "hs \<noteq> - 1" using ya_open_works [OF assms(1), of src Access_ReadOnly] assms(2) a by simp
  with ya_open_result [OF assms(1), of Open_Existing src Access_ReadOnly hs u] a
  have u: "ok u" "handles u hs = Some (src, 0)" "files u = files s" by auto
  have hd1: "hd1 \<noteq> - 1" using ya_create_works [OF u(1), of dest Access_WriteOnly, folded flags] b by simp
  with ya_open_result [OF u(1), of Open_CreateAlways dest Access_WriteOnly hd1 v, folded flags, OF _ b] u
  have v: "ok v" "handles v hs = Some (src, 0)" "handles v hd1 = Some (dest, 0)" "hs \<noteq> hd1"
    "files v = (files s)(dest \<mapsto> [])" by auto
  have "\<exists>r t. Yaffs_copy_loop y hs hd1 v = Some (r, t) \<and> files t dest = Some c"
    using v assms(2,3) by (intro copy_loop_copies [where k = 0]) auto
  then show ?thesis using hs hd1 a b by (simp add: Yaffs_Copy_def)
qed

end

text \<open>An error of reading, or of writing, is reported as success.\<close>

theorem Copy_hides_errors:
  assumes "ya_open y src 0 s = (srcFile, u)" and "srcFile \<noteq> - 1"
    and "ya_open y dest (0x40 OR 1 OR 0x200) u = (destFile, v)" and "destFile \<noteq> - 1"
    and "fst (fst (ya_read y srcFile 1024 v)) = - 1"
  shows "\<exists>t. Yaffs_Copy y src dest s = Some (OS_Success, t)"
  using assms by (subst Yaffs_Copy_def, subst Yaffs_copy_loop.simps)
    (simp add: YaffsTranslateError_def case_prod_beta)

section \<open>A file system in memory\<close>

text \<open>
  An instance of the calls: files by path, the names of the one directory in \<open>mf_names\<close>, those still
  to be listed in \<open>mf_dir\<close>.
\<close>

record mem_fs =
  mf_files :: "bytes \<Rightarrow> bytes option"
  mf_handles :: handles
  mf_next :: int
  mf_names :: "bytes list"
  mf_dir :: "bytes list"

definition mem_ok :: "'z mem_fs_scheme \<Rightarrow> bool" where
  "mem_ok s \<longleftrightarrow> 0 \<le> mf_next s \<and> (\<forall>h \<ge> mf_next s. mf_handles s h = None)"

definition mem_open :: "bytes \<Rightarrow> u32 \<Rightarrow> 'z mem_fs_scheme \<Rightarrow> int \<times> 'z mem_fs_scheme" where
  "mem_open p flags s =
     (if mf_files s p = None \<and> flags AND 0x40 = 0 then (- 1, s)
      else
        (mf_next s,
         s\<lparr>mf_files := (if flags AND 0x200 \<noteq> 0 \<or> mf_files s p = None then (mf_files s)(p \<mapsto> []) else mf_files s),
           mf_handles := (mf_handles s)(mf_next s \<mapsto> (p, 0)), mf_next := mf_next s + 1\<rparr>))"

definition mem_read :: "int \<Rightarrow> nat \<Rightarrow> 'z mem_fs_scheme \<Rightarrow> (int \<times> bytes) \<times> 'z mem_fs_scheme" where
  "mem_read h n s =
     (case mf_handles s h of
        None \<Rightarrow> ((- 1, []), s)
      | Some (p, k) \<Rightarrow>
          (let bs = take n (drop k (the (mf_files s p)))
           in ((int (length bs), bs), s\<lparr>mf_handles := (mf_handles s)(h \<mapsto> (p, k + length bs))\<rparr>)))"

definition mem_write :: "int \<Rightarrow> bytes \<Rightarrow> 'z mem_fs_scheme \<Rightarrow> int \<times> 'z mem_fs_scheme" where
  "mem_write h bs s =
     (case mf_handles s h of
        None \<Rightarrow> (- 1, s)
      | Some (p, k) \<Rightarrow>
          (int (length bs),
           s\<lparr>mf_files := (mf_files s)(p \<mapsto> overwritten (the (mf_files s p)) k bs),
             mf_handles := (mf_handles s)(h \<mapsto> (p, k + length bs))\<rparr>))"

definition mem_lseek :: "int \<Rightarrow> int \<Rightarrow> nat \<Rightarrow> 'z mem_fs_scheme \<Rightarrow> int \<times> 'z mem_fs_scheme" where
  "mem_lseek h offset whence s =
     (case mf_handles s h of
        None \<Rightarrow> (- 1, s)
      | Some (p, k) \<Rightarrow> (offset, s\<lparr>mf_handles := (mf_handles s)(h \<mapsto> (p, nat offset))\<rparr>))"

definition mem_stat :: "bytes \<Rightarrow> 'z mem_fs_scheme \<Rightarrow> (int \<times> file_stat) \<times> 'z mem_fs_scheme" where
  "mem_stat p s =
     ((if mf_files s p = None then - 1 else 0,
       \<lparr>st_isdir = False, st_size = (case mf_files s p of None \<Rightarrow> 0 | Some c \<Rightarrow> int (length c))\<rparr>), s)"

definition mem_yaffs :: "'z mem_fs_scheme yaffs" where
  "mem_yaffs =
     \<lparr>ya_open = mem_open,
      ya_close = (\<lambda>h s. (0, s\<lparr>mf_handles := (mf_handles s)(h := None)\<rparr>)),
      ya_read = mem_read, ya_write = mem_write, ya_lseek = mem_lseek,
      ya_ftruncate = (\<lambda>h n s. (- 1, s)),
      ya_fstat = (\<lambda>h s. mem_stat (case mf_handles s h of None \<Rightarrow> [] | Some (p, k) \<Rightarrow> p) s),
      ya_stat = mem_stat,
      ya_stat_reldir = (\<lambda>d p s. (Some (fst (mem_stat (d @ [0x2F] @ p) s)), s)),
      ya_unlink = (\<lambda>p s. (if mf_files s p = None then - 1 else 0, s\<lparr>mf_files := (mf_files s)(p := None)\<rparr>)),
      ya_rename = (\<lambda>p q s. (- 1, s)),
      ya_mkdir = (\<lambda>p s. (0, s)),
      ya_opendir = (\<lambda>p s. (Some 0, s\<lparr>mf_dir := mf_names s\<rparr>)),
      ya_readdir = (\<lambda>d s. (case mf_dir s of [] \<Rightarrow> (None, s) | n # ns \<Rightarrow> (Some n, s\<lparr>mf_dir := ns\<rparr>))),
      ya_closedir = (\<lambda>d s. (0, s)),
      ya_format = (\<lambda>p s. (0, s\<lparr>mf_files := (\<lambda>_. None)\<rparr>)),
      ya_freespace = (\<lambda>p s. (0, s)),
      ya_error = (\<lambda>s. OS_NotFound)\<rparr>"

lemma open_flags:
  "(num_FileOpen Open_Existing OR num_FileAccess a) AND 0x40 = 0"
  "(num_FileOpen Open_Existing OR num_FileAccess a) AND 0x200 = 0"
  "(num_FileOpen Open_CreateAlways OR num_FileAccess a) AND 0x40 \<noteq> 0"
  "(num_FileOpen Open_CreateAlways OR num_FileAccess a) AND 0x200 \<noteq> 0"
  by (cases a, simp_all)+

lemma mem_calls: "working_yaffs_calls mem_ok mf_files mf_handles mem_yaffs"
proof
  fix s t m p a h
  assume "mem_ok s" "m \<in> {Open_Existing, Open_CreateAlways}"
    "ya_open mem_yaffs p (num_FileOpen m OR num_FileAccess a) s = (h, t)"
  then show "mem_ok t \<and> (if h = - 1 then ya_error mem_yaffs t \<noteq> OS_Success \<and> mf_handles t = mf_handles s \<and> mf_files t = mf_files s
        else mf_handles s h = None \<and> mf_handles t = (mf_handles s)(h \<mapsto> (p, 0))
          \<and> (if m = Open_Existing then mf_files t = mf_files s \<and> mf_files s p \<noteq> None else mf_files t = (mf_files s)(p \<mapsto> [])))"
    using open_flags [of a]
    by (auto simp: mem_yaffs_def mem_open_def mem_ok_def simp del: num_FileOpen.simps split: if_splits)
next
  fix s t h p k c n status bs
  assume "mem_ok s" "mf_handles s h = Some (p, k)" "mf_files s p = Some c" "ya_read mem_yaffs h n s = ((status, bs), t)"
  then show "mem_ok t \<and> mf_files t = mf_files s \<and>
      (if status = - 1 then ya_error mem_yaffs t \<noteq> OS_Success \<and> mf_handles t = mf_handles s
       else status = int (length bs) \<and> length bs \<le> n \<and> length bs \<le> length c - k
         \<and> bs = take (length bs) (drop k c) \<and> mf_handles t = (mf_handles s)(h \<mapsto> (p, k + length bs)))"
    by (auto simp: mem_yaffs_def mem_read_def mem_ok_def Let_def min_def)
next
  fix s t h p k c bs status
  assume "mem_ok s" "mf_handles s h = Some (p, k)" "mf_files s p = Some c" "k \<le> length c" "ya_write mem_yaffs h bs s = (status, t)"
  then show "mem_ok t \<and> (\<exists>c'. mf_files t = (mf_files s)(p \<mapsto> c') \<and>
      (if status = - 1 then ya_error mem_yaffs t \<noteq> OS_Success \<and> mf_handles t = mf_handles s
       else 0 \<le> status \<and> nat status \<le> length bs \<and> c' = overwritten c k (take (nat status) bs)
         \<and> mf_handles t = (mf_handles s)(h \<mapsto> (p, k + nat status))))"
    by (auto simp: mem_yaffs_def mem_write_def mem_ok_def)
next
  fix s p a
  show "fst (ya_open mem_yaffs p (num_FileOpen Open_CreateAlways OR num_FileAccess a) s) \<noteq> - 1" if "mem_ok s"
    using open_flags(3) [of a] that by (simp add: mem_yaffs_def mem_open_def mem_ok_def del: num_FileOpen.simps)
qed (auto simp: mem_yaffs_def mem_open_def mem_read_def mem_write_def mem_lseek_def mem_stat_def mem_ok_def
    Let_def min_def split: if_splits)

interpretation mem: working_yaffs_calls mem_ok mf_files mf_handles mem_yaffs
  by (rule mem_calls)

section \<open>Saving and reading files\<close>

context yaffs_calls
begin

lemma as_store: "file_store ok files handles (YaffsFileSystem y)"
  by (rule store.file_store_axioms)

end

context working_yaffs_calls
begin

lemma as_working_store: "working_file_store ok files handles (YaffsFileSystem y)"
  by (rule working_store.working_file_store_axioms)

end

text \<open>
  C28. A file that was saved with success is read back as saved. The file store may fail at any time, so
  long as it reports it; saving touches no other file, reading touches none, and no handle is left
  open, on any path through the two functions.
\<close>

theorem saved_file_is_read:
  assumes "yaffs_calls ok files handles y" and "ok s"
    and "SaveToFile (YaffsFileSystem y) p bs s = (True, t)"
    and "length buffer = length bs" and "ReadFromFile (YaffsFileSystem y) p buffer t = ((b, buffer'), u)"
  shows "(b \<longrightarrow> buffer' = bs) \<and> files u = (files s)(p \<mapsto> bs) \<and> handles u = handles s"
proof -
  note store = yaffs_calls.as_store [OF assms(1)]
  note save = file_store.save_result [OF store assms(2,3)]
  have "files t = (files s)(p \<mapsto> bs)" using save(3,4) by auto
  then show ?thesis using file_store.read_file_result [OF store save(1) assms(5)] save(2) assms(4) by auto
qed

definition mem_start :: mem_fs where
  "mem_start = \<lparr>mf_files = (\<lambda>_. None), mf_handles = (\<lambda>_. None), mf_next = 0, mf_names = [], mf_dir = []\<rparr>"

theorem saved_file_is_read_witness:
  "fst (ReadFromFile (YaffsFileSystem mem_yaffs) [0x2F, 0x61] [0, 0, 0]
          (snd (SaveToFile (YaffsFileSystem mem_yaffs) [0x2F, 0x61] [1, 2, 3] mem_start))) = (True, [1, 2, 3])"
proof -
  let ?y = "YaffsFileSystem mem_yaffs"
  let ?t = "snd (SaveToFile ?y [0x2F, 0x61] [1, 2, 3] mem_start)"
  have s: "fst (SaveToFile ?y [0x2F, 0x61] [1, 2, 3] mem_start)" "fst (fst (ReadFromFile ?y [0x2F, 0x61] [0, 0, 0] ?t))"
    by (simp_all add: SaveToFile_def ReadFromFile_def File_open_def File_Write_def File_Read_def File_drop_def
        yaffs_defs mem_yaffs_def mem_open_def mem_write_def mem_read_def mem_start_def OS_RESULT_SUCCEEDED_def
        overwritten_def Let_def)
  have "mem_ok mem_start" by (simp add: mem_ok_def mem_start_def)
  from saved_file_is_read [OF mem.yaffs_calls_axioms this, of "[0x2F, 0x61]" "[1, 2, 3]" ?t "[0, 0, 0]"
      True "snd (fst (ReadFromFile ?y [0x2F, 0x61] [0, 0, 0] ?t))" "snd (ReadFromFile ?y [0x2F, 0x61] [0, 0, 0] ?t)"]
  show ?thesis using s by (auto simp: prod_eq_iff)
qed

text \<open>
  Copying a file always returns, whatever fails on the way, and touches no file but the copy; when
  nothing fails the copy has the contents of the file.
\<close>

theorem copying_returns:
  assumes "yaffs_calls ok files handles y" and "ok s" and "files s src = Some c" and "src \<noteq> dest"
  shows "\<exists>r t. Yaffs_Copy y src dest s = Some (r, t) \<and> (\<forall>q. q \<noteq> dest \<longrightarrow> files t q = files s q)
    \<and> (working_yaffs_calls ok files handles y \<longrightarrow> files t dest = Some c)"
  using yaffs_calls.copy_returns [OF assms(1,2), of src dest] working_yaffs_calls.copy_copies [of ok files handles y s src c dest]
    assms(2-4) by fastforce

theorem copying_returns_witness:
  "\<exists>r t. Yaffs_Copy mem_yaffs [0x61] [0x62] (mem_start\<lparr>mf_files := [[0x61] \<mapsto> [1, 2, 3]]\<rparr>) = Some (r, t)
     \<and> mf_files t [0x62] = Some [1, 2, 3]"
  using copying_returns [OF mem.yaffs_calls_axioms, of "mem_start\<lparr>mf_files := [[0x61] \<mapsto> [1, 2, 3]]\<rparr>" "[0x61]"
      "[1, 2, 3]" "[0x62]"] mem_calls
  by (auto simp: mem_ok_def mem_start_def)

end
