(* ===== verification/File_Telecommands.thy ===== *)
theory File_Telecommands
  imports File_System Telecommunication
begin

text \<open>
  The telecommands on files (libs/obc/communication/telecommands/file_system.cpp). The file system and
  the transmitter, \<open>send\<close>, work on one state.
\<close>

section \<open>Sending a file in parts\<close>

definition MaxFileDataSize :: nat where
  "MaxFileDataSize = DownlinkFrame_MaxPayloadSize - 2"

datatype file_error_code = File_Success | File_FileNotFound | File_MalformedRequest | File_InvalidPath | File_TooBigSeq

primrec num_file_error_code :: "file_error_code \<Rightarrow> u8" where
  "num_file_error_code File_Success = 0"
| "num_file_error_code File_FileNotFound = 1"
| "num_file_error_code File_MalformedRequest = 2"
| "num_file_error_code File_InvalidPath = 3"
| "num_file_error_code File_TooBigSeq = 4"

record file_sender =
  fn_file :: File
  fn_correlationId :: u8
  fn_fileSize :: int
  fn_lastSeq :: u32

definition MaxChunkNumber :: "u32 \<Rightarrow> u32" where
  "MaxChunkNumber fileSize = (fileSize + of_nat MaxFileDataSize - 1) div of_nat MaxFileDataSize"

text \<open>Size and last number are set for a valid file only, and used only then.\<close>

definition FileSender :: "'s IFileSystem \<Rightarrow> bytes \<Rightarrow> u8 \<Rightarrow> 's \<Rightarrow> file_sender \<times> 's" where
  "FileSender fs path correlationId s =
     (let (file, s) = File_open fs path Open_Existing Access_ReadOnly s
      in if file \<noteq> None
         then
           (let (fileSize, s) = File_Size fs file s
            in (\<lparr>fn_file = file, fn_correlationId = correlationId, fn_fileSize = fileSize,
                 fn_lastSeq = MaxChunkNumber (of_int fileSize)\<rparr>, s))
         else (\<lparr>fn_file = file, fn_correlationId = correlationId, fn_fileSize = 0, fn_lastSeq = 0\<rparr>, s))"

definition FileSender_IsValid :: "file_sender \<Rightarrow> bool" where
  "FileSender_IsValid sender \<longleftrightarrow> fn_file sender \<noteq> None"

text \<open>
  The data is read into the reserved part of the payload; how much was read, and whether it could be,
  is not looked at.
\<close>

definition SendPart ::
  "'s IFileSystem \<Rightarrow> (bytes \<Rightarrow> 's \<Rightarrow> bool \<times> 's) \<Rightarrow> file_sender \<Rightarrow> u32 \<Rightarrow> 's \<Rightarrow> bool \<times> 's" where
  "SendPart fs send sender seq s =
     (if fn_lastSeq sender < seq then (False, s)
      else
        (let response = CorrelatedDownlinkFrame APID_FileSend seq (fn_correlationId sender);
             (result, s) = File_Seek fs (the (fn_file sender)) Seek_Begin (sint (seq * of_nat MaxFileDataSize)) s
         in if OS_RESULT_FAILED result then (False, s)
            else
              (let w = snd (Writer_WriteByte (num_file_error_code File_Success) (df_payload response));
                   segmentSize = min MaxFileDataSize
                     (unat (of_int (fn_fileSize sender) - seq * of_nat MaxFileDataSize :: u32));
                   ((offset, n), w) = Writer_Reserve segmentSize w;
                   ((_, _, buf), s) = File_Read fs (fn_file sender) (sub_at offset n (w_buf w)) s;
                   w = w\<lparr>w_buf := put_at offset buf (w_buf w)\<rparr>
               in send (DownlinkFrame_Frame (response\<lparr>df_payload := w\<rparr>)) s)))"

text \<open>A path is what stands before the first zero byte.\<close>

definition c_string :: "bytes \<Rightarrow> bytes" where
  "c_string bs = takeWhile (\<lambda>b. b \<noteq> 0) bs"

definition file_error ::
  "DownlinkAPID \<Rightarrow> u32 \<Rightarrow> u8 \<Rightarrow> u8 \<Rightarrow> bytes \<Rightarrow> bytes" where
  "file_error apid seq correlationId code path =
     DownlinkFrame_Frame
       (PayloadWriter (\<lambda>w. snd (Writer_WriteArray path (snd (Writer_WriteByte code w))))
          (CorrelatedDownlinkFrame apid seq correlationId))"

text \<open>The loop over the requested numbers; its first argument bounds the rounds.\<close>

fun send_parts ::
  "nat \<Rightarrow> 's IFileSystem \<Rightarrow> (bytes \<Rightarrow> 's \<Rightarrow> bool \<times> 's) \<Rightarrow> file_sender \<Rightarrow> bytes \<Rightarrow> reader \<Rightarrow> 's \<Rightarrow> 's" where
  "send_parts 0 fs send sender pathSpan r s = s"
| "send_parts (Suc n) fs send sender pathSpan r s =
     (let (seq, r) = Reader_ReadDoubleWordLE r
      in if \<not> Reader_Status r then s
         else
           (let (sent, s) = SendPart fs send sender seq s;
                s = (if sent then s
                     else snd (send (file_error APID_FileSend seq (fn_correlationId sender)
                                       (num_file_error_code File_TooBigSeq) pathSpan) s))
            in send_parts n fs send sender pathSpan r s))"

definition DownloadFile_Handle ::
  "'s IFileSystem \<Rightarrow> (bytes \<Rightarrow> 's \<Rightarrow> bool \<times> 's) \<Rightarrow> bytes \<Rightarrow> 's \<Rightarrow> 's" where
  "DownloadFile_Handle fs send parameters s =
     (let r = Reader_Initialize parameters;
          (correlationId, r) = Reader_ReadByte r;
          (pathLength, r) = Reader_ReadByte r;
          (pathSpan, r) = Reader_ReadArray (ucast pathLength) r;
          path = c_string pathSpan;
          (terminationByte, r) = Reader_ReadByte r
      in if \<not> Reader_Status r \<or> terminationByte \<noteq> 0
         then snd (send (correlated_reply APID_FileSend 0 correlationId [num_file_error_code File_MalformedRequest, 0]) s)
         else
           (let (isDirectory, s) = fs_IsDirectory fs path s
            in if isDirectory
               then snd (send (correlated_reply APID_FileSend 0 correlationId [num_file_error_code File_InvalidPath, 0]) s)
               else
                 (let (sender, s) = FileSender fs path correlationId s
                  in if \<not> FileSender_IsValid sender
                     then snd (send (file_error APID_FileSend 0 correlationId (num_file_error_code File_FileNotFound) pathSpan) s)
                     else
                       File_drop fs (fn_file sender)
                         (send_parts (Suc (length parameters)) fs send sender pathSpan r s))))"

section \<open>Removing a file\<close>

text \<open>\<open>status_byte\<close> is the number of a result, cut to eight bits.\<close>

definition RemoveFile_Handle ::
  "'s IFileSystem \<Rightarrow> (OSResult \<Rightarrow> u8) \<Rightarrow> (bytes \<Rightarrow> 's \<Rightarrow> bool \<times> 's) \<Rightarrow> bytes \<Rightarrow> 's \<Rightarrow> 's" where
  "RemoveFile_Handle fs status_byte send parameters s =
     (let r = Reader_Initialize parameters;
          (correlationId, r) = Reader_ReadByte r;
          (pathLength, r) = Reader_ReadByte r;
          (pathSpan, r) = Reader_ReadArray (ucast pathLength) r;
          path = c_string pathSpan;
          (terminationByte, r) = Reader_ReadByte r
      in if \<not> Reader_Status r \<or> terminationByte \<noteq> 0
         then snd (send (correlated_reply APID_FileRemove 0 correlationId [status_byte OS_InvalidArgument, 0]) s)
         else
           (let (unlinkResult, s) = fs_Unlink fs path s
            in snd (send (file_error APID_FileRemove 0 correlationId (status_byte unlinkResult) pathSpan) s)))"

section \<open>Listing a directory\<close>

text \<open>The pointer \<open>name\<close>: null, \<open>LostFileName\<close>, or the name of an entry.\<close>

datatype dir_name = No_name | Lost_name | Dir_name bytes

definition LostFileName :: bytes where
  "LostFileName = [0x5B, 0x6C, 0x6F, 0x73, 0x74, 0x5D]"

fun name_of_entry :: "bytes option \<Rightarrow> dir_name" where
  "name_of_entry None = No_name"
| "name_of_entry (Some n) = Dir_name n"

definition write_entry :: "bytes \<Rightarrow> u32 \<Rightarrow> writer \<Rightarrow> writer" where
  "write_entry name fileSize w =
     (let w = snd (Writer_WriteArray name w);
          w = snd (Writer_WriteByte 0 w)
      in snd (Writer_WriteDoubleWordLE fileSize w))"

text \<open>The inner loop fills one frame. It returns the name that did not fit, if any.\<close>

partial_function (option) list_frame ::
  "'s IFileSystem \<Rightarrow> bytes \<Rightarrow> nat \<Rightarrow> dir_name \<Rightarrow> writer \<Rightarrow> 's \<Rightarrow> (dir_name \<times> writer \<times> 's) option" where
  "list_frame fs path dir name w s =
     (case name of
        No_name \<Rightarrow> Some (No_name, w, s)
      | Lost_name \<Rightarrow>
          (let w = write_entry LostFileName 0 w;
               (entry, s) = fs_ReadDirectory fs dir s
           in list_frame fs path dir (name_of_entry entry) w s)
      | Dir_name n \<Rightarrow>
          (let (name, chars) = (if 90 < length n then (Lost_name, LostFileName) else (name, n))
           in if Writer_RemainingSize w < int (length chars) + 5 then Some (name, w, s)
              else
                (let (fileSize, s) = (if name = Lost_name then (0, s)
                                      else (let (size, s) = fs_GetFileSizeIn fs (Some path) n s in (of_int size, s)));
                     w = write_entry chars fileSize w;
                     (entry, s) = fs_ReadDirectory fs dir s
                 in list_frame fs path dir (name_of_entry entry) w s)))"

partial_function (option) list_frames ::
  "'s IFileSystem \<Rightarrow> (bytes \<Rightarrow> 's \<Rightarrow> bool \<times> 's) \<Rightarrow> u8 \<Rightarrow> bytes \<Rightarrow> nat \<Rightarrow> u32 \<Rightarrow> dir_name \<Rightarrow> 's \<Rightarrow> 's option" where
  "list_frames fs send correlationId path dir seq name s =
     (let response = CorrelatedDownlinkFrame APID_FileList seq correlationId;
          w = snd (Writer_WriteByte 0 (df_payload response))
      in case list_frame fs path dir name w s of
           None \<Rightarrow> None
         | Some (name, w, s) \<Rightarrow>
             (let s = snd (send (DownlinkFrame_Frame (response\<lparr>df_payload := w\<rparr>)) s)
              in if name = No_name then Some s
                 else list_frames fs send correlationId path dir (seq + 1) name s))"

text \<open>
  \<open>None\<close>: the loop does not end, or the path, of which at least the terminator is expected, is
  looked for behind the parameters.
\<close>

definition ListFiles_Handle ::
  "'s IFileSystem \<Rightarrow> (OSResult \<Rightarrow> u8) \<Rightarrow> (bytes \<Rightarrow> 's \<Rightarrow> bool \<times> 's) \<Rightarrow> bytes \<Rightarrow> 's \<Rightarrow> 's option" where
  "ListFiles_Handle fs status_byte send parameters s =
     (let r = Reader_Initialize parameters;
          (correlationId, r) = Reader_ReadByte r;
          (pathSpan, r) = Reader_ReadToEnd r
      in if \<not> Reader_Status r \<or> last parameters \<noteq> 0
         then Some (snd (send (correlated_reply APID_FileList 0 correlationId [status_byte OS_InvalidArgument]) s))
         else if pathSpan = [] then None
         else
           (let path = c_string pathSpan;
                ((status, dir), s) = fs_OpenDirectory fs path s
            in if OS_RESULT_FAILED status
               then Some (snd (send (correlated_reply APID_FileList 0 correlationId [status_byte status]) s))
               else
                 (let (entry, s) = fs_ReadDirectory fs (the dir) s
                  in case list_frames fs send correlationId path (the dir) 0 (name_of_entry entry) s of
                       None \<Rightarrow> None
                     | Some s \<Rightarrow> Some (snd (fs_CloseDirectory fs (the dir) s)))))"

section \<open>The parts of a file\<close>

lemma Reserve_fits:
  assumes "writer_wf w" and "fits n w" and "n < 256"
  shows "Writer_Reserve n w = ((unat (w_pos w), n), w\<lparr>w_pos := w_pos w + of_nat n\<rparr>)"
proof -
  have rem: "Writer_RemainingSize w = int (length (w_buf w) - unat (w_pos w))"
    using assms(1) by (simp add: Writer_RemainingSize_def writer_wf_def of_nat_diff)
  have "length (w_buf w) < 2 ^ 16" using assms(1) by (simp add: writer_wf_def)
  then have "length (w_buf w) - unat (w_pos w) < 2 ^ 32" by simp
  then have "unat (of_int (Writer_RemainingSize w) :: u32) = length (w_buf w) - unat (w_pos w)"
    by (simp add: rem unat_of_nat)
  then have m: "min n (unat (of_int (Writer_RemainingSize w) :: u32)) = n"
    using \<open>unat (of_int (Writer_RemainingSize w) :: u32) = _\<close> assms(2) unfolding fits_def by linarith
  have "fits (unat (of_nat n :: u8)) w" using assms(2,3) by (simp add: unat_of_nat)
  then show ?thesis unfolding Writer_Reserve_def m by (simp add: UpdateState_fits)
qed

text \<open>Filling the reserved part is the same as writing it.\<close>

lemma Reserve_then_fill:
  assumes "writer_wf w" and "fits (length bs) w" and "length bs < 256"
  shows "(let ((p, n), v) = Writer_Reserve (length bs) w in v\<lparr>w_buf := put_at p bs (w_buf v)\<rparr>) = advance bs w"
  by (simp add: Reserve_fits [OF assms] advance_def)

definition file_frame :: "u32 \<Rightarrow> u8 \<Rightarrow> bytes \<Rightarrow> bytes" where
  "file_frame seq correlationId bs = df_header (DownlinkFrame APID_FileSend seq) @ correlationId # 0 # bs"

lemma correlated_payload:
  fixes apid :: DownlinkAPID and seq :: u32 and correlationId :: u8
  defines "w \<equiv> df_payload (CorrelatedDownlinkFrame apid seq correlationId)"
  shows "writer_wf w" "fits n w \<longleftrightarrow> n \<le> 231" "w = advance [correlationId] (df_payload (DownlinkFrame apid seq))"
proof -
  let ?w0 = "df_payload (DownlinkFrame apid seq)"
  have f: "fits (length [correlationId]) ?w0" by (simp add: payload_ready DownlinkFrame_MaxPayloadSize_def
        MaxDownlinkFrameSize_def HeaderSize_def)
  show w: "w = advance [correlationId] ?w0"
    using f by (simp add: w_def CorrelatedDownlinkFrame_def PayloadWriter_def WriteByte_emit)
  show "writer_wf w" unfolding w by (rule wf_advance [OF payload_ready(1) f])
  show "fits n w \<longleftrightarrow> n \<le> 231"
    unfolding w fits_advance [OF payload_ready(1) f]
    by (simp add: payload_ready DownlinkFrame_MaxPayloadSize_def MaxDownlinkFrameSize_def HeaderSize_def)
qed

lemma correlated_frame:
  assumes "length payload \<le> 231"
  shows "DownlinkFrame_Frame ((CorrelatedDownlinkFrame apid seq correlationId)
      \<lparr>df_payload := advance payload (df_payload (CorrelatedDownlinkFrame apid seq correlationId))\<rparr>)
    = df_header (DownlinkFrame apid seq) @ correlationId # payload"
proof -
  have "length payload \<le> Correlated_MaxPayloadSize"
    using assms by (simp add: Correlated_MaxPayloadSize_def DownlinkFrame_MaxPayloadSize_def
        MaxDownlinkFrameSize_def HeaderSize_def)
  from CorrelatedDownlinkFrame_payload [OF this, of "advance payload" correlationId apid seq]
  show ?thesis by (simp add: PayloadWriter_def)
qed

text \<open>The transmitter: it logs what it is given and leaves the files alone.\<close>

locale file_link = working_file_store ok files handles fs
  for ok :: "'s \<Rightarrow> bool" and files :: "'s \<Rightarrow> bytes \<Rightarrow> bytes option" and handles :: "'s \<Rightarrow> handles"
    and fs :: "'s IFileSystem" +
  fixes send :: "bytes \<Rightarrow> 's \<Rightarrow> bool \<times> 's" and sent :: "'s \<Rightarrow> bytes list"
  assumes send_result: "ok s \<Longrightarrow> fst (send f s) \<and> ok (snd (send f s)) \<and> files (snd (send f s)) = files s
      \<and> handles (snd (send f s)) = handles s \<and> sent (snd (send f s)) = sent s @ [f]"
    and open_sent: "ok s \<Longrightarrow> sent (snd (fs_Open fs p m a s)) = sent s"
    and read_sent: "ok s \<Longrightarrow> sent (snd (fs_Read fs h buffer s)) = sent s"
    and close_sent: "ok s \<Longrightarrow> sent (snd (fs_Close fs h s)) = sent s"
    and size_sent: "ok s \<Longrightarrow> sent (snd (fs_GetFileSize fs h s)) = sent s"
    and seek_sent: "ok s \<Longrightarrow> sent (snd (fs_Seek fs h origin offset s)) = sent s"
    and stat_sent: "ok s \<Longrightarrow> sent (snd (fs_IsDirectory fs p s)) = sent s"

lemma MaxFileDataSize_value [simp]: "MaxFileDataSize = 230"
  by (simp add: MaxFileDataSize_def DownlinkFrame_MaxPayloadSize_def MaxDownlinkFrameSize_def HeaderSize_def)

lemma MaxChunkNumber_value:
  assumes "n + 230 \<le> 2 ^ 31"
  shows "unat (MaxChunkNumber (of_nat n)) = (n + 229) div 230"
proof -
  have "unat (of_nat n + 230 - 1 :: u32) = n + 229"
  proof -
    have "(of_nat n + 230 - 1 :: u32) = of_nat (n + 229)" by simp
    also have "unat \<dots> = n + 229" using assms by (subst unat_of_nat) simp
    finally show ?thesis .
  qed
  then show ?thesis by (simp add: MaxChunkNumber_def unat_div)
qed

text \<open>Part \<open>k\<close> of a file.\<close>

definition file_part :: "nat \<Rightarrow> bytes \<Rightarrow> bytes" where
  "file_part k c = take 230 (drop (230 * k) c)"

lemma offset_int: "230 * n < 2 ^ 31 \<Longrightarrow> 230 * int n < 2 ^ 31"
  by simp

lemma offset_nat: "nat (230 * int n) = 230 * n"
  by simp

lemma offset_signed: "230 * n < 2 ^ 31 \<Longrightarrow> signed_take_bit 31 (230 * int n) = 230 * int n"
  by (rule signed_take_bit_int_eq_self) simp_all

lemma part_offset:
  fixes seq :: u32
  assumes "n + 230 \<le> 2 ^ 31" and "unat seq \<le> (n + 229) div 230"
  shows "unat (seq * 230) = 230 * unat seq" "sint (seq * 230) = 230 * int (unat seq)"
    "min 230 (unat (of_int (int n) - seq * 230 :: u32)) = (if 230 * unat seq \<le> n then min 230 (n - 230 * unat seq) else 230)"
proof -
  have b: "230 * unat seq \<le> n + 229"
    using mult_le_mono2 [OF assms(2), of 230] times_div_less_eq_dividend [of 230 "n + 229"] by linarith
  then have lt: "230 * unat seq < 2 ^ 31" using assms(1) by simp
  then show u: "unat (seq * 230) = 230 * unat seq" by (simp add: unat_word_ariths)
  then have "uint (seq * 230) = 230 * int (unat seq)" by (metis of_nat_mult of_nat_numeral uint_nat)
  moreover have "signed_take_bit 31 (230 * int (unat seq)) = 230 * int (unat seq)"
    by (rule offset_signed [OF lt])
  ultimately show "sint (seq * 230) = 230 * int (unat seq)" by (simp only: sint_uint len_num1 len_bit0) simp
  have n: "unat (of_int (int n) :: u32) = n" using assms(1) by (simp add: unat_of_nat)
  show "min 230 (unat (of_int (int n) - seq * 230 :: u32))
      = (if 230 * unat seq \<le> n then min 230 (n - 230 * unat seq) else 230)"
  proof (cases "230 * unat seq \<le> n")
    case True
    then show ?thesis using n u by (simp add: unat_sub_if_size)
  next
    case False
    then have "unat (of_int (int n) - seq * 230 :: u32) = n + 2 ^ 32 - 230 * unat seq"
      using n u lt by (simp add: unat_sub_if_size word_size)
    then show ?thesis using False b by simp
  qed
qed

context file_link
begin

lemma SendPart_sends:
  assumes "ok s" and "handles s h = Some (p, k0)" and "files s p = Some c" and "length c + 230 \<le> 2 ^ 31"
    and sender: "sender = \<lparr>fn_file = Some h, fn_correlationId = correlationId, fn_fileSize = int (length c),
      fn_lastSeq = MaxChunkNumber (of_int (int (length c)))\<rparr>"
    and seq: "unat seq \<le> (length c + 229) div 230"
  shows "\<exists>t bs k. SendPart fs send sender seq s = (True, t) \<and> ok t \<and> files t = files s
    \<and> handles t = (handles s)(h \<mapsto> (p, k)) \<and> sent t = sent s @ [file_frame seq correlationId bs]
    \<and> (if 230 * unat seq \<le> length c then bs = file_part (unat seq) c else length bs = 230)"
proof -
  note off = part_offset [OF assms(4) seq]
  have le: "\<not> fn_lastSeq sender < seq"
    using MaxChunkNumber_value [OF assms(4)] seq by (simp add: sender word_less_nat_alt)
  obtain r u where sk: "fs_Seek fs h Seek_Begin (230 * int (unat seq)) s = (r, u)" by (metis prod.collapse)
  have "230 * unat seq < 2 ^ 31"
    using mult_le_mono2 [OF seq, of 230] times_div_less_eq_dividend [of 230 "length c + 229"] assms(4) by simp
  then have lt: "230 * int (unat seq) < 2 ^ 31" by (rule offset_int)
  note n = offset_nat [of "unat seq"]
  have u: "r = OS_Success" "ok u" "files u = files s" "handles u = (handles s)(h \<mapsto> (p, 230 * unat seq))"
    using seek_works [OF assms(1,2) _ lt sk] unfolding n by simp_all
  have su: "sent u = sent s" using seek_sent [OF assms(1), of h Seek_Begin "230 * int (unat seq)"] sk by simp
  let ?d = "CorrelatedDownlinkFrame APID_FileSend seq correlationId"
  let ?w0 = "df_payload ?d" and ?x = 230
  define n where "n = (if 230 * unat seq \<le> length c then min 230 (length c - 230 * unat seq) else 230)"
  have n: "n \<le> 230" by (simp add: n_def)
  define w where "w = advance [0] ?w0"
  note P = correlated_payload [where apid = APID_FileSend and seq = seq and correlationId = correlationId]
  have w: "writer_wf w" "fits n w" "snd (Writer_WriteByte (num_file_error_code File_Success) ?w0) = w"
    using P(1,2) n by (auto simp: w_def WriteByte_emit fits_advance wf_advance)
  obtain p' w' where res: "Writer_Reserve n w = ((p', n), w')" "w' = w\<lparr>w_pos := w_pos w + of_nat n\<rparr>" "p' = unat (w_pos w)"
    using Reserve_fits [OF w(1,2)] n by simp
  have lenb: "length (sub_at p' n (w_buf w')) = n" using w(1,2) by (simp add: res fits_def)
  obtain r2 m buf v where rd: "fs_Read fs h (sub_at p' n (w_buf w')) u = ((r2, m, buf), v)" by (metis prod.collapse)
  have hu: "handles u h = Some (p, 230 * unat seq)" "files u p = Some c" using u assms(3) by simp_all
  note v = read_result [OF u(2) hu rd] read_works [OF u(2) hu rd]
  have sv: "sent v = sent s" using read_sent [OF u(2), of h "sub_at p' n (w_buf w')"] rd su by simp
  have m: "m = min n (length c - 230 * unat seq)" "buf = put_at 0 (take m (drop (230 * unat seq) c)) (sub_at p' n (w_buf w'))"
    using v lenb by simp_all
  have buf: "length buf = n" using lenb by (simp add: m(2))
  have part: "buf = file_part (unat seq) c" if "230 * unat seq \<le> length c"
  proof -
    have "length (take m (drop (230 * unat seq) c)) = n" "take m (drop (230 * unat seq) c) = file_part (unat seq) c"
      using that by (auto simp: m(1) n_def file_part_def min_def)
    then show ?thesis using lenb by (simp add: m(2) put_at_def)
  qed
  have fill: "w'\<lparr>w_buf := put_at p' buf (w_buf w')\<rparr> = advance buf w"
    using Reserve_then_fill [of w buf] w buf n res by simp
  have fr: "DownlinkFrame_Frame (?d\<lparr>df_payload := w'\<lparr>w_buf := put_at p' buf (w_buf w')\<rparr>\<rparr>)
      = file_frame seq correlationId buf"
    unfolding fill w_def file_frame_def
    using advance_advance [OF P(1), of "[0]" buf] correlated_frame [of "0 # buf"] P(2) n buf by simp
  have "SendPart fs send sender seq s = send (file_frame seq correlationId buf) v"
    using le sk u(1) rd off(2,3) w(3) res(1) fr
    by (simp add: SendPart_def sender File_Seek_def File_Read_def OS_RESULT_FAILED_def Let_def n_def [symmetric])
  moreover have "ok v" "files v = files s" "handles v = (handles s)(h \<mapsto> (p, 230 * unat seq + m))"
    using v u by (simp_all add: fun_upd_twist)
  ultimately have "SendPart fs send sender seq s = (True, snd (send (file_frame seq correlationId buf) v)) \<and>
      ok (snd (send (file_frame seq correlationId buf) v)) \<and> files (snd (send (file_frame seq correlationId buf) v)) = files s
      \<and> handles (snd (send (file_frame seq correlationId buf) v)) = (handles s)(h \<mapsto> (p, 230 * unat seq + m))
      \<and> sent (snd (send (file_frame seq correlationId buf) v)) = sent s @ [file_frame seq correlationId buf]"
    using send_result [of v "file_frame seq correlationId buf"] sv by (simp add: prod_eq_iff)
  moreover have "if 230 * unat seq \<le> length c then buf = file_part (unat seq) c else length buf = 230"
    using part buf by (simp add: n_def)
  ultimately show ?thesis by blast
qed


end

definition part_sent :: "u8 \<Rightarrow> bytes \<Rightarrow> u32 \<Rightarrow> bytes \<Rightarrow> bool" where
  "part_sent correlationId c seq f \<longleftrightarrow> (\<exists>bs. f = file_frame seq correlationId bs
     \<and> (if 230 * unat seq \<le> length c then bs = file_part (unat seq) c else length bs = 230))"

definition download_parameters :: "u8 \<Rightarrow> bytes \<Rightarrow> u32 list \<Rightarrow> bytes" where
  "download_parameters correlationId p seqs =
     correlationId # of_nat (length p) # p @ 0 # concat (map (le_bytes 4) seqs)"

context file_link
begin

lemma send_parts_sends:
  assumes "ok s" and "handles s h = Some (p, k)" and "files s p = Some c" and "length c + 230 \<le> 2 ^ 31"
    and sender: "sender = \<lparr>fn_file = Some h, fn_correlationId = correlationId, fn_fileSize = int (length c),
      fn_lastSeq = MaxChunkNumber (of_int (int (length c)))\<rparr>"
    and "\<forall>seq \<in> set seqs. unat seq \<le> (length c + 229) div 230" and "length seqs < n"
    and "reader_wf r" and "remaining r = Some (concat (map (le_bytes 4) seqs))"
  shows "\<exists>frames k'. let t = send_parts n fs send sender pathSpan r s
    in ok t \<and> files t = files s \<and> handles t = (handles s)(h \<mapsto> (p, k'))
      \<and> sent t = sent s @ frames \<and> list_all2 (part_sent correlationId c) seqs frames"
  using assms(1-3,6-9)
proof (induction seqs arbitrary: n r s k)
  case Nil
  obtain m where m: "n = Suc m" using Nil.prems(5) by (cases n) auto
  have "\<not> Reader_Status (snd (Reader_ReadDoubleWordLE r))"
    using Nil.prems(6,7) by (simp add: left_simps)
  then have "send_parts n fs send sender pathSpan r s = s" by (simp add: m case_prod_beta Let_def)
  then show ?case
    using Nil.prems(1-3) by (intro exI [of _ "[]"] exI [of _ k]) (simp add: Let_def fun_upd_idem)
next
  case (Cons seq seqs)
  obtain m where m: "n = Suc m" using Cons.prems(5) by (cases n) auto
  let ?r = "snd (Reader_ReadDoubleWordLE r)"
  have r: "Reader_Status ?r" "fst (Reader_ReadDoubleWordLE r) = seq" "reader_wf ?r"
    "remaining ?r = Some (concat (map (le_bytes 4) seqs))"
    using Cons.prems(6,7) by (simp_all add: left_simps taking_def byte_simps)
  have "unat seq \<le> (length c + 229) div 230" using Cons.prems(4) by simp
  from SendPart_sends [OF Cons.prems(1-3) assms(4) sender this] obtain t bs k1
    where t: "SendPart fs send sender seq s = (True, t)" "ok t" "files t = files s"
      "handles t = (handles s)(h \<mapsto> (p, k1))" "sent t = sent s @ [file_frame seq correlationId bs]"
      and b: "if 230 * unat seq \<le> length c then bs = file_part (unat seq) c else length bs = 230"
    by blast
  have step: "send_parts n fs send sender pathSpan r s = send_parts m fs send sender pathSpan ?r t"
    using r(1,2) t(1) by (simp add: m case_prod_beta Let_def)
  have "handles t h = Some (p, k1)" "files t p = Some c" using t Cons.prems(3) by simp_all
  moreover have "\<forall>x \<in> set seqs. unat x \<le> (length c + 229) div 230" "length seqs < m"
    using Cons.prems(4,5) by (simp_all add: m)
  ultimately obtain frames k'
    where ih: "let u = send_parts m fs send sender pathSpan ?r t in ok u \<and> files u = files t
      \<and> handles u = (handles t)(h \<mapsto> (p, k')) \<and> sent u = sent t @ frames
      \<and> list_all2 (part_sent correlationId c) seqs frames"
    using Cons.IH [OF t(2) _ _ _ _ r(3,4)] by blast
  have "part_sent correlationId c seq (file_frame seq correlationId bs)" 
    unfolding part_sent_def using b by blast
  then show ?case
    unfolding step Let_def
    using ih t(3-5) by (intro exI [of _ "file_frame seq correlationId bs # frames"] exI [of _ k']) (simp add: Let_def)
qed

lemma download_sends:
  assumes "ok s" and "files s p = Some c" and "length c + 230 \<le> 2 ^ 31"
    and p: "0 \<notin> set p" "length p < 256" and "4 * length seqs < 2 ^ 14"
    and seqs: "\<forall>seq \<in> set seqs. unat seq \<le> (length c + 229) div 230"
  shows "\<exists>frames. let t = DownloadFile_Handle fs send (download_parameters correlationId p seqs) s
    in ok t \<and> files t = files s \<and> handles t = handles s
      \<and> sent t = sent s @ frames \<and> list_all2 (part_sent correlationId c) seqs frames"
proof -
  let ?ps = "download_parameters correlationId p seqs"
  have lc: "length (concat (map (le_bytes 4) seqs)) = 4 * length seqs" by (induction seqs) simp_all
  have len: "length ?ps < 2 ^ 15" using p(2) assms(6) lc by (simp add: download_parameters_def)
  define r where "r = snd (Reader_ReadByte (snd (Reader_ReadArray (of_nat (length p))
      (snd (Reader_ReadByte (snd (Reader_ReadByte (Reader_Initialize ?ps))))))))"
  have up: "unat (of_nat (length p) :: u16) = length p" "ucast (of_nat (length p) :: u8) = (of_nat (length p) :: u16)"
    using p(2) by (simp_all add: unat_of_nat word_unat_eq_iff unsigned_ucast_eq take_bit_nat_eq_self_iff)
  have cs: "c_string p = p" using p(1) by (auto simp: c_string_def takeWhile_eq_all_conv)
  have rd: "reader_wf r" "remaining r = Some (concat (map (le_bytes 4) seqs))" "Reader_Status r"
    "fst (Reader_ReadByte (Reader_Initialize ?ps)) = correlationId"
    "fst (Reader_ReadByte (snd (Reader_ReadByte (Reader_Initialize ?ps)))) = of_nat (length p)"
    "fst (Reader_ReadArray (of_nat (length p)) (snd (Reader_ReadByte (snd (Reader_ReadByte (Reader_Initialize ?ps)))))) = p"
    "fst (Reader_ReadByte (snd (Reader_ReadArray (of_nat (length p)) (snd (Reader_ReadByte (snd (Reader_ReadByte (Reader_Initialize ?ps)))))))) = 0"
    using len p(2) up by (simp_all add: r_def download_parameters_def left_simps taking_def nth_append)
  obtain b u where dir: "fs_IsDirectory fs p s = (b, u)" by (metis prod.collapse)
  have u: "\<not> b" "ok u" "files u = files s" "handles u = handles s" "sent u = sent s"
    using stat_works [OF assms(1) _ dir] assms(2) stat_sent [OF assms(1), of p] dir by auto
  obtain st h v where op: "fs_Open fs p Open_Existing Access_ReadOnly u = ((st, h), v)" by (metis prod.collapse)
  have "st = OS_Success" using open_works [OF u(2), of p] assms(2) u(3) op by (metis fst_conv option.distinct(1))
  with open_result [OF u(2) _ op]
  have v: "ok v" "handles v = (handles s)(h \<mapsto> (p, 0))" "handles s h = None" "files v = files s" "sent v = sent s"
    using u open_sent [OF u(2), of p Open_Existing Access_ReadOnly] op by auto
  obtain n w where sz: "fs_GetFileSize fs h v = (n, w)" by (metis prod.collapse)
  have hv: "handles v h = Some (p, 0)" "files v p = Some c" using v assms(2) by simp_all
  have w: "ok w" "handles w h = Some (p, 0)" "files w p = Some c" "files w = files s" "sent w = sent s" "n = int (length c)"
    "handles w = (handles s)(h \<mapsto> (p, 0))"
    using size_works [OF v(1) hv sz] v assms(2) size_sent [OF v(1), of h] sz by auto
  define sender where "sender = \<lparr>fn_file = Some h, fn_correlationId = correlationId, fn_fileSize = int (length c),
      fn_lastSeq = MaxChunkNumber (of_int (int (length c)))\<rparr>"
  have run: "DownloadFile_Handle fs send ?ps s
      = snd (fs_Close fs h (send_parts (Suc (length ?ps)) fs send sender p r w))"
    using dir u(1) op sz w(6) \<open>st = OS_Success\<close>
    by (simp only: DownloadFile_Handle_def Let_def case_prod_beta rd(3-7) cs up(2) r_def [symmetric] fst_conv snd_conv)
      (simp add: FileSender_def File_open_def File_Size_def OS_RESULT_SUCCEEDED_def FileSender_IsValid_def File_drop_def
        sender_def)
  have "length seqs < Suc (length ?ps)" using lc by (simp add: download_parameters_def)
  from send_parts_sends [OF w(1-3) assms(3) sender_def seqs this rd(1,2), of p] obtain frames k
    where x: "let t = send_parts (Suc (length ?ps)) fs send sender p r w in ok t \<and> files t = files w
      \<and> handles t = (handles w)(h \<mapsto> (p, k)) \<and> sent t = sent w @ frames
      \<and> list_all2 (part_sent correlationId c) seqs frames"
    by blast
  define t where "t = send_parts (Suc (length ?ps)) fs send sender p r w"
  have t: "ok t" "files t = files s" "handles t h \<noteq> None" "handles t = (handles s)(h \<mapsto> (p, k))"
    "sent t = sent s @ frames" "list_all2 (part_sent correlationId c) seqs frames"
    using x w(4,5,7) by (simp_all add: t_def Let_def)
  obtain r1 y where cl: "fs_Close fs h t = (r1, y)" by (metis prod.collapse)
  have "ok y \<and> files y = files s \<and> handles y = handles s \<and> sent y = sent s @ frames"
    using close_result [OF t(1,3) cl] t close_sent [OF t(1), of h] cl v(3) by (auto simp: fun_upd_idem)
  moreover have "DownloadFile_Handle fs send ?ps s = y" by (simp only: run t_def [symmetric] cl snd_conv)
  ultimately show ?thesis using t(6) by (auto simp: Let_def)
qed

end

section \<open>What the ground receives\<close>

lemma file_parts_concat: "concat (map (\<lambda>k. file_part k c) [0..<n]) = take (230 * n) c"
proof (induction n)
  case (Suc n)
  have "take (230 * Suc n) c = take (230 * n) c @ take 230 (drop (230 * n) c)"
    using take_add [of "230 * n" 230 c] by (simp add: add.commute)
  then show ?case using Suc by (simp add: file_part_def)
qed simp

text \<open>How many parts a file of \<open>n\<close> bytes has.\<close>

lemma part_count:
  "n \<le> 230 * ((n + 229) div 230)" "k < (n + 229) div 230 \<Longrightarrow> 230 * k < n"
  "230 * k < n \<Longrightarrow> k \<le> (n + 229) div 230" "n mod 230 \<noteq> 0 \<Longrightarrow> n < 230 * ((n + 229) div 230)"
  "(n + 229) div 230 \<le> 262144 \<Longrightarrow> n + 230 \<le> 2147483648" for n :: nat
proof -
  define q where "q = (n + 229) div 230"
  obtain r where n: "n + 229 = 230 * q + r" "r < 230"
    using that [of "(n + 229) mod 230"] div_mult_mod_eq [of "n + 229" 230] by (simp add: q_def mult.commute)
  show "n \<le> 230 * ((n + 229) div 230)" "k < (n + 229) div 230 \<Longrightarrow> 230 * k < n"
    "230 * k < n \<Longrightarrow> k \<le> (n + 229) div 230" "(n + 229) div 230 \<le> 262144 \<Longrightarrow> n + 230 \<le> 2147483648"
    unfolding q_def [symmetric] using n by linarith+
  assume "n mod 230 \<noteq> 0"
  moreover have "n = 230 * q" if "230 * q \<le> n" using that n by linarith
  ultimately show "n < 230 * ((n + 229) div 230)" unfolding q_def [symmetric] by (metis mod_mult_self1_is_0 not_less)
qed

text \<open>The ground puts the parts it has received in the order of their numbers.\<close>

definition ground_file :: "nat \<Rightarrow> bytes list \<Rightarrow> bytes" where
  "ground_file n frames =
     concat (map (\<lambda>k. the (map_of (map (\<lambda>f. (unat (header_seq f), drop 5 f)) frames) k)) [0..<n])"

lemma file_frame_parts:
  "header_seq (file_frame seq correlationId bs) = take_bit 18 seq" "drop 5 (file_frame seq correlationId bs) = bs"
proof -
  note h = DownlinkFrame_bits(1) [of APID_FileSend seq]
  show "drop 5 (file_frame seq correlationId bs) = bs" using h by (simp add: file_frame_def)
  show "header_seq (file_frame seq correlationId bs) = take_bit 18 seq"
    using h DownlinkFrame_header(2) [of APID_FileSend seq] by (simp add: file_frame_def header_seq_def nth_append)
qed

lemma ground_file_complete:
  assumes "n \<le> 2 ^ 18" and "unat ` set seqs = {..<n}" and "length c \<le> 230 * n"
  shows "ground_file n (map (\<lambda>seq. file_frame seq correlationId (file_part (unat seq) c)) seqs) = c"
proof -
  have "take_bit 18 seq = seq" if "seq \<in> set seqs" for seq :: u32
  proof -
    have "unat seq < n" using that assms(2) by blast
    then have "unat seq < 2 ^ 18" using assms(1) by (rule less_le_trans)
    then show ?thesis by (simp add: word_unat_eq_iff unsigned_take_bit_eq take_bit_nat_eq_self_iff)
  qed
  then have m: "map (\<lambda>f. (unat (header_seq f), drop 5 f)) (map (\<lambda>seq. file_frame seq correlationId (file_part (unat seq) c)) seqs)
      = map (\<lambda>seq. (unat seq, file_part (unat seq) c)) seqs"
    by (simp add: file_frame_parts)
  have "map (\<lambda>k. the (map_of (map (\<lambda>seq. (unat seq, file_part (unat seq) c)) seqs) k)) [0..<n]
      = map (\<lambda>k. file_part k c) [0..<n]"
    using map_of_image [of _ unat seqs "\<lambda>k. file_part k c"] assms(2) by (intro map_cong) auto
  then show ?thesis unfolding ground_file_def m using assms(3) by (simp only: file_parts_concat take_all)
qed

text \<open>One telecommand after the other, each asking for some parts.\<close>

definition download ::
  "'s IFileSystem \<Rightarrow> (bytes \<Rightarrow> 's \<Rightarrow> bool \<times> 's) \<Rightarrow> u8 \<Rightarrow> bytes \<Rightarrow> u32 list list \<Rightarrow> 's \<Rightarrow> 's" where
  "download fs send correlationId p requests s =
     fold (\<lambda>seqs. DownloadFile_Handle fs send (download_parameters correlationId p seqs)) requests s"

context file_link
begin

lemma parts_sent_list:
  assumes "list_all2 (part_sent correlationId c) seqs frames" and "\<forall>seq \<in> set seqs. 230 * unat seq \<le> length c"
  shows "frames = map (\<lambda>seq. file_frame seq correlationId (file_part (unat seq) c)) seqs"
  using assms by (induction seqs frames rule: list_all2_induct) (auto simp: part_sent_def)

lemma download_requests:
  assumes "ok s" and "files s p = Some c" and "length c + 230 \<le> 2 ^ 31" and p: "0 \<notin> set p" "length p < 256"
    and "\<forall>seqs \<in> set requests. 4 * length seqs < 2 ^ 14 \<and> (\<forall>seq \<in> set seqs. 230 * unat seq < length c)"
  shows "let t = download fs send correlationId p requests s in ok t \<and> files t = files s \<and> handles t = handles s
    \<and> sent t = sent s @ map (\<lambda>seq. file_frame seq correlationId (file_part (unat seq) c)) (concat requests)"
  using assms(1,2,6)
proof (induction requests arbitrary: s)
  case (Cons seqs requests)
  have le: "\<forall>seq \<in> set seqs. 230 * unat seq \<le> length c" "\<forall>seq \<in> set seqs. unat seq \<le> (length c + 229) div 230"
    using Cons.prems(3) part_count(3) by (auto intro: less_imp_le)
  obtain frames where "let t = DownloadFile_Handle fs send (download_parameters correlationId p seqs) s
    in ok t \<and> files t = files s \<and> handles t = handles s
      \<and> sent t = sent s @ frames \<and> list_all2 (part_sent correlationId c) seqs frames"
    using download_sends [OF Cons.prems(1,2) assms(3) p _ le(2)] Cons.prems(3)
    by (meson list.set_intros(1))
  moreover from this have "frames = map (\<lambda>seq. file_frame seq correlationId (file_part (unat seq) c)) seqs"
    using parts_sent_list [OF _ le(1)] by (simp add: Let_def)
  ultimately show ?case
    using Cons.IH [of "DownloadFile_Handle fs send (download_parameters correlationId p seqs) s"] Cons.prems(2,3)
    by (simp add: download_def Let_def)
qed (simp add: download_def)

end

text \<open>
  C22. A file is downloaded completely. When the telecommands ask, in any order and as often as they
  like, for all the parts that hold data of the file, then what the satellite sends lets the ground put
  the file together again, byte by byte; files and open handles on board are as before. The file
  system has to work, and the file to be smaller than 60 MB, the reach of the 18-bit number of a frame.
\<close>

theorem file_download_complete:
  assumes "file_link ok files handles fs send sent" and "ok s" and "files s p = Some c"
    and "(length c + 229) div 230 \<le> 2 ^ 18" and "0 \<notin> set p" and "length p < 256"
    and "\<forall>seqs \<in> set requests. 4 * length seqs < 2 ^ 14"
    and "unat ` set (concat requests) = {..<(length c + 229) div 230}"
  shows "\<exists>frames. let t = download fs send correlationId p requests s
    in sent t = sent s @ frames \<and> ground_file ((length c + 229) div 230) frames = c
      \<and> files t = files s \<and> handles t = handles s"
proof -
  let ?n = "(length c + 229) div 230"
  have n: "length c + 230 \<le> 2 ^ 31" using assms(4) part_count(5) [of "length c"] by simp
  have below: "230 * unat seq < length c" if "seq \<in> set (concat requests)" for seq :: u32
  proof -
    have "unat seq < ?n" using that assms(8) by blast
    then show ?thesis by (rule part_count(2))
  qed
  let ?frames = "map (\<lambda>seq. file_frame seq correlationId (file_part (unat seq) c)) (concat requests)"
  have "\<forall>seqs \<in> set requests. 4 * length seqs < 2 ^ 14 \<and> (\<forall>seq \<in> set seqs. 230 * unat seq < length c)"
    using assms(7) below by auto
  note d = file_link.download_requests [OF assms(1-3) n assms(5,6) this, of correlationId]
  have "ground_file ?n ?frames = c" by (rule ground_file_complete [OF assms(4,8) part_count(1)])
  then show ?thesis using d by (intro exI [of _ ?frames]) (simp add: Let_def)
qed

text \<open>
  The satellite accepts one part too many: the number one past the last part is not refused. If the
  last part is not full, the answer to it is marked as a success and carries 230 bytes, although the
  file has no byte there.
\<close>

theorem file_extra_part:
  assumes "file_link ok files handles fs send sent" and "ok s" and "files s p = Some c"
    and "length c + 230 \<le> 2 ^ 31" and "0 \<notin> set p" and "length p < 256"
    and "unat seq = (length c + 229) div 230" and "length c mod 230 \<noteq> 0"
  shows "\<exists>bs. sent (DownloadFile_Handle fs send (download_parameters correlationId p [seq]) s)
      = sent s @ [file_frame seq correlationId bs] \<and> length bs = 230 \<and> file_part (unat seq) c = []"
proof -
  have gt: "\<not> 230 * unat seq \<le> length c"
    using assms(7) part_count(4) [OF assms(8)] by simp
  obtain frames where "sent (DownloadFile_Handle fs send (download_parameters correlationId p [seq]) s) = sent s @ frames"
    "list_all2 (part_sent correlationId c) [seq] frames"
    using file_link.download_sends [OF assms(1-6), of "[seq]" correlationId] assms(7) by (auto simp: Let_def)
  then show ?thesis using gt by (auto simp: list_all2_Cons1 part_sent_def file_part_def)
qed

section \<open>A satellite in memory\<close>

record mem_sat = mem_fs +
  mf_sent :: "bytes list"

definition mem_send :: "bytes \<Rightarrow> mem_sat \<Rightarrow> bool \<times> mem_sat" where
  "mem_send f s = (True, s\<lparr>mf_sent := mf_sent s @ [f]\<rparr>)"

lemma mem_link: "file_link mem_ok mf_files mf_handles (YaffsFileSystem mem_yaffs) mem_send mf_sent"
proof -
  have "working_file_store mem_ok mf_files mf_handles (YaffsFileSystem (mem_yaffs :: mem_sat yaffs))"
    using working_yaffs_calls.as_working_store [OF mem_calls] .
  then show ?thesis
    unfolding file_link_def file_link_axioms_def
    by (simp add: mem_send_def mem_ok_def yaffs_defs mem_yaffs_def mem_open_def mem_read_def mem_lseek_def
        mem_stat_def case_prod_beta Let_def split: option.split)
qed

interpretation sat: file_link mem_ok mf_files mf_handles "YaffsFileSystem mem_yaffs" mem_send mf_sent
  by (rule mem_link)

definition example_sat :: "bytes \<Rightarrow> mem_sat" where
  "example_sat c =
     \<lparr>mf_files = [[0x2F, 0x61] \<mapsto> c], mf_handles = (\<lambda>_. None), mf_next = 0, mf_names = [], mf_dir = [],
      mf_sent = []\<rparr>"

lemma example_sat_ok: "mem_ok (example_sat c)" "mf_files (example_sat c) [0x2F, 0x61] = Some c"
  by (simp_all add: mem_ok_def example_sat_def)

theorem file_download_complete_witness:
  "ground_file 2 (mf_sent (download (YaffsFileSystem mem_yaffs) mem_send 7 [0x2F, 0x61] [[1], [0]]
     (example_sat (replicate 300 9)))) = replicate 300 9"
proof -
  have "unat ` set (concat [[1], [0 :: u32]]) = {..<(length (replicate 300 (9 :: u8)) + 229) div 230}"
    by auto
  from file_download_complete [OF mem_link example_sat_ok _ _ _ _ this, of 7]
  show ?thesis by (auto simp: Let_def example_sat_def)
qed

theorem file_extra_part_witness:
  "\<exists>bs. mf_sent (DownloadFile_Handle (YaffsFileSystem mem_yaffs) mem_send (download_parameters 7 [0x2F, 0x61] [1])
      (example_sat [1, 2, 3])) = [file_frame 1 7 bs] \<and> length bs = 230 \<and> file_part 1 [1, 2, 3 :: u8] = []"
  using file_extra_part [OF mem_link example_sat_ok, of "[1, 2, 3]" 1 7] by (simp add: example_sat_def)

section \<open>Listings\<close>

text \<open>What the ground reads for a name: the name, cut to \<open>[lost]\<close> when it is too long, and the size.\<close>

definition lost_entry :: bytes where
  "lost_entry = LostFileName @ 0 # le_bytes 4 (0 :: u32)"

definition dir_entry :: "(bytes \<Rightarrow> bytes \<Rightarrow> int) \<Rightarrow> bytes \<Rightarrow> bytes \<Rightarrow> bytes" where
  "dir_entry fsize path n = (if 90 < length n then lost_entry else n @ 0 # le_bytes 4 (of_int (fsize path n) :: u32))"

lemma length_entry: "length lost_entry = 11" "length n \<le> 90 \<Longrightarrow> length (dir_entry fsize path n) = length n + 5"
  "length (dir_entry fsize path n) \<le> 95"
  by (simp_all add: dir_entry_def lost_entry_def LostFileName_def)

fun entries_left :: "(bytes \<Rightarrow> bytes \<Rightarrow> int) \<Rightarrow> bytes \<Rightarrow> dir_name \<Rightarrow> bytes list \<Rightarrow> bytes list" where
  "entries_left fsize path No_name ns = []"
| "entries_left fsize path Lost_name ns = lost_entry # map (dir_entry fsize path) ns"
| "entries_left fsize path (Dir_name n) ns = map (dir_entry fsize path) (n # ns)"

lemma write_entry_emit:
  assumes "writer_wf w" and "fits (length chars + 5) w" and "length chars \<le> 90"
  shows "write_entry chars v w = advance (chars @ 0 # le_bytes 4 v) w"
proof -
  have f: "fits (length chars) w" "fits (length chars + 1) w" "fits (length (chars @ [0 :: u8])) w"
    using assms(2) by (auto simp: fits_def)
  have w1: "writer_wf (advance chars w)" "fits 1 (advance chars w)"
    using assms(1) f by (auto simp: fits_advance wf_advance)
  have "advance [0] (advance chars w) = advance (chars @ [0]) w" using assms(1) f by (simp add: advance_advance)
  moreover have "fits 4 (advance (chars @ [0]) w)" "writer_wf (advance (chars @ [0]) w)"
    using assms(1,2) f(3) fits_advance [OF assms(1) f(3), of 4] by (auto simp: wf_advance add.commute)
  ultimately show ?thesis
    using assms f w1 advance_advance [OF assms(1), of "chars @ [0]" "le_bytes 4 v"]
    by (simp add: write_entry_def WriteArray_emit WriteByte_emit WriteDoubleWordLE_emit Let_def add.commute)
qed

lemma remaining_fits: "writer_wf w \<Longrightarrow> w_valid w \<Longrightarrow> Writer_RemainingSize w < int n + 5 \<longleftrightarrow> \<not> fits (n + 5) w"
proof -
  assume "writer_wf w" "w_valid w"
  then have "unat (w_pos w) \<le> length (w_buf w)" by (simp add: writer_wf_def)
  then show ?thesis
    unfolding Writer_RemainingSize_def fits_def using \<open>w_valid w\<close> by linarith
qed

definition listing_frame :: "u32 \<Rightarrow> u8 \<Rightarrow> bytes list \<Rightarrow> bytes" where
  "listing_frame seq correlationId es = df_header (DownlinkFrame APID_FileList seq) @ correlationId # 0 # concat es"

locale directory_link =
  fixes ok :: "'s \<Rightarrow> bool" and pending :: "'s \<Rightarrow> bytes list" and names :: "'s \<Rightarrow> bytes \<Rightarrow> bytes list"
    and fsize :: "bytes \<Rightarrow> bytes \<Rightarrow> int" and fs :: "'s IFileSystem"
    and send :: "bytes \<Rightarrow> 's \<Rightarrow> bool \<times> 's" and sent :: "'s \<Rightarrow> bytes list"
  assumes opened: "ok s \<Longrightarrow> fs_OpenDirectory fs p s = ((OS_Success, h), t) \<Longrightarrow>
      ok t \<and> pending t = names s p \<and> sent t = sent s"
    and listed: "ok s \<Longrightarrow> fs_ReadDirectory fs d s = (e, t) \<Longrightarrow> ok t \<and> sent t = sent s \<and>
      (case pending s of [] \<Rightarrow> e = None \<and> pending t = [] | n # ns \<Rightarrow> e = Some n \<and> pending t = ns)"
    and sized: "ok s \<Longrightarrow> fs_GetFileSizeIn fs (Some p) n s = (x, t) \<Longrightarrow>
      ok t \<and> pending t = pending s \<and> sent t = sent s \<and> x = fsize p n"
    and dir_send: "ok s \<Longrightarrow> ok (snd (send f s)) \<and> pending (snd (send f s)) = pending s \<and> sent (snd (send f s)) = sent s @ [f]"
    and dir_closed: "ok s \<Longrightarrow> sent (snd (fs_CloseDirectory fs d s)) = sent s"
begin

lemma next_name:
  assumes "ok s" and "fs_ReadDirectory fs d s = (e, t)"
  shows "ok t" "sent t = sent s" "entries_left fsize p (name_of_entry e) (pending t) = map (dir_entry fsize p) (pending s)"
    "name_of_entry e \<noteq> Lost_name"
  using listed [OF assms] by (auto split: list.splits)

lemma frame_round:
  assumes "ok s" and "writer_wf w" and "w_valid w" and "name = Lost_name \<Longrightarrow> fits 11 w" and "name \<noteq> No_name"
  obtains (full) name' where "list_frame fs p d name w s = Some (name', w, s)" "\<not> fits 95 w"
    "entries_left fsize p name' (pending s) = entries_left fsize p name (pending s)"
  | (goes_on) x e t where "list_frame fs p d name w s = list_frame fs p d e (advance x w) t" "fits (length x) w"
    "ok t" "sent t = sent s" "e \<noteq> Lost_name"
    "entries_left fsize p name (pending s) = x # entries_left fsize p e (pending t)"
proof (cases name)
  case No_name
  with assms(5) show thesis by simp
next
  case Lost_name
  obtain e t where rd: "fs_ReadDirectory fs d s = (e, t)" by (metis prod.collapse)
  note n = next_name [OF assms(1) rd]
  have f: "fits (length LostFileName + 5) w" using assms(4) Lost_name by (simp add: LostFileName_def)
  have "write_entry LostFileName 0 w = advance lost_entry w"
    using write_entry_emit [OF assms(2) f, of 0] by (simp add: LostFileName_def lost_entry_def)
  then have "list_frame fs p d name w s = list_frame fs p d (name_of_entry e) (advance lost_entry w) t"
    by (subst list_frame.simps) (simp add: Lost_name rd Let_def)
  then show thesis using goes_on n f Lost_name by (simp add: length_entry(1) LostFileName_def)
next
  case (Dir_name n)
  define name' where "name' = (if 90 < length n then Lost_name else name)"
  define chars where "chars = (if 90 < length n then LostFileName else n)"
  have len: "length chars \<le> 90" "length (dir_entry fsize p n) = length chars + 5"
    by (simp_all add: chars_def LostFileName_def length_entry dir_entry_def lost_entry_def)
  show thesis
  proof (cases "fits (length chars + 5) w")
    case False
    have "list_frame fs p d name w s = Some (name', w, s)"
      using False remaining_fits [OF assms(2,3), of "length chars"]
      by (subst list_frame.simps) (cases "90 < length n"; simp add: Dir_name name'_def chars_def)
    moreover have "\<not> fits 95 w" using False len(1) fits_mono [of 95 w "length chars + 5"] by auto
    ultimately show thesis using full by (simp add: name'_def Dir_name dir_entry_def)
  next
    case True
    obtain v u where sz: "fs_GetFileSizeIn fs (Some p) n s = (v, u)" by (metis prod.collapse)
    define u' where "u' = (if name' = Lost_name then s else u)"
    define v' :: u32 where "v' = (if name' = Lost_name then 0 else of_int v)"
    have u: "ok u'" "pending u' = pending s" "sent u' = sent s"
      using sized [OF assms(1) sz] assms(1) by (simp_all add: u'_def)
    obtain e t where rd: "fs_ReadDirectory fs d u' = (e, t)" by (metis prod.collapse)
    have rds: "90 < length n \<Longrightarrow> fs_ReadDirectory fs d s = (e, t)" "\<not> 90 < length n \<Longrightarrow> fs_ReadDirectory fs d u = (e, t)"
      using rd by (simp_all add: u'_def name'_def Dir_name)
    note nx = next_name [OF u(1) rd]
    have ent: "chars @ 0 # le_bytes 4 v' = dir_entry fsize p n"
      using sized [OF assms(1) sz] by (simp add: chars_def v'_def name'_def dir_entry_def lost_entry_def Dir_name)
    have "write_entry chars v' w = advance (dir_entry fsize p n) w"
      using write_entry_emit [OF assms(2) True len(1), of v'] ent by simp
    then have "list_frame fs p d name w s = list_frame fs p d (name_of_entry e) (advance (dir_entry fsize p n) w) t"
      using True remaining_fits [OF assms(2,3), of "length chars"]
      by (subst list_frame.simps)
        (cases "90 < length n"; simp add: Dir_name name'_def chars_def v'_def rds sz)
    then show thesis using goes_on nx u True len(2) by (simp add: Dir_name)
  qed
qed

lemma frame_listed:
  assumes "ok s" and "writer_wf w" and "w_valid w" and "name = Lost_name \<Longrightarrow> fits 11 w"
  shows "\<exists>name' w' s' es. list_frame fs p d name w s = Some (name', w', s') \<and> ok s' \<and> sent s' = sent s
    \<and> fits (length (concat es)) w \<and> w' = advance (concat es) w
    \<and> entries_left fsize p name (pending s) = es @ entries_left fsize p name' (pending s')
    \<and> (fits 95 w \<longrightarrow> name \<noteq> No_name \<longrightarrow> es \<noteq> [])"
  using assms
proof (induction "length (entries_left fsize p name (pending s))" arbitrary: name w s rule: less_induct)
  case less
  have f0: "fits 0 w" using less.prems(2,3) by (simp add: writer_wf_def fits_def)
  show ?case
  proof (cases "name = No_name")
    case True
    then show ?thesis
      using less.prems f0 by (subst list_frame.simps) (auto intro!: exI [of _ "[]"])
  next
    case False
    show ?thesis
    proof (rule frame_round [OF less.prems False, of p d])
      fix name'
      assume "list_frame fs p d name w s = Some (name', w, s)" "\<not> fits 95 w"
        "entries_left fsize p name' (pending s) = entries_left fsize p name (pending s)"
      then show ?thesis using less.prems(1) f0 by (auto intro!: exI [of _ "[]"])
    next
      fix x e t
      assume r: "list_frame fs p d name w s = list_frame fs p d e (advance x w) t" "fits (length x) w"
        "ok t" "sent t = sent s" "e \<noteq> Lost_name"
        "entries_left fsize p name (pending s) = x # entries_left fsize p e (pending t)"
      have w: "writer_wf (advance x w)" "w_valid (advance x w)"
        using wf_advance [OF less.prems(2) r(2)] less.prems(2,3) by (simp_all add: writer_wf_def)
      have "length (entries_left fsize p e (pending t)) < length (entries_left fsize p name (pending s))"
        by (simp add: r(6))
      from less.hyps [OF this r(3) w] r(5) obtain name' w' s' es
        where ih: "list_frame fs p d e (advance x w) t = Some (name', w', s')" "ok s'" "sent s' = sent t"
          "fits (length (concat es)) (advance x w)" "w' = advance (concat es) (advance x w)"
          "entries_left fsize p e (pending t) = es @ entries_left fsize p name' (pending s')"
        by blast
      have f: "fits (length x + length (concat es)) w" using ih(4) fits_advance [OF less.prems(2) r(2)] by simp
      then have "w' = advance (concat (x # es)) w"
        using ih(5) advance_advance [OF less.prems(2), of x "concat es"] by simp
      then show ?thesis using ih r f by (intro exI [of _ name'] exI [of _ w'] exI [of _ s'] exI [of _ "x # es"]) simp
    qed
  qed
qed

lemma frames_listed:
  assumes "ok s"
  shows "\<exists>t groups. list_frames fs send correlationId p d seq name s = Some t
    \<and> sent t = sent s @ map (\<lambda>i. listing_frame (seq + of_nat i) correlationId (groups ! i)) [0..<length groups]
    \<and> concat groups = entries_left fsize p name (pending s) \<and> (\<forall>g \<in> set groups. length (concat g) \<le> 230) \<and> ok t"
  using assms
proof (induction "length (entries_left fsize p name (pending s))" arbitrary: name s seq rule: less_induct)
  case less
  let ?r = "CorrelatedDownlinkFrame APID_FileList seq correlationId"
  let ?w = "advance [0] (df_payload ?r)"
  note P = correlated_payload [where apid = APID_FileList and seq = seq and correlationId = correlationId]
  have one: "fits (length [0 :: u8]) (df_payload ?r)" using P(2) by simp
  have w: "writer_wf ?w" "fits n ?w \<longleftrightarrow> n \<le> 230" for n
    using P(2) [of "1 + n"] fits_advance [OF P(1) one, of n] wf_advance [OF P(1) one] by auto
  have wv: "w_valid ?w" using w(2) [of 0] by (simp add: fits_def)
  obtain name' w' s' es where f: "list_frame fs p d name ?w s = Some (name', w', s')" "ok s'" "sent s' = sent s"
    "length (concat es) \<le> 230" "w' = advance (concat es) ?w"
    "entries_left fsize p name (pending s) = es @ entries_left fsize p name' (pending s')"
    "name \<noteq> No_name \<longrightarrow> es \<noteq> []"
    using frame_listed [OF less.prems(1) w(1) wv, of name p d] w(2) by auto
  have w0: "snd (Writer_WriteByte 0 (df_payload ?r)) = ?w" using P(2) by (simp add: WriteByte_emit)
  have "w' = advance (0 # concat es) (df_payload ?r)"
    using f(4,5) advance_advance [OF P(1), of "[0]" "concat es"] P(2) by simp
  then have fr: "DownlinkFrame_Frame (?r\<lparr>df_payload := w'\<rparr>) = listing_frame seq correlationId es"
    using correlated_frame [of "0 # concat es" APID_FileList seq correlationId] f(4) by (simp add: listing_frame_def)
  define u where "u = snd (send (listing_frame seq correlationId es) s')"
  have u: "ok u" "pending u = pending s'" "sent u = sent s @ [listing_frame seq correlationId es]"
    using dir_send [OF f(2), of "listing_frame seq correlationId es"] f(3) by (simp_all add: u_def)
  have run: "list_frames fs send correlationId p d seq name s
      = (if name' = No_name then Some u else list_frames fs send correlationId p d (seq + 1) name' u)"
    by (subst list_frames.simps) (simp add: w0 f(1) fr u_def Let_def)
  show ?case
  proof (cases "name' = No_name")
    case True
    then show ?thesis using run f(4,6) u by (intro exI [of _ u] exI [of _ "[es]"]) simp
  next
    case False
    then have "entries_left fsize p name' (pending s') \<noteq> []" by (cases name') simp_all
    then have "es \<noteq> []" using f(6,7) by (cases "name = No_name") auto
    then have "length (entries_left fsize p name' (pending u)) < length (entries_left fsize p name (pending s))"
      by (simp add: u(2) f(6))
    from less.hyps [OF this u(1), of "seq + 1"] obtain t groups
      where ih: "list_frames fs send correlationId p d (seq + 1) name' u = Some t"
        "sent t = sent u @ map (\<lambda>i. listing_frame (seq + 1 + of_nat i) correlationId (groups ! i)) [0..<length groups]"
        "concat groups = entries_left fsize p name' (pending u)" "\<forall>g \<in> set groups. length (concat g) \<le> 230" "ok t"
      by blast
    have "map (\<lambda>i. listing_frame (seq + of_nat i) correlationId ((es # groups) ! i)) [0..<length (es # groups)]
        = listing_frame seq correlationId es
          # map (\<lambda>i. listing_frame (seq + 1 + of_nat i) correlationId (groups ! i)) [0..<length groups]"
      by (simp add: map_upt_Suc add.assoc del: upt_Suc)
    then show ?thesis
      using run False ih f(4,6) u(2,3) by (intro exI [of _ t] exI [of _ "es # groups"]) simp
  qed
qed

lemma directory_listed:
  assumes "ok s" and "0 \<notin> set p" and "length p < 2 ^ 14" and "fst (fst (fs_OpenDirectory fs p s)) = OS_Success"
  shows "\<exists>t groups. ListFiles_Handle fs status_byte send (correlationId # p @ [0]) s = Some t
    \<and> sent t = sent s @ map (\<lambda>i. listing_frame (of_nat i) correlationId (groups ! i)) [0..<length groups]
    \<and> concat groups = map (dir_entry fsize p) (names s p) \<and> (\<forall>g \<in> set groups. length (concat g) \<le> 230)"
proof -
  obtain h u where op: "fs_OpenDirectory fs p s = ((OS_Success, h), u)" using assms(4) by (metis prod.collapse)
  note u = opened [OF assms(1) op]
  obtain e v where rd: "fs_ReadDirectory fs (the h) u = (e, v)" by (metis prod.collapse)
  have "ok u" using u by simp
  note v = next_name [OF this rd]
  obtain t groups where f: "list_frames fs send correlationId p (the h) 0 (name_of_entry e) v = Some t"
    "sent t = sent v @ map (\<lambda>i. listing_frame (0 + of_nat i) correlationId (groups ! i)) [0..<length groups]"
    "concat groups = entries_left fsize p (name_of_entry e) (pending v)" "\<forall>g \<in> set groups. length (concat g) \<le> 230" "ok t"
    using frames_listed [OF v(1)] by blast
  have c: "c_string (p @ [0]) = p" using assms(2) by (auto simp: c_string_def takeWhile_append)
  have run: "ListFiles_Handle fs status_byte send (correlationId # p @ [0]) s
      = Some (snd (fs_CloseDirectory fs (the h) t))"
    using assms(3) by (simp add: ListFiles_Handle_def Let_def case_prod_beta left_simps taking_def c op rd f(1) OS_RESULT_FAILED_def)
  show ?thesis
    using run f v u dir_closed [OF f(5), of "the h"]
    by (intro exI [of _ "snd (fs_CloseDirectory fs (the h) t)"] exI [of _ groups]) simp
qed

end

text \<open>
  C23. Listing a directory ends, and the listing is complete: the frames are numbered from zero, none is
  longer than a frame may be, no entry is cut at the end of a frame, and put together they hold one entry
  for every name of the directory, in its order: the name and the size of the file when the name has at
  most 90 characters, and otherwise a placeholder for a lost file with size zero. Directories are finite,
  as yaffs has them.
\<close>

theorem listing_complete:
  assumes "directory_link ok pending names fsize fs send sent" and "ok s" and "0 \<notin> set p" and "length p < 2 ^ 14"
    and "fst (fst (fs_OpenDirectory fs p s)) = OS_Success"
  shows "\<exists>t groups. ListFiles_Handle fs status_byte send (correlationId # p @ [0]) s = Some t
    \<and> sent t = sent s @ map (\<lambda>i. listing_frame (of_nat i) correlationId (groups ! i)) [0..<length groups]
    \<and> concat groups = map (dir_entry fsize p) (names s p) \<and> (\<forall>g \<in> set groups. length (concat g) \<le> 230)"
  by (rule directory_link.directory_listed [OF assms])

definition mem_size :: "(bytes \<Rightarrow> bytes option) \<Rightarrow> bytes \<Rightarrow> bytes \<Rightarrow> int" where
  "mem_size F p n = (case F (p @ [0x2F] @ n) of None \<Rightarrow> 0 | Some c \<Rightarrow> int (length c))"

lemma mem_directory:
  "directory_link (\<lambda>s. mf_files s = F) mf_dir (\<lambda>s p. mf_names s) (mem_size F) (YaffsFileSystem mem_yaffs) mem_send mf_sent"
  by standard
    (auto simp: YaffsFileSystem_def Yaffs_OpenDirectory_def Yaffs_GetFileSizeIn_def YaffsTranslateError_def mem_yaffs_def
      mem_stat_def mem_send_def mem_size_def split: list.splits)

interpretation sat_dir: directory_link "\<lambda>s. mf_files s = F" mf_dir "\<lambda>s p. mf_names s" "mem_size F"
  "YaffsFileSystem mem_yaffs" mem_send mf_sent for F
  by (rule mem_directory)

theorem listing_complete_witness:
  "\<exists>t groups. ListFiles_Handle (YaffsFileSystem mem_yaffs) (\<lambda>_. 0) mem_send [7, 0]
      (example_sat [1, 2]\<lparr>mf_names := [[0x61], [0x62, 0x63]]\<rparr>) = Some t
    \<and> mf_sent t = map (\<lambda>i. listing_frame (of_nat i) 7 (groups ! i)) [0..<length groups]
    \<and> concat groups = [[0x61, 0, 2, 0, 0, 0], [0x62, 0x63, 0, 0, 0, 0, 0]]"
proof -
  let ?s = "example_sat [1, 2]\<lparr>mf_names := [[0x61], [0x62, 0x63]]\<rparr>"
  have "fst (fst (fs_OpenDirectory (YaffsFileSystem mem_yaffs) [] ?s)) = OS_Success"
    by (simp add: YaffsFileSystem_def Yaffs_OpenDirectory_def mem_yaffs_def)
  from listing_complete [OF mem_directory refl _ _ this, of "\<lambda>_. 0" 7]
  show ?thesis
    by (fastforce simp: example_sat_def dir_entry_def mem_size_def le_bytes_4 byte_of_def)
qed

end
