(* ===== verification/I2c_Bus.thy ===== *)
theory I2c_Bus
  imports Prelude
begin

text \<open>
  The I2C buses (libs/drivers/i2c, libs/obc/hardware/hardware.cpp): the bus driver on its peripheral,
  the wrapper that handles errors and the one that falls back to the payload bus. A bus is a record
  of functions on its world. Reading fills a buffer: the functions take what it holds before and
  return what it holds after, as a failed transfer may have changed it.
\<close>

section \<open>The interface (i2c.h)\<close>

datatype I2CResult =
    I2C_OK | I2C_Nack | I2C_BusErr | I2C_ArbLost | I2C_UsageFault | I2C_SwFault | I2C_Timeout
  | I2C_LineLatched | I2C_Failure | I2C_LineAlreadyLatched

primrec num_I2CResult :: "I2CResult \<Rightarrow> int" where
  "num_I2CResult I2C_OK = 0"
| "num_I2CResult I2C_Nack = -1"
| "num_I2CResult I2C_BusErr = -2"
| "num_I2CResult I2C_ArbLost = -3"
| "num_I2CResult I2C_UsageFault = -4"
| "num_I2CResult I2C_SwFault = -5"
| "num_I2CResult I2C_Timeout = -6"
| "num_I2CResult I2C_LineLatched = -7"
| "num_I2CResult I2C_Failure = -8"
| "num_I2CResult I2C_LineAlreadyLatched = -9"

record 's II2CBus =
  bus_Write :: "u8 \<Rightarrow> bytes \<Rightarrow> 's \<Rightarrow> I2CResult \<times> 's"
  bus_Read :: "u8 \<Rightarrow> bytes \<Rightarrow> 's \<Rightarrow> (I2CResult \<times> bytes) \<times> 's"
  bus_WriteRead :: "u8 \<Rightarrow> bytes \<Rightarrow> bytes \<Rightarrow> 's \<Rightarrow> (I2CResult \<times> bytes) \<times> 's"

section \<open>Error handling (error_handling.cpp) and its handler (hardware.cpp)\<close>

text \<open>The handler is called with the result and the address; without one the result is passed on.\<close>

definition ErrorHandling_Write ::
  "'s II2CBus \<Rightarrow> (I2CResult \<Rightarrow> u8 \<Rightarrow> 's \<Rightarrow> I2CResult \<times> 's) option \<Rightarrow> u8 \<Rightarrow> bytes \<Rightarrow> 's \<Rightarrow> I2CResult \<times> 's" where
  "ErrorHandling_Write innerBus errorHandler address inData s =
     (let (result, s) = bus_Write innerBus address inData s
      in if result = I2C_OK then (result, s)
         else (case errorHandler of None \<Rightarrow> (result, s) | Some handler \<Rightarrow> handler result address s))"

definition ErrorHandling_Read ::
  "'s II2CBus \<Rightarrow> (I2CResult \<Rightarrow> u8 \<Rightarrow> 's \<Rightarrow> I2CResult \<times> 's) option \<Rightarrow> u8 \<Rightarrow> bytes \<Rightarrow> 's
     \<Rightarrow> (I2CResult \<times> bytes) \<times> 's" where
  "ErrorHandling_Read innerBus errorHandler address outData s =
     (let ((result, outData), s) = bus_Read innerBus address outData s
      in if result = I2C_OK then ((result, outData), s)
         else (case errorHandler of
                 None \<Rightarrow> ((result, outData), s)
               | Some handler \<Rightarrow> (let (result, s) = handler result address s in ((result, outData), s))))"

definition ErrorHandling_WriteRead ::
  "'s II2CBus \<Rightarrow> (I2CResult \<Rightarrow> u8 \<Rightarrow> 's \<Rightarrow> I2CResult \<times> 's) option \<Rightarrow> u8 \<Rightarrow> bytes \<Rightarrow> bytes \<Rightarrow> 's
     \<Rightarrow> (I2CResult \<times> bytes) \<times> 's" where
  "ErrorHandling_WriteRead innerBus errorHandler address inData outData s =
     (let ((result, outData), s) = bus_WriteRead innerBus address inData outData s
      in if result = I2C_OK then ((result, outData), s)
         else (case errorHandler of
                 None \<Rightarrow> ((result, outData), s)
               | Some handler \<Rightarrow> (let (result, s) = handler result address s in ((result, outData), s))))"

definition I2CErrorHandlingBus ::
  "'s II2CBus \<Rightarrow> (I2CResult \<Rightarrow> u8 \<Rightarrow> 's \<Rightarrow> I2CResult \<times> 's) option \<Rightarrow> 's II2CBus" where
  "I2CErrorHandlingBus innerBus errorHandler =
     \<lparr>bus_Write = ErrorHandling_Write innerBus errorHandler,
      bus_Read = ErrorHandling_Read innerBus errorHandler,
      bus_WriteRead = ErrorHandling_WriteRead innerBus errorHandler\<rparr>"

definition I2CErrorHandler :: "('s \<Rightarrow> 's) \<Rightarrow> I2CResult \<Rightarrow> u8 \<Rightarrow> 's \<Rightarrow> I2CResult \<times> 's" where
  "I2CErrorHandler power_PowerCycle result address s =
     (if result = I2C_LineLatched then (result, power_PowerCycle s) else (result, s))"

section \<open>Fallback (fallback.cpp)\<close>

definition Fallback_Write :: "'s II2CBus \<Rightarrow> 's II2CBus \<Rightarrow> u8 \<Rightarrow> bytes \<Rightarrow> 's \<Rightarrow> I2CResult \<times> 's" where
  "Fallback_Write bus payload address inData s =
     (let (systemBusResult, s) = bus_Write bus address inData s
      in if systemBusResult = I2C_OK then (systemBusResult, s) else bus_Write payload address inData s)"

definition Fallback_Read ::
  "'s II2CBus \<Rightarrow> 's II2CBus \<Rightarrow> u8 \<Rightarrow> bytes \<Rightarrow> 's \<Rightarrow> (I2CResult \<times> bytes) \<times> 's" where
  "Fallback_Read bus payload address outData s =
     (let ((systemBusResult, outData), s) = bus_Read bus address outData s
      in if systemBusResult = I2C_OK then ((systemBusResult, outData), s)
         else bus_Read payload address outData s)"

definition Fallback_WriteRead ::
  "'s II2CBus \<Rightarrow> 's II2CBus \<Rightarrow> u8 \<Rightarrow> bytes \<Rightarrow> bytes \<Rightarrow> 's \<Rightarrow> (I2CResult \<times> bytes) \<times> 's" where
  "Fallback_WriteRead bus payload address inData outData s =
     (let ((systemBusResult, outData), s) = bus_WriteRead bus address inData outData s
      in if systemBusResult = I2C_OK then ((systemBusResult, outData), s)
         else bus_WriteRead payload address inData outData s)"

definition I2CFallbackBus :: "'s II2CBus \<Rightarrow> 's II2CBus \<Rightarrow> 's II2CBus" where
  "I2CFallbackBus bus payload =
     \<lparr>bus_Write = Fallback_Write bus payload, bus_Read = Fallback_Read bus payload,
      bus_WriteRead = Fallback_WriteRead bus payload\<rparr>"

text \<open>The buses of the flight hardware: two drivers with error handling, the fallback over them.\<close>

definition OBCHardwareI2C :: "('s \<Rightarrow> 's) \<Rightarrow> 's II2CBus \<Rightarrow> 's II2CBus \<Rightarrow> 's II2CBus" where
  "OBCHardwareI2C power_PowerCycle systemDriver payloadDriver =
     I2CFallbackBus (I2CErrorHandlingBus systemDriver (Some (I2CErrorHandler power_PowerCycle)))
       (I2CErrorHandlingBus payloadDriver (Some (I2CErrorHandler power_PowerCycle)))"

section \<open>The driver and its interrupt (efm.cpp)\<close>

text \<open>
  Any number of tasks call \<open>ExecuteTransfer\<close>; \<open>id_pc\<close> says where each of them is. A call is cut where
  another task or the interrupt handler can run: taking the lock, starting the transfer, waiting for its
  result in the queue of one element, and, when the wait has failed, stopping the peripheral. Nothing but
  the lock keeps two calls apart. The peripheral holds the transfer it works on; a result in the queue
  carries the number of its transfer, which the code does not know. Transfers are numbered in the order
  of their start.
\<close>

datatype transfer_pc = At_idle | At_locked | At_wait nat | At_abort nat

record i2c_driver =
  id_lock :: bool
  id_queue :: "(nat \<times> I2CResult) option"
  id_pc :: "nat \<Rightarrow> transfer_pc"
  id_peripheral :: "nat option"
  id_started :: nat
  id_returned :: "(nat \<times> (nat \<times> I2CResult) option \<times> I2CResult) list"

definition I2CLowLevelBus_Initialize :: i2c_driver where
  "I2CLowLevelBus_Initialize =
     \<lparr>id_lock = True, id_queue = None, id_pc = (\<lambda>_. At_idle), id_peripheral = None, id_started = 0, id_returned = []\<rparr>"

text \<open>
  The binary semaphore: taking it waits, which is \<open>None\<close>, until it is available; with an infinite timeout
  the branch of a failed take is not reached.
\<close>

definition ExecuteTransfer_lock :: "nat \<Rightarrow> i2c_driver \<Rightarrow> i2c_driver option" where
  "ExecuteTransfer_lock c d =
     (if id_lock d then Some (d\<lparr>id_lock := False, id_pc := (id_pc d)(c := At_locked)\<rparr>) else None)"

text \<open>
  The end of a call, with the lock given back. \<open>id_returned\<close> lists, for the statements, what each
  transfer took from the queue and returned.
\<close>

definition transfer_return ::
  "nat \<Rightarrow> nat \<Rightarrow> (nat \<times> I2CResult) option \<Rightarrow> I2CResult \<Rightarrow> i2c_driver \<Rightarrow> i2c_driver" where
  "transfer_return c n taken result d =
     d\<lparr>id_pc := (id_pc d)(c := At_idle), id_lock := True, id_returned := id_returned d @ [(n, taken, result)]\<rparr>"

text \<open>\<open>init\<close>: what \<open>I2C_TransferInit\<close> returns, nothing when the transfer is in progress.\<close>

definition ExecuteTransfer_begin :: "bool \<Rightarrow> I2CResult option \<Rightarrow> nat \<Rightarrow> i2c_driver \<Rightarrow> i2c_driver" where
  "ExecuteTransfer_begin latched init c d =
     (let n = id_started d;
          d = d\<lparr>id_started := Suc n\<rparr>
      in if latched then transfer_return c n None I2C_LineAlreadyLatched d
         else (case init of
                 Some rawResult \<Rightarrow> transfer_return c n None rawResult d
               | None \<Rightarrow> d\<lparr>id_peripheral := Some n, id_pc := (id_pc d)(c := At_wait n)\<rparr>))"

definition ExecuteTransfer_pop :: "nat \<Rightarrow> nat \<Rightarrow> i2c_driver \<Rightarrow> i2c_driver" where
  "ExecuteTransfer_pop n c d =
     (case id_queue d of
        Some (m, rawResult) \<Rightarrow> transfer_return c n (Some (m, rawResult)) rawResult (d\<lparr>id_queue := None\<rparr>)
      | None \<Rightarrow> d\<lparr>id_pc := (id_pc d)(c := At_abort n)\<rparr>)"

definition ExecuteTransfer_abort :: "bool \<Rightarrow> nat \<Rightarrow> nat \<Rightarrow> i2c_driver \<Rightarrow> i2c_driver" where
  "ExecuteTransfer_abort latched n c d =
     transfer_return c n None (if latched then I2C_LineLatched else I2C_Timeout) (d\<lparr>id_peripheral := None\<rparr>)"

text \<open>
  The interrupt: nothing while the transfer is in progress; otherwise the peripheral is done, and the
  result is queued if there is room.
\<close>

definition I2C_IRQHandler :: "I2CResult option \<Rightarrow> nat \<Rightarrow> i2c_driver \<Rightarrow> i2c_driver" where
  "I2C_IRQHandler status n d =
     (case status of
        None \<Rightarrow> d
      | Some status \<Rightarrow>
          (let d = d\<lparr>id_peripheral := None\<rparr>
           in if id_queue d = None then d\<lparr>id_queue := Some (n, status)\<rparr> else d))"

inductive i2c_step :: "i2c_driver \<Rightarrow> i2c_driver \<Rightarrow> bool" where
  i2c_lock: "id_pc d c = At_idle \<Longrightarrow> ExecuteTransfer_lock c d = Some d' \<Longrightarrow> i2c_step d d'"
| i2c_begin: "id_pc d c = At_locked \<Longrightarrow> i2c_step d (ExecuteTransfer_begin latched init c d)"
| i2c_pop: "id_pc d c = At_wait n \<Longrightarrow> i2c_step d (ExecuteTransfer_pop n c d)"
| i2c_abort: "id_pc d c = At_abort n \<Longrightarrow> i2c_step d (ExecuteTransfer_abort latched n c d)"
| i2c_irq: "id_peripheral d = Some n \<Longrightarrow> i2c_step d (I2C_IRQHandler status n d)"

section \<open>Whose result a transfer returns\<close>

text \<open>
  The interrupt comes between the end of a wait without a result and the stop of the peripheral; a calm
  step is any other.
\<close>

definition late_interrupt :: "i2c_driver \<Rightarrow> i2c_driver \<Rightarrow> bool" where
  "late_interrupt d d' \<longleftrightarrow> (\<exists>c n. id_pc d c = At_abort n)
     \<and> (\<exists>m status. id_peripheral d = Some m \<and> d' = I2C_IRQHandler (Some status) m d)"

definition calm_step :: "i2c_driver \<Rightarrow> i2c_driver \<Rightarrow> bool" where
  "calm_step d d' \<longleftrightarrow> i2c_step d d' \<and> \<not> late_interrupt d d'"

definition own_result :: "nat \<times> (nat \<times> I2CResult) option \<times> I2CResult \<Rightarrow> bool" where
  "own_result x \<longleftrightarrow> (case x of (n, None, _) \<Rightarrow> True | (n, Some (m, r), result) \<Rightarrow> m = n \<and> result = r)"

text \<open>The tasks inside \<open>ExecuteTransfer\<close>.\<close>

definition on_the_bus :: "i2c_driver \<Rightarrow> nat set" where
  "on_the_bus d = {c. id_pc d c \<noteq> At_idle}"

text \<open>
  The invariant: no task is on the bus while the lock is free, and one at most otherwise; a result in the
  queue, and the work of the peripheral, are those of the task on the bus.
\<close>

definition i2c_inv :: "i2c_driver \<Rightarrow> bool" where
  "i2c_inv d \<longleftrightarrow> (id_lock d \<longrightarrow> on_the_bus d = {}) \<and> (\<exists>c. on_the_bus d \<subseteq> {c})
     \<and> (\<forall>m r. id_queue d = Some (m, r) \<longrightarrow> (\<exists>c. id_pc d c = At_wait m) \<and> id_peripheral d = None)
     \<and> (\<forall>m. id_peripheral d = Some m \<longrightarrow> (\<exists>c. id_pc d c = At_wait m \<or> id_pc d c = At_abort m))
     \<and> (\<forall>x \<in> set (id_returned d). own_result x)"

lemmas i2c_defs = ExecuteTransfer_lock_def ExecuteTransfer_begin_def ExecuteTransfer_pop_def ExecuteTransfer_abort_def
  I2C_IRQHandler_def transfer_return_def

lemma only_task:
  assumes "i2c_inv d" and "id_pc d c \<noteq> At_idle"
  shows "id_pc d = (\<lambda>_. At_idle)(c := id_pc d c)" "\<not> id_lock d"
  using assms by (auto simp: i2c_inv_def on_the_bus_def fun_eq_iff)

text \<open>The invariant for the only task on the bus, and for a bus that is free.\<close>

lemma i2c_inv_busy:
  assumes "id_pc d = (\<lambda>_. At_idle)(c := pc)" and "pc \<noteq> At_idle"
  shows "i2c_inv d \<longleftrightarrow> \<not> id_lock d
     \<and> (\<forall>m r. id_queue d = Some (m, r) \<longrightarrow> pc = At_wait m \<and> id_peripheral d = None)
     \<and> (\<forall>m. id_peripheral d = Some m \<longrightarrow> pc = At_wait m \<or> pc = At_abort m)
     \<and> (\<forall>x \<in> set (id_returned d). own_result x)"
proof -
  have "on_the_bus d = {c}" using assms by (auto simp: on_the_bus_def)
  moreover have "(\<exists>k. id_pc d k = At_wait m) \<longleftrightarrow> pc = At_wait m"
    "(\<exists>k. id_pc d k = At_wait m \<or> id_pc d k = At_abort m) \<longleftrightarrow> pc = At_wait m \<or> pc = At_abort m" for m
    using assms by auto
  ultimately show ?thesis unfolding i2c_inv_def by auto
qed

lemma i2c_inv_free:
  assumes "id_pc d = (\<lambda>_. At_idle)"
  shows "i2c_inv d \<longleftrightarrow> id_queue d = None \<and> id_peripheral d = None \<and> (\<forall>x \<in> set (id_returned d). own_result x)"
  using assms by (cases "id_queue d") (auto simp: i2c_inv_def on_the_bus_def)

lemma calm_step_inv:
  assumes "calm_step d d'" and "i2c_inv d"
  shows "i2c_inv d'"
proof -
  have "i2c_step d d'" and calm: "\<not> late_interrupt d d'" using assms(1) by (simp_all add: calm_step_def)
  then show ?thesis
  proof (cases rule: i2c_step.cases)
    case (i2c_lock c)
    then have l: "id_lock d" "d' = d\<lparr>id_lock := False, id_pc := (id_pc d)(c := At_locked)\<rparr>"
      by (auto simp: ExecuteTransfer_lock_def split: if_splits)
    then have "id_pc d = (\<lambda>_. At_idle)" using assms(2) by (auto simp: i2c_inv_def on_the_bus_def)
    then show ?thesis
      using assms(2) l(2) by (subst i2c_inv_busy [of d' c At_locked]) (simp_all add: i2c_inv_free)
  next
    case (i2c_begin c latched init)
    note o = only_task [OF assms(2), of c]
    have pc: "id_pc d = (\<lambda>_. At_idle)(c := At_locked)" using o(1) i2c_begin by simp
    note b = assms(2) [unfolded i2c_inv_busy [OF pc transfer_pc.distinct(2)]]
    have "id_queue d = None" using b by (cases "id_queue d") auto
    moreover have "id_peripheral d = None" using b by (cases "id_peripheral d") auto
    ultimately have d: "\<not> id_lock d" "id_queue d = None" "id_peripheral d = None"
      "\<forall>x \<in> set (id_returned d). own_result x"
      using b by blast+
    show ?thesis
    proof (cases "latched \<or> init \<noteq> None")
      case True
      then have "id_pc d' = (\<lambda>_. At_idle)" using pc i2c_begin by (auto simp: i2c_defs Let_def)
      then show ?thesis
        using True d i2c_begin by (auto simp: i2c_inv_free i2c_defs Let_def own_result_def)
    next
      case False
      then have "id_pc d' = (\<lambda>_. At_idle)(c := At_wait (id_started d))" using pc i2c_begin by (auto simp: i2c_defs Let_def)
      then show ?thesis
        using False d i2c_begin by (subst i2c_inv_busy) (auto simp: i2c_defs Let_def)
    qed
  next
    case (i2c_pop c n)
    note o = only_task [OF assms(2), of c]
    have pc: "id_pc d = (\<lambda>_. At_idle)(c := At_wait n)" using o(1) i2c_pop by simp
    note d = assms(2) [unfolded i2c_inv_busy [OF pc transfer_pc.distinct(4)]]
    show ?thesis
    proof (cases "id_queue d")
      case None
      then have "id_pc d' = (\<lambda>_. At_idle)(c := At_abort n)" using pc i2c_pop by (auto simp: i2c_defs)
      then show ?thesis
        using None d i2c_pop by (subst i2c_inv_busy) (auto simp: i2c_defs)
    next
      case (Some x)
      then have "id_pc d' = (\<lambda>_. At_idle)" using pc i2c_pop by (cases x) (auto simp: i2c_defs)
      then show ?thesis
        using Some d i2c_pop by (cases x) (auto simp: i2c_inv_free i2c_defs own_result_def)
    qed
  next
    case (i2c_abort c n latched)
    note o = only_task [OF assms(2), of c]
    have pc: "id_pc d = (\<lambda>_. At_idle)(c := At_abort n)" using o(1) i2c_abort by simp
    note d = assms(2) [unfolded i2c_inv_busy [OF pc transfer_pc.distinct(6)]]
    have "id_queue d = None" using d by (cases "id_queue d") auto
    moreover have "id_pc d' = (\<lambda>_. At_idle)" using pc i2c_abort by (auto simp: i2c_defs)
    ultimately show ?thesis using d i2c_abort by (auto simp: i2c_inv_free i2c_defs own_result_def)
  next
    case (i2c_irq n status)
    show ?thesis
    proof (cases status)
      case None
      then show ?thesis using assms(2) i2c_irq by (simp add: I2C_IRQHandler_def)
    next
      case (Some result)
      then have "\<not> (\<exists>c n. id_pc d c = At_abort n)" using calm i2c_irq by (auto simp: late_interrupt_def)
      then obtain c where c: "id_pc d c = At_wait n" using assms(2) i2c_irq by (auto simp: i2c_inv_def)
      have pc: "id_pc d = (\<lambda>_. At_idle)(c := At_wait n)" using only_task [OF assms(2), of c] c by simp
      note d = assms(2) [unfolded i2c_inv_busy [OF pc transfer_pc.distinct(4)]]
      have "id_queue d = None" using d i2c_irq by (cases "id_queue d") auto
      moreover have "id_pc d' = (\<lambda>_. At_idle)(c := At_wait n)" using pc i2c_irq Some by (simp add: I2C_IRQHandler_def Let_def)
      ultimately show ?thesis
        using Some d i2c_irq by (subst i2c_inv_busy) (auto simp: I2C_IRQHandler_def Let_def)
    qed
  qed
qed

text \<open>
  C24. Any number of tasks share the bus. As long as no interrupt comes between the end of a wait without
  a result and the stop of the peripheral, at most one of them is inside \<open>ExecuteTransfer\<close>, and a transfer
  that returns a result from the queue returns its own.
\<close>

theorem i2c_own_results:
  assumes "calm_step\<^sup>*\<^sup>* I2CLowLevelBus_Initialize d"
  shows "(\<exists>c. on_the_bus d \<subseteq> {c})
    \<and> (\<forall>n m r result. (n, Some (m, r), result) \<in> set (id_returned d) \<longrightarrow> m = n \<and> result = r)"
proof -
  have "i2c_inv d" using assms
  proof induction
    case base
    show ?case by (simp add: i2c_inv_free I2CLowLevelBus_Initialize_def)
  qed (rule calm_step_inv)
  then show ?thesis by (fastforce simp: i2c_inv_def own_result_def)
qed

text \<open>Two tasks, the second one waiting for the lock, each transfer ended by its interrupt.\<close>

definition i2c_transfer :: "nat \<Rightarrow> i2c_driver \<Rightarrow> i2c_driver" where
  "i2c_transfer c d =
     (let n = id_started d
      in ExecuteTransfer_pop n c (I2C_IRQHandler (Some I2C_OK) n
           (ExecuteTransfer_begin False None c (the (ExecuteTransfer_lock c d)))))"

lemma calm_stepI: "i2c_step d d' \<Longrightarrow> (\<And>c n. id_pc d c \<noteq> At_abort n) \<Longrightarrow> calm_step d d'"
  by (simp add: calm_step_def late_interrupt_def)

lemma transfer_run:
  assumes "id_pc d = (\<lambda>_. At_idle)" and "id_lock d" and "id_queue d = None"
  shows "calm_step\<^sup>*\<^sup>* d (i2c_transfer c d)" "id_pc (i2c_transfer c d) = (\<lambda>_. At_idle)" "id_lock (i2c_transfer c d)"
    "id_queue (i2c_transfer c d) = None" "id_started (i2c_transfer c d) = Suc (id_started d)"
    "id_returned (i2c_transfer c d) = id_returned d @ [(id_started d, Some (id_started d, I2C_OK), I2C_OK)]"
proof -
  let ?n = "id_started d"
  let ?d1 = "d\<lparr>id_lock := False, id_pc := (id_pc d)(c := At_locked)\<rparr>"
  let ?d2 = "ExecuteTransfer_begin False None c ?d1"
  let ?d3 = "I2C_IRQHandler (Some I2C_OK) ?n ?d2"
  have l: "ExecuteTransfer_lock c d = Some ?d1" using assms(2) by (simp add: ExecuteTransfer_lock_def)
  have t: "i2c_transfer c d = ExecuteTransfer_pop ?n c ?d3" by (simp add: i2c_transfer_def l Let_def)
  have s1: "calm_step d ?d1" using assms(1) l by (intro calm_stepI i2c_lock [of _ c]) simp_all
  have s2: "calm_step ?d1 ?d2" using assms(1) by (intro calm_stepI i2c_begin) simp_all
  have s3: "calm_step ?d2 ?d3" using assms(1,3) by (intro calm_stepI i2c_irq) (simp_all add: i2c_defs Let_def)
  have s4: "calm_step ?d3 (ExecuteTransfer_pop ?n c ?d3)"
    using assms(1,3) by (intro calm_stepI i2c_pop) (simp_all add: i2c_defs Let_def)
  show "calm_step\<^sup>*\<^sup>* d (i2c_transfer c d)"
    unfolding t by (rule converse_rtranclp_into_rtranclp [OF s1 converse_rtranclp_into_rtranclp [OF s2
        converse_rtranclp_into_rtranclp [OF s3 r_into_rtranclp [of calm_step, OF s4]]]])
  show "id_pc (i2c_transfer c d) = (\<lambda>_. At_idle)" "id_lock (i2c_transfer c d)" "id_queue (i2c_transfer c d) = None"
    "id_started (i2c_transfer c d) = Suc ?n"
    "id_returned (i2c_transfer c d) = id_returned d @ [(?n, Some (?n, I2C_OK), I2C_OK)]"
    using assms by (simp_all add: t i2c_defs fun_eq_iff Let_def)
qed

theorem i2c_own_results_witness:
  "let d = i2c_transfer 5 (i2c_transfer 3 I2CLowLevelBus_Initialize)
   in id_returned d = [(0, Some (0, I2C_OK), I2C_OK), (1, Some (1, I2C_OK), I2C_OK)] \<and> (\<exists>c. on_the_bus d \<subseteq> {c})"
proof -
  let ?d = "i2c_transfer 3 I2CLowLevelBus_Initialize"
  have i: "id_pc I2CLowLevelBus_Initialize = (\<lambda>_. At_idle)" "id_lock I2CLowLevelBus_Initialize"
    "id_queue I2CLowLevelBus_Initialize = None" "id_started I2CLowLevelBus_Initialize = 0"
    "id_returned I2CLowLevelBus_Initialize = []"
    by (simp_all add: I2CLowLevelBus_Initialize_def)
  note a = transfer_run [OF i(1-3), of 3]
  note b = transfer_run [OF a(2-4), of 5]
  have "calm_step\<^sup>*\<^sup>* I2CLowLevelBus_Initialize (i2c_transfer 5 ?d)" by (rule rtranclp_trans [OF a(1) b(1)])
  then show ?thesis using i2c_own_results [of "i2c_transfer 5 ?d"] b(6) a(5,6) i(4,5) by (simp add: Let_def)
qed

text \<open>
  An interrupt in that window leaves its result in the queue, which is not emptied: the next transfer, of
  whichever task, takes it for its own, and returns success while the peripheral still works on it.
\<close>

theorem i2c_stale_result:
  "\<exists>d. i2c_step\<^sup>*\<^sup>* I2CLowLevelBus_Initialize d \<and> id_returned d = [(0, None, I2C_Timeout), (1, Some (0, I2C_OK), I2C_OK)]
     \<and> id_peripheral d = Some 1 \<and> on_the_bus d = {}"
proof -
  let ?d = I2CLowLevelBus_Initialize
  let ?l1 = "the (ExecuteTransfer_lock 3 ?d)"
  let ?d1 = "ExecuteTransfer_begin False None 3 ?l1"
  let ?d2 = "ExecuteTransfer_pop 0 3 ?d1"
  let ?d3 = "I2C_IRQHandler (Some I2C_OK) 0 ?d2"
  let ?d4 = "ExecuteTransfer_abort False 0 3 ?d3"
  let ?l2 = "the (ExecuteTransfer_lock 5 ?d4)"
  let ?d5 = "ExecuteTransfer_begin False None 5 ?l2"
  let ?d6 = "ExecuteTransfer_pop 1 5 ?d5"
  note I = I2CLowLevelBus_Initialize_def i2c_defs Let_def
  have s: "i2c_step ?d ?l1" by (rule i2c_lock [of _ 3]) (simp_all add: I)
  have s1: "i2c_step ?l1 ?d1" by (rule i2c_begin) (simp add: I)
  have s2: "i2c_step ?d1 ?d2" by (rule i2c_pop) (simp add: I)
  have s3: "i2c_step ?d2 ?d3" by (rule i2c_irq) (simp add: I)
  have s4: "i2c_step ?d3 ?d4" by (rule i2c_abort) (simp add: I)
  have t: "i2c_step ?d4 ?l2" by (rule i2c_lock [of _ 5]) (simp_all add: I)
  have s5: "i2c_step ?l2 ?d5" by (rule i2c_begin) (simp add: I)
  have s6: "i2c_step ?d5 ?d6" by (rule i2c_pop) (simp add: I)
  note tail = converse_rtranclp_into_rtranclp [OF s4 converse_rtranclp_into_rtranclp [OF t
      converse_rtranclp_into_rtranclp [OF s5 r_into_rtranclp [of i2c_step, OF s6]]]]
  have "i2c_step\<^sup>*\<^sup>* ?d ?d6"
    by (rule converse_rtranclp_into_rtranclp [OF s converse_rtranclp_into_rtranclp [OF s1
        converse_rtranclp_into_rtranclp [OF s2 converse_rtranclp_into_rtranclp [OF s3 tail]]]])
  moreover have "id_returned ?d6 = [(0, None, I2C_Timeout), (1, Some (0, I2C_OK), I2C_OK)]"
    "id_peripheral ?d6 = Some 1" "on_the_bus ?d6 = {}"
    by (simp_all add: I on_the_bus_def)
  ultimately show ?thesis by blast
qed

end
