(* ===== verification/Satellite_Settings.thy ===== *)
theory Satellite_Settings
  imports Telecommands
begin

text \<open>
  The telecommands of Telecommands.thy registered with the codes of their headers
  (libs/obc/communication), on one record of the components they act on: what a received frame does
  to it, and which frames leave it well formed. What the locks and the clock answer while a frame is
  handled is an argument, as are the memory and the version string.
\<close>

section \<open>The registered telecommands\<close>

record 'w satellite =
  st_persistent :: persistent_state
  st_coordinator :: "'w coordinator"
  st_fdir :: fdir
  st_sail :: sail_task
  st_provider :: TimeProvider
  st_sent :: "bytes list"

record environment =
  en_taken :: bool
  en_time :: set_time_env
  en_mktime :: "int \<Rightarrow> int \<Rightarrow> int \<Rightarrow> int \<Rightarrow> int \<Rightarrow> int \<Rightarrow> int"
  en_memory :: "nat \<Rightarrow> u8"
  en_version :: bytes
  en_text :: bytes

definition sends :: "bytes list \<Rightarrow> 'w satellite \<Rightarrow> 'w satellite" where
  "sends frames s = s\<lparr>st_sent := st_sent s @ frames\<rparr>"

text \<open>\<open>None\<close> is a write out of bounds or a handler that does not return; nothing follows it.\<close>

definition registered ::
  "u8 \<Rightarrow> (bytes \<Rightarrow> 'w satellite \<Rightarrow> 'w satellite option) \<Rightarrow> 'w satellite option telecommand" where
  "registered code h = \<lparr>tc_CommandCode = code, tc_Handle = (\<lambda>ps x. Option.bind x (h ps))\<rparr>"

text \<open>
  These are the telecommands of Telecommands.thy, a part of those that the satellite registers
  (\<open>SupportedTelecommands\<close> in communication.h); the handlers of the others are in theories of their own.
\<close>

definition SettingTelecommands :: "environment \<Rightarrow> 'w satellite option telecommand list" where
  "SettingTelecommands e =
     [registered 0x50 (\<lambda>ps s. Some (sends (Ping_Handle ps) s)),
      registered 0x90 (\<lambda>ps s. (let (p, frames) = SetTimeCorrectionConfig_Handle (en_taken e) ps (st_persistent s)
        in Some (sends frames (s\<lparr>st_persistent := p\<rparr>)))),
      registered 0x91 (\<lambda>ps s. (let (p, provider, events, frames) =
          SetTime_Handle (en_mktime e) (en_time e) ps (st_persistent s) (st_provider s)
        in Some (sends frames (s\<lparr>st_persistent := p, st_provider := provider\<rparr>)))),
      registered 0xA3 (\<lambda>ps s. (let (p, frames) = SetAntennaDeploymentMask_Handle (en_taken e) ps (st_persistent s)
        in Some (sends frames (s\<lparr>st_persistent := p\<rparr>)))),
      registered 0x02 (\<lambda>ps s. map_option (\<lambda>(f, frames). sends frames (s\<lparr>st_fdir := f\<rparr>))
        (SetErrorCounterConfig_Handle ps (st_fdir s))),
      registered 0x04 (\<lambda>ps s. (let (t, frames) = OpenSail_Handle ps (st_sail s)
        in Some (sends frames (s\<lparr>st_sail := t\<rparr>)))),
      registered 0x06 (\<lambda>ps s. Some (sends (GetErrorCountersConfig_Handle (st_fdir s)) s)),
      registered 0x05 (\<lambda>ps s. map_option (\<lambda>(p, frames). sends frames (s\<lparr>st_persistent := p\<rparr>))
        (SetPeriodicMessage_Handle (en_taken e) ps (st_persistent s))),
      registered 0x21 (\<lambda>ps s. map_option (\<lambda>frames. sends frames s)
        (GetPersistentState_Handle (en_taken e) (st_persistent s) ps)),
      registered 0x23 (\<lambda>ps s. Some (sends
        (SendPeriodicMessage_Handle (en_taken e) (en_text e) ps (st_persistent s)) s)),
      registered 0x27 (\<lambda>ps s. map_option (\<lambda>frames. sends frames s) (CompileInfo_Handle (en_version e) ps)),
      registered 0x24 (\<lambda>ps s. (let (p, c, frames) =
          SetBuiltinDetumblingBlockMask_Handle (en_taken e) ps (st_persistent s) (st_coordinator s)
        in Some (sends frames (s\<lparr>st_persistent := p, st_coordinator := c\<rparr>)))),
      registered 0x25 (\<lambda>ps s. (let (c, frames) = SetAdcsMode_Handle ps (st_coordinator s)
        in Some (sends frames (s\<lparr>st_coordinator := c\<rparr>)))),
      registered 0x2D (\<lambda>ps s. (let (p, frames) = StopSailDeployment_Handle (en_taken e) ps (st_persistent s)
        in Some (sends frames (s\<lparr>st_persistent := p\<rparr>)))),
      registered 0x29 (\<lambda>ps s. map_option (\<lambda>frames. sends frames s) (ReadMemory_Handle (en_memory e) ps))]"

text \<open>Frames as they are received, each with what the environment answers meanwhile.\<close>

fun receive ::
  "u32 \<Rightarrow> (environment \<times> bytes) list \<Rightarrow> 'w satellite option \<Rightarrow> 'w satellite option" where
  "receive securityCode [] x = x"
| "receive securityCode ((e, frame) # fs) x =
     receive securityCode fs
       (HandleFrame (UplinkProtocol_Decode securityCode) (SettingTelecommands e) frame x)"

section \<open>Well-formed states\<close>

definition satellite_ok :: "'w satellite \<Rightarrow> bool" where
  "satellite_ok s \<longleftrightarrow> parts_ok (ps_parts (st_persistent s)) \<and> fdir_wf (st_fdir s)
     \<and> length (ac_adcsMasks (st_coordinator s)) = 3 \<and> length (ac_queue (st_coordinator s)) \<le> 5
     \<and> (\<forall>f \<in> set (st_sent s). length f \<le> MaxDownlinkFrameSize)"

subsection \<open>Frames fit\<close>

lemma emit_length [simp]: "length (w_buf (snd (emit bs w))) = length (w_buf w)"
  if "unat (w_pos w) \<le> length (w_buf w)"
  using that by (simp add: emit_def)

lemma write_bytes_wf:
  "writer_wf w \<Longrightarrow> writer_wf (write_bytes bs w) \<and> length (w_buf (write_bytes bs w)) = length (w_buf w)"
proof (induction bs arbitrary: w)
  case (Cons b bs)
  have "write_bytes (b # bs) w = write_bytes bs (snd (emit [b] w))" by (simp add: write_bytes_def WriteByte_emit)
  then show ?case using Cons.IH [OF emit_wf [OF Cons.prems, of "[b]"]] emit_frame [OF Cons.prems, of "[b]"] by simp
qed (simp add: write_bytes_def)

lemma frame_fits:
  assumes "length (df_header d) = 3" and "length (w_buf (df_payload d)) = 232"
  shows "length (DownlinkFrame_Frame d) \<le> MaxDownlinkFrameSize"
  using assms by (simp add: DownlinkFrame_Frame_def MaxDownlinkFrameSize_def HeaderSize_def)

lemma plain_reply_fits: "length (plain_reply apid seq bs) \<le> MaxDownlinkFrameSize"
  unfolding plain_reply_def
  by (rule frame_fits)
    (simp_all add: PayloadWriter_def DownlinkFrame_bits(1,4) write_bytes_wf payload_ready)

lemma correlated_reply_fits: "length (correlated_reply apid seq c bs) \<le> MaxDownlinkFrameSize"
  unfolding correlated_reply_def
  by (rule frame_fits)
    (simp_all add: PayloadWriter_def CorrelatedDownlinkFrame_def DownlinkFrame_bits(1,4) write_bytes_wf payload_ready
      WriteByte_emit emit_wf emit_frame)

lemma data_frame_fits: "length p \<le> 232 \<Longrightarrow> length (data_frame apid seq p) \<le> MaxDownlinkFrameSize"
  by (simp add: data_frame_def DownlinkFrame_bits(1) MaxDownlinkFrameSize_def)

lemma numbered_fits:
  assumes "\<And>s c. c \<in> set cs \<Longrightarrow> length (g s c) \<le> n" and "f \<in> set (numbered g seq cs)"
  shows "length f \<le> n"
  using assms by (induction cs arbitrary: seq) auto

lemmas fits_simps = plain_reply_fits correlated_reply_fits data_frame_fits

subsection \<open>Every handler keeps the state well formed\<close>

text \<open>
  The telecommands that write out of bounds: the error counter configuration of the device one past
  the last, and a periodic message that is longer than its array (correlation identifier, interval and
  count come before it).
\<close>

definition config_overruns :: "bytes \<Rightarrow> bool" where
  "config_overruns ps \<longleftrightarrow> ps \<noteq> [] \<and> MaxDevices \<in> unat ` fst ` set (accepted_entries (tl ps))"

definition message_overruns :: "bytes \<Rightarrow> bool" where
  "message_overruns ps \<longleftrightarrow> MessageLength + 3 < length ps"

definition overruns :: "u8 \<Rightarrow> bytes \<Rightarrow> bool" where
  "overruns command ps \<longleftrightarrow> command = 0x02 \<and> config_overruns ps \<or> command = 0x05 \<and> message_overruns ps"

definition well_behaved :: "(bytes \<Rightarrow> bool) \<Rightarrow> (bytes \<Rightarrow> 'w satellite \<Rightarrow> 'w satellite option) \<Rightarrow> bool" where
  "well_behaved bad h \<longleftrightarrow> (\<forall>ps s. satellite_ok s \<longrightarrow> length ps + 5 \<le> MaxDownlinkFrameSize \<longrightarrow>
     (case h ps s of None \<Rightarrow> bad ps | Some t \<Rightarrow> satellite_ok t))"

lemma parts_ok_put:
  "parts_ok p \<Longrightarrow> parts_ok (put_AntennaConfiguration a p)"
  "parts_ok p \<Longrightarrow> parts_ok (put_TimeState ts p)"
  "parts_ok p \<Longrightarrow> parts_ok (put_TimeCorrection tc p)"
  "parts_ok p \<Longrightarrow> parts_ok (put_SailState sl p)"
  "parts_ok p \<Longrightarrow> parts_ok (put_AdcsState ad p)"
  "parts_ok p \<Longrightarrow> MessageState_ok m \<Longrightarrow> parts_ok (put_MessageState m p)"
  by (auto simp: parts_ok_def put_AntennaConfiguration_def put_TimeState_def put_TimeCorrection_def
      put_SailState_def put_AdcsState_def put_MessageState_def split: prod.splits)

lemma Lockable_Set_ok:
  "parts_ok (ps_parts p) \<Longrightarrow> parts_ok (put (ps_parts p)) \<Longrightarrow> parts_ok (ps_parts (snd (Lockable_Set taken put p)))"
  by (simp add: Lockable_Set_def PersistentState_Set_def NotifyModified_def)

lemma well_behavedI:
  assumes "\<And>ps s. satellite_ok s \<Longrightarrow> length ps + 5 \<le> MaxDownlinkFrameSize \<Longrightarrow> \<exists>t. h ps s = Some t \<and> satellite_ok t"
  shows "well_behaved bad h"
  unfolding well_behaved_def using assms by fastforce

lemma sends_ok:
  "satellite_ok s \<Longrightarrow> \<forall>f \<in> set frames. length f \<le> MaxDownlinkFrameSize \<Longrightarrow> satellite_ok (sends frames s)"
  by (auto simp: satellite_ok_def sends_def)

lemmas setting_defs = Let_def case_prod_beta sends_def satellite_ok_def

lemma settings_well_behaved:
  "well_behaved bad (\<lambda>ps s. (let (p, frames) = SetTimeCorrectionConfig_Handle taken ps (st_persistent s)
     in Some (sends frames (s\<lparr>st_persistent := p\<rparr>))))"
  "well_behaved bad (\<lambda>ps s. (let (p, frames) = SetAntennaDeploymentMask_Handle taken ps (st_persistent s)
     in Some (sends frames (s\<lparr>st_persistent := p\<rparr>))))"
  "well_behaved bad (\<lambda>ps s. (let (p, frames) = StopSailDeployment_Handle taken ps (st_persistent s)
     in Some (sends frames (s\<lparr>st_persistent := p\<rparr>))))"
  "well_behaved bad (\<lambda>ps s. (let (t, frames) = OpenSail_Handle ps (st_sail s)
     in Some (sends frames (s\<lparr>st_sail := t\<rparr>))))"
  "well_behaved bad (\<lambda>ps s. (let (p, provider, events, frames) =
       SetTime_Handle mktime env ps (st_persistent s) (st_provider s)
     in Some (sends frames (s\<lparr>st_persistent := p, st_provider := provider\<rparr>))))"
  by (rule well_behavedI; auto simp: setting_defs fits_simps SetTimeCorrectionConfig_Handle_def
      SetAntennaDeploymentMask_Handle_def StopSailDeployment_Handle_def OpenSail_Handle_def SetTime_Handle_def
      intro!: Lockable_Set_ok parts_ok_put)+

lemma SetBlockMode_ok:
  "length (ac_adcsMasks (SetBlockMode m b c)) = length (ac_adcsMasks c)" "ac_queue (SetBlockMode m b c) = ac_queue c"
  by (simp_all add: SetBlockMode_def Let_def)

lemma RequestMode_ok:
  "ac_adcsMasks (snd (RequestMode m c)) = ac_adcsMasks c"
  "length (ac_queue c) \<le> 5 \<Longrightarrow> length (ac_queue (snd (RequestMode m c))) \<le> 5"
  by (simp_all add: RequestMode_def)

lemma adcs_well_behaved:
  "well_behaved bad (\<lambda>ps s. (let (p, c, frames) =
       SetBuiltinDetumblingBlockMask_Handle taken ps (st_persistent s) (st_coordinator s)
     in Some (sends frames (s\<lparr>st_persistent := p, st_coordinator := c\<rparr>))))"
  "well_behaved bad (\<lambda>ps s. (let (c, frames) = SetAdcsMode_Handle ps (st_coordinator s)
     in Some (sends frames (s\<lparr>st_coordinator := c\<rparr>))))"
proof -
  show "well_behaved bad (\<lambda>ps s. (let (p, c, frames) =
       SetBuiltinDetumblingBlockMask_Handle taken ps (st_persistent s) (st_coordinator s)
     in Some (sends frames (s\<lparr>st_persistent := p, st_coordinator := c\<rparr>))))"
    by (rule well_behavedI; auto simp: setting_defs fits_simps SetBuiltinDetumblingBlockMask_Handle_def SetBlockMode_ok
        intro!: Lockable_Set_ok parts_ok_put)
  show "well_behaved bad (\<lambda>ps s. (let (c, frames) = SetAdcsMode_Handle ps (st_coordinator s)
     in Some (sends frames (s\<lparr>st_coordinator := c\<rparr>))))"
    by (rule well_behavedI; auto simp: setting_defs fits_simps SetAdcsMode_Handle_def RequestMode_ok
        EnableBuiltinDetumbling_def EnableExperimentalDetumbling_def EnableSunPointing_def Coordinator_Stop_def
        Coordinator_Disable_def)
qed

lemma ReadToEnd_short:
  assumes "length ps < 2 ^ 15"
  shows "length (fst (Reader_ReadToEnd (snd (Reader_ReadByte (snd (Reader_ReadByte (snd (Reader_ReadByte
    (Reader_Initialize ps))))))))) \<le> length ps - 3"
  using assms by (auto simp: left_simps split: option.splits)

lemma message_well_behaved:
  "well_behaved message_overruns (\<lambda>ps s. map_option (\<lambda>(p, frames). sends frames (s\<lparr>st_persistent := p\<rparr>))
     (SetPeriodicMessage_Handle taken ps (st_persistent s)))"
  unfolding well_behaved_def
proof (intro allI impI)
  fix ps :: bytes and s :: "'a satellite"
  assume s: "satellite_ok s" and len: "length ps + 5 \<le> MaxDownlinkFrameSize"
  let ?r = "Reader_Initialize ps"
  let ?r3 = "snd (Reader_ReadByte (snd (Reader_ReadByte (snd (Reader_ReadByte ?r)))))"
  let ?msg = "fst (Reader_ReadToEnd ?r3)"
  let ?i = "fst (Reader_ReadByte (snd (Reader_ReadByte ?r)))"
  let ?n = "fst (Reader_ReadByte (snd (Reader_ReadByte (snd (Reader_ReadByte ?r)))))"
  let ?m = "\<lparr>ms_interval = ucast ?i, ms_repeatCount = ?n, ms_message = put_at 0 ?msg (replicate MessageLength 0)\<rparr>"
  let ?h = "SetPeriodicMessage_Handle taken ps (st_persistent s)"
  have short: "length ?msg \<le> length ps - 3"
    using ReadToEnd_short [of ps] len by (simp add: MaxDownlinkFrameSize_def)
  have "unat ?i < 256" using unsigned_less [of ?i, where 'a = nat] by simp
  then have i: "take_bit 64 (unat ?i) < 256" by (rule le_less_trans [OF take_bit_nat_less_eq_self])
  have m: "MessageState_new (ucast ?i) ?n ?msg = Some ?m" "MessageState_ok ?m" if "length ?msg \<le> MessageLength"
    using that i by (simp_all add: MessageState_new_def MessageState_ok_def unsigned_ucast_eq)
  show "case map_option (\<lambda>(p, frames). sends frames (s\<lparr>st_persistent := p\<rparr>)) ?h of
      None \<Rightarrow> message_overruns ps | Some t \<Rightarrow> satellite_ok t"
  proof (cases "length ?msg \<le> MessageLength")
    case True
    have "\<exists>t. map_option (\<lambda>(p, frames). sends frames (s\<lparr>st_persistent := p\<rparr>)) ?h = Some t \<and> satellite_ok t"
      using s m [OF True] by (auto simp: SetPeriodicMessage_Handle_def setting_defs fits_simps intro!: Lockable_Set_ok parts_ok_put)
    then show ?thesis by auto
  next
    case False
    then have "message_overruns ps" using short by (simp add: message_overruns_def)
    moreover have "?h = None \<or> (\<exists>frames. ?h = Some (st_persistent s, frames) \<and> (\<forall>f \<in> set frames. length f \<le> MaxDownlinkFrameSize))"
      using False by (auto simp: SetPeriodicMessage_Handle_def setting_defs fits_simps MessageState_new_def)
    ultimately show ?thesis using s by (auto simp: sends_ok)
  qed
qed

lemma error_counters_keep:
  assumes "set_error_counters_loop n r f w = Some (f', w')" and "length (fd_configuration f) = MaxDevices" and "writer_wf w"
  shows "length (fd_configuration f') = MaxDevices \<and> fd_counters f' = fd_counters f
    \<and> length (w_buf w') = length (w_buf w)"
  using assms
proof (induction n arbitrary: r f w)
  case (Suc n)
  have w: "writer_wf (snd (Writer_WriteByte d w))" "length (w_buf (snd (Writer_WriteByte d w))) = length (w_buf w)" for d
    using emit_wf [OF Suc.prems(3)] emit_frame [OF Suc.prems(3)] by (simp_all add: WriteByte_emit)
  show ?case
    using Suc.prems(1,2) Suc.IH [OF _ _ w(1)]
    by (auto simp: Let_def case_prod_beta FDIR_Set_def w(2) split: if_splits option.splits)
qed simp

lemma correlated_ready:
  "writer_wf (df_payload (CorrelatedDownlinkFrame apid seq c))"
  "length (w_buf (df_payload (CorrelatedDownlinkFrame apid seq c))) = 232"
  "df_header (CorrelatedDownlinkFrame apid seq c) = df_header (DownlinkFrame apid seq)"
  by (simp_all add: CorrelatedDownlinkFrame_def PayloadWriter_def WriteByte_emit emit_wf payload_ready emit_frame
      DownlinkFrame_bits(4))

lemma counters_well_behaved:
  "well_behaved config_overruns (\<lambda>ps s. map_option (\<lambda>(f, frames). sends frames (s\<lparr>st_fdir := f\<rparr>))
     (SetErrorCounterConfig_Handle ps (st_fdir s)))"
  unfolding well_behaved_def
proof (intro allI impI)
  fix ps :: bytes and s :: "'a satellite"
  assume s: "satellite_ok s" and len: "length ps + 5 \<le> MaxDownlinkFrameSize"
  let ?h = "SetErrorCounterConfig_Handle ps (st_fdir s)"
  have wf: "length (fd_configuration (st_fdir s)) = MaxDevices" using s by (simp add: satellite_ok_def fdir_wf_def)
  show "case map_option (\<lambda>(f, frames). sends frames (s\<lparr>st_fdir := f\<rparr>)) ?h of
      None \<Rightarrow> config_overruns ps | Some t \<Rightarrow> satellite_ok t"
  proof (cases ps)
    case Nil
    then have "?h = Some (st_fdir s, [correlated_reply APID_ErrorCounterConfiguration 0
        (fst (Reader_ReadByte (Reader_Initialize ps))) [1]])"
      by (simp add: SetErrorCounterConfig_Handle_def correlated_reply_def left_simps case_prod_beta Let_def)
    then show ?thesis using s by (simp add: satellite_ok_def sends_def fits_simps)
  next
    case (Cons c qs)
    note run = error_counter_config_run [of qs "st_fdir s" c, OF _ wf]
    have "length qs \<le> 900" using len Cons by (simp add: MaxDownlinkFrameSize_def)
    note run = run [OF this]
    have es: "length (accepted_entries qs) \<le> 225"
      using accepted_entries_length [of qs] \<open>length qs \<le> 900\<close> by linarith
    show ?thesis
    proof (cases "MaxDevices \<in> unat ` fst ` set (accepted_entries qs)")
      case True
      then show ?thesis by (simp add: Cons run config_overruns_def)
    next
      case False
      have "length (apply_entries es c) = length c" for es c
        by (induction es arbitrary: c) (auto simp: apply_entries_def split: prod.splits)
      then show ?thesis
        using False s es by (simp add: Cons run satellite_ok_def sends_def fits_simps fdir_wf_def)
    qed
  qed
qed

lemma fold_writes_wf:
  assumes "\<And>x w. writer_wf w \<Longrightarrow> writer_wf (g x w) \<and> length (w_buf (g x w)) = length (w_buf w)" and "writer_wf w"
  shows "writer_wf (fold g xs w) \<and> length (w_buf (fold g xs w)) = length (w_buf w)"
  using assms(2) by (induction xs arbitrary: w) (simp_all add: assms(1))

lemma GetErrorCounters_fits: "f \<in> set (GetErrorCountersConfig_Handle d) \<Longrightarrow> length f \<le> MaxDownlinkFrameSize"
proof -
  assume f: "f \<in> set (GetErrorCountersConfig_Handle d)"
  have four: "writer_wf w \<Longrightarrow>
      (let w4 = snd (Writer_WriteByte b4 (snd (Writer_WriteByte b3 (snd (Writer_WriteByte b2 (snd (Writer_WriteByte b1 w)))))))
       in writer_wf w4 \<and> length (w_buf w4) = length (w_buf w))" for b1 b2 b3 b4 w
    by (simp add: WriteByte_emit Let_def emit_wf emit_frame)
  show ?thesis
    using f four unfolding GetErrorCountersConfig_Handle_def
    by (auto simp: Let_def PayloadWriter_def DownlinkFrame_bits(1,4) payload_ready intro!: frame_fits
        fold_writes_wf [THEN conjunct2, THEN trans])
qed

lemma WriteArray_length: "writer_wf w \<Longrightarrow> length (w_buf (snd (Writer_WriteArray bs w))) = length (w_buf w)"
  by (simp add: Writer_WriteArray_def UpdateState_fits writer_wf_def Let_def split: bool.split)

lemma chunked_frames_fit:
  "f \<in> set (numbered (data_frame apid) seq (chunked 232 xs)) \<Longrightarrow> length f \<le> MaxDownlinkFrameSize"
  by (erule numbered_fits [rotated]) (simp add: chunked_length data_frame_fits)

lemma ReadMemory_returns:
  "\<exists>frames. ReadMemory_Handle mem ps = Some frames \<and> (\<forall>f \<in> set frames. length f \<le> MaxDownlinkFrameSize)"
proof -
  define r1 where "r1 = snd (Reader_ReadByte (Reader_Initialize ps))"
  define offset where "offset = fst (Reader_ReadDoubleWordLE r1)"
  define sz where "sz = min (fst (Reader_ReadDoubleWordLE (snd (Reader_ReadDoubleWordLE r1)))) (0xFFFFFFFF - offset)"
  define c where "c = fst (Reader_ReadByte (Reader_Initialize ps))"
  have le: "offset \<le> 0xFFFFFFFF" using unsigned_less [of offset, where 'a = nat] by (simp add: word_le_nat_alt)
  have "unat sz \<le> unat (0xFFFFFFFF - offset)" by (simp add: sz_def word_le_nat_alt [symmetric])
  then have sum: "unat offset + unat sz < 2 ^ 32"
    using unat_sub [OF le] unsigned_less [of offset, where 'a = nat] by simp
  let ?frames = "numbered (\<lambda>s p. data_frame APID_MemoryContent s (c # p)) 0
    (chunked 231 (map (mem(0 := 0)) [unat offset..<unat offset + unat sz]))"
  have fit: "length f \<le> MaxDownlinkFrameSize" if f: "f \<in> set ?frames" for f
    by (rule numbered_fits [OF _ f]) (auto intro!: data_frame_fits dest: chunked_length)
  have "ReadMemory_Handle mem ps = Some [correlated_reply APID_Operation 0 c [1]]
      \<or> ReadMemory_Handle mem ps = Some ?frames"
    using memory_frames_run [OF sum, of mem c 0]
    by (simp add: ReadMemory_Handle_def Let_def case_prod_beta flip: c_def r1_def offset_def sz_def)
  then show ?thesis using fit correlated_reply_fits by auto
qed

lemma reports_well_behaved:
  "well_behaved bad (\<lambda>ps (s :: 'a satellite). Some (sends (Ping_Handle ps) s))"
  "well_behaved bad (\<lambda>ps (s :: 'a satellite). Some (sends (GetErrorCountersConfig_Handle (st_fdir s)) s))"
  "well_behaved bad (\<lambda>ps (s :: 'a satellite). map_option (\<lambda>frames. sends frames s) (ReadMemory_Handle mem ps))"
  "well_behaved bad (\<lambda>ps (s :: 'a satellite). map_option (\<lambda>frames. sends frames s)
     (GetPersistentState_Handle taken (st_persistent s) ps))"
  "length version < 2 ^ 15 \<Longrightarrow>
     well_behaved bad (\<lambda>ps (s :: 'a satellite). map_option (\<lambda>frames. sends frames s) (CompileInfo_Handle version ps))"
  "well_behaved bad (\<lambda>ps (s :: 'a satellite). Some (sends (SendPeriodicMessage_Handle taken text ps (st_persistent s)) s))"
proof -
  have "Ping_Handle ps = [data_frame APID_Pong 0 [0x50, 0x4F, 0x4E, 0x47]]" for ps
    by (simp add: Ping_Handle_def array_frame payload_size)
  then show "well_behaved bad (\<lambda>ps (s :: 'a satellite). Some (sends (Ping_Handle ps) s))"
    by (intro well_behavedI) (simp add: sends_ok fits_simps)
  show "well_behaved bad (\<lambda>ps (s :: 'a satellite). Some (sends (GetErrorCountersConfig_Handle (st_fdir s)) s))"
    by (intro well_behavedI) (simp add: sends_ok GetErrorCounters_fits)
  show "well_behaved bad (\<lambda>ps (s :: 'a satellite). map_option (\<lambda>frames. sends frames s) (ReadMemory_Handle mem ps))"
  proof (rule well_behavedI)
    fix ps :: bytes and s :: "'a satellite"
    assume s: "satellite_ok s"
    obtain frames where "ReadMemory_Handle mem ps = Some frames" "\<forall>f \<in> set frames. length f \<le> MaxDownlinkFrameSize"
      using ReadMemory_returns by blast
    then show "\<exists>t. map_option (\<lambda>frames. sends frames s) (ReadMemory_Handle mem ps) = Some t \<and> satellite_ok t"
      using s by (simp add: sends_ok)
  qed
  show "well_behaved bad (\<lambda>ps (s :: 'a satellite). map_option (\<lambda>frames. sends frames s)
     (GetPersistentState_Handle taken (st_persistent s) ps))"
  proof (rule well_behavedI)
    fix ps :: bytes and s :: "'a satellite"
    assume s: "satellite_ok s"
    then have ok: "parts_ok (ps_parts (st_persistent s))" by (simp add: satellite_ok_def)
    show "\<exists>t. map_option (\<lambda>frames. sends frames s) (GetPersistentState_Handle taken (st_persistent s) ps) = Some t
      \<and> satellite_ok t"
    proof (cases taken)
      case True
      let ?b = "parts_bytes (ps_parts (st_persistent s))"
      have len: "length ?b = 281" using container.repr_length [OF ok] by (simp add: size_values)
      then have "?b \<noteq> []" by auto
      then have "GetPersistentState_Handle taken (st_persistent s) ps
          = Some (numbered (data_frame APID_PersistentState) 0 (chunked 232 ?b))"
        using persistent_state_frames_run [of "Reader_Initialize ?b" 0] len True
        by (simp add: GetPersistentState_Handle_def WriteState_image [OF ok])
      then show ?thesis using s chunked_frames_fit by (simp add: sends_ok)
    next
      case False
      then show ?thesis using s
        by (simp add: GetPersistentState_Handle_def WriteState_def Lockable_Write_def sends_ok)
    qed
  qed
  show "well_behaved bad (\<lambda>ps (s :: 'a satellite). map_option (\<lambda>frames. sends frames s) (CompileInfo_Handle version ps))"
    if len: "length version < 2 ^ 15"
  proof (rule well_behavedI)
    fix ps :: bytes and s :: "'a satellite"
    assume s: "satellite_ok s"
    have "CompileInfo_Handle version ps = Some (numbered (data_frame APID_CompileInfo) 0 (chunked 232 version))"
    proof (cases "version = []")
      case True
      then show ?thesis
        unfolding CompileInfo_Handle_def
        by (subst compile_info_frames.simps) (simp add: Reader_RemainingSize_def Reader_Initialize_def Reader_Reset_def)
    next
      case False
      then show ?thesis
        using compile_info_frames_run [of "Reader_Initialize version" 0] len by (simp add: CompileInfo_Handle_def)
    qed
    then show "\<exists>t. map_option (\<lambda>frames. sends frames s) (CompileInfo_Handle version ps) = Some t \<and> satellite_ok t"
      using s chunked_frames_fit by (simp add: sends_ok)
  qed
  show "well_behaved bad (\<lambda>ps (s :: 'a satellite). Some (sends (SendPeriodicMessage_Handle taken text ps (st_persistent s)) s))"
  proof (rule well_behavedI)
    fix ps :: bytes and s :: "'a satellite"
    assume s: "satellite_ok s"
    have "length (DownlinkFrame_Frame (PayloadWriter (\<lambda>w. snd (Writer_WriteArray m w)) (DownlinkFrame APID_PeriodicMessage 0)))
        \<le> MaxDownlinkFrameSize" for m
      by (rule frame_fits) (simp_all add: PayloadWriter_def DownlinkFrame_bits(1,4) WriteArray_length payload_ready)
    then show "\<exists>t. Some (sends (SendPeriodicMessage_Handle taken text ps (st_persistent s)) s) = Some t \<and> satellite_ok t"
      using s by (simp add: SendPeriodicMessage_Handle_def Let_def sends_ok)
  qed
qed

section \<open>Whatever is received\<close>

definition overrun_frame :: "u32 \<Rightarrow> bytes \<Rightarrow> bool" where
  "overrun_frame securityCode frame \<longleftrightarrow>
     5 \<le> length frame \<and> le_word (rev (take 4 frame)) = securityCode \<and> overruns (frame ! 4) (drop 5 frame)"

definition tc_behaves :: "'w satellite option telecommand \<Rightarrow> bool" where
  "tc_behaves tc \<longleftrightarrow> (\<exists>h. tc = registered (tc_CommandCode tc) h \<and> well_behaved (overruns (tc_CommandCode tc)) h)"

lemma tc_behavesI: "well_behaved (overruns code) h \<Longrightarrow> tc_behaves (registered code h)"
  unfolding tc_behaves_def by (rule exI [of _ h]) (simp add: registered_def)

lemma well_behaved_mono: "well_behaved bad h \<Longrightarrow> (\<And>ps. bad ps \<Longrightarrow> bad' ps) \<Longrightarrow> well_behaved bad' h"
  unfolding well_behaved_def by (fastforce split: option.splits)

lemma exceptions_behave:
  "tc_behaves (registered 0x02 (\<lambda>ps s. map_option (\<lambda>(f, frames). sends frames (s\<lparr>st_fdir := f\<rparr>))
     (SetErrorCounterConfig_Handle ps (st_fdir s))))"
  "tc_behaves (registered 0x05 (\<lambda>ps s. map_option (\<lambda>(p, frames). sends frames (s\<lparr>st_persistent := p\<rparr>))
     (SetPeriodicMessage_Handle taken ps (st_persistent s))))"
  by (rule tc_behavesI, rule well_behaved_mono, rule counters_well_behaved, simp add: overruns_def,
      rule tc_behavesI, rule well_behaved_mono, rule message_well_behaved, simp add: overruns_def)

lemma registered_behave:
  assumes "length (en_version e) < 2 ^ 15"
  shows "\<forall>tc \<in> set (SettingTelecommands e). tc_behaves tc"
  unfolding SettingTelecommands_def list.set ball_simps
  by (intro conjI TrueI exceptions_behave tc_behavesI settings_well_behaved adcs_well_behaved reports_well_behaved assms)

lemma one_frame:
  assumes "satellite_ok s" and "length frame \<le> MaxDownlinkFrameSize" and "length (en_version e) < 2 ^ 15"
  shows "case HandleFrame (UplinkProtocol_Decode securityCode) (SettingTelecommands e) frame (Some s) of
      None \<Rightarrow> overrun_frame securityCode frame | Some t \<Rightarrow> satellite_ok t"
proof -
  let ?code = "frame ! 4" and ?ps = "drop 5 frame"
  have len: "length frame < 2 ^ 15" using assms(2) by (simp add: MaxDownlinkFrameSize_def)
  show ?thesis
  proof (cases "5 \<le> length frame \<and> le_word (rev (take 4 frame)) = securityCode")
    case False
    then have "HandleFrame (UplinkProtocol_Decode securityCode) (SettingTelecommands e) frame (Some s) = Some s"
      by (auto simp: HandleFrame_def Decode_cases [OF len])
    then show ?thesis using assms(1) by simp
  next
    case True
    then have run: "HandleFrame (UplinkProtocol_Decode securityCode) (SettingTelecommands e) frame (Some s)
        = DispatchCommandHandler (SettingTelecommands e) ?code ?ps (Some s)"
      by (simp add: HandleFrame_def Decode_cases [OF len])
    show ?thesis unfolding run
    proof (rule DispatchCommandHandler_cases [of "SettingTelecommands e" ?code ?ps "Some s"])
      assume "DispatchCommandHandler (SettingTelecommands e) ?code ?ps (Some s) = Some s"
      then show "case DispatchCommandHandler (SettingTelecommands e) ?code ?ps (Some s) of
          None \<Rightarrow> overrun_frame securityCode frame | Some t \<Rightarrow> satellite_ok t" using assms(1) by simp
    next
      fix tc
      assume tc: "tc \<in> set (SettingTelecommands e)" "tc_CommandCode tc = ?code"
        "DispatchCommandHandler (SettingTelecommands e) ?code ?ps (Some s) = tc_Handle tc ?ps (Some s)"
      obtain h where h: "tc = registered (tc_CommandCode tc) h"
        "well_behaved (overruns (tc_CommandCode tc)) h"
        using registered_behave [OF assms(3)] tc(1) unfolding tc_behaves_def by blast
      have "length ?ps + 5 \<le> MaxDownlinkFrameSize" using assms(2) True by simp
      moreover have "tc_Handle tc ?ps (Some s) = h ?ps s" by (subst h(1)) (simp add: registered_def)
      moreover have "overrun_frame securityCode frame" if "overruns ?code ?ps"
        using True that by (simp add: overrun_frame_def)
      ultimately show "case DispatchCommandHandler (SettingTelecommands e) ?code ?ps (Some s) of
          None \<Rightarrow> overrun_frame securityCode frame | Some t \<Rightarrow> satellite_ok t"
        using h(2) assms(1) tc(2) unfolding tc(3) well_behaved_def by (fastforce split: option.splits)
    qed
  qed
qed

lemma receive_None: "receive securityCode fs None = (None :: 'a satellite option)"
proof (induction fs)
  case (Cons f fs)
  obtain e frame where f: "f = (e, frame)" by (cases f)
  have tc: "tc_Handle tc ps None = (None :: 'a satellite option)" if "tc \<in> set (SettingTelecommands e)" for tc ps
    using that by (auto simp: SettingTelecommands_def registered_def)
  have "DispatchCommandHandler (SettingTelecommands e) c ps None = (None :: 'a satellite option)" for c ps
    by (rule DispatchCommandHandler_cases [of "SettingTelecommands e" c ps None]) (auto simp: tc)
  then have "HandleFrame (UplinkProtocol_Decode securityCode) (SettingTelecommands e) frame None
      = (None :: 'a satellite option)"
    by (simp add: HandleFrame_def split: DecodeTelecommandResult.split)
  then show ?case using Cons by (simp add: f)
qed simp

text \<open>
  C2. For the fifteen telecommands of \<open>SettingTelecommands\<close>: frames of every size that the receiver lets
  through, at most 235 bytes, whatever they hold and however the locks and the clock answer, leave a
  well-formed satellite well formed: the persistent state can be saved and loaded again, counters, masks
  and queues have their sizes, and every frame sent can be transmitted. All handlers return. There are
  two exceptions, both authenticated frames: an error counter configuration that names the device one
  past the last, and a periodic message that is longer than its array. (The version string is shorter than
  32768 bytes.)
\<close>

theorem telecommands_keep_state:
  assumes "satellite_ok s"
    and "\<forall>(e, frame) \<in> set fs. length frame \<le> MaxDownlinkFrameSize \<and> length (en_version e) < 2 ^ 15"
  shows "case receive securityCode fs (Some s) of
      None \<Rightarrow> \<exists>(e, frame) \<in> set fs. overrun_frame securityCode frame
    | Some t \<Rightarrow> satellite_ok t"
  using assms
proof (induction fs arbitrary: s)
  case (Cons f fs)
  obtain e frame where f: "f = (e, frame)" by (cases f)
  let ?x = "HandleFrame (UplinkProtocol_Decode securityCode) (SettingTelecommands e) frame (Some s)"
  have one: "case ?x of None \<Rightarrow> overrun_frame securityCode frame | Some t \<Rightarrow> satellite_ok t"
    using Cons.prems f by (intro one_frame) auto
  show ?case
  proof (cases ?x)
    case None
    then show ?thesis using one by (simp add: f receive_None)
  next
    case (Some t)
    then show ?thesis using one Cons.IH [of t] Cons.prems(2) by (auto simp: f split: option.splits)
  qed
qed simp

definition satellite_new :: "bytes \<Rightarrow> unit satellite" where
  "satellite_new text =
     \<lparr>st_persistent = PersistentState_new text, st_coordinator = AdcsCoordinator_new (),
      st_fdir = FDIR_Initalize (FDIR_new 0), st_sail = OpenSailTask_new, st_provider = TimeProvider_new, st_sent = []\<rparr>"

definition calm_environment :: environment where
  "calm_environment =
     \<lparr>en_taken = True, en_time = \<lparr>se_sync = False, se_rtc = (OS_Timeout, \<lparr>rt_seconds = 0, rt_minutes = 0, rt_hours = 0, rt_days = 1, rt_months = 1, rt_years = 0\<rparr>), se_get = True, se_timer = True,
        se_notify = True, se_set = True\<rparr>, en_mktime = (\<lambda>_ _ _ _ _ _. 0), en_memory = (\<lambda>_. 0), en_version = [49], en_text = []\<rparr>"

lemma satellite_new_ok: "length text < MessageLength \<Longrightarrow> satellite_ok (satellite_new text)"
  using default_ok [of "text"] fdir_wf_new [of 0]
  by (simp add: satellite_ok_def satellite_new_def AdcsCoordinator_new_def)

theorem telecommands_keep_state_witness:
  "case receive 7 [(calm_environment, rev (le_bytes 4 (7 :: u32)) @ [0x24, 1, 1]),
                   (calm_environment, rev (le_bytes 4 (7 :: u32)) @ [0x02, 1, 14, 1, 1, 1])] (Some (satellite_new [])) of
      None \<Rightarrow> \<exists>(e, frame) \<in> set [(calm_environment, rev (le_bytes 4 (7 :: u32)) @ [0x24, 1, 1]),
                   (calm_environment, rev (le_bytes 4 (7 :: u32)) @ [0x02, 1, 14, 1, 1, 1])]. overrun_frame 7 frame
    | Some t \<Rightarrow> satellite_ok t"
  by (rule telecommands_keep_state [OF satellite_new_ok])
    (simp_all add: MessageLength_def calm_environment_def MaxDownlinkFrameSize_def)

text \<open>Both exceptions are real: such frames are received and the handlers write out of bounds.\<close>

theorem overlong_message_overruns:
  assumes "length msg = 201" and "length ps = 3"
  shows "SetPeriodicMessage_Handle taken (ps @ msg) st = None \<and> length (ps @ msg) + 5 \<le> MaxDownlinkFrameSize"
proof -
  have "length (ps @ msg) = 204" using assms by simp
  then show ?thesis
    using assms by (auto simp: SetPeriodicMessage_Handle_def left_simps Let_def case_prod_beta MessageState_new_def MessageLength_def
        MaxDownlinkFrameSize_def split: option.splits)
qed

end
