(* ===== verification/Request_Telecommands.thy ===== *)
theory Request_Telecommands
  imports Telecommands I2c_Bus Program_Flash
begin

text \<open>
  The telecommands that request something of another component: experiments (experiments.cpp,
  flash.cpp), the transmitter (comm.cpp), the power supply (eps.cpp, power.cpp), the I2C buses
  (i2c.cpp) and the cameras (photo.cpp), all in libs/obc/communication/telecommands. An experiment
  that takes parameters keeps them in its object; \<open>experiment_setup\<close> holds those of all of them.
\<close>

section \<open>Parameters of the experiments\<close>

record SunSExperimentParams =
  sp_gain :: u8
  sp_itime :: u8
  sp_samplesCount :: u8
  sp_shortDelay :: int
  sp_samplingSessionsCount :: u8
  sp_longDelay :: int

record experiment_setup =
  xs_duration :: int
  xs_sampleRate :: int
  xs_suns :: SunSExperimentParams
  xs_primaryFileName :: bytes
  xs_secondaryFileName :: bytes
  xs_delay :: int
  xs_samplesCount :: u8
  xs_outputFileName :: bytes
  xs_payloadFileName :: bytes
  xs_cameraFileName :: bytes
  xs_sourceEntries :: "bool list"
  xs_targetEntries :: "bool list"
  xs_correlationId :: u8

text \<open>
  \<open>strsafecpy\<close> prints at most \<open>n - 1\<close> characters, up to the first NUL, into an array of \<open>n\<close>; a
  name is the string that its array holds.
\<close>

definition strsafecpy :: "nat \<Rightarrow> bytes \<Rightarrow> bytes" where
  "strsafecpy n source = take (n - 1) (takeWhile (\<lambda>c. c \<noteq> 0) source)"

definition Detumbling_Duration :: "int \<Rightarrow> experiment_setup \<Rightarrow> experiment_setup" where
  "Detumbling_Duration duration x = x\<lparr>xs_duration := duration\<rparr>"

definition Detumbling_SampleRate :: "int \<Rightarrow> experiment_setup \<Rightarrow> experiment_setup" where
  "Detumbling_SampleRate interval x = x\<lparr>xs_sampleRate := interval\<rparr>"

definition SunS_SetParameters :: "SunSExperimentParams \<Rightarrow> experiment_setup \<Rightarrow> experiment_setup" where
  "SunS_SetParameters parameters x = x\<lparr>xs_suns := parameters\<rparr>"

definition SunS_SetOutputFiles :: "bytes \<Rightarrow> experiment_setup \<Rightarrow> experiment_setup" where
  "SunS_SetOutputFiles baseName x =
     (let x = x\<lparr>xs_primaryFileName := strsafecpy 30 baseName\<rparr>;
          x = x\<lparr>xs_secondaryFileName := strsafecpy 34 (take 30 (xs_primaryFileName x))\<rparr>
      in x\<lparr>xs_secondaryFileName := xs_secondaryFileName x @ [0x5F, 0x73, 0x65, 0x63]\<rparr>)"

definition RadFET_Setup :: "int \<Rightarrow> u8 \<Rightarrow> bytes \<Rightarrow> experiment_setup \<Rightarrow> experiment_setup" where
  "RadFET_Setup delay samplesCount outputFileName x =
     x\<lparr>xs_delay := delay, xs_samplesCount := samplesCount, xs_outputFileName := strsafecpy 40 outputFileName\<rparr>"

definition Payload_SetOutputFile :: "bytes \<Rightarrow> experiment_setup \<Rightarrow> experiment_setup" where
  "Payload_SetOutputFile fileName x = x\<lparr>xs_payloadFileName := strsafecpy 30 fileName\<rparr>"

definition Camera_SetOutputFilesBaseName :: "bytes \<Rightarrow> experiment_setup \<Rightarrow> experiment_setup" where
  "Camera_SetOutputFilesBaseName fileName x = x\<lparr>xs_cameraFileName := strsafecpy 30 fileName\<rparr>"

text \<open>\<open>std::bitset<6>\<close> takes the low six bits of the mask.\<close>

definition BootEntriesSelector :: "u8 \<Rightarrow> bool list" where
  "BootEntriesSelector m = map (bit m) [0..<EntriesCount]"

definition Copy_SetupEntries :: "bool list \<Rightarrow> bool list \<Rightarrow> experiment_setup \<Rightarrow> experiment_setup" where
  "Copy_SetupEntries source target x = x\<lparr>xs_sourceEntries := source, xs_targetEntries := target\<rparr>"

definition EraseFlash_SetCorrelationId :: "u8 \<Rightarrow> experiment_setup \<Rightarrow> experiment_setup" where
  "EraseFlash_SetCorrelationId correlationId x = x\<lparr>xs_correlationId := correlationId\<rparr>"

definition Detumbling_Code :: ExperimentCode where "Detumbling_Code = 0x1"
definition EraseFlash_Code :: ExperimentCode where "EraseFlash_Code = 0x2"
definition SunS_Code :: ExperimentCode where "SunS_Code = 0x3"
definition RadFET_Code :: ExperimentCode where "RadFET_Code = 0x5"
definition SADS_Code :: ExperimentCode where "SADS_Code = 0x06"
definition Sail_Code :: ExperimentCode where "Sail_Code = 0x07"
definition Payload_Code :: ExperimentCode where "Payload_Code = 9"
definition Camera_Code :: ExperimentCode where "Camera_Code = 10"
definition CopyBootSlots_Code :: ExperimentCode where "CopyBootSlots_Code = 11"

section \<open>Requests of experiments\<close>

definition SendStandardResponse :: "u8 \<Rightarrow> DownlinkGenericResponse \<Rightarrow> bytes" where
  "SendStandardResponse correlationId responseId =
     correlated_reply APID_Experiment 0 correlationId [num_DownlinkGenericResponse responseId]"

type_synonym 'w request = "experiment_setup \<times> 'w controller \<times> bytes list"

definition request_reply ::
  "u8 \<Rightarrow> ExperimentCode \<Rightarrow> experiment_setup \<Rightarrow> 'w controller \<Rightarrow> 'w request" where
  "request_reply correlationId code x c =
     (let (status, c) = RequestExperiment code c
      in (x, c, [SendStandardResponse correlationId (if status then Response_Success else Response_ExperimentError)]))"

definition PerformDetumblingExperiment_Handle ::
  "bytes \<Rightarrow> experiment_setup \<Rightarrow> 'w controller \<Rightarrow> 'w request" where
  "PerformDetumblingExperiment_Handle parameters x c =
     (let r = Reader_Initialize parameters;
          (correlationId, r) = Reader_ReadByte r;
          (duration, r) = Reader_ReadDoubleWordLE r;
          (samplingInterval, r) = Reader_ReadByte r
      in if \<not> Reader_Status r then (x, c, [SendStandardResponse correlationId Response_MalformedRequest])
         else
           (let x = Detumbling_Duration (uint duration) x;
                x = Detumbling_SampleRate (uint samplingInterval) x
            in request_reply correlationId Detumbling_Code x c))"

definition AbortExperiment_Handle :: "bytes \<Rightarrow> 'w controller \<Rightarrow> 'w controller \<times> bytes list" where
  "AbortExperiment_Handle parameters c =
     (if length parameters = 0 then (c, [SendStandardResponse 0 Response_MalformedRequest])
      else (AbortExperiment c, [SendStandardResponse (parameters ! 0) Response_Success]))"

definition PerformSunSExperiment_Handle ::
  "bytes \<Rightarrow> experiment_setup \<Rightarrow> 'w controller \<Rightarrow> 'w request" where
  "PerformSunSExperiment_Handle parameters x c =
     (let r = Reader_Initialize parameters;
          (correlationId, r) = Reader_ReadByte r;
          (gain, r) = Reader_ReadByte r;
          (itime, r) = Reader_ReadByte r;
          (samplesCount, r) = Reader_ReadByte r;
          (shortDelay, r) = Reader_ReadByte r;
          (sessionsCount, r) = Reader_ReadByte r;
          (longDelay, r) = Reader_ReadByte r;
          (outputFile, r) = Reader_ReadString 30 r
      in if \<not> Reader_Status r \<or> outputFile = []
         then (x, c, [SendStandardResponse correlationId Response_MalformedRequest])
         else
           (let x = SunS_SetParameters \<lparr>sp_gain = gain, sp_itime = itime, sp_samplesCount = samplesCount,
                      sp_shortDelay = uint shortDelay, sp_samplingSessionsCount = sessionsCount,
                      sp_longDelay = uint longDelay\<rparr> x;
                x = SunS_SetOutputFiles outputFile x
            in request_reply correlationId SunS_Code x c))"

definition PerformRadFETExperiment_Handle ::
  "bytes \<Rightarrow> experiment_setup \<Rightarrow> 'w controller \<Rightarrow> 'w request" where
  "PerformRadFETExperiment_Handle parameters x c =
     (let r = Reader_Initialize parameters;
          (correlationId, r) = Reader_ReadByte r;
          (d, r) = Reader_ReadByte r;
          delay = uint d * 10;
          (samplesCount, r) = Reader_ReadByte r;
          (path, r) = Reader_ReadString 30 r
      in if \<not> Reader_Status r \<or> length path = 0
         then (x, c, [SendStandardResponse correlationId Response_MalformedRequest])
         else request_reply correlationId RadFET_Code (RadFET_Setup delay samplesCount path x) c)"

definition PerformSailExperiment_Handle ::
  "bytes \<Rightarrow> experiment_setup \<Rightarrow> 'w controller \<Rightarrow> 'w request" where
  "PerformSailExperiment_Handle parameters x c =
     (let (correlationId, r) = Reader_ReadByte (Reader_Initialize parameters)
      in if \<not> Reader_Status r then (x, c, [SendStandardResponse correlationId Response_MalformedRequest])
         else request_reply correlationId Sail_Code x c)"

definition PerformSADSExperiment_Handle ::
  "bytes \<Rightarrow> experiment_setup \<Rightarrow> 'w controller \<Rightarrow> 'w request" where
  "PerformSADSExperiment_Handle parameters x c =
     (let (correlationId, r) = Reader_ReadByte (Reader_Initialize parameters)
      in if \<not> Reader_Status r then (x, c, [SendStandardResponse correlationId Response_MalformedRequest])
         else request_reply correlationId SADS_Code x c)"

definition PerformPayloadCommisioningExperiment_Handle ::
  "bytes \<Rightarrow> experiment_setup \<Rightarrow> 'w controller \<Rightarrow> 'w request" where
  "PerformPayloadCommisioningExperiment_Handle parameters x c =
     (let r = Reader_Initialize parameters;
          (correlationId, r) = Reader_ReadByte r;
          (outputFile, r) = Reader_ReadString 30 r
      in if \<not> Reader_Status r \<or> outputFile = []
         then (x, c, [SendStandardResponse correlationId Response_MalformedRequest])
         else request_reply correlationId Payload_Code (Payload_SetOutputFile outputFile x) c)"

definition PerformCameraCommisioningExperiment_Handle ::
  "bytes \<Rightarrow> experiment_setup \<Rightarrow> 'w controller \<Rightarrow> 'w request" where
  "PerformCameraCommisioningExperiment_Handle parameters x c =
     (let r = Reader_Initialize parameters;
          (correlationId, r) = Reader_ReadByte r;
          (outputFile, r) = Reader_ReadString 30 r
      in if \<not> Reader_Status r \<or> outputFile = []
         then (x, c, [SendStandardResponse correlationId Response_MalformedRequest])
         else request_reply correlationId Camera_Code (Camera_SetOutputFilesBaseName outputFile x) c)"

text \<open>The number of bits of a mask is taken over its eight bits, the overlap over six.\<close>

definition PerformCopyBootSlotsExperiment_Handle ::
  "bytes \<Rightarrow> experiment_setup \<Rightarrow> 'w controller \<Rightarrow> 'w request" where
  "PerformCopyBootSlotsExperiment_Handle parameters x c =
     (let r = Reader_Initialize parameters;
          (correlationId, r) = Reader_ReadByte r;
          (sourceBitMask, r) = Reader_ReadByte r;
          (targetBitMask, r) = Reader_ReadByte r;
          sourceCount = popcount sourceBitMask;
          targetCount = popcount targetBitMask;
          areOverlapping = sourceBitMask AND targetBitMask AND (push_bit EntriesCount 1 - 1);
          reply = (\<lambda>b. [correlated_reply APID_Operation 0 correlationId [b]])
      in if \<not> Reader_Status r \<or> areOverlapping \<noteq> 0 \<or> sourceCount \<noteq> 3 \<or> targetCount \<le> 0 \<or> targetCount > 3
         then (x, c, reply 1)
         else
           (let x = Copy_SetupEntries (BootEntriesSelector sourceBitMask) (BootEntriesSelector targetBitMask) x;
                (success, c) = RequestExperiment CopyBootSlots_Code c
            in (x, c, reply (if success then 0 else 2))))"

definition EraseFlash_Handle :: "bytes \<Rightarrow> experiment_setup \<Rightarrow> 'w controller \<Rightarrow> 'w request" where
  "EraseFlash_Handle parameters x c =
     (if length parameters = 0 then (x, c, [correlated_reply APID_EraseFlash 0 0 [1]])
      else
        (let correlationId = parameters ! 0;
             x = EraseFlash_SetCorrelationId correlationId x;
             (requested, c) = RequestExperiment EraseFlash_Code c
         in (x, c, [correlated_reply APID_EraseFlash 0 correlationId (if requested then [0, 0] else [2])])))"

section \<open>Transmitter (comm.cpp)\<close>

text \<open>
  The transmitter is given by its operations on its world \<open>'t\<close>; \<open>send\<close> is \<open>SendFrame\<close>, whose result
  the handlers ignore. \<open>taken\<close>: the lock of the idle state controller.
\<close>

definition EnterIdleState_Handle ::
  "(bool \<Rightarrow> 't \<Rightarrow> bool \<times> 't) \<Rightarrow> bool \<Rightarrow> int option \<Rightarrow> bytes \<Rightarrow> comm_task \<Rightarrow> 't
     \<Rightarrow> comm_task \<times> 't \<times> bytes list" where
  "EnterIdleState_Handle SetTransmitterStateWhenIdle taken currentTime parameters t w =
     (let r = Reader_Initialize parameters;
          (correlationId, r) = Reader_ReadByte r;
          (duration, r) = Reader_ReadByte r;
          reply = (\<lambda>b. [correlated_reply APID_Comm 0 correlationId [b]])
      in if \<not> Reader_Status r then (t, w, reply (- 1))
         else (case currentTime of
                 None \<Rightarrow> (t, w, reply (- 1))
               | Some now \<Rightarrow>
                   (let disableTime = now + uint duration * 1000;
                        (status, t, w) = EnterTransmitterStateWhenIdle SetTransmitterStateWhenIdle taken disableTime t w
                    in (t, w, reply (if status then 0 else - 1)))))"

definition SendBeacon_Handle :: "bool \<Rightarrow> bytes \<Rightarrow> bytes \<Rightarrow> bytes \<Rightarrow> bytes list" where
  "SendBeacon_Handle taken lastSerializedTelemetry memory parameters =
     (let (ok, w) = WriteBeaconPayload taken lastSerializedTelemetry (RawFrame memory)
      in if ok then [RawFrame_Frame w] else [DownlinkFrame_Frame (DownlinkFrame APID_BeaconError 0)])"

definition ResetTransmitter_Handle :: "('t \<Rightarrow> bool \<times> 't) \<Rightarrow> bytes \<Rightarrow> 't \<Rightarrow> 't" where
  "ResetTransmitter_Handle ResetTransmitter parameters w = snd (ResetTransmitter w)"

definition SetBitrate_Handle :: "(u8 \<Rightarrow> 't \<Rightarrow> bool \<times> 't) \<Rightarrow> bytes \<Rightarrow> 't \<Rightarrow> 't \<times> bytes list" where
  "SetBitrate_Handle SetTransmitterBitRate parameters w =
     (let r = Reader_Initialize parameters;
          (correlationId, r) = Reader_ReadByte r;
          (bitrate, r) = Reader_ReadByte r;
          reply = (\<lambda>b. [correlated_reply APID_SetBitrate 0 correlationId [b]])
      in if \<not> Reader_Status r then (w, reply (- 1))
         else (let (ok, w) = SetTransmitterBitRate bitrate w in (w, reply (if \<not> ok then - 2 else 0))))"

section \<open>Power supply (eps.cpp, power.cpp)\<close>

definition DisableOverheatSubmode_Handle :: "(u8 \<Rightarrow> 'p \<Rightarrow> bool \<times> 'p) \<Rightarrow> bytes \<Rightarrow> 'p \<Rightarrow> 'p \<times> bytes list" where
  "DisableOverheatSubmode_Handle DisableOverheatSubmode parameters w =
     (let r = Reader_Initialize parameters;
          (correlationId, r) = Reader_ReadByte r;
          (controller, r) = Reader_ReadByte r;
          reply = (\<lambda>b. [correlated_reply APID_DisableOverheatSubmode 0 correlationId [b]])
      in if \<not> Reader_Status r then (w, reply (- 1))
         else (let (ok, w) = DisableOverheatSubmode controller w in (w, reply (if \<not> ok then - 2 else 0))))"

text \<open>The first reply is sent before the power cycle, which a working power supply does not survive.\<close>

definition PowerCycle_Handle ::
  "(bytes \<Rightarrow> 's \<Rightarrow> bool \<times> 's) \<Rightarrow> (int \<Rightarrow> 's \<Rightarrow> 's) \<Rightarrow> ('s \<Rightarrow> 's) \<Rightarrow> bytes \<Rightarrow> 's \<Rightarrow> 's" where
  "PowerCycle_Handle send sleepTask power_PowerCycle parameters s =
     (let (correlationId, r) = Reader_ReadByte (Reader_Initialize parameters);
          reply = (\<lambda>b s. snd (send (correlated_reply APID_Powercycle 0 correlationId [b]) s))
      in if \<not> Reader_Status r then reply 1 s
         else
           (let s = reply 0 s;
                s = sleepTask 5000 s;
                s = power_PowerCycle s
            in reply 2 s))"

section \<open>Raw transfers on the I2C buses (i2c.cpp)\<close>

definition HandleJoinedWriteRead ::
  "'s II2CBus \<Rightarrow> u8 \<Rightarrow> bytes \<Rightarrow> bytes \<Rightarrow> 's \<Rightarrow> (I2CResult \<times> bytes) \<times> 's" where
  "HandleJoinedWriteRead bus address data response s = bus_WriteRead bus address data response s"

definition HandleSeparateWriteRead ::
  "(int \<Rightarrow> 's \<Rightarrow> 's) \<Rightarrow> 's II2CBus \<Rightarrow> u8 \<Rightarrow> int \<Rightarrow> bytes \<Rightarrow> bytes \<Rightarrow> 's \<Rightarrow> (I2CResult \<times> bytes) \<times> 's" where
  "HandleSeparateWriteRead sleepTask bus address delay data response s =
     (let (writeResult, s) = bus_Write bus address data s
      in if writeResult \<noteq> I2C_OK then ((writeResult, response), s)
         else bus_Read bus address response (sleepTask delay s))"

text \<open>The whole payload is reserved and cleared; its first byte is the result.\<close>

definition RawI2C_Handle ::
  "(int \<Rightarrow> 's \<Rightarrow> 's) \<Rightarrow> 's II2CBus \<Rightarrow> 's II2CBus \<Rightarrow> bytes \<Rightarrow> 's \<Rightarrow> 's \<times> bytes list" where
  "RawI2C_Handle sleepTask systemBus payload parameters s =
     (let r = Reader_Initialize parameters;
          (correlationId, r) = Reader_ReadByte r;
          (busSelect, r) = Reader_ReadByte r;
          (address, r) = Reader_ReadByte r;
          (delay, r) = Reader_ReadWordLE r;
          (data, r) = Reader_ReadToEnd r;
          response = CorrelatedDownlinkFrame APID_I2C 0 correlationId;
          reply = (\<lambda>b. [correlated_reply APID_I2C 0 correlationId [b]])
      in if \<not> Reader_Status r then (s, reply 1)
         else
           (case (if busSelect = 0 then Some systemBus else if busSelect = 1 then Some payload else None) of
              None \<Rightarrow> (s, reply 2)
            | Some bus \<Rightarrow>
                (let ((p, n), w) = Writer_Reserve Correlated_MaxPayloadSize (df_payload response);
                     buffer = replicate (n - 1) 0;
                     ((i2cResult, buffer), s) =
                       (if delay = 0 then HandleJoinedWriteRead bus address data buffer s
                        else HandleSeparateWriteRead sleepTask bus address (uint delay) data buffer s);
                     filled = w\<lparr>w_buf := put_at p (of_int (num_I2CResult i2cResult) # buffer) (w_buf w)\<rparr>
                 in (s, [DownlinkFrame_Frame (response\<lparr>df_payload := filled\<rparr>)]))))"

section \<open>Photos (photo.cpp)\<close>

text \<open>The calls to the photo service, in order; a name is its base and the number printed after it.\<close>

datatype photo_call =
    Photo_Reset | Photo_Sleep int | Photo_EnableCamera u8 | Photo_DisableCamera u8
  | Photo_TakePhoto u8 u8 | Photo_DownloadPhoto u8 u8 | Photo_SavePhoto u8 bytes nat
  | Photo_PurgePendingCommands

definition Camera_Nadir :: u8 where "Camera_Nadir = 0"
definition Camera_Wing :: u8 where "Camera_Wing = 1"

definition TakePhoto_Handle :: "bytes \<Rightarrow> photo_call list \<times> bytes list" where
  "TakePhoto_Handle parameters =
     (if length parameters = 0 then ([], [correlated_reply APID_Photo 0 0 [1]])
      else
        (let r = Reader_Initialize parameters;
             (correlationId, r) = Reader_ReadByte r;
             (cameraId, r) = Reader_ReadByte r;
             (resolution, r) = Reader_ReadByte r;
             (n, r) = Reader_ReadByte r;
             (delay, r) = Reader_ReadWordLE r;
             (path, r) = Reader_ReadString 30 r;
             reply = (\<lambda>b. [correlated_reply APID_Photo 0 correlationId [b]])
         in if \<not> Reader_Status r \<or> path = [] \<or> n \<ge> 30 then ([], reply 2)
            else
              ([Photo_Reset, Photo_Sleep (uint delay * 1000), Photo_EnableCamera cameraId]
                 @ concat (map (\<lambda>cx. [Photo_TakePhoto cameraId resolution, Photo_DownloadPhoto cameraId 0,
                     Photo_SavePhoto 0 path cx, Photo_Reset]) [0..<unat n])
                 @ [Photo_DisableCamera cameraId, Photo_Reset], reply 0)))"

definition PurgePhoto_Handle :: "bytes \<Rightarrow> photo_call list \<times> bytes list" where
  "PurgePhoto_Handle parameters =
     (if parameters = [] then ([], [correlated_reply APID_PurgePhoto 0 0 [1]])
      else
        (let (correlationId, r) = Reader_ReadByte (Reader_Initialize parameters);
             reply = (\<lambda>b. [correlated_reply APID_PurgePhoto 0 correlationId [b]])
         in if \<not> Reader_Status r then ([], reply 2)
            else ([Photo_PurgePendingCommands, Photo_DisableCamera Camera_Nadir, Photo_DisableCamera Camera_Wing,
                   Photo_Reset], reply 0)))"

section \<open>A refused request\<close>

text \<open>
  While an experiment is in progress every request of an experiment is refused, and the controller
  is left as it is; but the parameters are stored first, so the refused request has already changed
  those of the experiment that is running: here the entries between which boot slots are copied.
\<close>

theorem refused_request_reconfigures:
  assumes "ct_InProgress c"
    and "popcount source = 3" and "0 < popcount target" and "popcount target \<le> 3" and "source AND target AND 0x3F = 0"
  shows "PerformCopyBootSlotsExperiment_Handle [correlationId, source, target] x c =
    (x\<lparr>xs_sourceEntries := BootEntriesSelector source, xs_targetEntries := BootEntriesSelector target\<rparr>, c,
     [correlated_reply APID_Operation 0 correlationId [2]])"
  using assms
  by (simp add: PerformCopyBootSlotsExperiment_Handle_def RequestExperiment_def Copy_SetupEntries_def left_simps
      taking_def Let_def case_prod_beta EntriesCount_def)

theorem refused_request_reconfigures_witness:
  "\<forall>x. let running = (ExperimentController_new ())\<lparr>ct_InProgress := True, ct_currentExperiment := Some CopyBootSlots_Code\<rparr>
   in xs_targetEntries (fst (PerformCopyBootSlotsExperiment_Handle [7, 0x38, 0x07] x running))
        = [True, True, True, False, False, False]"
  using refused_request_reconfigures [of "(ExperimentController_new ())\<lparr>ct_InProgress := True,
      ct_currentExperiment := Some CopyBootSlots_Code\<rparr>" "0x38" "0x07" 7]
  by (simp add: popcount_def BootEntriesSelector_def EntriesCount_def Let_def upt_rec)

end
