(* ===== verification/Copy_Boot_Slots.thy ===== *)
theory Copy_Boot_Slots
  imports Scrubber Request_Telecommands Experiment_Controller
begin

text \<open>
  The experiment that copies boot slots (libs/experiments/program/program_exp.cpp): the three source
  entries are voted part by part, and the result is programmed into every target entry.
\<close>

section \<open>The experiment\<close>

definition CopyBoot_EraseEntryError :: "u8 \<Rightarrow> nat \<Rightarrow> u32 \<Rightarrow> bytes" where
  "CopyBoot_EraseEntryError errorCode entry offset =
     DownlinkFrame_Frame (PayloadWriter
       (\<lambda>w. snd (Writer_WriteDoubleWordLE offset (write_bytes [0, 1, errorCode, push_bit entry 1] w)))
       (DownlinkFrame APID_CopyBootTable 0))"

definition CopyBoot_WriteProgramError :: "u8 \<Rightarrow> nat \<Rightarrow> u32 \<Rightarrow> bytes" where
  "CopyBoot_WriteProgramError errorCode entry offset =
     DownlinkFrame_Frame (PayloadWriter
       (\<lambda>w. snd (Writer_WriteDoubleWordLE offset (write_bytes [1, 1, errorCode, push_bit entry 1] w)))
       (DownlinkFrame APID_CopyBootTable 0))"

text \<open>The loop of the boot loader, over the bits of a selector.\<close>

fun selector_loop :: "bool list \<Rightarrow> nat list \<Rightarrow> nat \<Rightarrow> u8 list \<Rightarrow> u8 list" where
  "selector_loop selector [] j slots = slots"
| "selector_loop selector (i # is) j slots =
     (let (slots, j) = (if selector ! i then (slots[j := of_nat i], j + 1) else (slots, j))
      in if j = 3 then slots else selector_loop selector is j slots)"

definition selected_slots :: "bool list \<Rightarrow> u8 list" where
  "selected_slots selector = selector_loop selector [0..<6] 0 [0, 0, 0]"

text \<open>The first loop: a target that is not erased ends the experiment.\<close>

fun erase_targets ::
  "'s IFlashDriver \<Rightarrow> bool list \<Rightarrow> nat list \<Rightarrow> 's \<Rightarrow> (FlashStatus \<times> nat \<times> nat) option \<times> 's" where
  "erase_targets d target [] s = (None, s)"
| "erase_targets d target (i # is) s =
     (if target ! i then
        (case ProgramEntry_Erase d (of_nat i) s of
           (Some (status, offset), s) \<Rightarrow> (Some (status, i, offset), s)
         | (None, s) \<Rightarrow> erase_targets d target is s)
      else erase_targets d target is s)"

text \<open>A part is programmed into every target; a failure is sent, and the loop goes on.\<close>

fun program_targets ::
  "'s IFlashDriver \<Rightarrow> bool list \<Rightarrow> bytes \<Rightarrow> nat \<Rightarrow> nat list \<Rightarrow> 's \<Rightarrow> bytes list \<times> 's" where
  "program_targets d target copyBuffer offset [] s = ([], s)"
| "program_targets d target copyBuffer offset (i # is) s =
     (if target ! i then
        (let (result, s) = fl_Program d (InFlashOffset (of_nat i) + of_nat offset) copyBuffer s;
             sent = (if result \<noteq> NotBusy then [CopyBoot_WriteProgramError (FlashStatus_num result) i (of_nat offset)] else []);
             (frames, s) = program_targets d target copyBuffer offset is s
         in (sent @ frames, s))
      else program_targets d target copyBuffer offset is s)"

definition CopyBufferSize :: nat where "CopyBufferSize = 1024"

function copy_parts ::
  "'s IFlashDriver \<Rightarrow> u8 list \<Rightarrow> bool list \<Rightarrow> bytes \<Rightarrow> nat \<Rightarrow> 's \<Rightarrow> bytes list \<times> 's" where
  "copy_parts d slots target copyBuffer offset s =
     (if offset < unat ProgramEntry_Size then
        (let partSize = min CopyBufferSize (unat ProgramEntry_Size - offset);
             parts = map (\<lambda>i. flash_span d (InFlashOffset i + of_nat offset) partSize s) slots;
             copyBuffer = snd (CorrectBuffer3 \<lparr>s_addr = 0, s_data = copyBuffer\<rparr> (parts ! 0) (parts ! 1) (parts ! 2));
             (sent, s) = program_targets d target copyBuffer offset [0..<EntriesCount] s;
             (frames, s) = copy_parts d slots target copyBuffer (offset + CopyBufferSize) s
         in (sent @ frames, s))
      else ([], s))"
  by pat_completeness auto
termination
  by (relation "measure (\<lambda>(_, _, _, _, offset, _). unat ProgramEntry_Size - offset)") (auto simp: CopyBufferSize_def)

declare copy_parts.simps [simp del]

text \<open>\<open>copyBuffer\<close>: what the local array holds at first.\<close>

definition CopyBootSlots_Iteration ::
  "'s IFlashDriver \<Rightarrow> bool list \<Rightarrow> bool list \<Rightarrow> bytes \<Rightarrow> 's \<Rightarrow> IterationResult \<times> bytes list \<times> 's" where
  "CopyBootSlots_Iteration d sourceEntries targetEntries copyBuffer s =
     (let slots = selected_slots sourceEntries;
          (result, s) = erase_targets d targetEntries [0..<EntriesCount] s
      in case result of
           Some (status, i, offset) \<Rightarrow>
             (Iteration_Failure, [CopyBoot_EraseEntryError (FlashStatus_num status) i (of_nat offset)], s)
         | None \<Rightarrow>
             (let (frames, s) = copy_parts d slots targetEntries copyBuffer 0 s
              in (Iteration_Finished, frames @ [plain_reply APID_CopyBootTable 0 [0]], s)))"

section \<open>Slots of a mask\<close>

lemma selector_loop_mask:
  "set is \<subseteq> {..<6} \<Longrightarrow> selector_loop (BootEntriesSelector m) is j slots = slot_loop m is j slots"
proof (induction m "is" j slots rule: slot_loop.induct)
  case (2 m i "is" j slots)
  then show ?case by (auto simp: BootEntriesSelector_def EntriesCount_def)
qed simp

lemma selected_slots_mask: "selected_slots (BootEntriesSelector m) = ToSlotNumbers m"
  by (simp add: selected_slots_def ToSlotNumbers_def selector_loop_mask atLeast0LessThan)

lemma selector_loop_numbers:
  "set is \<subseteq> {..<6} \<Longrightarrow> \<forall>x \<in> set slots. unat x < 6 \<Longrightarrow>
     length (selector_loop selector is j slots) = length slots
     \<and> (\<forall>x \<in> set (selector_loop selector is j slots). unat x < 6)"
proof (induction selector "is" j slots rule: selector_loop.induct)
  case (2 selector i "is" j slots)
  have u: "\<forall>x \<in> set (slots[j := of_nat i]). unat x < 6"
    using "2.prems" by (auto dest!: set_update_subset_insert [THEN subsetD] simp: unat_of_nat)
  show ?case using 2 u by (auto split: if_splits)
qed simp

lemma selected_slots_three:
  obtains x y z where "selected_slots selector = [x, y, z]" "unat x < 6" "unat y < 6" "unat z < 6"
proof -
  have "length (selected_slots selector) = 3 \<and> (\<forall>x \<in> set (selected_slots selector). unat x < 6)"
    using selector_loop_numbers [of "[0..<6]" "[0, 0, 0]" selector 0]
    by (simp add: selected_slots_def atLeast0LessThan numeral_3_eq_3)
  then show thesis using that by (auto simp: length_Suc_conv eval_nat_numeral)
qed

section \<open>Erasing and programming the targets\<close>

definition blocks :: "nat set \<Rightarrow> nat \<Rightarrow> nat \<Rightarrow> nat set" where
  "blocks I a n = (\<Union>i \<in> I. {524288 * i + a ..< 524288 * i + a + n})"

lemma in_blocks:
  assumes "x < 524288" and "a + n \<le> 524288"
  shows "524288 * i + x \<in> blocks I a n \<longleftrightarrow> i \<in> I \<and> a \<le> x \<and> x < a + n"
proof -
  have "524288 * i + x \<in> {524288 * j + a ..< 524288 * j + a + n} \<longleftrightarrow> j = i \<and> a \<le> x \<and> x < a + n" for j
  proof
    assume k: "524288 * i + x \<in> {524288 * j + a ..< 524288 * j + a + n}"
    then have "(524288 * i + x) div 524288 = j" using assms by (intro div_nat_eqI) auto
    then show "j = i \<and> a \<le> x \<and> x < a + n" using k assms(1) by simp
  qed simp
  then show ?thesis by (auto simp: blocks_def)
qed

lemma blocks_apart:
  assumes "a + n \<le> 524288" and "b + m \<le> 524288" and "i \<notin> I \<or> a + n \<le> b \<or> b + m \<le> a"
  shows "{524288 * i + a ..< 524288 * i + a + n} \<inter> blocks I b m = {}"
proof (intro equals0I)
  fix k assume k: "k \<in> {524288 * i + a ..< 524288 * i + a + n} \<inter> blocks I b m"
  then have "k = 524288 * i + (k - 524288 * i)" "k - 524288 * i < 524288" using assms(1) by auto
  then show False using k assms in_blocks [of "k - 524288 * i" b m i I] by auto
qed

definition targets :: "bool list \<Rightarrow> nat list \<Rightarrow> nat set" where
  "targets target is = {i \<in> set is. target ! i}"

lemma targets_simps [simp]:
  "targets target [] = {}"
  "targets target (i # is) = (if target ! i then insert i (targets target is) else targets target is)"
  by (auto simp: targets_def)

lemma blocks_simps [simp]:
  "blocks {} a n = {}" "blocks (insert i I) a n = {524288 * i + a ..< 524288 * i + a + n} \<union> blocks I a n"
  by (auto simp: blocks_def)

lemma slot_part_offset:
  assumes "i < 6" and "x < 524288"
  shows "unat (InFlashOffset (of_nat i) + of_nat x :: u32) = 524288 * i + x"
proof -
  have "unat (of_nat i :: u8) = i" using assms(1) by (simp add: unat_of_nat)
  moreover have "unat (of_nat x :: u32) = x" using assms(2) by (simp add: unat_of_nat)
  ultimately show ?thesis using assms entry_offset [of "of_nat i"] by (subst unat_add_small) simp_all
qed

context working_flash_driver
begin

lemma erase_loop_works:
  assumes "ok s" and "unat i < 6"
  shows "j \<le> 8 \<Longrightarrow> fst (ProgramEntry_Erase_loop d i (65536 * j) s) = None"
  using assms(1)
proof (induction "8 - j" arbitrary: j s)
  case 0
  then show ?case by (subst ProgramEntry_Erase_loop.simps) (simp add: ProgramEntry_Size_def)
next
  case (Suc n)
  then have j: "j < 8" by simp
  let ?a = "InFlashOffset i + of_nat (65536 * j) :: u32"
  have al: "unat ?a + 65536 \<le> flash_size" "unat ?a mod 65536 = 0"
    using assms(2) j scrub_offset_sector(1,2) [of i j] by (simp_all only: scrub_offset_def)
  have "fst (ProgramEntry_Erase_loop d i (65536 * Suc j) (snd (fl_EraseSector d ?a s))) = None"
    using Suc.hyps(2) j erase_ok [OF Suc.prems(2) al] by (intro Suc.hyps(1)) simp_all
  then show ?case
    using erase_works [OF Suc.prems(2) al] j
    by (subst ProgramEntry_Erase_loop.simps) (simp add: ProgramEntry_Size_def case_prod_beta add.commute)
qed

lemma erase_targets_works:
  fixes target :: "bool list"
  assumes "ok s" and "set is \<subseteq> {..<6}" and "distinct is"
  defines "r \<equiv> \<lambda>is s. erase_targets d target is s" and "A \<equiv> \<lambda>is. blocks (targets target is) 0 524288"
  shows "fst (r is s) = None \<and> confined (A is) s (snd (r is s)) \<and> (\<forall>k \<in> A is. mem (snd (r is s)) k = 0xFF)"
  using assms(1-3)
proof (induction "is" arbitrary: s)
  case Nil
  then show ?case by (simp add: r_def A_def confined_refl)
next
  case (Cons i "is")
  note prems = Cons.prems
  have i: "i < 6" "unat (of_nat i :: u8) = i" using prems(2) by (simp_all add: unat_of_nat)
  show ?case
  proof (cases "target ! i")
    case False
    then show ?thesis using Cons by (simp add: r_def A_def)
  next
    case True
    let ?E = "{524288 * i ..< 524288 * i + 524288}"
    let ?e = "ProgramEntry_Erase d (of_nat i) s"
    have E: "entry_region (of_nat i) = ?E" using i by (auto simp: entry_region_def)
    have none: "fst ?e = None"
      using erase_loop_works [OF prems(1), of "of_nat i" 0] i by (simp add: ProgramEntry_Erase_def)
    have e: "confined ?E s (snd ?e)" "\<forall>k \<in> ?E. mem (snd ?e) k = 0xFF"
      using entry_erase [OF prems(1), of "of_nat i"] i none by (simp_all add: E)
    have r: "r (i # is) s = r is (snd ?e)" using True none by (cases ?e) (simp add: r_def)
    have ih: "fst (r is (snd ?e)) = None" "confined (A is) (snd ?e) (snd (r is (snd ?e)))"
      "\<forall>k \<in> A is. mem (snd (r is (snd ?e))) k = 0xFF"
      using Cons.IH [OF confined_ok [OF e(1)]] prems(2,3) by simp_all
    have A: "A (i # is) = ?E \<union> A is" using True by (simp add: A_def)
    have "mem (snd (r is (snd ?e))) k = 0xFF" if "k \<in> A (i # is)" for k
    proof (cases "k \<in> A is")
      case False
      then show ?thesis using that e(2) confined_mem [OF ih(2) False] by (auto simp: A)
    qed (use ih(3) in simp)
    moreover have "confined (A (i # is)) s (snd (r is (snd ?e)))"
      unfolding A by (rule confined_trans [OF confined_mono [OF e(1)] confined_mono [OF ih(2)]]) auto
    ultimately show ?thesis using ih(1) by (simp add: r)
  qed
qed

lemma program_targets_works:
  assumes "ok s" and "set is \<subseteq> {..<6}" and "distinct is" and le: "offset + length buffer \<le> 524288" "offset < 524288"
    and "\<forall>k \<in> blocks (targets target is) offset (length buffer). mem s k = 0xFF"
  defines "r \<equiv> \<lambda>is s. program_targets d target buffer offset is s"
    and "A \<equiv> \<lambda>is. blocks (targets target is) offset (length buffer)"
  shows "fst (r is s) = [] \<and> confined (A is) s (snd (r is s))
    \<and> (\<forall>i \<in> targets target is. cells (mem (snd (r is s))) (524288 * i + offset) (length buffer) = buffer)"
  using assms(1-3,6)
proof (induction "is" arbitrary: s)
  case Nil
  then show ?case by (simp add: r_def A_def confined_refl)
next
  case (Cons i "is")
  note prems = Cons.prems
  show ?case
  proof (cases "target ! i")
    case False
    then show ?thesis using Cons by (simp add: r_def A_def)
  next
    case True
    have i: "i < 6" "i \<notin> targets target is" using prems(2,3) by (auto simp: targets_def)
    let ?a = "InFlashOffset (of_nat i) + of_nat offset :: u32"
    let ?E = "{524288 * i + offset ..< 524288 * i + offset + length buffer}"
    let ?p = "fl_Program d ?a buffer s"
    have a: "unat ?a = 524288 * i + offset" using slot_part_offset i(1) le(2) by simp
    have sz: "unat ?a + length buffer \<le> flash_size" "unat ?a < flash_size"
      using i(1) le by (simp_all add: a flash_size_def)
    have nb: "fst ?p = NotBusy" using prems(4) True by (intro program_works [OF prems(1) sz]) (simp add: a)
    have p: "confined ?E s (snd ?p)" using program_confined [OF prems(1) sz] by (simp add: a)
    have b: "cells (mem (snd ?p)) (524288 * i + offset) (length buffer) = buffer"
      using program_done [OF prems(1) sz nb] by (simp add: a)
    have apart: "?E \<inter> A is = {}" unfolding A_def using le i(2) by (intro blocks_apart) auto
    have "mem (snd ?p) k = 0xFF" if k: "k \<in> A is" for k
    proof -
      have "k \<notin> ?E" using k apart by auto
      then show ?thesis using confined_mem [OF p] prems(4) True k by (simp add: A_def)
    qed
    then have ih: "fst (r is (snd ?p)) = []" "confined (A is) (snd ?p) (snd (r is (snd ?p)))"
      "\<forall>i \<in> targets target is. cells (mem (snd (r is (snd ?p)))) (524288 * i + offset) (length buffer) = buffer"
      using Cons.IH [OF confined_ok [OF p]] prems(2,3) by (simp_all add: A_def)
    have r: "r (i # is) s = r is (snd ?p)" using True nb by (simp add: r_def case_prod_beta Let_def)
    have "cells (mem (snd (r is (snd ?p)))) (524288 * i + offset) (length buffer) = buffer"
      using cells_confined [OF ih(2) apart] b by simp
    moreover have "confined (A (i # is)) s (snd (r is (snd ?p)))"
      using True by (intro confined_trans [OF confined_mono [OF p] confined_mono [OF ih(2)]]) (auto simp: A_def)
    ultimately show ?thesis using ih(1,3) True by (simp add: r)
  qed
qed

end

lemma part_aligned:
  assumes "i < 6" and "j < 512"
  shows "FlashBase + (InFlashOffset (of_nat i) + of_nat (1024 * j)) AND 3 = 0"
proof -
  have "unat (FlashBase + (InFlashOffset (of_nat i) + of_nat (1024 * j))) = 0x84000000 + (524288 * i + 1024 * j)"
    using slot_part_offset [OF assms(1), of "1024 * j"] assms by (subst unat_add_small) (simp_all add: FlashBase_def)
  also have "\<dots> = 4 * (0x21000000 + 131072 * i + 256 * j)" by simp
  finally show ?thesis unfolding aligned4 by (simp only: mod_mult_self1_is_0)
qed

lemma entry_index: "unat (i :: u8) < 6 \<Longrightarrow> \<exists>n < 6. i = of_nat n"
  by (intro exI [of _ "unat i"]) simp

context working_flash_driver
begin

text \<open>
  The parts below \<open>offset\<close> are copied and nothing else has changed since the targets were erased, in
  state \<open>s1\<close>: the targets may then even be among the sources.
\<close>

definition copied :: "bytes \<Rightarrow> nat set \<Rightarrow> nat \<Rightarrow> 'a \<Rightarrow> 'a \<Rightarrow> bool" where
  "copied prog T n s1 s \<longleftrightarrow> confined (blocks T 0 n) s1 s
     \<and> (\<forall>i \<in> T. cells (mem s) (524288 * i) n = take n prog)"

lemma source_part:
  assumes "ok s1" and "confined (blocks T 0 (1024 * j)) s1 s" and "j < 512" and "unat i < 6"
  shows "flash_bytes d (InFlashOffset i + of_nat (1024 * j)) 1024 s
    = sub_at (1024 * j) 1024 (ProgramEntry_WholeEntry d i s1)"
proof -
  obtain n where n: "n < 6" "i = of_nat n" using entry_index [OF assms(4)] by blast
  have "{524288 * n + 1024 * j ..< 524288 * n + 1024 * j + 1024} \<inter> blocks T 0 (1024 * j) = {}"
    using assms(3) by (intro blocks_apart) auto
  then show ?thesis
    using assms(3) n cells_confined [OF assms(2)] slot_part_offset [OF n(1), of "1024 * j"]
    by (simp add: bytes_cells [OF confined_ok [OF assms(2)]] whole_entry [OF assms(1) n(1)] sub_cells flash_size_def)
qed

lemma vote_part:
  assumes "ok s1" and "confined (blocks T 0 (1024 * j)) s1 s" and "j < 512" and "length buffer = 1024"
    and "length prog = 524288" "survives prog (map (\<lambda>i. ProgramEntry_WholeEntry d i s1) (selected_slots source))"
  defines "parts \<equiv> map (\<lambda>i. flash_span d (InFlashOffset i + of_nat (1024 * j)) 1024 s) (selected_slots source)"
  shows "CorrectBuffer3 \<lparr>s_addr = 0, s_data = buffer\<rparr> (parts ! 0) (parts ! 1) (parts ! 2)
    = (True, sub_at (1024 * j) 1024 prog)"
proof -
  obtain x y z where xyz: "selected_slots source = [x, y, z]" and six: "\<forall>i \<in> {x, y, z}. unat i < 6"
    using selected_slots_three [of source] by blast
  have part: "s_data (flash_span d (InFlashOffset i + of_nat (1024 * j)) 1024 s)
      = sub_at (1024 * j) 1024 (ProgramEntry_WholeEntry d i s1)" if "i \<in> {x, y, z}" for i
    using source_part [OF assms(1-3), of i] six that by (auto simp: flash_span_def)
  have aligned: "FlashBase + (InFlashOffset i + of_nat (1024 * j)) AND 3 = 0" if "i \<in> {x, y, z}" for i
    using part_aligned [OF _ assms(3)] entry_index six that by metis
  have len: "\<forall>xs \<in> set (map (\<lambda>i. ProgramEntry_WholeEntry d i s1) (selected_slots source)). length xs = length prog"
    using assms(5) by (auto simp: ProgramEntry_WholeEntry_def flash_bytes_def ProgramEntry_Size_def)
  have "survives (sub_at (1024 * j) 1024 prog)
      (map (sub_at (1024 * j) 1024) (map (\<lambda>i. ProgramEntry_WholeEntry d i s1) (selected_slots source)))"
    using assms(3,5) by (intro survives_sub_at [OF assms(6) _ len]) simp
  also have "map (sub_at (1024 * j) 1024) (map (\<lambda>i. ProgramEntry_WholeEntry d i s1) (selected_slots source))
      = map s_data parts"
    using part by (simp add: parts_def xyz)
  finally have "survives (sub_at (1024 * j) 1024 prog) (map s_data parts)" .
  then show ?thesis
    using assms(3-5) aligned
    by (intro CorrectBuffer3_repairs)
      (simp_all add: parts_def xyz flash_span_def span_len_def flash_bytes_def IsAligned4_def survives_def)
qed

lemma copy_parts_works:
  assumes "ok s1" and prog: "length prog = 524288"
    "survives prog (map (\<lambda>i. ProgramEntry_WholeEntry d i s1) (selected_slots source))"
    and FF: "\<forall>k \<in> blocks (targets target [0..<6]) 0 524288. mem s1 k = 0xFF"
    and "copied prog (targets target [0..<6]) (1024 * j) s1 s" and "j \<le> 512" and "length buffer = 1024"
  shows "fst (copy_parts d (selected_slots source) target buffer (1024 * j) s) = []
    \<and> copied prog (targets target [0..<6]) 524288 s1
        (snd (copy_parts d (selected_slots source) target buffer (1024 * j) s))"
  using assms(5-7)
proof (induction "512 - j" arbitrary: j s buffer)
  case 0
  then show ?case by (subst (1 2) copy_parts.simps) (simp add: ProgramEntry_Size_def)
next
  case (Suc n)
  then have j: "j < 512" by simp
  let ?T = "targets target [0..<6]"
  let ?buffer = "sub_at (1024 * j) 1024 prog"
  have c: "confined (blocks ?T 0 (1024 * j)) s1 s" "\<forall>i \<in> ?T. cells (mem s) (524288 * i) (1024 * j) = take (1024 * j) prog"
    using Suc.prems(1) by (simp_all add: copied_def)
  have len: "length ?buffer = 1024" using prog(1) j by simp
  let ?p = "program_targets d target ?buffer (1024 * j) [0..<6] s"
  have sub: "blocks ?T (1024 * j) 1024 \<subseteq> blocks ?T 0 524288" using j by (force simp: blocks_def)
  have apart: "{524288 * i + 1024 * j ..< 524288 * i + 1024 * j + 1024} \<inter> blocks ?T 0 (1024 * j) = {}" for i
    using j by (intro blocks_apart) auto
  have "mem s k = 0xFF" if k: "k \<in> blocks ?T (1024 * j) 1024" for k
  proof -
    obtain i where "i \<in> ?T" "k \<in> {524288 * i + 1024 * j ..< 524288 * i + 1024 * j + 1024}"
      using k by (auto simp: blocks_def)
    then have "k \<notin> blocks ?T 0 (1024 * j)" using apart [of i] by blast
    then show ?thesis using confined_mem [OF c(1)] FF k sub by auto
  qed
  then have p: "fst ?p = []" "confined (blocks ?T (1024 * j) 1024) s (snd ?p)"
    "\<forall>i \<in> ?T. cells (mem (snd ?p)) (524288 * i + 1024 * j) 1024 = ?buffer"
    using program_targets_works [OF confined_ok [OF c(1)], of "[0..<6]" "1024 * j" ?buffer target] j len
    by (simp_all add: atLeast0LessThan)
  have "cells (mem (snd ?p)) (524288 * i) (1024 * Suc j) = take (1024 * Suc j) prog" if i: "i \<in> ?T" for i
  proof -
    have "{524288 * i + 0 ..< 524288 * i + 0 + 1024 * j} \<inter> blocks ?T (1024 * j) 1024 = {}"
      using j by (intro blocks_apart) auto
    then have "cells (mem (snd ?p)) (524288 * i) (1024 * j) = take (1024 * j) prog"
      using cells_confined [OF p(2)] c(2) i by simp
    then show ?thesis
      using cells_append [of "mem (snd ?p)" "524288 * i" "1024 * j" 1024] p(3) i take_sub_at [of "1024 * j" prog 1024]
      by (simp add: add.commute)
  qed
  moreover have "confined (blocks ?T 0 (1024 * Suc j)) s1 (snd ?p)"
    by (rule confined_trans [OF confined_mono [OF c(1)] confined_mono [OF p(2)]]) (force simp: blocks_def)+
  ultimately have "copied prog ?T (1024 * Suc j) s1 (snd ?p)" by (simp add: copied_def)
  then have ih: "fst (copy_parts d (selected_slots source) target ?buffer (1024 * Suc j) (snd ?p)) = []"
    "copied prog ?T 524288 s1 (snd (copy_parts d (selected_slots source) target ?buffer (1024 * Suc j) (snd ?p)))"
    using Suc.hyps(1) [of "Suc j" "snd ?p" ?buffer] Suc.hyps(2) j len by simp_all
  have part: "min CopyBufferSize (unat ProgramEntry_Size - 1024 * j) = 1024" "1024 * j < unat ProgramEntry_Size"
    "1024 * j + CopyBufferSize = 1024 * Suc j"
    using j by (simp_all add: CopyBufferSize_def ProgramEntry_Size_def)
  have "copy_parts d (selected_slots source) target buffer (1024 * j) s
      = copy_parts d (selected_slots source) target ?buffer (1024 * Suc j) (snd ?p)"
    using p(1)
    by (subst copy_parts.simps)
      (simp only: part Let_def vote_part [OF assms(1) c(1) j Suc.prems(3) prog] snd_conv EntriesCount_def
        case_prod_beta if_True append_Nil prod.collapse)
  then show ?case using ih by simp
qed

end

section \<open>The copied program\<close>

context working_flash_driver
begin

lemma iteration_copies:
  fixes target :: "bool list"
  assumes "ok s" and "length buffer = 1024" and "length prog = 524288"
  defines "s1 \<equiv> snd (erase_targets d target [0..<6] s)"
  assumes "survives prog (map (\<lambda>i. ProgramEntry_WholeEntry d i s1) (selected_slots source))"
  shows "\<exists>t. CopyBootSlots_Iteration d source target buffer s
      = (Iteration_Finished, [plain_reply APID_CopyBootTable 0 [0]], t)
    \<and> (\<forall>i < 6. ProgramEntry_WholeEntry d (of_nat i) t = (if target ! i then prog else ProgramEntry_WholeEntry d (of_nat i) s))"
proof -
  let ?T = "targets target [0..<6]"
  have e: "fst (erase_targets d target [0..<6] s) = None" "confined (blocks ?T 0 524288) s s1"
    "\<forall>k \<in> blocks ?T 0 524288. mem s1 k = 0xFF"
    using erase_targets_works [OF assms(1), of "[0..<6]" target] by (simp_all add: s1_def atLeast0LessThan)
  have "copied prog ?T (1024 * 0) s1 s1"
    using confined_refl [OF confined_ok [OF e(2)]] by (simp add: copied_def cells_def)
  then have c: "fst (copy_parts d (selected_slots source) target buffer 0 s1) = []"
    "copied prog ?T 524288 s1 (snd (copy_parts d (selected_slots source) target buffer 0 s1))"
    using copy_parts_works [OF confined_ok [OF e(2)] assms(3,5) e(3), of 0 s1 buffer] assms(2) by simp_all
  define t where "t = snd (copy_parts d (selected_slots source) target buffer 0 s1)"
  have t: "confined (blocks ?T 0 524288) s t" "\<forall>i \<in> ?T. cells (mem t) (524288 * i) 524288 = prog"
    using confined_trans [OF e(2)] c(2) assms(3) by (simp_all add: copied_def t_def)
  have "CopyBootSlots_Iteration d source target buffer s
      = (Iteration_Finished, [plain_reply APID_CopyBootTable 0 [0]], t)"
    using e(1) c(1) by (simp add: CopyBootSlots_Iteration_def EntriesCount_def case_prod_beta t_def s1_def)
  moreover have "ProgramEntry_WholeEntry d (of_nat i) t = (if target ! i then prog else ProgramEntry_WholeEntry d (of_nat i) s)"
    if i: "i < 6" for i
  proof (cases "target ! i")
    case True
    then have "i \<in> ?T" using i by (simp add: targets_def)
    then show ?thesis using t(2) True by (simp add: whole_entry [OF confined_ok [OF t(1)] i])
  next
    case False
    then have "{524288 * i + 0 ..< 524288 * i + 0 + 524288} \<inter> blocks ?T 0 524288 = {}"
      by (intro blocks_apart) (auto simp: targets_def)
    then show ?thesis
      using cells_confined [OF t(1)] False by (simp add: whole_entry [OF confined_ok [OF t(1)] i] whole_entry [OF assms(1) i])
  qed
  ultimately show ?thesis by blast
qed

lemma erasing_keeps_sources:
  assumes "ok s" and "unat i < 6" and "\<not> target ! unat i"
  shows "ProgramEntry_WholeEntry d i (snd (erase_targets d target [0..<6] s)) = ProgramEntry_WholeEntry d i s"
proof -
  let ?T = "targets target [0..<6]"
  obtain n where n: "n < 6" "i = of_nat n" "unat i = n"
    using entry_index [OF assms(2)] by (auto simp: unat_of_nat)
  have e: "confined (blocks ?T 0 524288) s (snd (erase_targets d target [0..<6] s))"
    using erase_targets_works [OF assms(1), of "[0..<6]" target] by (simp add: atLeast0LessThan)
  have "{524288 * n + 0 ..< 524288 * n + 0 + 524288} \<inter> blocks ?T 0 524288 = {}"
    using assms(3) n(3) by (intro blocks_apart) (auto simp: targets_def)
  then show ?thesis
    using cells_confined [OF e] by (simp add: n(2) whole_entry [OF confined_ok [OF e] n(1)] whole_entry [OF assms(1) n(1)])
qed

lemma iteration_copies_sources:
  assumes "ok s" and "length buffer = 1024" and "length prog = 524288"
    and "survives prog (map (\<lambda>i. ProgramEntry_WholeEntry d i s) (selected_slots source))"
    and "\<forall>i \<in> set (selected_slots source). \<not> target ! unat i"
  shows "\<exists>t. CopyBootSlots_Iteration d source target buffer s
      = (Iteration_Finished, [plain_reply APID_CopyBootTable 0 [0]], t)
    \<and> (\<forall>i < 6. ProgramEntry_WholeEntry d (of_nat i) t = (if target ! i then prog else ProgramEntry_WholeEntry d (of_nat i) s))"
proof -
  obtain x y z where "selected_slots source = [x, y, z]" "unat x < 6" "unat y < 6" "unat z < 6"
    by (rule selected_slots_three [of source])
  then have "map (\<lambda>i. ProgramEntry_WholeEntry d i (snd (erase_targets d target [0..<6] s))) (selected_slots source)
      = map (\<lambda>i. ProgramEntry_WholeEntry d i s) (selected_slots source)"
    using assms(5) erasing_keeps_sources [OF assms(1)] by simp
  then show ?thesis using iteration_copies [OF assms(1-3), of target source] assms(4) by (simp only:)
qed

text \<open>An entry that is erased and then outvotes the sources stays erased.\<close>

lemma iteration_copies_erased:
  assumes "ok s" and "length buffer = 1024" and "target ! unat i"
    and "selected_slots source = [x, i, i]" and "unat x < 6" "unat i < 6"
  shows "\<exists>t. CopyBootSlots_Iteration d source target buffer s
      = (Iteration_Finished, [plain_reply APID_CopyBootTable 0 [0]], t)
    \<and> ProgramEntry_WholeEntry d i t = replicate 524288 0xFF"
proof -
  let ?T = "targets target [0..<6]" and ?s1 = "snd (erase_targets d target [0..<6] s)" and ?prog = "replicate 524288 (0xFF :: u8)"
  obtain n where n: "n < 6" "i = of_nat n" "unat i = n"
    using entry_index [OF assms(6)] by (auto simp: unat_of_nat)
  have e: "confined (blocks ?T 0 524288) s ?s1" "\<forall>k \<in> blocks ?T 0 524288. mem ?s1 k = 0xFF"
    using erase_targets_works [OF assms(1), of "[0..<6]" target] by (simp_all add: atLeast0LessThan)
  have "n \<in> ?T" using assms(3) n by (simp add: targets_def)
  then have "mem ?s1 (524288 * n + k) = 0xFF" if "k < 524288" for k
    using e(2) in_blocks [of k 0 524288 n ?T] that by simp
  then have "cells (mem ?s1) (524288 * n) 524288 = ?prog"
    by (intro nth_equalityI) (simp_all add: cells_def)
  then have w: "ProgramEntry_WholeEntry d i ?s1 = ?prog" using whole_entry [OF confined_ok [OF e(1)] n(1)] n(2) by simp
  have "survives ?prog (map (\<lambda>i. ProgramEntry_WholeEntry d i ?s1) (selected_slots source))"
    by (simp add: survives_def assms(4) w agree_def)
  then show ?thesis using iteration_copies [OF assms(1,2), of ?prog target source] assms(3) n by auto
qed

end

text \<open>
  C19. Copying boot slots delivers: when every bit of a program, whole with its header, survives in two of
  the three source entries and no source is a target, then the experiment ends with success, every
  target entry holds the program, and all other entries, the sources included, are as before. The
  flash has to carry out its operations.
\<close>

theorem copy_boot_slots_delivers:
  assumes "working_nor_device ok mem l" and "ok s" and "length copyBuffer = CopyBufferSize"
    and "length prog = 524288"
    and "survives prog (map (\<lambda>i. ProgramEntry_WholeEntry (FlashDriver l polls) i s) (selected_slots sourceEntries))"
    and "\<forall>i \<in> set (selected_slots sourceEntries). \<not> targetEntries ! unat i"
    and "unat i < 6"
  shows "let d = FlashDriver l polls;
             (result, frames, t) = CopyBootSlots_Iteration d sourceEntries targetEntries copyBuffer s
    in result = Iteration_Finished \<and> frames = [plain_reply APID_CopyBootTable 0 [0]]
      \<and> ProgramEntry_WholeEntry d i t
        = (if targetEntries ! unat i then prog else ProgramEntry_WholeEntry d i s)"
proof -
  obtain n where n: "n < 6" "i = of_nat n" "unat i = n"
    using entry_index [OF assms(7)] by (auto simp: unat_of_nat)
  obtain t where t: "CopyBootSlots_Iteration (FlashDriver l polls) sourceEntries targetEntries copyBuffer s
      = (Iteration_Finished, [plain_reply APID_CopyBootTable 0 [0]], t)"
    "ProgramEntry_WholeEntry (FlashDriver l polls) i t
      = (if targetEntries ! n then prog else ProgramEntry_WholeEntry (FlashDriver l polls) i s)"
    using working_flash_driver.iteration_copies_sources
        [OF working_flash_keeps [OF assms(1)] assms(2) assms(3) [unfolded CopyBufferSize_def] assms(4-6)] n(1,2)
    by blast
  then show ?thesis by (simp add: n(3))
qed

lemma selected_example: "selected_slots (BootEntriesSelector 0b111) = [0, 1, 2]"
  by (simp add: selected_slots_mask example_slots)

theorem copy_boot_slots_delivers_witness:
  "case CopyBootSlots_Iteration example_driver (BootEntriesSelector 0b111) (BootEntriesSelector 0b100000)
      (replicate 1024 0) (example_damaged(5 * 524288 := 0)) of
    (result, frames, t) \<Rightarrow> result = Iteration_Finished \<and> ProgramEntry_WholeEntry example_driver 5 t = example_program"
proof -
  let ?m = "example_damaged(5 * 524288 := 0)"
  have "cells ?m 0 524288 = example_program" "cells ?m 1048576 524288 = example_program"
    by (simp_all add: example_program_def cells_def example_damaged_def)
  then have surv: "survives example_program
      (map (\<lambda>i. ProgramEntry_WholeEntry example_driver i ?m) (selected_slots (BootEntriesSelector 0b111)))"
    by (simp add: survives_def selected_example example_entry agree_def)
  have target: "BootEntriesSelector 0b100000 = [False, False, False, False, False, True]"
    by (simp add: BootEntriesSelector_def EntriesCount_def upt_rec)
  have free: "\<forall>i \<in> set (selected_slots (BootEntriesSelector 0b111)). \<not> BootEntriesSelector 0b100000 ! unat i"
    by (simp add: selected_example target)
  show ?thesis
    using copy_boot_slots_delivers [OF nor_lld_working TrueI _ _ surv [unfolded example_driver_def] free,
        of "replicate 1024 0" 5]
    by (simp add: example_driver_def CopyBufferSize_def example_program_def target Let_def case_prod_beta)
qed

text \<open>
  C20. A mask is counted over its eight bits but used over six. The request to copy from the slots 0xC2
  into entry 0 is accepted, although it names one entry only; the two source slots that are missing
  are taken to be entry 0, the target, which has been erased by then and outvotes the source. The
  program in entry 0 is destroyed, and success is reported.
\<close>

theorem copy_boot_slots_destroys:
  assumes "working_nor_device ok mem l" and "ok s" and "length copyBuffer = CopyBufferSize" and "\<not> ct_InProgress c"
  shows "let d = FlashDriver l polls;
             (x', c', replies) = PerformCopyBootSlotsExperiment_Handle [correlationId, 0xC2, 0x01] x c;
             (result, frames, t) = CopyBootSlots_Iteration d (xs_sourceEntries x') (xs_targetEntries x') copyBuffer s
    in replies = [correlated_reply APID_Operation 0 correlationId [0]]
      \<and> result = Iteration_Finished \<and> frames = [plain_reply APID_CopyBootTable 0 [0]]
      \<and> ProgramEntry_WholeEntry d 0 t = replicate 524288 0xFF"
proof -
  let ?source = "BootEntriesSelector 0xC2" and ?target = "BootEntriesSelector 0x01"
  have handle: "PerformCopyBootSlotsExperiment_Handle [correlationId, 0xC2, 0x01] x c
      = (x\<lparr>xs_sourceEntries := ?source, xs_targetEntries := ?target\<rparr>,
         c\<lparr>ct_requestedExperiment := Some CopyBootSlots_Code\<rparr>,
         [correlated_reply APID_Operation 0 correlationId [0]])"
    using assms(4)
    by (simp add: PerformCopyBootSlotsExperiment_Handle_def RequestExperiment_def Copy_SetupEntries_def left_simps
        taking_def Let_def case_prod_beta EntriesCount_def popcount_def upt_rec)
  have slots: "selected_slots ?source = [1, 0, 0]"
    by (simp add: selected_slots_def BootEntriesSelector_def EntriesCount_def upt_rec)
  have target: "?target ! unat (0 :: u8)" by (simp add: BootEntriesSelector_def EntriesCount_def upt_rec)
  obtain t where "CopyBootSlots_Iteration (FlashDriver l polls) ?source ?target copyBuffer s
      = (Iteration_Finished, [plain_reply APID_CopyBootTable 0 [0]], t)"
    "ProgramEntry_WholeEntry (FlashDriver l polls) 0 t = replicate 524288 0xFF"
    using working_flash_driver.iteration_copies_erased
        [OF working_flash_keeps [OF assms(1)] assms(2) assms(3) [unfolded CopyBufferSize_def] target slots]
    by auto
  then show ?thesis by (simp add: handle Let_def)
qed

theorem copy_boot_slots_destroys_witness:
  "\<forall>x. let (x', c', replies) = PerformCopyBootSlotsExperiment_Handle [7, 0xC2, 0x01] x (ExperimentController_new ());
       (result, frames, t) = CopyBootSlots_Iteration example_driver (xs_sourceEntries x') (xs_targetEntries x')
         (replicate 1024 0) (\<lambda>_. 0)
   in ProgramEntry_WholeEntry example_driver 0 (\<lambda>_. 0) ! 0 = 0 \<and> ProgramEntry_WholeEntry example_driver 0 t ! 0 = 0xFF"
  using copy_boot_slots_destroys [OF nor_lld_working TrueI, of "replicate 1024 0" "ExperimentController_new ()" 0 7
      _ "\<lambda>_. 0"] example_entry [of 0 "\<lambda>_. 0"]
  by (auto simp: ExperimentController_new_def example_driver_def CopyBufferSize_def Let_def case_prod_beta cells_def)

text \<open>Once the targets are erased the experiment ends with success, whatever fails in programming.\<close>

lemma copy_hides_errors:
  assumes "fst (erase_targets d targetEntries [0..<EntriesCount] s) = None"
  shows "fst (CopyBootSlots_Iteration d sourceEntries targetEntries copyBuffer s) = Iteration_Finished
    \<and> last (fst (snd (CopyBootSlots_Iteration d sourceEntries targetEntries copyBuffer s)))
        = plain_reply APID_CopyBootTable 0 [0]"
  using assms by (cases "erase_targets d targetEntries [0..<EntriesCount] s")
    (simp add: CopyBootSlots_Iteration_def case_prod_beta Let_def)

end
