(* ===== verification/Comm_Driver.thy ===== *)
theory Comm_Driver
  imports Telecommunication I2c_Bus Error_Counter Bit_Writer
begin

text \<open>
  The driver of the transceiver (libs/drivers/comm): commands and requests on the I2C bus, sending of
  frames, telemetry, and polling of the receiver. Semaphores, clock and delays are functions on the
  world of the bus; a result reported to the error counter of the device is a member of a list (what
  the counter does with it is in Error_Counter.thy). Local arrays start as zeros here, and are
  not used before a read has filled them; the one value that is, is an argument.
\<close>

section \<open>Data (comm.hpp, Frame.hpp, Beacon.hpp)\<close>

definition TransmitterBufferSize :: nat where "TransmitterBufferSize = 40"
definition ReceiverBufferSize :: nat where "ReceiverBufferSize = 64"
definition PrefferedBufferSize :: nat where "PrefferedBufferSize = MaxDownlinkFrameSize + 20"

datatype ReceiverCommand =
    RC_SoftReset | RC_HardReset | RC_ResetWatchdog | RC_GetUptime | RC_GetFrameCount | RC_GetFrame
  | RC_RemoveFrame | RC_GetTelemetry

primrec num_ReceiverCommand :: "ReceiverCommand \<Rightarrow> u8" where
  "num_ReceiverCommand RC_SoftReset = 0xAA"
| "num_ReceiverCommand RC_HardReset = 0xAB"
| "num_ReceiverCommand RC_ResetWatchdog = 0xCC"
| "num_ReceiverCommand RC_GetUptime = 0x40"
| "num_ReceiverCommand RC_GetFrameCount = 0x21"
| "num_ReceiverCommand RC_GetFrame = 0x22"
| "num_ReceiverCommand RC_RemoveFrame = 0x24"
| "num_ReceiverCommand RC_GetTelemetry = 0x1A"

datatype TransmitterCommand =
    TC_SoftReset | TC_HardReset | TC_ResetWatchdog | TC_SendFrame | TC_GetTelemetryLastTransmission
  | TC_GetTelemetryInstant | TC_SetBeacon | TC_ClearBeacon | TC_SetIdleState | TC_SetBitRate
  | TC_GetUptime | TC_GetState

primrec num_TransmitterCommand :: "TransmitterCommand \<Rightarrow> u8" where
  "num_TransmitterCommand TC_SoftReset = 0xAA"
| "num_TransmitterCommand TC_HardReset = 0xAB"
| "num_TransmitterCommand TC_ResetWatchdog = 0xCC"
| "num_TransmitterCommand TC_SendFrame = 0x10"
| "num_TransmitterCommand TC_GetTelemetryLastTransmission = 0x26"
| "num_TransmitterCommand TC_GetTelemetryInstant = 0x25"
| "num_TransmitterCommand TC_SetBeacon = 0x14"
| "num_TransmitterCommand TC_ClearBeacon = 0x1f"
| "num_TransmitterCommand TC_SetIdleState = 0x24"
| "num_TransmitterCommand TC_SetBitRate = 0x28"
| "num_TransmitterCommand TC_GetUptime = 0x40"
| "num_TransmitterCommand TC_GetState = 0x41"

datatype comm_address = Addr_Receiver | Addr_Transmitter

primrec num_comm_address :: "comm_address \<Rightarrow> u8" where
  "num_comm_address Addr_Receiver = 0x60"
| "num_comm_address Addr_Transmitter = 0x61"

datatype Bitrate = Comm1200bps | Comm2400bps | Comm4800bps | Comm9600bps

primrec num_Bitrate :: "Bitrate \<Rightarrow> u8" where
  "num_Bitrate Comm1200bps = 1"
| "num_Bitrate Comm2400bps = 2"
| "num_Bitrate Comm4800bps = 4"
| "num_Bitrate Comm9600bps = 8"

record comm_frame =
  fr_doppler :: u16
  fr_rssi :: u16
  fr_fullFrameSize :: u16
  fr_content :: bytes

definition Frame_empty :: comm_frame where
  "Frame_empty = \<lparr>fr_doppler = 0, fr_rssi = 0, fr_fullFrameSize = 0, fr_content = []\<rparr>"

definition IsDopplerValid :: "comm_frame \<Rightarrow> bool" where
  "IsDopplerValid f \<longleftrightarrow> fr_doppler f AND 0xf000 = 0"

definition IsRssiValid :: "comm_frame \<Rightarrow> bool" where
  "IsRssiValid f \<longleftrightarrow> fr_rssi f AND 0xf000 = 0"

definition IsSizeValid :: "comm_frame \<Rightarrow> bool" where
  "IsSizeValid f \<longleftrightarrow> fr_fullFrameSize f \<le> of_nat MaxDownlinkFrameSize"

definition IsComplete :: "comm_frame \<Rightarrow> bool" where
  "IsComplete f \<longleftrightarrow> fr_fullFrameSize f = of_nat (length (fr_content f))"

definition Frame_Verify :: "comm_frame \<Rightarrow> bool" where
  "Frame_Verify f \<longleftrightarrow> IsDopplerValid f \<and> IsRssiValid f \<and> IsSizeValid f \<and> IsComplete f"

record comm_beacon =
  be_period :: int
  be_payload :: bytes

section \<open>The driver and its world\<close>

text \<open>\<open>cm_handled\<close>: the frames given to the handler so far.\<close>

record 's comm =
  cm_world :: 's
  cm_reports :: "bool list"
  cm_lastSend :: "(int \<times> u8) option"
  cm_lastFrameStatus :: "u16 \<times> u16"
  cm_handled :: "comm_frame list"

record 's comm_env =
  ce_low :: "'s II2CBus"
  ce_taken :: "u8 \<Rightarrow> 's \<Rightarrow> bool"
  ce_SleepTask :: "int \<Rightarrow> 's \<Rightarrow> 's"
  ce_GetUptime :: "'s \<Rightarrow> int"

definition transmitterSemaphoreId :: u8 where "transmitterSemaphoreId = 1"
definition receiverSemaphoreId :: u8 where "receiverSemaphoreId = 2"

definition comm_semaphore :: "comm_address \<Rightarrow> u8" where
  "comm_semaphore address = (if address = Addr_Receiver then receiverSemaphoreId else transmitterSemaphoreId)"

definition CommObject_new :: "'s \<Rightarrow> 's comm" where
  "CommObject_new w =
     \<lparr>cm_world = w, cm_reports = [], cm_lastSend = None, cm_lastFrameStatus = (0, 0), cm_handled = []\<rparr>"

text \<open>The destructor of \<open>ErrorReporter\<close>, and a report without it.\<close>

definition comm_report :: "bool \<Rightarrow> 's comm \<Rightarrow> 's comm" where
  "comm_report flag c = c\<lparr>cm_reports := cm_reports c @ [flag]\<rparr>"

definition reporting :: "(aggregated \<Rightarrow> 's comm \<Rightarrow> 'v \<times> aggregated \<times> 's comm) \<Rightarrow> 's comm \<Rightarrow> 'v \<times> 's comm" where
  "reporting body c = (let (v, n, c) = body 0 c in (v, comm_report (GetAggregatedResult n) c))"

definition on_bus :: "('s \<Rightarrow> 'v \<times> 's) \<Rightarrow> 's comm \<Rightarrow> 'v \<times> 's comm" where
  "on_bus f c = (let (v, w) = f (cm_world c) in (v, c\<lparr>cm_world := w\<rparr>))"

section \<open>Commands and requests\<close>

definition SendCommand ::
  "'s comm_env \<Rightarrow> comm_address \<Rightarrow> u8 \<Rightarrow> aggregated \<Rightarrow> 's comm \<Rightarrow> bool \<times> aggregated \<times> 's comm" where
  "SendCommand e address command n c =
     (if \<not> ce_taken e (comm_semaphore address) (cm_world c) then (False, Aggregated_Failure n, c)
      else
        (let (result, c) = on_bus (bus_Write (ce_low e) (num_comm_address address) [command]) c;
             (status, n) = report_bool (result = I2C_OK) n
         in (status, n, c)))"

definition SendBufferWithResponse ::
  "'s comm_env \<Rightarrow> comm_address \<Rightarrow> bytes \<Rightarrow> bytes \<Rightarrow> aggregated \<Rightarrow> 's comm
     \<Rightarrow> (bool \<times> bytes) \<times> aggregated \<times> 's comm" where
  "SendBufferWithResponse e address inputBuffer outBuffer n c =
     (if \<not> ce_taken e (comm_semaphore address) (cm_world c) then ((False, outBuffer), Aggregated_Failure n, c)
      else if inputBuffer = [] then ((False, outBuffer), n, c)
      else
        (let (result, c) = on_bus (bus_Write (ce_low e) (num_comm_address address) inputBuffer) c
         in if result \<noteq> I2C_OK then ((False, outBuffer), Aggregated_Failure n, c)
            else
              (let (_, c) = on_bus (\<lambda>w. ((), ce_SleepTask e 2 w)) c;
                   ((result, outBuffer), c) = on_bus (bus_Read (ce_low e) (num_comm_address address) outBuffer) c
               in if result \<noteq> I2C_OK then ((False, outBuffer), Aggregated_Failure n, c)
                  else ((True, outBuffer), n, c))))"

definition SendCommandWithResponse ::
  "'s comm_env \<Rightarrow> comm_address \<Rightarrow> u8 \<Rightarrow> bytes \<Rightarrow> aggregated \<Rightarrow> 's comm
     \<Rightarrow> (bool \<times> bytes) \<times> aggregated \<times> 's comm" where
  "SendCommandWithResponse e address command outBuffer = SendBufferWithResponse e address [command] outBuffer"

definition ResetInternal :: "'s comm_env \<Rightarrow> aggregated \<Rightarrow> 's comm \<Rightarrow> bool \<times> aggregated \<times> 's comm" where
  "ResetInternal e = SendCommand e Addr_Receiver (num_ReceiverCommand RC_HardReset)"

definition RestartHardware :: "'s comm_env \<Rightarrow> 's comm \<Rightarrow> bool \<times> 's comm" where
  "RestartHardware e = reporting (\<lambda>n c.
     (let (ok, n, c) = ResetInternal e n c
      in if \<not> ok then (False, Aggregated_Failure n, c) else (True, n, c)))"

definition Comm_Reset :: "'s comm_env \<Rightarrow> 's comm \<Rightarrow> bool \<times> 's comm" where
  "Comm_Reset e = reporting (ResetInternal e)"

definition Comm_ResetTransmitter :: "'s comm_env \<Rightarrow> 's comm \<Rightarrow> bool \<times> 's comm" where
  "Comm_ResetTransmitter e = reporting (SendCommand e Addr_Transmitter (num_TransmitterCommand TC_SoftReset))"

definition Comm_ResetReceiver :: "'s comm_env \<Rightarrow> 's comm \<Rightarrow> bool \<times> 's comm" where
  "Comm_ResetReceiver e = reporting (SendCommand e Addr_Receiver (num_ReceiverCommand RC_SoftReset))"

definition ResetWatchdogReceiver :: "'s comm_env \<Rightarrow> 's comm \<Rightarrow> bool \<times> 's comm" where
  "ResetWatchdogReceiver e = reporting (SendCommand e Addr_Receiver (num_ReceiverCommand RC_ResetWatchdog))"

definition ResetWatchdogTransmitter :: "'s comm_env \<Rightarrow> 's comm \<Rightarrow> bool \<times> 's comm" where
  "ResetWatchdogTransmitter e = reporting (SendCommand e Addr_Transmitter (num_TransmitterCommand TC_ResetWatchdog))"

definition ClearBeacon :: "'s comm_env \<Rightarrow> 's comm \<Rightarrow> bool \<times> 's comm" where
  "ClearBeacon e = reporting (SendCommand e Addr_Transmitter (num_TransmitterCommand TC_ClearBeacon))"

text \<open>The two settings report to the counter directly, also when the semaphore is not taken.\<close>

definition transmitter_setting :: "'s comm_env \<Rightarrow> bytes \<Rightarrow> 's comm \<Rightarrow> bool \<times> 's comm" where
  "transmitter_setting e buffer c =
     (if \<not> ce_taken e transmitterSemaphoreId (cm_world c) then (False, comm_report False c)
      else
        (let (result, c) = on_bus (bus_Write (ce_low e) (num_comm_address Addr_Transmitter) buffer) c;
             ok = (result = I2C_OK)
         in (ok, comm_report ok c)))"

definition SetTransmitterStateWhenIdle :: "'s comm_env \<Rightarrow> bool \<Rightarrow> 's comm \<Rightarrow> bool \<times> 's comm" where
  "SetTransmitterStateWhenIdle e on =
     transmitter_setting e [num_TransmitterCommand TC_SetIdleState, if on then 1 else 0]"

definition SetTransmitterBitRate :: "'s comm_env \<Rightarrow> u8 \<Rightarrow> 's comm \<Rightarrow> bool \<times> 's comm" where
  "SetTransmitterBitRate e bitrate = transmitter_setting e [num_TransmitterCommand TC_SetBitRate, bitrate]"

section \<open>Sending\<close>

text \<open>
  \<open>remainingBufferSize\<close> is the caller's variable, which a failed request may leave as it was. A frame
  that is not accepted, or a request that failed, still counts as the last transmission.
\<close>

definition ScheduleFrameTransmission ::
  "'s comm_env \<Rightarrow> bytes \<Rightarrow> u8 \<Rightarrow> aggregated \<Rightarrow> 's comm \<Rightarrow> bool \<times> aggregated \<times> 's comm" where
  "ScheduleFrameTransmission e frame remainingBufferSize n c =
     (if length frame > MaxDownlinkFrameSize then (False, n, c)
      else
        (let cmd = num_TransmitterCommand TC_SendFrame # frame;
             ((status, out), n, c) = SendBufferWithResponse e Addr_Transmitter cmd [remainingBufferSize] n c;
             remainingBufferSize = out ! 0;
             n = (if remainingBufferSize = 0xff then Aggregated_Failure n else n);
             now = ce_GetUptime e (cm_world c);
             stalled = (case cm_lastSend c of
                 None \<Rightarrow> False
               | Some (timestamp, freeSlots) \<Rightarrow>
                   now - timestamp \<ge> 15000 \<and> sint remainingBufferSize - uint freeSlots < 0)
         in if stalled then
              (let (_, c) = Comm_ResetTransmitter e c in (False, n, c\<lparr>cm_lastSend := None\<rparr>))
            else (status \<and> remainingBufferSize \<noteq> 0xff, n, c\<lparr>cm_lastSend := Some (now, remainingBufferSize)\<rparr>)))"

text \<open>\<open>junk\<close> is what the uninitialised variable of \<open>SendFrame\<close> holds.\<close>

definition Comm_SendFrame :: "'s comm_env \<Rightarrow> u8 \<Rightarrow> bytes \<Rightarrow> 's comm \<Rightarrow> bool \<times> 's comm" where
  "Comm_SendFrame e junk frame = reporting (ScheduleFrameTransmission e frame junk)"

definition SetBeacon :: "'s comm_env \<Rightarrow> comm_beacon \<Rightarrow> 's comm \<Rightarrow> bool option \<times> 's comm" where
  "SetBeacon e beaconData c =
     (let (result, c) = reporting (ScheduleFrameTransmission e (be_payload beaconData) 0) c
      in if \<not> result then (Some False, c) else (Some True, c))"

definition UpdateBeacon :: "'s comm_env \<Rightarrow> comm_beacon \<Rightarrow> 's comm \<Rightarrow> bool \<times> 's comm" where
  "UpdateBeacon e beaconData = reporting (\<lambda>n c.
     (if \<not> ce_taken e transmitterSemaphoreId (cm_world c) then (False, n, comm_report False c)
      else
        (let w = Writer_Initialize (replicate (MaxDownlinkFrameSize + 2) 0);
             w = snd (Writer_WriteByte (num_TransmitterCommand TC_SetBeacon) w);
             w = snd (Writer_WriteWordLE (of_int (be_period beaconData)) w);
             w = snd (Writer_WriteArray (be_payload beaconData) w)
         in if \<not> Writer_Status w then (False, n, c)
            else
              (let (result, c) = on_bus (bus_Write (ce_low e) (num_comm_address Addr_Transmitter) (Writer_Capture w)) c;
                   (status, n) = report_bool (result = I2C_OK) n
               in (status, n, c)))))"


section \<open>Telemetry\<close>

text \<open>A \<open>uint12_t\<close> keeps the low twelve bits.\<close>

definition uint12 :: "u16 \<Rightarrow> u16" where
  "uint12 v = v AND 0x0fff"

record ReceiverTelemetry =
  rx_Uptime :: int
  rx_LastReceivedDopplerOffset :: u16
  rx_LastReceivedRSSI :: u16
  rx_NowDopplerOffset :: u16
  rx_NowReceiverCurrentConsumption :: u16
  rx_NowVoltage :: u16
  rx_NowOscilatorTemperature :: u16
  rx_NowAmplifierTemperature :: u16
  rx_NowRSSI :: u16

record TransmitterTelemetry =
  tx_Uptime :: int
  tx_TransmitterBitRate :: Bitrate
  tx_LastTransmittedRFReflectedPower :: u16
  tx_LastTransmittedAmplifierTemperature :: u16
  tx_LastTransmittedRFForwardPower :: u16
  tx_LastTransmittedTransmitterCurrentConsumption :: u16
  tx_NowRFForwardPower :: u16
  tx_NowTransmitterCurrentConsumption :: u16
  tx_StateWhenIdle :: bool
  tx_BeaconState :: bool

definition comm_uptime :: "bytes \<Rightarrow> int" where
  "comm_uptime buffer =
     (let r = Reader_Initialize buffer;
          (seconds, r) = Reader_ReadByte r;
          (minutes, r) = Reader_ReadByte r;
          (hours, r) = Reader_ReadByte r;
          (days, r) = Reader_ReadByte r
      in uint seconds + uint minutes * 60 + uint hours * 3600 + (uint days * 24) * 3600)"

definition receiver_values :: "bytes \<Rightarrow> ReceiverTelemetry \<Rightarrow> ReceiverTelemetry" where
  "receiver_values buffer t =
     (let r = Reader_Initialize buffer;
          (_, r) = Reader_ReadWordLE r;
          (dopplerOffset, r) = Reader_ReadWordLE r;
          (current, r) = Reader_ReadWordLE r;
          (voltage, r) = Reader_ReadWordLE r;
          (oscilator, r) = Reader_ReadWordLE r;
          (amplifier, r) = Reader_ReadWordLE r;
          (rssi, r) = Reader_ReadWordLE r
      in t\<lparr>rx_NowDopplerOffset := uint12 dopplerOffset, rx_NowReceiverCurrentConsumption := uint12 current,
           rx_NowVoltage := uint12 voltage, rx_NowOscilatorTemperature := uint12 oscilator,
           rx_NowAmplifierTemperature := uint12 amplifier, rx_NowRSSI := uint12 rssi\<rparr>)"

definition GetReceiverTelemetryInternal ::
  "'s comm_env \<Rightarrow> aggregated \<Rightarrow> 's comm \<Rightarrow> (bool \<times> ReceiverTelemetry) \<times> aggregated \<times> 's comm" where
  "GetReceiverTelemetryInternal e n c =
     (let t = \<lparr>rx_Uptime = 0, rx_LastReceivedDopplerOffset = 0, rx_LastReceivedRSSI = 0, rx_NowDopplerOffset = 0,
               rx_NowReceiverCurrentConsumption = 0, rx_NowVoltage = 0, rx_NowOscilatorTemperature = 0,
               rx_NowAmplifierTemperature = 0, rx_NowRSSI = 0\<rparr>;
          ((status1, buffer), n, c) =
            SendCommandWithResponse e Addr_Receiver (num_ReceiverCommand RC_GetUptime) (replicate 4 0) n c;
          t = (if status1 then t\<lparr>rx_Uptime := comm_uptime buffer\<rparr> else t);
          t = t\<lparr>rx_LastReceivedDopplerOffset := uint12 (fst (cm_lastFrameStatus c)),
                rx_LastReceivedRSSI := uint12 (snd (cm_lastFrameStatus c))\<rparr>;
          ((status2, buffer), n, c) =
            SendCommandWithResponse e Addr_Receiver (num_ReceiverCommand RC_GetTelemetry) (replicate 14 0) n c;
          t = (if status2 then receiver_values buffer t else t)
      in ((status1 \<and> status2, t), n, c))"

definition GetReceiverTelemetry :: "'s comm_env \<Rightarrow> 's comm \<Rightarrow> (bool \<times> ReceiverTelemetry) \<times> 's comm" where
  "GetReceiverTelemetry e = reporting (GetReceiverTelemetryInternal e)"

definition conversionArray :: "Bitrate list" where
  "conversionArray = [Comm1200bps, Comm2400bps, Comm4800bps, Comm9600bps]"

definition transmitter_state :: "u8 \<Rightarrow> TransmitterTelemetry \<Rightarrow> TransmitterTelemetry" where
  "transmitter_state b t =
     t\<lparr>tx_BeaconState := b AND 2 \<noteq> 0, tx_StateWhenIdle := b AND 1 \<noteq> 0,
       tx_TransmitterBitRate := conversionArray ! unat (drop_bit 2 (b AND 0x0c))\<rparr>"

definition last_transmission :: "bytes \<Rightarrow> TransmitterTelemetry \<Rightarrow> TransmitterTelemetry" where
  "last_transmission buffer t =
     (let r = Reader_Initialize buffer;
          (reflected, r) = Reader_ReadWordLE r;
          (temperature, r) = Reader_ReadWordLE r;
          (forward, r) = Reader_ReadWordLE r;
          (current, r) = Reader_ReadWordLE r
      in t\<lparr>tx_LastTransmittedRFReflectedPower := uint12 reflected, tx_LastTransmittedAmplifierTemperature := uint12 temperature,
           tx_LastTransmittedRFForwardPower := uint12 forward,
           tx_LastTransmittedTransmitterCurrentConsumption := uint12 current\<rparr>)"

definition instant_telemetry :: "bytes \<Rightarrow> TransmitterTelemetry \<Rightarrow> TransmitterTelemetry" where
  "instant_telemetry buffer t =
     (let r = Reader_Initialize buffer;
          (_, r) = Reader_ReadWordLE r;
          (_, r) = Reader_ReadWordLE r;
          (forward, r) = Reader_ReadWordLE r;
          (current, r) = Reader_ReadWordLE r
      in t\<lparr>tx_NowRFForwardPower := uint12 forward, tx_NowTransmitterCurrentConsumption := uint12 current\<rparr>)"

text \<open>The cleared bit rate, 0, is none of the four; it stays only when the result is a failure.\<close>

definition GetTransmitterTelemetryInternal ::
  "'s comm_env \<Rightarrow> aggregated \<Rightarrow> 's comm \<Rightarrow> (bool \<times> TransmitterTelemetry) \<times> aggregated \<times> 's comm" where
  "GetTransmitterTelemetryInternal e n c =
     (let t = \<lparr>tx_Uptime = 0, tx_TransmitterBitRate = Comm1200bps, tx_LastTransmittedRFReflectedPower = 0,
               tx_LastTransmittedAmplifierTemperature = 0, tx_LastTransmittedRFForwardPower = 0,
               tx_LastTransmittedTransmitterCurrentConsumption = 0, tx_NowRFForwardPower = 0,
               tx_NowTransmitterCurrentConsumption = 0, tx_StateWhenIdle = False, tx_BeaconState = False\<rparr>;
          get = (\<lambda>cmd m. SendCommandWithResponse e Addr_Transmitter (num_TransmitterCommand cmd) (replicate m 0));
          ((status1, buffer), n, c) = get TC_GetUptime 4 n c;
          t = (if status1 then t\<lparr>tx_Uptime := comm_uptime buffer\<rparr> else t);
          ((status2, buffer), n, c) = get TC_GetState 1 n c;
          t = (if status2 then transmitter_state (buffer ! 0) t else t);
          ((status3, buffer), n, c) = get TC_GetTelemetryLastTransmission 8 n c;
          t = (if status3 then last_transmission buffer t else t);
          ((status4, buffer), n, c) = get TC_GetTelemetryInstant 8 n c;
          t = (if status4 then instant_telemetry buffer t else t)
      in ((status1 \<and> status2 \<and> status3 \<and> status4, t), n, c))"

definition GetTransmitterTelemetry :: "'s comm_env \<Rightarrow> 's comm \<Rightarrow> (bool \<times> TransmitterTelemetry) \<times> 's comm" where
  "GetTransmitterTelemetry e = reporting (GetTransmitterTelemetryInternal e)"

text \<open>The receiver is not asked when the transmitter has failed.\<close>

definition Comm_GetTelemetry ::
  "'s comm_env \<Rightarrow> 's comm \<Rightarrow> (TransmitterTelemetry \<times> ReceiverTelemetry) option \<times> 's comm" where
  "Comm_GetTelemetry e = reporting (\<lambda>n c.
     (let ((ok, transmitter), n, c) = GetTransmitterTelemetryInternal e n c
      in if \<not> ok then (None, n, c)
         else
           (let ((ok, receiver), n, c) = GetReceiverTelemetryInternal e n c
            in if \<not> ok then (None, n, c) else (Some (transmitter, receiver), n, c))))"

definition num_bitrate_field :: "Bitrate \<Rightarrow> u16" where
  "num_bitrate_field b = (case b of Comm1200bps \<Rightarrow> 0 | Comm2400bps \<Rightarrow> 1 | Comm4800bps \<Rightarrow> 2 | Comm9600bps \<Rightarrow> 3)"

definition TransmitterTelemetry_Write :: "TransmitterTelemetry \<Rightarrow> bitwriter \<Rightarrow> bitwriter" where
  "TransmitterTelemetry_Write t w =
     (let w = snd (BitWriter_WriteQuadWord (of_int (tx_Uptime t)) 17 w);
          w = snd (BitWriter_WriteWord (num_bitrate_field (tx_TransmitterBitRate t)) 2 w);
          w = snd (BitWriter_WriteWord (tx_LastTransmittedRFReflectedPower t) 12 w);
          w = snd (BitWriter_WriteWord (tx_LastTransmittedAmplifierTemperature t) 12 w);
          w = snd (BitWriter_WriteWord (tx_LastTransmittedRFForwardPower t) 12 w);
          w = snd (BitWriter_WriteWord (tx_LastTransmittedTransmitterCurrentConsumption t) 12 w);
          w = snd (BitWriter_WriteWord (tx_NowRFForwardPower t) 12 w);
          w = snd (BitWriter_WriteWord (tx_NowTransmitterCurrentConsumption t) 12 w);
          w = snd (BitWriter_Write_bool (tx_StateWhenIdle t) w)
      in snd (BitWriter_Write_bool (tx_BeaconState t) w))"

definition ReceiverTelemetry_Write :: "ReceiverTelemetry \<Rightarrow> bitwriter \<Rightarrow> bitwriter" where
  "ReceiverTelemetry_Write t w =
     (let w = snd (BitWriter_WriteQuadWord (of_int (rx_Uptime t)) 17 w);
          w = snd (BitWriter_WriteWord (rx_LastReceivedDopplerOffset t) 12 w);
          w = snd (BitWriter_WriteWord (rx_LastReceivedRSSI t) 12 w);
          w = snd (BitWriter_WriteWord (rx_NowDopplerOffset t) 12 w);
          w = snd (BitWriter_WriteWord (rx_NowReceiverCurrentConsumption t) 12 w);
          w = snd (BitWriter_WriteWord (rx_NowVoltage t) 12 w);
          w = snd (BitWriter_WriteWord (rx_NowOscilatorTemperature t) 12 w);
          w = snd (BitWriter_WriteWord (rx_NowAmplifierTemperature t) 12 w)
      in snd (BitWriter_WriteWord (rx_NowRSSI t) 12 w))"

definition CommTelemetry_Write :: "TransmitterTelemetry \<times> ReceiverTelemetry \<Rightarrow> bitwriter \<Rightarrow> bitwriter" where
  "CommTelemetry_Write = (\<lambda>(transmitter, receiver) w.
     ReceiverTelemetry_Write receiver (TransmitterTelemetry_Write transmitter w))"

section \<open>Receiving\<close>

definition GetFrameCount :: "'s comm_env \<Rightarrow> 's comm \<Rightarrow> (bool \<times> u16) \<times> 's comm" where
  "GetFrameCount e = reporting (\<lambda>n c.
     (let ((status, buffer), n, c) =
            SendCommandWithResponse e Addr_Receiver (num_ReceiverCommand RC_GetFrameCount) [0, 0] n c
      in if \<not> status then ((False, 0), n, c)
         else
           (let (frameCount, r) = Reader_ReadWordLE (Reader_Initialize buffer);
                status = Reader_Status r
            in if \<not> Reader_Status r then ((status, frameCount), n, c)
               else if frameCount > of_nat ReceiverBufferSize then ((False, 0), Aggregated_Failure n, c)
               else ((status, frameCount), n, c))))"

definition RemoveFrameInternal :: "'s comm_env \<Rightarrow> aggregated \<Rightarrow> 's comm \<Rightarrow> bool \<times> aggregated \<times> 's comm" where
  "RemoveFrameInternal e = SendCommand e Addr_Receiver (num_ReceiverCommand RC_RemoveFrame)"

definition RemoveFrame :: "'s comm_env \<Rightarrow> 's comm \<Rightarrow> bool \<times> 's comm" where
  "RemoveFrame e = reporting (RemoveFrameInternal e)"

definition ReceiveSpan :: "u16 \<Rightarrow> bytes \<Rightarrow> bytes" where
  "ReceiveSpan frameSize buffer =
     (if length buffer \<le> unat frameSize + 6 then buffer else take (unat frameSize + 6) buffer)"

text \<open>
  The size is read first, then the frame again with its header, as much as fits. What is read into a
  part of the buffer stays in the buffer.
\<close>

definition ReceiveFrameInternal ::
  "'s comm_env \<Rightarrow> bytes \<Rightarrow> comm_frame \<Rightarrow> aggregated \<Rightarrow> 's comm
     \<Rightarrow> (bool \<times> bytes \<times> comm_frame) \<times> aggregated \<times> 's comm" where
  "ReceiveFrameInternal e buffer frame n c =
     (if length buffer < 2 then ((False, buffer, frame), n, c)
      else
        (let get = SendCommandWithResponse e Addr_Receiver (num_ReceiverCommand RC_GetFrame);
             ((status, out), n, c) = get (take 2 buffer) n c;
             buffer = put_at 0 out buffer
         in if \<not> status then ((status, buffer, frame), n, c)
            else
              (let (frameSize, r) = Reader_ReadWordLE (Reader_Initialize (take 2 buffer));
                   ((status, out), n, c) = get (ReceiveSpan frameSize buffer) n c;
                   buffer = put_at 0 out buffer
               in if \<not> status then ((status, buffer, frame), n, c)
                  else
                    (let r = Reader_Initialize out;
                         (fullSize, r) = Reader_ReadWordLE r;
                         (doppler, r) = Reader_ReadWordLE r;
                         (rssi, r) = Reader_ReadWordLE r;
                         (frameContent, c) =
                           (if \<not> Reader_Status r then ([], c)
                            else (fst (Reader_ReadArray (of_int (Reader_RemainingSize r)) r),
                                  c\<lparr>cm_lastFrameStatus := (doppler, rssi)\<rparr>))
                     in ((status, buffer, \<lparr>fr_doppler = doppler, fr_rssi = rssi, fr_fullFrameSize = fullSize,
                                           fr_content = frameContent\<rparr>), n, c)))))"

definition ReceiveFrame ::
  "'s comm_env \<Rightarrow> bytes \<Rightarrow> comm_frame \<Rightarrow> 's comm \<Rightarrow> (bool \<times> bytes \<times> comm_frame) \<times> 's comm" where
  "ReceiveFrame e buffer frame = reporting (ReceiveFrameInternal e buffer frame)"

fun GetFrame ::
  "'s comm_env \<Rightarrow> bytes \<Rightarrow> nat \<Rightarrow> comm_frame \<Rightarrow> aggregated \<Rightarrow> 's comm \<Rightarrow> (bool \<times> comm_frame) \<times> aggregated \<times> 's comm" where
  "GetFrame e buffer 0 frame n c = ((False, frame), n, c)"
| "GetFrame e buffer (Suc retryCount) frame n c =
     (let ((status, buffer, frame), n, c) = ReceiveFrameInternal e buffer frame n c
      in if \<not> status then GetFrame e buffer retryCount frame n c
         else if \<not> Frame_Verify frame then GetFrame e buffer retryCount frame n c
         else ((True, frame), n, c))"

text \<open>The handler acts on the driver it gets the frame from.\<close>

definition ProcessSingleFrame ::
  "'s comm_env \<Rightarrow> (comm_frame \<Rightarrow> 's comm \<Rightarrow> 's comm) option \<Rightarrow> 's comm \<Rightarrow> unit \<times> 's comm" where
  "ProcessSingleFrame e frameHandler = reporting (\<lambda>n c.
     (let ((status, frame), n, c) = GetFrame e (replicate PrefferedBufferSize 0) 3 Frame_empty n c;
          c = (if status \<and> Frame_Verify frame then
                 (case frameHandler of
                    None \<Rightarrow> c
                  | Some handler \<Rightarrow> handler frame (c\<lparr>cm_handled := cm_handled c @ [frame]\<rparr>))
               else c);
          (_, n, c) = RemoveFrameInternal e n c
      in ((), n, c)))"

definition PollHardware ::
  "'s comm_env \<Rightarrow> (comm_frame \<Rightarrow> 's comm \<Rightarrow> 's comm) option \<Rightarrow> 's comm \<Rightarrow> bool \<times> 's comm" where
  "PollHardware e frameHandler c =
     (let ((status, frameCount), c) = GetFrameCount e c;
          anyFrame = (status \<and> frameCount > 0);
          c = (if anyFrame then ((\<lambda>c. snd (ProcessSingleFrame e frameHandler c)) ^^ unat frameCount) c else c);
          (receiverReset, c) = ResetWatchdogReceiver e c;
          c = (if \<not> receiverReset then snd (ResetWatchdogTransmitter e c) else c)
      in (anyFrame, c))"

section \<open>The task\<close>

text \<open>The inner loop of \<open>CommTask\<close>: \<open>None\<close> is for ever.\<close>

partial_function (option) poll_until_empty ::
  "'s comm_env \<Rightarrow> (comm_frame \<Rightarrow> 's comm \<Rightarrow> 's comm) option \<Rightarrow> 's comm \<Rightarrow> 's comm option" where
  "poll_until_empty e frameHandler c =
     (let (anyFrame, c) = PollHardware e frameHandler c
      in if anyFrame then poll_until_empty e frameHandler c else Some c)"


section \<open>A receiver that works\<close>

definition frame_bytes :: "comm_frame \<Rightarrow> bytes" where
  "frame_bytes f = le_bytes 2 (fr_fullFrameSize f) @ le_bytes 2 (fr_doppler f) @ le_bytes 2 (fr_rssi f) @ fr_content f"

text \<open>A command is written, and the answer read two milliseconds later.\<close>

definition answers ::
  "'s comm_env \<Rightarrow> ('s \<Rightarrow> bool) \<Rightarrow> u8 \<Rightarrow> bytes \<Rightarrow> 's \<Rightarrow> bytes \<Rightarrow> bool" where
  "answers e good command out w reply \<longleftrightarrow>
     (let (result, w1) = bus_Write (ce_low e) (num_comm_address Addr_Receiver) [command] w;
          ((result2, out2), w2) = bus_Read (ce_low e) (num_comm_address Addr_Receiver) out (ce_SleepTask e 2 w1)
      in result = I2C_OK \<and> result2 = I2C_OK \<and> out2 = reply \<and> good w2)"

definition obeys :: "'s comm_env \<Rightarrow> ('s \<Rightarrow> bool) \<Rightarrow> u8 \<Rightarrow> 's \<Rightarrow> bool" where
  "obeys e good command w \<longleftrightarrow>
     (let (result, w1) = bus_Write (ce_low e) (num_comm_address Addr_Receiver) [command] w
      in result = I2C_OK \<and> good w1)"

text \<open>
  What the driver relies on, after the interface document of the transceiver: the receiver tells how
  many frames it holds, sends the first one with its header as often as it is asked for, and drops it
  on command. A frame of the queue is whole.
\<close>

locale working_receiver =
  fixes e :: "'s comm_env" and ok :: "'s \<Rightarrow> bool" and queue :: "'s \<Rightarrow> comm_frame list"
  assumes taken: "ok w \<Longrightarrow> ce_taken e receiverSemaphoreId w"
    and capacity: "ok w \<Longrightarrow> length (queue w) \<le> ReceiverBufferSize"
    and whole: "ok w \<Longrightarrow> f \<in> set (queue w) \<Longrightarrow>
      length (fr_content f) < 2 ^ 16 \<and> fr_fullFrameSize f = of_nat (length (fr_content f))"
    and frame_count: "ok w \<Longrightarrow> answers e (\<lambda>w'. ok w' \<and> queue w' = queue w) (num_ReceiverCommand RC_GetFrameCount) [0, 0] w
      (le_bytes 2 (of_nat (length (queue w)) :: u16))"
    and get_frame: "ok w \<Longrightarrow> queue w = f # fs \<Longrightarrow> length out \<le> length (frame_bytes f) \<Longrightarrow>
      answers e (\<lambda>w'. ok w' \<and> queue w' = queue w) (num_ReceiverCommand RC_GetFrame) out w (take (length out) (frame_bytes f))"
    and remove_frame: "ok w \<Longrightarrow> obeys e (\<lambda>w'. ok w' \<and> queue w' = tl (queue w)) (num_ReceiverCommand RC_RemoveFrame) w"
    and watchdog: "ok w \<Longrightarrow> obeys e (\<lambda>w'. ok w' \<and> queue w' = queue w) (num_ReceiverCommand RC_ResetWatchdog) w"

lemma command_obeyed:
  assumes "obeys e good command (cm_world c)" and "ce_taken e receiverSemaphoreId (cm_world c)"
  obtains w where "SendCommand e Addr_Receiver command n c = (True, n, c\<lparr>cm_world := w\<rparr>)" "good w"
  using assms
  by (cases "bus_Write (ce_low e) (num_comm_address Addr_Receiver) [command] (cm_world c)")
    (auto simp: obeys_def SendCommand_def comm_semaphore_def on_bus_def report_bool_def)

lemma request_answered:
  assumes "answers e good command out (cm_world c) reply" and "ce_taken e receiverSemaphoreId (cm_world c)"
  obtains w where "SendCommandWithResponse e Addr_Receiver command out n c = ((True, reply), n, c\<lparr>cm_world := w\<rparr>)" "good w"
proof -
  let ?a = "num_comm_address Addr_Receiver"
  obtain r w1 where w: "bus_Write (ce_low e) ?a [command] (cm_world c) = (r, w1)" by fastforce
  obtain r2 out2 w2 where r: "bus_Read (ce_low e) ?a out (ce_SleepTask e 2 w1) = ((r2, out2), w2)"
    by (metis prod.collapse)
  have ok: "r = I2C_OK" "r2 = I2C_OK" "out2 = reply" "good w2"
    using assms(1) by (simp_all add: answers_def w r del: num_comm_address.simps)
  have "SendCommandWithResponse e Addr_Receiver command out n c = ((True, reply), n, c\<lparr>cm_world := w2\<rparr>)"
    using assms(2) ok w r
    by (simp add: SendCommandWithResponse_def SendBufferWithResponse_def comm_semaphore_def on_bus_def
        del: num_comm_address.simps)
  then show thesis using that ok(4) by blast
qed

text \<open>What fits into the buffer of the driver.\<close>

definition received :: "comm_frame \<Rightarrow> comm_frame" where
  "received f = f\<lparr>fr_content := take 249 (fr_content f)\<rparr>"

lemma received_verified:
  assumes "length (fr_content f) < 2 ^ 16" and "fr_fullFrameSize f = of_nat (length (fr_content f))"
  shows "Frame_Verify (received f) = Frame_Verify f" and "Frame_Verify f \<Longrightarrow> received f = f"
proof -
  have u: "unat (of_nat (length (fr_content f)) :: u16) = length (fr_content f)"
    using assms(1) by (simp add: unat_of_nat)
  have s: "IsSizeValid f \<longleftrightarrow> length (fr_content f) \<le> 235"
    using u assms(2) by (simp add: IsSizeValid_def word_le_nat_alt MaxDownlinkFrameSize_def)
  have l: "IsSizeValid (received f) = IsSizeValid f" by (simp add: IsSizeValid_def received_def)
  show v: "Frame_Verify f \<Longrightarrow> received f = f" by (simp add: Frame_Verify_def s received_def)
  show "Frame_Verify (received f) = Frame_Verify f"
  proof (cases "IsSizeValid f")
    case True
    then have "received f = f" by (simp add: s received_def)
    then show ?thesis by simp
  qed (simp add: Frame_Verify_def l)
qed

lemma ReceiveSpan_length: "length (ReceiveSpan m buffer) = min (length buffer) (unat m + 6)"
  by (auto simp: ReceiveSpan_def)


lemma frame_header:
  "length (frame_bytes f) = 6 + length (fr_content f)"
  "take 2 (frame_bytes f) = le_bytes 2 (fr_fullFrameSize f)"
  "take 2 (drop 2 (frame_bytes f)) = le_bytes 2 (fr_doppler f)"
  "take 2 (drop 4 (frame_bytes f)) = le_bytes 2 (fr_rssi f)"
  "drop 6 (frame_bytes f) = fr_content f"
  by (simp_all add: frame_bytes_def)

lemma frame_reads:
  assumes "out = take (6 + m) (frame_bytes f)" and "m \<le> length (fr_content f)" and "m < 1000"
  defines "r \<equiv> \<lambda>k. ((\<lambda>r. snd (Reader_ReadWordLE r)) ^^ k) (Reader_Initialize out)"
  shows "fst (Reader_ReadWordLE (r 0)) = fr_fullFrameSize f" "fst (Reader_ReadWordLE (r 1)) = fr_doppler f"
    "fst (Reader_ReadWordLE (r 2)) = fr_rssi f" "Reader_Status (r 3)" "fst (Reader_ReadToEnd (r 3)) = take m (fr_content f)"
proof -
  have len: "length out = 6 + m" using assms(1,2) by (simp add: frame_header)
  then have ne: "out \<noteq> []" by auto
  have w: "reader_wf (r k)" for k
    using len assms(3) by (induction k) (simp_all add: r_def left_simps)
  have left: "remaining (r k) = skipping (2 * k) (Some out)" for k
  proof (induction k)
    case (Suc k)
    have "remaining (r (Suc k)) = skipping 2 (remaining (r k))" using w [of k] by (simp add: r_def left_simps)
    then show ?case using Suc by (simp add: skipping_skipping del: skipping_Some)
  qed (simp add: r_def left_simps ne)
  have parts: "take 2 out = le_bytes 2 (fr_fullFrameSize f)" "take 2 (drop 2 out) = le_bytes 2 (fr_doppler f)"
    "take 2 (drop 4 out) = le_bytes 2 (fr_rssi f)" "drop 6 out = take m (fr_content f)"
    by (simp_all add: assms(1) frame_header drop_take flip: take_take)
       (simp_all add: frame_header min_def)
  show "fst (Reader_ReadWordLE (r 0)) = fr_fullFrameSize f" "fst (Reader_ReadWordLE (r 1)) = fr_doppler f"
    "fst (Reader_ReadWordLE (r 2)) = fr_rssi f" "Reader_Status (r 3)" "fst (Reader_ReadToEnd (r 3)) = take m (fr_content f)"
    using w left len parts by (simp_all add: left_simps taking_def byte_simps)
qed


lemma first_read:
  assumes "out = take 2 (frame_bytes f)"
  shows "fst (Reader_ReadWordLE (Reader_Initialize out)) = fr_fullFrameSize f"
proof -
  have "length out = 2" using assms by (simp add: frame_header)
  then have "out \<noteq> []" by auto
  then show ?thesis using assms by (simp add: left_simps taking_def frame_header byte_simps)
qed

context working_receiver
begin

abbreviation view :: "'s comm \<Rightarrow> comm_frame list" where "view c \<equiv> queue (cm_world c)"

lemma receive_works:
  assumes "ok (cm_world c)" and "view c = f # fs" and "length buffer = PrefferedBufferSize"
  obtains w buffer' where "ReceiveFrameInternal e buffer frame n c
      = ((True, buffer', received f), n, c\<lparr>cm_world := w, cm_lastFrameStatus := (fr_doppler f, fr_rssi f)\<rparr>)"
    "ok w" "queue w = view c" "length buffer' = PrefferedBufferSize"
proof -
  have len: "length buffer = 255" using assms(3) by (simp add: PrefferedBufferSize_def MaxDownlinkFrameSize_def)
  have f: "length (fr_content f) < 2 ^ 16" "fr_fullFrameSize f = of_nat (length (fr_content f))"
    using whole [OF assms(1)] assms(2) by simp_all
  have u: "unat (fr_fullFrameSize f) = length (fr_content f)" using f by (simp add: unat_of_nat)
  let ?get = "SendCommandWithResponse e Addr_Receiver (num_ReceiverCommand RC_GetFrame)"
  let ?two = "take 2 (frame_bytes f)"
  obtain w1 where w1: "?get (take 2 buffer) n c = ((True, ?two), n, c\<lparr>cm_world := w1\<rparr>)" "ok w1" "queue w1 = view c"
    using request_answered [OF get_frame [OF assms(1,2), of "take 2 buffer"] taken [OF assms(1)], of n] len
    by (auto simp: frame_header)
  define buffer1 where "buffer1 = put_at 0 ?two buffer"
  have b1: "length buffer1 = 255" "take 2 buffer1 = ?two" using len by (simp_all add: buffer1_def put_at_def frame_header)
  define m where "m = min 249 (length (fr_content f))"
  have span: "length (ReceiveSpan (fr_fullFrameSize f) buffer1) = 6 + m"
    using b1(1) by (simp add: ReceiveSpan_length u m_def)
  let ?out = "take (6 + m) (frame_bytes f)"
  have q1: "ok (cm_world (c\<lparr>cm_world := w1\<rparr>))" "queue (cm_world (c\<lparr>cm_world := w1\<rparr>)) = f # fs"
    using w1 assms(2) by simp_all
  have fits: "length (ReceiveSpan (fr_fullFrameSize f) buffer1) \<le> length (frame_bytes f)"
    unfolding span by (simp add: frame_header m_def)
  obtain w2 where w2: "?get (ReceiveSpan (fr_fullFrameSize f) buffer1) n (c\<lparr>cm_world := w1\<rparr>)
      = ((True, ?out), n, c\<lparr>cm_world := w2\<rparr>)" "ok w2" "queue w2 = view c"
    using request_answered [OF get_frame [OF q1 fits] taken [OF q1(1)], of n] w1(3) unfolding span by auto
  have r: "m \<le> length (fr_content f)" "m < 1000" by (simp_all add: m_def)
  note reads = frame_reads [OF refl r, unfolded funpow_0 One_nat_def, unfolded numeral_2_eq_2 numeral_3_eq_3 funpow.simps
      comp_apply id_apply]
  have rec: "received f = \<lparr>fr_doppler = fr_doppler f, fr_rssi = fr_rssi f, fr_fullFrameSize = fr_fullFrameSize f,
      fr_content = take m (fr_content f)\<rparr>"
    by (cases f) (auto simp: received_def m_def min_def)
  have l2: "\<not> length buffer < 2" using len by simp
  have "ReceiveFrameInternal e buffer frame n c = ((True, put_at 0 ?out buffer1, received f), n,
      c\<lparr>cm_world := w2, cm_lastFrameStatus := (fr_doppler f, fr_rssi f)\<rparr>)"
    unfolding ReceiveFrameInternal_def if_not_P [OF l2] Let_def w1(1) case_prod_beta fst_conv snd_conv
      buffer1_def [symmetric] b1(2) first_read [OF refl] w2(1) Reader_ReadToEnd_def [symmetric] rec
    using reads by simp
  then show thesis using that w2(2,3) b1(1) len assms(3) by simp
qed

lemma get_frame_works:
  assumes "ok (cm_world c)" and "view c = f # fs" and "length buffer = PrefferedBufferSize" and "0 < k"
  shows "\<exists>w. GetFrame e buffer k frame n c
      = ((Frame_Verify f, received f), n, c\<lparr>cm_world := w, cm_lastFrameStatus := (fr_doppler f, fr_rssi f)\<rparr>)
    \<and> ok w \<and> queue w = view c"
  using assms
proof (induction k arbitrary: buffer frame c)
  case (Suc k)
  have f: "Frame_Verify (received f) = Frame_Verify f" using received_verified whole [OF Suc.prems(1)] Suc.prems(2) by simp
  obtain w buffer' where w: "ReceiveFrameInternal e buffer frame n c
      = ((True, buffer', received f), n, c\<lparr>cm_world := w, cm_lastFrameStatus := (fr_doppler f, fr_rssi f)\<rparr>)"
    "ok w" "queue w = view c" "length buffer' = PrefferedBufferSize"
    using receive_works [OF Suc.prems(1-3)] by blast
  let ?c = "c\<lparr>cm_world := w, cm_lastFrameStatus := (fr_doppler f, fr_rssi f)\<rparr>"
  show ?case
  proof (cases "Frame_Verify f \<or> k = 0")
    case True
    then show ?thesis using w f by (intro exI [of _ w]) auto
  next
    case False
    have "ok (cm_world ?c)" "view ?c = f # fs" using w(2,3) Suc.prems(2) by simp_all
    then obtain w' where "GetFrame e buffer' k (received f) n ?c
        = ((Frame_Verify f, received f), n, ?c\<lparr>cm_world := w', cm_lastFrameStatus := (fr_doppler f, fr_rssi f)\<rparr>)"
      "ok w'" "queue w' = view ?c"
      using Suc.IH w(4) False by blast
    then show ?thesis using w f False by (intro exI [of _ w']) simp
  qed
qed simp

end


text \<open>The handler may use the transmitter, but leaves the queue of the receiver and the history alone.\<close>

definition keeps_receiver ::
  "('s \<Rightarrow> bool) \<Rightarrow> ('s \<Rightarrow> comm_frame list) \<Rightarrow> (comm_frame \<Rightarrow> 's comm \<Rightarrow> 's comm) \<Rightarrow> bool" where
  "keeps_receiver ok queue H \<longleftrightarrow> (\<forall>f c. cm_handled (H f c) = cm_handled c
     \<and> (ok (cm_world c) \<longrightarrow> ok (cm_world (H f c)) \<and> queue (cm_world (H f c)) = queue (cm_world c)))"

lemma comm_report_simps [simp]:
  "cm_world (comm_report b c) = cm_world c" "cm_handled (comm_report b c) = cm_handled c"
  "cm_lastSend (comm_report b c) = cm_lastSend c"
  by (simp_all add: comm_report_def)

context working_receiver
begin

lemma process_works:
  assumes "ok (cm_world c)" and "view c = f # fs" and H: "keeps_receiver ok queue H"
  defines "t \<equiv> snd (ProcessSingleFrame e (Some H) c)"
  shows "ok (cm_world t) \<and> view t = fs \<and> cm_handled t = cm_handled c @ filter Frame_Verify [f]"
proof -
  obtain w where g: "GetFrame e (replicate PrefferedBufferSize 0) 3 Frame_empty 0 c
      = ((Frame_Verify f, received f), 0, c\<lparr>cm_world := w, cm_lastFrameStatus := (fr_doppler f, fr_rssi f)\<rparr>)"
    "ok w" "queue w = view c"
    using get_frame_works [OF assms(1,2), of "replicate PrefferedBufferSize 0" 3 Frame_empty 0] by auto
  have v: "Frame_Verify (received f) = Frame_Verify f" "Frame_Verify f \<Longrightarrow> received f = f"
    using received_verified whole [OF assms(1)] assms(2) by simp_all
  let ?c = "c\<lparr>cm_world := w, cm_lastFrameStatus := (fr_doppler f, fr_rssi f)\<rparr>"
  define u where "u = (if Frame_Verify f then H f (?c\<lparr>cm_handled := cm_handled c @ [f]\<rparr>) else ?c)"
  have u: "ok (cm_world u)" "view u = view c" "cm_handled u = cm_handled c @ filter Frame_Verify [f]"
    using H g(2,3) by (auto simp: u_def keeps_receiver_def)
  obtain w' where r: "SendCommand e Addr_Receiver (num_ReceiverCommand RC_RemoveFrame) 0 u = (True, 0, u\<lparr>cm_world := w'\<rparr>)"
    "ok w'" "queue w' = tl (view u)"
    using command_obeyed [OF remove_frame [OF u(1)] taken [OF u(1)]] by blast
  have "t = comm_report True (u\<lparr>cm_world := w'\<rparr>)"
    using r(1) v
    by (cases "Frame_Verify f")
      (simp_all add: t_def ProcessSingleFrame_def reporting_def g(1) RemoveFrameInternal_def u_def GetAggregatedResult_def)
  then show ?thesis using r(2,3) u assms(2) by simp
qed

lemma process_all_works:
  assumes "ok (cm_world c)" and H: "keeps_receiver ok queue H" and "length (view c) = k"
  defines "t \<equiv> ((\<lambda>c. snd (ProcessSingleFrame e (Some H) c)) ^^ k) c"
  shows "ok (cm_world t) \<and> view t = [] \<and> cm_handled t = cm_handled c @ filter Frame_Verify (view c)"
  unfolding t_def using assms(1,3)
proof (induction k arbitrary: c)
  case (Suc k)
  obtain f fs where f: "view c = f # fs" using Suc.prems(2) by (cases "view c") auto
  note p = process_works [OF Suc.prems(1) f H]
  have "length (view (snd (ProcessSingleFrame e (Some H) c))) = k" using p Suc.prems(2) f by simp
  then show ?case
    using Suc.IH [of "snd (ProcessSingleFrame e (Some H) c)"] p f
    by (simp add: funpow_swap1 del: funpow.simps) (simp add: funpow_Suc_right del: funpow.simps)
qed simp

lemma poll_works:
  assumes "ok (cm_world c)" and H: "keeps_receiver ok queue H"
  obtains t where "PollHardware e (Some H) c = (view c \<noteq> [], t)"
    "ok (cm_world t)" "view t = []" "cm_handled t = cm_handled c @ filter Frame_Verify (view c)"
proof -
  let ?n = "of_nat (length (view c)) :: u16"
  have cap: "length (view c) \<le> 64" using capacity [OF assms(1)] by (simp add: ReceiverBufferSize_def)
  then have u: "unat ?n = length (view c)" by (simp add: unat_of_nat)
  obtain w where w: "SendCommandWithResponse e Addr_Receiver (num_ReceiverCommand RC_GetFrameCount) [0, 0] 0 c
      = ((True, le_bytes 2 ?n), 0, c\<lparr>cm_world := w\<rparr>)" "ok w" "queue w = view c"
    using request_answered [OF frame_count [OF assms(1)] taken [OF assms(1)], of 0] by blast
  let ?b = "le_bytes 2 ?n"
  have ne: "?b \<noteq> []" using length_le_bytes [of 2 ?n] by force
  have count: "fst (Reader_ReadWordLE (Reader_Initialize ?b)) = ?n"
    "Reader_Status (snd (Reader_ReadWordLE (Reader_Initialize ?b)))"
    using ne by (simp_all add: left_simps taking_def byte_simps)
  have small: "\<not> ?n > of_nat ReceiverBufferSize"
    using u cap by (simp add: word_less_nat_alt ReceiverBufferSize_def)
  have c: "GetFrameCount e c = ((True, ?n), comm_report True (c\<lparr>cm_world := w\<rparr>))"
    using w(1) count small
    by (simp add: GetFrameCount_def reporting_def GetAggregatedResult_def case_prod_beta)
  let ?c = "comm_report True (c\<lparr>cm_world := w\<rparr>)"
  have any: "0 < ?n \<longleftrightarrow> view c \<noteq> []" using u by (simp add: word_less_nat_alt)
  define d where "d = (if 0 < ?n then ((\<lambda>c. snd (ProcessSingleFrame e (Some H) c)) ^^ unat ?n) ?c else ?c)"
  have d: "ok (cm_world d)" "view d = []" "cm_handled d = cm_handled c @ filter Frame_Verify (view c)"
    using process_all_works [OF _ H, of ?c "unat ?n"] w u any by (auto simp: d_def)
  obtain w' where r: "SendCommand e Addr_Receiver (num_ReceiverCommand RC_ResetWatchdog) 0 d = (True, 0, d\<lparr>cm_world := w'\<rparr>)"
    "ok w'" "queue w' = view d"
    using command_obeyed [OF watchdog [OF d(1)] taken [OF d(1)], of 0] by blast
  have reset: "ResetWatchdogReceiver e d = (True, comm_report True (d\<lparr>cm_world := w'\<rparr>))"
    using r(1) by (simp add: ResetWatchdogReceiver_def reporting_def GetAggregatedResult_def)
  have "PollHardware e (Some H) c = (view c \<noteq> [], comm_report True (d\<lparr>cm_world := w'\<rparr>))"
    unfolding PollHardware_def c Let_def case_prod_beta fst_conv snd_conv simp_thms(21,22) d_def [symmetric] reset any
    by (simp add: reset flip: d_def any)
  then show thesis using that r(2,3) d by simp
qed

lemma polling_delivers:
  assumes "ok (cm_world c)" and H: "keeps_receiver ok queue H"
  shows "\<exists>t. poll_until_empty e (Some H) c = Some t \<and> ok (cm_world t) \<and> view t = []
    \<and> cm_handled t = cm_handled c @ filter Frame_Verify (view c)"
proof -
  obtain t where t: "PollHardware e (Some H) c = (view c \<noteq> [], t)"
    "ok (cm_world t)" "view t = []" "cm_handled t = cm_handled c @ filter Frame_Verify (view c)"
    by (rule poll_works [OF assms])
  obtain u where u: "PollHardware e (Some H) t = (False, u)"
    "ok (cm_world u)" "view u = []" "cm_handled u = cm_handled t"
    using poll_works [OF t(2) H] t(3) by auto
  have "poll_until_empty e (Some H) t = Some u" by (subst poll_until_empty.simps) (simp add: u(1))
  then have "poll_until_empty e (Some H) c = Some (if view c \<noteq> [] then u else t)"
    by (subst poll_until_empty.simps) (simp add: t(1))
  then show ?thesis using t u by (cases "view c = []") auto
qed

end


section \<open>The buses of the satellite\<close>

text \<open>A receiver that works does so through the error handling and the fallback, which pass success on.\<close>

abbreviation flight_env :: "('s \<Rightarrow> 's) \<Rightarrow> 's II2CBus \<Rightarrow> 's comm_env \<Rightarrow> 's comm_env" where
  "flight_env power_PowerCycle payload e \<equiv>
     e\<lparr>ce_low := OBCHardwareI2C power_PowerCycle (ce_low e) payload\<rparr>"

lemma flight_write:
  "bus_Write b a bs w = (I2C_OK, w') \<Longrightarrow> bus_Write (OBCHardwareI2C pc b payload) a bs w = (I2C_OK, w')"
  by (simp add: OBCHardwareI2C_def I2CFallbackBus_def I2CErrorHandlingBus_def Fallback_Write_def ErrorHandling_Write_def)

lemma flight_read:
  "bus_Read b a out w = ((I2C_OK, out'), w') \<Longrightarrow> bus_Read (OBCHardwareI2C pc b payload) a out w = ((I2C_OK, out'), w')"
  by (simp add: OBCHardwareI2C_def I2CFallbackBus_def I2CErrorHandlingBus_def Fallback_Read_def ErrorHandling_Read_def)

lemma flight_answers:
  assumes "answers e good command out w reply"
  shows "answers (flight_env pc payload e) good command out w reply"
proof -
  let ?a = "num_comm_address Addr_Receiver"
  obtain w1 where w: "bus_Write (ce_low e) ?a [command] w = (I2C_OK, w1)"
    using assms by (cases "bus_Write (ce_low e) ?a [command] w") (auto simp: answers_def)
  then obtain w2 where r: "bus_Read (ce_low e) ?a out (ce_SleepTask e 2 w1) = ((I2C_OK, reply), w2)" "good w2"
    using assms by (cases "bus_Read (ce_low e) ?a out (ce_SleepTask e 2 w1)") (auto simp: answers_def)
  show ?thesis using flight_write [OF w] flight_read [OF r(1)] r(2) by (simp add: answers_def)
qed

lemma flight_obeys:
  assumes "obeys e good command w"
  shows "obeys (flight_env pc payload e) good command w"
proof -
  obtain w1 where w: "bus_Write (ce_low e) (num_comm_address Addr_Receiver) [command] w = (I2C_OK, w1)" "good w1"
    using assms by (cases "bus_Write (ce_low e) (num_comm_address Addr_Receiver) [command] w") (auto simp: obeys_def)
  show ?thesis using flight_write [OF w(1)] w(2) by (simp add: obeys_def)
qed

context working_receiver
begin

lemma flight_working: "working_receiver (flight_env pc payload e) ok queue"
proof
  fix w f fs and out :: bytes
  assume w: "ok w"
  show "ce_taken (flight_env pc payload e) receiverSemaphoreId w" using taken [OF w] by simp
  show "length (queue w) \<le> ReceiverBufferSize" by (rule capacity [OF w])
  show "f \<in> set (queue w) \<Longrightarrow>
      length (fr_content f) < 2 ^ 16 \<and> fr_fullFrameSize f = of_nat (length (fr_content f))"
    by (rule whole [OF w])
  show "answers (flight_env pc payload e) (\<lambda>w'. ok w' \<and> queue w' = queue w) (num_ReceiverCommand RC_GetFrameCount) [0, 0] w
      (le_bytes 2 (of_nat (length (queue w)) :: u16))"
    by (rule flight_answers [OF frame_count [OF w]])
  show "queue w = f # fs \<Longrightarrow> length out \<le> length (frame_bytes f) \<Longrightarrow>
      answers (flight_env pc payload e) (\<lambda>w'. ok w' \<and> queue w' = queue w) (num_ReceiverCommand RC_GetFrame) out w
        (take (length out) (frame_bytes f))"
    by (rule flight_answers [OF get_frame [OF w]])
  show "obeys (flight_env pc payload e) (\<lambda>w'. ok w' \<and> queue w' = tl (queue w)) (num_ReceiverCommand RC_RemoveFrame) w"
    by (rule flight_obeys [OF remove_frame [OF w]])
  show "obeys (flight_env pc payload e) (\<lambda>w'. ok w' \<and> queue w' = queue w) (num_ReceiverCommand RC_ResetWatchdog) w"
    by (rule flight_obeys [OF watchdog [OF w]])
qed

lemma flight_delivers:
  assumes "ok (cm_world c)" and "keeps_receiver ok queue H"
  shows "\<exists>t. poll_until_empty (flight_env pc payload e) (Some H) c = Some t \<and> ok (cm_world t) \<and> queue (cm_world t) = []
    \<and> cm_handled t = cm_handled c @ filter Frame_Verify (queue (cm_world c))"
  by (rule working_receiver.polling_delivers [OF flight_working assms])

end

lemmas working_receiver_delivers = working_receiver.flight_delivers

text \<open>
  C25. No received frame is lost, repeated or reordered: when the receiver works as its document says, and
  no further frame arrives meanwhile, polling ends, on the buses of the satellite with their error handling, with the queue of the receiver
  empty; the handler has been given exactly the valid frames of the queue, whole, once each and in order,
  whatever it does with the transmitter; invalid frames are dropped.
\<close>

theorem received_frames_delivered:
  assumes "working_receiver e ok queue" and "ok (cm_world c)" and "keeps_receiver ok queue frameHandler"
  shows "\<exists>t. poll_until_empty (e\<lparr>ce_low := OBCHardwareI2C power_PowerCycle (ce_low e) payload\<rparr>) (Some frameHandler) c = Some t
    \<and> queue (cm_world t) = []
    \<and> cm_handled t = cm_handled c @ filter Frame_Verify (queue (cm_world c))"
  using working_receiver_delivers [OF assms] by blast

text \<open>The receiver of the interface document, with the command it was last given, and a transmitter.\<close>

record radio =
  ra_queue :: "comm_frame list"
  ra_command :: u8

definition radio_bus :: "radio II2CBus" where
  "radio_bus =
     \<lparr>bus_Write = (\<lambda>address data s. (I2C_OK,
        if address \<noteq> 0x60 then s
        else if data = [0x24] then s\<lparr>ra_queue := tl (ra_queue s)\<rparr> else s\<lparr>ra_command := data ! 0\<rparr>)),
      bus_Read = (\<lambda>address out s. ((I2C_OK,
        if address \<noteq> 0x60 then map (\<lambda>_. 40) out
        else if ra_command s = 0x21 then le_bytes 2 (of_nat (length (ra_queue s)) :: u16)
        else take (length out) (frame_bytes (hd (ra_queue s)) @ out)), s)),
      bus_WriteRead = (\<lambda>address data out s. ((I2C_Failure, out), s))\<rparr>"

definition radio_env :: "radio comm_env" where
  "radio_env = \<lparr>ce_low = radio_bus, ce_taken = (\<lambda>_ _. True), ce_SleepTask = (\<lambda>_ s. s), ce_GetUptime = (\<lambda>_. 0)\<rparr>"

definition radio_ok :: "radio \<Rightarrow> bool" where
  "radio_ok s \<longleftrightarrow> length (ra_queue s) \<le> ReceiverBufferSize
     \<and> (\<forall>f \<in> set (ra_queue s). length (fr_content f) < 2 ^ 16 \<and> fr_fullFrameSize f = of_nat (length (fr_content f)))"

lemma radio_works: "working_receiver radio_env radio_ok ra_queue"
proof
  fix w f fs and out :: bytes
  show "radio_ok w \<Longrightarrow> ce_taken radio_env receiverSemaphoreId w" by (simp add: radio_env_def)
  show "radio_ok w \<Longrightarrow> length (ra_queue w) \<le> ReceiverBufferSize"
    and "radio_ok w \<Longrightarrow> f \<in> set (ra_queue w) \<Longrightarrow>
      length (fr_content f) < 2 ^ 16 \<and> fr_fullFrameSize f = of_nat (length (fr_content f))"
    by (simp_all add: radio_ok_def)
  show "radio_ok w \<Longrightarrow> answers radio_env (\<lambda>w'. radio_ok w' \<and> ra_queue w' = ra_queue w)
      (num_ReceiverCommand RC_GetFrameCount) [0, 0] w (le_bytes 2 (of_nat (length (ra_queue w)) :: u16))"
    by (simp add: answers_def radio_env_def radio_bus_def radio_ok_def)
  show "radio_ok w \<Longrightarrow> ra_queue w = f # fs \<Longrightarrow> length out \<le> length (frame_bytes f) \<Longrightarrow>
      answers radio_env (\<lambda>w'. radio_ok w' \<and> ra_queue w' = ra_queue w) (num_ReceiverCommand RC_GetFrame) out w
        (take (length out) (frame_bytes f))"
    by (simp add: answers_def radio_env_def radio_bus_def radio_ok_def)
  show "radio_ok w \<Longrightarrow> obeys radio_env (\<lambda>w'. radio_ok w' \<and> ra_queue w' = tl (ra_queue w))
      (num_ReceiverCommand RC_RemoveFrame) w"
    by (cases "ra_queue w") (auto simp: obeys_def radio_env_def radio_bus_def radio_ok_def)
  show "radio_ok w \<Longrightarrow> obeys radio_env (\<lambda>w'. radio_ok w' \<and> ra_queue w' = ra_queue w)
      (num_ReceiverCommand RC_ResetWatchdog) w"
    by (simp add: obeys_def radio_env_def radio_bus_def radio_ok_def)
qed

interpretation radio: working_receiver radio_env radio_ok ra_queue
  by (rule radio_works)

text \<open>A handler that answers every frame with a frame of its own.\<close>

definition echo :: "comm_frame \<Rightarrow> radio comm \<Rightarrow> radio comm" where
  "echo f c = snd (Comm_SendFrame radio_env 0 (fr_content f) c)"

lemma echo_keeps: "keeps_receiver radio_ok ra_queue echo"
  by (simp add: keeps_receiver_def echo_def Comm_SendFrame_def ScheduleFrameTransmission_def reporting_def
      SendBufferWithResponse_def on_bus_def radio_env_def radio_bus_def case_prod_beta Let_def
      Comm_ResetTransmitter_def SendCommand_def report_bool_def split: option.split)

theorem received_frames_delivered_witness:
  "let good = \<lparr>fr_doppler = 1, fr_rssi = 2, fr_fullFrameSize = 3, fr_content = [7, 8, 9]\<rparr>;
       bad = \<lparr>fr_doppler = 0xF000, fr_rssi = 2, fr_fullFrameSize = 1, fr_content = [7]\<rparr>
   in \<exists>t. poll_until_empty (radio_env\<lparr>ce_low := OBCHardwareI2C id (ce_low radio_env) radio_bus\<rparr>) (Some echo)
        (CommObject_new \<lparr>ra_queue = [good, bad, good], ra_command = 0\<rparr>) = Some t
      \<and> ra_queue (cm_world t) = [] \<and> cm_handled t = [good, good]"
  using received_frames_delivered [OF radio_works _ echo_keeps,
      of "CommObject_new \<lparr>ra_queue = [\<lparr>fr_doppler = 1, fr_rssi = 2, fr_fullFrameSize = 3, fr_content = [7, 8, 9]\<rparr>,
        \<lparr>fr_doppler = 0xF000, fr_rssi = 2, fr_fullFrameSize = 1, fr_content = [7]\<rparr>,
        \<lparr>fr_doppler = 1, fr_rssi = 2, fr_fullFrameSize = 3, fr_content = [7, 8, 9]\<rparr>], ra_command = 0\<rparr>" id radio_bus]
  by (simp add: CommObject_new_def radio_ok_def ReceiverBufferSize_def Frame_Verify_def IsDopplerValid_def
      IsRssiValid_def IsSizeValid_def IsComplete_def MaxDownlinkFrameSize_def)


section \<open>The watchdogs\<close>

text \<open>The same bus with a record of what is written on it.\<close>

definition traced :: "'s comm_env \<Rightarrow> ('s \<times> (u8 \<times> bytes) list) comm_env" where
  "traced e =
     \<lparr>ce_low =
        \<lparr>bus_Write = (\<lambda>a bs (w, ws). let (r, w) = bus_Write (ce_low e) a bs w in (r, (w, ws @ [(a, bs)]))),
         bus_Read = (\<lambda>a out (w, ws). let (r, w) = bus_Read (ce_low e) a out w in (r, (w, ws))),
         bus_WriteRead = (\<lambda>a bs out (w, ws). let (r, w) = bus_WriteRead (ce_low e) a bs out w in (r, (w, ws @ [(a, bs)])))\<rparr>,
      ce_taken = (\<lambda>i (w, ws). ce_taken e i w), ce_SleepTask = (\<lambda>d (w, ws). (ce_SleepTask e d w, ws)),
      ce_GetUptime = (\<lambda>(w, ws). ce_GetUptime e w)\<rparr>"

text \<open>Between two states of the driver the watchdog of the transmitter has not been reset.\<close>

definition starves :: "('s \<times> (u8 \<times> bytes) list) comm \<Rightarrow> ('s \<times> (u8 \<times> bytes) list) comm \<Rightarrow> bool" where
  "starves c t \<longleftrightarrow> (\<exists>ws. snd (cm_world t) = snd (cm_world c) @ ws \<and> (0x61, [0xCC]) \<notin> set ws)"

lemma starves_refl [simp]: "starves c c"
  by (simp add: starves_def)

lemma starves_trans: "starves c d \<Longrightarrow> starves d t \<Longrightarrow> starves c t"
  by (auto simp: starves_def)

lemma starves_world: "snd (cm_world t) = snd (cm_world u) \<Longrightarrow> starves c t = starves c u"
  by (simp add: starves_def)

lemma starves_report [simp]: "starves c (comm_report b t) = starves c t"
  by (rule starves_world) simp

lemma starves_write:
  "(a, bs) \<noteq> (0x61, [0xCC]) \<Longrightarrow> starves c (snd (on_bus (bus_Write (ce_low (traced e)) a bs) c))"
  by (auto simp: starves_def on_bus_def traced_def case_prod_beta)

lemma starves_read: "starves c (snd (on_bus (bus_Read (ce_low (traced e)) a out) c))"
  by (simp add: starves_def on_bus_def traced_def case_prod_beta)

lemma starves_sleep: "starves c (snd (on_bus (\<lambda>w. ((), ce_SleepTask (traced e) d w)) c))"
  by (simp add: starves_def on_bus_def traced_def case_prod_beta)

lemma starves_command:
  "(num_comm_address address, [command]) \<noteq> (0x61, [0xCC]) \<Longrightarrow>
     starves c (snd (snd (SendCommand (traced e) address command n c)))"
  using starves_write [of "num_comm_address address" "[command]" c e]
  by (simp add: SendCommand_def case_prod_beta report_bool_def)

lemma starves_request:
  assumes "(num_comm_address address, bs) \<noteq> (0x61, [0xCC])"
  shows "starves c (snd (snd (SendBufferWithResponse (traced e) address bs out n c)))"
proof -
  let ?c1 = "snd (on_bus (bus_Write (ce_low (traced e)) (num_comm_address address) bs) c)"
  let ?c2 = "snd (on_bus (\<lambda>w. ((), ce_SleepTask (traced e) 2 w)) ?c1)"
  have 1: "starves c ?c1" by (rule starves_write [OF assms])
  then have "starves c (snd (on_bus (bus_Read (ce_low (traced e)) (num_comm_address address) out) ?c2))"
    using starves_trans starves_sleep starves_read by blast
  then show ?thesis using 1 by (simp add: SendBufferWithResponse_def case_prod_beta)
qed

lemma starves_receive: "starves c (snd (snd (ReceiveFrameInternal (traced e) buffer frame n c)))"
proof -
  let ?get = "SendBufferWithResponse (traced e) Addr_Receiver [num_ReceiverCommand RC_GetFrame]"
  have r: "starves c (snd (snd (?get out n c)))" for out n c by (rule starves_request) simp
  have s: "starves c (t\<lparr>cm_lastFrameStatus := x\<rparr>) = starves c t" for x and t :: "('a \<times> (u8 \<times> bytes) list) comm"
    by (rule starves_world) simp
  have "starves c (snd (snd (?get out2 n2 (snd (snd (?get out n c))))))" for out2 n2 out
    using starves_trans r by blast
  then show ?thesis
    using r [of c "take 2 buffer" n]
    by (simp add: ReceiveFrameInternal_def SendCommandWithResponse_def Let_def case_prod_beta s
        del: num_ReceiverCommand.simps)
qed

lemma starves_get: "starves c (snd (snd (GetFrame (traced e) buffer k frame n c)))"
proof (induction k arbitrary: buffer frame n c)
  case (Suc k)
  show ?case
    using starves_receive [of c e buffer frame n] Suc.IH starves_trans
    by (simp add: Let_def case_prod_beta) blast
qed simp

lemma starves_process:
  assumes "\<forall>f c. starves c (H f c)"
  shows "starves c (snd (ProcessSingleFrame (traced e) (Some H) c))"
proof -
  let ?g = "GetFrame (traced e) (replicate PrefferedBufferSize 0) 3 Frame_empty 0 c"
  let ?c = "snd (snd ?g)"
  define d where "d = (if fst (fst ?g) \<and> Frame_Verify (snd (fst ?g))
    then H (snd (fst ?g)) (?c\<lparr>cm_handled := cm_handled ?c @ [snd (fst ?g)]\<rparr>) else ?c)"
  have h: "starves (?c\<lparr>cm_handled := x\<rparr>) t = starves ?c t" for x t by (simp add: starves_def)
  have "starves ?c d" using assms h by (auto simp: d_def)
  then have d: "starves c d" using starves_trans starves_get by blast
  have "starves d (snd (snd (SendCommand (traced e) Addr_Receiver (num_ReceiverCommand RC_RemoveFrame) n d)))" for n
    by (rule starves_command) simp
  then have "starves c (snd (snd (SendCommand (traced e) Addr_Receiver (num_ReceiverCommand RC_RemoveFrame) (fst (snd ?g)) d)))"
    using d starves_trans by blast
  then show ?thesis
    by (cases "fst (fst ?g) \<and> Frame_Verify (snd (fst ?g))")
      (auto simp: ProcessSingleFrame_def reporting_def RemoveFrameInternal_def case_prod_beta Let_def d_def
        simp del: num_ReceiverCommand.simps)
qed

lemma starves_funpow: "(\<And>c. starves c (f c)) \<Longrightarrow> starves c ((f ^^ k) c)"
  by (induction k) (auto intro: starves_trans)

lemma starves_poll:
  assumes "\<forall>w. ce_taken e receiverSemaphoreId w \<and> fst (bus_Write (ce_low e) 0x60 [0xCC] w) = I2C_OK"
    and "\<forall>f c. starves c (H f c)"
  shows "starves c (snd (PollHardware (traced e) (Some H) c))"
proof -
  let ?g = "GetFrameCount (traced e) c"
  let ?c = "snd ?g"
  have "starves c (snd (snd (SendBufferWithResponse (traced e) Addr_Receiver [num_ReceiverCommand RC_GetFrameCount] out n c)))" for out n
    by (rule starves_request) simp
  then have g: "starves c ?c"
    by (simp add: GetFrameCount_def reporting_def SendCommandWithResponse_def case_prod_beta Let_def
        del: num_ReceiverCommand.simps)
  let ?any = "fst (fst ?g) \<and> 0 < snd (fst ?g)"
  define d where "d = (if ?any then ((\<lambda>c. snd (ProcessSingleFrame (traced e) (Some H) c)) ^^ unat (snd (fst ?g))) ?c else ?c)"
  have "starves ?c d" using starves_funpow [OF starves_process [OF assms(2)]] by (simp add: d_def)
  then have d: "starves c d" by (rule starves_trans [OF g])
  have "starves d (snd (ResetWatchdogReceiver (traced e) d))"
    using starves_command [of Addr_Receiver "0xCC" d e 0]
    by (simp add: ResetWatchdogReceiver_def reporting_def case_prod_beta)
  then have r: "starves c (snd (ResetWatchdogReceiver (traced e) d))" by (rule starves_trans [OF d])
  have "fst (ResetWatchdogReceiver (traced e) d)"
    using assms(1)
    by (simp add: ResetWatchdogReceiver_def reporting_def SendCommand_def comm_semaphore_def on_bus_def traced_def
        case_prod_beta report_bool_def)
  then have "snd (PollHardware (traced e) (Some H) c) = snd (ResetWatchdogReceiver (traced e) d)"
    unfolding d_def by (simp add: PollHardware_def Let_def case_prod_beta)
  then show ?thesis using r by simp
qed

text \<open>
  C27. The two watchdogs are to be reset in every poll, but the second is reset only when resetting the
  first has failed: as long as the receiver acknowledges, however often the driver polls and whatever
  is received, the watchdog of the transmitter is never reset, unless the handler does so.
\<close>

theorem transmitter_watchdog_starved:
  assumes "\<forall>w. ce_taken e receiverSemaphoreId w \<and> fst (bus_Write (ce_low e) 0x60 [0xCC] w) = I2C_OK"
    and "\<forall>f c. starves c (frameHandler f c)"
  shows "starves c (((\<lambda>c. snd (PollHardware (traced e) (Some frameHandler) c)) ^^ k) c)"
  by (rule starves_funpow, rule starves_poll [OF assms])

theorem transmitter_watchdog_starved_witness:
  "starves (CommObject_new (\<lparr>ra_queue = [\<lparr>fr_doppler = 1, fr_rssi = 2, fr_fullFrameSize = 3, fr_content = [7, 8, 9]\<rparr>],
       ra_command = 0\<rparr>, []))
     (((\<lambda>c. snd (PollHardware (traced radio_env) (Some (\<lambda>f c. c)) c)) ^^ 100)
       (CommObject_new (\<lparr>ra_queue = [\<lparr>fr_doppler = 1, fr_rssi = 2, fr_fullFrameSize = 3, fr_content = [7, 8, 9]\<rparr>],
         ra_command = 0\<rparr>, [])))"
  by (rule transmitter_watchdog_starved) (simp_all add: radio_env_def radio_bus_def)


section \<open>Sending a frame\<close>

text \<open>A frame counts as sent only when it has been written whole and the transmitter has accepted it.\<close>

lemma sent_frames_accepted:
  assumes "fst (Comm_SendFrame e junk frame c)"
  shows "length frame \<le> MaxDownlinkFrameSize
    \<and> (\<exists>w1 out w2. bus_Write (ce_low e) 0x61 (0x10 # frame) (cm_world c) = (I2C_OK, w1)
        \<and> bus_Read (ce_low e) 0x61 [junk] (ce_SleepTask e 2 w1) = ((I2C_OK, out), w2) \<and> out ! 0 \<noteq> 0xFF)"
proof -
  have len: "length frame \<le> MaxDownlinkFrameSize"
    using assms by (auto simp: Comm_SendFrame_def reporting_def ScheduleFrameTransmission_def split: if_splits)
  let ?r = "SendBufferWithResponse e Addr_Transmitter (0x10 # frame) [junk] 0 c"
  have status: "fst (fst ?r)" "snd (fst ?r) ! 0 \<noteq> 0xFF"
    using assms len
    by (auto simp: Comm_SendFrame_def reporting_def ScheduleFrameTransmission_def case_prod_beta Let_def split: if_splits)
  obtain r w1 where w: "bus_Write (ce_low e) 0x61 (0x10 # frame) (cm_world c) = (r, w1)" by fastforce
  obtain r2 out w2 where r: "bus_Read (ce_low e) 0x61 [junk] (ce_SleepTask e 2 w1) = ((r2, out), w2)"
    by (metis prod.collapse)
  have "r = I2C_OK \<and> r2 = I2C_OK \<and> out ! 0 \<noteq> 0xFF"
    using status by (auto simp: SendBufferWithResponse_def on_bus_def w r split: if_splits)
  then show ?thesis using len w r by blast
qed

text \<open>
  When a frame cannot be written to the transmitter, the number of free slots is not known, but it is
  evaluated: \<open>SendFrame\<close> compares what its uninitialised variable holds with the number that the last
  transmission left. If fifteen seconds have passed, a value below that number restarts the transmitter,
  which drops the frames it has still to send; any other value is stored as if it had been reported.
\<close>

theorem failed_send_undefined:
  assumes "bus_Write (ce_low e) 0x61 (0x10 # frame) (cm_world c) = (result, w)" and "result \<noteq> I2C_OK"
    and "ce_taken e transmitterSemaphoreId (cm_world c)" and "length frame \<le> MaxDownlinkFrameSize"
    and "cm_lastSend c = Some (timestamp, freeSlots)" and "ce_GetUptime e w - timestamp \<ge> 15000"
  defines "c' \<equiv> c\<lparr>cm_world := w\<rparr>"
  shows "Comm_SendFrame e junk frame c =
    (False, comm_report False
      (if sint junk < uint freeSlots then (snd (Comm_ResetTransmitter e c'))\<lparr>cm_lastSend := None\<rparr>
       else c'\<lparr>cm_lastSend := Some (ce_GetUptime e w, junk)\<rparr>))"
proof -
  have send: "SendBufferWithResponse e Addr_Transmitter (0x10 # frame) [j] 0 c = ((False, [j]), 1, c')" for j
    using assms(1-3)
    by (simp add: SendBufferWithResponse_def comm_semaphore_def on_bus_def c'_def Aggregated_Failure_def)
  have n: "GetAggregatedResult (Aggregated_Failure 1) = False" "GetAggregatedResult 1 = False"
    by (simp_all add: GetAggregatedResult_def Aggregated_Failure_def)
  have c': "cm_lastSend c' = Some (timestamp, freeSlots)" "cm_world c' = w" using assms(5) by (simp_all add: c'_def)
  show ?thesis
    using assms(4,6) n
    by (simp add: Comm_SendFrame_def reporting_def ScheduleFrameTransmission_def send c' Let_def case_prod_beta)
qed

theorem failed_send_undefined_witness:
  "let e = radio_env\<lparr>ce_low := radio_bus\<lparr>bus_Write := (\<lambda>_ _ s. (I2C_Nack, s))\<rparr>, ce_GetUptime := (\<lambda>_. 60000)\<rparr>;
       c = (CommObject_new \<lparr>ra_queue = [], ra_command = 0\<rparr>)\<lparr>cm_lastSend := Some (0, 10)\<rparr>
   in cm_lastSend (snd (Comm_SendFrame e 3 [1, 2] c)) = None
    \<and> cm_lastSend (snd (Comm_SendFrame e 30 [1, 2] c)) = Some (60000, 30)"
proof -
  let ?e = "radio_env\<lparr>ce_low := radio_bus\<lparr>bus_Write := (\<lambda>_ _ s. (I2C_Nack, s))\<rparr>, ce_GetUptime := (\<lambda>_. 60000)\<rparr>"
  let ?w = "\<lparr>ra_queue = [], ra_command = 0\<rparr>"
  let ?c = "(CommObject_new ?w)\<lparr>cm_lastSend := Some (0, 10)\<rparr>"
  have r: "Comm_SendFrame ?e junk [1, 2] ?c = (False, comm_report False
      (if sint junk < uint (10 :: u8) then (snd (Comm_ResetTransmitter ?e (?c\<lparr>cm_world := ?w\<rparr>)))\<lparr>cm_lastSend := None\<rparr>
       else ?c\<lparr>cm_world := ?w, cm_lastSend := Some (60000, junk)\<rparr>))" for junk
    using failed_send_undefined [of ?e "[1, 2]" ?c I2C_Nack ?w 0 10 junk]
    by (simp add: radio_env_def radio_bus_def CommObject_new_def MaxDownlinkFrameSize_def)
  show ?thesis using r [of 3] r [of 30] by (simp add: Let_def)
qed

section \<open>Whatever the bus answers\<close>

text \<open>
  Nothing is assumed of the receiver or the bus here: frames that do not verify never reach the
  handler, and a poll handles at most as many as the receiver has buffers.
\<close>

definition handles :: "'s comm \<Rightarrow> comm_frame list \<Rightarrow> 's comm \<Rightarrow> bool" where
  "handles c fs t \<longleftrightarrow> cm_handled t = cm_handled c @ fs \<and> (\<forall>f \<in> set fs. Frame_Verify f)"

lemma on_bus_handled [simp]: "cm_handled (snd (on_bus f c)) = cm_handled c"
  by (simp add: on_bus_def case_prod_beta)

lemma SendCommand_handled [simp]: "cm_handled (snd (snd (SendCommand e a cmd n c))) = cm_handled c"
  by (simp add: SendCommand_def case_prod_beta report_bool_def)

lemma request_handled [simp]: "cm_handled (snd (snd (SendBufferWithResponse e a bs out n c))) = cm_handled c"
  by (simp add: SendBufferWithResponse_def case_prod_beta)

lemma receive_handled [simp]: "cm_handled (snd (snd (ReceiveFrameInternal e buffer frame n c))) = cm_handled c"
  by (simp add: ReceiveFrameInternal_def SendCommandWithResponse_def Let_def case_prod_beta)

lemma get_handled [simp]: "cm_handled (snd (snd (GetFrame e buffer k frame n c))) = cm_handled c"
  by (induction k arbitrary: buffer frame n c) (simp_all add: Let_def case_prod_beta)

lemma count_handled [simp]: "cm_handled (snd (GetFrameCount e c)) = cm_handled c"
  by (simp add: GetFrameCount_def reporting_def SendCommandWithResponse_def Let_def case_prod_beta)

lemma count_bounded: "fst (fst (GetFrameCount e c)) \<Longrightarrow> unat (snd (fst (GetFrameCount e c))) \<le> ReceiverBufferSize"
  by (auto simp: GetFrameCount_def reporting_def SendCommandWithResponse_def Let_def case_prod_beta ReceiverBufferSize_def
      word_less_nat_alt not_less split: if_splits)

lemma process_handles:
  assumes "\<forall>f c. cm_handled (H f c) = cm_handled c"
  shows "\<exists>fs. handles c fs (snd (ProcessSingleFrame e (Some H) c)) \<and> length fs \<le> 1"
proof -
  let ?g = "GetFrame e (replicate PrefferedBufferSize 0) 3 Frame_empty 0 c"
  let ?fs = "if fst (fst ?g) \<and> Frame_Verify (snd (fst ?g)) then [snd (fst ?g)] else []"
  have "handles c ?fs (snd (ProcessSingleFrame e (Some H) c))"
    using assms
    by (simp add: handles_def ProcessSingleFrame_def reporting_def RemoveFrameInternal_def Let_def case_prod_beta)
  then show ?thesis by (intro exI [of _ ?fs]) simp
qed

lemma process_all_handles:
  assumes "\<forall>f c. cm_handled (H f c) = cm_handled c"
  shows "\<exists>fs. handles c fs (((\<lambda>c. snd (ProcessSingleFrame e (Some H) c)) ^^ k) c) \<and> length fs \<le> k"
proof (induction k)
  case (Suc k)
  let ?t = "((\<lambda>c. snd (ProcessSingleFrame e (Some H) c)) ^^ k) c"
  obtain fs where fs: "handles c fs ?t" "length fs \<le> k" using Suc by blast
  obtain gs where gs: "handles ?t gs (snd (ProcessSingleFrame e (Some H) ?t))" "length gs \<le> 1"
    using process_handles [OF assms, of ?t] by blast
  show ?case using fs gs by (intro exI [of _ "fs @ gs"]) (auto simp: handles_def)
qed (simp add: handles_def)

text \<open>
  C26. Whatever the bus and the receiver answer, broken transfers and impossible frame counts included, a
  poll gives the handler only frames that verify, and at most sixty-four of them.
\<close>

theorem polled_frames_verified:
  assumes "\<forall>f c. cm_handled (frameHandler f c) = cm_handled c"
  shows "\<exists>fs. cm_handled (snd (PollHardware e (Some frameHandler) c)) = cm_handled c @ fs
    \<and> (\<forall>f \<in> set fs. Frame_Verify f) \<and> length fs \<le> ReceiverBufferSize"
proof -
  let ?g = "GetFrameCount e c"
  let ?any = "fst (fst ?g) \<and> 0 < snd (fst ?g)"
  let ?d = "if ?any then ((\<lambda>c. snd (ProcessSingleFrame e (Some frameHandler) c)) ^^ unat (snd (fst ?g))) (snd ?g) else snd ?g"
  obtain fs where fs: "handles (snd ?g) fs ?d" "length fs \<le> ReceiverBufferSize"
  proof (cases ?any)
    case True
    obtain fs where "handles (snd ?g) fs ?d" "length fs \<le> unat (snd (fst ?g))"
      using process_all_handles [OF assms, where c = "snd ?g" and e = e and k = "unat (snd (fst ?g))"] True by auto
    then show thesis using that count_bounded [of e c] True by (meson order_trans)
  qed (rule that [of "[]"], simp_all only: if_False, simp_all add: handles_def)
  have "cm_handled (snd (PollHardware e (Some frameHandler) c)) = cm_handled ?d"
    by (simp add: PollHardware_def ResetWatchdogReceiver_def ResetWatchdogTransmitter_def reporting_def Let_def case_prod_beta)
  then show ?thesis using fs by (auto simp: handles_def)
qed

theorem polled_frames_verified_witness:
  "let e = radio_env\<lparr>ce_low := radio_bus\<lparr>bus_Read := (\<lambda>_ out s. ((I2C_OK, map (\<lambda>_. 1) out), s))\<rparr>\<rparr>
   in \<exists>fs. cm_handled (snd (PollHardware e (Some echo) (CommObject_new \<lparr>ra_queue = [], ra_command = 0\<rparr>))) = [] @ fs
     \<and> (\<forall>f \<in> set fs. Frame_Verify f) \<and> length fs \<le> ReceiverBufferSize"
  using polled_frames_verified [of echo "radio_env\<lparr>ce_low := radio_bus\<lparr>bus_Read := (\<lambda>_ out s. ((I2C_OK, map (\<lambda>_. 1) out), s))\<rparr>\<rparr>"
      "CommObject_new \<lparr>ra_queue = [], ra_command = 0\<rparr>"] echo_keeps
  by (simp add: keeps_receiver_def Let_def CommObject_new_def)


section \<open>The bits of the telemetry\<close>

definition appends :: "bool list \<Rightarrow> (bitwriter \<Rightarrow> bitwriter) \<Rightarrow> bool" where
  "appends bs f \<longleftrightarrow> (\<forall>w. bw_wf w \<longrightarrow> room (length bs) w \<longrightarrow>
     bw_wf (f w) \<and> bw_valid (f w) \<and> length (bw_buf (f w)) = length (bw_buf w) \<and> bw_bits (f w) = bw_bits w @ bs)"

lemma appends_emit: "(\<And>w. bw_wf w \<Longrightarrow> bit_emit bs w (f w)) \<Longrightarrow> appends bs (\<lambda>w. snd (f w))"
  by (fastforce simp: appends_def bit_emit_def)

lemma appends_then:
  assumes "appends bs f" and "appends cs g"
  shows "appends (bs @ cs) (\<lambda>w. g (f w))"
  unfolding appends_def
proof (intro allI impI)
  fix w assume w: "bw_wf w" "room (length (bs @ cs)) w"
  then have "room (length bs) w" by (simp add: room_def)
  then have f: "bw_wf (f w)" "bw_valid (f w)" "length (bw_buf (f w)) = length (bw_buf w)" "bw_bits (f w) = bw_bits w @ bs"
    using assms(1) w(1) by (simp_all add: appends_def)
  have "bitlen (f w) = bitlen w + length bs"
    using bitlen_bw_bits [OF f(1)] bitlen_bw_bits [OF w(1)] f(4) by simp
  then have "room (length cs) (f w)" using w(2) f(2,3) by (simp add: room_def)
  then show "bw_wf (g (f w)) \<and> bw_valid (g (f w)) \<and> length (bw_buf (g (f w))) = length (bw_buf w)
      \<and> bw_bits (g (f w)) = bw_bits w @ bs @ cs"
    using assms(2) f by (simp add: appends_def)
qed

lemma appends_field: "appends (word_bits 12 v) (\<lambda>w. snd (BitWriter_WriteWord v 12 w))"
  "appends (word_bits 2 v) (\<lambda>w. snd (BitWriter_WriteWord v 2 w))"
  "appends (word_bits 17 q) (\<lambda>w. snd (BitWriter_WriteQuadWord q 17 w))"
  "appends [b] (\<lambda>w. snd (BitWriter_Write_bool b w))"
  using WriteWord_emit [of _ 12 v] WriteWord_emit [of _ 2 v] WriteQuadWord_emit [of _ 17 q] Write_bool_emit [of _ b]
  by (auto intro!: appends_emit)

definition transmitter_bits :: "TransmitterTelemetry \<Rightarrow> bool list" where
  "transmitter_bits t =
     word_bits 17 (of_int (tx_Uptime t) :: u64) @ word_bits 2 (num_bitrate_field (tx_TransmitterBitRate t))
     @ concat (map (word_bits 12) [tx_LastTransmittedRFReflectedPower t, tx_LastTransmittedAmplifierTemperature t,
         tx_LastTransmittedRFForwardPower t, tx_LastTransmittedTransmitterCurrentConsumption t,
         tx_NowRFForwardPower t, tx_NowTransmitterCurrentConsumption t])
     @ [tx_StateWhenIdle t, tx_BeaconState t]"

definition receiver_bits :: "ReceiverTelemetry \<Rightarrow> bool list" where
  "receiver_bits t =
     word_bits 17 (of_int (rx_Uptime t) :: u64)
     @ concat (map (word_bits 12) [rx_LastReceivedDopplerOffset t, rx_LastReceivedRSSI t, rx_NowDopplerOffset t,
         rx_NowReceiverCurrentConsumption t, rx_NowVoltage t, rx_NowOscilatorTemperature t, rx_NowAmplifierTemperature t,
         rx_NowRSSI t])"

lemma transmitter_appends: "appends (transmitter_bits t) (TransmitterTelemetry_Write t)"
proof -
  have "appends (((((((((word_bits 17 (of_int (tx_Uptime t) :: u64) @ word_bits 2 (num_bitrate_field (tx_TransmitterBitRate t)))
      @ word_bits 12 (tx_LastTransmittedRFReflectedPower t)) @ word_bits 12 (tx_LastTransmittedAmplifierTemperature t))
      @ word_bits 12 (tx_LastTransmittedRFForwardPower t)) @ word_bits 12 (tx_LastTransmittedTransmitterCurrentConsumption t))
      @ word_bits 12 (tx_NowRFForwardPower t)) @ word_bits 12 (tx_NowTransmitterCurrentConsumption t))
      @ [tx_StateWhenIdle t]) @ [tx_BeaconState t]) (TransmitterTelemetry_Write t)"
    unfolding TransmitterTelemetry_Write_def Let_def by (intro appends_then appends_field)
  then show ?thesis by (simp add: transmitter_bits_def)
qed

lemma receiver_appends: "appends (receiver_bits t) (ReceiverTelemetry_Write t)"
proof -
  have "appends ((((((((word_bits 17 (of_int (rx_Uptime t) :: u64) @ word_bits 12 (rx_LastReceivedDopplerOffset t))
      @ word_bits 12 (rx_LastReceivedRSSI t)) @ word_bits 12 (rx_NowDopplerOffset t))
      @ word_bits 12 (rx_NowReceiverCurrentConsumption t)) @ word_bits 12 (rx_NowVoltage t))
      @ word_bits 12 (rx_NowOscilatorTemperature t)) @ word_bits 12 (rx_NowAmplifierTemperature t))
      @ word_bits 12 (rx_NowRSSI t)) (ReceiverTelemetry_Write t)"
    unfolding ReceiverTelemetry_Write_def Let_def by (intro appends_then appends_field)
  then show ?thesis by (simp add: receiver_bits_def)
qed

text \<open>The telemetry of the transceiver takes the 206 bits that the code reserves for it.\<close>

lemma comm_telemetry_bits:
  assumes "bw_wf w" and "room 206 w"
  shows "bw_bits (CommTelemetry_Write (t, r) w) = bw_bits w @ transmitter_bits t @ receiver_bits r"
    and "length (transmitter_bits t @ receiver_bits r) = 206"
proof -
  show l: "length (transmitter_bits t @ receiver_bits r) = 206" by (simp add: transmitter_bits_def receiver_bits_def)
  have "appends (transmitter_bits t @ receiver_bits r) (CommTelemetry_Write (t, r))"
    unfolding CommTelemetry_Write_def prod.case by (rule appends_then [OF transmitter_appends receiver_appends])
  then show "bw_bits (CommTelemetry_Write (t, r) w) = bw_bits w @ transmitter_bits t @ receiver_bits r"
    using assms l by (simp only: appends_def)
qed

end
