(* ===== verification/Experiment_Files.thy ===== *)
theory Experiment_Files
  imports Byte_Writer File_System
begin

text \<open>
  The container file of the experiments (libs/experiments/fs/ExperimentFile.cpp): blocks of data, each
  behind the byte of its identifier, in packets of the size the downlink carries. The file and its
  packet buffer are the record; the file system, the clock and the delegate are what they are given.
\<close>

section \<open>Packets\<close>

datatype PID =
    PID_Reserved | PID_Timestamp | PID_Error
  | PID_Gyro | PID_ExperimentalSunSPrimary | PID_ExperimentalSunSSecondary | PID_SupplySADSTemperature | PID_Sail
  | PID_Magnetometer | PID_Dipoles
  | PID_PayloadWhoami | PID_PayloadSunS | PID_PayloadTemperatures | PID_PayloadPhotodiodes
  | PID_PayloadHousekeeping | PID_PayloadRadFet | PID_PayloadExperimentMainTelemetry | PID_CameraSyncCount
  | PID_SADSTemperature
  | PID_Synchronization | PID_Continuation | PID_Padding

primrec num_PID :: "PID \<Rightarrow> u8" where
  "num_PID PID_Reserved = 0"
| "num_PID PID_Timestamp = 1"
| "num_PID PID_Error = 2"
| "num_PID PID_Gyro = 0x10"
| "num_PID PID_ExperimentalSunSPrimary = 0x11"
| "num_PID PID_ExperimentalSunSSecondary = 0x12"
| "num_PID PID_SupplySADSTemperature = 0x17"
| "num_PID PID_Sail = 0x18"
| "num_PID PID_Magnetometer = 0x19"
| "num_PID PID_Dipoles = 0x20"
| "num_PID PID_PayloadWhoami = 0x30"
| "num_PID PID_PayloadSunS = 0x31"
| "num_PID PID_PayloadTemperatures = 0x32"
| "num_PID PID_PayloadPhotodiodes = 0x33"
| "num_PID PID_PayloadHousekeeping = 0x34"
| "num_PID PID_PayloadRadFet = 0x35"
| "num_PID PID_PayloadExperimentMainTelemetry = 0x36"
| "num_PID PID_CameraSyncCount = 0x37"
| "num_PID PID_SADSTemperature = 0x41"
| "num_PID PID_Synchronization = 0x47"
| "num_PID PID_Continuation = 0xFE"
| "num_PID PID_Padding = 0xFF"

definition PacketLength :: nat where "PacketLength = 230"

definition PaddingData :: u8 where "PaddingData = 0xFF"

text \<open>
  The writer views the packet buffer, so the buffer is the writer's. The clock is the optional time
  provider; it may have no time.
\<close>

record 's ExperimentFile =
  ef_writer :: writer
  ef_file :: File
  ef_time :: "('s \<Rightarrow> u64 option \<times> 's) option"
  ef_hasPayload :: bool
  ef_onFlush :: "bytes \<Rightarrow> 's \<Rightarrow> 's"

definition ExperimentFile_new :: "('s \<Rightarrow> u64 option \<times> 's) option \<Rightarrow> 's ExperimentFile" where
  "ExperimentFile_new time =
     \<lparr>ef_writer = Writer_Initialize (replicate PacketLength 0xAA), ef_file = None, ef_time = time,
      ef_hasPayload = False, ef_onFlush = (\<lambda>_ s. s)\<rparr>"

definition ExperimentFile_SetOnFlush :: "(bytes \<Rightarrow> 's \<Rightarrow> 's) \<Rightarrow> 's ExperimentFile \<Rightarrow> 's ExperimentFile" where
  "ExperimentFile_SetOnFlush f e = e\<lparr>ef_onFlush := f\<rparr>"

text \<open>The move constructor: the new object, and what it leaves of the other.\<close>

definition ExperimentFile_move :: "'s ExperimentFile \<Rightarrow> 's ExperimentFile \<times> 's ExperimentFile" where
  "ExperimentFile_move other =
     (\<lparr>ef_writer = snd (Writer_Reserve (unat (Writer_GetDataLength (ef_writer other)))
                         (Writer_Initialize (w_buf (ef_writer other)))),
       ef_file = ef_file other, ef_time = ef_time other, ef_hasPayload = ef_hasPayload other,
       ef_onFlush = (\<lambda>_ s. s)\<rparr>,
      other\<lparr>ef_time := None, ef_hasPayload := False, ef_file := None\<rparr>)"

section \<open>Writing\<close>

definition FillBufferWithPadding :: "'s ExperimentFile \<Rightarrow> 's ExperimentFile" where
  "FillBufferWithPadding e =
     (if Writer_RemainingSize (ef_writer e) < 1 then e
      else
        (let w = snd (Writer_WriteByte (num_PID PID_Padding) (ef_writer e));
             w = snd (Writer_Fill PaddingData w)
         in e\<lparr>ef_writer := w, ef_hasPayload := True\<rparr>))"

definition InitializePacket :: "'s ExperimentFile \<Rightarrow> 's \<Rightarrow> 's ExperimentFile \<times> 's" where
  "InitializePacket e s =
     (let w = Writer_Reset (ef_writer e);
          w = snd (Writer_WriteByte (num_PID PID_Synchronization) w);
          (w, s) =
            (case ef_time e of
               None \<Rightarrow> (w, s)
             | Some GetCurrentTime \<Rightarrow>
                 (case GetCurrentTime s of
                    (None, s) \<Rightarrow> (w, s)
                  | (Some timestamp, s) \<Rightarrow>
                      (let w = snd (Writer_WriteByte (num_PID PID_Timestamp) w)
                       in (snd (Writer_WriteQuadWordLE timestamp w), s))))
      in (e\<lparr>ef_writer := w, ef_hasPayload := False\<rparr>, s))"

definition FlushInternal ::
  "'s IFileSystem \<Rightarrow> bool \<Rightarrow> 's ExperimentFile \<Rightarrow> 's \<Rightarrow> OSResult \<times> 's ExperimentFile \<times> 's" where
  "FlushInternal fs initialize e s =
     (let e = FillBufferWithPadding e;
          ((status, n), s) = File_Write fs (ef_file e) (w_buf (ef_writer e)) s
      in if OS_RESULT_FAILED status then (status, e, s)
         else
           (let s = ef_onFlush e (w_buf (ef_writer e)) s;
                (e, s) = (if initialize then InitializePacket e s else (e, s))
            in (OS_Success, e, s)))"

definition ExperimentFile_Flush ::
  "'s IFileSystem \<Rightarrow> 's ExperimentFile \<Rightarrow> 's \<Rightarrow> OSResult \<times> 's ExperimentFile \<times> 's" where
  "ExperimentFile_Flush fs e s = FlushInternal fs True e s"

text \<open>
  The loop over a block that does not fit. The space left is computed as \<open>uint32_t\<close>: in a full packet
  it would be the largest one.
\<close>

partial_function (option) WriteDataBiggerThanFrame ::
  "'s IFileSystem \<Rightarrow> PID \<Rightarrow> bytes \<Rightarrow> 's ExperimentFile \<Rightarrow> 's \<Rightarrow> (OSResult \<times> 's ExperimentFile \<times> 's) option" where
  "WriteDataBiggerThanFrame fs pid data e s =
     (if data = [] then Some (OS_Success, e, s)
      else
        (let n = min (length data) (unat (of_int (Writer_RemainingSize (ef_writer e)) - 1 :: u32));
             w = snd (Writer_WriteByte (num_PID pid) (ef_writer e));
             w = snd (Writer_WriteArray (take n data) w);
             e = e\<lparr>ef_writer := w, ef_hasPayload := True\<rparr>
         in if Writer_RemainingSize w = 0
            then
              (let (r, e, s) = ExperimentFile_Flush fs e s
               in if OS_RESULT_FAILED r then Some (r, e, s)
                  else
                    WriteDataBiggerThanFrame fs pid (drop n data)
                      (e\<lparr>ef_writer := snd (Writer_WriteByte (num_PID PID_Continuation) (ef_writer e))\<rparr>) s)
            else WriteDataBiggerThanFrame fs pid (drop n data) e s))"

text \<open>The result of the loop is not looked at.\<close>

definition ExperimentFile_Write ::
  "'s IFileSystem \<Rightarrow> PID \<Rightarrow> bytes \<Rightarrow> 's ExperimentFile \<Rightarrow> 's \<Rightarrow> (OSResult \<times> 's ExperimentFile \<times> 's) option" where
  "ExperimentFile_Write fs pid data e s =
     (if length data + 1 \<le> unat (of_int (Writer_RemainingSize (ef_writer e)) :: u32)
      then
        (let w = snd (Writer_WriteByte (num_PID pid) (ef_writer e));
             w = snd (Writer_WriteArray data w)
         in Some (OS_Success, e\<lparr>ef_writer := w, ef_hasPayload := True\<rparr>, s))
      else
        (let (r, e, s) =
               (if ef_hasPayload e then ExperimentFile_Flush fs (FillBufferWithPadding e) s
                else (OS_Success, e, s))
         in if OS_RESULT_FAILED r then Some (r, e, s)
            else map_option (\<lambda>(r, e, s). (OS_Success, e, s)) (WriteDataBiggerThanFrame fs pid data e s)))"

text \<open>Opening over a file that is open closes that one: the old \<open>File\<close> is destroyed after the assignment.\<close>

definition ExperimentFile_Open ::
  "'s IFileSystem \<Rightarrow> bytes \<Rightarrow> FileOpen \<Rightarrow> FileAccess \<Rightarrow> 's ExperimentFile \<Rightarrow> 's \<Rightarrow> bool \<times> 's ExperimentFile \<times> 's" where
  "ExperimentFile_Open fs path mode access e s =
     (let (f, s) = File_open fs path mode access s;
          s = File_drop fs (ef_file e) s;
          e = e\<lparr>ef_file := f\<rparr>
      in if f = None then (False, e, s)
         else (let (e, s) = InitializePacket e s in (True, e, s)))"

definition ExperimentFile_Close ::
  "'s IFileSystem \<Rightarrow> 's ExperimentFile \<Rightarrow> 's \<Rightarrow> OSResult \<times> 's ExperimentFile \<times> 's" where
  "ExperimentFile_Close fs e s =
     (let (r, e, s) = (if ef_hasPayload e then FlushInternal fs False e s else (OS_Success, e, s))
      in if OS_RESULT_FAILED r then (r, e, s)
         else
           (let (r, f, s) = File_Close fs (ef_file e) s
            in (r, e\<lparr>ef_file := f\<rparr>, s)))"

text \<open>The destructor; the member \<open>File\<close> is destroyed with the object.\<close>

definition ExperimentFile_drop :: "'s IFileSystem \<Rightarrow> 's ExperimentFile \<Rightarrow> 's \<Rightarrow> 's" where
  "ExperimentFile_drop fs e s =
     (let (e, s) = (if ef_hasPayload e then snd (ExperimentFile_Close fs e s) else (e, s))
      in File_drop fs (ef_file e) s)"


section \<open>Reading on the ground\<close>

text \<open>
  The reader of doc/ExperimentFile.md. \<open>len\<close> is the length of the data that the decoder of an identifier
  asks for. The second argument is the block that the last packet has left incomplete. A continuation of
  no such block is ignored.
\<close>

function read_packet ::
  "(u8 \<Rightarrow> nat) \<Rightarrow> (u8 \<times> bytes) option \<Rightarrow> bytes \<Rightarrow> (u8 \<times> bytes) list \<times> (u8 \<times> bytes) option" where
  "read_packet len c [] = ([], c)"
| "read_packet len c (p # bs) =
     (if p = num_PID PID_Padding then ([], c)
      else if p = num_PID PID_Continuation
      then
        (case bs of
           [] \<Rightarrow> ([], None)
         | q # bs' \<Rightarrow>
             (case c of
                None \<Rightarrow> read_packet len None (drop (len q) bs')
              | Some (q', acc) \<Rightarrow>
                  if q' \<noteq> q then read_packet len None (drop (len q) bs')
                  else if length bs' < len q - length acc then ([], Some (q, acc @ bs'))
                  else
                    (let (b, c') = read_packet len None (drop (len q - length acc) bs')
                     in ((q, acc @ take (len q - length acc) bs') # b, c'))))
      else if length bs < len p then ([], Some (p, bs))
      else
        (let (b, c') = read_packet len (if p = num_PID PID_Timestamp then c else None) (drop (len p) bs)
         in ((p, take (len p) bs) # b, c')))"
  by pat_completeness auto
termination by (relation "measure (\<lambda>(len, c, bs). length bs)") auto

fun read_packets ::
  "(u8 \<Rightarrow> nat) \<Rightarrow> (u8 \<times> bytes) option \<Rightarrow> bytes list \<Rightarrow> (u8 \<times> bytes) list \<times> (u8 \<times> bytes) option" where
  "read_packets len c [] = ([], c)"
| "read_packets len c (k # ks) =
     (if k \<noteq> [] \<and> hd k = num_PID PID_Synchronization
      then
        (let (b, c') = read_packet len c (tl k);
             (b', c'') = read_packets len c' ks
         in (b @ b', c''))
      else read_packets len c ks)"

text \<open>The blocks of data, without the timestamps at the start of the packets.\<close>

definition data_blocks :: "(u8 \<times> bytes) list \<Rightarrow> (u8 \<times> bytes) list" where
  "data_blocks bs = filter (\<lambda>(p, d). p \<noteq> num_PID PID_Timestamp) bs"

lemma data_blocks_simps [simp]:
  "data_blocks [] = []" "data_blocks (xs @ ys) = data_blocks xs @ data_blocks ys"
  "data_blocks ((p, d) # bs) = (if p = num_PID PID_Timestamp then data_blocks bs else (p, d) # data_blocks bs)"
  by (simp_all add: data_blocks_def)

lemma read_packets_append:
  "read_packets len c (ks @ ls) =
     (let (b, c') = read_packets len c ks; (b', c'') = read_packets len c' ls in (b @ b', c''))"
  by (induction ks arbitrary: c) (simp_all add: Let_def case_prod_beta)

text \<open>The bytes \<open>xs\<close> are whole elements of a packet: reading them and going on is reading on.\<close>

definition reads ::
  "(u8 \<Rightarrow> nat) \<Rightarrow> (u8 \<times> bytes) option \<Rightarrow> bytes \<Rightarrow> (u8 \<times> bytes) list \<Rightarrow> (u8 \<times> bytes) option \<Rightarrow> bool" where
  "reads len c xs b c' \<longleftrightarrow>
     (\<forall>ys. read_packet len c (xs @ ys) = (b @ fst (read_packet len c' ys), snd (read_packet len c' ys)))"

lemma reads_Nil [simp]: "reads len c [] [] c"
  by (simp add: reads_def)

lemma reads_append:
  "reads len c xs b c' \<Longrightarrow> reads len c' ys b' c'' \<Longrightarrow> reads len c (xs @ ys) (b @ b') c''"
  by (simp add: reads_def)

lemma reads_block:
  assumes "p \<noteq> num_PID PID_Padding" and "p \<noteq> num_PID PID_Continuation" and "length d = len p"
  shows "reads len c (p # d) [(p, d)] (if p = num_PID PID_Timestamp then c else None)"
  using assms by (simp add: reads_def case_prod_beta)

lemma reads_last_part:
  assumes "len p = length acc + length d"
  shows "reads len (Some (p, acc)) (num_PID PID_Continuation # p # d) [(p, acc @ d)] None"
  using assms by (simp add: reads_def case_prod_beta)

lemma read_first_part:
  assumes "p \<noteq> num_PID PID_Padding" and "p \<noteq> num_PID PID_Continuation" and "length d < len p"
  shows "read_packet len c (p # d) = ([], Some (p, d))"
  using assms by simp

lemma read_next_part:
  assumes "length acc + length d < len p"
  shows "read_packet len (Some (p, acc)) (num_PID PID_Continuation # p # d) = ([], Some (p, acc @ d))"
proof -
  have "length d < len p - length acc" using assms by linarith
  then show ?thesis by simp
qed

lemma read_padding: "read_packet len c (num_PID PID_Padding # bs) = ([], c)"
  by simp

section \<open>The packet under construction\<close>

lemmas num_PIDs = num_PID.simps
declare num_PID.simps [simp del]
declare read_packet.simps(2) [simp del]

text \<open>
  \<open>pk\<close> are the packets in the file. The packet in the writer is whole elements and then \<open>t\<close>; the ground
  reads the data blocks \<open>bl\<close> from all of it, and is left with \<open>c\<close>. When \<open>sm\<close> holds every packet is
  readable alone.
\<close>

definition packing ::
  "(u8 \<Rightarrow> nat) \<Rightarrow> bool \<Rightarrow> bytes list \<Rightarrow> bytes \<Rightarrow> (u8 \<times> bytes) list \<Rightarrow> (u8 \<times> bytes) option \<Rightarrow> writer \<Rightarrow> bool" where
  "packing len sm pk t bl c w \<longleftrightarrow>
     writer_wf w \<and> w_valid w \<and> length (w_buf w) = PacketLength
     \<and> (\<forall>k \<in> set pk. length k = PacketLength \<and> hd k = num_PID PID_Synchronization
          \<and> (sm \<longrightarrow> snd (read_packet len None (tl k)) = None))
     \<and> (\<exists>xs b1 c1 b2. Writer_Capture w = num_PID PID_Synchronization # xs @ t
          \<and> read_packets len None pk = (b1, c1) \<and> (sm \<longrightarrow> c1 = None)
          \<and> reads len c1 xs b2 c \<and> data_blocks (b1 @ b2) = bl)"

definition room :: "writer \<Rightarrow> nat" where
  "room w = PacketLength - length (Writer_Capture w)"

lemma packing_room:
  assumes "packing len sm pk t bl c w"
  shows "Writer_RemainingSize w = int (room w)" "room w \<le> PacketLength"
    "fits n w \<longleftrightarrow> n \<le> room w" "length (Writer_Capture w) = PacketLength - room w"
    "unat (w_pos w) = PacketLength - room w"
    "unat (of_int (Writer_RemainingSize w) :: u32) = room w"
    "0 < room w \<Longrightarrow> unat (of_int (Writer_RemainingSize w) - 1 :: u32) = room w - 1"
proof -
  have w: "unat (w_pos w) \<le> PacketLength" "length (w_buf w) = PacketLength" "w_valid w"
    using assms by (auto simp: packing_def writer_wf_def)
  have l: "length (Writer_Capture w) = unat (w_pos w)" using w by (simp add: Writer_Capture_def)
  show r: "Writer_RemainingSize w = int (room w)" using w l by (simp add: Writer_RemainingSize_def room_def)
  show "room w \<le> PacketLength" by (simp add: room_def)
  show "fits n w \<longleftrightarrow> n \<le> room w" using w l by (auto simp: fits_def room_def)
  show "length (Writer_Capture w) = PacketLength - room w" "unat (w_pos w) = PacketLength - room w"
    using w l by (auto simp: room_def)
  have small: "room w < 2 ^ 32" by (simp add: room_def PacketLength_def)
  show "unat (of_int (Writer_RemainingSize w) :: u32) = room w"
    using small by (simp add: r unat_of_nat)
  assume "0 < room w"
  then have "(of_int (Writer_RemainingSize w) - 1 :: u32) = of_nat (room w - 1)" by (simp add: r of_nat_diff)
  then show "unat (of_int (Writer_RemainingSize w) - 1 :: u32) = room w - 1"
    using small by (simp add: unat_of_nat)
qed

lemma packing_put:
  assumes "packing len sm pk t bl c w" and "Suc (length d) \<le> room w"
  shows "packing len sm pk (t @ p # d) bl c (snd (Writer_WriteArray d (snd (Writer_WriteByte p w))))"
    "room (snd (Writer_WriteArray d (snd (Writer_WriteByte p w)))) = room w - Suc (length d)"
proof -
  have f: "fits (length (p # d)) w" using packing_room(3) [OF assms(1)] assms(2) by simp
  then have f1: "fits (length [p]) w" by (rule fits_mono) simp
  have wf: "writer_wf w" using assms(1) by (simp add: packing_def)
  have "length d < 256" using assms(2) packing_room(2) [OF assms(1)] by (simp add: PacketLength_def)
  then have e: "snd (Writer_WriteArray d (snd (Writer_WriteByte p w))) = advance (p # d) w"
    using f f1 wf by (simp add: WriteByte_emit WriteArray_emit fits_advance advance_advance)
  have pos: "unat (w_pos w) \<le> length (w_buf w)" using wf by (simp add: writer_wf_def)
  show "packing len sm pk (t @ p # d) bl c (snd (Writer_WriteArray d (snd (Writer_WriteByte p w))))"
    using assms(1) f wf pos unfolding e packing_def by (auto simp: Capture_advance)
  show "room (snd (Writer_WriteArray d (snd (Writer_WriteByte p w)))) = room w - Suc (length d)"
    using f wf unfolding e room_def by (simp add: Capture_advance)
qed

lemma packing_consume:
  assumes "packing len sm pk t bl c w" and "reads len c t b c'"
  shows "packing len sm pk [] (bl @ data_blocks b) c' w"
  using assms unfolding packing_def by (fastforce dest: reads_append)

lemma packing_continue:
  assumes "packing len sm pk [] bl c w" and "0 < room w"
  shows "packing len sm pk [p] bl c (snd (Writer_WriteByte p w))" "room (snd (Writer_WriteByte p w)) = room w - 1"
proof -
  have "Writer_WriteArray [] w' = (w_valid w', w')" if "unat (w_pos w') \<le> length (w_buf w')" for w'
    using that by (simp add: WriteArray_emit emit_def fits_def)
  moreover have "writer_wf (snd (Writer_WriteByte p w))"
    using assms(1) by (auto simp: WriteByte_emit packing_def)
  ultimately have "snd (Writer_WriteArray [] (snd (Writer_WriteByte p w))) = snd (Writer_WriteByte p w)"
    by (simp add: writer_wf_def)
  then show "packing len sm pk [p] bl c (snd (Writer_WriteByte p w))" "room (snd (Writer_WriteByte p w)) = room w - 1"
    using packing_put [OF assms(1), of "[]" p] assms(2) by simp_all
qed


lemma packing_start:
  assumes "length (w_buf w) = PacketLength" and "read_packets len None pk = (b1, c)" and "sm \<Longrightarrow> c = None"
    and "\<forall>k \<in> set pk. length k = PacketLength \<and> hd k = num_PID PID_Synchronization
          \<and> (sm \<longrightarrow> snd (read_packet len None (tl k)) = None)"
  shows "packing len sm pk [] (data_blocks b1) c (snd (Writer_WriteByte (num_PID PID_Synchronization) (Writer_Reset w)))"
    "room (snd (Writer_WriteByte (num_PID PID_Synchronization) (Writer_Reset w))) = PacketLength - 1"
proof -
  let ?p = "num_PID PID_Synchronization"
  let ?w = "Writer_Reset w"
  have r: "w_pos ?w = 0" "w_valid ?w" "length (w_buf ?w) = PacketLength"
    using assms(1) by (simp_all add: Writer_Reset_def PacketLength_def)
  then have wf: "writer_wf ?w" by (simp add: writer_wf_def PacketLength_def)
  have f: "fits (length [?p]) ?w" using r by (simp add: fits_def PacketLength_def)
  have e: "snd (Writer_WriteByte ?p ?w) = advance [?p] ?w" using f by (simp add: WriteByte_emit)
  have c: "Writer_Capture (advance [?p] ?w) = [?p]"
    using Capture_advance [OF wf f] r(1) by (simp add: Writer_Capture_def)
  have "writer_wf (advance [?p] ?w)" using wf f by (rule wf_advance)
  moreover have "unat (w_pos ?w) \<le> length (w_buf ?w)" using wf by (simp add: writer_wf_def)
  moreover have "reads len c [] [] c" by simp
  ultimately show "packing len sm pk [] (data_blocks b1) c (snd (Writer_WriteByte ?p ?w))"
    unfolding e packing_def c using r assms(2-4)
    by (intro conjI exI [of _ "[]"] exI [of _ b1] exI [of _ c]) auto
  show "room (snd (Writer_WriteByte ?p ?w)) = PacketLength - 1" unfolding e room_def c by simp
qed

lemma packing_timestamp:
  assumes "packing len sm pk [] bl c w" and "9 \<le> room w" and "len (num_PID PID_Timestamp) = 8"
  shows "packing len sm pk [] bl c (snd (Writer_WriteQuadWordLE ts (snd (Writer_WriteByte (num_PID PID_Timestamp) w))))"
    "room (snd (Writer_WriteQuadWordLE ts (snd (Writer_WriteByte (num_PID PID_Timestamp) w)))) = room w - 9"
proof -
  have q: "Writer_WriteQuadWordLE ts w' = Writer_WriteArray (le_bytes 8 ts) w'" for w'
    by (simp add: WriteQuadWordLE_emit WriteArray_emit)
  have "reads len c (num_PID PID_Timestamp # le_bytes 8 ts) [(num_PID PID_Timestamp, le_bytes 8 ts)] c"
    using reads_block [of "num_PID PID_Timestamp" "le_bytes 8 ts" len c] assms(3) by (simp add: num_PIDs)
  from packing_consume [OF packing_put(1) [OF assms(1), of "le_bytes 8 ts" "num_PID PID_Timestamp", simplified], OF _ this]
  show "packing len sm pk [] bl c (snd (Writer_WriteQuadWordLE ts (snd (Writer_WriteByte (num_PID PID_Timestamp) w))))"
    using assms(2) by (simp add: q)
  show "room (snd (Writer_WriteQuadWordLE ts (snd (Writer_WriteByte (num_PID PID_Timestamp) w)))) = room w - 9"
    using packing_put(2) [OF assms(1), of "le_bytes 8 ts"] assms(2) by (simp add: q)
qed

text \<open>What padding adds to a packet.\<close>

definition padding :: "writer \<Rightarrow> bytes" where
  "padding w = (if room w = 0 then [] else num_PID PID_Padding # replicate (room w - 1) PaddingData)"

lemma read_padded: "read_packet len c (padding w) = ([], c)"
  by (simp add: padding_def read_padding)

lemma packing_pad:
  assumes "packing len sm pk t bl c (ef_writer e)"
  shows "packing len sm pk (t @ padding (ef_writer e)) bl c (ef_writer (FillBufferWithPadding e))"
    "room (ef_writer (FillBufferWithPadding e)) = 0"
proof -
  let ?w = "ef_writer e" and ?d = "replicate (room (ef_writer e) - 1) PaddingData"
  have "packing len sm pk (t @ padding ?w) bl c (ef_writer (FillBufferWithPadding e))
    \<and> room (ef_writer (FillBufferWithPadding e)) = 0"
  proof (cases "room ?w = 0")
    case True
    then show ?thesis using assms by (simp add: FillBufferWithPadding_def packing_room(1) [OF assms] padding_def)
  next
    case r: False
    let ?v = "snd (Writer_WriteByte (num_PID PID_Padding) ?w)"
    have f: "fits (length [num_PID PID_Padding]) ?w" using packing_room(3) [OF assms] r by simp
    have wf: "writer_wf ?w" "length (w_buf ?w) = PacketLength" "w_valid ?w" using assms by (simp_all add: packing_def)
    have v: "?v = advance [num_PID PID_Padding] ?w" using f by (simp add: WriteByte_emit)
    have wv: "writer_wf ?v" unfolding v using wf(1) f by (rule wf_advance)
    have pv: "unat (w_pos ?w) \<le> length (w_buf ?w)" using wf(1) by (simp add: writer_wf_def)
    have lv: "w_valid ?v" "length (w_buf ?v) = PacketLength" "unat (w_pos ?v) = Suc (PacketLength - room ?w)"
      unfolding v using wf pv pos_advance [OF wf(1) f] packing_room(5) [OF assms] by simp_all
    have n: "length (w_buf ?v) - unat (w_pos ?v) = room ?w - 1"
      using lv packing_room(2) [OF assms] r by simp
    have "fits (length ?d) ?v" using lv packing_room(2) [OF assms] r by (simp add: fits_def)
    then have "snd (Writer_Fill PaddingData ?v) = snd (Writer_WriteArray ?d ?v)"
      using Fill_advance [OF wv lv(1), of PaddingData] packing_room(2) [OF assms] unfolding n
      by (simp add: WriteArray_emit PacketLength_def)
    then have "ef_writer (FillBufferWithPadding e) = snd (Writer_WriteArray ?d ?v)"
      using r by (simp add: FillBufferWithPadding_def packing_room(1) [OF assms] Let_def)
    then show ?thesis
      using packing_put [OF assms, of ?d "num_PID PID_Padding"] r by (simp add: padding_def)
  qed
  then show "packing len sm pk (t @ padding ?w) bl c (ef_writer (FillBufferWithPadding e))"
    "room (ef_writer (FillBufferWithPadding e)) = 0" by simp_all
qed

lemma padded_again: "room (ef_writer e) = 0 \<Longrightarrow> packing len sm pk t bl c (ef_writer e) \<Longrightarrow> FillBufferWithPadding e = e"
  by (simp add: FillBufferWithPadding_def packing_room(1))

text \<open>The full packet goes to the file.\<close>

lemma packing_packet:
  assumes "packing len sm pk t bl c w" and "room w = 0" and "read_packet len c t = (b, c')" and "sm \<Longrightarrow> c' = None"
  shows "\<exists>b1. read_packets len None (pk @ [w_buf w]) = (b1, c') \<and> data_blocks b1 = bl @ data_blocks b
    \<and> (\<forall>k \<in> set (pk @ [w_buf w]). length k = PacketLength \<and> hd k = num_PID PID_Synchronization
          \<and> (sm \<longrightarrow> snd (read_packet len None (tl k)) = None))"
proof -
  obtain xs b1 c1 b2 where c: "Writer_Capture w = num_PID PID_Synchronization # xs @ t"
    "read_packets len None pk = (b1, c1)" "sm \<longrightarrow> c1 = None" "reads len c1 xs b2 c" "data_blocks (b1 @ b2) = bl"
    using assms(1) by (auto simp: packing_def)
  have l: "length (w_buf w) = PacketLength" using assms(1) by (simp add: packing_def)
  have "w_buf w = Writer_Capture w"
    using packing_room(5) [OF assms(1)] assms(2) l by (simp add: Writer_Capture_def)
  then have k: "w_buf w = num_PID PID_Synchronization # xs @ t" using c(1) by simp
  have r: "read_packet len c1 (xs @ t) = (b2 @ b, c')" using c(4) assms(3) by (simp add: reads_def)
  have "read_packets len None (pk @ [w_buf w]) = (b1 @ b2 @ b, c')"
    by (simp add: read_packets_append c(2) k r)
  moreover have "data_blocks (b1 @ b2 @ b) = bl @ data_blocks b" using c(5) by auto
  moreover have "\<forall>k \<in> set pk. length k = PacketLength \<and> hd k = num_PID PID_Synchronization
          \<and> (sm \<longrightarrow> snd (read_packet len None (tl k)) = None)"
    using assms(1) by (simp add: packing_def)
  moreover have "sm \<longrightarrow> snd (read_packet len None (tl (w_buf w))) = None"
    using r c(3) assms(4) k by auto
  ultimately show ?thesis using l k by auto
qed


section \<open>The contract of the store, the clock and the delegate\<close>

text \<open>
  The clock and the delegate leave the files alone. \<open>K\<close> are the lengths the header of a packet can have:
  the synchronisation byte, and the timestamp when there is one.
\<close>

definition quiet_clock ::
  "('s \<Rightarrow> bool) \<Rightarrow> ('s \<Rightarrow> bytes \<Rightarrow> bytes option) \<Rightarrow> ('s \<Rightarrow> handles) \<Rightarrow> ('s \<Rightarrow> u64 option \<times> 's) option \<Rightarrow> nat set \<Rightarrow> bool" where
  "quiet_clock ok files handles time K \<longleftrightarrow> K \<subseteq> {1, 10} \<and>
     (case time of
        None \<Rightarrow> 1 \<in> K
      | Some g \<Rightarrow> \<forall>s v t. ok s \<longrightarrow> g s = (v, t) \<longrightarrow>
          ok t \<and> files t = files s \<and> handles t = handles s \<and> (if v = None then 1 else 10) \<in> K)"

definition quiet_delegate ::
  "('s \<Rightarrow> bool) \<Rightarrow> ('s \<Rightarrow> bytes \<Rightarrow> bytes option) \<Rightarrow> ('s \<Rightarrow> handles) \<Rightarrow> (bytes \<Rightarrow> 's \<Rightarrow> 's) \<Rightarrow> bool" where
  "quiet_delegate ok files handles notify \<longleftrightarrow>
     (\<forall>bs s. ok s \<longrightarrow> ok (notify bs s) \<and> files (notify bs s) = files s \<and> handles (notify bs s) = handles s)"

locale recording_store = file_store +
  fixes time :: "('a \<Rightarrow> u64 option \<times> 'a) option" and notify :: "bytes \<Rightarrow> 'a \<Rightarrow> 'a"
    and K :: "nat set" and len :: "u8 \<Rightarrow> nat"
  assumes write_works: "ok s \<Longrightarrow> handles s h = Some (p, k) \<Longrightarrow> files s p = Some c \<Longrightarrow> k \<le> length c \<Longrightarrow>
      fs_Write fs h bs s = ((r, n), t) \<Longrightarrow> r = OS_Success \<and> n = length bs"
    and clock: "quiet_clock ok files handles time K"
    and delegate: "quiet_delegate ok files handles notify"
    and len_timestamp: "len (num_PID PID_Timestamp) = 8"

text \<open>
  The packets \<open>pk\<close> are the contents of the file at \<open>p\<close>, and the handle is at their end. All other files
  and handles are those of \<open>F\<close> and \<open>H\<close>.
\<close>

definition recorded ::
  "('s \<Rightarrow> bool) \<Rightarrow> ('s \<Rightarrow> bytes \<Rightarrow> bytes option) \<Rightarrow> ('s \<Rightarrow> handles) \<Rightarrow> (bytes \<Rightarrow> bytes option) \<Rightarrow> handles
     \<Rightarrow> bytes \<Rightarrow> int \<Rightarrow> bytes list \<Rightarrow> 's \<Rightarrow> bool" where
  "recorded ok files handles F H p h pk s \<longleftrightarrow>
     ok s \<and> files s = F(p \<mapsto> concat pk) \<and> handles s = H(h \<mapsto> (p, length (concat pk)))"

definition attached ::
  "int \<Rightarrow> ('s \<Rightarrow> u64 option \<times> 's) option \<Rightarrow> (bytes \<Rightarrow> 's \<Rightarrow> 's) \<Rightarrow> 's ExperimentFile \<Rightarrow> bool" where
  "attached h time notify e \<longleftrightarrow> ef_file e = Some h \<and> ef_time e = time \<and> ef_onFlush e = notify"

lemma attached_update [simp]:
  "attached h time notify (e\<lparr>ef_writer := w\<rparr>) = attached h time notify e"
  "attached h time notify (e\<lparr>ef_hasPayload := b\<rparr>) = attached h time notify e"
  by (simp_all add: attached_def)

lemma attached_pad [simp]: "attached h time notify (FillBufferWithPadding e) = attached h time notify e"
  by (simp add: FillBufferWithPadding_def Let_def)

context recording_store
begin

lemma packet_initialized:
  assumes "recorded ok files handles F H p h pk s" and "attached h time notify e"
    and "length (w_buf (ef_writer e)) = PacketLength" and "read_packets len None pk = (b1, c)" and "sm \<Longrightarrow> c = None"
    and "\<forall>k \<in> set pk. length k = PacketLength \<and> hd k = num_PID PID_Synchronization
          \<and> (sm \<longrightarrow> snd (read_packet len None (tl k)) = None)"
    and "InitializePacket e s = (e', s')"
  shows "recorded ok files handles F H p h pk s' \<and> attached h time notify e' \<and> \<not> ef_hasPayload e'
    \<and> packing len sm pk [] (data_blocks b1) c (ef_writer e') \<and> PacketLength - room (ef_writer e') \<in> K"
proof -
  let ?w = "snd (Writer_WriteByte (num_PID PID_Synchronization) (Writer_Reset (ef_writer e)))"
  note w = packing_start [OF assms(3-6)]
  have t: "ef_time e = time" using assms(2) by (simp add: attached_def)
  have r: "ok s" using assms(1) by (simp add: recorded_def)
  note q = clock [unfolded quiet_clock_def]
  show ?thesis
  proof (cases time)
    case None
    then show ?thesis
      using assms(1,2,7) w t q by (auto simp: InitializePacket_def PacketLength_def)
  next
    case (Some g)
    obtain v u where g: "g s = (v, u)" by fastforce
    have u: "recorded ok files handles F H p h pk u" "(if v = None then 1 else 10) \<in> K"
      using q Some g r assms(1) by (auto simp: recorded_def)
    show ?thesis
    proof (cases v)
      case None
      then show ?thesis
        using assms(2,7) w t Some g u by (auto simp: InitializePacket_def PacketLength_def)
    next
      case (Some ts)
      have room: "9 \<le> room ?w" using w(2) by (simp add: PacketLength_def)
      show ?thesis
        using assms(2,7) packing_timestamp [where len = len, OF w(1) room len_timestamp, of ts] w(2) t \<open>time = Some g\<close> g u Some
        by (auto simp: InitializePacket_def PacketLength_def)
    qed
  qed
qed

text \<open>A packet that is padded and written.\<close>

lemma packet_written:
  assumes "recorded ok files handles F H p h pk s" and "attached h time notify e"
    and "packing len sm pk t bl c (ef_writer e)" and "read_packet len c (t @ padding (ef_writer e)) = (b, c')"
    and "sm \<Longrightarrow> c' = None" and "FlushInternal fs i e s = (r, e', s')"
  shows "r = OS_Success \<and> (\<exists>k. recorded ok files handles F H p h (pk @ [k]) s' \<and> attached h time notify e'
    \<and> (if i then \<not> ef_hasPayload e' \<and> packing len sm (pk @ [k]) [] (bl @ data_blocks b) c' (ef_writer e')
          \<and> PacketLength - room (ef_writer e') \<in> K
       else (\<exists>b1. read_packets len None (pk @ [k]) = (b1, c') \<and> data_blocks b1 = bl @ data_blocks b
          \<and> (\<forall>k \<in> set (pk @ [k]). length k = PacketLength \<and> hd k = num_PID PID_Synchronization
               \<and> (sm \<longrightarrow> snd (read_packet len None (tl k)) = None)))))"
proof -
  let ?e = "FillBufferWithPadding e"
  let ?k = "w_buf (ef_writer ?e)"
  note pad = packing_pad [OF assms(3)]
  obtain b1 where k: "read_packets len None (pk @ [?k]) = (b1, c')" "data_blocks b1 = bl @ data_blocks b"
    "\<forall>k \<in> set (pk @ [?k]). length k = PacketLength \<and> hd k = num_PID PID_Synchronization
          \<and> (sm \<longrightarrow> snd (read_packet len None (tl k)) = None)"
    using packing_packet [OF pad assms(4,5)] by blast
  obtain r1 n u where wr: "fs_Write fs h ?k s = ((r1, n), u)" by (metis prod.collapse)
  have st: "ok s" "handles s h = Some (p, length (concat pk))" "files s p = Some (concat pk)"
    using assms(1) by (simp_all add: recorded_def)
  have n: "r1 = OS_Success" "n = length ?k" using write_works [OF st _ wr] by simp_all
  have u: "recorded ok files handles F H p h (pk @ [?k]) u"
    using write_result [OF st _ wr] n assms(1) by (auto simp: recorded_def overwritten_def)
  let ?v = "notify ?k u"
  have v: "recorded ok files handles F H p h (pk @ [?k]) ?v"
    using u delegate by (auto simp: recorded_def quiet_delegate_def)
  have a: "attached h time notify ?e" using assms(2) by simp
  have f: "FlushInternal fs i e s =
      (let (e, s) = (if i then InitializePacket ?e ?v else (?e, ?v)) in (OS_Success, e, s))"
    using a wr n by (simp add: FlushInternal_def Let_def File_Write_def attached_def OS_RESULT_FAILED_def)
  have l: "length ?k = PacketLength" using pad(1) by (simp add: packing_def)
  obtain e2 s2 where i: "InitializePacket ?e ?v = (e2, s2)" by fastforce
  show ?thesis
  proof (cases i)
    case True
    then have "r = OS_Success" "e' = e2" "s' = s2" using f i assms(6) by simp_all
    then show ?thesis
      using packet_initialized [OF v a l k(1) assms(5) k(3) i] k(2) True by auto
  next
    case False
    then have "r = OS_Success" "e' = ?e" "s' = ?v" using f unfolding assms(6) by auto
    then show ?thesis using v a k False by auto
  qed
qed

end


section \<open>Blocks\<close>

text \<open>
  The lengths of data that are written properly: what fits a packet with a byte to spare, or, when the
  headers all have one length, what does not end exactly at the end of a packet.
\<close>

definition clean_length :: "nat set \<Rightarrow> nat \<Rightarrow> bool" where
  "clean_length K n \<longleftrightarrow>
     0 < n \<and> (\<forall>k \<in> K. n < 229 - k \<or> K = {k} \<and> (n - (229 - k)) mod (228 - k) \<noteq> 0)"

definition block_pid :: "PID \<Rightarrow> bool" where
  "block_pid p \<longleftrightarrow> p \<noteq> PID_Padding \<and> p \<noteq> PID_Continuation \<and> p \<noteq> PID_Timestamp"

lemma block_pid_num:
  "block_pid p \<Longrightarrow> num_PID p \<noteq> num_PID PID_Padding \<and> num_PID p \<noteq> num_PID PID_Continuation
     \<and> num_PID p \<noteq> num_PID PID_Timestamp"
  by (cases p) (simp_all add: block_pid_def num_PIDs)

text \<open>All of \<open>blocks\<close>, as long as every write is successful.\<close>

fun write_blocks ::
  "'s IFileSystem \<Rightarrow> (PID \<times> bytes) list \<Rightarrow> 's ExperimentFile \<Rightarrow> 's \<Rightarrow> ('s ExperimentFile \<times> 's) option" where
  "write_blocks fs [] e s = Some (e, s)"
| "write_blocks fs ((pid, d) # blocks) e s =
     (case ExperimentFile_Write fs pid d e s of
        None \<Rightarrow> None
      | Some (r, e, s) \<Rightarrow> if r = OS_Success then write_blocks fs blocks e s else None)"

lemma big_last_part:
  assumes "packing len sm pk t bl c (ef_writer e)" and "reads len c (t @ num_PID pid # d) b None"
    and "d \<noteq> []" and "Suc (length d) < room (ef_writer e)"
  shows "\<exists>e'. WriteDataBiggerThanFrame fs pid d e s = Some (OS_Success, e', s)
    \<and> attached h time notify e' = attached h time notify e \<and> ef_hasPayload e'
    \<and> packing len sm pk [] (bl @ data_blocks b) None (ef_writer e')"
proof -
  let ?w = "snd (Writer_WriteArray d (snd (Writer_WriteByte (num_PID pid) (ef_writer e))))"
  have f: "Suc (length d) \<le> room (ef_writer e)" using assms(4) by simp
  note put = packing_put [OF assms(1) f, of "num_PID pid"]
  have "WriteDataBiggerThanFrame fs pid d e s = Some (OS_Success, e\<lparr>ef_writer := ?w, ef_hasPayload := True\<rparr>, s)"
    using assms(3,4) packing_room(7) [OF assms(1)] packing_room(1) [OF put(1)] put(2)
    by (subst WriteDataBiggerThanFrame.simps, subst (2) WriteDataBiggerThanFrame.simps) (simp add: Let_def)
  then show ?thesis using packing_consume [OF put(1) assms(2)] by simp
qed

context recording_store
begin

lemma K_le: "k \<in> K \<Longrightarrow> k = 1 \<or> k = 10"
  using clock by (auto simp: quiet_clock_def)

lemma big_full_part:
  assumes "recorded ok files handles F H p h pk s" and "attached h time notify e"
    and "packing len False pk t bl c (ef_writer e)" and "n = room (ef_writer e) - 1" and "0 < n" and "n \<le> length d"
    and "read_packet len c (t @ num_PID pid # take n d) = (b, c')"
  shows "\<exists>k e' s'. WriteDataBiggerThanFrame fs pid d e s = WriteDataBiggerThanFrame fs pid (drop n d) e' s'
    \<and> recorded ok files handles F H p h (pk @ [k]) s' \<and> attached h time notify e' \<and> \<not> ef_hasPayload e'
    \<and> packing len False (pk @ [k]) [num_PID PID_Continuation] (bl @ data_blocks b) c' (ef_writer e')
    \<and> Suc (room (ef_writer e')) \<in> (\<lambda>k. PacketLength - k) ` K"
proof -
  let ?w = "snd (Writer_WriteArray (take n d) (snd (Writer_WriteByte (num_PID pid) (ef_writer e))))"
  let ?e = "e\<lparr>ef_writer := ?w, ef_hasPayload := True\<rparr>"
  have r: "0 < room (ef_writer e)" "min (length d) n = n" using assms(4-6) by simp_all
  have l: "Suc (length (take n d)) \<le> room (ef_writer e)" using assms(4-6) by simp
  note put = packing_put [OF assms(3) l, of "num_PID pid"]
  have full: "room ?w = 0" using put(2) assms(4,6) by simp
  have a: "attached h time notify ?e" using assms(2) by simp
  have pw: "packing len False pk (t @ num_PID pid # take n d) bl c (ef_writer ?e)" using put(1) by simp
  have rd: "read_packet len c ((t @ num_PID pid # take n d) @ padding (ef_writer ?e)) = (b, c')"
    using full assms(7) by (simp add: padding_def)
  obtain r2 e2 s2 where f: "FlushInternal fs True ?e s = (r2, e2, s2)" by (metis prod.collapse)
  obtain k where k: "r2 = OS_Success" "recorded ok files handles F H p h (pk @ [k]) s2" "attached h time notify e2"
    "\<not> ef_hasPayload e2" "packing len False (pk @ [k]) [] (bl @ data_blocks b) c' (ef_writer e2)"
    "PacketLength - room (ef_writer e2) \<in> K"
    using packet_written [OF assms(1) a pw rd _ f] by auto
  have room: "0 < room (ef_writer e2)" using K_le [OF k(6)] by (auto simp: PacketLength_def)
  let ?e2 = "e2\<lparr>ef_writer := snd (Writer_WriteByte (num_PID PID_Continuation) (ef_writer e2))\<rparr>"
  have "WriteDataBiggerThanFrame fs pid d e s = WriteDataBiggerThanFrame fs pid (drop n d) ?e2 s2"
    using assms(4-6) packing_room(7) [OF assms(3) r(1)] packing_room(1) [OF put(1)] full f k(1) r(2)
    by (subst WriteDataBiggerThanFrame.simps)
      (auto simp: Let_def ExperimentFile_Flush_def OS_RESULT_FAILED_def)
  moreover have "Suc (room (ef_writer ?e2)) \<in> (\<lambda>k. PacketLength - k) ` K"
  proof (rule image_eqI [OF _ k(6)])
    show "Suc (room (ef_writer ?e2)) = PacketLength - (PacketLength - room (ef_writer e2))"
      using packing_continue(2) [OF k(5) room, of "num_PID PID_Continuation"] room packing_room(2) [OF k(5)] by simp
  qed
  moreover have "packing len False (pk @ [k]) [num_PID PID_Continuation] (bl @ data_blocks b) c' (ef_writer ?e2)"
    using packing_continue(1) [OF k(5) room] by simp
  ultimately show ?thesis using k(2-4) by (intro exI [of _ k] exI [of _ ?e2] exI [of _ s2]) auto
qed

lemma big_continued:
  assumes "recorded ok files handles F H p h pk s" and "attached h time notify e"
    and "packing len False pk [num_PID PID_Continuation] bl (Some (num_PID pid, acc)) (ef_writer e)"
    and "block_pid pid" and "len (num_PID pid) = length acc + length d" and "K = {k}" and "room (ef_writer e) = 229 - k"
    and "length d mod (228 - k) \<noteq> 0"
  shows "\<exists>pk' e' s'. WriteDataBiggerThanFrame fs pid d e s = Some (OS_Success, e', s')
    \<and> recorded ok files handles F H p h pk' s' \<and> attached h time notify e' \<and> ef_hasPayload e'
    \<and> packing len False pk' [] (bl @ [(num_PID pid, acc @ d)]) None (ef_writer e')"
  using assms(1-3,5,7,8)
proof (induction "length d" arbitrary: d acc pk e s rule: less_induct)
  case less
  have d: "d \<noteq> []" using less.prems(6) by auto
  have k: "k = 1 \<or> k = 10" using K_le assms(6) by simp
  let ?n = "228 - k"
  have n: "?n = room (ef_writer e) - 1" "0 < ?n" using less.prems(5) k by auto
  note np = block_pid_num [OF assms(4)]
  show ?case
  proof (cases "length d < ?n")
    case True
    have rd: "reads len (Some (num_PID pid, acc)) ([num_PID PID_Continuation] @ num_PID pid # d) [(num_PID pid, acc @ d)] None"
      using reads_last_part [of len "num_PID pid" acc d] less.prems(4) by simp
    have f: "Suc (length d) < room (ef_writer e)" using True n by simp
    show ?thesis
      using big_last_part [OF less.prems(3) rd d f, of fs s h time notify] less.prems(1,2) np by auto
  next
    case False
    with less.prems(6) have l: "?n < length d" by (metis linorder_neqE_nat mod_self)
    have rd: "read_packet len (Some (num_PID pid, acc)) ([num_PID PID_Continuation] @ num_PID pid # take ?n d)
        = ([], Some (num_PID pid, acc @ take ?n d))"
      using read_next_part [of acc "take ?n d" len "num_PID pid"] less.prems(4) l by simp
    obtain q e2 s2 where st: "WriteDataBiggerThanFrame fs pid d e s = WriteDataBiggerThanFrame fs pid (drop ?n d) e2 s2"
      "recorded ok files handles F H p h (pk @ [q]) s2" "attached h time notify e2"
      "packing len False (pk @ [q]) [num_PID PID_Continuation] bl (Some (num_PID pid, acc @ take ?n d)) (ef_writer e2)"
      "Suc (room (ef_writer e2)) \<in> (\<lambda>k. PacketLength - k) ` K"
      using big_full_part [OF less.prems(1-3) n _ rd] l by auto
    have r: "room (ef_writer e2) = 229 - k" using st(5) assms(6) k by (auto simp: PacketLength_def)
    have m: "length (drop ?n d) mod ?n \<noteq> 0" using less.prems(6) l by (simp add: le_mod_geq)
    have "length (drop ?n d) < length d" using l n by simp
    from less.hyps [OF this st(2-4) _ r m] show ?thesis
      using less.prems(4) l st(1) by simp
  qed
qed

end


text \<open>The state between two writes: the ground has all of \<open>bl\<close>, and a packet without payload is fresh.\<close>

definition between ::
  "nat set \<Rightarrow> (u8 \<Rightarrow> nat) \<Rightarrow> bool \<Rightarrow> bytes list \<Rightarrow> (u8 \<times> bytes) list \<Rightarrow> 's ExperimentFile \<Rightarrow> bool" where
  "between K len sm pk bl e \<longleftrightarrow>
     packing len sm pk [] bl None (ef_writer e)
     \<and> (ef_hasPayload e \<or> PacketLength - room (ef_writer e) \<in> K
          \<and> (\<exists>b1. read_packets len None pk = (b1, None) \<and> data_blocks b1 = bl))"

lemma packing_not_alone: "packing len sm pk t bl c w \<Longrightarrow> packing len False pk t bl c w"
  unfolding packing_def by blast

context recording_store
begin

text \<open>A block in a fresh packet.\<close>

lemma big_written:
  assumes "recorded ok files handles F H p h pk s" and "attached h time notify e"
    and "packing len sm pk [] bl None (ef_writer e)" and "PacketLength - room (ef_writer e) \<in> K"
    and "block_pid pid" and "len (num_PID pid) = length d" and "clean_length K (length d)"
    and "sm \<Longrightarrow> \<forall>k \<in> K. length d < 229 - k"
  shows "\<exists>pk' e' s'. WriteDataBiggerThanFrame fs pid d e s = Some (OS_Success, e', s')
    \<and> recorded ok files handles F H p h pk' s' \<and> attached h time notify e' \<and> ef_hasPayload e'
    \<and> packing len sm pk' [] (bl @ [(num_PID pid, d)]) None (ef_writer e')"
proof -
  obtain k where k: "k \<in> K" "room (ef_writer e) = 230 - k" "k = 1 \<or> k = 10"
    using assms(4) K_le [OF assms(4)] packing_room(2) [OF assms(3)]
    by (intro that [of "PacketLength - room (ef_writer e)"]) (auto simp: PacketLength_def)
  note np = block_pid_num [OF assms(5)]
  have d: "d \<noteq> []" using assms(7) by (auto simp: clean_length_def)
  show ?thesis
  proof (cases "length d < 229 - k")
    case True
    have rd: "reads len None ([] @ num_PID pid # d) [(num_PID pid, d)] None"
      using reads_block [of "num_PID pid" d len None] np assms(6) by simp
    show ?thesis
      using big_last_part [OF assms(3) rd d, of fs s h time notify] assms(1,2) np True k
      by (intro exI [of _ pk]) auto
  next
    case False
    let ?n = "229 - k"
    have sm: "\<not> sm" using assms(8) False k(1) by blast
    have K: "K = {k}" "(length d - ?n) mod (228 - k) \<noteq> 0" using assms(7) False k(1) by (auto simp: clean_length_def)
    have n: "?n = room (ef_writer e) - 1" "0 < ?n" "?n \<le> length d" using k False by auto
    have l: "?n < length d" using K(2) n(3) by (cases "?n = length d") auto
    have rd: "read_packet len None ([] @ num_PID pid # take ?n d) = ([], Some (num_PID pid, take ?n d))"
      using read_first_part [of "num_PID pid" "take ?n d" len None] np assms(6) l by simp
    obtain q e2 s2 where st: "WriteDataBiggerThanFrame fs pid d e s = WriteDataBiggerThanFrame fs pid (drop ?n d) e2 s2"
      "recorded ok files handles F H p h (pk @ [q]) s2" "attached h time notify e2"
      "packing len False (pk @ [q]) [num_PID PID_Continuation] bl (Some (num_PID pid, take ?n d)) (ef_writer e2)"
      "Suc (room (ef_writer e2)) \<in> (\<lambda>k. PacketLength - k) ` K"
      using big_full_part [OF assms(1,2) packing_not_alone [OF assms(3)] n rd] by auto
    have r: "room (ef_writer e2) = 229 - k" using st(5) K(1) k(3) by (auto simp: PacketLength_def)
    have m: "length (drop ?n d) mod (228 - k) \<noteq> 0" using K(2) by simp
    show ?thesis
      using big_continued [OF st(2-4) assms(5) _ K(1) r m] st(1) assms(6) l sm by auto
  qed
qed

lemma block_written:
  assumes "recorded ok files handles F H p h pk s" and "attached h time notify e" and "between K len sm pk bl e"
    and "block_pid pid" and "len (num_PID pid) = length d" and "clean_length K (length d)"
    and "sm \<Longrightarrow> \<forall>k \<in> K. length d < 229 - k"
  shows "\<exists>pk' e' s'. ExperimentFile_Write fs pid d e s = Some (OS_Success, e', s')
    \<and> recorded ok files handles F H p h pk' s' \<and> attached h time notify e'
    \<and> between K len sm pk' (bl @ [(num_PID pid, d)]) e'"
proof -
  have pk: "packing len sm pk [] bl None (ef_writer e)" "ef_hasPayload e \<or> PacketLength - room (ef_writer e) \<in> K"
    using assms(3) by (auto simp: between_def)
  note np = block_pid_num [OF assms(4)]
  have rd: "reads len None ([] @ num_PID pid # d) [(num_PID pid, d)] None"
    using reads_block [of "num_PID pid" d len None] np assms(5) by simp
  show ?thesis
  proof (cases "Suc (length d) \<le> room (ef_writer e)")
    case True
    note put = packing_put(1) [OF pk(1) True, of "num_PID pid"]
    show ?thesis
      using packing_consume [OF put rd] True packing_room(6) [OF pk(1)] assms(1,2) np
      by (auto simp: ExperimentFile_Write_def Let_def between_def)
  next
    case False
    show ?thesis
    proof (cases "ef_hasPayload e")
      case False
      then have "PacketLength - room (ef_writer e) \<in> K" using pk(2) by simp
      from big_written [OF assms(1,2) pk(1) this assms(4-7)]
      show ?thesis
        using False \<open>\<not> Suc (length d) \<le> room (ef_writer e)\<close> packing_room(6) [OF pk(1)]
        by (auto simp: ExperimentFile_Write_def between_def OS_RESULT_FAILED_def)
    next
      case True
      let ?e = "FillBufferWithPadding e"
      note pad = packing_pad [OF pk(1)]
      have rd0: "read_packet len None (([] @ padding (ef_writer e)) @ padding (ef_writer ?e)) = ([], None)"
        using pad(2) by (simp add: padding_def [of "ef_writer ?e"] read_padded)
      have a: "attached h time notify ?e" using assms(2) by simp
      obtain r2 e2 s2 where f: "FlushInternal fs True ?e s = (r2, e2, s2)" by (metis prod.collapse)
      obtain k where k: "r2 = OS_Success" "recorded ok files handles F H p h (pk @ [k]) s2" "attached h time notify e2"
        "packing len sm (pk @ [k]) [] bl None (ef_writer e2)" "PacketLength - room (ef_writer e2) \<in> K"
        using packet_written [OF assms(1) a pad(1) rd0 _ f] by auto
      from big_written [OF k(2-5) assms(4-7)] obtain pk' e' s' where
        w: "WriteDataBiggerThanFrame fs pid d e2 s2 = Some (OS_Success, e', s')"
        "recorded ok files handles F H p h pk' s'" "attached h time notify e'" "ef_hasPayload e'"
        "packing len sm pk' [] (bl @ [(num_PID pid, d)]) None (ef_writer e')" by blast
      have "ExperimentFile_Write fs pid d e s = Some (OS_Success, e', s')"
        using True False packing_room(6) [OF pk(1)] f k(1) w(1)
        by (simp add: ExperimentFile_Write_def ExperimentFile_Flush_def OS_RESULT_FAILED_def)
      then show ?thesis using w by (auto simp: between_def)
    qed
  qed
qed

lemma blocks_written:
  assumes "recorded ok files handles F H p h pk s" and "attached h time notify e" and "between K len sm pk bl e"
    and "\<forall>(pid, d) \<in> set blocks. block_pid pid \<and> len (num_PID pid) = length d \<and> clean_length K (length d)
          \<and> (sm \<longrightarrow> (\<forall>k \<in> K. length d < 229 - k))"
  shows "\<exists>pk' e' s'. write_blocks fs blocks e s = Some (e', s')
    \<and> recorded ok files handles F H p h pk' s' \<and> attached h time notify e'
    \<and> between K len sm pk' (bl @ map (\<lambda>(pid, d). (num_PID pid, d)) blocks) e'"
  using assms
proof (induction blocks arbitrary: pk bl e s)
  case Nil
  then show ?case by auto
next
  case (Cons x blocks)
  obtain pid d where x: "x = (pid, d)" by fastforce
  obtain pk' e' s' where w: "ExperimentFile_Write fs pid d e s = Some (OS_Success, e', s')"
    "recorded ok files handles F H p h pk' s'" "attached h time notify e'"
    "between K len sm pk' (bl @ [(num_PID pid, d)]) e'"
    using block_written [OF Cons.prems(1-3), of pid d] Cons.prems(4) x by auto
  show ?case using Cons.IH [OF w(2-4)] Cons.prems(4) w(1) x by auto
qed

lemma file_closed:
  assumes "recorded ok files handles F H p h pk s" and "attached h time notify e" and "between K len sm pk bl e"
    and "H h = None" and "ExperimentFile_Close fs e s = (r, e', s')"
  shows "r = OS_Success \<and> handles s' = H \<and> (\<exists>pk' b1. files s' = F(p \<mapsto> concat pk')
    \<and> read_packets len None pk' = (b1, None) \<and> data_blocks b1 = bl
    \<and> (\<forall>k \<in> set pk'. length k = PacketLength \<and> hd k = num_PID PID_Synchronization
          \<and> (sm \<longrightarrow> snd (read_packet len None (tl k)) = None)))"
proof -
  have pk: "packing len sm pk [] bl None (ef_writer e)" using assms(3) by (simp add: between_def)
  have closed: "handles (snd (fs_Close fs h u)) = H \<and> files (snd (fs_Close fs h u)) = files u"
    if "recorded ok files handles F H p h ks u" for ks u
  proof -
    obtain r1 v where c: "fs_Close fs h u = (r1, v)" by fastforce
    have "ok u" "handles u h \<noteq> None" "handles u = H(h \<mapsto> (p, length (concat ks)))"
      using that by (simp_all add: recorded_def)
    then show ?thesis using close_result [OF _ _ c] c assms(4) by (auto simp: fun_upd_idem)
  qed
  show ?thesis
  proof (cases "ef_hasPayload e")
    case False
    then have "read_packets len None pk = (b1, None) \<and> data_blocks b1 = bl \<Longrightarrow> ?thesis" for b1
      using closed [OF assms(1)] assms(1,2,5) pk
      by (auto simp: ExperimentFile_Close_def File_Close_def attached_def OS_RESULT_FAILED_def recorded_def packing_def)
    then show ?thesis using False assms(3) by (auto simp: between_def)
  next
    case True
    obtain r2 e2 s2 where f: "FlushInternal fs False e s = (r2, e2, s2)" by (metis prod.collapse)
    have rd: "read_packet len None ([] @ padding (ef_writer e)) = ([], None)" by (simp add: read_padded)
    obtain k b1 where k: "r2 = OS_Success" "recorded ok files handles F H p h (pk @ [k]) s2" "attached h time notify e2"
      "read_packets len None (pk @ [k]) = (b1, None)" "data_blocks b1 = bl"
      "\<forall>k \<in> set (pk @ [k]). length k = PacketLength \<and> hd k = num_PID PID_Synchronization
               \<and> (sm \<longrightarrow> snd (read_packet len None (tl k)) = None)"
      using packet_written [OF assms(1,2) pk rd _ f] by auto
    have e: "r = OS_Success" "s' = snd (fs_Close fs h s2)"
      using True assms(5) f k(1,3)
      by (auto simp: ExperimentFile_Close_def File_Close_def attached_def OS_RESULT_FAILED_def)
    have "files s2 = F(p \<mapsto> concat (pk @ [k]))" using k(2) by (simp add: recorded_def)
    then show ?thesis using closed [OF k(2)] k(4-6) e by (intro conjI exI [of _ "pk @ [k]"] exI [of _ b1]) auto
  qed
qed

end


section \<open>Experiment files are read back\<close>

lemma read_alone:
  assumes "\<forall>k \<in> set ks. length k = PacketLength \<and> hd k = num_PID PID_Synchronization
    \<and> snd (read_packet len None (tl k)) = None"
  shows "read_packets len None ks = (concat (map (\<lambda>k. fst (read_packet len None (tl k))) ks), None)"
  using assms by (induction ks) (auto simp: Let_def case_prod_beta PacketLength_def)

lemma data_blocks_concat: "data_blocks (concat bs) = concat (map data_blocks bs)"
  by (induction bs) simp_all

context recording_store
begin

lemma file_opened:
  assumes "ok s" and "ExperimentFile_Open fs p Open_CreateAlways a (ExperimentFile_SetOnFlush notify (ExperimentFile_new time)) s = (True, e', s')"
  shows "\<exists>h. recorded ok files handles (files s) (handles s) p h [] s' \<and> attached h time notify e'
    \<and> handles s h = None \<and> between K len sm [] [] e' \<and> \<not> ef_hasPayload e'"
proof -
  let ?e = "ExperimentFile_SetOnFlush notify (ExperimentFile_new time)"
  obtain r h u where o: "fs_Open fs p Open_CreateAlways a s = ((r, h), u)" by (metis prod.collapse)
  have r: "r = OS_Success"
    using assms(2) o by (auto simp: ExperimentFile_Open_def File_open_def OS_RESULT_SUCCEEDED_def Let_def split: if_splits)
  then have u: "recorded ok files handles (files s) (handles s) p h [] u" "handles s h = None"
    using open_result [OF assms(1) _ o] by (simp_all add: recorded_def)
  let ?f = "?e\<lparr>ef_file := Some h\<rparr>"
  have a: "attached h time notify ?f" by (simp add: attached_def ExperimentFile_SetOnFlush_def ExperimentFile_new_def)
  have l: "length (w_buf (ef_writer ?f)) = PacketLength"
    by (simp add: ExperimentFile_SetOnFlush_def ExperimentFile_new_def Writer_Initialize_def Writer_Reset_def)
  have "InitializePacket ?f u = (e', s')"
    using assms(2) o r
    by (auto simp: ExperimentFile_Open_def File_open_def OS_RESULT_SUCCEEDED_def File_drop_def ExperimentFile_SetOnFlush_def
        ExperimentFile_new_def Let_def split: prod.splits)
  from packet_initialized [OF u(1) a l _ _ _ this, of "[]" None sm]
  show ?thesis using u(2) by (auto simp: between_def)
qed

lemma file_recorded:
  assumes "ok s" and "ExperimentFile_Open fs p Open_CreateAlways a (ExperimentFile_SetOnFlush notify (ExperimentFile_new time)) s = (True, e1, s1)"
    and "\<forall>(pid, d) \<in> set blocks. block_pid pid \<and> len (num_PID pid) = length d \<and> clean_length K (length d)
          \<and> (sm \<longrightarrow> (\<forall>k \<in> K. length d < 229 - k))"
  shows "\<exists>e2 s2 e3 t pk b. write_blocks fs blocks e1 s1 = Some (e2, s2) \<and> ExperimentFile_Close fs e2 s2 = (OS_Success, e3, t)
    \<and> files t = (files s)(p \<mapsto> concat pk) \<and> handles t = handles s
    \<and> read_packets len None pk = (b, None) \<and> data_blocks b = map (\<lambda>(pid, d). (num_PID pid, d)) blocks
    \<and> (\<forall>k \<in> set pk. length k = PacketLength \<and> hd k = num_PID PID_Synchronization
          \<and> (sm \<longrightarrow> snd (read_packet len None (tl k)) = None))"
proof -
  obtain h where o: "recorded ok files handles (files s) (handles s) p h [] s1" "attached h time notify e1"
    "handles s h = None" "between K len sm [] [] e1"
    using file_opened [OF assms(1,2)] by blast
  obtain pk e2 s2 where w: "write_blocks fs blocks e1 s1 = Some (e2, s2)"
    "recorded ok files handles (files s) (handles s) p h pk s2" "attached h time notify e2"
    "between K len sm pk (map (\<lambda>(pid, d). (num_PID pid, d)) blocks) e2"
    using blocks_written [OF o(1,2,4) assms(3)] by auto
  obtain r e3 t where c: "ExperimentFile_Close fs e2 s2 = (r, e3, t)" by (metis prod.collapse)
  show ?thesis using file_closed [OF w(2-4) o(3) c] w(1) c by blast
qed

lemma exact_block:
  assumes "recorded ok files handles F H p h pk s" and "attached h time notify e" and "between K len False pk bl e"
    and "ef_hasPayload e" and "K = {k}" and "block_pid pid" and "len (num_PID pid) = length d" and "length d = 229 - k"
    and "room (ef_writer e) < 230 - k"
  shows "\<exists>pk' e' s'. ExperimentFile_Write fs pid d e s = Some (OS_Success, e', s')
    \<and> recorded ok files handles F H p h pk' s' \<and> attached h time notify e' \<and> room (ef_writer e') = 229 - k
    \<and> packing len False pk' [num_PID PID_Continuation] (bl @ [(num_PID pid, d)]) None (ef_writer e')"
proof -
  have pk: "packing len False pk [] bl None (ef_writer e)" using assms(3) by (simp add: between_def)
  have k: "k = 1 \<or> k = 10" using K_le assms(5) by simp
  note np = block_pid_num [OF assms(6)]
  let ?e = "FillBufferWithPadding e"
  note pad = packing_pad [OF pk]
  have rd0: "read_packet len None (([] @ padding (ef_writer e)) @ padding (ef_writer ?e)) = ([], None)"
    using pad(2) by (simp add: padding_def [of "ef_writer ?e"] read_padded)
  have a: "attached h time notify ?e" using assms(2) by simp
  obtain r2 e2 s2 where f: "FlushInternal fs True ?e s = (r2, e2, s2)" by (metis prod.collapse)
  obtain q where q: "r2 = OS_Success" "recorded ok files handles F H p h (pk @ [q]) s2" "attached h time notify e2"
    "packing len False (pk @ [q]) [] bl None (ef_writer e2)" "PacketLength - room (ef_writer e2) \<in> K"
    using packet_written [OF assms(1) a pad(1) rd0 _ f] by auto
  have n: "length d = room (ef_writer e2) - 1" "0 < length d"
    using q(5) packing_room(2) [OF q(4)] k assms(5,8) by (auto simp: PacketLength_def)
  have rd: "read_packet len None ([] @ num_PID pid # take (length d) d) = ([(num_PID pid, d)], None)"
    using reads_block [of "num_PID pid" d len None] np assms(7) unfolding reads_def by (metis append_Nil append_Nil2 fst_conv read_packet.simps(1) snd_conv take_all_iff order_refl)
  obtain q' e3 s3 where st: "WriteDataBiggerThanFrame fs pid d e2 s2 = WriteDataBiggerThanFrame fs pid [] e3 s3"
    "recorded ok files handles F H p h (pk @ [q] @ [q']) s3" "attached h time notify e3"
    "packing len False (pk @ [q] @ [q']) [num_PID PID_Continuation] (bl @ [(num_PID pid, d)]) None (ef_writer e3)"
    "Suc (room (ef_writer e3)) \<in> (\<lambda>k. PacketLength - k) ` K"
    using big_full_part [OF q(2-4) n order_refl rd] np by auto
  have "ExperimentFile_Write fs pid d e s = Some (OS_Success, e3, s3)"
    using assms(4,8,9) k packing_room(6) [OF pk] f q(1) st(1)
    by (auto simp: ExperimentFile_Write_def ExperimentFile_Flush_def OS_RESULT_FAILED_def WriteDataBiggerThanFrame.simps [of _ _ "[]"])
  moreover have "room (ef_writer e3) = 229 - k" using st(5) assms(5) k by (auto simp: PacketLength_def)
  ultimately show ?thesis using st(2-4) by blast
qed

end


lemma reads_stray:
  "length d = len p \<Longrightarrow> reads len None (num_PID PID_Continuation # p # d) [] None"
  by (simp add: reads_def read_packet.simps(2) num_PIDs)

context recording_store
begin

lemma block_hidden:
  assumes "recorded ok files handles F H p h pk s" and "attached h time notify e"
    and "packing len False pk [num_PID PID_Continuation] bl None (ef_writer e)"
    and "len (num_PID pid) = length d" and "length d < room (ef_writer e)"
  shows "\<exists>e'. ExperimentFile_Write fs pid d e s = Some (OS_Success, e', s) \<and> attached h time notify e'
    \<and> between K len False pk bl e'"
proof -
  have f: "Suc (length d) \<le> room (ef_writer e)" using assms(5) by simp
  note put = packing_put(1) [OF assms(3) f, of "num_PID pid"]
  have "reads len None ([num_PID PID_Continuation] @ num_PID pid # d) [] None"
    using reads_stray [of d len "num_PID pid"] assms(4) by simp
  from packing_consume [OF put this] show ?thesis
    using assms(2) f packing_room(6) [OF assms(3)]
    by (auto simp: ExperimentFile_Write_def Let_def between_def)
qed

lemma block_lost:
  assumes "ok s" and "ExperimentFile_Open fs p Open_CreateAlways a (ExperimentFile_SetOnFlush notify (ExperimentFile_new time)) s = (True, e1, s1)"
    and "K = {k}" and "block_pid q1 \<and> block_pid q2"
    and "len (num_PID q1) = length d1 \<and> len (num_PID q2) = length d2 \<and> len (num_PID q3) = length d3"
    and "0 < length d1" and "length d1 < 229 - k" and "length d2 = 229 - k" and "length d3 < 229 - k"
  shows "\<exists>e2 s2 e3 t pk b. write_blocks fs [(q1, d1), (q2, d2), (q3, d3)] e1 s1 = Some (e2, s2)
    \<and> ExperimentFile_Close fs e2 s2 = (OS_Success, e3, t) \<and> files t = (files s)(p \<mapsto> concat pk)
    \<and> read_packets len None pk = (b, None) \<and> data_blocks b = [(num_PID q1, d1), (num_PID q2, d2)]
    \<and> (\<forall>k \<in> set pk. length k = PacketLength)"
proof -
  obtain h where o: "recorded ok files handles (files s) (handles s) p h [] s1" "attached h time notify e1"
    "handles s h = None" "between K len False [] [] e1" "\<not> ef_hasPayload e1"
    using file_opened [OF assms(1,2)] by blast
  have pk0: "packing len False [] [] [] None (ef_writer e1)" using o(4) by (simp add: between_def)
  have k: "k = 1 \<or> k = 10" using K_le assms(3) by simp
  note np = block_pid_num [of q1]
  have "PacketLength - room (ef_writer e1) = k" using o(4,5) assms(3) by (auto simp: between_def)
  then have fresh: "room (ef_writer e1) = 230 - k" using packing_room(2) [OF pk0] by (auto simp: PacketLength_def)
  have f: "Suc (length d1) \<le> room (ef_writer e1)" using fresh assms(7) by simp
  have rd: "reads len None ([] @ num_PID q1 # d1) [(num_PID q1, d1)] None"
    using reads_block [of "num_PID q1" d1 len None] np assms(4,5) by simp
  let ?w = "snd (Writer_WriteArray d1 (snd (Writer_WriteByte (num_PID q1) (ef_writer e1))))"
  let ?e = "e1\<lparr>ef_writer := ?w, ef_hasPayload := True\<rparr>"
  have w1: "ExperimentFile_Write fs q1 d1 e1 s1 = Some (OS_Success, ?e, s1)"
    using f packing_room(6) [OF pk0] by (simp add: ExperimentFile_Write_def Let_def)
  have b1: "between K len False [] [(num_PID q1, d1)] ?e" "attached h time notify ?e" "room ?w < 230 - k"
    using packing_consume [OF packing_put(1) [OF pk0 f] rd] np assms(4) o(2) packing_put(2) [OF pk0 f, of "num_PID q1"] fresh assms(7)
    by (auto simp: between_def)
  obtain pk e2 s2 where w2: "ExperimentFile_Write fs q2 d2 ?e s1 = Some (OS_Success, e2, s2)"
    "recorded ok files handles (files s) (handles s) p h pk s2" "attached h time notify e2" "room (ef_writer e2) = 229 - k"
    "packing len False pk [num_PID PID_Continuation] [(num_PID q1, d1), (num_PID q2, d2)] None (ef_writer e2)"
    using exact_block [OF o(1) b1(2,1) _ assms(3), of q2 d2] assms(4,5,8) b1(3) by auto
  obtain e3 where w3: "ExperimentFile_Write fs q3 d3 e2 s2 = Some (OS_Success, e3, s2)" "attached h time notify e3"
    "between K len False pk [(num_PID q1, d1), (num_PID q2, d2)] e3"
    using block_hidden [OF w2(2,3,5), of q3 d3] assms(5,9) w2(4) by auto
  obtain r e4 t where c: "ExperimentFile_Close fs e3 s2 = (r, e4, t)" by (metis prod.collapse)
  have "write_blocks fs [(q1, d1), (q2, d2), (q3, d3)] e1 s1 = Some (e3, s2)"
    using w1 w2(1) w3(1) by simp
  then show ?thesis using file_closed [OF w2(2) w3(2,3) o(3) c] c by blast
qed

end


context working_yaffs_calls
begin

lemma as_recording_store:
  assumes "quiet_clock ok files handles time K" and "quiet_delegate ok files handles notify"
    and "len (num_PID PID_Timestamp) = 8"
  shows "recording_store ok files handles (YaffsFileSystem y) time notify K len"
proof
  fix s t :: 'a and h p k c bs r n
  assume a: "ok s" "handles s h = Some (p, k)" "files s p = Some c" "k \<le> length c"
    "fs_Write (YaffsFileSystem y) h bs s = ((r, n), t)"
  then show "r = OS_Success \<and> n = length bs"
    using ya_write_works [OF a(1-4), of bs] by (auto simp: yaffs_defs case_prod_beta split: if_splits)
qed (use assms in auto)

end

interpretation recording: recording_store mem_ok mf_files mf_handles "YaffsFileSystem mem_yaffs" None "\<lambda>_ s. s" "{1}" "\<lambda>_. 8"
  by (rule mem.as_recording_store) (simp_all add: quiet_clock_def quiet_delegate_def)

lemma quiet_mem:
  "quiet_clock mem_ok mf_files mf_handles (Some (\<lambda>s. (Some v, s))) {10}" "quiet_clock mem_ok mf_files mf_handles None {1}"
  "quiet_delegate mem_ok mf_files mf_handles (\<lambda>_ s. s)"
  by (simp_all add: quiet_clock_def quiet_delegate_def)

lemma mem_open_works: "fst (ExperimentFile_Open (YaffsFileSystem mem_yaffs) p Open_CreateAlways a e mem_start)"
  using open_flags(3) [of a]
  by (simp add: ExperimentFile_Open_def File_open_def yaffs_defs mem_yaffs_def mem_open_def mem_start_def OS_RESULT_SUCCEEDED_def
      Let_def case_prod_beta)

lemma mem_start_ok: "mem_ok mem_start"
  by (simp add: mem_ok_def mem_start_def)

lemma block_pid_examples: "block_pid PID_Gyro" "block_pid PID_Sail"
  by (simp_all add: block_pid_def)

text \<open>
  C29. The blocks of an experiment file are read back by the ground, in order and whole, from the packets in
  the file: blocks of any length but the ones that end exactly with a packet, whether or not the packets
  carry timestamps. All calls report success, no other file and no handle is left changed, and each
  packet has its full length and starts with the synchronisation byte.
\<close>

theorem experiment_file_roundtrip:
  assumes "working_yaffs_calls ok files handles y" and "quiet_clock ok files handles time K"
    and "quiet_delegate ok files handles notify" and "len (num_PID PID_Timestamp) = 8" and "ok s"
    and "ExperimentFile_Open (YaffsFileSystem y) p Open_CreateAlways a
           (ExperimentFile_SetOnFlush notify (ExperimentFile_new time)) s = (True, e1, s1)"
    and "\<forall>(pid, d) \<in> set blocks. block_pid pid \<and> len (num_PID pid) = length d \<and> clean_length K (length d)"
  shows "\<exists>e2 s2 e3 t pk. write_blocks (YaffsFileSystem y) blocks e1 s1 = Some (e2, s2)
    \<and> ExperimentFile_Close (YaffsFileSystem y) e2 s2 = (OS_Success, e3, t)
    \<and> files t = (files s)(p \<mapsto> concat pk) \<and> handles t = handles s
    \<and> (\<forall>k \<in> set pk. length k = PacketLength \<and> hd k = num_PID PID_Synchronization)
    \<and> data_blocks (fst (read_packets len None pk)) = map (\<lambda>(pid, d). (num_PID pid, d)) blocks"
  using recording_store.file_recorded [OF working_yaffs_calls.as_recording_store [where len = len, OF assms(1-4)] assms(5,6), of blocks False]
    assms(7) by fastforce

theorem experiment_file_roundtrip_witness:
  "case ExperimentFile_Open (YaffsFileSystem mem_yaffs) [0x61] Open_CreateAlways Access_WriteOnly
           (ExperimentFile_SetOnFlush (\<lambda>_ s. s) (ExperimentFile_new (Some (\<lambda>s. (Some 5, s))))) mem_start of
     (r, e1, s1) \<Rightarrow> \<exists>e2 s2 e3 t pk.
       write_blocks (YaffsFileSystem mem_yaffs) [(PID_Gyro, replicate 8 7), (PID_Sail, replicate 300 9), (PID_Gyro, replicate 8 6)] e1 s1 = Some (e2, s2)
       \<and> ExperimentFile_Close (YaffsFileSystem mem_yaffs) e2 s2 = (OS_Success, e3, t) \<and> mf_files t [0x61] = Some (concat pk)
       \<and> data_blocks (fst (read_packets (\<lambda>p. if p = 0x18 then 300 else 8) None pk))
           = [(0x10, replicate 8 7), (0x18, replicate 300 9), (0x10, replicate 8 6)]"
proof -
  let ?l = "\<lambda>p :: u8. if p = 0x18 then 300 else 8 :: nat"
  let ?bs = "[(PID_Gyro, replicate 8 7), (PID_Sail, replicate 300 9), (PID_Gyro, replicate 8 6)] :: (PID \<times> bytes) list"
  obtain r e1 s1 where o: "ExperimentFile_Open (YaffsFileSystem mem_yaffs) [0x61] Open_CreateAlways Access_WriteOnly
           (ExperimentFile_SetOnFlush (\<lambda>_ s. s) (ExperimentFile_new (Some (\<lambda>s. (Some 5, s))))) mem_start = (r, e1, s1)" by (metis prod.collapse)
  have r: "r" using mem_open_works [of "[0x61]" Access_WriteOnly "ExperimentFile_SetOnFlush (\<lambda>_ s. s) (ExperimentFile_new (Some (\<lambda>s. (Some 5, s))))"] o by simp
  have b: "\<forall>(pid, d) \<in> set ?bs. block_pid pid \<and> ?l (num_PID pid) = length d \<and> clean_length {10} (length d)"
    using block_pid_examples by (auto simp: num_PIDs clean_length_def)
  have l: "?l (num_PID PID_Timestamp) = 8" by (simp add: num_PIDs)
  from experiment_file_roundtrip [where len = ?l, OF mem_calls quiet_mem(1,3) l mem_start_ok o [unfolded eqTrueI [OF r]] b]
  show ?thesis unfolding o by (fastforce simp: num_PIDs)
qed

text \<open>
  C30. When every block is shorter than 219 bytes, so that it can neither need two packets nor fill one up
  exactly, a packet lost on the way to the ground costs only the blocks it holds: from any choice of the
  packets the ground reads exactly the blocks of those packets, and together the packets hold all the
  blocks.
  (A block that fills its packet exactly can hide the next one.)
\<close>

theorem lost_packets_cost_their_blocks:
  assumes "working_yaffs_calls ok files handles y" and "quiet_clock ok files handles time K"
    and "quiet_delegate ok files handles notify" and "len (num_PID PID_Timestamp) = 8" and "ok s"
    and "ExperimentFile_Open (YaffsFileSystem y) p Open_CreateAlways a
           (ExperimentFile_SetOnFlush notify (ExperimentFile_new time)) s = (True, e1, s1)"
    and "\<forall>(pid, d) \<in> set blocks. block_pid pid \<and> len (num_PID pid) = length d \<and> 0 < length d \<and> length d < 219"
  shows "\<exists>e2 s2 e3 t pk bs. write_blocks (YaffsFileSystem y) blocks e1 s1 = Some (e2, s2)
    \<and> ExperimentFile_Close (YaffsFileSystem y) e2 s2 = (OS_Success, e3, t)
    \<and> files t = (files s)(p \<mapsto> concat pk) \<and> (\<forall>k \<in> set pk. length k = PacketLength)
    \<and> length bs = length pk \<and> concat bs = map (\<lambda>(pid, d). (num_PID pid, d)) blocks
    \<and> (\<forall>I. data_blocks (fst (read_packets len None (nths pk I))) = concat (nths bs I))"
proof -
  have K: "K \<subseteq> {1, 10}" using assms(2) by (simp add: quiet_clock_def)
  have fit: "\<forall>k \<in> K. n < 229 - k" if "n < 219" for n using K that by auto
  have "\<forall>(pid, d) \<in> set blocks. block_pid pid \<and> len (num_PID pid) = length d \<and> clean_length K (length d)
          \<and> (True \<longrightarrow> (\<forall>k \<in> K. length d < 229 - k))"
  proof (clarify, goal_cases)
    case (1 pid d)
    with assms(7) have "block_pid pid \<and> len (num_PID pid) = length d \<and> 0 < length d \<and> length d < 219" by blast
    then show ?case using fit [of "length d"] by (simp add: clean_length_def)
  qed
  from recording_store.file_recorded [OF working_yaffs_calls.as_recording_store [where len = len, OF assms(1-4)] assms(5,6) this]
  obtain e2 s2 e3 t pk b where r: "write_blocks (YaffsFileSystem y) blocks e1 s1 = Some (e2, s2)"
    "ExperimentFile_Close (YaffsFileSystem y) e2 s2 = (OS_Success, e3, t)" "files t = (files s)(p \<mapsto> concat pk)"
    "read_packets len None pk = (b, None)" "data_blocks b = map (\<lambda>(pid, d). (num_PID pid, d)) blocks"
    "\<forall>k \<in> set pk. length k = PacketLength \<and> hd k = num_PID PID_Synchronization \<and> snd (read_packet len None (tl k)) = None"
    by auto
  let ?f = "\<lambda>k. fst (read_packet len None (tl k))"
  let ?bs = "map (\<lambda>k. data_blocks (?f k)) pk"
  have "concat ?bs = map (\<lambda>(pid, d). (num_PID pid, d)) blocks"
    using read_alone [OF r(6)] r(4,5) by (simp add: data_blocks_concat comp_def)
  moreover have "data_blocks (fst (read_packets len None (nths pk I))) = concat (nths ?bs I)" for I
  proof -
    have "\<forall>k \<in> set (nths pk I). length k = PacketLength \<and> hd k = num_PID PID_Synchronization
        \<and> snd (read_packet len None (tl k)) = None"
      using r(6) set_nths_subset [of pk I] by blast
    from read_alone [OF this] show ?thesis by (simp add: data_blocks_concat comp_def nths_map)
  qed
  ultimately show ?thesis using r(1-3,6)
    by (intro exI [of _ e2] exI [of _ s2] exI [of _ e3] exI [of _ t] exI [of _ pk] exI [of _ ?bs]) simp
qed

theorem lost_packets_cost_their_blocks_witness:
  "case ExperimentFile_Open (YaffsFileSystem mem_yaffs) [0x61] Open_CreateAlways Access_WriteOnly
           (ExperimentFile_SetOnFlush (\<lambda>_ s. s) (ExperimentFile_new (Some (\<lambda>s. (Some 5, s))))) mem_start of
     (r, e1, s1) \<Rightarrow> \<exists>e2 s2 e3 t pk bs.
       write_blocks (YaffsFileSystem mem_yaffs) [(PID_Gyro, replicate 200 7), (PID_Sail, replicate 200 9)] e1 s1 = Some (e2, s2)
       \<and> ExperimentFile_Close (YaffsFileSystem mem_yaffs) e2 s2 = (OS_Success, e3, t) \<and> mf_files t [0x61] = Some (concat pk)
       \<and> length bs = length pk \<and> concat bs = [(0x10, replicate 200 7), (0x18, replicate 200 9)]
       \<and> data_blocks (fst (read_packets (\<lambda>p. if p = 1 then 8 else 200) None (nths pk {0}))) = concat (nths bs {0})"
proof -
  let ?l = "\<lambda>p :: u8. if p = 1 then 8 else 200 :: nat"
  let ?bs = "[(PID_Gyro, replicate 200 7), (PID_Sail, replicate 200 9)] :: (PID \<times> bytes) list"
  obtain r e1 s1 where o: "ExperimentFile_Open (YaffsFileSystem mem_yaffs) [0x61] Open_CreateAlways Access_WriteOnly
           (ExperimentFile_SetOnFlush (\<lambda>_ s. s) (ExperimentFile_new (Some (\<lambda>s. (Some 5, s))))) mem_start = (r, e1, s1)" by (metis prod.collapse)
  have r: "r" using mem_open_works [of "[0x61]" Access_WriteOnly "ExperimentFile_SetOnFlush (\<lambda>_ s. s) (ExperimentFile_new (Some (\<lambda>s. (Some 5, s))))"] o by simp
  have b: "\<forall>(pid, d) \<in> set ?bs. block_pid pid \<and> ?l (num_PID pid) = length d \<and> 0 < length d \<and> length d < 219"
    using block_pid_examples by (auto simp: num_PIDs)
  have l: "?l (num_PID PID_Timestamp) = 8" by (simp add: num_PIDs)
  from lost_packets_cost_their_blocks [where len = ?l, OF mem_calls quiet_mem(1,3) l mem_start_ok o [unfolded eqTrueI [OF r]] b]
  show ?thesis unfolding o by (fastforce simp: num_PIDs)
qed

text \<open>
  C31. A block that needs a second packet and fills it exactly leaves a continuation mark in front of the next
  block, although nothing is continued: every call reports success, and the ground does not get that
  block.
\<close>

theorem full_packet_hides_next_block:
  assumes "working_yaffs_calls ok files handles y" and "quiet_clock ok files handles time {k}"
    and "quiet_delegate ok files handles notify" and "len (num_PID PID_Timestamp) = 8" and "ok s"
    and "ExperimentFile_Open (YaffsFileSystem y) p Open_CreateAlways a
           (ExperimentFile_SetOnFlush notify (ExperimentFile_new time)) s = (True, e1, s1)"
    and "block_pid q1 \<and> block_pid q2"
    and "len (num_PID q1) = length d1 \<and> len (num_PID q2) = length d2 \<and> len (num_PID q3) = length d3"
    and "0 < length d1" and "length d1 < 229 - k" and "length d2 = 229 - k" and "length d3 < 229 - k"
  shows "\<exists>e2 s2 e3 t pk. write_blocks (YaffsFileSystem y) [(q1, d1), (q2, d2), (q3, d3)] e1 s1 = Some (e2, s2)
    \<and> ExperimentFile_Close (YaffsFileSystem y) e2 s2 = (OS_Success, e3, t)
    \<and> files t = (files s)(p \<mapsto> concat pk) \<and> (\<forall>k \<in> set pk. length k = PacketLength)
    \<and> data_blocks (fst (read_packets len None pk)) = [(num_PID q1, d1), (num_PID q2, d2)]"
  using recording_store.block_lost [OF working_yaffs_calls.as_recording_store [where len = len, OF assms(1-4)] assms(5,6) refl assms(7-12)]
  by fastforce

theorem full_packet_hides_next_block_witness:
  "case ExperimentFile_Open (YaffsFileSystem mem_yaffs) [0x61] Open_CreateAlways Access_WriteOnly
           (ExperimentFile_SetOnFlush (\<lambda>_ s. s) (ExperimentFile_new None)) mem_start of
     (r, e1, s1) \<Rightarrow> \<exists>e2 s2 e3 t pk.
       write_blocks (YaffsFileSystem mem_yaffs) [(PID_Gyro, replicate 8 7), (PID_Sail, replicate 228 9), (PID_Gyro, replicate 8 6)] e1 s1 = Some (e2, s2)
       \<and> ExperimentFile_Close (YaffsFileSystem mem_yaffs) e2 s2 = (OS_Success, e3, t) \<and> mf_files t [0x61] = Some (concat pk)
       \<and> data_blocks (fst (read_packets (\<lambda>p. if p = 0x18 then 228 else 8) None pk)) = [(0x10, replicate 8 7), (0x18, replicate 228 9)]"
proof -
  let ?l = "\<lambda>p :: u8. if p = 0x18 then 228 else 8 :: nat"
  obtain r e1 s1 where o: "ExperimentFile_Open (YaffsFileSystem mem_yaffs) [0x61] Open_CreateAlways Access_WriteOnly
           (ExperimentFile_SetOnFlush (\<lambda>_ s. s) (ExperimentFile_new None)) mem_start = (r, e1, s1)" by (metis prod.collapse)
  have r: "r" using mem_open_works [of "[0x61]" Access_WriteOnly "ExperimentFile_SetOnFlush (\<lambda>_ s. s) (ExperimentFile_new None)"] o by simp
  have l: "?l (num_PID PID_Timestamp) = 8" by (simp add: num_PIDs)
  have b: "block_pid PID_Gyro \<and> block_pid PID_Sail" using block_pid_examples by simp
  from full_packet_hides_next_block [where len = ?l, OF mem_calls quiet_mem(2,3) l mem_start_ok o [unfolded eqTrueI [OF r]] b,
      of "replicate 8 7" "replicate 228 9" PID_Gyro "replicate 8 6"]
  show ?thesis unfolding o by (fastforce simp: num_PIDs)
qed

section \<open>Failing files, moved files\<close>

text \<open>
  When the file cannot be written while a block that needs several packets is put into them, the write
  still reports success.
\<close>

theorem big_block_error_hidden:
  assumes "packing len sm pk [] bl None (ef_writer e)" and "\<not> ef_hasPayload e" and "1 < room (ef_writer e)"
    and "room (ef_writer e) \<le> length d" and "ef_file e = Some h" and "\<And>bs. fst (fst (fs_Write fs h bs s)) \<noteq> OS_Success"
  shows "\<exists>e' s'. ExperimentFile_Write fs pid d e s = Some (OS_Success, e', s')"
proof -
  let ?n = "room (ef_writer e) - 1"
  let ?w = "snd (Writer_WriteArray (take ?n d) (snd (Writer_WriteByte (num_PID pid) (ef_writer e))))"
  let ?e = "e\<lparr>ef_writer := ?w, ef_hasPayload := True\<rparr>"
  have l: "Suc (length (take ?n d)) \<le> room (ef_writer e)" using assms(3,4) by simp
  note put = packing_put [OF assms(1) l, of "num_PID pid"]
  have full: "room ?w = 0" using put(2) assms(3,4) by simp
  have "FillBufferWithPadding ?e = ?e" using padded_again [of ?e] full put(1) by simp
  then have fl: "FlushInternal fs True ?e s = (fst (fst (fs_Write fs h (w_buf ?w) s)), ?e, snd (fs_Write fs h (w_buf ?w) s))"
    using assms(5,6) by (simp add: FlushInternal_def File_Write_def OS_RESULT_FAILED_def case_prod_beta)
  have "WriteDataBiggerThanFrame fs pid d e s = Some (fst (fst (fs_Write fs h (w_buf ?w) s)), ?e, snd (fs_Write fs h (w_buf ?w) s))"
    using assms(3,4,6) packing_room(7) [OF assms(1)] packing_room(1) [OF put(1)] full fl
    by (subst WriteDataBiggerThanFrame.simps)
      (auto simp: Let_def ExperimentFile_Flush_def OS_RESULT_FAILED_def min_def)
  then show ?thesis
    using assms(2,4) packing_room(6) [OF assms(1)] by (simp add: ExperimentFile_Write_def OS_RESULT_FAILED_def)
qed

text \<open>A packet that cannot be written stays: the error is reported, and the next block that does not fit tries it again.\<close>

lemma failed_flush_keeps_packet:
  assumes "packing len sm pk t bl c (ef_writer e)" and "ef_file e = Some h" and "ef_hasPayload e"
    and "room (ef_writer e) \<le> length d" and "\<And>bs. fst (fst (fs_Write fs h bs s)) \<noteq> OS_Success"
  shows "\<exists>r e' s'. ExperimentFile_Write fs pid d e s = Some (r, e', s') \<and> r \<noteq> OS_Success
    \<and> e' = FillBufferWithPadding e \<and> packing len sm pk (t @ padding (ef_writer e)) bl c (ef_writer e')"
proof -
  note pad = packing_pad [OF assms(1)]
  have p2: "FillBufferWithPadding (FillBufferWithPadding e) = FillBufferWithPadding e"
    using padded_again pad by blast
  have f: "ef_file (FillBufferWithPadding e) = Some h"
    using assms(2) by (simp add: FillBufferWithPadding_def Let_def)
  show ?thesis
    using pad(1) p2 f assms(3-5) packing_room(6) [OF assms(1)]
    by (simp add: ExperimentFile_Write_def ExperimentFile_Flush_def FlushInternal_def File_Write_def OS_RESULT_FAILED_def
        case_prod_beta Let_def)
qed

text \<open>The move constructor takes the packet over as it is; the delegate is not moved with it.\<close>

lemma move_keeps_packet:
  assumes "writer_wf (ef_writer e)" and "w_valid (ef_writer e)" and "\<not> w_fault (ef_writer e)"
    and "length (w_buf (ef_writer e)) = PacketLength"
  shows "ef_writer (fst (ExperimentFile_move e)) = ef_writer e \<and> \<not> ef_hasPayload (snd (ExperimentFile_move e))"
proof -
  obtain b q where w: "ef_writer e = \<lparr>w_buf = b, w_pos = q, w_valid = True, w_fault = False\<rparr>"
    using assms(2,3) by (cases "ef_writer e") auto
  have l: "unat q \<le> 230" "length b = 230" using assms(1,4) w by (simp_all add: writer_wf_def PacketLength_def)
  have "unat (ucast q :: u8) = unat q mod 256" by (simp add: unsigned_ucast_eq take_bit_eq_mod)
  then have "unat (ucast q :: u8) \<le> 230" using l(1) mod_less_eq_dividend [of "unat q" 256] by linarith
  then show ?thesis
    using l by (simp add: ExperimentFile_move_def w Writer_GetDataLength_def Writer_Reserve_def Writer_Initialize_def
        Writer_Reset_def Writer_RemainingSize_def UpdateState_fits fits_def Let_def unat_of_nat)
qed

end
