(* ===== verification/N25q_Flash.thy ===== *)
theory N25q_Flash
  imports Redundancy Rtc
begin

text \<open>
  The serial flash memories of the file system: the driver of one N25Q chip on its SPI slave
  (libs/drivers/n25q/n25q.cpp), the driver of three of them with voting (redundant_n25q.cpp), the
  device that yaffs uses on it (yaffs.h) and its set-up (libs/obc/storage/n25q_flash).
\<close>

section \<open>One chip\<close>

text \<open>
  The slave on the SPI bus. \<open>spi_Read\<close> takes the buffer and returns it as it is afterwards.
\<close>

record 's spi =
  spi_Select :: "'s \<Rightarrow> 's"
  spi_Deselect :: "'s \<Rightarrow> 's"
  spi_Write :: "bytes \<Rightarrow> 's \<Rightarrow> OSResult \<times> 's"
  spi_Read :: "bytes \<Rightarrow> 's \<Rightarrow> (OSResult \<times> bytes) \<times> 's"

text \<open>
  The driver: its slave, the two reports to the error counter of its device, how often a timeout of
  that many milliseconds that starts now is found not to have expired, and the bytes that a variable
  has before it is written.
\<close>

record 's N25QDriver =
  nq_spi :: "'s spi"
  nq_Failure :: "'s \<Rightarrow> 's"
  nq_Success :: "'s \<Rightarrow> 's"
  nq_polls :: "int \<Rightarrow> 's \<Rightarrow> nat"
  nq_uninitialised :: "nat \<Rightarrow> 's \<Rightarrow> bytes"

definition NqCmd_ReadId :: u8 where "NqCmd_ReadId = 0x9E"
definition NqCmd_ReadStatusRegister :: u8 where "NqCmd_ReadStatusRegister = 0x05"
definition NqCmd_ReadFlagStatusRegister :: u8 where "NqCmd_ReadFlagStatusRegister = 0x70"
definition NqCmd_ReadMemory :: u8 where "NqCmd_ReadMemory = 0x03"
definition NqCmd_WriteEnable :: u8 where "NqCmd_WriteEnable = 0x06"
definition NqCmd_ProgramMemory :: u8 where "NqCmd_ProgramMemory = 0x02"
definition NqCmd_EraseSubsector :: u8 where "NqCmd_EraseSubsector = 0x20"
definition NqCmd_EraseSector :: u8 where "NqCmd_EraseSector = 0xD8"
definition NqCmd_EraseChip :: u8 where "NqCmd_EraseChip = 0xC7"
definition NqCmd_ClearFlagRegister :: u8 where "NqCmd_ClearFlagRegister = 0x50"
definition NqCmd_ResetEnable :: u8 where "NqCmd_ResetEnable = 0x66"
definition NqCmd_ResetMemory :: u8 where "NqCmd_ResetMemory = 0x99"
definition NqCmd_WriteStatusRegister :: u8 where "NqCmd_WriteStatusRegister = 0x01"

lemmas n25q_commands = NqCmd_ReadId_def NqCmd_ReadStatusRegister_def NqCmd_ReadFlagStatusRegister_def NqCmd_ReadMemory_def
  NqCmd_WriteEnable_def NqCmd_ProgramMemory_def NqCmd_EraseSubsector_def NqCmd_EraseSector_def NqCmd_EraseChip_def
  NqCmd_ClearFlagRegister_def NqCmd_ResetEnable_def NqCmd_ResetMemory_def NqCmd_WriteStatusRegister_def

definition Status_ProtectedAreaFromBottom :: u8 where "Status_ProtectedAreaFromBottom = 0x20"
definition Status_WriteInProgress :: u8 where "Status_WriteInProgress = 0x01"
definition FlagStatus_EraseError :: u8 where "FlagStatus_EraseError = 0x20"
definition FlagStatus_ProgramError :: u8 where "FlagStatus_ProgramError = 0x10"

definition byte_has_flag :: "u8 \<Rightarrow> u8 \<Rightarrow> bool" where
  "byte_has_flag v flag \<longleftrightarrow> v AND flag = flag"

datatype OperationResult = Operation_Success | Operation_Failure | Operation_Timeout

record n25q_id =
  id_Manufacturer :: u8
  id_MemoryType :: u8
  id_MemoryCapacity :: u8

definition n25q_id_IsValid :: "n25q_id \<Rightarrow> bool" where
  "n25q_id_IsValid i \<longleftrightarrow> id_Manufacturer i = 0x20 \<and> id_MemoryType i = 0xBA \<and> id_MemoryCapacity i = 0x18"

definition NqPageSize :: nat where "NqPageSize = 256"
definition ProgramPageTimeout :: int where "ProgramPageTimeout = 50"
definition EraseSubSectorTimeout :: int where "EraseSubSectorTimeout = 960"
definition EraseSectorTimeout :: int where "EraseSectorTimeout = 3000"
definition EraseChipTimeOut :: int where "EraseChipTimeOut = 300000"
definition NqResetTimeout :: int where "NqResetTimeout = 10"
definition WriteStatusRegisterTimeout :: int where "WriteStatusRegisterTimeout = 10"
definition NqRetryCount :: nat where "NqRetryCount = 3"

text \<open>An action while the slave is selected.\<close>

definition SPISelectSlave :: "'s spi \<Rightarrow> ('s \<Rightarrow> 'r \<times> 's) \<Rightarrow> 's \<Rightarrow> 'r \<times> 's" where
  "SPISelectSlave spi action s = (let (r, s) = action (spi_Select spi s) in (r, spi_Deselect spi s))"

text \<open>The buffer that the action fills is handed from one try to the next.\<close>

fun Retry :: "nat \<Rightarrow> ('b \<Rightarrow> 's \<Rightarrow> (OSResult \<times> 'b) \<times> 's) \<Rightarrow> OSResult \<Rightarrow> 'b \<Rightarrow> 's \<Rightarrow> (OSResult \<times> 'b) \<times> 's" where
  "Retry 0 action lastResult buffer s = ((lastResult, buffer), s)"
| "Retry (Suc n) action lastResult buffer s =
     (let ((lastResult, buffer), s) = action buffer s
      in if lastResult = OS_Success then ((lastResult, buffer), s)
         else Retry n action lastResult buffer s)"

definition Nq_Command :: "'s N25QDriver \<Rightarrow> u8 \<Rightarrow> 's \<Rightarrow> OSResult \<times> 's" where
  "Nq_Command d command s = spi_Write (nq_spi d) [command] s"

definition Nq_CommandResponse :: "'s N25QDriver \<Rightarrow> u8 \<Rightarrow> bytes \<Rightarrow> 's \<Rightarrow> (OSResult \<times> bytes) \<times> 's" where
  "Nq_CommandResponse d command response s =
     (let (r, s) = spi_Write (nq_spi d) [command] s
      in if r \<noteq> OS_Success then ((r, response), s) else spi_Read (nq_spi d) response s)"

text \<open>The three bytes of an address; the writer they go to has room for them.\<close>

definition address_bytes :: "u32 \<Rightarrow> bytes" where
  "address_bytes address =
     [ucast (drop_bit (2 * 8) address AND 0xFF), ucast (drop_bit (1 * 8) address AND 0xFF),
      ucast (drop_bit (0 * 8) address AND 0xFF)]"

definition ReadIdWithoutErrorHandling :: "'s N25QDriver \<Rightarrow> 's \<Rightarrow> n25q_id \<times> 's" where
  "ReadIdWithoutErrorHandling d s =
     (let ((_, response), s) =
            Retry NqRetryCount (\<lambda>response. SPISelectSlave (nq_spi d) (Nq_CommandResponse d NqCmd_ReadId response))
              OS_InvalidOperation (nq_uninitialised d 3 s) s
      in (\<lparr>id_Manufacturer = response ! 0, id_MemoryType = response ! 1, id_MemoryCapacity = response ! 2\<rparr>, s))"

definition N25Q_ReadId :: "'s N25QDriver \<Rightarrow> 's \<Rightarrow> n25q_id \<times> 's" where
  "N25Q_ReadId d s =
     (let (i, s) = ReadIdWithoutErrorHandling d s
      in (i, if n25q_id_IsValid i then nq_Success d s else nq_Failure d s))"

definition N25Q_ReadStatus :: "'s N25QDriver \<Rightarrow> 's \<Rightarrow> u8 \<times> 's" where
  "N25Q_ReadStatus d s =
     (let ((_, status), s) =
            Retry NqRetryCount (\<lambda>b. SPISelectSlave (nq_spi d) (Nq_CommandResponse d NqCmd_ReadStatusRegister b))
              OS_InvalidOperation (nq_uninitialised d 1 s) s
      in (status ! 0, s))"

definition N25Q_ReadFlagStatus :: "'s N25QDriver \<Rightarrow> 's \<Rightarrow> u8 \<times> 's" where
  "N25Q_ReadFlagStatus d s =
     (let ((_, status), s) =
            Retry NqRetryCount (\<lambda>b. SPISelectSlave (nq_spi d) (Nq_CommandResponse d NqCmd_ReadFlagStatusRegister b))
              OS_InvalidOperation (nq_uninitialised d 1 s) s
      in (status ! 0, s))"

definition N25Q_ReadMemory :: "'s N25QDriver \<Rightarrow> u32 \<Rightarrow> bytes \<Rightarrow> 's \<Rightarrow> (OSResult \<times> bytes) \<times> 's" where
  "N25Q_ReadMemory d address buffer s =
     (let ((r, buffer), s) =
            Retry NqRetryCount
              (\<lambda>buffer. SPISelectSlave (nq_spi d)
                 (\<lambda>s. let (r, s) = spi_Write (nq_spi d) (NqCmd_ReadMemory # address_bytes address) s
                      in if r \<noteq> OS_Success then ((r, buffer), s) else spi_Read (nq_spi d) buffer s))
              OS_InvalidOperation buffer s
      in ((r, buffer), if r = OS_Success then nq_Success d s else nq_Failure d s))"

definition N25Q_EnableWrite :: "'s N25QDriver \<Rightarrow> 's \<Rightarrow> 's" where
  "N25Q_EnableWrite d s = snd (SPISelectSlave (nq_spi d) (Nq_Command d NqCmd_WriteEnable) s)"

definition N25Q_ClearFlags :: "'s N25QDriver \<Rightarrow> 's \<Rightarrow> 's" where
  "N25Q_ClearFlags d s = snd (SPISelectSlave (nq_spi d) (Nq_Command d NqCmd_ClearFlagRegister) s)"

definition N25Q_WriteAddress :: "'s N25QDriver \<Rightarrow> u32 \<Rightarrow> 's \<Rightarrow> OSResult \<times> 's" where
  "N25Q_WriteAddress d address s = spi_Write (nq_spi d) (address_bytes address) s"

text \<open>The result of reading the status is not looked at: the status is then 0, not busy.\<close>

primrec WaitBusy :: "'s N25QDriver \<Rightarrow> nat \<Rightarrow> 's \<Rightarrow> bool \<times> 's" where
  "WaitBusy d 0 s =
     (let ((_, status), s) = Nq_CommandResponse d NqCmd_ReadStatusRegister [0] s
      in (\<not> byte_has_flag (status ! 0) Status_WriteInProgress, s))"
| "WaitBusy d (Suc polls) s =
     (let ((_, status), s) = Nq_CommandResponse d NqCmd_ReadStatusRegister [0] s
      in if \<not> byte_has_flag (status ! 0) Status_WriteInProgress then (True, s) else WaitBusy d polls s)"

definition WaitForOperation :: "'s N25QDriver \<Rightarrow> int \<Rightarrow> u8 \<Rightarrow> 's \<Rightarrow> OperationResult \<times> 's" where
  "WaitForOperation d timeout errorStatus s =
     (let (idle, s) = SPISelectSlave (nq_spi d) (\<lambda>s. WaitBusy d (nq_polls d timeout s) s) s
      in if \<not> idle then (Operation_Timeout, nq_Failure d s)
         else
           (let (flags, s) = N25Q_ReadFlagStatus d s
            in if byte_has_flag flags errorStatus then (Operation_Failure, nq_Failure d s)
               else (Operation_Success, nq_Success d s)))"

text \<open>The interface. A waiter without a driver is what a page that is too long gets.\<close>

record OperationWaiter =
  ow_waitResult :: "OperationResult option"
  ow_driver :: bool
  ow_timeout :: int
  ow_errorStatus :: u8

record 's IN25QDriver =
  nd_ReadMemory :: "u32 \<Rightarrow> bytes \<Rightarrow> 's \<Rightarrow> (OSResult \<times> bytes) \<times> 's"
  nd_BeginWritePage :: "u32 \<Rightarrow> nat \<Rightarrow> bytes \<Rightarrow> 's \<Rightarrow> OperationWaiter \<times> 's"
  nd_BeginEraseSubSector :: "u32 \<Rightarrow> 's \<Rightarrow> OperationWaiter \<times> 's"
  nd_BeginEraseSector :: "u32 \<Rightarrow> 's \<Rightarrow> OperationWaiter \<times> 's"
  nd_BeginEraseChip :: "'s \<Rightarrow> OperationWaiter \<times> 's"
  nd_Reset :: "'s \<Rightarrow> OperationResult \<times> 's"
  nd_WaitForOperation :: "int \<Rightarrow> u8 \<Rightarrow> 's \<Rightarrow> OperationResult \<times> 's"

definition OperationWaiter_new :: "int \<Rightarrow> u8 \<Rightarrow> OperationWaiter" where
  "OperationWaiter_new timeout errorStatus =
     \<lparr>ow_waitResult = None, ow_driver = True, ow_timeout = timeout, ow_errorStatus = errorStatus\<rparr>"

text \<open>\<open>None\<close>: the call goes through a null pointer.\<close>

definition OperationWaiter_Wait ::
  "'s IN25QDriver \<Rightarrow> OperationWaiter \<Rightarrow> 's \<Rightarrow> (OperationResult \<times> OperationWaiter \<times> 's) option" where
  "OperationWaiter_Wait d w s =
     (case ow_waitResult w of
        Some r \<Rightarrow> Some (r, w, s)
      | None \<Rightarrow>
          if \<not> ow_driver w then None
          else
            (let (r, s) = nd_WaitForOperation d (ow_timeout w) (ow_errorStatus w) s
             in Some (r, w\<lparr>ow_waitResult := Some r\<rparr>, s)))"

text \<open>The destructor.\<close>

definition OperationWaiter_drop :: "'s IN25QDriver \<Rightarrow> OperationWaiter \<Rightarrow> 's \<Rightarrow> 's" where
  "OperationWaiter_drop d w s =
     (if ow_driver w \<and> ow_waitResult w = None
      then (case OperationWaiter_Wait d w s of None \<Rightarrow> s | Some (r, w, s) \<Rightarrow> s) else s)"

definition N25Q_BeginWritePage :: "'s N25QDriver \<Rightarrow> u32 \<Rightarrow> nat \<Rightarrow> bytes \<Rightarrow> 's \<Rightarrow> OperationWaiter \<times> 's" where
  "N25Q_BeginWritePage d address offset page s =
     (if NqPageSize < length page
      then (\<lparr>ow_waitResult = None, ow_driver = False, ow_timeout = 0, ow_errorStatus = FlagStatus_ProgramError\<rparr>, s)
      else
        (let s = N25Q_EnableWrite d s;
             (_, s) = SPISelectSlave (nq_spi d)
                        (\<lambda>s. let (_, s) = spi_Write (nq_spi d) (NqCmd_ProgramMemory # address_bytes (address + of_nat offset)) s
                             in spi_Write (nq_spi d) page s) s
         in (OperationWaiter_new ProgramPageTimeout FlagStatus_ProgramError, s)))"

definition N25Q_BeginEraseSector :: "'s N25QDriver \<Rightarrow> u32 \<Rightarrow> 's \<Rightarrow> OperationWaiter \<times> 's" where
  "N25Q_BeginEraseSector d address s =
     (let s = N25Q_EnableWrite d (N25Q_ClearFlags d s);
          (_, s) = SPISelectSlave (nq_spi d)
                     (\<lambda>s. N25Q_WriteAddress d address (snd (Nq_Command d NqCmd_EraseSector s))) s
      in (OperationWaiter_new EraseSectorTimeout FlagStatus_EraseError, s))"

definition N25Q_BeginEraseSubSector :: "'s N25QDriver \<Rightarrow> u32 \<Rightarrow> 's \<Rightarrow> OperationWaiter \<times> 's" where
  "N25Q_BeginEraseSubSector d address s =
     (let s = N25Q_EnableWrite d (N25Q_ClearFlags d s);
          (_, s) = SPISelectSlave (nq_spi d)
                     (\<lambda>s. N25Q_WriteAddress d address (snd (Nq_Command d NqCmd_EraseSubsector s))) s
      in (OperationWaiter_new EraseSubSectorTimeout FlagStatus_EraseError, s))"

definition N25Q_BeginEraseChip :: "'s N25QDriver \<Rightarrow> 's \<Rightarrow> OperationWaiter \<times> 's" where
  "N25Q_BeginEraseChip d s =
     (let s = N25Q_EnableWrite d (N25Q_ClearFlags d s);
          (_, s) = SPISelectSlave (nq_spi d) (Nq_Command d NqCmd_EraseChip) s
      in (OperationWaiter_new EraseChipTimeOut FlagStatus_EraseError, s))"

text \<open>The loop of \<open>Reset\<close> until the identifier is valid.\<close>

primrec wait_for_id :: "'s N25QDriver \<Rightarrow> nat \<Rightarrow> 's \<Rightarrow> bool \<times> 's" where
  "wait_for_id d 0 s = (let (i, s) = ReadIdWithoutErrorHandling d s in (n25q_id_IsValid i, s))"
| "wait_for_id d (Suc polls) s =
     (let (i, s) = ReadIdWithoutErrorHandling d s
      in if n25q_id_IsValid i then (True, s) else wait_for_id d polls s)"

definition N25Q_Reset :: "'s N25QDriver \<Rightarrow> 's \<Rightarrow> OperationResult \<times> 's" where
  "N25Q_Reset d s =
     (let (_, s) = SPISelectSlave (nq_spi d) (Nq_Command d NqCmd_ResetEnable) s;
          (_, s) = SPISelectSlave (nq_spi d) (Nq_Command d NqCmd_ResetMemory) s;
          (valid, s) = wait_for_id d (nq_polls d NqResetTimeout s) s
      in if \<not> valid then (Operation_Timeout, nq_Failure d s)
         else
           (let s = N25Q_EnableWrite d s;
                (_, s) = SPISelectSlave (nq_spi d)
                           (\<lambda>s. spi_Write (nq_spi d) [Status_ProtectedAreaFromBottom]
                                  (snd (Nq_Command d NqCmd_WriteStatusRegister s))) s;
                (idle, s) = SPISelectSlave (nq_spi d) (\<lambda>s. WaitBusy d (nq_polls d WriteStatusRegisterTimeout s) s) s
            in if \<not> idle then (Operation_Timeout, nq_Failure d s) else (Operation_Success, nq_Success d s)))"

definition N25Q :: "'s N25QDriver \<Rightarrow> 's IN25QDriver" where
  "N25Q d = \<lparr>nd_ReadMemory = N25Q_ReadMemory d, nd_BeginWritePage = N25Q_BeginWritePage d,
     nd_BeginEraseSubSector = N25Q_BeginEraseSubSector d, nd_BeginEraseSector = N25Q_BeginEraseSector d,
     nd_BeginEraseChip = N25Q_BeginEraseChip d, nd_Reset = N25Q_Reset d, nd_WaitForOperation = WaitForOperation d\<rparr>"

section \<open>Three chips (redundant_n25q.cpp)\<close>

record 's RedundantN25QDriver =
  rn_1 :: "'s IN25QDriver"
  rn_2 :: "'s IN25QDriver"
  rn_3 :: "'s IN25QDriver"
  rn_Failure :: "'s \<Rightarrow> 's"
  rn_Success :: "'s \<Rightarrow> 's"

text \<open>
  The buffers are their addresses and bytes, for the vote; the result has the bytes of the output
  buffer. Buffers of different lengths are cut to the shortest, the rest of the output is left.
\<close>

definition Redundant_ReadMemory ::
  "'s RedundantN25QDriver \<Rightarrow> u32 \<Rightarrow> span \<Rightarrow> span \<Rightarrow> span \<Rightarrow> 's \<Rightarrow> (OSResult \<times> bytes) \<times> 's" where
  "Redundant_ReadMemory d address outputBuffer redundantBuffer1 redundantBuffer2 s =
     (let n = min (span_len outputBuffer) (min (span_len redundantBuffer1) (span_len redundantBuffer2));
          rest_of = drop n (s_data outputBuffer);
          ((r, out), s) = nd_ReadMemory (rn_1 d) address (take n (s_data outputBuffer)) s
      in if r \<noteq> OS_Success then ((r, out @ rest_of), s)
         else
           (let ((r, b1), s) = nd_ReadMemory (rn_2 d) address (take n (s_data redundantBuffer1)) s
            in if r \<noteq> OS_Success then ((r, out @ rest_of), s)
               else if out = b1 then ((OS_Success, out @ rest_of), rn_Success d s)
               else
                 (let s = rn_Failure d s;
                      ((r, b2), s) = nd_ReadMemory (rn_3 d) address (take n (s_data redundantBuffer2)) s
                  in if r \<noteq> OS_Success then ((r, out @ rest_of), s)
                     else
                       ((OS_Success,
                         snd (CorrectBuffer_inplace \<lparr>s_addr = s_addr outputBuffer, s_data = out\<rparr>
                                \<lparr>s_addr = s_addr redundantBuffer1, s_data = b1\<rparr>
                                \<lparr>s_addr = s_addr redundantBuffer2, s_data = b2\<rparr>) @ rest_of), s))))"

text \<open>The operation is begun on all three chips, then waited for on all three.\<close>

definition on_three ::
  "'s RedundantN25QDriver \<Rightarrow> ('s IN25QDriver \<Rightarrow> 's \<Rightarrow> OperationWaiter \<times> 's) \<Rightarrow> 's
     \<Rightarrow> (OperationResult option \<times> 's) option" where
  "on_three d begin_on s =
     (let (w1, s) = begin_on (rn_1 d) s;
          (w2, s) = begin_on (rn_2 d) s;
          (w3, s) = begin_on (rn_3 d) s
      in case OperationWaiter_Wait (rn_1 d) w1 s of None \<Rightarrow> None | Some (r1, w1, s) \<Rightarrow>
         (case OperationWaiter_Wait (rn_2 d) w2 s of None \<Rightarrow> None | Some (r2, w2, s) \<Rightarrow>
          (case OperationWaiter_Wait (rn_3 d) w3 s of None \<Rightarrow> None | Some (r3, w3, s) \<Rightarrow>
             Some (Vote r1 r2 r3, OperationWaiter_drop (rn_1 d) w1 (OperationWaiter_drop (rn_2 d) w2
               (OperationWaiter_drop (rn_3 d) w3 s))))))"

definition erase_voted ::
  "'s RedundantN25QDriver \<Rightarrow> (OperationResult option \<times> 's) option \<Rightarrow> (OperationResult \<times> 's) option" where
  "erase_voted d r =
     map_option (\<lambda>(votedResult, s).
       case votedResult of None \<Rightarrow> (Operation_Failure, rn_Failure d s) | Some v \<Rightarrow> (v, rn_Success d s)) r"

definition Redundant_EraseChip :: "'s RedundantN25QDriver \<Rightarrow> 's \<Rightarrow> (OperationResult \<times> 's) option" where
  "Redundant_EraseChip d s = erase_voted d (on_three d nd_BeginEraseChip s)"

definition Redundant_EraseSubSector :: "'s RedundantN25QDriver \<Rightarrow> u32 \<Rightarrow> 's \<Rightarrow> (OperationResult \<times> 's) option" where
  "Redundant_EraseSubSector d address s = erase_voted d (on_three d (\<lambda>c. nd_BeginEraseSubSector c address) s)"

definition Redundant_EraseSector :: "'s RedundantN25QDriver \<Rightarrow> u32 \<Rightarrow> 's \<Rightarrow> (OperationResult \<times> 's) option" where
  "Redundant_EraseSector d address s = erase_voted d (on_three d (\<lambda>c. nd_BeginEraseSector c address) s)"

fun write_pages ::
  "'s RedundantN25QDriver \<Rightarrow> u32 \<Rightarrow> bytes \<Rightarrow> nat list \<Rightarrow> 's \<Rightarrow> (OperationResult \<times> 's) option" where
  "write_pages d address buffer [] s = Some (Operation_Success, rn_Success d s)"
| "write_pages d address buffer (offset # offsets) s =
     (case on_three d (\<lambda>c. nd_BeginWritePage c address offset (sub_at offset (min NqPageSize (length buffer - offset)) buffer)) s of
        None \<Rightarrow> None
      | Some (None, s) \<Rightarrow> Some (Operation_Failure, rn_Failure d s)
      | Some (Some v, s) \<Rightarrow>
          if v \<noteq> Operation_Success then Some (v, rn_Failure d s) else write_pages d address buffer offsets s)"

text \<open>The values the offset takes in the loop.\<close>

definition page_offsets :: "nat \<Rightarrow> nat list" where
  "page_offsets n = map (\<lambda>i. NqPageSize * i) [0..<(n + NqPageSize - 1) div NqPageSize]"

definition Redundant_WriteMemory :: "'s RedundantN25QDriver \<Rightarrow> u32 \<Rightarrow> bytes \<Rightarrow> 's \<Rightarrow> (OperationResult \<times> 's) option" where
  "Redundant_WriteMemory d address buffer s = write_pages d address buffer (page_offsets (length buffer)) s"

definition Redundant_Reset :: "'s RedundantN25QDriver \<Rightarrow> 's \<Rightarrow> OperationResult \<times> 's" where
  "Redundant_Reset d s =
     (let (r1, s) = nd_Reset (rn_1 d) s;
          (r2, s) = nd_Reset (rn_2 d) s;
          (r3, s) = nd_Reset (rn_3 d) s
      in case Vote r1 r2 r3 of
           None \<Rightarrow> (Operation_Failure, rn_Failure d s)
         | Some v \<Rightarrow> if v \<noteq> Operation_Success then (v, rn_Failure d s) else (Operation_Success, rn_Success d s))"


section \<open>The device of the file system (yaffs.h, obc/storage)\<close>

datatype BlockMapping = Map_SubSector | Map_Sector

primrec BlockSize :: "BlockMapping \<Rightarrow> u32" where
  "BlockSize Map_SubSector = 4 * 1024"
| "BlockSize Map_Sector = 64 * 1024"

text \<open>The parameters that the constructor sets; all others are 0.\<close>

record yaffs_param =
  yp_inband_tags :: bool
  yp_is_yaffs2 :: bool
  yp_total_bytes_per_chunk :: u32
  yp_chunks_per_block :: u32
  yp_spare_bytes_per_chunk :: u32
  yp_start_block :: u32
  yp_end_block :: u32
  yp_n_reserved_blocks :: u32
  yp_no_tags_ecc :: bool
  yp_always_check_erased :: bool
  yp_disable_bad_block_marking :: bool

record 's N25QYaffsDevice =
  yd_driver :: "'s RedundantN25QDriver"
  yd_blockMapping :: BlockMapping
  yd_param :: yaffs_param
  yd_redundantReadBuffer1 :: span
  yd_redundantReadBuffer2 :: span

definition N25QYaffsDevice_new ::
  "BlockMapping \<Rightarrow> nat \<Rightarrow> u32 \<Rightarrow> 's RedundantN25QDriver \<Rightarrow> span \<Rightarrow> span \<Rightarrow> 's N25QYaffsDevice" where
  "N25QYaffsDevice_new blockMapping ChunkSize TotalSize driver buffer1 buffer2 =
     (let chunks_per_block = BlockSize blockMapping div of_nat ChunkSize;
          blockSize = chunks_per_block * of_nat ChunkSize
      in \<lparr>yd_driver = driver, yd_blockMapping = blockMapping,
          yd_param =
            \<lparr>yp_inband_tags = True, yp_is_yaffs2 = True, yp_total_bytes_per_chunk = of_nat ChunkSize,
             yp_chunks_per_block = chunks_per_block, yp_spare_bytes_per_chunk = 0, yp_start_block = 1,
             yp_end_block = TotalSize div blockSize - 1 - 3, yp_n_reserved_blocks = 3, yp_no_tags_ecc = True,
             yp_always_check_erased = True, yp_disable_bad_block_marking = True\<rparr>,
          yd_redundantReadBuffer1 = buffer1, yd_redundantReadBuffer2 = buffer2\<rparr>)"

definition span_first :: "nat \<Rightarrow> span \<Rightarrow> span" where
  "span_first n b = b\<lparr>s_data := take n (s_data b)\<rparr>"

text \<open>
  Reading a chunk: whether it is \<open>YAFFS_OK\<close>, whether the result of the error correction is set (to "no
  error"), and the data. The chunk size of the type is the length of the device's own buffers. The
  result of the driver is not looked at.
\<close>

definition Nq_ReadChunk :: "'s N25QYaffsDevice \<Rightarrow> int \<Rightarrow> span \<Rightarrow> int \<Rightarrow> 's \<Rightarrow> (bool \<times> bool \<times> bytes) \<times> 's" where
  "Nq_ReadChunk dev nand_chunk data oob_len s =
     (if oob_len > 0 then ((False, False, s_data data), s)
      else if span_len data > span_len (yd_redundantReadBuffer1 dev) then ((False, False, s_data data), s)
      else
        (let baseAddress = of_int nand_chunk * yp_total_bytes_per_chunk (yd_param dev);
             ((_, out), s) = Redundant_ReadMemory (yd_driver dev) baseAddress data
               (span_first (span_len data) (yd_redundantReadBuffer1 dev))
               (span_first (span_len data) (yd_redundantReadBuffer2 dev)) s
         in ((True, True, out), s)))"

definition Nq_WriteChunk :: "'s N25QYaffsDevice \<Rightarrow> int \<Rightarrow> bytes \<Rightarrow> int \<Rightarrow> 's \<Rightarrow> (bool \<times> 's) option" where
  "Nq_WriteChunk dev nand_chunk data oob_len s =
     (if oob_len > 0 then Some (False, s)
      else
        (let baseAddress = of_int nand_chunk * yp_total_bytes_per_chunk (yd_param dev)
         in map_option (\<lambda>(result, s). (result = Operation_Success, s))
              (Redundant_WriteMemory (yd_driver dev) baseAddress data s)))"

definition Nq_EraseBlock :: "'s N25QYaffsDevice \<Rightarrow> int \<Rightarrow> 's \<Rightarrow> (bool \<times> 's) option" where
  "Nq_EraseBlock dev block_no s =
     (let baseAddress = of_int block_no * yp_chunks_per_block (yd_param dev) * yp_total_bytes_per_chunk (yd_param dev)
      in map_option (\<lambda>(result, s). (result = Operation_Success, s))
           (case yd_blockMapping dev of
              Map_Sector \<Rightarrow> Redundant_EraseSector (yd_driver dev) baseAddress s
            | Map_SubSector \<Rightarrow> Redundant_EraseSubSector (yd_driver dev) baseAddress s))"

definition Nq_MarkBadBlock :: "int \<Rightarrow> 's \<Rightarrow> bool \<times> 's" where
  "Nq_MarkBadBlock block_no s = (True, s)"

definition Nq_CheckBadBlock :: "int \<Rightarrow> 's \<Rightarrow> bool \<times> 's" where
  "Nq_CheckBadBlock block_no s = (True, s)"

text \<open>Mounting is yaffs' own, \<open>AddDeviceAndMount\<close>.\<close>

definition Nq_Mount :: "('s N25QYaffsDevice \<Rightarrow> 's \<Rightarrow> OSResult \<times> 's) \<Rightarrow> 's N25QYaffsDevice \<Rightarrow> 's \<Rightarrow> OSResult \<times> 's" where
  "Nq_Mount AddDeviceAndMount dev s =
     (let (result, s) = AddDeviceAndMount dev s
      in (if OS_RESULT_SUCCEEDED result then OS_Success else result, s))"

definition StorageDevice :: "'s RedundantN25QDriver \<Rightarrow> span \<Rightarrow> span \<Rightarrow> 's N25QYaffsDevice" where
  "StorageDevice = N25QYaffsDevice_new Map_Sector 2048 (16 * 1024 * 1024)"

definition N25QStorage_Initialize ::
  "('s N25QYaffsDevice \<Rightarrow> 's \<Rightarrow> OSResult \<times> 's) \<Rightarrow> 's N25QYaffsDevice \<Rightarrow> 's \<Rightarrow> OSResult \<times> 's" where
  "N25QStorage_Initialize AddDeviceAndMount dev s =
     (let (r, s) = Redundant_Reset (yd_driver dev) s
      in if r \<noteq> Operation_Success then (OS_DeviceNotFound, s) else Nq_Mount AddDeviceAndMount dev s)"

definition N25QStorage_ClearStorage ::
  "('s N25QYaffsDevice \<Rightarrow> 's \<Rightarrow> OSResult \<times> 's) \<Rightarrow> 's N25QYaffsDevice \<Rightarrow> 's \<Rightarrow> OSResult \<times> 's" where
  "N25QStorage_ClearStorage ClearDevice dev s = ClearDevice dev s"

definition N25QStorage_Erase :: "'s N25QYaffsDevice \<Rightarrow> 's \<Rightarrow> (OSResult \<times> 's) option" where
  "N25QStorage_Erase dev s =
     map_option
       (\<lambda>(r, s).
         (case r of Operation_Success \<Rightarrow> OS_Success | Operation_Timeout \<Rightarrow> OS_Timeout | Operation_Failure \<Rightarrow> OS_IOError, s))
       (Redundant_EraseChip (yd_driver dev) s)"

section \<open>The chip, after its data sheet\<close>

text \<open>
  The memory, the write enable latch, the flag status register, how many more reads of the status
  register find the chip busy, and the bytes received since it was selected. What the code relies on
  of a chip is that it behaves like this one.
\<close>

record nor_chip =
  ch_mem :: "nat \<Rightarrow> u8"
  ch_wel :: bool
  ch_flags :: u8
  ch_wait :: nat
  ch_rx :: "bytes option"

definition chip_select :: "nor_chip \<Rightarrow> nor_chip" where
  "chip_select c = c\<lparr>ch_rx := Some []\<rparr>"

definition chip_write :: "bytes \<Rightarrow> nor_chip \<Rightarrow> nor_chip" where
  "chip_write bs c = c\<lparr>ch_rx := map_option (\<lambda>rx. rx @ bs) (ch_rx c)\<rparr>"

definition chip_address :: "bytes \<Rightarrow> nat" where
  "chip_address bs = 65536 * unat (bs ! 0) + 256 * unat (bs ! 1) + unat (bs ! 2)"

definition chip_status :: "nor_chip \<Rightarrow> u8" where
  "chip_status c = (if ch_wel c then 2 else 0) OR (if 0 < ch_wait c then 1 else 0)"

text \<open>What the chip answers to reading \<open>n\<close> bytes, and the chip afterwards.\<close>

definition chip_read :: "nat \<Rightarrow> nor_chip \<Rightarrow> bytes \<times> nor_chip" where
  "chip_read n c =
     (case ch_rx c of
        None \<Rightarrow> (replicate n 0xFF, c)
      | Some rx \<Rightarrow>
          if rx = [] then (replicate n 0xFF, c)
          else if hd rx = NqCmd_ReadStatusRegister
          then (replicate n (chip_status c), c\<lparr>ch_wait := ch_wait c - 1\<rparr>)
          else if hd rx = NqCmd_ReadFlagStatusRegister then (replicate n (ch_flags c), c)
          else if 0 < ch_wait c then (replicate n 0xFF, c)
          else if hd rx = NqCmd_ReadId then (take n [0x20, 0xBA, 0x18] @ replicate (n - 3) 0xFF, c)
          else if hd rx = NqCmd_ReadMemory \<and> length rx = 4
          then (map (\<lambda>i. ch_mem c ((chip_address (tl rx) + i) mod 2 ^ 24)) [0..<n], c)
          else (replicate n 0xFF, c))"

text \<open>Programming clears bits, and wraps at the end of the page.\<close>

definition programmed :: "nat \<Rightarrow> bytes \<Rightarrow> (nat \<Rightarrow> u8) \<Rightarrow> nat \<Rightarrow> u8" where
  "programmed a bs m x =
     (if x div 256 = a div 256 \<and> (x + 256 - a mod 256) mod 256 < length bs
      then m x AND bs ! ((x + 256 - a mod 256) mod 256) else m x)"

definition erased :: "nat \<Rightarrow> nat \<Rightarrow> (nat \<Rightarrow> u8) \<Rightarrow> nat \<Rightarrow> u8" where
  "erased n a m x = (if x div n = a div n then 0xFF else m x)"

text \<open>
  The command is carried out when the chip is deselected; \<open>n\<close> is how long it is busy then. Commands that
  are not understood, not enabled or sent while the chip is busy do nothing.
\<close>

definition chip_execute :: "nat \<Rightarrow> bytes \<Rightarrow> nor_chip \<Rightarrow> nor_chip" where
  "chip_execute n rx c =
     (if rx = [] \<or> 0 < ch_wait c then c
      else if hd rx = NqCmd_WriteEnable then c\<lparr>ch_wel := True\<rparr>
      else if hd rx = NqCmd_ClearFlagRegister then c\<lparr>ch_flags := ch_flags c AND 0x0D\<rparr>
      else if hd rx = NqCmd_WriteStatusRegister \<and> ch_wel c then c\<lparr>ch_wel := False, ch_wait := n\<rparr>
      else if hd rx = NqCmd_ProgramMemory \<and> ch_wel c \<and> 4 < length rx
      then c\<lparr>ch_mem := programmed (chip_address (tl rx)) (drop 4 rx) (ch_mem c), ch_wel := False, ch_wait := n\<rparr>
      else if hd rx = NqCmd_EraseSector \<and> ch_wel c \<and> length rx = 4
      then c\<lparr>ch_mem := erased 65536 (chip_address (tl rx)) (ch_mem c), ch_wel := False, ch_wait := n\<rparr>
      else if hd rx = NqCmd_EraseSubsector \<and> ch_wel c \<and> length rx = 4
      then c\<lparr>ch_mem := erased 4096 (chip_address (tl rx)) (ch_mem c), ch_wel := False, ch_wait := n\<rparr>
      else if hd rx = NqCmd_EraseChip \<and> ch_wel c \<and> length rx = 1
      then c\<lparr>ch_mem := (\<lambda>_. 0xFF), ch_wel := False, ch_wait := n\<rparr>
      else c)"

definition chip_deselect :: "nat \<Rightarrow> nor_chip \<Rightarrow> nor_chip" where
  "chip_deselect n c =
     (case ch_rx c of None \<Rightarrow> c | Some rx \<Rightarrow> (chip_execute n rx c)\<lparr>ch_rx := None\<rparr>)"


section \<open>What the redundant driver relies on\<close>

text \<open>
  A driver of a chip that works. The chip is the part \<open>c\<close> of the state, with contents \<open>m\<close>; it is ready, or an
  operation with a timeout of so many milliseconds is started.
\<close>

definition memory_size :: nat where "memory_size = 2 ^ 24"

definition written :: "nat \<Rightarrow> bytes \<Rightarrow> (nat \<Rightarrow> u8) \<Rightarrow> nat \<Rightarrow> u8" where
  "written a bs m x = (if a \<le> x \<and> x < a + length bs then m x AND bs ! (x - a) else m x)"

locale nor_memory =
  fixes c :: "'s \<Rightarrow> 'c" and m :: "'c \<Rightarrow> nat \<Rightarrow> u8" and ready :: "'c \<Rightarrow> bool" and started :: "int \<Rightarrow> 'c \<Rightarrow> bool"
    and d :: "'s IN25QDriver"
  assumes read_works: "ready (c s) \<Longrightarrow> unat a + length buffer \<le> memory_size \<Longrightarrow>
      nd_ReadMemory d a buffer s = ((r, b), t) \<Longrightarrow>
      r = OS_Success \<and> b = map (\<lambda>i. m (c s) (unat a + i)) [0..<length buffer] \<and> ready (c t) \<and> m (c t) = m (c s)"
    and write_works: "ready (c s) \<Longrightarrow> unat (a + of_nat k) + length page \<le> memory_size \<Longrightarrow> page \<noteq> [] \<Longrightarrow>
      unat (a + of_nat k) mod 256 + length page \<le> 256 \<Longrightarrow> nd_BeginWritePage d a k page s = (w, t) \<Longrightarrow>
      w = OperationWaiter_new (ow_timeout w) FlagStatus_ProgramError \<and> started (ow_timeout w) (c t)
        \<and> m (c t) = written (unat (a + of_nat k)) page (m (c s))"
    and erase_sector_works: "ready (c s) \<Longrightarrow> unat a < memory_size \<Longrightarrow> nd_BeginEraseSector d a s = (w, t) \<Longrightarrow>
      w = OperationWaiter_new (ow_timeout w) FlagStatus_EraseError \<and> started (ow_timeout w) (c t)
        \<and> m (c t) = erased 65536 (unat a) (m (c s))"
    and erase_subsector_works: "ready (c s) \<Longrightarrow> unat a < memory_size \<Longrightarrow> nd_BeginEraseSubSector d a s = (w, t) \<Longrightarrow>
      w = OperationWaiter_new (ow_timeout w) FlagStatus_EraseError \<and> started (ow_timeout w) (c t)
        \<and> m (c t) = erased 4096 (unat a) (m (c s))"
    and wait_works: "started timeout (c s) \<Longrightarrow> flag = FlagStatus_ProgramError \<or> flag = FlagStatus_EraseError \<Longrightarrow>
      nd_WaitForOperation d timeout flag s = (v, t) \<Longrightarrow> v = Operation_Success \<and> ready (c t) \<and> m (c t) = m (c s)"

text \<open>A driver whose operations do not touch the part \<open>c\<close>, whatever its own chip does.\<close>

definition driver_leaves :: "('s \<Rightarrow> 'c) \<Rightarrow> 's IN25QDriver \<Rightarrow> bool" where
  "driver_leaves c d \<longleftrightarrow>
     (\<forall>a b s. c (snd (nd_ReadMemory d a b s)) = c s) \<and> (\<forall>a k p s. c (snd (nd_BeginWritePage d a k p s)) = c s)
     \<and> (\<forall>a s. c (snd (nd_BeginEraseSector d a s)) = c s) \<and> (\<forall>a s. c (snd (nd_BeginEraseSubSector d a s)) = c s)
     \<and> (\<forall>T f s. c (snd (nd_WaitForOperation d T f s)) = c s)"

text \<open>
  What holds of the driver of any chip: the buffer that it reads into keeps its length, and what it
  begins can be waited for.
\<close>

definition driver_sane :: "'s IN25QDriver \<Rightarrow> bool" where
  "driver_sane d \<longleftrightarrow>
     (\<forall>a b s. length (snd (fst (nd_ReadMemory d a b s))) = length b)
     \<and> (\<forall>a k p s. length p \<le> NqPageSize \<longrightarrow> ow_driver (fst (nd_BeginWritePage d a k p s)))
     \<and> (\<forall>a s. ow_driver (fst (nd_BeginEraseSector d a s))) \<and> (\<forall>a s. ow_driver (fst (nd_BeginEraseSubSector d a s)))"

definition chip_of :: "'s RedundantN25QDriver \<Rightarrow> nat \<Rightarrow> 's IN25QDriver" where
  "chip_of d i = (if i = 1 then rn_1 d else if i = 2 then rn_2 d else rn_3 d)"

text \<open>Three chips of which two work; \<open>good\<close> are the numbers of those that do.\<close>

locale redundant_memory =
  fixes c :: "nat \<Rightarrow> 's \<Rightarrow> 'c" and m :: "'c \<Rightarrow> nat \<Rightarrow> u8" and ready :: "'c \<Rightarrow> bool" and started :: "int \<Rightarrow> 'c \<Rightarrow> bool"
    and d :: "'s RedundantN25QDriver" and good :: "nat set"
  assumes two_good: "good \<subseteq> {1, 2, 3}" "2 \<le> card good"
    and good_works: "i \<in> good \<Longrightarrow> nor_memory (c i) m ready started (chip_of d i)"
    and others_leave: "i \<in> good \<Longrightarrow> j \<in> {1, 2, 3} \<Longrightarrow> j \<noteq> i \<Longrightarrow> driver_leaves (c i) (chip_of d j)"
    and sane: "j \<in> {1, 2, 3} \<Longrightarrow> driver_sane (chip_of d j)"
    and reports_leave: "i \<in> good \<Longrightarrow> c i (rn_Success d s) = c i s" "i \<in> good \<Longrightarrow> c i (rn_Failure d s) = c i s"

lemma three_cases: "i \<in> {1, 2, 3 :: nat} \<Longrightarrow> (i = 1 \<Longrightarrow> P) \<Longrightarrow> (i = 2 \<Longrightarrow> P) \<Longrightarrow> (i = 3 \<Longrightarrow> P) \<Longrightarrow> P"
  by blast

lemma two_of_three:
  assumes "good \<subseteq> {1, 2, 3 :: nat}" and "2 \<le> card good"
  shows "1 \<in> good \<and> 2 \<in> good \<or> 1 \<in> good \<and> 3 \<in> good \<or> 2 \<in> good \<and> 3 \<in> good"
proof (rule ccontr)
  assume "\<not> ?thesis"
  then have "good \<subseteq> {1} \<or> good \<subseteq> {2} \<or> good \<subseteq> {3}" using assms(1) by blast
  then have "card good \<le> 1"
    using card_mono [of "{1}" good] card_mono [of "{2}" good] card_mono [of "{3}" good] by auto
  then show False using assms(2) by simp
qed

context redundant_memory
begin

lemma chips: "chip_of d 1 = rn_1 d" "chip_of d 2 = rn_2 d" "chip_of d 3 = rn_3 d"
  by (simp_all add: chip_of_def)

lemma good_number: "i \<in> good \<Longrightarrow> i \<in> {1, 2, 3}"
  using two_good(1) by blast

text \<open>Waiting on the three chips in turn.\<close>

lemma waited:
  assumes "OperationWaiter_Wait (chip_of d j) w s = Some (r, w', t)" and "j \<in> {1, 2, 3}" and "i \<in> good" and "j \<noteq> i"
  shows "c i t = c i s"
  using assms(1) others_leave [OF assms(3,2,4)]
  by (auto simp: OperationWaiter_Wait_def driver_leaves_def case_prod_beta split: option.splits if_splits)

lemma waited_own:
  assumes "OperationWaiter_Wait (chip_of d i) w s = Some (r, w', t)" and "i \<in> good" and "started (ow_timeout w) (c i s)"
    and "w = OperationWaiter_new (ow_timeout w) flag" and "flag = FlagStatus_ProgramError \<or> flag = FlagStatus_EraseError"
  shows "r = Operation_Success \<and> ready (c i t) \<and> m (c i t) = m (c i s)"
proof -
  have "ow_waitResult w = None" "ow_driver w" "ow_errorStatus w = flag"
    using assms(4) by (metis OperationWaiter_new_def OperationWaiter.select_convs)+
  then show ?thesis
    using assms(1) nor_memory.wait_works [OF good_works [OF assms(2)] assms(3,5)]
    by (auto simp: OperationWaiter_Wait_def case_prod_beta prod_eq_iff)
qed

lemma wait_returns: "ow_driver w \<Longrightarrow> \<exists>r w' t. OperationWaiter_Wait dr w s = Some (r, w', t)"
  by (cases "ow_waitResult w") (auto simp: OperationWaiter_Wait_def case_prod_beta)

lemma waited_drop: "OperationWaiter_Wait dr w s = Some (r, w', t) \<Longrightarrow> OperationWaiter_drop dr w' u = u"
  by (cases "ow_waitResult w") (auto simp: OperationWaiter_Wait_def OperationWaiter_drop_def case_prod_beta split: if_splits)

lemma three_done:
  assumes begun: "\<And>i s w t. i \<in> good \<Longrightarrow> ready (c i s) \<Longrightarrow> begin_on (chip_of d i) s = (w, t) \<Longrightarrow>
      w = OperationWaiter_new (ow_timeout w) flag \<and> started (ow_timeout w) (c i t) \<and> m (c i t) = f (m (c i s))"
    and other: "\<And>i j s. i \<in> good \<Longrightarrow> j \<in> {1, 2, 3} \<Longrightarrow> j \<noteq> i \<Longrightarrow> c i (snd (begin_on (chip_of d j) s)) = c i s"
    and driver: "\<And>j s. j \<in> {1, 2, 3} \<Longrightarrow> ow_driver (fst (begin_on (chip_of d j) s))"
    and flag: "flag = FlagStatus_ProgramError \<or> flag = FlagStatus_EraseError"
    and ready: "\<forall>i \<in> good. ready (c i s)"
  shows "\<exists>t. on_three d begin_on s = Some (Some Operation_Success, t)
    \<and> (\<forall>i \<in> good. ready (c i t) \<and> m (c i t) = f (m (c i s)))"
proof -
  obtain w1 s1 where b1: "begin_on (chip_of d 1) s = (w1, s1)" by fastforce
  obtain w2 s2 where b2: "begin_on (chip_of d 2) s1 = (w2, s2)" by fastforce
  obtain w3 s3 where b3: "begin_on (chip_of d 3) s2 = (w3, s3)" by fastforce
  have dr: "ow_driver w1" "ow_driver w2" "ow_driver w3"
    using driver [of 1 s] driver [of 2 s1] driver [of 3 s2] b1 b2 b3 by simp_all
  obtain r1 v1 s4 where a1: "OperationWaiter_Wait (chip_of d 1) w1 s3 = Some (r1, v1, s4)"
    using wait_returns [OF dr(1)] by metis
  obtain r2 v2 s5 where a2: "OperationWaiter_Wait (chip_of d 2) w2 s4 = Some (r2, v2, s5)"
    using wait_returns [OF dr(2)] by metis
  obtain r3 v3 s6 where a3: "OperationWaiter_Wait (chip_of d 3) w3 s5 = Some (r3, v3, s6)"
    using wait_returns [OF dr(3)] by metis
  have drop: "OperationWaiter_drop (chip_of d 1) v1 u = u" "OperationWaiter_drop (chip_of d 2) v2 u = u"
    "OperationWaiter_drop (chip_of d 3) v3 u = u" for u
    by (rule waited_drop [OF a1], rule waited_drop [OF a2], rule waited_drop [OF a3])
  have o: "on_three d begin_on s = Some (Vote r1 r2 r3, s6)"
    using b1 b2 b3 a1 a2 a3 drop unfolding chips by (simp add: on_three_def)
  have k1: "c i s1 = c i s" "c i s4 = c i s3" if "i \<in> good" "i \<noteq> 1" for i
    using other [of i 1 s] b1 waited [OF a1] that by auto
  have k2: "c i s2 = c i s1" "c i s5 = c i s4" if "i \<in> good" "i \<noteq> 2" for i
    using other [of i 2 s1] b2 waited [OF a2] that by auto
  have k3: "c i s3 = c i s2" "c i s6 = c i s5" if "i \<in> good" "i \<noteq> 3" for i
    using other [of i 3 s2] b3 waited [OF a3] that by auto
  have g1: "r1 = Operation_Success \<and> ready (c 1 s6) \<and> m (c 1 s6) = f (m (c 1 s))" if g: "1 \<in> good"
  proof -
    have b: "w1 = OperationWaiter_new (ow_timeout w1) flag" "started (ow_timeout w1) (c 1 s1)" "m (c 1 s1) = f (m (c 1 s))"
      using begun [OF g _ b1] ready g by auto
    then have "started (ow_timeout w1) (c 1 s3)" using k2(1) k3(1) g by simp
    from waited_own [OF a1 g this b(1) flag] show ?thesis using k2 k3 g b(3) by simp
  qed
  have g2: "r2 = Operation_Success \<and> ready (c 2 s6) \<and> m (c 2 s6) = f (m (c 2 s))" if g: "2 \<in> good"
  proof -
    have "ready (c 2 s1)" using k1(1) ready g by simp
    from begun [OF g this b2]
    have b: "w2 = OperationWaiter_new (ow_timeout w2) flag" "started (ow_timeout w2) (c 2 s2)" "m (c 2 s2) = f (m (c 2 s))"
      using k1(1) g by auto
    then have "started (ow_timeout w2) (c 2 s4)" using k1(2) k3(1) g by simp
    from waited_own [OF a2 g this b(1) flag] show ?thesis using k1 k3 g b(3) by simp
  qed
  have g3: "r3 = Operation_Success \<and> ready (c 3 s6) \<and> m (c 3 s6) = f (m (c 3 s))" if g: "3 \<in> good"
  proof -
    have "ready (c 3 s2)" using k1(1) k2(1) ready g by simp
    from begun [OF g this b3]
    have b: "w3 = OperationWaiter_new (ow_timeout w3) flag" "started (ow_timeout w3) (c 3 s3)" "m (c 3 s3) = f (m (c 3 s))"
      using k1(1) k2(1) g by auto
    then have "started (ow_timeout w3) (c 3 s5)" using k1(2) k2(2) g by simp
    from waited_own [OF a3 g this b(1) flag] show ?thesis using k1 k2 g b(3) by simp
  qed
  have "Vote r1 r2 r3 = Some Operation_Success"
    using two_of_three [OF two_good] g1 g2 g3 by (auto simp: Vote_def)
  moreover have "ready (c i s6) \<and> m (c i s6) = f (m (c i s))" if "i \<in> good" for i
    using good_number [OF that] that g1 g2 g3 by (auto elim!: three_cases)
  ultimately show ?thesis using o by (intro exI [of _ s6]) simp
qed

end


lemma two_copies_agree:
  "length d2 = length d1 \<Longrightarrow> length d3 = length d1 \<Longrightarrow> orig = d1 \<and> orig = d2 \<or> orig = d1 \<and> orig = d3 \<or> orig = d2 \<and> orig = d3 \<Longrightarrow>
     2 \<le> agree orig A [d1, d2, d3]"
  by (auto simp: agree_def)

lemma written_append:
  "written (a + length xs) ys (written a xs mem) = written a (xs @ ys) mem"
  by (rule ext) (auto simp: written_def nth_append)

lemma written_Nil [simp]: "written a [] mem = mem"
  by (rule ext) (auto simp: written_def)

lemma page_count: "256 * j < n \<Longrightarrow> j < (n + 255) div (256 :: nat)" "j < (n + 255) div 256 \<Longrightarrow> 256 * j < n"
  by (simp_all add: less_eq_div_iff_mult_less_eq Suc_le_eq [symmetric])

context redundant_memory
begin

lemma other_leaves:
  "i \<in> good \<Longrightarrow> j \<in> {1, 2, 3} \<Longrightarrow> j \<noteq> i \<Longrightarrow>
     c i (snd (nd_BeginEraseSector (chip_of d j) a s)) = c i s \<and> c i (snd (nd_BeginEraseSubSector (chip_of d j) a s)) = c i s
     \<and> c i (snd (nd_BeginWritePage (chip_of d j) a k p s)) = c i s \<and> c i (snd (nd_ReadMemory (chip_of d j) a b s)) = c i s"
  using others_leave [of i j] by (simp add: driver_leaves_def)

lemma erase_sector_done:
  assumes "\<forall>i \<in> good. ready (c i s)" and "unat a < memory_size"
  shows "\<exists>t. Redundant_EraseSector d a s = Some (Operation_Success, t)
    \<and> (\<forall>i \<in> good. ready (c i t) \<and> m (c i t) = erased 65536 (unat a) (m (c i s)))"
proof -
  have "\<exists>t. on_three d (\<lambda>x. nd_BeginEraseSector x a) s = Some (Some Operation_Success, t)
    \<and> (\<forall>i \<in> good. ready (c i t) \<and> m (c i t) = erased 65536 (unat a) (m (c i s)))"
  proof (rule three_done)
    fix i s w t
    assume "i \<in> good" "ready (c i s)" "nd_BeginEraseSector (chip_of d i) a s = (w, t)"
    then show "w = OperationWaiter_new (ow_timeout w) FlagStatus_EraseError \<and> started (ow_timeout w) (c i t)
      \<and> m (c i t) = erased 65536 (unat a) (m (c i s))"
      using nor_memory.erase_sector_works [OF good_works] assms(2) by blast
  qed (use assms(1) other_leaves sane in \<open>auto simp: driver_sane_def\<close>)
  then show ?thesis using reports_leave by (auto simp: Redundant_EraseSector_def erase_voted_def)
qed

lemma erase_subsector_done:
  assumes "\<forall>i \<in> good. ready (c i s)" and "unat a < memory_size"
  shows "\<exists>t. Redundant_EraseSubSector d a s = Some (Operation_Success, t)
    \<and> (\<forall>i \<in> good. ready (c i t) \<and> m (c i t) = erased 4096 (unat a) (m (c i s)))"
proof -
  have "\<exists>t. on_three d (\<lambda>x. nd_BeginEraseSubSector x a) s = Some (Some Operation_Success, t)
    \<and> (\<forall>i \<in> good. ready (c i t) \<and> m (c i t) = erased 4096 (unat a) (m (c i s)))"
  proof (rule three_done)
    fix i s w t
    assume "i \<in> good" "ready (c i s)" "nd_BeginEraseSubSector (chip_of d i) a s = (w, t)"
    then show "w = OperationWaiter_new (ow_timeout w) FlagStatus_EraseError \<and> started (ow_timeout w) (c i t)
      \<and> m (c i t) = erased 4096 (unat a) (m (c i s))"
      using nor_memory.erase_subsector_works [OF good_works] assms(2) by blast
  qed (use assms(1) other_leaves sane in \<open>auto simp: driver_sane_def\<close>)
  then show ?thesis using reports_leave by (auto simp: Redundant_EraseSubSector_def erase_voted_def)
qed

lemma page_done:
  assumes "\<forall>i \<in> good. ready (c i s)" and "unat (a + of_nat k) + length page \<le> memory_size" and "page \<noteq> []"
    and "unat (a + of_nat k) mod 256 + length page \<le> 256"
  shows "\<exists>t. on_three d (\<lambda>x. nd_BeginWritePage x a k page) s = Some (Some Operation_Success, t)
    \<and> (\<forall>i \<in> good. ready (c i t) \<and> m (c i t) = written (unat (a + of_nat k)) page (m (c i s)))"
proof (rule three_done)
  fix i s w t
  assume "i \<in> good" "ready (c i s)" "nd_BeginWritePage (chip_of d i) a k page s = (w, t)"
  then show "w = OperationWaiter_new (ow_timeout w) FlagStatus_ProgramError \<and> started (ow_timeout w) (c i t)
    \<and> m (c i t) = written (unat (a + of_nat k)) page (m (c i s))"
    using nor_memory.write_works [OF good_works] assms(2-4) by blast
next
  have "length page \<le> NqPageSize" using assms(4) by (simp add: NqPageSize_def)
  then show "ow_driver (fst (nd_BeginWritePage (chip_of d j) a k page s))" if "j \<in> {1, 2, 3}" for j s
    using sane [OF that] by (simp add: driver_sane_def)
qed (use assms(1) other_leaves in auto)

lemma pages_done:
  assumes "\<forall>i \<in> good. ready (c i s)" and "unat a + length bs \<le> memory_size" and "unat a mod 256 = 0"
  shows "\<exists>t. write_pages d a bs (map (\<lambda>i. NqPageSize * i) [j..<(length bs + NqPageSize - 1) div NqPageSize]) s
      = Some (Operation_Success, t)
    \<and> (\<forall>i \<in> good. ready (c i t) \<and> m (c i t) = written (unat a + 256 * j) (drop (256 * j) bs) (m (c i s)))"
  using assms(1)
proof (induction "(length bs + 255) div 256 - j" arbitrary: j s)
  case 0
  then have "\<not> 256 * j < length bs" using page_count(1) [of j "length bs"] by auto
  moreover have "[j..<(length bs + NqPageSize - 1) div NqPageSize] = []" using 0 by (simp add: NqPageSize_def)
  ultimately show ?case using 0 reports_leave by auto
next
  case (Suc x)
  have j: "j < (length bs + 255) div 256" using Suc.hyps(2) by simp
  then have k: "256 * j < length bs" by (rule page_count(2))
  let ?page = "sub_at (256 * j) (min NqPageSize (length bs - 256 * j)) bs"
  have p: "length ?page = min 256 (length bs - 256 * j)" by (simp add: sub_at_def NqPageSize_def)
  have n: "unat a + 256 * j < 2 ^ 32" using assms(2) k by (simp add: memory_size_def)
  then have a: "unat (a + of_nat (256 * j)) = unat a + 256 * j"
    by (simp add: unat_word_ariths unat_of_nat)
  have bounds: "unat (a + of_nat (256 * j)) + length ?page \<le> memory_size" "?page \<noteq> []"
    "unat (a + of_nat (256 * j)) mod 256 + length ?page \<le> 256"
    unfolding a p using assms(2,3) k p by (auto simp: mod_simps simp flip: length_greater_0_conv)
  obtain t where t: "on_three d (\<lambda>y. nd_BeginWritePage y a (256 * j) ?page) s = Some (Some Operation_Success, t)"
    "\<forall>i \<in> good. ready (c i t) \<and> m (c i t) = written (unat a + 256 * j) ?page (m (c i s))"
    using page_done [OF Suc.prems bounds] unfolding a by blast
  have r: "\<forall>i \<in> good. ready (c i t)" using t(2) by blast
  have x: "x = (length bs + 255) div 256 - Suc j" using Suc.hyps(2) by simp
  obtain u where u: "write_pages d a bs (map (\<lambda>i. NqPageSize * i) [Suc j..<(length bs + NqPageSize - 1) div NqPageSize]) t
      = Some (Operation_Success, u)"
    "\<forall>i \<in> good. ready (c i u) \<and> m (c i u) = written (unat a + 256 * Suc j) (drop (256 * Suc j) bs) (m (c i t))"
    using Suc.hyps(1) [OF x r] by blast
  have l: "[j..<(length bs + NqPageSize - 1) div NqPageSize] = j # [Suc j..<(length bs + NqPageSize - 1) div NqPageSize]"
    using j by (simp add: NqPageSize_def upt_rec)
  have w: "written (unat a + 256 * Suc j) (drop (256 * Suc j) bs) (written (unat a + 256 * j) ?page M)
      = written (unat a + 256 * j) (drop (256 * j) bs) M" for M
  proof (cases "256 * Suc j \<le> length bs")
    case True
    then have "length ?page = 256" using p by simp
    moreover have "drop (256 * j) bs = ?page @ drop (256 * Suc j) bs"
      using True by (simp add: sub_at_def NqPageSize_def flip: drop_drop)
    ultimately show ?thesis using written_append [of "unat a + 256 * j" ?page "drop (256 * Suc j) bs" M] by (simp add: algebra_simps)
  next
    case False
    then have "?page = drop (256 * j) bs" by (simp add: sub_at_def NqPageSize_def)
    then show ?thesis using False by simp
  qed
  have "\<forall>i \<in> good. ready (c i u) \<and> m (c i u) = written (unat a + 256 * j) (drop (256 * j) bs) (m (c i s))"
    using t(2) u(2) w by simp
  moreover have q: "NqPageSize * j = 256 * j" by (simp add: NqPageSize_def)
  ultimately show ?case using t(1) u(1) unfolding l list.map write_pages.simps q by (simp del: mult_cancel2)
qed

lemma write_done:
  assumes "\<forall>i \<in> good. ready (c i s)" and "unat a + length bs \<le> memory_size" and "unat a mod 256 = 0"
  shows "\<exists>t. Redundant_WriteMemory d a bs s = Some (Operation_Success, t)
    \<and> (\<forall>i \<in> good. ready (c i t) \<and> m (c i t) = written (unat a) bs (m (c i s)))"
  using pages_done [OF assms, of 0] by (simp add: Redundant_WriteMemory_def page_offsets_def)

end


definition reads_succeed :: "'s RedundantN25QDriver \<Rightarrow> bool" where
  "reads_succeed d \<longleftrightarrow> (\<forall>j \<in> {1, 2, 3}. \<forall>a b s. fst (fst (nd_ReadMemory (chip_of d j) a b s)) = OS_Success)"

context redundant_memory
begin

lemma read_one:
  assumes "j \<in> {1, 2, 3}" and "\<forall>i \<in> good. ready (c i s) \<and> (\<forall>k < length bs. m (c i s) (unat a + k) = bs ! k)"
    and "unat a + length bs \<le> memory_size" and "length buffer = length bs"
    and "nd_ReadMemory (chip_of d j) a buffer s = ((r, b), t)"
  shows "length b = length bs" "j \<in> good \<Longrightarrow> r = OS_Success \<and> b = bs"
    "\<forall>i \<in> good. ready (c i t) \<and> m (c i t) = m (c i s)"
proof -
  show "length b = length bs" using sane [OF assms(1)] assms(4,5) unfolding driver_sane_def by (metis fst_conv snd_conv)
  have own: "r = OS_Success \<and> b = bs \<and> ready (c j t) \<and> m (c j t) = m (c j s)" if g: "j \<in> good"
  proof -
    have p: "ready (c j s)" "\<forall>k < length bs. m (c j s) (unat a + k) = bs ! k" using assms(2) g by auto
    have l: "unat a + length buffer \<le> memory_size" using assms(3,4) by simp
    have "map (\<lambda>i. m (c j s) (unat a + i)) [0..<length bs] = bs" using p(2) by (intro nth_equalityI) simp_all
    then show ?thesis using nor_memory.read_works [OF good_works [OF g] p(1) l assms(5)] assms(4) by simp
  qed
  then show "j \<in> good \<Longrightarrow> r = OS_Success \<and> b = bs" by simp
  show "\<forall>i \<in> good. ready (c i t) \<and> m (c i t) = m (c i s)"
  proof
    fix i assume i: "i \<in> good"
    show "ready (c i t) \<and> m (c i t) = m (c i s)"
    proof (cases "i = j")
      case True
      then show ?thesis using own i by simp
    next
      case False
      then have "c i t = c i s" using other_leaves [OF i assms(1), of a s] assms(5) by (metis snd_conv)
      then show ?thesis using assms(2) i by simp
    qed
  qed
qed

lemma read_done:
  assumes "\<forall>i \<in> good. ready (c i s) \<and> (\<forall>k < length bs. m (c i s) (unat a + k) = bs ! k)"
    and "unat a + length bs \<le> memory_size" and "length bs mod 4 = 0"
    and "span_len out = length bs" "span_len b1 = length bs" "span_len b2 = length bs"
    and "IsAligned4 out" "IsAligned4 b1" "IsAligned4 b2"
    and "Redundant_ReadMemory d a out b1 b2 s = ((r, result), t)"
  shows "(r = OS_Success \<longrightarrow> result = bs) \<and> (reads_succeed d \<longrightarrow> r = OS_Success)
    \<and> (\<forall>i \<in> good. ready (c i t) \<and> m (c i t) = m (c i s))"
proof -
  obtain r1 o1 s1 where e1: "nd_ReadMemory (chip_of d 1) a (s_data out) s = ((r1, o1), s1)" by (metis prod.collapse)
  obtain r2 o2 s2 where e2: "nd_ReadMemory (chip_of d 2) a (s_data b1) s1 = ((r2, o2), s2)" by (metis prod.collapse)
  obtain r3 o3 s3 where e3: "nd_ReadMemory (chip_of d 3) a (s_data b2) (rn_Failure d s2) = ((r3, o3), s3)" by (metis prod.collapse)
  have len: "length (s_data out) = length bs" "length (s_data b1) = length bs" "length (s_data b2) = length bs"
    using assms(4-6) by (simp_all add: span_len_def)
  note p1 = read_one [OF _ assms(1,2) len(1) e1]
  have h1: "\<forall>i \<in> good. ready (c i s1) \<and> (\<forall>k < length bs. m (c i s1) (unat a + k) = bs ! k)" using p1(3) assms(1) by simp
  note p2 = read_one [OF _ h1 assms(2) len(2) e2]
  have h2: "\<forall>i \<in> good. ready (c i (rn_Failure d s2)) \<and> (\<forall>k < length bs. m (c i (rn_Failure d s2)) (unat a + k) = bs ! k)"
    using p2(3) h1 reports_leave by simp
  note p3 = read_one [OF _ h2 assms(2) len(3) e3]
  have m2: "\<forall>i \<in> good. ready (c i s2) \<and> m (c i s2) = m (c i s)" using p1(3) p2(3) by simp
  have m3: "\<forall>i \<in> good. ready (c i s3) \<and> m (c i s3) = m (c i s)" using m2 p3(3) reports_leave by simp
  have l: "length o1 = length bs" "length o2 = length bs" "length o3 = length bs" using p1(1) p2(1) p3(1) by simp_all
  have ok: "reads_succeed d \<Longrightarrow> r1 = OS_Success \<and> r2 = OS_Success \<and> r3 = OS_Success"
    using e1 e2 e3 unfolding reads_succeed_def by (metis fst_conv insertCI)
  have red: "Redundant_ReadMemory d a out b1 b2 s =
      (if r1 \<noteq> OS_Success then ((r1, o1), s1)
       else if r2 \<noteq> OS_Success then ((r2, o1), s2)
       else if o1 = o2 then ((OS_Success, o1), rn_Success d s2)
       else if r3 \<noteq> OS_Success then ((r3, o1), s3)
       else ((OS_Success, snd (CorrectBuffer_inplace \<lparr>s_addr = s_addr out, s_data = o1\<rparr>
                \<lparr>s_addr = s_addr b1, s_data = o2\<rparr> \<lparr>s_addr = s_addr b2, s_data = o3\<rparr>)), s3))"
    using e1 e2 e3 len assms(4-6) unfolding chips by (simp add: Redundant_ReadMemory_def Let_def)
  have vote: "CorrectBuffer_inplace \<lparr>s_addr = s_addr out, s_data = o1\<rparr>
      \<lparr>s_addr = s_addr b1, s_data = o2\<rparr> \<lparr>s_addr = s_addr b2, s_data = o3\<rparr> = (True, bs)" (is ?vote)
  proof (rule CorrectBuffer_inplace_repairs)
    have "bs = o1 \<and> bs = o2 \<or> bs = o1 \<and> bs = o3 \<or> bs = o2 \<and> bs = o3"
      using two_of_three [OF two_good] p1(2) p2(2) p3(2) by auto
    then show "\<forall>A < 8 * span_len \<lparr>s_addr = s_addr out, s_data = o1\<rparr>. 2 \<le> agree bs A
        [s_data \<lparr>s_addr = s_addr out, s_data = o1\<rparr>, s_data \<lparr>s_addr = s_addr b1, s_data = o2\<rparr>,
         s_data \<lparr>s_addr = s_addr b2, s_data = o3\<rparr>]"
      using two_copies_agree [of o2 o1 o3 bs] l by simp
  qed (use l assms(3,7-9) in \<open>simp_all add: span_len_def IsAligned4_def\<close>)
  have same: "o1 = o2 \<Longrightarrow> o1 = bs" using two_of_three [OF two_good] p1(2) p2(2) by auto
  show ?thesis
    using assms(10) ok m2 m3 p1(3) reports_leave same vote unfolding red by (auto split: if_splits)
qed

end


section \<open>The driver of a chip keeps the contract\<close>

text \<open>
  A slave that behaves like the chip of the data sheet. An operation takes no longer than the driver
  waits for it: \<open>P\<close> is a lower bound of the polls in a timeout.
\<close>

definition command_timeout :: "u8 \<Rightarrow> int" where
  "command_timeout cmd =
     (if cmd = NqCmd_ProgramMemory then ProgramPageTimeout else if cmd = NqCmd_EraseSector then EraseSectorTimeout
      else if cmd = NqCmd_EraseSubsector then EraseSubSectorTimeout
      else if cmd = NqCmd_EraseChip then EraseChipTimeOut else WriteStatusRegisterTimeout)"

locale n25q_slave =
  fixes c :: "'s \<Rightarrow> nor_chip" and d :: "'s N25QDriver" and P :: "int \<Rightarrow> nat"
  assumes slave_select: "c (spi_Select (nq_spi d) s) = chip_select (c s)"
    and slave_deselect: "\<exists>n. c (spi_Deselect (nq_spi d) s) = chip_deselect n (c s)
      \<and> (\<forall>x xs. ch_rx (c s) = Some (x # xs) \<longrightarrow> n \<le> P (command_timeout x))"
    and slave_write: "spi_Write (nq_spi d) bs s = (r, t) \<Longrightarrow> r = OS_Success \<and> c t = chip_write bs (c s)"
    and slave_read: "spi_Read (nq_spi d) buffer s = ((r, b), t) \<Longrightarrow>
      r = OS_Success \<and> (b, c t) = chip_read (length buffer) (c s)"
    and slave_reports: "c (nq_Failure d s) = c s" "c (nq_Success d s) = c s"
    and slave_polls: "P timeout \<le> nq_polls d timeout s"
    and slave_variable: "length (nq_uninitialised d n s) = n"

definition chip_ready :: "nor_chip \<Rightarrow> bool" where
  "chip_ready x \<longleftrightarrow> ch_rx x = None \<and> ch_flags x AND 0x30 = 0 \<and> ch_wait x = 0"

definition chip_started :: "(int \<Rightarrow> nat) \<Rightarrow> int \<Rightarrow> nor_chip \<Rightarrow> bool" where
  "chip_started P timeout x \<longleftrightarrow> ch_rx x = None \<and> ch_flags x AND 0x30 = 0 \<and> ch_wait x \<le> P timeout"

lemma address_bytes_value:
  assumes "unat a < memory_size"
  shows "chip_address (address_bytes a @ xs) = unat a"
proof -
  have b: "unat (ucast (drop_bit k a) :: u8) = unat a div 2 ^ k mod 256" for k
  proof -
    have "unat (ucast (drop_bit k a) :: u8) = unat (drop_bit k a) mod 256"
      by (simp only: unsigned_ucast_eq take_bit_eq_mod) simp
    moreover have "unat (drop_bit k a) = unat a div 2 ^ k" by (metis unat_drop_bit_eq drop_bit_eq_div)
    ultimately show ?thesis by metis
  qed
  have less: "unat a div 65536 < 256" using assms by (simp add: memory_size_def)
  have "unat a div 256 div 256 = unat a div 65536" by (simp add: div_mult2_eq [symmetric])
  then have parts: "256 * (unat a div 65536) + unat a div 256 mod 256 = unat a div 256"
    using mult_div_mod_eq [of 256 "unat a div 256"] by simp
  have sum: "65536 * A + 256 * W + M = n" if "256 * A + W = B" "256 * B + M = n" for A W B M n :: nat
    using that by simp
  show ?thesis
    using b [of 16] b [of 8] b [of 0] less sum [OF parts mult_div_mod_eq]
    by (simp add: chip_address_def address_bytes_def byte_mask)
qed

lemma programmed_written:
  assumes "a mod 256 + length bs \<le> 256"
  shows "programmed a bs mem = written a bs mem"
proof (rule ext)
  fix x :: nat
  obtain q r where x: "x = 256 * q + r" "r < 256" by (metis mult_div_mod_eq mod_less_divisor zero_less_numeral)
  obtain p u where a: "a = 256 * p + u" "u < 256" by (metis mult_div_mod_eq mod_less_divisor zero_less_numeral)
  have "x div 256 = q" "a div 256 = p" "a mod 256 = u" using x a by simp_all
  moreover have "(x + 256 - u) mod 256 = (if u \<le> r then r - u else r + 256 - u)"
  proof -
    have "x + 256 - u = 256 * q + (r + 256 - u)" using x a by simp
    then have "(x + 256 - u) mod 256 = (r + 256 - u) mod 256" by (simp only: mod_mult_self4)
    moreover have "(r + 256 - u) mod 256 = (if u \<le> r then r - u else r + 256 - u)"
    proof (cases "u \<le> r")
      case True
      then have "r + 256 - u = 256 + (r - u)" by simp
      then have "(r + 256 - u) mod 256 = (r - u) mod 256" by (simp only: mod_add_self1)
      then show ?thesis using True x(2) by simp
    qed (use x(2) a(2) in simp)
    ultimately show ?thesis by (rule trans)
  qed
  moreover have "u + length bs \<le> 256" using assms a by simp
  moreover have qp: "q = p" if "a \<le> x" "x < a + length bs"
  proof -
    have "256 * p < 256 * Suc q" "256 * q < 256 * Suc p" using that x a \<open>u + length bs \<le> 256\<close> by simp_all
    then have "p < Suc q" "q < Suc p" by simp_all
    then show ?thesis by simp
  qed
  moreover have "a \<le> x \<and> x < a + length bs \<longleftrightarrow> q = p \<and> u \<le> r \<and> r - u < length bs"
    using x a qp by auto
  moreover have "q = p \<Longrightarrow> x - a = r - u" using x a by simp
  ultimately show "programmed a bs mem x = written a bs mem x"
    by (auto simp: programmed_def written_def)
qed

lemma no_error_flag:
  assumes "flags AND 0x30 = (0 :: u8)"
  shows "\<not> byte_has_flag flags FlagStatus_EraseError" "\<not> byte_has_flag flags FlagStatus_ProgramError"
proof -
  have "flags AND 0x20 = (flags AND 0x30) AND 0x20" "flags AND 0x10 = (flags AND 0x30) AND 0x10"
    by (simp_all add: and.assoc)
  then show "\<not> byte_has_flag flags FlagStatus_EraseError" "\<not> byte_has_flag flags FlagStatus_ProgramError"
    using assms by (simp_all add: byte_has_flag_def FlagStatus_EraseError_def FlagStatus_ProgramError_def)
qed

lemma busy_flag: "byte_has_flag (chip_status x) Status_WriteInProgress \<longleftrightarrow> 0 < ch_wait x"
  by (simp add: byte_has_flag_def chip_status_def Status_WriteInProgress_def)

context n25q_slave
begin

lemma selected_one:
  assumes "ch_rx (c s) = None"
  shows "\<exists>n. c (snd (SPISelectSlave (nq_spi d) (Nq_Command d x) s)) = (chip_execute n [x] (c s))\<lparr>ch_rx := None\<rparr>
    \<and> n \<le> P (command_timeout x)"
proof -
  obtain r t where w: "spi_Write (nq_spi d) [x] (spi_Select (nq_spi d) s) = (r, t)" by fastforce
  have t: "c t = (c s)\<lparr>ch_rx := Some [x]\<rparr>"
    using slave_write [OF w] by (simp add: slave_select chip_select_def chip_write_def)
  obtain n where n: "c (spi_Deselect (nq_spi d) t) = chip_deselect n (c t)" "n \<le> P (command_timeout x)"
    using slave_deselect [of t] t by auto
  have "chip_deselect n (c t) = (chip_execute n [x] (c s))\<lparr>ch_rx := None\<rparr>"
    unfolding t by (simp add: chip_deselect_def chip_execute_def)
  then show ?thesis using n w by (auto simp: SPISelectSlave_def Nq_Command_def)
qed

lemma write_enabled:
  assumes "chip_ready (c s)"
  shows "c (N25Q_EnableWrite d s) = (c s)\<lparr>ch_wel := True\<rparr>"
proof -
  have r: "ch_rx (c s) = None" "ch_wait (c s) = 0" using assms by (simp_all add: chip_ready_def)
  then show ?thesis
    using selected_one [OF r(1), of NqCmd_WriteEnable] by (cases "c s") (auto simp: N25Q_EnableWrite_def chip_execute_def n25q_commands)
qed

lemma flags_cleared:
  assumes "chip_ready (c s)"
  shows "c (N25Q_ClearFlags d s) = (c s)\<lparr>ch_flags := ch_flags (c s) AND 0x0D\<rparr>"
proof -
  have r: "ch_rx (c s) = None" "ch_wait (c s) = 0" using assms by (simp_all add: chip_ready_def)
  then show ?thesis
    using selected_one [OF r(1), of NqCmd_ClearFlagRegister] by (cases "c s") (auto simp: N25Q_ClearFlags_def chip_execute_def n25q_commands)
qed

lemma command_answered:
  assumes "c s = x\<lparr>ch_rx := Some rx\<rparr>"
  shows "\<exists>t. Nq_CommandResponse d cmd buffer s
      = ((OS_Success, fst (chip_read (length buffer) (x\<lparr>ch_rx := Some (rx @ [cmd])\<rparr>))), t)
    \<and> c t = snd (chip_read (length buffer) (x\<lparr>ch_rx := Some (rx @ [cmd])\<rparr>))"
proof -
  obtain r u where w: "spi_Write (nq_spi d) [cmd] s = (r, u)" by fastforce
  have u: "r = OS_Success" "c u = x\<lparr>ch_rx := Some (rx @ [cmd])\<rparr>"
    using slave_write [OF w] assms by (simp_all add: chip_write_def)
  obtain r' b t where rd: "spi_Read (nq_spi d) buffer u = ((r', b), t)" by (metis prod.collapse)
  have "(b, c t) = chip_read (length buffer) (x\<lparr>ch_rx := Some (rx @ [cmd])\<rparr>)" "r' = OS_Success"
    using slave_read [OF rd] u(2) by simp_all
  then have "b = fst (chip_read (length buffer) (x\<lparr>ch_rx := Some (rx @ [cmd])\<rparr>))"
    "c t = snd (chip_read (length buffer) (x\<lparr>ch_rx := Some (rx @ [cmd])\<rparr>))" by (metis fst_conv, metis snd_conv)
  then show ?thesis using u(1) w rd \<open>r' = OS_Success\<close> by (simp add: Nq_CommandResponse_def)
qed

lemma busy_ends:
  assumes "c s = x\<lparr>ch_rx := Some rx\<rparr>" and "rx = [] \<or> hd rx = NqCmd_ReadStatusRegister" and "ch_wait x \<le> polls"
  shows "\<exists>t rx'. WaitBusy d polls s = (True, t) \<and> c t = x\<lparr>ch_wait := 0, ch_rx := Some (NqCmd_ReadStatusRegister # rx')\<rparr>"
  using assms
proof (induction polls arbitrary: s x rx)
  case 0
  obtain t where t: "Nq_CommandResponse d NqCmd_ReadStatusRegister [0] s
      = ((OS_Success, fst (chip_read 1 (x\<lparr>ch_rx := Some (rx @ [NqCmd_ReadStatusRegister])\<rparr>))), t)"
    "c t = snd (chip_read 1 (x\<lparr>ch_rx := Some (rx @ [NqCmd_ReadStatusRegister])\<rparr>))"
    using command_answered [OF 0(1), of NqCmd_ReadStatusRegister "[0]"] by auto
  have h: "hd (rx @ [NqCmd_ReadStatusRegister]) = NqCmd_ReadStatusRegister" using 0(2) by (cases rx) auto
  show ?case
    using t 0(3) h busy_flag [of "x\<lparr>ch_rx := Some (rx @ [NqCmd_ReadStatusRegister])\<rparr>"]
    by (cases rx; cases x) (auto simp: chip_read_def)
next
  case (Suc polls)
  let ?rx = "rx @ [NqCmd_ReadStatusRegister]"
  obtain t where t: "Nq_CommandResponse d NqCmd_ReadStatusRegister [0] s
      = ((OS_Success, fst (chip_read 1 (x\<lparr>ch_rx := Some ?rx\<rparr>))), t)" "c t = snd (chip_read 1 (x\<lparr>ch_rx := Some ?rx\<rparr>))"
    using command_answered [OF Suc.prems(1), of NqCmd_ReadStatusRegister "[0]"] by auto
  have h: "hd ?rx = NqCmd_ReadStatusRegister" using Suc.prems(2) by (cases rx) auto
  have ct: "c t = (x\<lparr>ch_wait := ch_wait x - 1\<rparr>)\<lparr>ch_rx := Some ?rx\<rparr>" using t(2) h by (simp add: chip_read_def)
  have b: "byte_has_flag (fst (chip_read 1 (x\<lparr>ch_rx := Some ?rx\<rparr>)) ! 0) Status_WriteInProgress \<longleftrightarrow> 0 < ch_wait x"
    using h busy_flag [of "x\<lparr>ch_rx := Some ?rx\<rparr>"] by (simp add: chip_read_def)
  show ?case
  proof (cases "0 < ch_wait x")
    case False
    then show ?thesis using t(1) b ct h by (cases rx; cases x) auto
  next
    case True
    have "ch_wait (x\<lparr>ch_wait := ch_wait x - 1\<rparr>) \<le> polls" using Suc.prems(3) by simp
    from Suc.IH [OF ct _ this] h obtain u rx' where
      "WaitBusy d polls t = (True, u)" "c u = x\<lparr>ch_wait := 0, ch_rx := Some (NqCmd_ReadStatusRegister # rx')\<rparr>" by auto
    then show ?thesis using t(1) b True by (intro exI [of _ u] exI [of _ rx']) simp
  qed
qed

end


lemma Retry_first: "fst (fst (action b s)) = OS_Success \<Longrightarrow> Retry NqRetryCount action l b s = action b s"
  by (simp add: NqRetryCount_def numeral_3_eq_3 case_prod_beta prod_eq_iff)

context n25q_slave
begin

text \<open>An answer to a command with nothing but a read after it, from the first try.\<close>

lemma deselected:
  assumes "c s = x\<lparr>ch_rx := Some rx\<rparr>" and "\<And>n. chip_execute n rx x = x" and "ch_rx x = None"
  shows "c (spi_Deselect (nq_spi d) s) = x"
proof -
  obtain n where n: "c (spi_Deselect (nq_spi d) s) = chip_deselect n (c s)" using slave_deselect by blast
  have e: "chip_execute n rx (x\<lparr>ch_rx := Some rx\<rparr>) = (chip_execute n rx x)\<lparr>ch_rx := Some rx\<rparr>"
    by (cases x) (simp add: chip_execute_def)
  have "c (spi_Deselect (nq_spi d) s) = x\<lparr>ch_rx := None\<rparr>"
    unfolding n assms(1) by (simp add: chip_deselect_def e assms(2))
  then show ?thesis using assms(3) by (cases x) simp
qed

lemma selected: "ch_rx (c s) = None \<Longrightarrow> c (spi_Select (nq_spi d) s) = (c s)\<lparr>ch_rx := Some []\<rparr>"
  by (simp add: slave_select chip_select_def)

lemma reads_execute_nothing:
  "hd rx = NqCmd_ReadStatusRegister \<or> hd rx = NqCmd_ReadFlagStatusRegister \<or> hd rx = NqCmd_ReadMemory \<Longrightarrow> chip_execute n rx x = x"
  by (elim disjE) (simp_all add: chip_execute_def n25q_commands)

lemma flag_status_read:
  assumes "ch_rx (c s) = None"
  shows "\<exists>t. N25Q_ReadFlagStatus d s = (ch_flags (c s), t) \<and> c t = c s"
proof -
  let ?s = "spi_Select (nq_spi d) s"
  have "c ?s = (c s)\<lparr>ch_rx := Some []\<rparr>" by (rule selected [OF assms])
  from command_answered [OF this, of NqCmd_ReadFlagStatusRegister "nq_uninitialised d 1 s"]
  obtain t where t: "Nq_CommandResponse d NqCmd_ReadFlagStatusRegister (nq_uninitialised d 1 s) ?s
      = ((OS_Success, [ch_flags (c s)]), t)"
    "c t = (c s)\<lparr>ch_rx := Some [NqCmd_ReadFlagStatusRegister]\<rparr>"
    by (auto simp: slave_variable chip_read_def n25q_commands)
  have "c (spi_Deselect (nq_spi d) t) = c s"
    using deselected [OF t(2) _ assms] reads_execute_nothing by simp
  moreover have "Retry NqRetryCount (\<lambda>b. SPISelectSlave (nq_spi d) (Nq_CommandResponse d NqCmd_ReadFlagStatusRegister b))
      OS_InvalidOperation (nq_uninitialised d 1 s) s = ((OS_Success, [ch_flags (c s)]), spi_Deselect (nq_spi d) t)"
    using t(1) by (subst Retry_first) (simp_all add: SPISelectSlave_def)
  ultimately show ?thesis by (simp add: N25Q_ReadFlagStatus_def)
qed

lemma operation_ends:
  assumes "chip_started P timeout (c s)" and "flag = FlagStatus_ProgramError \<or> flag = FlagStatus_EraseError"
    and "WaitForOperation d timeout flag s = (r, t)"
  shows "r = Operation_Success \<and> chip_ready (c t) \<and> ch_mem (c t) = ch_mem (c s)"
proof -
  let ?s = "spi_Select (nq_spi d) s"
  have a: "ch_rx (c s) = None" "ch_flags (c s) AND 0x30 = 0" "ch_wait (c s) \<le> P timeout"
    using assms(1) by (simp_all add: chip_started_def)
  have s: "c ?s = (c s)\<lparr>ch_rx := Some []\<rparr>" by (rule selected [OF a(1)])
  have "ch_wait (c s) \<le> nq_polls d timeout ?s" using a(3) slave_polls [of timeout ?s] by simp
  from busy_ends [OF s _ this] obtain u rx where u: "WaitBusy d (nq_polls d timeout ?s) ?s = (True, u)"
    "c u = ((c s)\<lparr>ch_wait := 0\<rparr>)\<lparr>ch_rx := Some (NqCmd_ReadStatusRegister # rx)\<rparr>" by auto
  let ?v = "spi_Deselect (nq_spi d) u"
  have v: "c ?v = (c s)\<lparr>ch_wait := 0\<rparr>"
    using deselected [OF u(2)] reads_execute_nothing a(1) by simp
  obtain w where w: "N25Q_ReadFlagStatus d ?v = (ch_flags (c s), w)" "c w = (c s)\<lparr>ch_wait := 0\<rparr>"
    using flag_status_read [of ?v] v a(1) by auto
  have "\<not> byte_has_flag (ch_flags (c s)) flag" using no_error_flag [OF a(2)] assms(2) by auto
  then have "r = Operation_Success" "t = nq_Success d w"
    using assms(3) u(1) w(1) by (auto simp: WaitForOperation_def SPISelectSlave_def)
  then show ?thesis using w(2) a slave_reports by (simp add: chip_ready_def)
qed

lemma memory_read:
  assumes "chip_ready (c s)" and "unat a + length buffer \<le> memory_size" and "N25Q_ReadMemory d a buffer s = ((r, b), t)"
  shows "r = OS_Success \<and> b = map (\<lambda>i. ch_mem (c s) (unat a + i)) [0..<length buffer] \<and> c t = c s"
proof -
  let ?s = "spi_Select (nq_spi d) s" and ?rx = "NqCmd_ReadMemory # address_bytes a"
  have ready: "ch_rx (c s) = None" "ch_wait (c s) = 0" using assms(1) by (simp_all add: chip_ready_def)
  obtain r1 u where w: "spi_Write (nq_spi d) ?rx ?s = (r1, u)" by fastforce
  have u: "r1 = OS_Success" "c u = (c s)\<lparr>ch_rx := Some ?rx\<rparr>"
    using slave_write [OF w] selected [OF ready(1)] by (simp_all add: chip_write_def)
  obtain r2 b2 v where rd: "spi_Read (nq_spi d) buffer u = ((r2, b2), v)" by (metis prod.collapse)
  have l: "length ?rx = 4" by (simp add: address_bytes_def)
  have m: "map (\<lambda>i. ch_mem (c s) ((chip_address (address_bytes a) + i) mod 2 ^ 24)) [0..<length buffer]
      = map (\<lambda>i. ch_mem (c s) (unat a + i)) [0..<length buffer]"
  proof (rule map_cong [OF refl])
    fix i assume "i \<in> set [0..<length buffer]"
    then have i: "unat a + i < memory_size" using assms(2) by simp
    then have "chip_address (address_bytes a) = unat a" using address_bytes_value [of a "[]"] by simp
    then show "ch_mem (c s) ((chip_address (address_bytes a) + i) mod 2 ^ 24) = ch_mem (c s) (unat a + i)"
      using i by (simp add: memory_size_def)
  qed
  have v: "r2 = OS_Success" "b2 = map (\<lambda>i. ch_mem (c s) (unat a + i)) [0..<length buffer]" "c v = (c s)\<lparr>ch_rx := Some ?rx\<rparr>"
    using slave_read [OF rd] u(2) ready(2) m l by (simp_all add: chip_read_def n25q_commands)
  have "c (spi_Deselect (nq_spi d) v) = c s"
    using deselected [OF v(3) _ ready(1)] reads_execute_nothing by simp
  moreover have "Retry NqRetryCount
      (\<lambda>buffer. SPISelectSlave (nq_spi d)
         (\<lambda>s. let (r, s) = spi_Write (nq_spi d) ?rx s
              in if r \<noteq> OS_Success then ((r, buffer), s) else spi_Read (nq_spi d) buffer s))
      OS_InvalidOperation buffer s = ((OS_Success, b2), spi_Deselect (nq_spi d) v)"
    using w rd u(1) v(1) by (subst Retry_first) (simp_all add: SPISelectSlave_def)
  ultimately show ?thesis
    using assms(3) v(2) slave_reports by (auto simp: N25Q_ReadMemory_def)
qed

lemma page_begun:
  assumes "chip_ready (c s)" and "unat (a + of_nat k) + length page \<le> memory_size" and "page \<noteq> []"
    and "unat (a + of_nat k) mod 256 + length page \<le> 256" and "N25Q_BeginWritePage d a k page s = (w, t)"
  shows "w = OperationWaiter_new ProgramPageTimeout FlagStatus_ProgramError \<and> chip_started P ProgramPageTimeout (c t)
    \<and> ch_mem (c t) = written (unat (a + of_nat k)) page (ch_mem (c s))"
proof -
  let ?s1 = "N25Q_EnableWrite d s"
  let ?s = "spi_Select (nq_spi d) ?s1" and ?rx = "NqCmd_ProgramMemory # address_bytes (a + of_nat k)"
  have ready: "ch_rx (c s) = None" "ch_wait (c s) = 0" "ch_flags (c s) AND 0x30 = 0" using assms(1) by (simp_all add: chip_ready_def)
  have s1: "c ?s1 = (c s)\<lparr>ch_wel := True\<rparr>" by (rule write_enabled [OF assms(1)])
  have s: "c ?s = (c s)\<lparr>ch_wel := True, ch_rx := Some []\<rparr>" using selected [of ?s1] s1 ready(1) by simp
  obtain r1 u where w1: "spi_Write (nq_spi d) ?rx ?s = (r1, u)" by fastforce
  have u: "c u = (c s)\<lparr>ch_wel := True, ch_rx := Some ?rx\<rparr>"
    using slave_write [OF w1] s by (simp add: chip_write_def)
  obtain r2 v where w2: "spi_Write (nq_spi d) page u = (r2, v)" by fastforce
  have v: "c v = (c s)\<lparr>ch_wel := True, ch_rx := Some (?rx @ page)\<rparr>"
    using slave_write [OF w2] u by (simp add: chip_write_def)
  obtain n where n: "c (spi_Deselect (nq_spi d) v) = chip_deselect n (c v)" "n \<le> P (command_timeout NqCmd_ProgramMemory)"
    using slave_deselect [of v] v by auto
  have l: "length (address_bytes (a + of_nat k)) = 3" "4 < length (?rx @ page)" "drop 3 (address_bytes (a + of_nat k) @ page) = page"
    using assms(3) by (simp_all add: address_bytes_def flip: length_greater_0_conv)
  have "unat (a + of_nat k) < memory_size" using assms(2,3) by (cases page) simp_all
  then have "chip_address (address_bytes (a + of_nat k) @ page) = unat (a + of_nat k)" by (rule address_bytes_value)
  then have "c (spi_Deselect (nq_spi d) v) = (c s)\<lparr>ch_wel := False, ch_rx := None, ch_wait := n,
      ch_mem := written (unat (a + of_nat k)) page (ch_mem (c s))\<rparr>"
    using n(1) v l ready(2) programmed_written [OF assms(4)]
    by (cases "c s") (simp add: chip_deselect_def chip_execute_def n25q_commands)
  moreover have "length page \<le> NqPageSize" using assms(4) by (simp add: NqPageSize_def)
  ultimately show ?thesis
    using assms(5) w1 w2 n(2) ready(3)
    by (auto simp: N25Q_BeginWritePage_def SPISelectSlave_def chip_started_def command_timeout_def)
qed

lemma erase_begun:
  assumes "chip_ready (c s)" and "unat a < memory_size"
    and "cmd = NqCmd_EraseSector \<and> k = 65536 \<or> cmd = NqCmd_EraseSubsector \<and> k = 4096"
    and "SPISelectSlave (nq_spi d) (\<lambda>s. N25Q_WriteAddress d a (snd (Nq_Command d cmd s)))
      (N25Q_EnableWrite d (N25Q_ClearFlags d s)) = (r, t)"
  shows "chip_started P (command_timeout cmd) (c t) \<and> ch_mem (c t) = erased k (unat a) (ch_mem (c s))"
proof -
  let ?cl = "N25Q_ClearFlags d s"
  let ?s1 = "N25Q_EnableWrite d ?cl"
  let ?s = "spi_Select (nq_spi d) ?s1"
  have ready: "ch_rx (c s) = None" "ch_wait (c s) = 0" "ch_flags (c s) AND 0x30 = 0" using assms(1) by (simp_all add: chip_ready_def)
  let ?f = "ch_flags (c s) AND 0x0D"
  have f: "?f AND 0x30 = 0" by (simp add: and.assoc)
  have s0: "c ?cl = (c s)\<lparr>ch_flags := ?f\<rparr>" by (rule flags_cleared [OF assms(1)])
  then have "chip_ready (c ?cl)" using ready f by (simp add: chip_ready_def)
  then have s1: "c ?s1 = (c s)\<lparr>ch_flags := ?f, ch_wel := True\<rparr>" using write_enabled s0 by simp
  have s: "c ?s = (c s)\<lparr>ch_flags := ?f, ch_wel := True, ch_rx := Some []\<rparr>" using selected [of ?s1] s1 ready(1) by simp
  obtain r1 u where w1: "spi_Write (nq_spi d) [cmd] ?s = (r1, u)" by fastforce
  have u: "c u = (c s)\<lparr>ch_flags := ?f, ch_wel := True, ch_rx := Some [cmd]\<rparr>"
    using slave_write [OF w1] s by (simp add: chip_write_def)
  obtain r2 v where w2: "spi_Write (nq_spi d) (address_bytes a) u = (r2, v)" by fastforce
  have v: "c v = (c s)\<lparr>ch_flags := ?f, ch_wel := True, ch_rx := Some (cmd # address_bytes a)\<rparr>"
    using slave_write [OF w2] u by (simp add: chip_write_def)
  obtain n where n: "c (spi_Deselect (nq_spi d) v) = chip_deselect n (c v)" "n \<le> P (command_timeout cmd)"
    using slave_deselect [of v] v by auto
  have l: "length (address_bytes a) = 3" by (simp add: address_bytes_def)
  have ad: "chip_address (address_bytes a) = unat a" using address_bytes_value [OF assms(2), of "[]"] by simp
  have "c (spi_Deselect (nq_spi d) v) = (c s)\<lparr>ch_flags := ?f, ch_wel := False, ch_rx := None, ch_wait := n,
      ch_mem := erased k (unat a) (ch_mem (c s))\<rparr>"
    using n(1) v l ready(2) ad assms(3)
    by (cases "c s") (auto simp: chip_deselect_def chip_execute_def n25q_commands)
  moreover have "t = spi_Deselect (nq_spi d) v"
    using assms(4) w1 w2 by (auto simp: SPISelectSlave_def Nq_Command_def N25Q_WriteAddress_def)
  ultimately show ?thesis using n(2) f by (simp add: chip_started_def)
qed

end

sublocale n25q_slave \<subseteq> memory: nor_memory c ch_mem chip_ready "chip_started P" "N25Q d"
proof
  fix s a buffer r b t
  assume "chip_ready (c s)" "unat a + length buffer \<le> memory_size" "nd_ReadMemory (N25Q d) a buffer s = ((r, b), t)"
  then show "r = OS_Success \<and> b = map (\<lambda>i. ch_mem (c s) (unat a + i)) [0..<length buffer] \<and> chip_ready (c t) \<and> ch_mem (c t) = ch_mem (c s)"
    using memory_read by (simp add: N25Q_def)
next
  fix s a k page w t
  assume "chip_ready (c s)" "unat (a + of_nat k) + length page \<le> memory_size" "page \<noteq> []"
    "unat (a + of_nat k) mod 256 + length page \<le> 256" "nd_BeginWritePage (N25Q d) a k page s = (w, t)"
  then show "w = OperationWaiter_new (ow_timeout w) FlagStatus_ProgramError \<and> chip_started P (ow_timeout w) (c t)
        \<and> ch_mem (c t) = written (unat (a + of_nat k)) page (ch_mem (c s))"
    using page_begun by (fastforce simp: N25Q_def OperationWaiter_new_def)
next
  fix s a w t
  assume a: "chip_ready (c s)" "unat a < memory_size" "nd_BeginEraseSector (N25Q d) a s = (w, t)"
  then show "w = OperationWaiter_new (ow_timeout w) FlagStatus_EraseError \<and> chip_started P (ow_timeout w) (c t)
        \<and> ch_mem (c t) = erased 65536 (unat a) (ch_mem (c s))"
    using erase_begun [OF a(1,2), of NqCmd_EraseSector 65536]
    by (auto simp: N25Q_def N25Q_BeginEraseSector_def OperationWaiter_new_def command_timeout_def n25q_commands case_prod_beta prod_eq_iff)
next
  fix s a w t
  assume a: "chip_ready (c s)" "unat a < memory_size" "nd_BeginEraseSubSector (N25Q d) a s = (w, t)"
  then show "w = OperationWaiter_new (ow_timeout w) FlagStatus_EraseError \<and> chip_started P (ow_timeout w) (c t)
        \<and> ch_mem (c t) = erased 4096 (unat a) (ch_mem (c s))"
    using erase_begun [OF a(1,2), of NqCmd_EraseSubsector 4096]
    by (auto simp: N25Q_def N25Q_BeginEraseSubSector_def OperationWaiter_new_def command_timeout_def n25q_commands case_prod_beta prod_eq_iff)
next
  fix timeout s flag r t
  assume "chip_started P timeout (c s)" "flag = FlagStatus_ProgramError \<or> flag = FlagStatus_EraseError"
    "nd_WaitForOperation (N25Q d) timeout flag s = (r, t)"
  then show "r = Operation_Success \<and> chip_ready (c t) \<and> ch_mem (c t) = ch_mem (c s)"
    using operation_ends by (simp add: N25Q_def)
qed


context n25q_slave
begin

lemma as_memory: "nor_memory c ch_mem chip_ready (chip_started P) (N25Q d)"
  by (rule memory.nor_memory_axioms)

end

section \<open>Three slaves\<close>

text \<open>The drivers as \<open>N25QStorage\<close> puts them together.\<close>

definition N25QStorage_driver :: "(nat \<Rightarrow> 's N25QDriver) \<Rightarrow> ('s \<Rightarrow> 's) \<Rightarrow> ('s \<Rightarrow> 's) \<Rightarrow> 's RedundantN25QDriver" where
  "N25QStorage_driver dr failure success =
     \<lparr>rn_1 = N25Q (dr 1), rn_2 = N25Q (dr 2), rn_3 = N25Q (dr 3), rn_Failure = failure, rn_Success = success\<rparr>"

text \<open>Nothing that the driver does to its slave touches the part \<open>c\<close> of the state.\<close>

definition slave_leaves :: "('s \<Rightarrow> 'c) \<Rightarrow> 's N25QDriver \<Rightarrow> bool" where
  "slave_leaves c d \<longleftrightarrow>
     (\<forall>s. c (spi_Select (nq_spi d) s) = c s) \<and> (\<forall>s. c (spi_Deselect (nq_spi d) s) = c s)
     \<and> (\<forall>bs s. c (snd (spi_Write (nq_spi d) bs s)) = c s) \<and> (\<forall>b s. c (snd (spi_Read (nq_spi d) b s)) = c s)
     \<and> (\<forall>s. c (nq_Failure d s) = c s) \<and> (\<forall>s. c (nq_Success d s) = c s)"

text \<open>The bus itself works: transfers are reported as done, and fill the buffer they are given.\<close>

definition bus_works :: "'s N25QDriver \<Rightarrow> bool" where
  "bus_works d \<longleftrightarrow>
     (\<forall>bs s. fst (spi_Write (nq_spi d) bs s) = OS_Success)
     \<and> (\<forall>b s. fst (fst (spi_Read (nq_spi d) b s)) = OS_Success \<and> length (snd (fst (spi_Read (nq_spi d) b s))) = length b)"

text \<open>\<open>good\<close> are the numbers of the slaves that are chips in order; what the third one answers is open.\<close>

definition two_chips_work ::
  "(nat \<Rightarrow> 's \<Rightarrow> nor_chip) \<Rightarrow> (int \<Rightarrow> nat) \<Rightarrow> (nat \<Rightarrow> 's N25QDriver) \<Rightarrow> ('s \<Rightarrow> 's) \<Rightarrow> ('s \<Rightarrow> 's) \<Rightarrow> nat set \<Rightarrow> bool" where
  "two_chips_work c P dr failure success good \<longleftrightarrow>
     good \<subseteq> {1, 2, 3} \<and> 2 \<le> card good \<and> (\<forall>i \<in> good. n25q_slave (c i) (dr i) P)
     \<and> (\<forall>i \<in> good. \<forall>j \<in> {1, 2, 3}. j \<noteq> i \<longrightarrow> slave_leaves (c i) (dr j))
     \<and> (\<forall>j \<in> {1, 2, 3}. bus_works (dr j)) \<and> (\<forall>i \<in> good. \<forall>s. c i (failure s) = c i s \<and> c i (success s) = c i s)"

lemma Retry_leaves: "(\<And>b s. c (snd (action b s)) = c s) \<Longrightarrow> c (snd (Retry n action l b s)) = c s"
  by (induction n arbitrary: l b s) (simp_all add: case_prod_beta)

lemma WaitBusy_leaves:
  "slave_leaves c d \<Longrightarrow> c (snd (WaitBusy d n s)) = c s"
  by (induction n arbitrary: s) (simp_all add: slave_leaves_def Nq_CommandResponse_def case_prod_beta)

lemma N25Q_leaves:
  assumes "slave_leaves c d"
  shows "driver_leaves c (N25Q d)"
proof -
  note l = assms [unfolded slave_leaves_def]
  have sel: "c (snd (SPISelectSlave (nq_spi d) action s)) = c s" if "\<And>s. c (snd (action s)) = c s" for action :: "'a \<Rightarrow> 'c \<times> 'a" and s
    using l that by (simp add: SPISelectSlave_def case_prod_beta)
  have resp: "c (snd (Nq_CommandResponse d x b s)) = c s" for x b s
    using l by (simp add: Nq_CommandResponse_def case_prod_beta)
  have e: "c (N25Q_EnableWrite d s) = c s" "c (N25Q_ClearFlags d s) = c s" for s
    using l by (simp_all add: N25Q_EnableWrite_def N25Q_ClearFlags_def SPISelectSlave_def Nq_Command_def case_prod_beta)
  have f: "c (snd (N25Q_ReadFlagStatus d s)) = c s" for s
    using resp l by (simp add: N25Q_ReadFlagStatus_def case_prod_beta Retry_leaves SPISelectSlave_def)
  have "c (snd (N25Q_ReadMemory d a b s)) = c s" for a b s
    using l by (simp add: N25Q_ReadMemory_def case_prod_beta Retry_leaves SPISelectSlave_def)
  moreover have "c (snd (N25Q_BeginWritePage d a k p s)) = c s" for a k p s
    using l e by (simp add: N25Q_BeginWritePage_def SPISelectSlave_def case_prod_beta)
  moreover have "c (snd (N25Q_BeginEraseSector d a s)) = c s" "c (snd (N25Q_BeginEraseSubSector d a s)) = c s" for a s
    using l e by (simp_all add: N25Q_BeginEraseSector_def N25Q_BeginEraseSubSector_def SPISelectSlave_def
        N25Q_WriteAddress_def Nq_Command_def case_prod_beta)
  moreover have "c (snd (WaitForOperation d T g s)) = c s" for T g s
    using l f WaitBusy_leaves [OF assms] by (simp add: WaitForOperation_def SPISelectSlave_def case_prod_beta)
  ultimately show ?thesis by (simp add: driver_leaves_def N25Q_def)
qed

lemma bus_read:
  assumes "bus_works d"
  shows "fst (fst (N25Q_ReadMemory d a b s)) = OS_Success" "length (snd (fst (N25Q_ReadMemory d a b s))) = length b"
proof -
  let ?act = "\<lambda>buffer. SPISelectSlave (nq_spi d)
                 (\<lambda>s. let (r, s) = spi_Write (nq_spi d) (NqCmd_ReadMemory # address_bytes a) s
                      in if r \<noteq> OS_Success then ((r, buffer), s) else spi_Read (nq_spi d) buffer s)"
  have a: "fst (fst (?act b s)) = OS_Success \<and> length (snd (fst (?act b s))) = length b"
    using assms by (simp add: bus_works_def SPISelectSlave_def case_prod_beta)
  then have "Retry NqRetryCount ?act OS_InvalidOperation b s = ?act b s" by (intro Retry_first) simp
  then show "fst (fst (N25Q_ReadMemory d a b s)) = OS_Success" "length (snd (fst (N25Q_ReadMemory d a b s))) = length b"
    using a by (simp_all add: N25Q_ReadMemory_def case_prod_beta)
qed

lemma N25Q_sane: "bus_works d \<Longrightarrow> driver_sane (N25Q d)"
  by (simp add: driver_sane_def N25Q_def bus_read N25Q_BeginWritePage_def N25Q_BeginEraseSector_def N25Q_BeginEraseSubSector_def
      OperationWaiter_new_def case_prod_beta)

lemma storage_chip: "j \<in> {1, 2, 3} \<Longrightarrow> chip_of (N25QStorage_driver dr failure success) j = N25Q (dr j)"
  by (auto simp: chip_of_def N25QStorage_driver_def)

lemma storage_works:
  assumes "two_chips_work c P dr failure success good"
  shows "redundant_memory c ch_mem chip_ready (chip_started P) (N25QStorage_driver dr failure success) good"
    "reads_succeed (N25QStorage_driver dr failure success)"
proof -
  note w = assms [unfolded two_chips_work_def]
  have g: "i \<in> good \<Longrightarrow> i \<in> {1, 2, 3}" for i using w by blast
  show "redundant_memory c ch_mem chip_ready (chip_started P) (N25QStorage_driver dr failure success) good"
  proof (rule redundant_memory.intro)
    fix i assume i: "i \<in> good"
    then have "n25q_slave (c i) (dr i) P" using w by blast
    then have nm: "nor_memory (c i) ch_mem chip_ready (chip_started P) (N25Q (dr i))"
      by (rule n25q_slave.as_memory)
    show "nor_memory (c i) ch_mem chip_ready (chip_started P) (chip_of (N25QStorage_driver dr failure success) i)"
      by (simp only: storage_chip [OF g [OF i]] nm)
  next
    fix i j assume i: "i \<in> good" "j \<in> {1, 2, 3}" "j \<noteq> i"
    then have "slave_leaves (c i) (dr j)" using w by blast
    then show "driver_leaves (c i) (chip_of (N25QStorage_driver dr failure success) j)"
      by (simp only: storage_chip [OF i(2)] N25Q_leaves)
  next
    fix j assume j: "j \<in> {1, 2, 3 :: nat}"
    then have "bus_works (dr j)" using w by blast
    then show "driver_sane (chip_of (N25QStorage_driver dr failure success) j)"
      by (simp only: storage_chip [OF j] N25Q_sane)
  qed (use w in \<open>auto simp: N25QStorage_driver_def\<close>)
  have "fst (fst (nd_ReadMemory (chip_of (N25QStorage_driver dr failure success) j) a b s)) = OS_Success"
    if j: "j \<in> {1, 2, 3}" for j a b s
  proof -
    have "bus_works (dr j)" using w j by blast
    then show ?thesis using bus_read(1) storage_chip [OF j, of dr failure success] by (simp add: N25Q_def)
  qed
  then show "reads_succeed (N25QStorage_driver dr failure success)" unfolding reads_succeed_def by blast
qed


section \<open>The flash as yaffs sees it\<close>

text \<open>
  What yaffs relies on: erasing a block fills its chunks with 0xFF, an erased chunk can be written. The
  16 MB are 256 blocks of 32 chunks of 2048 bytes.
\<close>

datatype flash_op = Op_Erase nat | Op_Write nat bytes

definition blank_chunk :: bytes where "blank_chunk = replicate 2048 0xFF"

fun flash_spec :: "flash_op list \<Rightarrow> (nat \<Rightarrow> bytes) \<Rightarrow> (nat \<Rightarrow> bytes) option" where
  "flash_spec [] f = Some f"
| "flash_spec (Op_Erase b # ops) f =
     (if b < 256 then flash_spec ops (\<lambda>k. if k div 32 = b then blank_chunk else f k) else None)"
| "flash_spec (Op_Write k bs # ops) f =
     (if k < 8192 \<and> length bs = 2048 \<and> f k = blank_chunk then flash_spec ops (f(k := bs)) else None)"

text \<open>The same operations on the device, as long as each reports success.\<close>

fun flash_run :: "'s N25QYaffsDevice \<Rightarrow> flash_op list \<Rightarrow> 's \<Rightarrow> 's option" where
  "flash_run dev [] s = Some s"
| "flash_run dev (Op_Erase b # ops) s =
     (case Nq_EraseBlock dev (int b) s of Some (True, s) \<Rightarrow> flash_run dev ops s | _ \<Rightarrow> None)"
| "flash_run dev (Op_Write k bs # ops) s =
     (case Nq_WriteChunk dev (int k) bs 0 s of Some (True, s) \<Rightarrow> flash_run dev ops s | _ \<Rightarrow> None)"

definition holds_chunks :: "(nat \<Rightarrow> 's \<Rightarrow> nor_chip) \<Rightarrow> nat set \<Rightarrow> (nat \<Rightarrow> bytes) \<Rightarrow> 's \<Rightarrow> bool" where
  "holds_chunks c good f s \<longleftrightarrow>
     (\<forall>k < 8192. length (f k) = 2048)
     \<and> (\<forall>i \<in> good. chip_ready (c i s) \<and> (\<forall>k < 8192. \<forall>x < 2048. ch_mem (c i s) (2048 * k + x) = f k ! x))"

lemma StorageDevice_param:
  "yp_total_bytes_per_chunk (yd_param (StorageDevice d b1 b2)) = 2048"
  "yp_chunks_per_block (yd_param (StorageDevice d b1 b2)) = 32"
  "yd_driver (StorageDevice d b1 b2) = d" "yd_blockMapping (StorageDevice d b1 b2) = Map_Sector"
  "yd_redundantReadBuffer1 (StorageDevice d b1 b2) = b1" "yd_redundantReadBuffer2 (StorageDevice d b1 b2) = b2"
  by (simp_all add: StorageDevice_def N25QYaffsDevice_new_def)

lemma chunk_address:
  assumes "k < 8192"
  shows "unat (of_int (int k) * 2048 :: u32) = 2048 * k"
proof -
  have "(of_int (int k) * 2048 :: u32) = of_nat (2048 * k)" by simp
  then show ?thesis using assms by (simp only: unat_of_nat) simp
qed

lemma block_address:
  assumes "b < 256"
  shows "unat (of_int (int b) * 32 * 2048 :: u32) = 65536 * b"
proof -
  have "(of_int (int b) * 32 * 2048 :: u32) = of_nat (65536 * b)" by simp
  then show ?thesis using assms by (simp only: unat_of_nat) simp
qed

lemma chunk_in_block: "x < 2048 \<Longrightarrow> (2048 * k + x) div 65536 = k div (32 :: nat)"
proof -
  assume x: "x < 2048"
  have "(2048 * k + x) div 2048 = k" using x by simp
  then show ?thesis using div_mult2_eq [of "2048 * k + x" 2048 32] by simp
qed

lemma other_chunk:
  assumes "x < 2048" and "j \<noteq> k"
  shows "\<not> (2048 * k \<le> 2048 * j + x \<and> 2048 * j + x < 2048 * k + (2048 :: nat))"
  using assms by (cases "j < k") auto

lemma and_blank: "b < 2048 \<Longrightarrow> blank_chunk ! b AND v = v"
  by (simp add: blank_chunk_def low_byte_mask)  (rule bit_word_eqI, simp add: bit_simps)

text \<open>
  C6. The flash memory of the file system implements the flash that yaffs relies on, with any one of its
  three chips broken: every erase and write that is allowed there succeeds, and every chunk then reads
  as it should be, whatever the broken chip answers. The SPI bus the chips share has to work, and the
  buffers to be aligned to words.
\<close>

theorem flash_survives_chip:
  assumes "two_chips_work c P dr failure success good" and "holds_chunks c good f s" and "flash_spec ops f = Some f'"
    and "dev = StorageDevice (N25QStorage_driver dr failure success) b1 b2"
    and "span_len b1 = 2048" "span_len b2 = 2048" "IsAligned4 b1" "IsAligned4 b2"
  shows "\<exists>t. flash_run dev ops s = Some t
    \<and> (\<forall>k data. k < 8192 \<and> span_len data = 2048 \<and> IsAligned4 data \<longrightarrow>
          fst (Nq_ReadChunk dev (int k) data 0 t) = (True, True, f' k))"
proof -
  let ?d = "N25QStorage_driver dr failure success"
  note works = storage_works [OF assms(1)]
  have erase: "\<exists>t. Nq_EraseBlock dev (int b) s = Some (True, t)
      \<and> holds_chunks c good (\<lambda>k. if k div 32 = b then blank_chunk else f k) t"
    if h: "holds_chunks c good f s" and b: "b < 256" for f s b
  proof -
    let ?a = "of_int (int b) * 32 * 2048 :: u32"
    have a: "unat ?a = 65536 * b" using b by (rule block_address)
    have r: "\<forall>i \<in> good. chip_ready (c i s)" using h by (simp add: holds_chunks_def)
    have sz: "unat ?a < memory_size" unfolding a using b by (simp add: memory_size_def)
    obtain t where t: "Redundant_EraseSector ?d ?a s = Some (Operation_Success, t)"
      "\<forall>i \<in> good. chip_ready (c i t) \<and> ch_mem (c i t) = erased 65536 (65536 * b) (ch_mem (c i s))"
      using redundant_memory.erase_sector_done [OF works(1) r sz] unfolding a by blast
    have "Nq_EraseBlock dev (int b) s = Some (True, t)"
      using t(1) by (simp add: Nq_EraseBlock_def assms(4) StorageDevice_param)
    moreover have "holds_chunks c good (\<lambda>k. if k div 32 = b then blank_chunk else f k) t"
      using h t(2) by (auto simp: holds_chunks_def erased_def chunk_in_block blank_chunk_def)
    ultimately show ?thesis by blast
  qed
  have wr: "\<exists>t. Nq_WriteChunk dev (int k) bs 0 s = Some (True, t) \<and> holds_chunks c good (f(k := bs)) t"
    if h: "holds_chunks c good f s" and k: "k < 8192" "length bs = 2048" "f k = blank_chunk" for f s k bs
  proof -
    let ?a = "of_int (int k) * 2048 :: u32"
    have a: "unat ?a = 2048 * k" using k(1) by (rule chunk_address)
    have r: "\<forall>i \<in> good. chip_ready (c i s)" using h by (simp add: holds_chunks_def)
    have sz: "unat ?a + length bs \<le> memory_size" "unat ?a mod 256 = 0"
      unfolding a using k by (simp_all add: memory_size_def mod_mult_left_eq [symmetric])
    obtain t where t: "Redundant_WriteMemory ?d ?a bs s = Some (Operation_Success, t)"
      "\<forall>i \<in> good. chip_ready (c i t) \<and> ch_mem (c i t) = written (2048 * k) bs (ch_mem (c i s))"
      using redundant_memory.write_done [OF works(1) r sz] unfolding a by blast
    have "Nq_WriteChunk dev (int k) bs 0 s = Some (True, t)"
      using t(1) by (simp add: Nq_WriteChunk_def assms(4) StorageDevice_param)
    moreover have "written (2048 * k) bs (ch_mem (c i s)) (2048 * j + x) = (f(k := bs)) j ! x"
      if "i \<in> good" "j < 8192" "x < 2048" for i j x
    proof (cases "j = k")
      case True
      then have "ch_mem (c i s) (2048 * j + x) = blank_chunk ! x" using h that k by (simp add: holds_chunks_def)
      then show ?thesis using True that k and_blank by (simp add: written_def)
    next
      case False
      have "written (2048 * k) bs (ch_mem (c i s)) (2048 * j + x) = ch_mem (c i s) (2048 * j + x)"
        by (simp only: written_def k(2) other_chunk [OF that(3) False] if_False)
      then show ?thesis using h that False by (simp add: holds_chunks_def)
    qed
    ultimately show ?thesis using t(2) h k(2) by (auto simp: holds_chunks_def)
  qed
  have run: "flash_spec ops f = Some f' \<Longrightarrow> holds_chunks c good f s \<Longrightarrow>
      \<exists>t. flash_run dev ops s = Some t \<and> holds_chunks c good f' t" for ops f s
  proof (induction ops arbitrary: f s)
    case Nil
    then show ?case by simp
  next
    case (Cons op ops)
    then show ?case
    proof (cases op)
      case (Op_Erase b)
      with Cons.prems(1) have b: "b < 256" "flash_spec ops (\<lambda>k. if k div 32 = b then blank_chunk else f k) = Some f'"
        by (auto split: if_splits)
      then show ?thesis using Cons.IH erase [OF Cons.prems(2) b(1)] Op_Erase by fastforce
    next
      case (Op_Write k bs)
      with Cons.prems(1) have k: "k < 8192" "length bs = 2048" "f k = blank_chunk" "flash_spec ops (f(k := bs)) = Some f'"
        by (auto split: if_splits)
      then show ?thesis using Cons.IH wr [OF Cons.prems(2) k(1-3)] Op_Write by fastforce
    qed
  qed
  obtain t where t: "flash_run dev ops s = Some t" "holds_chunks c good f' t" using run [OF assms(3,2)] by blast
  have "fst (Nq_ReadChunk dev (int k) data 0 t) = (True, True, f' k)"
    if k: "k < 8192" "span_len data = 2048" "IsAligned4 data" for k data
  proof -
    let ?a = "of_int (int k) * 2048 :: u32"
    have a: "unat ?a = 2048 * k" using k(1) by (rule chunk_address)
    have l: "length (f' k) = 2048" using t(2) k(1) by (simp add: holds_chunks_def)
    have m: "\<forall>i \<in> good. chip_ready (c i t) \<and> (\<forall>x < length (f' k). ch_mem (c i t) (unat ?a + x) = f' k ! x)"
      unfolding a l using t(2) k(1) by (simp add: holds_chunks_def)
    have sz: "unat ?a + length (f' k) \<le> memory_size" "length (f' k) mod 4 = 0"
      unfolding a l using k(1) by (simp_all add: memory_size_def)
    have full: "span_first 2048 b1 = b1" "span_first 2048 b2 = b2"
      using assms(5,6) by (simp_all add: span_first_def span_len_def)
    obtain r out u where rd: "Redundant_ReadMemory ?d ?a data b1 b2 t = ((r, out), u)" by (metis prod.collapse)
    have "out = f' k"
      using redundant_memory.read_done [OF works(1) m sz _ _ _ k(3) assms(7,8) rd] k(2) l assms(5,6) works(2) by simp
    then show ?thesis
      using rd k(2) full assms(5) by (simp add: Nq_ReadChunk_def assms(4) StorageDevice_param)
  qed
  then show ?thesis using t(1) by blast
qed

text \<open>
  When the first chip cannot be read, although the other two hold the data and could be, a chunk is
  still reported as read without an error, with whatever is in the buffer.
\<close>

theorem failed_read_is_data:
  assumes "nd_ReadMemory (rn_1 (yd_driver dev)) (of_int k * yp_total_bytes_per_chunk (yd_param dev)) (s_data data) s = ((r, b), t)"
    and "r \<noteq> OS_Success" and "oob_len \<le> 0" and "span_len data \<le> span_len (yd_redundantReadBuffer1 dev)"
    and "span_len data \<le> span_len (yd_redundantReadBuffer2 dev)"
  shows "Nq_ReadChunk dev k data oob_len s = ((True, True, b), t)"
proof -
  have m: "min (span_len data) (min (span_len (span_first (span_len data) (yd_redundantReadBuffer1 dev)))
      (span_len (span_first (span_len data) (yd_redundantReadBuffer2 dev)))) = span_len data"
    using assms(4,5) by (simp add: span_first_def span_len_def)
  have d: "take (span_len data) (s_data data) = s_data data" "drop (span_len data) (s_data data) = []"
    by (simp_all add: span_len_def)
  show ?thesis
    using assms(1-4) m d by (simp add: Nq_ReadChunk_def Redundant_ReadMemory_def Let_def)
qed


section \<open>A simulation with a broken chip\<close>

definition sim_spi :: "nat \<Rightarrow> (nat \<Rightarrow> nor_chip) spi" where
  "sim_spi i =
     (if i = 1
      then \<lparr>spi_Select = (\<lambda>s. s), spi_Deselect = (\<lambda>s. s), spi_Write = (\<lambda>bs s. (OS_Success, s)),
            spi_Read = (\<lambda>b s. ((OS_Success, replicate (length b) 0x55), s))\<rparr>
      else \<lparr>spi_Select = (\<lambda>s. s(i := chip_select (s i))), spi_Deselect = (\<lambda>s. s(i := chip_deselect 2 (s i))),
            spi_Write = (\<lambda>bs s. (OS_Success, s(i := chip_write bs (s i)))),
            spi_Read = (\<lambda>b s. ((OS_Success, fst (chip_read (length b) (s i))), s(i := snd (chip_read (length b) (s i)))))\<rparr>)"

definition sim_driver :: "nat \<Rightarrow> (nat \<Rightarrow> nor_chip) N25QDriver" where
  "sim_driver i = \<lparr>nq_spi = sim_spi i, nq_Failure = (\<lambda>s. s), nq_Success = (\<lambda>s. s), nq_polls = (\<lambda>_ _. 5),
     nq_uninitialised = (\<lambda>n _. replicate n 0)\<rparr>"

lemma length_chip_read: "length (fst (chip_read n c)) = n"
  by (auto simp: chip_read_def split: option.split)

lemma sim_slave: "i \<noteq> 1 \<Longrightarrow> n25q_slave (\<lambda>s. s i) (sim_driver i) (\<lambda>_. 5)"
proof
  fix s assume "i \<noteq> 1"
  then show "\<exists>n. spi_Deselect (nq_spi (sim_driver i)) s i = chip_deselect n (s i)
      \<and> (\<forall>x xs. ch_rx (s i) = Some (x # xs) \<longrightarrow> n \<le> 5)"
    by (intro exI [of _ 2]) (simp add: sim_driver_def sim_spi_def)
qed (auto simp: sim_driver_def sim_spi_def)

interpretation chip2: n25q_slave "\<lambda>s. s 2" "sim_driver 2" "\<lambda>_. 5"
  by (rule sim_slave) simp

interpretation chip3: n25q_slave "\<lambda>s. s 3" "sim_driver 3" "\<lambda>_. 5"
  by (rule sim_slave) simp

lemma sim_two: "two_chips_work (\<lambda>i s. s i) (\<lambda>_. 5) sim_driver (\<lambda>s. s) (\<lambda>s. s) {2, 3}"
proof -
  have "slave_leaves (\<lambda>s. s i) (sim_driver j)" if "j \<noteq> i" for i j
    using that by (simp add: slave_leaves_def sim_driver_def sim_spi_def)
  moreover have "bus_works (sim_driver j)" for j
    by (simp add: bus_works_def sim_driver_def sim_spi_def length_chip_read)
  ultimately show ?thesis
    using chip2.n25q_slave_axioms chip3.n25q_slave_axioms by (simp add: two_chips_work_def)
qed

interpretation sim: redundant_memory "\<lambda>i s. s i" ch_mem chip_ready "chip_started (\<lambda>_. 5)"
  "N25QStorage_driver sim_driver (\<lambda>s. s) (\<lambda>s. s)" "{2, 3}"
  by (rule storage_works(1) [OF sim_two])

definition sim_start :: "nat \<Rightarrow> nor_chip" where
  "sim_start i = \<lparr>ch_mem = (\<lambda>_. 0), ch_wel = False, ch_flags = 0, ch_wait = 0, ch_rx = None\<rparr>"

definition sim_buffer :: span where
  "sim_buffer = \<lparr>s_addr = 0, s_data = replicate 2048 0\<rparr>"

theorem flash_survives_chip_witness:
  "\<exists>t. flash_run (StorageDevice (N25QStorage_driver sim_driver (\<lambda>s. s) (\<lambda>s. s)) sim_buffer sim_buffer)
         [Op_Erase 1, Op_Write 40 (replicate 2048 7)] sim_start = Some t
     \<and> fst (Nq_ReadChunk (StorageDevice (N25QStorage_driver sim_driver (\<lambda>s. s) (\<lambda>s. s)) sim_buffer sim_buffer) 40 sim_buffer 0 t)
         = (True, True, replicate 2048 7)"
proof -
  let ?f = "\<lambda>k :: nat. replicate 2048 0 :: bytes"
  let ?g = "(\<lambda>k. if k div 32 = 1 then blank_chunk else ?f k)(40 := replicate 2048 7)"
  have h: "holds_chunks (\<lambda>i s. s i) {2, 3} ?f sim_start"
    by (simp add: holds_chunks_def sim_start_def chip_ready_def)
  have sp: "flash_spec [Op_Erase 1, Op_Write 40 (replicate 2048 7)] ?f = Some ?g"
    by simp
  have b: "span_len sim_buffer = 2048" "IsAligned4 sim_buffer"
    by (simp_all add: sim_buffer_def span_len_def IsAligned4_def)
  from flash_survives_chip [OF sim_two h sp refl b(1) b(1) b(2) b(2)]
  obtain t where t: "flash_run (StorageDevice (N25QStorage_driver sim_driver (\<lambda>s. s) (\<lambda>s. s)) sim_buffer sim_buffer)
         [Op_Erase 1, Op_Write 40 (replicate 2048 7)] sim_start = Some t"
    "\<forall>k data. k < 8192 \<and> span_len data = 2048 \<and> IsAligned4 data \<longrightarrow>
          fst (Nq_ReadChunk (StorageDevice (N25QStorage_driver sim_driver (\<lambda>s. s) (\<lambda>s. s)) sim_buffer sim_buffer) (int k) data 0 t)
            = (True, True, ?g k)" by blast
  have "fst (Nq_ReadChunk (StorageDevice (N25QStorage_driver sim_driver (\<lambda>s. s) (\<lambda>s. s)) sim_buffer sim_buffer) 40 sim_buffer 0 t)
      = (True, True, replicate 2048 7)"
    using t(2) [rule_format, of 40 sim_buffer] b by simp
  then show ?thesis using t(1) by blast
qed

theorem failed_read_is_data_witness:
  "Nq_ReadChunk (StorageDevice
       \<lparr>rn_1 = (N25Q (sim_driver 1))\<lparr>nd_ReadMemory := (\<lambda>a b s. ((OS_Timeout, b), s))\<rparr>, rn_2 = N25Q (sim_driver 2),
        rn_3 = N25Q (sim_driver 3), rn_Failure = (\<lambda>s. s), rn_Success = (\<lambda>s. s)\<rparr> sim_buffer sim_buffer)
     40 \<lparr>s_addr = 0, s_data = [9, 9, 9, 9]\<rparr> 0 sim_start = ((True, True, [9, 9, 9, 9]), sim_start)"
  by (rule failed_read_is_data [where r = OS_Timeout])
    (simp_all add: StorageDevice_param span_len_def sim_buffer_def)

text \<open>
  An erase that two chips report as failed is counted as a success of the redundant device; a page that
  is not programmed is counted as a failure.
\<close>

lemma failed_erase_counted_as_success:
  assumes "on_three d (\<lambda>x. nd_BeginEraseSector x a) s = Some (Some Operation_Failure, t)"
  shows "Redundant_EraseSector d a s = Some (Operation_Failure, rn_Success d t)"
  using assms by (simp add: Redundant_EraseSector_def erase_voted_def)

text \<open>A status that cannot be read counts as not busy: the driver goes on at once.\<close>

lemma unread_status_not_busy:
  assumes "\<And>s. fst (spi_Write (nq_spi d) [NqCmd_ReadStatusRegister] s) \<noteq> OS_Success"
  shows "fst (WaitBusy d polls s)"
  using assms by (cases polls) (simp_all add: Nq_CommandResponse_def case_prod_beta byte_has_flag_def Status_WriteInProgress_def)

text \<open>Every chunk of the blocks that yaffs is told to use lies in the memory.\<close>

lemma storage_blocks_inside:
  "yp_start_block (yd_param (StorageDevice d b1 b2)) = 1" "yp_end_block (yd_param (StorageDevice d b1 b2)) = 252"
  by (simp_all add: StorageDevice_def N25QYaffsDevice_new_def)

end
