(* ===== verification/Spec2Isabelle.thy ===== *)
theory Spec2Isabelle
  imports Bit_Writer Crc Ecc Mission_Time Mission_Tasks Antenna_Task Burn_Tasks Telecommands Program_Upload Scrub_Task File_Telecommands I2c_Bus Satellite_Settings Request_Telecommands Copy_Boot_Slots Comm_Driver Experiment_Files N25q_Flash
begin

text \<open>
  PW-Sat2 on-board computer software: a verification development. Paths are relative to src/.

  The program. The on-board computer of the satellite runs FreeRTOS on one microcontroller. After a reset
  the boot loader (boot/) reads the boot settings from a triple FRAM, votes a program out of three slots
  of the program flash and starts it. The program initialises its hardware (libs/drivers) and runs
  tasks: the mission loop (libs/mission), which goes through a list of mission tasks that read and
  change the system state (libs/state); the driver of the transceiver, which polls for frames and gives
  them to the dispatcher of telecommands (libs/telecommunication, libs/obc/communication); the
  experiment controller (libs/experiments); the attitude control coordinator (libs/adcs); and the
  scrubber, which repairs memories (libs/scrubber, libs/obc/scrubbing). What has to survive a reset is
  the persistent state (libs/state, libs/obc/state), in the same FRAM. Failures of devices are counted
  (libs/error_counter, libs/obc/fdir), and too many of them power cycle the satellite.

  How the model is built. Machine integers are words of their width, times are the integers that the
  64-bit counts of \<open>std::chrono\<close> hold, strings are lists of bytes. An object is a record, an operation a
  function that returns the new record; an operation that reads past a buffer or does not return is
  \<open>None\<close>, or sets a fault flag where the code goes on. A device, the vendored file system and the
  operating system are parameters: records of functions on a world \<open>'w\<close> or \<open>'s\<close>, with what the code
  relies on as a locale; each locale is interpreted, and the layers of the program between two such
  interfaces are sublocales, so that a theorem about an upper layer holds on the model of the lower
  one. What a lock, a semaphore or a clock answers is an argument, so a theorem holds for each of
  their answers. Where two tasks run at the same time, the operation is cut at its accesses to shared
  state into a step relation.

  Shared theories.
    \<^item> Prelude: machine types, byte lists and words (\<open>le_bytes\<close>, \<open>le_word\<close>), updates of lists, and the
      collections \<open>byte_simps\<close>, \<open>run_simps\<close>, \<open>left_simps\<close> that evaluate serialisers and parsers.
    \<^item> Byte_Writer, Byte_Reader, Bit_Writer: libs/base/writer.cpp, reader.cpp, BitWriter.cpp. Every
      operation is an instance of one abstract operation (\<open>emit\<close>, \<open>fetch\<close>, \<open>bit_emit\<close>).
    \<^item> Crc, Ecc, Redundancy: libs/base/crc.cpp, ecc.cpp, redundancy.cpp. The checksum equals its bit-serial
      definition; the error correcting code corrects one bit and reports two; votes restore what
      survives in the majority.

  Time, errors and state.
    \<^item> Time_Point, Timer, Rtc, Mission_Time: libs/time, libs/drivers/rtc, libs/mission/time. The mission time
      is the sum of its increments, waiting tasks are woken, corrections lie between the clocks when no
      weight is negative; a signed overflow and a division by zero are \<open>None\<close>.
    \<^item> Error_Counter: libs/error_counter, libs/obc/fdir. Counters are saturated sums of the results reported.
    \<^item> State_Parts, Persistent_State, System_State: libs/state, libs/obc/state. Each part of the persistent
      state keeps the contract \<open>state_part\<close>, the container composes them; saving and loading is a round
      trip on the FRAM.
    \<^item> Fram: libs/drivers/fm25w. One chip, and the voted memory of three.

  Programs in flash.
    \<^item> Boot_Settings, Program_Flash: libs/boot_settings, libs/drivers/s29jl, libs/drivers/program_flash, with
      the locales \<open>byte_memory\<close>, \<open>nor_device\<close>, \<open>flash_driver\<close>.
    \<^item> Bootloader: boot/boot.cpp. The choice of the program implements a specification over the five
      fields of the settings; a program in slots that is never confirmed is given up.
    \<^item> Program_Upload, Copy_Boot_Slots: libs/obc/communication/telecommands/program_upload.cpp,
      libs/experiments/program. What is uploaded or copied arrives, and nothing else changes.
    \<^item> Scrubber, Scrub_Task: libs/scrubber, libs/obc/scrubbing. Damaged copies are restored, on a schedule that
      requested single runs advance.

  Mission.
    \<^item> Mission_Base: libs/mission/Include/mission. One iteration, and the task with its requests as a step
      relation.
    \<^item> Antenna_Task, Burn_Tasks, Mission_Tasks: libs/mission/antenna, obc, sail, sads and the smaller tasks.
    \<^item> Experiment_Files: libs/experiments/fs. What the experiments record is read back by the ground, and a
      lost packet costs only its own blocks; the locale \<open>recording_store\<close> is the file, clock and delegate.
    \<^item> Experiment_Controller, Adcs_Coordinator: libs/experiments/experiments.cpp, libs/adcs. The protocol of
      an experiment in every interleaving; one algorithm of attitude control at a time, those apart that could
      not be disabled.

  Communication.
    \<^item> I2c_Bus: libs/drivers/i2c, libs/obc/hardware. The driver, called by any number of tasks, with its lock and
      its interrupt as a step relation; error handling, fallback.
    \<^item> Comm_Driver: libs/drivers/comm, on the buses of I2c_Bus. The locale \<open>working_receiver\<close> is what the
      driver relies on of the receiver; it holds through error handling and fallback.
    \<^item> Telecommunication: libs/telecommunication. Frames, decoding, dispatch.
    \<^item> Telecommands, Satellite_Settings: the telecommands that set and report, each as a function from its
      parameters to the new state and the frames it sends; then all of them registered on one
      record, with the invariant of that record under any sequence of received frames.
    \<^item> Request_Telecommands: the telecommands that start something in another component.
    \<^item> File_System, File_Telecommands: libs/fs, and the telecommands on files, over the calls of yaffs.
    \<^item> N25q_Flash: libs/drivers/n25q, libs/obc/storage/n25q_flash. What yaffs stands on: one chip behind its SPI
      slave (locale \<open>n25q_slave\<close>, the chip of the data sheet), the driver of it as a \<open>nor_memory\<close>, and three
      of them with one broken (\<open>redundant_memory\<close>) as the chunks and blocks of the file system.

  Termination and fuel. Loops with a bound are structural recursions over the list of their indices, or
  have a measure. Loops that may not end are partial functions into \<open>option\<close>: the pages of the boot
  loader, copying of a file, listing of a directory, the frames of a report, the counters of the
  scrubber, waiting for the EEPROM, polling until the receiver is empty, and a block of data that needs
  several packets. For the file, the listing, the reports, the counters, the polling and the blocks, a theorem says that they return; the boot
  loader returns for lengths that fit an entry, and waiting for the EEPROM depends on the chip. The one
  count that stands for time is \<open>polls\<close>, how often a flash driver finds its timer running:
  theorems hold for every value of it that covers what the chip takes.

  Where the properties end. Each property states its conditions in its text; the ones the flight software
  can break, with the theorem that shows it: buffers that are not aligned to words are not voted
  (fram_read_votes), nor are single bytes (boot_masks_not_voted); masks with an upper bit set name fewer
  than three entries (slot_masks_disagree, copy_boot_slots_destroys); negative weights of the time
  correction (negative_weight_extrapolates); an algorithm that cannot be disabled
  (stuck_algorithm_joined); a stop in the middle of a burn (sail_stop_leaves_knife_on,
  sail_stop_powers_both_knives); a late interrupt of the I2C bus (i2c_stale_result); a block that fills a
  packet (full_packet_hides_next_block); a periodic message that is too long (overlong_message_overruns).

  Not modelled, and why.
    \<^item> Individual experiments (libs/experiments/suns, leop, sail, radfet, sads, camera, payload, fibo, flash,
      adcs): sequences of calls to devices, whose results they print. Modelled of them are the
      parameters that telecommands set, the files they write, and the copying of boot slots.
    \<^item> Telemetry (libs/telemetry): measurements of all devices, joined into a bit stream. Modelled are the
      bit writer and the telemetry of the transceiver.
    \<^item> The telecommand of suns.cpp, for the same reason, and the drivers of single devices (libs/drivers/
      antenna, imtq, payload, eps, gyro, suns, camera; libs/photo): layouts of commands and answers.
    \<^item> Storage and register level drivers (libs/drivers/spi, gpio, uart, libs/storage), the wrapper of the
      operating system, platforms, start-up code and the terminal for tests on the ground.
    \<^item> Vendored code (libs/external): FreeRTOS, yaffs, emlib. The calls into yaffs are parameters.
    \<^item> Logging, and counters that are only logged.
\<close>

end
